(* ===== verification/Jffi_Prelude.thy ===== *)
theory Jffi_Prelude
  imports Main "HOL-Library.Word" "HOL-Library.Monad_Syntax"
begin

text \<open>
  The vocabulary every component shares: the C and JNI integer types at their widths on an
  LP64 target, the pointer conversions of \<^verbatim>\<open>jni/jffi/jffi.h\<close>, the alignment macro
  \<open>FFI_ALIGN\<close> (defined three times in the sources, see below), and the facts about
  rounding an address up to a power of two that the layout and calling-convention proofs use.
\<close>

unbundle bit_operations_syntax

named_theorems layout_simps \<open>equations between the word-level and the nat-level layout\<close>
named_theorems monad_dest \<open>inversion of the option-and-state programs\<close>

section \<open>Integer types\<close>

type_synonym u8 = "8 word"
type_synonym u16 = "16 word"
type_synonym u32 = "32 word"
type_synonym u64 = "64 word"
type_synonym byte = "8 word"
type_synonym jint = "32 word"
type_synonym jlong = "64 word"
type_synonym jboolean = bool
type_synonym size_t = "64 word"
type_synonym addr = "64 word"

abbreviation (input) NULL :: addr where
  "NULL \<equiv> 0"

section \<open>Pointer conversions\<close>

text \<open>\<open>p2j\<close> and \<open>j2p\<close> go through \<open>uintptr_t\<close>; with 64-bit pointers both are the identity
  on the bits.\<close>

definition p2j :: "addr \<Rightarrow> jlong" where
  "p2j p = ucast p"

definition j2p :: "jlong \<Rightarrow> addr" where
  "j2p j = ucast j"

lemma p2j_j2p [simp]: "p2j (j2p j) = j"
  by (simp add: p2j_def j2p_def)

lemma j2p_p2j [simp]: "j2p (p2j p) = p"
  by (simp add: p2j_def j2p_def)

lemma j2p_0 [simp]: "j2p 0 = 0" and p2j_0 [simp]: "p2j 0 = 0"
  by (simp_all add: p2j_def j2p_def)

lemma j2p_eq_0 [simp]: "j2p j = 0 \<longleftrightarrow> j = 0"
  by (metis j2p_0 p2j_j2p)

lemma p2j_eq_0 [simp]: "p2j p = 0 \<longleftrightarrow> p = 0"
  by (metis p2j_0 j2p_p2j)

section \<open>The alignment macro\<close>

text \<open>
  \<open>FFI_ALIGN(v, a)\<close> is \<open>(((size_t) v - 1) | (a - 1)) + 1\<close>, on \<open>size_t\<close>. \<open>a\<close> is an
  \<open>unsigned short\<close> promoted to \<open>int\<close> at most uses, so it is zero-extended here; at
  \<open>a = 0\<close> the subtraction gives all ones in both readings.
\<close>

definition FFI_ALIGN :: "size_t \<Rightarrow> size_t \<Rightarrow> size_t" where
  "FFI_ALIGN v a = ((v - 1) OR (a - 1)) + 1"

definition align_up :: "nat \<Rightarrow> nat \<Rightarrow> nat" where
  "align_up n a = (n + a - 1) div a * a"

lemma nat_or_mask: "(m::nat) OR mask k = m div 2 ^ k * 2 ^ k + mask k"
proof -
  have "m OR mask k = push_bit k (drop_bit k m) OR mask k"
    by (rule bit_eqI) (auto simp: bit_simps)
  also have "\<dots> = push_bit k (drop_bit k m) + mask k"
    by (rule disjunctive_add [symmetric]) (auto simp: bit_simps)
  finally show ?thesis by (simp add: push_bit_eq_mult drop_bit_eq_div)
qed

lemma unat_pow2: "k < 64 \<Longrightarrow> unat (2 ^ k :: 64 word) = 2 ^ k"
  by transfer simp

lemma unat_mask64: "k < 64 \<Longrightarrow> unat (mask k :: 64 word) = mask k"
proof -
  assume k: "k < 64"
  then have "(2::64 word) ^ k \<noteq> 0" using unat_pow2 [OF k] by (metis power_not_zero unat_0 zero_neq_numeral)
  with unat_pow2 [OF k] show ?thesis
    by (simp add: mask_eq_exp_minus_1 mask_eq_decr_exp unat_minus_one)
qed

lemma FFI_ALIGN_zero [simp]: "FFI_ALIGN 0 a = 0"
  by (simp add: FFI_ALIGN_def)

lemma FFI_ALIGN_one [simp]: "FFI_ALIGN v 1 = v"
  by (simp add: FFI_ALIGN_def)

lemma FFI_ALIGN_align_zero [simp]: "FFI_ALIGN v 0 = 0"
  by (simp add: FFI_ALIGN_def)

text \<open>For a power of two and no overflow, the macro rounds up to the next multiple.\<close>

lemma unat_FFI_ALIGN:
  assumes k: "k < 64" and a: "a = 2 ^ k" and fits: "unat v + 2 ^ k \<le> 2 ^ 64"
  shows "unat (FFI_ALIGN v a) = align_up (unat v) (2 ^ k)"
proof (cases "v = 0")
  case True
  have "(2 ^ k - 1) div 2 ^ k = (0::nat)" by (intro div_less) simp
  with True show ?thesis by (simp add: align_up_def)
next
  case False
  let ?u = "v - 1"
  have v: "unat v = unat ?u + 1" and vpos: "0 < unat v"
    using False by (simp_all add: unat_minus_one unat_gt_0)
  have am: "a - 1 = mask k" by (simp add: a mask_eq_decr_exp)
  have um: "unat (mask k :: 64 word) = mask k"
    by (rule unat_mask64 [OF k])
  have o: "unat (?u OR (a - 1)) = unat ?u div 2 ^ k * 2 ^ k + mask k"
    by (simp only: am unsigned_or_eq um nat_or_mask)
  have mk: "mask k + 1 = (2::nat) ^ k" by (simp add: mask_eq_exp_minus_1)
  have up: "align_up (unat v) (2 ^ k) = unat ?u div 2 ^ k * 2 ^ k + 2 ^ k"
  proof -
    have "unat v + 2 ^ k - 1 = unat ?u + 2 ^ k" using v by simp
    then show ?thesis by (simp add: align_up_def div_add_self2)
  qed
  have "unat ?u div 2 ^ k * 2 ^ k \<le> unat ?u" by (rule div_times_less_eq_dividend)
  with fits v have lt: "unat ?u div 2 ^ k * 2 ^ k + 2 ^ k < 2 ^ 64" by linarith
  have "unat (FFI_ALIGN v a) = (unat (?u OR (a - 1)) + 1) mod 2 ^ 64"
    by (simp add: FFI_ALIGN_def unat_word_ariths)
  also have "\<dots> = (unat ?u div 2 ^ k * 2 ^ k + 2 ^ k) mod 2 ^ 64"
    using mk by (simp only: o add.assoc)
  also have "\<dots> = unat ?u div 2 ^ k * 2 ^ k + 2 ^ k" using lt by simp
  finally show ?thesis by (simp only: up)
qed

lemma align_up_dvd [simp]: "a dvd align_up n a"
  by (simp add: align_up_def)

lemma dvd_align_up: "b dvd a \<Longrightarrow> b dvd align_up n a"
  by (rule dvd_trans [OF _ align_up_dvd])

lemma align_up_eq: "0 < a \<Longrightarrow> align_up n a = n + a - 1 - (n + a - 1) mod a"
  by (simp add: align_up_def minus_mod_eq_div_mult)

lemma align_up_ge: "0 < a \<Longrightarrow> n \<le> align_up n a"
  using mod_less_divisor [of a "n + a - 1"] by (simp add: align_up_eq del: mod_less_divisor)

lemma align_up_less: "0 < a \<Longrightarrow> align_up n a < n + a"
  by (simp add: align_up_eq)

lemma align_up_dvd_same: "0 < a \<Longrightarrow> a dvd n \<Longrightarrow> align_up n a = n"
proof -
  assume a: "0 < a" and "a dvd n"
  then obtain q where q: "n = a * q" by blast
  have "(a * q + a - 1) div a = (a * q + (a - 1)) div a" using a by simp
  also have "\<dots> = q + (a - 1) div a" using a by (simp only: div_mult_self4)
  also have "\<dots> = q" using a by simp
  finally show ?thesis using q by (simp add: align_up_def mult.commute)
qed

lemma align_up_zero [simp]: "0 < a \<Longrightarrow> align_up 0 a = 0"
  by (simp add: align_up_dvd_same)

section \<open>Lengths as C integers\<close>

lemma sint_of_nat32: "n < 2 ^ 31 \<Longrightarrow> sint (of_nat n :: 32 word) = int n"
  by (simp add: sint_uint unsigned_of_nat signed_take_bit_int_eq_self take_bit_int_eq_self take_bit_nat_eq_self)

lemma unat_of_nat32: "n < 2 ^ 32 \<Longrightarrow> unat (of_nat n :: 32 word) = n"
  by (simp add: unsigned_of_nat take_bit_nat_eq_self)

lemma unat_of_nat64: "n < 2 ^ 64 \<Longrightarrow> unat (of_nat n :: 64 word) = n"
  by (simp add: unsigned_of_nat take_bit_nat_eq_self)

lemma scast_of_nat32: "n < 2 ^ 31 \<Longrightarrow> (scast (of_nat n :: 32 word) :: 64 word) = of_nat n"
  by (simp add: scast_eq sint_of_nat32)

lemma sint_jint_lt: "sint (i :: jint) < 2 ^ 31"
  using sint_lt [of i] by simp

lemma sint_plus1: "0 \<le> sint (len :: jint) \<Longrightarrow> sint len < 2 ^ 31 - 1 \<Longrightarrow> sint (len + 1) = sint len + 1"
  by (simp add: sint_word_ariths signed_take_bit_int_eq_self)

end
