(* ===== verification/Jffi_World.thy ===== *)
theory Jffi_World
  imports Jffi_Prelude
begin

text \<open>
  The state all native code shares and the two services every entry point uses: the C
  allocator and \<^verbatim>\<open>jni/jffi/Exception.c\<close>. Components extend the record \<open>world\<close> with the
  objects they own (libffi types, call contexts, closure magazines, ...), one typed map per
  kind of object.

  A program is a function from a world to \<open>(result \<times> world) option\<close>. \<open>None\<close> stands for
  undefined behaviour: a dereference of an address that holds no object of the type the code
  expects, a write outside a block, a \<open>free\<close> of an address that is not allocated. A raised
  Java exception is not an error of this kind: it is recorded in \<open>pending\<close> and the native
  code goes on, as it does under JNI.
\<close>

section \<open>The world\<close>

text \<open>
  \<open>script\<close> lists the answers the C allocator will give, in order; \<open>0\<close> is a failed request.
  \<open>live\<close> maps every allocated block to its size. \<open>find_class\<close> says which class names the
  virtual machine resolves; \<open>pending\<close> is the exception pending in the current thread.
\<close>

datatype throwable = JThrow (throw_class: string) (throw_message: string)

record world =
  script :: "addr list"
  live :: "addr \<rightharpoonup> size_t"
  find_class :: "string \<Rightarrow> bool"
  pending :: "throwable option"

abbreviation raised :: "'a world_scheme \<Rightarrow> bool" where
  "raised w \<equiv> pending w \<noteq> None"

abbreviation blocks :: "'a world_scheme \<Rightarrow> addr set" where
  "blocks w \<equiv> dom (live w)"

section \<open>The C allocator\<close>

definition malloc :: "size_t \<Rightarrow> 'a world_scheme \<Rightarrow> (addr \<times> 'a world_scheme) option" where
  "malloc n w =
     (let p = (case script w of [] \<Rightarrow> NULL | a # _ \<Rightarrow> a)
      in Some (p, w\<lparr>script := tl (script w),
                    live := (if p = NULL then live w else (live w)(p \<mapsto> n))\<rparr>))"

text \<open>\<open>calloc\<close> refuses a request whose byte count does not fit \<open>size_t\<close>.\<close>

definition calloc :: "size_t \<Rightarrow> size_t \<Rightarrow> 'a world_scheme \<Rightarrow> (addr \<times> 'a world_scheme) option" where
  "calloc n m w = (if unat n * unat m < 2 ^ 64 then malloc (n * m) w else Some (NULL, w))"

definition free :: "addr \<Rightarrow> 'a world_scheme \<Rightarrow> 'a world_scheme option" where
  "free p w = (if p = NULL then Some w
               else if p \<in> blocks w then Some (w\<lparr>live := (live w)(p := None)\<rparr>)
               else None)"

definition heap_ok :: "'a world_scheme \<Rightarrow> bool" where
  "heap_ok w \<longleftrightarrow> distinct (filter (\<lambda>p. p \<noteq> NULL) (script w))
                 \<and> set (script w) \<inter> blocks w = {} \<and> NULL \<notin> blocks w"

text \<open>
  What every caller relies on: a request never touches another block, a successful one
  returns a fresh non-null address, and releasing it gives the old set of blocks back.
\<close>

locale allocator =
  fixes request :: "size_t \<Rightarrow> 'w \<Rightarrow> (addr \<times> 'w) option"
    and release :: "addr \<Rightarrow> 'w \<Rightarrow> 'w option"
    and held :: "'w \<Rightarrow> addr set"
    and ok :: "'w \<Rightarrow> bool"
  assumes request_total: "\<exists>p w'. request n w = Some (p, w')"
    and request_fail: "ok w \<Longrightarrow> request n w = Some (NULL, w') \<Longrightarrow> held w' = held w"
    and request_fresh: "ok w \<Longrightarrow> request n w = Some (p, w') \<Longrightarrow> p \<noteq> NULL \<Longrightarrow>
                         p \<notin> held w \<and> held w' = insert p (held w)"
    and request_ok: "ok w \<Longrightarrow> request n w = Some (p, w') \<Longrightarrow> ok w'"
    and release_null: "release NULL w = Some w"
    and release_held: "p \<noteq> NULL \<Longrightarrow> p \<in> held w \<Longrightarrow>
                        \<exists>w'. release p w = Some w' \<and> held w' = held w - {p}"
    and release_invalid: "p \<noteq> NULL \<Longrightarrow> p \<notin> held w \<Longrightarrow> release p w = None"
    and null_not_held: "ok w \<Longrightarrow> NULL \<notin> held w"
begin

lemma request_release:
  assumes "ok w" and "request n w = Some (p, w1)"
  obtains w2 where "release p w1 = Some w2" and "held w2 = held w"
proof (cases "p = NULL")
  case True
  with assms show thesis using that request_fail release_null by metis
next
  case False
  with assms have "p \<notin> held w" and h: "held w1 = insert p (held w)"
    using request_fresh by blast+
  with release_held [OF False, of w1] obtain w2
    where "release p w1 = Some w2" and "held w2 = held w1 - {p}" by auto
  with h \<open>p \<notin> held w\<close> show thesis using that by simp
qed

lemma double_release:
  assumes "ok w" and "p \<noteq> NULL" and "release p w = Some w1"
  shows "release p w1 = None"
proof -
  have "p \<in> held w" using assms release_invalid by (metis option.distinct(1))
  then obtain w' where "release p w = Some w'" and "held w' = held w - {p}"
    using release_held [OF assms(2)] by blast
  with assms have "p \<notin> held w1" by auto
  with assms(2) show ?thesis by (rule release_invalid)
qed

end

lemma malloc_ok: "heap_ok w \<Longrightarrow> malloc n w = Some (p, w') \<Longrightarrow> heap_ok w'"
  by (cases "script w") (auto simp: malloc_def heap_ok_def Let_def split: if_splits)

interpretation libc: allocator malloc free blocks heap_ok
proof
  fix w :: "'a world_scheme" and n p w'
  assume ok: "heap_ok w"
  show "NULL \<notin> blocks w" using ok by (simp add: heap_ok_def)
  assume m: "malloc n w = Some (p, w')"
  show "heap_ok w'" using ok m by (rule malloc_ok)
  show "p \<noteq> NULL \<Longrightarrow> p \<notin> blocks w \<and> blocks w' = insert p (blocks w)"
    using ok m by (cases "script w") (auto simp: malloc_def heap_ok_def Let_def)
qed (auto simp: malloc_def free_def Let_def)

lemma calloc_total: "\<exists>p w'. calloc n m w = Some (p, w')"
  by (auto simp: calloc_def malloc_def Let_def)

lemma calloc_ok: "heap_ok w \<Longrightarrow> calloc n m w = Some (p, w') \<Longrightarrow> heap_ok w'"
  by (auto simp: calloc_def intro: malloc_ok split: if_splits)

lemma calloc_cases:
  assumes "calloc n m w = Some (p, w')"
  obtains (fail) sc where "p = NULL" "w' = w\<lparr>script := sc\<rparr>" "set sc \<subseteq> set (script w)"
  | (block) sc where "p \<noteq> NULL" "script w = p # sc" "unat n * unat m < 2 ^ 64"
      "w' = w\<lparr>script := sc, live := (live w)(p \<mapsto> n * m)\<rparr>"
proof (cases "unat n * unat m < 2 ^ 64")
  case True
  with assms show thesis
    by (cases "script w") (auto simp: calloc_def malloc_def Let_def split: if_splits intro: that)
next
  case False
  with assms have "p = NULL" and "w' = w\<lparr>script := script w\<rparr>"
    by (auto simp: calloc_def)
  with fail [of "script w"] show thesis by simp
qed

text \<open>\<open>calloc\<close>, for every element count, is an allocator too.\<close>

interpretation zeroing: allocator "calloc k" free blocks heap_ok
proof
  fix w :: "'a world_scheme" and n p w'
  assume ok: "heap_ok w" and c: "calloc k n w = Some (p, w')"
  show "heap_ok w'" using ok c by (rule calloc_ok)
  show "p \<noteq> NULL \<Longrightarrow> p \<notin> blocks w \<and> blocks w' = insert p (blocks w)"
    using c libc.request_fresh [OF ok, of "k * n" p w'] by (simp add: calloc_def split: if_splits)
  show "blocks w' = blocks w" if "calloc k n w = Some (NULL, w')"
    using that by (auto elim: calloc_cases)
qed (auto simp: calloc_total free_def heap_ok_def elim: calloc_cases)

lemma calloc_frame: "calloc k n w = Some (p, w') \<Longrightarrow> \<exists>sc lv. w' = w\<lparr>script := sc, live := lv\<rparr>"
  by (rule exI [of _ "script w'"], rule exI [of _ "live w'"], erule calloc_cases) simp_all

section \<open>Raising exceptions\<close>

text \<open>
  \<open>throwException(env, Name, fmt, ...)\<close> expands to \<open>jffi_throwExceptionByName\<close> with the class
  name of the constant \<open>jffi_NameException\<close>. The message is formatted by \<open>vsnprintf\<close>; the
  formats of the sources use \<open>%d\<close>, \<open>%#x\<close> and \<open>%s\<close> only.
\<close>

datatype exn = IllegalArgument | NullPointer | OutOfBounds | OutOfMemory | Runtime | UnsatisfiedLink

fun exn_class_name :: "exn \<Rightarrow> string" where
  "exn_class_name IllegalArgument = ''java/lang/IllegalArgumentException''"
| "exn_class_name NullPointer = ''java/lang/NullPointerException''"
| "exn_class_name OutOfBounds = ''java/lang/IndexOutOfBoundsException''"
| "exn_class_name OutOfMemory = ''java/lang/OutOfMemoryError''"
| "exn_class_name Runtime = ''java/lang/RuntimeException''"
| "exn_class_name UnsatisfiedLink = ''java/lang/UnsatisfiedLinkError''"

datatype fmtarg = ArgInt jint | ArgStr string

fun digits_of :: "nat \<Rightarrow> nat \<Rightarrow> nat \<Rightarrow> string" where
  "digits_of b 0 n = []"
| "digits_of b (Suc k) n =
     (if n < b then [''0123456789abcdef'' ! n]
      else digits_of b k (n div b) @ [''0123456789abcdef'' ! (n mod b)])"

definition fmt_d :: "jint \<Rightarrow> string" where
  "fmt_d i = (if sint i < 0 then CHR ''-'' # digits_of 10 10 (nat (- sint i))
              else digits_of 10 10 (unat i))"

definition fmt_x :: "jint \<Rightarrow> string" where
  "fmt_x i = (if i = 0 then ''0'' else ''0x'' @ digits_of 16 8 (unat i))"

fun vformat :: "string \<Rightarrow> fmtarg list \<Rightarrow> string" where
  "vformat [] as = []"
| "vformat (c # r) as =
     (if c \<noteq> CHR ''%'' then c # vformat r as
      else case as of
        ArgInt i # as' \<Rightarrow>
          (if take 1 r = ''d'' then fmt_d i @ vformat (drop 1 r) as'
           else if take 2 r = ''#x'' then fmt_x i @ vformat (drop 2 r) as'
           else c # vformat r as)
      | ArgStr s # as' \<Rightarrow>
          (if take 1 r = ''s'' then s @ vformat (drop 1 r) as' else c # vformat r as)
      | [] \<Rightarrow> c # vformat r as)"

text \<open>\<open>char buf[1024]\<close>, filled by \<open>vsnprintf(buf, sizeof(buf) - 1, ...)\<close>: 1022 characters
  and the terminator at most.\<close>

definition throwExceptionByName :: "string \<Rightarrow> string \<Rightarrow> fmtarg list \<Rightarrow> 'a world_scheme \<Rightarrow> 'a world_scheme" where
  "throwExceptionByName exceptionName fmt ap w =
     (let buf = take (1024 - 1 - 1) (vformat fmt ap)
      in if find_class w exceptionName
         then w\<lparr>pending := Some (JThrow exceptionName buf)\<rparr>
         else w\<lparr>pending := Some (JThrow ''java/lang/NoClassDefFoundError'' exceptionName)\<rparr>)"

definition throwException :: "exn \<Rightarrow> string \<Rightarrow> fmtarg list \<Rightarrow> 'a world_scheme \<Rightarrow> 'a world_scheme" where
  "throwException e fmt ap w = throwExceptionByName (exn_class_name e) fmt ap w"

lemma throw_frame [simp]:
  "script (throwException e f a w) = script w"
  "live (throwException e f a w) = live w"
  "find_class (throwException e f a w) = find_class w"
  "world.more (throwException e f a w) = world.more w"
  by (simp_all add: throwException_def throwExceptionByName_def Let_def)

lemma throw_raises [simp]: "raised (throwException e f a w)"
  by (simp add: throwException_def throwExceptionByName_def Let_def)

lemma throw_raises_some [simp]: "\<exists>x. pending (throwException e f a w) = Some x"
  by (simp add: throwException_def throwExceptionByName_def Let_def)

lemma throw_heap_ok [simp]: "heap_ok (throwException e f a w) = heap_ok w"
  by (simp add: heap_ok_def)

lemma throw_pending:
  "find_class w (exn_class_name e) \<Longrightarrow>
   pending (throwException e f a w) = Some (JThrow (exn_class_name e) (take 1022 (vformat f a)))"
  by (simp add: throwException_def throwExceptionByName_def Let_def)

section \<open>Constructors of native handles\<close>

text \<open>
  Several entry points build a native object for Java and hand its address out as a
  \<open>jlong\<close>: on failure they return \<open>0\<close> with an exception pending and nothing left allocated;
  on success the blocks they added are exactly those the destructor gives back.
\<close>

locale handle_constructor =
  fixes build :: "'a world_scheme \<Rightarrow> (jlong \<times> 'a world_scheme) option"
    and destroy :: "jlong \<Rightarrow> 'a world_scheme \<Rightarrow> 'a world_scheme option"
    and inv :: "'a world_scheme \<Rightarrow> bool"
  assumes build_fail: "inv w \<Longrightarrow> build w = Some (0, w') \<Longrightarrow> blocks w' = blocks w \<and> raised w'"
    and build_destroy: "inv w \<Longrightarrow> build w = Some (h, w') \<Longrightarrow> h \<noteq> 0 \<Longrightarrow>
                         \<exists>w''. destroy h w' = Some w'' \<and> blocks w'' = blocks w"
    and build_grows: "inv w \<Longrightarrow> build w = Some (h, w') \<Longrightarrow> h \<noteq> 0 \<Longrightarrow> blocks w \<subset> blocks w'"
begin

lemma zero_iff_no_blocks:
  "inv w \<Longrightarrow> build w = Some (h, w') \<Longrightarrow> h = 0 \<longleftrightarrow> blocks w' = blocks w"
  using build_fail build_grows by blast

text \<open>Whatever the outcome, closing the handle if there is one leaves no block behind.\<close>

lemma no_leak:
  assumes "inv w" and "build w = Some (h, w')"
  shows "\<exists>w''. (if h = 0 then Some w' else destroy h w') = Some w'' \<and> blocks w'' = blocks w"
  using assms build_fail build_destroy by (cases "h = 0") auto

end

end
