(* ===== verification/Ffi_Types.thy ===== *)
theory Ffi_Types
  imports Jffi_World
begin

text \<open>
  libffi's type descriptors (\<^verbatim>\<open>jni/libffi/include/ffi.h.in\<close>, \<^verbatim>\<open>jni/libffi/src/types.c\<close>) and
  jffi's lookup of them (\<^verbatim>\<open>jni/jffi/Type.c\<close>), for the x86-64 System V target: \<open>long\<close> and
  pointers have 8 bytes, \<open>long double\<close> 16.

  Descriptors are C structs reached through pointers. The world is extended by one typed map
  per kind of object: \<open>types\<close> for \<open>ffi_type\<close> and \<open>ptrs\<close> for arrays of pointers to them.
  \<open>symbol\<close> gives the link-time address of each of libffi's static descriptors.
\<close>

section \<open>Type codes\<close>

abbreviation (input) FFI_TYPE_VOID :: u16 where "FFI_TYPE_VOID \<equiv> 0"
abbreviation (input) FFI_TYPE_INT :: u16 where "FFI_TYPE_INT \<equiv> 1"
abbreviation (input) FFI_TYPE_FLOAT :: u16 where "FFI_TYPE_FLOAT \<equiv> 2"
abbreviation (input) FFI_TYPE_DOUBLE :: u16 where "FFI_TYPE_DOUBLE \<equiv> 3"
abbreviation (input) FFI_TYPE_LONGDOUBLE :: u16 where "FFI_TYPE_LONGDOUBLE \<equiv> 4"
abbreviation (input) FFI_TYPE_UINT8 :: u16 where "FFI_TYPE_UINT8 \<equiv> 5"
abbreviation (input) FFI_TYPE_SINT8 :: u16 where "FFI_TYPE_SINT8 \<equiv> 6"
abbreviation (input) FFI_TYPE_UINT16 :: u16 where "FFI_TYPE_UINT16 \<equiv> 7"
abbreviation (input) FFI_TYPE_SINT16 :: u16 where "FFI_TYPE_SINT16 \<equiv> 8"
abbreviation (input) FFI_TYPE_UINT32 :: u16 where "FFI_TYPE_UINT32 \<equiv> 9"
abbreviation (input) FFI_TYPE_SINT32 :: u16 where "FFI_TYPE_SINT32 \<equiv> 10"
abbreviation (input) FFI_TYPE_UINT64 :: u16 where "FFI_TYPE_UINT64 \<equiv> 11"
abbreviation (input) FFI_TYPE_SINT64 :: u16 where "FFI_TYPE_SINT64 \<equiv> 12"
abbreviation (input) FFI_TYPE_STRUCT :: u16 where "FFI_TYPE_STRUCT \<equiv> 13"
abbreviation (input) FFI_TYPE_POINTER :: u16 where "FFI_TYPE_POINTER \<equiv> 14"
abbreviation (input) FFI_TYPE_COMPLEX :: u16 where "FFI_TYPE_COMPLEX \<equiv> 15"

section \<open>Descriptors\<close>

record ffi_type =
  ft_size :: size_t
  ft_alignment :: u16
  ft_type :: u16
  ft_elements :: addr

definition zero_ffi_type :: ffi_type where
  "zero_ffi_type = \<lparr>ft_size = 0, ft_alignment = 0, ft_type = 0, ft_elements = NULL\<rparr>"

datatype ffi_builtin =
    ffi_type_void | ffi_type_uint8 | ffi_type_sint8 | ffi_type_uint16 | ffi_type_sint16
  | ffi_type_uint32 | ffi_type_sint32 | ffi_type_uint64 | ffi_type_sint64
  | ffi_type_pointer | ffi_type_float | ffi_type_double | ffi_type_longdouble

text \<open>\<open>FFI_TYPEDEF(name, type, id)\<close>: \<open>{ sizeof(type), alignof(type), id, NULL }\<close>.\<close>

definition FFI_TYPEDEF :: "size_t \<Rightarrow> u16 \<Rightarrow> u16 \<Rightarrow> ffi_type" where
  "FFI_TYPEDEF sz align tid = \<lparr>ft_size = sz, ft_alignment = align, ft_type = tid, ft_elements = NULL\<rparr>"

fun builtin_type :: "ffi_builtin \<Rightarrow> ffi_type" where
  "builtin_type ffi_type_void = FFI_TYPEDEF 1 1 FFI_TYPE_VOID"
| "builtin_type ffi_type_uint8 = FFI_TYPEDEF 1 1 FFI_TYPE_UINT8"
| "builtin_type ffi_type_sint8 = FFI_TYPEDEF 1 1 FFI_TYPE_SINT8"
| "builtin_type ffi_type_uint16 = FFI_TYPEDEF 2 2 FFI_TYPE_UINT16"
| "builtin_type ffi_type_sint16 = FFI_TYPEDEF 2 2 FFI_TYPE_SINT16"
| "builtin_type ffi_type_uint32 = FFI_TYPEDEF 4 4 FFI_TYPE_UINT32"
| "builtin_type ffi_type_sint32 = FFI_TYPEDEF 4 4 FFI_TYPE_SINT32"
| "builtin_type ffi_type_uint64 = FFI_TYPEDEF 8 8 FFI_TYPE_UINT64"
| "builtin_type ffi_type_sint64 = FFI_TYPEDEF 8 8 FFI_TYPE_SINT64"
| "builtin_type ffi_type_pointer = FFI_TYPEDEF 8 8 FFI_TYPE_POINTER"
| "builtin_type ffi_type_float = FFI_TYPEDEF 4 4 FFI_TYPE_FLOAT"
| "builtin_type ffi_type_double = FFI_TYPEDEF 8 8 FFI_TYPE_DOUBLE"
| "builtin_type ffi_type_longdouble = FFI_TYPEDEF 16 16 FFI_TYPE_LONGDOUBLE"

text \<open>\<open>ffi.h\<close> makes the C-named types macros for the sized ones (\<open>CHAR\<close> 8, \<open>SHRT\<close> 16, \<open>INT\<close> 32
  and \<open>LONG\<close> 64 bits).\<close>

abbreviation ffi_type_uchar :: ffi_builtin where "ffi_type_uchar \<equiv> ffi_type_uint8"
abbreviation ffi_type_schar :: ffi_builtin where "ffi_type_schar \<equiv> ffi_type_sint8"
abbreviation ffi_type_ushort :: ffi_builtin where "ffi_type_ushort \<equiv> ffi_type_uint16"
abbreviation ffi_type_sshort :: ffi_builtin where "ffi_type_sshort \<equiv> ffi_type_sint16"
abbreviation ffi_type_uint :: ffi_builtin where "ffi_type_uint \<equiv> ffi_type_uint32"
abbreviation ffi_type_sint :: ffi_builtin where "ffi_type_sint \<equiv> ffi_type_sint32"
abbreviation ffi_type_ulong :: ffi_builtin where "ffi_type_ulong \<equiv> ffi_type_uint64"
abbreviation ffi_type_slong :: ffi_builtin where "ffi_type_slong \<equiv> ffi_type_sint64"

datatype ffi_status = FFI_OK | FFI_BAD_TYPEDEF | FFI_BAD_ABI | FFI_BAD_ARGTYPE

section \<open>The world with type descriptors\<close>

record type_world = world +
  types :: "addr \<rightharpoonup> ffi_type"
  ptrs :: "addr \<rightharpoonup> addr list"
  symbol :: "ffi_builtin \<Rightarrow> addr"

definition write_type :: "addr \<Rightarrow> ffi_type \<Rightarrow> 'a type_world_scheme \<Rightarrow> 'a type_world_scheme" where
  "write_type p t w = w\<lparr>types := (types w)(p \<mapsto> t)\<rparr>"

definition write_ptrs :: "addr \<Rightarrow> addr list \<Rightarrow> 'a type_world_scheme \<Rightarrow> 'a type_world_scheme" where
  "write_ptrs p xs w = w\<lparr>ptrs := (ptrs w)(p \<mapsto> xs)\<rparr>"

definition store_ptr :: "addr \<Rightarrow> nat \<Rightarrow> addr \<Rightarrow> 'a type_world_scheme \<Rightarrow> 'a type_world_scheme option" where
  "store_ptr p i x w =
     (case ptrs w p of
        Some xs \<Rightarrow> if i < length xs then Some (write_ptrs p (xs[i := x]) w) else None
      | None \<Rightarrow> None)"

definition free_type :: "addr \<Rightarrow> 'a type_world_scheme \<Rightarrow> 'a type_world_scheme option" where
  "free_type p w = map_option (\<lambda>w. w\<lparr>types := (types w)(p := None)\<rparr>) (free p w)"

definition free_ptrs :: "addr \<Rightarrow> 'a type_world_scheme \<Rightarrow> 'a type_world_scheme option" where
  "free_ptrs p w = map_option (\<lambda>w. w\<lparr>ptrs := (ptrs w)(p := None)\<rparr>) (free p w)"

definition type_heap_ok :: "'a type_world_scheme \<Rightarrow> bool" where
  "type_heap_ok w \<longleftrightarrow> heap_ok w
     \<and> NULL \<notin> dom (types w) \<and> NULL \<notin> dom (ptrs w)
     \<and> (\<forall>p \<in> set (script w). p \<noteq> NULL \<longrightarrow> p \<notin> dom (types w) \<and> p \<notin> dom (ptrs w))
     \<and> (\<forall>b. types w (symbol w b) = Some (builtin_type b) \<and> symbol w b \<notin> blocks w)"

section \<open>Looking types up (Type.c)\<close>

fun typeToFFI :: "int \<Rightarrow> ffi_builtin option" where
  "typeToFFI type =
    (if type = 0 then Some ffi_type_void
     else if type = 2 then Some ffi_type_float
     else if type = 3 then Some ffi_type_double
     else if type = 4 then Some ffi_type_longdouble
     else if type = 5 then Some ffi_type_uint8
     else if type = 6 then Some ffi_type_sint8
     else if type = 7 then Some ffi_type_uint16
     else if type = 8 then Some ffi_type_sint16
     else if type = 9 then Some ffi_type_uint32
     else if type = 10 then Some ffi_type_sint32
     else if type = 11 then Some ffi_type_uint64
     else if type = 12 then Some ffi_type_sint64
     else if type = 14 then Some ffi_type_pointer
     else if type = 101 then Some ffi_type_uchar
     else if type = 102 then Some ffi_type_schar
     else if type = 103 then Some ffi_type_ushort
     else if type = 104 then Some ffi_type_sshort
     else if type = 105 then Some ffi_type_uint
     else if type = 106 then Some ffi_type_sint
     else if type = 107 then Some ffi_type_ulong
     else if type = 108 then Some ffi_type_slong
     else None)"

definition lookupBuiltinType :: "jint \<Rightarrow> 'a type_world_scheme \<Rightarrow> jlong" where
  "lookupBuiltinType type w =
     p2j (case typeToFFI (sint type) of Some b \<Rightarrow> symbol w b | None \<Rightarrow> NULL)"

definition getTypeSize :: "jlong \<Rightarrow> 'a type_world_scheme \<Rightarrow> jint option" where
  "getTypeSize handle w = map_option (\<lambda>t. ucast (ft_size t)) (types w (j2p handle))"

definition getTypeAlign :: "jlong \<Rightarrow> 'a type_world_scheme \<Rightarrow> jint option" where
  "getTypeAlign handle w = map_option (\<lambda>t. ucast (ft_alignment t)) (types w (j2p handle))"

definition getTypeType :: "jlong \<Rightarrow> 'a type_world_scheme \<Rightarrow> jint option" where
  "getTypeType handle w = map_option (\<lambda>t. ucast (ft_type t)) (types w (j2p handle))"

section \<open>Facts\<close>

lemma world_updates [simp]:
  "types (write_type p t w) = (types w)(p \<mapsto> t)"
  "ptrs (write_type p t w) = ptrs w"
  "live (write_type p t w) = live w"
  "script (write_type p t w) = script w"
  "pending (write_type p t w) = pending w"
  "symbol (write_type p t w) = symbol w"
  "find_class (write_type p t w) = find_class w"
  "types (write_ptrs p xs w) = types w"
  "ptrs (write_ptrs p xs w) = (ptrs w)(p \<mapsto> xs)"
  "live (write_ptrs p xs w) = live w"
  "script (write_ptrs p xs w) = script w"
  "pending (write_ptrs p xs w) = pending w"
  "symbol (write_ptrs p xs w) = symbol w"
  "find_class (write_ptrs p xs w) = find_class w"
  by (simp_all add: write_type_def write_ptrs_def)

lemma throw_type_frame [simp]:
  "types (throwException e f a w) = types w"
  "ptrs (throwException e f a w) = ptrs w"
  "symbol (throwException e f a w) = symbol w"
  by (simp_all add: throwException_def throwExceptionByName_def Let_def)

lemma free_type_live: "p \<in> blocks w \<Longrightarrow> p \<noteq> NULL \<Longrightarrow>
  free_type p w = Some (w\<lparr>live := (live w)(p := None), types := (types w)(p := None)\<rparr>)"
  by (simp add: free_type_def free_def)

lemma free_ptrs_live: "p \<in> blocks w \<Longrightarrow> p \<noteq> NULL \<Longrightarrow>
  free_ptrs p w = Some (w\<lparr>live := (live w)(p := None), ptrs := (ptrs w)(p := None)\<rparr>)"
  by (simp add: free_ptrs_def free_def)

text \<open>Every builtin is described completely: a positive size, and an alignment that is a power
  of two and divides it.\<close>

lemma builtin_sane:
  "ft_elements (builtin_type b) = NULL" "ft_size (builtin_type b) \<noteq> 0"
  "\<exists>k < 5. ft_alignment (builtin_type b) = 2 ^ k \<and> ft_size (builtin_type b) = 2 ^ k"
proof -
  show "ft_elements (builtin_type b) = NULL" "ft_size (builtin_type b) \<noteq> 0"
    by (cases b; simp add: FFI_TYPEDEF_def)+
  have five: "(\<exists>k < 5. P k) \<longleftrightarrow> P 0 \<or> P 1 \<or> P 2 \<or> P 3 \<or> P 4" for P :: "nat \<Rightarrow> bool"
    by (auto simp: numeral_eq_Suc less_Suc_eq)
  show "\<exists>k < 5. ft_alignment (builtin_type b) = 2 ^ k \<and> ft_size (builtin_type b) = 2 ^ k"
    unfolding five by (cases b; simp add: FFI_TYPEDEF_def)
qed

text \<open>The state right after the library is loaded: only libffi's static descriptors exist. The
  addresses are those of one image; the allocator's answers are a parameter.\<close>

fun image_symbol :: "ffi_builtin \<Rightarrow> addr" where
  "image_symbol ffi_type_void = 0x1000"
| "image_symbol ffi_type_uint8 = 0x1018"
| "image_symbol ffi_type_sint8 = 0x1030"
| "image_symbol ffi_type_uint16 = 0x1048"
| "image_symbol ffi_type_sint16 = 0x1060"
| "image_symbol ffi_type_uint32 = 0x1078"
| "image_symbol ffi_type_sint32 = 0x1090"
| "image_symbol ffi_type_uint64 = 0x10a8"
| "image_symbol ffi_type_sint64 = 0x10c0"
| "image_symbol ffi_type_pointer = 0x10d8"
| "image_symbol ffi_type_float = 0x10f0"
| "image_symbol ffi_type_double = 0x1108"
| "image_symbol ffi_type_longdouble = 0x1120"

abbreviation all_builtins :: "ffi_builtin list" where
  "all_builtins \<equiv> [ffi_type_void, ffi_type_uint8, ffi_type_sint8, ffi_type_uint16, ffi_type_sint16,
     ffi_type_uint32, ffi_type_sint32, ffi_type_uint64, ffi_type_sint64, ffi_type_pointer,
     ffi_type_float, ffi_type_double, ffi_type_longdouble]"

definition image_types :: "addr \<rightharpoonup> ffi_type" where
  "image_types = map_of (map (\<lambda>b. (image_symbol b, builtin_type b)) all_builtins)"

definition loaded :: "addr list \<Rightarrow> type_world" where
  "loaded sc = \<lparr>script = sc, live = Map.empty, find_class = (\<lambda>_. True), pending = None,
     types = image_types, ptrs = Map.empty, symbol = image_symbol\<rparr>"

lemma image_types_simps [simp]:
  "image_types (image_symbol b) = Some (builtin_type b)" "image_types 0 = None"
  by (cases b; simp add: image_types_def) (simp add: image_types_def)

lemma image_symbol_nonzero [simp]: "image_symbol b \<noteq> 0"
  by (cases b) simp_all

declare image_symbol.simps [simp del] builtin_type.simps [simp del]

lemma image_types_range: "p \<in> dom image_types \<Longrightarrow> 0x1000 \<le> p \<and> p \<le> 0x1120"
  by (auto simp: image_types_def image_symbol.simps split: if_splits)

lemma loaded_ok:
  assumes "distinct (filter (\<lambda>p. p \<noteq> NULL) sc)" and "\<forall>p \<in> set sc. p = NULL \<or> 0x1120 < p"
  shows "type_heap_ok (loaded sc)"
  using assms image_types_range by (fastforce simp: type_heap_ok_def heap_ok_def loaded_def)

lemma loaded_simps [simp]:
  "types (loaded sc) = image_types" "symbol (loaded sc) = image_symbol" "script (loaded sc) = sc"
  "live (loaded sc) = Map.empty" "pending (loaded sc) = None" "ptrs (loaded sc) = Map.empty"
  "find_class (loaded sc) = (\<lambda>_. True)"
  by (simp_all add: loaded_def)

end
