(* ===== verification/Ffi_Aggregate.thy ===== *)
theory Ffi_Aggregate
  imports Ffi_Types
begin

text \<open>
  Aggregate descriptors in libffi (\<^verbatim>\<open>jni/libffi/src/prep_cif.c\<close>): \<open>initialize_aggregate\<close>, which
  computes size, alignment and field offsets of a struct from its NULL-terminated array of
  element types, and \<open>ffi_get_struct_offsets\<close>. The layout of the C language is stated
  separately, on natural numbers (\<open>c_offsets\<close>, \<open>c_end\<close>, \<open>c_align\<close>), and the word-level scan is
  shown to compute it.
\<close>

section \<open>initialize_aggregate\<close>

text \<open>
  The recursion goes through pointers, so it is bounded by fuel; \<open>None\<close> is running out of fuel
  or undefined behaviour (an invalid element pointer, a pointer array without its NULL). The
  second component of the result is what was stored through \<open>offsets\<close>, for a caller that passes
  one; the nested call passes NULL and its offsets are dropped.
\<close>

function initialize_aggregate ::
    "nat \<Rightarrow> addr \<Rightarrow> 'a type_world_scheme \<Rightarrow> ((ffi_status \<times> size_t list) \<times> 'a type_world_scheme) option"
  and aggregate_elements ::
    "nat \<Rightarrow> addr \<Rightarrow> addr list \<Rightarrow> 'a type_world_scheme \<Rightarrow> ((ffi_status \<times> size_t list) \<times> 'a type_world_scheme) option"
where
  "initialize_aggregate 0 arg w = None"
| "initialize_aggregate (Suc n) arg w =
     (if arg = NULL then Some ((FFI_BAD_TYPEDEF, []), w)
      else do {
        t \<leftarrow> types w arg;
        if ft_elements t = NULL then Some ((FFI_BAD_TYPEDEF, []), w)
        else do {
          w1 \<leftarrow> Some (write_type arg (t\<lparr>ft_size := 0, ft_alignment := 0\<rparr>) w);
          ptr \<leftarrow> ptrs w1 (ft_elements t);
          (r, w2) \<leftarrow> aggregate_elements n arg ptr w1;
          if fst r \<noteq> FFI_OK then Some (r, w2)
          else do {
            t2 \<leftarrow> types w2 arg;
            t3 \<leftarrow> Some (t2\<lparr>ft_size := FFI_ALIGN (ft_size t2) (ucast (ft_alignment t2))\<rparr>);
            Some ((if ft_size t3 = 0 then FFI_BAD_TYPEDEF else FFI_OK, snd r), write_type arg t3 w2)
          }
        }
      })"
| "aggregate_elements n arg [] w = None"
| "aggregate_elements n arg (p # ptr) w =
     (if p = NULL then Some ((FFI_OK, []), w)
      else do {
        e0 \<leftarrow> types w p;
        (ok, w1) \<leftarrow> (if ft_size e0 = 0
                    then do { (r, w') \<leftarrow> initialize_aggregate n p w; Some (fst r = FFI_OK, w') }
                    else Some (True, w));
        if \<not> ok then Some ((FFI_BAD_TYPEDEF, []), w1)
        else do {
          e \<leftarrow> types w1 p;
          t \<leftarrow> types w1 arg;
          off \<leftarrow> Some (FFI_ALIGN (ft_size t) (ucast (ft_alignment e)));
          (r, w2) \<leftarrow> aggregate_elements n arg ptr
            (write_type arg (t\<lparr>ft_size := off + ft_size e,
                               ft_alignment := (if ft_alignment t > ft_alignment e
                                                then ft_alignment t else ft_alignment e)\<rparr>) w1);
          Some ((fst r, off # snd r), w2)
        }
      })"
  by pat_completeness auto
termination
  by (relation "measures [case_sum (\<lambda>(n, _). n) (\<lambda>(n, _). n),
                          case_sum (\<lambda>_. 0) (\<lambda>(_, _, ptr, _). Suc (length ptr))]") auto

text \<open>\<open>abi\<close> is the \<open>ffi_abi\<close> enumerator; on x86-64 the valid ones lie strictly between
  \<open>FFI_FIRST_ABI\<close> and \<open>FFI_LAST_ABI\<close>.\<close>

abbreviation (input) FFI_FIRST_ABI :: nat where "FFI_FIRST_ABI \<equiv> 1"
abbreviation (input) FFI_UNIX64 :: nat where "FFI_UNIX64 \<equiv> 2"
abbreviation (input) FFI_WIN64 :: nat where "FFI_WIN64 \<equiv> 3"
abbreviation (input) FFI_EFI64 :: nat where "FFI_EFI64 \<equiv> 3"
abbreviation (input) FFI_GNUW64 :: nat where "FFI_GNUW64 \<equiv> 4"
abbreviation (input) FFI_LAST_ABI :: nat where "FFI_LAST_ABI \<equiv> 5"
abbreviation (input) FFI_DEFAULT_ABI :: nat where "FFI_DEFAULT_ABI \<equiv> 2"

definition ffi_get_struct_offsets ::
    "nat \<Rightarrow> nat \<Rightarrow> addr \<Rightarrow> 'a type_world_scheme \<Rightarrow> ((ffi_status \<times> size_t list) \<times> 'a type_world_scheme) option"
where
  "ffi_get_struct_offsets n abi struct_type w =
     (if \<not> (abi > FFI_FIRST_ABI \<and> abi < FFI_LAST_ABI) then Some ((FFI_BAD_ABI, []), w)
      else do {
        t \<leftarrow> types w struct_type;
        if ft_type t \<noteq> FFI_TYPE_STRUCT then Some ((FFI_BAD_TYPEDEF, []), w)
        else initialize_aggregate n struct_type w
      })"

section \<open>The layout of C\<close>

text \<open>A field is its size and its alignment. Each field starts at the first multiple of its
  alignment after the end of the one before; the struct ends at a multiple of the largest
  alignment.\<close>

type_synonym field = "nat \<times> nat"

fun c_offsets :: "field list \<Rightarrow> nat \<Rightarrow> nat list" where
  "c_offsets [] cur = []"
| "c_offsets ((s, a) # fs) cur = align_up cur a # c_offsets fs (align_up cur a + s)"

fun c_end :: "field list \<Rightarrow> nat \<Rightarrow> nat" where
  "c_end [] cur = cur"
| "c_end ((s, a) # fs) cur = c_end fs (align_up cur a + s)"

definition c_align :: "field list \<Rightarrow> nat" where
  "c_align fs = foldr (\<lambda>(s, a) m. max a m) fs 0"

definition c_size :: "field list \<Rightarrow> nat" where
  "c_size fs = align_up (c_end fs 0) (c_align fs)"

lemma length_c_offsets [simp]: "length (c_offsets fs cur) = length fs"
  by (induction fs cur rule: c_offsets.induct) auto

definition fields_ok :: "field list \<Rightarrow> bool" where
  "fields_ok fs \<longleftrightarrow> (\<forall>(s, a) \<in> set fs. \<exists>k. a = 2 ^ k)"

lemma fields_ok_simps [simp]:
  "fields_ok []" "fields_ok ((s, a) # fs) \<longleftrightarrow> (\<exists>k. a = 2 ^ k) \<and> fields_ok fs"
  by (auto simp: fields_ok_def)

lemma c_end_ge: "fields_ok fs \<Longrightarrow> cur \<le> c_end fs cur"
proof (induction fs cur rule: c_end.induct)
  case (2 s a fs cur)
  then have "0 < a" by auto
  then have "cur \<le> align_up cur a" by (rule align_up_ge)
  with 2 show ?case by (auto intro: order_trans [of cur "align_up cur a + s"])
qed simp

lemma c_offsets_end:
  "fields_ok fs \<Longrightarrow> i < length fs \<Longrightarrow> c_offsets fs cur ! i + fst (fs ! i) \<le> c_end fs cur"
proof (induction fs cur arbitrary: i rule: c_end.induct)
  case (2 s a fs cur)
  show ?case
  proof (cases i)
    case 0
    with 2 show ?thesis by (simp add: c_end_ge)
  next
    case (Suc j)
    with 2 show ?thesis by simp
  qed
qed simp

lemma c_offsets_ge:
  "fields_ok fs \<Longrightarrow> i < length fs \<Longrightarrow> cur \<le> c_offsets fs cur ! i"
proof (induction fs cur arbitrary: i rule: c_offsets.induct)
  case (2 s a fs cur)
  then have "0 < a" by auto
  then have le: "cur \<le> align_up cur a" by (rule align_up_ge)
  show ?case
  proof (cases i)
    case 0
    with le show ?thesis by simp
  next
    case (Suc j)
    with 2 have "align_up cur a + s \<le> c_offsets fs (align_up cur a + s) ! j" by simp
    with le Suc show ?thesis by simp
  qed
qed simp

lemma c_offsets_disjoint:
  "fields_ok fs \<Longrightarrow> i < j \<Longrightarrow> j < length fs \<Longrightarrow>
   c_offsets fs cur ! i + fst (fs ! i) \<le> c_offsets fs cur ! j"
proof (induction fs cur arbitrary: i j rule: c_offsets.induct)
  case (2 s a fs cur)
  then obtain j' where j: "j = Suc j'" by (cases j) auto
  show ?case
  proof (cases i)
    case 0
    with 2 j show ?thesis by (simp add: c_offsets_ge)
  next
    case (Suc i')
    with 2 j show ?thesis by simp
  qed
qed simp

lemma c_offsets_aligned:
  "i < length fs \<Longrightarrow> snd (fs ! i) dvd c_offsets fs cur ! i"
proof (induction fs cur arbitrary: i rule: c_offsets.induct)
  case (2 s a fs cur)
  then show ?case by (cases i) auto
qed simp

lemma c_align_simps [simp]: "c_align [] = 0" "c_align ((s, a) # fs) = max a (c_align fs)"
  by (simp_all add: c_align_def)

lemma c_align_pow2: "fields_ok fs \<Longrightarrow> fs \<noteq> [] \<Longrightarrow> \<exists>k. c_align fs = 2 ^ k"
proof (induction fs)
  case (Cons f fs)
  obtain s a where f: "f = (s, a)" by force
  show ?case
  proof (cases "fs = []")
    case True
    with Cons.prems f show ?thesis by auto
  next
    case False
    with Cons f obtain j where "c_align fs = 2 ^ j" by auto
    with Cons.prems f show ?thesis by (auto simp: max_def)
  qed
qed simp

lemma c_align_ge: "(s, a) \<in> set fs \<Longrightarrow> a \<le> c_align fs"
  by (induction fs) (auto simp: le_max_iff_disj)

lemma c_align_dvd:
  assumes "fields_ok fs" and "(s, a) \<in> set fs"
  shows "a dvd c_align fs"
proof -
  from assms have ne: "fs \<noteq> []" by auto
  from assms obtain k where a: "a = 2 ^ k" by (auto simp: fields_ok_def)
  obtain j where c: "c_align fs = 2 ^ j" using c_align_pow2 [OF assms(1) ne] by blast
  have "(2::nat) ^ k \<le> 2 ^ j" using c_align_ge [OF assms(2)] a c by simp
  then have "k \<le> j" by simp
  with a c show ?thesis by (simp add: le_imp_power_dvd)
qed

section \<open>The scan both libffi and jffi make\<close>

text \<open>The effect of the field loop on size and alignment, and the offsets it passes through,
  as functions of the element descriptors alone.\<close>

fun agg_scan :: "ffi_type list \<Rightarrow> size_t \<Rightarrow> u16 \<Rightarrow> size_t \<times> u16" where
  "agg_scan [] s a = (s, a)"
| "agg_scan (e # es) s a =
     agg_scan es (FFI_ALIGN s (ucast (ft_alignment e)) + ft_size e) (max a (ft_alignment e))"

fun agg_offs :: "ffi_type list \<Rightarrow> size_t \<Rightarrow> size_t list" where
  "agg_offs [] s = []"
| "agg_offs (e # es) s =
     FFI_ALIGN s (ucast (ft_alignment e))
       # agg_offs es (FFI_ALIGN s (ucast (ft_alignment e)) + ft_size e)"

definition agg_final :: "ffi_type list \<Rightarrow> size_t \<times> u16" where
  "agg_final es = (let (s, a) = agg_scan es 0 0 in (FFI_ALIGN s (ucast a), a))"

lemma max_as_if: "(if (x::u16) > y then x else y) = max x y"
  by (auto simp: max_def)

lemma write_type_twice [simp]: "write_type p t (write_type p t' w) = write_type p t w"
  by (simp add: write_type_def)

lemma ft_update_swap [simp]:
  "t\<lparr>ft_size := s, ft_alignment := a\<rparr> = t\<lparr>ft_alignment := a, ft_size := s\<rparr>"
  by (cases t) simp

lemma aggregate_elements_scan:
  assumes "\<forall>p \<in> set ps. p \<noteq> NULL \<and> p \<noteq> arg \<and> types w p = Some (T p) \<and> ft_size (T p) \<noteq> 0"
    and "types w arg = Some t"
  shows "aggregate_elements n arg (ps @ NULL # rest) w =
     Some ((FFI_OK, agg_offs (map T ps) (ft_size t)),
           (if ps = [] then w else
            write_type arg (t\<lparr>ft_size := fst (agg_scan (map T ps) (ft_size t) (ft_alignment t)),
                             ft_alignment := snd (agg_scan (map T ps) (ft_size t) (ft_alignment t))\<rparr>) w))"
  using assms
proof (induction ps arbitrary: t w)
  case Nil
  then show ?case by simp
next
  case (Cons p ps)
  let ?t = "t\<lparr>ft_size := FFI_ALIGN (ft_size t) (ucast (ft_alignment (T p))) + ft_size (T p),
              ft_alignment := max (ft_alignment t) (ft_alignment (T p))\<rparr>"
  have IH: "aggregate_elements n arg (ps @ NULL # rest) (write_type arg ?t w) =
     Some ((FFI_OK, agg_offs (map T ps) (ft_size ?t)),
           (if ps = [] then write_type arg ?t w else
            write_type arg (?t\<lparr>ft_size := fst (agg_scan (map T ps) (ft_size ?t) (ft_alignment ?t)),
                             ft_alignment := snd (agg_scan (map T ps) (ft_size ?t) (ft_alignment ?t))\<rparr>)
              (write_type arg ?t w)))"
    by (rule Cons.IH) (use Cons.prems in auto)
  from Cons.prems have p: "p \<noteq> NULL" "types w p = Some (T p)" "ft_size (T p) \<noteq> 0" by auto
  show ?case
    using p Cons.prems(2) IH by (simp add: max_as_if)
qed

lemma initialize_aggregate_scan:
  assumes p: "\<forall>p \<in> set ps. p \<noteq> NULL \<and> p \<noteq> arg \<and> types w p = Some (T p) \<and> ft_size (T p) \<noteq> 0"
    and t: "types w arg = Some t" and arg: "arg \<noteq> NULL" and e: "ft_elements t \<noteq> NULL"
    and xs: "ptrs w (ft_elements t) = Some (ps @ NULL # rest)"
  shows "initialize_aggregate (Suc n) arg w =
     Some ((if fst (agg_final (map T ps)) = 0 then FFI_BAD_TYPEDEF else FFI_OK,
            agg_offs (map T ps) 0),
           write_type arg (t\<lparr>ft_size := fst (agg_final (map T ps)),
                            ft_alignment := snd (agg_final (map T ps))\<rparr>) w)"
proof -
  let ?t0 = "t\<lparr>ft_size := 0, ft_alignment := 0\<rparr>"
  let ?w = "write_type arg ?t0 w"
  have el: "aggregate_elements n arg (ps @ NULL # rest) ?w =
     Some ((FFI_OK, agg_offs (map T ps) (ft_size ?t0)),
           (if ps = [] then ?w else
            write_type arg (?t0\<lparr>ft_size := fst (agg_scan (map T ps) (ft_size ?t0) (ft_alignment ?t0)),
                             ft_alignment := snd (agg_scan (map T ps) (ft_size ?t0) (ft_alignment ?t0))\<rparr>) ?w))"
    by (rule aggregate_elements_scan) (use p in auto)
  show ?thesis
    using arg t e xs el by (cases "ps = []") (auto simp: agg_final_def split: prod.splits)
qed

declare initialize_aggregate.simps [simp del] aggregate_elements.simps [simp del]

section \<open>The scan computes the layout of C\<close>

definition field_of :: "ffi_type \<Rightarrow> field" where
  "field_of e = (unat (ft_size e), unat (ft_alignment e))"

definition sane_align :: "ffi_type \<Rightarrow> bool" where
  "sane_align e \<longleftrightarrow> (\<exists>k < 16. ft_alignment e = 2 ^ k)"

lemma unat_pow2_16: "k < 16 \<Longrightarrow> unat (2 ^ k :: 16 word) = 2 ^ k"
  by transfer simp

lemma sane_align_fields: "\<forall>e \<in> set es. sane_align e \<Longrightarrow> fields_ok (map field_of es)"
  by (auto simp: fields_ok_def field_of_def sane_align_def unat_pow2_16)

lemma ucast_pow2_16: "k < 16 \<Longrightarrow> (ucast (2 ^ k :: 16 word) :: 64 word) = 2 ^ k"
  by transfer simp

lemma pow2_16_le: "k < 16 \<Longrightarrow> (2::nat) ^ k \<le> 2 ^ 16"
  by (rule power_increasing) simp_all

lemma agg_step_layout [layout_simps]:
  assumes "sane_align e" and "align_up (unat s) (unat (ft_alignment e)) + unat (ft_size e) + 2 ^ 16 \<le> 2 ^ 64"
  shows "unat (FFI_ALIGN s (ucast (ft_alignment e))) = align_up (unat s) (unat (ft_alignment e))"
    and "unat (FFI_ALIGN s (ucast (ft_alignment e)) + ft_size e)
           = align_up (unat s) (unat (ft_alignment e)) + unat (ft_size e)"
proof -
  from assms obtain k where k: "k < 16" "ft_alignment e = 2 ^ k" by (auto simp: sane_align_def)
  have u: "unat (ft_alignment e) = 2 ^ k" using k by (simp add: unat_pow2_16)
  have "unat s \<le> align_up (unat s) (2 ^ k)" by (rule align_up_ge) simp
  moreover have "(2::nat) ^ k \<le> 2 ^ 16" using k by (simp only: pow2_16_le)
  ultimately have "unat s + 2 ^ k \<le> 2 ^ 64" using assms(2) unfolding u by linarith
  then show a: "unat (FFI_ALIGN s (ucast (ft_alignment e))) = align_up (unat s) (unat (ft_alignment e))"
    unfolding u using k by (intro unat_FFI_ALIGN) (simp_all add: ucast_pow2_16)
  show "unat (FFI_ALIGN s (ucast (ft_alignment e)) + ft_size e)
           = align_up (unat s) (unat (ft_alignment e)) + unat (ft_size e)"
    using assms(2) by (simp add: unat_word_ariths a)
qed

lemma agg_scan_layout:
  assumes "\<forall>e \<in> set es. sane_align e" and "c_end (map field_of es) (unat s) + 2 ^ 16 \<le> 2 ^ 64"
  shows "unat (fst (agg_scan es s a)) = c_end (map field_of es) (unat s)
       \<and> map unat (agg_offs es s) = c_offsets (map field_of es) (unat s)
       \<and> unat (snd (agg_scan es s a)) = max (unat a) (c_align (map field_of es))"
  using assms
proof (induction es arbitrary: s a)
  case Nil
  then show ?case by simp
next
  case (Cons e es)
  let ?cur = "align_up (unat s) (unat (ft_alignment e)) + unat (ft_size e)"
  have "?cur \<le> c_end (map field_of es) ?cur"
    using Cons.prems(1) by (intro c_end_ge sane_align_fields) simp
  moreover have "c_end (map field_of es) ?cur + 2 ^ 16 \<le> 2 ^ 64"
    using Cons.prems(2) by (simp add: field_of_def [of e])
  ultimately have b: "?cur + 2 ^ 16 \<le> 2 ^ 64" by linarith
  have st: "unat (FFI_ALIGN s (ucast (ft_alignment e))) = align_up (unat s) (unat (ft_alignment e))"
    "unat (FFI_ALIGN s (ucast (ft_alignment e)) + ft_size e) = ?cur"
    using agg_step_layout [of e s] Cons.prems(1) b by simp_all
  have mx: "unat (max a (ft_alignment e)) = max (unat a) (unat (ft_alignment e))"
    by (auto simp: max_def word_le_nat_alt)
  have "c_end (map field_of es) ?cur + 2 ^ 16 \<le> 2 ^ 64"
    using Cons.prems(2) by (simp add: field_of_def [of e])
  then show ?case
    using Cons.IH [of "FFI_ALIGN s (ucast (ft_alignment e)) + ft_size e" "max a (ft_alignment e)"]
      Cons.prems(1) st mx by (simp add: field_of_def [of e] max.assoc)
qed

lemma agg_final_layout:
  assumes es: "\<forall>e \<in> set es. sane_align e" "es \<noteq> []" and fits: "c_end (map field_of es) 0 + 2 ^ 16 \<le> 2 ^ 64"
  shows "unat (fst (agg_final es)) = c_size (map field_of es)"
    and "unat (snd (agg_final es)) = c_align (map field_of es)"
    and "map unat (agg_offs es 0) = c_offsets (map field_of es) 0"
    and "sane_align (t\<lparr>ft_alignment := snd (agg_final es)\<rparr>)"
proof -
  obtain s a where sa: "agg_scan es 0 0 = (s, a)" by force
  have L: "unat s = c_end (map field_of es) 0" "unat a = c_align (map field_of es)"
    "map unat (agg_offs es 0) = c_offsets (map field_of es) 0"
    using agg_scan_layout [OF es(1), of 0 0] fits sa by simp_all
  have "fields_ok (map field_of es)" using es(1) by (rule sane_align_fields)
  then obtain k where k: "c_align (map field_of es) = 2 ^ k" using c_align_pow2 es(2) by fastforce
  have "unat a < 2 ^ LENGTH(16)" by (rule unsigned_less)
  then have "(2::nat) ^ k < 2 ^ 16" using L(2) k by simp
  then have k16: "k < 16" by (rule power_less_imp_less_exp [rotated]) simp
  have a: "a = 2 ^ k" using L(2) k k16 by (simp add: word_unat_eq_iff unat_pow2_16)
  have "(2::nat) ^ k \<le> 2 ^ 16" using k16 by (rule pow2_16_le)
  then have "unat s + 2 ^ k \<le> 2 ^ 64" using fits L(1) by linarith
  then have "unat (FFI_ALIGN s (ucast a)) = align_up (unat s) (2 ^ k)"
    using k16 by (intro unat_FFI_ALIGN) (simp_all add: a ucast_pow2_16)
  then show "unat (fst (agg_final es)) = c_size (map field_of es)"
    using L k by (simp add: agg_final_def sa c_size_def)
  show "unat (snd (agg_final es)) = c_align (map field_of es)"
    using L by (simp add: agg_final_def sa)
  show "map unat (agg_offs es 0) = c_offsets (map field_of es) 0" by (rule L(3))
  show "sane_align (t\<lparr>ft_alignment := snd (agg_final es)\<rparr>)"
    using a k16 by (auto simp: sane_align_def agg_final_def sa)
qed

section \<open>What initialize_aggregate leaves alone\<close>

text \<open>Only size and alignment of descriptors that exist ever change.\<close>

definition types_only :: "'a type_world_scheme \<Rightarrow> 'a type_world_scheme \<Rightarrow> bool" where
  "types_only w w' \<longleftrightarrow> w' = w\<lparr>types := types w'\<rparr>
     \<and> (\<forall>p. map_option (\<lambda>t. (ft_type t, ft_elements t)) (types w' p)
            = map_option (\<lambda>t. (ft_type t, ft_elements t)) (types w p))"

lemma types_only_refl [simp]: "types_only w w"
  by (simp add: types_only_def)

lemma types_only_trans:
  assumes "types_only w w'" and "types_only w' w''"
  shows "types_only w w''"
proof -
  have "w'' = w'\<lparr>types := types w''\<rparr>" and "w' = w\<lparr>types := types w'\<rparr>"
    using assms by (simp_all add: types_only_def)
  then have "w'' = w\<lparr>types := types w''\<rparr>" by (metis type_world.surjective type_world.update_convs(1))
  with assms show ?thesis by (simp add: types_only_def)
qed

lemma types_only_write:
  "types w p = Some t \<Longrightarrow> ft_elements t' = ft_elements t \<Longrightarrow> ft_type t' = ft_type t \<Longrightarrow> types_only w (write_type p t' w)"
  by (simp add: types_only_def write_type_def)

lemma aggregate_types_only:
  "initialize_aggregate n arg w = Some (r, w') \<Longrightarrow> types_only w w'"
  "aggregate_elements n arg ptr w = Some (r, w') \<Longrightarrow> types_only w w'"
proof (induction n arg w and n arg ptr w arbitrary: r w' and r w'
       rule: initialize_aggregate_aggregate_elements.induct)
  case (1 arg w)
  then show ?case by (simp add: initialize_aggregate.simps)
next
  case (2 n arg w)
  show ?case
  proof (cases "arg = NULL \<or> (\<exists>t. types w arg = Some t \<and> ft_elements t = NULL)")
    case True
    with 2(2) show ?thesis by (auto simp: initialize_aggregate.simps split: if_splits)
  next
    case False
    with 2(2) obtain t ptr r1 w2 where t: "types w arg = Some t" "arg \<noteq> NULL" "ft_elements t \<noteq> NULL"
      and el: "ptrs w (ft_elements t) = Some ptr"
        "aggregate_elements n arg ptr (write_type arg (t\<lparr>ft_size := 0, ft_alignment := 0\<rparr>) w) = Some (r1, w2)"
      and res: "(if fst r1 \<noteq> FFI_OK then Some (r1, w2)
          else do {
            t2 \<leftarrow> types w2 arg;
            t3 \<leftarrow> Some (t2\<lparr>ft_size := FFI_ALIGN (ft_size t2) (ucast (ft_alignment t2))\<rparr>);
            Some ((if ft_size t3 = 0 then FFI_BAD_TYPEDEF else FFI_OK, snd r1), write_type arg t3 w2)
          }) = Some (r, w')"
      by (auto simp: initialize_aggregate.simps split: bind_splits)
    let ?w = "write_type arg (t\<lparr>ft_size := 0, ft_alignment := 0\<rparr>) w"
    have "types_only w ?w" using t by (intro types_only_write) simp_all
    moreover have "types_only ?w w2"
      using 2(1) [OF t(2,1,3) refl _ el(2)] el(1) by simp
    moreover have "types_only w2 w'"
      using res by (auto split: if_splits bind_splits intro: types_only_write)
    ultimately show ?thesis using types_only_trans by blast
  qed
next
  case (3 n arg w)
  then show ?case by (simp add: aggregate_elements.simps)
next
  case (4 n arg p ptr w)
  show ?case
  proof (cases "p = NULL")
    case True
    with 4(3) show ?thesis by (auto simp: aggregate_elements.simps)
  next
    case False
    from 4(3) False obtain e0 ok w1 where e0: "types w p = Some e0"
      and run: "(if ft_size e0 = 0
                    then do { (r, w') \<leftarrow> initialize_aggregate n p w; Some (fst r = FFI_OK, w') }
                    else Some (True, w)) = Some (ok, w1)"
      and res: "(if \<not> ok then Some ((FFI_BAD_TYPEDEF, []), w1)
        else do {
          e \<leftarrow> types w1 p;
          t \<leftarrow> types w1 arg;
          off \<leftarrow> Some (FFI_ALIGN (ft_size t) (ucast (ft_alignment e)));
          (r, w2) \<leftarrow> aggregate_elements n arg ptr
            (write_type arg (t\<lparr>ft_size := off + ft_size e,
                               ft_alignment := (if ft_alignment t > ft_alignment e
                                                then ft_alignment t else ft_alignment e)\<rparr>) w1);
          Some ((fst r, off # snd r), w2)
        }) = Some (r, w')"
      by (simp only: aggregate_elements.simps if_False bind_eq_Some_conv) (elim exE conjE, auto)
    have a: "types_only w w1"
      using run 4(1) [OF False e0] by (auto split: if_splits bind_splits)
    show ?thesis
    proof (cases ok)
      case ok: True
      from res ok obtain e t r2 where e: "types w1 p = Some e" "types w1 arg = Some t"
        and rest: "aggregate_elements n arg ptr
            (write_type arg (t\<lparr>ft_size := FFI_ALIGN (ft_size t) (ucast (ft_alignment e)) + ft_size e,
                               ft_alignment := (if ft_alignment t > ft_alignment e
                                                then ft_alignment t else ft_alignment e)\<rparr>) w1) = Some (r2, w')"
        by (auto split: bind_splits)
      let ?w = "write_type arg (t\<lparr>ft_size := FFI_ALIGN (ft_size t) (ucast (ft_alignment e)) + ft_size e,
                               ft_alignment := (if ft_alignment t > ft_alignment e
                                                then ft_alignment t else ft_alignment e)\<rparr>) w1"
      have "types_only w1 ?w" using e by (intro types_only_write) simp_all
      moreover have "types_only ?w w'"
        by (rule 4(2) [OF False e0 run refl _ e refl rest]) (use ok in simp)
      ultimately show ?thesis using a types_only_trans by blast
    next
      case False
      with res a show ?thesis by simp
    qed
  qed
qed

end
