(* ===== verification/Jffi_Struct.thy ===== *)
theory Jffi_Struct
  imports Ffi_Aggregate
begin

text \<open>
  \<^verbatim>\<open>jni/jffi/Struct.c\<close>: building struct, union and array descriptors for Java
  (\<open>newStruct\<close>, \<open>newArray\<close>) and releasing them (\<open>freeAggregate\<close>). A Java array argument is the
  list of its elements, or \<open>None\<close> for null; \<open>GetArrayLength\<close> is its length and the
  \<open>GetLongArrayRegion\<close> over the whole of it copies the list.
\<close>

section \<open>The operations\<close>

abbreviation (input) sizeof_ffi_type :: size_t where "sizeof_ffi_type \<equiv> 24"
abbreviation (input) sizeof_ptr :: size_t where "sizeof_ptr \<equiv> 8"

text \<open>The loop over the field descriptors; \<open>False\<close> is the jump to \<open>error\<close>.\<close>

fun struct_fields ::
  "addr \<Rightarrow> bool \<Rightarrow> nat \<Rightarrow> jlong list \<Rightarrow> 'a type_world_scheme \<Rightarrow> (bool \<times> 'a type_world_scheme) option"
where
  "struct_fields s isUnion i [] w = Some (True, w)"
| "struct_fields s isUnion i (f # fieldTypes) w =
     (let elem = j2p f in
      if elem = NULL
      then Some (False, throwException IllegalArgument ''type for field %d is NULL'' [ArgInt (of_nat i)] w)
      else do {
        et \<leftarrow> types w elem;
        if ft_size et = 0
        then Some (False, throwException IllegalArgument ''type for field %d has size 0'' [ArgInt (of_nat i)] w)
        else do {
          st \<leftarrow> types w s;
          w1 \<leftarrow> store_ptr (ft_elements st) i elem w;
          struct_fields s isUnion (Suc i) fieldTypes
            (write_type s (st\<lparr>ft_size := (if \<not> isUnion
                                then FFI_ALIGN (ft_size st) (ucast (ft_alignment et)) + ft_size et
                                else max (ft_size st) (ft_size et)),
                             ft_alignment := max (ft_alignment st) (ft_alignment et)\<rparr>) w1)
        }
      })"

text \<open>The code at the label \<open>error\<close>.\<close>

definition struct_error :: "addr \<Rightarrow> 'a type_world_scheme \<Rightarrow> (jlong \<times> 'a type_world_scheme) option" where
  "struct_error s w =
     (if s \<noteq> NULL then do {
        st \<leftarrow> types w s;
        w1 \<leftarrow> (if ft_elements st \<noteq> NULL then free_ptrs (ft_elements st) w else Some w);
        w2 \<leftarrow> free_type s w1;
        Some (0, w2)
      } else Some (0, w))"

definition newStruct ::
  "jlong list option \<Rightarrow> jboolean \<Rightarrow> 'a type_world_scheme \<Rightarrow> (jlong \<times> 'a type_world_scheme) option"
where
  "newStruct typeArray isUnion w =
     (case typeArray of
        None \<Rightarrow> Some (0, throwException NullPointer ''types array cannot be null'' [] w)
      | Some fieldTypes \<Rightarrow>
          (let fieldCount = (of_nat (length fieldTypes) :: jint) in
           if sint fieldCount < 1
           then Some (0, throwException IllegalArgument ''No fields specified'' [] w)
           else do {
             (s, w1) \<leftarrow> calloc 1 sizeof_ffi_type w;
             if s = NULL then Some (0, throwException OutOfMemory ''failed to allocate memory'' [] w1)
             else do {
               (es, w2) \<leftarrow> calloc (scast (fieldCount + 1)) sizeof_ptr (write_type s zero_ffi_type w1);
               if es = NULL
               then struct_error s (throwException OutOfMemory ''failed to allocate memory'' [] w2)
               else do {
                 w3 \<leftarrow> Some (write_type s \<lparr>ft_size = 0, ft_alignment = 0,
                                         ft_type = FFI_TYPE_STRUCT, ft_elements = es\<rparr>
                              (write_ptrs es (replicate (length fieldTypes + 1) NULL) w2));
                 (ok, w4) \<leftarrow> struct_fields s isUnion 0 fieldTypes w3;
                 if \<not> ok then struct_error s w4
                 else do {
                   st \<leftarrow> types w4 s;
                   if ft_size st = 0
                   then struct_error s (throwException Runtime ''struct size is zero'' [] w4)
                   else Some (p2j s, write_type s
                     (st\<lparr>ft_size := FFI_ALIGN (ft_size st) (ucast (ft_alignment st))\<rparr>) w4)
                 }
               }
             }
           }))"

fun array_fill :: "addr \<Rightarrow> nat \<Rightarrow> nat \<Rightarrow> addr \<Rightarrow> 'a type_world_scheme \<Rightarrow> 'a type_world_scheme option" where
  "array_fill es i 0 elem w = Some w"
| "array_fill es i (Suc n) elem w = do { w1 \<leftarrow> store_ptr es i elem w; array_fill es (Suc i) n elem w1 }"

definition newArray :: "jlong \<Rightarrow> jint \<Rightarrow> 'a type_world_scheme \<Rightarrow> (jlong \<times> 'a type_world_scheme) option" where
  "newArray type len w =
     (let elem = j2p type in
      if elem = NULL then Some (0, throwException NullPointer ''element type cannot be null'' [] w)
      else do {
        et \<leftarrow> types w elem;
        if ft_size et = 0 then Some (0, throwException IllegalArgument ''element type size 0'' [] w)
        else if sint len < 1 then Some (0, throwException IllegalArgument ''array length == 0'' [] w)
        else do {
          (s, w1) \<leftarrow> calloc 1 sizeof_ffi_type w;
          if s = NULL then Some (0, throwException OutOfMemory ''failed to allocate memory'' [] w1)
          else do {
            st \<leftarrow> Some \<lparr>ft_size = scast len * ft_size et, ft_alignment = ft_alignment et,
                         ft_type = FFI_TYPE_STRUCT, ft_elements = NULL\<rparr>;
            (es, w2) \<leftarrow> calloc (scast (len + 1)) sizeof_ptr (write_type s st w1);
            if es = NULL then do {
              w3 \<leftarrow> free_type s (throwException OutOfMemory ''failed to allocate memory'' [] w2);
              Some (0, w3)
            } else do {
              w3 \<leftarrow> array_fill es 0 (unat len) elem
                     (write_type s (st\<lparr>ft_elements := es\<rparr>)
                       (write_ptrs es (replicate (unat len + 1) NULL) w2));
              Some (p2j s, w3)
            }
          }
        }
      })"

definition freeAggregate :: "jlong \<Rightarrow> 'a type_world_scheme \<Rightarrow> 'a type_world_scheme option" where
  "freeAggregate handle w =
     (let s = j2p handle in
      if s \<noteq> NULL then do {
        st \<leftarrow> types w s;
        w1 \<leftarrow> free_ptrs (ft_elements st) w;
        free_type s w1
      } else Some w)"

section \<open>The field loop\<close>

text \<open>The union scan, the counterpart of \<open>agg_scan\<close>.\<close>

fun union_scan :: "ffi_type list \<Rightarrow> size_t \<Rightarrow> u16 \<Rightarrow> size_t \<times> u16" where
  "union_scan [] s a = (s, a)"
| "union_scan (e # es) s a = union_scan es (max s (ft_size e)) (max a (ft_alignment e))"

definition scan :: "bool \<Rightarrow> ffi_type list \<Rightarrow> size_t \<Rightarrow> u16 \<Rightarrow> size_t \<times> u16" where
  "scan isUnion = (if isUnion then union_scan else agg_scan)"

lemma scan_simps [simp]:
  "scan u [] s a = (s, a)"
  "scan u (e # es) s a =
     scan u es (if \<not> u then FFI_ALIGN s (ucast (ft_alignment e)) + ft_size e else max s (ft_size e))
       (max a (ft_alignment e))"
  by (simp_all add: scan_def)

text \<open>Whatever happens, the loop touches only the descriptor being built and its element
  array, and if it stops early an exception is pending.\<close>

lemma struct_fields_frame:
  assumes "struct_fields s u i fs w = Some (ok, w')"
    and "types w s = Some st" and "ptrs w (ft_elements st) = Some xs"
  shows "\<exists>st' xs'. types w' = (types w)(s \<mapsto> st') \<and> ft_elements st' = ft_elements st
       \<and> ptrs w' = (ptrs w)(ft_elements st \<mapsto> xs') \<and> live w' = live w \<and> script w' = script w
       \<and> symbol w' = symbol w \<and> (ok \<or> raised w')"
  using assms
proof (induction s u i fs w arbitrary: st xs rule: struct_fields.induct)
  case (1 s u i w)
  then show ?case by (auto intro!: exI [of _ st] exI [of _ xs])
next
  case (2 s u i f fs w)
  show ?case
  proof (cases "j2p f = NULL \<or> (\<exists>et. types w (j2p f) = Some et \<and> ft_size et = 0)")
    case True
    with 2(2-4) have "w' = throwException IllegalArgument ''type for field %d is NULL'' [ArgInt (of_nat i)] w
       \<or> w' = throwException IllegalArgument ''type for field %d has size 0'' [ArgInt (of_nat i)] w"
      by (auto simp: Let_def split: if_splits)
    with 2(3,4) show ?thesis by (auto intro!: exI [of _ st] exI [of _ xs])
  next
    case False
    with 2(2) obtain et where et: "types w (j2p f) = Some et" "ft_size et \<noteq> 0"
      by (auto simp: Let_def split: bind_splits)
    let ?st = "st\<lparr>ft_size := (if \<not> u then FFI_ALIGN (ft_size st) (ucast (ft_alignment et)) + ft_size et
                             else max (ft_size st) (ft_size et)),
                 ft_alignment := max (ft_alignment st) (ft_alignment et)\<rparr>"
    let ?w = "write_type s ?st (write_ptrs (ft_elements st) (xs[i := j2p f]) w)"
    have sp: "store_ptr (ft_elements st) i (j2p f) w = Some (write_ptrs (ft_elements st) (xs[i := j2p f]) w)"
      and rec: "struct_fields s u (Suc i) fs ?w = Some (ok, w')"
      using 2(2-4) False et
      by (auto simp: Let_def store_ptr_def split: if_splits)
    from et False have ne: "j2p f \<noteq> NULL" by simp
    have "\<exists>st' xs'. types w' = (types ?w)(s \<mapsto> st') \<and> ft_elements st' = ft_elements ?st
       \<and> ptrs w' = (ptrs ?w)(ft_elements ?st \<mapsto> xs') \<and> live w' = live ?w \<and> script w' = script ?w
       \<and> symbol w' = symbol ?w \<and> (ok \<or> raised w')"
      by (rule 2(1) [where st = ?st and xs = "xs[i := j2p f]", OF refl ne et(1) et(2) 2(3) sp rec]) simp_all
    then show ?thesis by (simp add: fun_upd_def cong: if_cong)
  qed
qed

text \<open>When every field is a valid descriptor of positive size, the loop runs to the end, the
  descriptor holds the scan and the array the field addresses.\<close>

definition valid_field :: "'a type_world_scheme \<Rightarrow> jlong \<Rightarrow> bool" where
  "valid_field w f \<longleftrightarrow> j2p f \<noteq> NULL \<and> (\<exists>et. types w (j2p f) = Some et \<and> ft_size et \<noteq> 0)"

definition descr :: "'a type_world_scheme \<Rightarrow> jlong \<Rightarrow> ffi_type" where
  "descr w f = the (types w (j2p f))"

lemma write_ptrs_twice [simp]: "write_ptrs p x (write_ptrs p y w) = write_ptrs p x w"
  by (simp add: write_ptrs_def)

lemma write_ptrs_type [simp]: "write_ptrs e x (write_type s t w) = write_type s t (write_ptrs e x w)"
  by (simp add: write_ptrs_def write_type_def)

lemma struct_fields_valid:
  assumes "\<forall>f \<in> set fs. valid_field w f \<and> j2p f \<noteq> s"
    and "types w s = Some st" and "ptrs w (ft_elements st) = Some xs"
    and "i + length fs \<le> length xs"
  shows "struct_fields s u i fs w = Some (True,
     if fs = [] then w else
     write_type s (st\<lparr>ft_size := fst (scan u (map (descr w) fs) (ft_size st) (ft_alignment st)),
                     ft_alignment := snd (scan u (map (descr w) fs) (ft_size st) (ft_alignment st))\<rparr>)
       (write_ptrs (ft_elements st) (take i xs @ map j2p fs @ drop (i + length fs) xs) w))"
  using assms
proof (induction fs arbitrary: i w st xs)
  case Nil
  then show ?case by simp
next
  case (Cons f fs)
  obtain et where et: "types w (j2p f) = Some et" "ft_size et \<noteq> 0" "j2p f \<noteq> NULL" "j2p f \<noteq> s"
    using Cons.prems(1) by (auto simp: valid_field_def)
  let ?st = "st\<lparr>ft_size := (if \<not> u then FFI_ALIGN (ft_size st) (ucast (ft_alignment et)) + ft_size et
                           else max (ft_size st) (ft_size et)),
               ft_alignment := max (ft_alignment st) (ft_alignment et)\<rparr>"
  let ?w = "write_type s ?st (write_ptrs (ft_elements st) (xs[i := j2p f]) w)"
  have same: "map (descr ?w) fs = map (descr w) fs"
    using Cons.prems(1) by (auto simp: descr_def)
  have xs: "take (Suc i) (xs[i := j2p f]) @ map j2p fs @ drop (Suc i + length fs) (xs[i := j2p f])
          = take i xs @ map j2p (f # fs) @ drop (i + length (f # fs)) xs"
    using Cons.prems(4) by (simp add: take_Suc_conv_app_nth)
  have step: "struct_fields s u i (f # fs) w = struct_fields s u (Suc i) fs ?w"
    using et Cons.prems(2-4) by (simp add: Let_def store_ptr_def)
  have "struct_fields s u (Suc i) fs ?w = Some (True,
     if fs = [] then ?w else
     write_type s (?st\<lparr>ft_size := fst (scan u (map (descr ?w) fs) (ft_size ?st) (ft_alignment ?st)),
                     ft_alignment := snd (scan u (map (descr ?w) fs) (ft_size ?st) (ft_alignment ?st))\<rparr>)
       (write_ptrs (ft_elements ?st) (take (Suc i) (xs[i := j2p f]) @ map j2p fs
          @ drop (Suc i + length fs) (xs[i := j2p f])) ?w))"
    using Cons.prems by (intro Cons.IH) (auto simp: valid_field_def)
  note IH = this [unfolded xs same]
  have d: "descr w f = et" using et(1) by (simp add: descr_def)
  show ?case
  proof (cases "fs = []")
    case True
    with Cons.prems(4) show ?thesis
      unfolding step IH by (simp add: d upd_conv_take_nth_drop)
  next
    case False
    then show ?thesis
      unfolding step IH by (simp add: d)
  qed
qed

lemma struct_fields_defined:
  assumes "\<forall>f \<in> set fs. j2p f = NULL \<or> j2p f \<in> dom (types w)"
    and "types w s = Some st" and "ptrs w (ft_elements st) = Some xs"
    and "i + length fs \<le> length xs"
  shows "struct_fields s u i fs w \<noteq> None"
  using assms
proof (induction s u i fs w arbitrary: st xs rule: struct_fields.induct)
  case (1 s u i w)
  then show ?case by simp
next
  case (2 s u i f fs w)
  show ?case
  proof (cases "j2p f = NULL \<or> (\<exists>et. types w (j2p f) = Some et \<and> ft_size et = 0)")
    case True
    then show ?thesis by (auto simp: Let_def)
  next
    case False
    with 2(2) obtain et where et: "j2p f \<noteq> NULL" "types w (j2p f) = Some et" "ft_size et \<noteq> 0" by auto
    have sp: "store_ptr (ft_elements st) i (j2p f) w = Some (write_ptrs (ft_elements st) (xs[i := j2p f]) w)"
      using 2(4,5) by (simp add: store_ptr_def)
    let ?st = "st\<lparr>ft_size := (if \<not> u then FFI_ALIGN (ft_size st) (ucast (ft_alignment et)) + ft_size et
                             else max (ft_size st) (ft_size et)),
                 ft_alignment := max (ft_alignment st) (ft_alignment et)\<rparr>"
    let ?w = "write_type s ?st (write_ptrs (ft_elements st) (xs[i := j2p f]) w)"
    have "struct_fields s u (Suc i) fs ?w \<noteq> None"
      by (rule 2(1) [where st = ?st and xs = "xs[i := j2p f]", OF refl et 2(3) sp])
        (use 2(2,5) in auto)
    then show ?thesis using et sp 2(3) by (simp add: Let_def)
  qed
qed

section \<open>newStruct\<close>

lemma struct_error_frees:
  assumes "types w s = Some st" "s \<noteq> NULL" "s \<in> blocks w" "NULL \<notin> blocks w"
    and "ft_elements st = NULL \<or> ft_elements st \<in> blocks w \<and> ft_elements st \<noteq> s"
  shows "\<exists>w'. struct_error s w = Some (0, w') \<and> blocks w' = blocks w - {s, ft_elements st}
       \<and> pending w' = pending w"
  using assms by (auto simp: struct_error_def free_type_def free_ptrs_def free_def)

lemma type_heap_ok_script:
  assumes "type_heap_ok w" and "script w = s # sc" and "s \<noteq> NULL"
  shows "s \<notin> blocks w" "types w s = None" "ptrs w s = None" "s \<notin> set sc"
    "s \<noteq> symbol w b"
  using assms by (fastforce simp: type_heap_ok_def heap_ok_def)+

lemma calloc_cases2:
  assumes "type_heap_ok w" and "calloc 1 24 w = Some (s, w1)" and "s \<noteq> NULL"
    and "calloc n m (write_type s t w1) = Some (e, w2)"
  obtains (fail) sc where "e = NULL"
      "w2 = write_type s t (w\<lparr>script := sc, live := (live w)(s \<mapsto> 24)\<rparr>)"
  | (block) sc where "e \<noteq> NULL" "e \<noteq> s" "e \<notin> blocks w" "script w = s # e # sc"
      "w2 = write_type s t (w\<lparr>script := sc, live := (live w)(s \<mapsto> 24, e \<mapsto> n * m)\<rparr>)"
  using assms(2)
proof (cases rule: calloc_cases)
  case (block sc)
  note b = type_heap_ok_script [OF assms(1) block(2) assms(3)]
  from assms(4) show thesis
  proof (cases rule: calloc_cases)
    case (fail sc')
    with block that(1) [of sc'] show thesis by (simp add: write_type_def)
  next
    case (block sc')
    with \<open>script w = s # sc\<close> \<open>w1 = _\<close> have sc: "script w = s # e # sc'" by simp
    have "e \<notin> blocks w" "e \<noteq> s"
      using assms(1) sc block(1) b(4) \<open>script w = s # sc\<close>
      by (auto simp: type_heap_ok_def heap_ok_def)
    with sc block \<open>w1 = _\<close> that(2) show thesis by (simp add: write_type_def)
  qed
qed (use assms(3) in simp)

text \<open>The outcomes of \<open>newStruct\<close>: nothing allocated and an exception, or a handle to a fresh
  descriptor that owns a fresh element array.\<close>

definition aggregate_at :: "jlong \<Rightarrow> addr \<Rightarrow> 'a type_world_scheme \<Rightarrow> 'a type_world_scheme \<Rightarrow> bool" where
  "aggregate_at h es w w' \<longleftrightarrow> h \<noteq> 0 \<and> es \<noteq> NULL \<and> es \<noteq> j2p h \<and> j2p h \<notin> blocks w \<and> es \<notin> blocks w
     \<and> blocks w' = {j2p h, es} \<union> blocks w
     \<and> (\<exists>t. types w' (j2p h) = Some t \<and> ft_elements t = es)"

lemma freeAggregate_releases:
  assumes "aggregate_at h es w w'"
  shows "\<exists>w''. freeAggregate h w' = Some w'' \<and> blocks w'' = blocks w"
proof -
  from assms have "h \<noteq> 0" "es \<noteq> NULL" "es \<noteq> j2p h" "j2p h \<notin> blocks w" "es \<notin> blocks w"
    and b: "blocks w' = {j2p h, es} \<union> blocks w"
    and t: "\<exists>t. types w' (j2p h) = Some t \<and> ft_elements t = es"
    by (simp_all add: aggregate_at_def)
  moreover have "es \<in> blocks w'" "j2p h \<in> blocks w'" using b by simp_all
  ultimately show ?thesis
    by (auto simp: freeAggregate_def free_type_def free_ptrs_def free_def Let_def b)
qed

lemma struct_error_outcome:
  assumes "struct_error s w = Some (h, w')" "types w s = Some st" "s \<noteq> NULL" "NULL \<notin> blocks w"
    and "s \<in> blocks w" "ft_elements st = NULL \<or> ft_elements st \<in> blocks w \<and> ft_elements st \<noteq> s"
  shows "h = 0 \<and> blocks w' = blocks w - {s, ft_elements st} \<and> pending w' = pending w"
  using struct_error_frees [OF assms(2,3,5,4,6)] assms(1) by auto

lemma null_not_block: "type_heap_ok w \<Longrightarrow> NULL \<notin> blocks w"
  by (simp add: type_heap_ok_def heap_ok_def)

definition struct_finish :: "addr \<Rightarrow> bool \<Rightarrow> 'a type_world_scheme \<Rightarrow> (jlong \<times> 'a type_world_scheme) option" where
  "struct_finish s ok w4 = (if \<not> ok then struct_error s w4
               else do { st \<leftarrow> types w4 s;
                 if ft_size st = 0 then struct_error s (throwException Runtime ''struct size is zero'' [] w4)
                 else Some (p2j s, write_type s
                   (st\<lparr>ft_size := FFI_ALIGN (ft_size st) (ucast (ft_alignment st))\<rparr>) w4) })"

lemma newStruct_alloc:
  assumes "\<not> sint (of_nat (length fs) :: jint) < 1" and "calloc 1 24 w = Some (s, w1)" "s \<noteq> NULL"
    and "calloc (scast ((of_nat (length fs) :: jint) + 1)) 8 (write_type s zero_ffi_type w1) = Some (e, w2)"
    and "e \<noteq> NULL"
  shows "newStruct (Some fs) u w = do {
      (ok, w4) \<leftarrow> struct_fields s u 0 fs
         (write_type s \<lparr>ft_size = 0, ft_alignment = 0, ft_type = FFI_TYPE_STRUCT, ft_elements = e\<rparr>
           (write_ptrs e (replicate (length fs + 1) NULL) w2));
      struct_finish s ok w4 }"
  using assms by (simp add: newStruct_def struct_finish_def Let_def)

lemma newStruct_built:
  assumes ok: "type_heap_ok w"
    and new: "s \<noteq> NULL" "e \<noteq> NULL" "e \<noteq> s" "e \<notin> blocks w" "s \<notin> blocks w"
    and w3: "types w3 s = Some t0" "ft_elements t0 = e" "ptrs w3 e = Some xs" "blocks w3 = {s, e} \<union> blocks w"
    and run: "struct_fields s u 0 fs w3 = Some (ok', w4)"
    and fin: "struct_finish s ok' w4 = Some (h, w')"
  shows "h = 0 \<and> blocks w' = blocks w \<and> raised w' \<or> aggregate_at h e w w'"
proof -
  obtain st where st: "types w4 s = Some st" "ft_elements st = e" "blocks w4 = {s, e} \<union> blocks w"
    "ok' \<or> raised w4"
    using struct_fields_frame [OF run w3(1)] w3 by auto
  note nn = null_not_block [OF ok]
  show ?thesis
  proof (cases "ok' \<and> ft_size st \<noteq> 0")
    case True
    with fin st have "h = p2j s"
      "w' = write_type s (st\<lparr>ft_size := FFI_ALIGN (ft_size st) (ucast (ft_alignment st))\<rparr>) w4"
      by (simp_all add: struct_finish_def)
    with st new show ?thesis by (simp add: aggregate_at_def)
  next
    case False
    let ?w4 = "if ok' then throwException Runtime ''struct size is zero'' [] w4 else w4"
    have "struct_error s ?w4 = Some (h, w')" "raised ?w4"
      using False fin st by (auto simp: throw_raises struct_finish_def)
    then have "h = 0 \<and> blocks w' = blocks ?w4 - {s, ft_elements st} \<and> pending w' = pending ?w4"
      using st new nn by (intro struct_error_outcome) auto
    with st new \<open>raised ?w4\<close> show ?thesis by auto
  qed
qed

abbreviation handle_outcome ::
  "jlong \<Rightarrow> 'a type_world_scheme \<Rightarrow> 'a type_world_scheme \<Rightarrow> bool" where
  "handle_outcome h w w' \<equiv> h = 0 \<and> blocks w' = blocks w \<and> raised w' \<or> (\<exists>e. aggregate_at h e w w')"

lemma newStruct_outcome:
  assumes ok: "type_heap_ok w" and run: "newStruct ta u w = Some (h, w')"
  shows "handle_outcome h w w'"
proof (cases "\<exists>fs. ta = Some fs \<and> \<not> sint (of_nat (length fs) :: jint) < 1")
  case False
  with run show ?thesis by (auto simp: newStruct_def Let_def split: option.splits)
next
  case True
  then obtain fs where ta: "ta = Some fs" "\<not> sint (of_nat (length fs) :: jint) < 1" by blast
  obtain s w1 where c1: "calloc 1 24 w = Some (s, w1)" using calloc_total by blast
  let ?n = "scast ((of_nat (length fs) :: jint) + 1) :: size_t"
  show ?thesis
  proof (cases "s = NULL")
    case True
    from c1 have "live w1 = live w" using True by (auto elim!: calloc_cases)
    with run ta c1 True show ?thesis by (auto simp: newStruct_def Let_def)
  next
    case s: False
    obtain e w2 where c2: "calloc ?n 8 (write_type s zero_ffi_type w1) = Some (e, w2)"
      using calloc_total by blast
    from c1 s obtain sc0 where sc0: "script w = s # sc0" by (auto elim: calloc_cases)
    note fresh = type_heap_ok_script [OF ok sc0 s]
    from ok c1 s c2 show ?thesis
    proof (cases rule: calloc_cases2)
      case (fail sc)
      let ?w = "throwException OutOfMemory ''failed to allocate memory'' [] w2"
      have "struct_error s ?w = Some (h, w')"
        using run ta c1 c2 s fail by (simp add: newStruct_def Let_def)
      then have "h = 0 \<and> blocks w' = blocks ?w - {s, ft_elements zero_ffi_type} \<and> pending w' = pending ?w"
        using fail s null_not_block [OF ok] by (intro struct_error_outcome) (auto simp: zero_ffi_type_def)
      with fail fresh null_not_block [OF ok] show ?thesis by (auto simp: zero_ffi_type_def)
    next
      case (block sc)
      let ?t0 = "\<lparr>ft_size = 0, ft_alignment = 0, ft_type = FFI_TYPE_STRUCT, ft_elements = e\<rparr>"
      let ?w3 = "write_type s ?t0 (write_ptrs e (replicate (length fs + 1) NULL) w2)"
      from run newStruct_alloc [OF ta(2) c1 s c2 block(1), of u] ta(1)
      obtain ok' w4 where "struct_fields s u 0 fs ?w3 = Some (ok', w4)" "struct_finish s ok' w4 = Some (h, w')"
        by (auto split: bind_splits)
      from newStruct_built [OF ok s block(1-3) fresh(1) _ _ _ _ this, where xs = "replicate (length fs + 1) NULL"]
      show ?thesis using block by auto
    qed
  qed
qed

section \<open>newArray\<close>

lemma array_fill_effect:
  assumes "ptrs w es = Some xs" and "i + n \<le> length xs"
  shows "array_fill es i n elem w =
           Some (if n = 0 then w else write_ptrs es (take i xs @ replicate n elem @ drop (i + n) xs) w)"
  using assms
proof (induction n arbitrary: i xs w)
  case 0
  then show ?case by simp
next
  case (Suc n)
  let ?w = "write_ptrs es (xs[i := elem]) w"
  have "array_fill es (Suc i) n elem ?w =
     Some (if n = 0 then ?w else write_ptrs es (take (Suc i) (xs[i := elem]) @ replicate n elem
            @ drop (Suc i + n) (xs[i := elem])) ?w)"
    by (rule Suc.IH) (use Suc.prems in auto)
  moreover have "take (Suc i) (xs[i := elem]) @ replicate n elem @ drop (Suc i + n) (xs[i := elem])
       = take i xs @ replicate (Suc n) elem @ drop (i + Suc n) xs"
    using Suc.prems by (simp add: take_Suc_conv_app_nth)
  ultimately show ?case
    using Suc.prems by (cases n) (simp_all add: store_ptr_def upd_conv_take_nth_drop)
qed

lemma newArray_steps:
  assumes "newArray type len w = Some (h, w')"
  obtains (error) "h = 0" "blocks w' = blocks w" "raised w'"
  | (alloc) et s w1 e w2 where "j2p type \<noteq> NULL" "types w (j2p type) = Some et" "ft_size et \<noteq> 0"
      "1 \<le> sint len" "calloc 1 24 w = Some (s, w1)" "s \<noteq> NULL"
      "calloc (scast (len + 1)) 8 (write_type s \<lparr>ft_size = scast len * ft_size et,
         ft_alignment = ft_alignment et, ft_type = FFI_TYPE_STRUCT, ft_elements = NULL\<rparr> w1) = Some (e, w2)"
proof -
  obtain s w1 where c1: "calloc 1 24 w = Some (s, w1)" using calloc_total by blast
  have l1: "s = NULL \<Longrightarrow> live w1 = live w" using c1 by (auto elim!: calloc_cases)
  show thesis
  proof (cases "j2p type = NULL \<or> (\<exists>et. types w (j2p type) = Some et \<and> ft_size et = 0) \<or> sint len < 1 \<or> s = NULL")
    case True
    with assms c1 l1 have "h = 0 \<and> live w' = live w \<and> raised w'"
      by (auto simp: newArray_def Let_def split: if_splits bind_splits)
    with error show thesis by simp
  next
    case False
    with assms obtain et where et: "types w (j2p type) = Some et" "ft_size et \<noteq> 0"
      by (auto simp: newArray_def Let_def split: bind_splits)
    obtain e w2 where "calloc (scast (len + 1)) 8 (write_type s \<lparr>ft_size = scast len * ft_size et,
         ft_alignment = ft_alignment et, ft_type = FFI_TYPE_STRUCT, ft_elements = NULL\<rparr> w1) = Some (e, w2)"
      using calloc_total by blast
    with alloc et False c1 show thesis by force
  qed
qed

lemma newArray_outcome:
  assumes ok: "type_heap_ok w" and run: "newArray type len w = Some (h, w')"
  shows "handle_outcome h w w'"
  using run
proof (cases rule: newArray_steps)
  case (alloc et s w1 e w2)
  from alloc(5,6) obtain sc0 where sc0: "script w = s # sc0" by (auto elim: calloc_cases)
  note fresh = type_heap_ok_script [OF ok sc0 alloc(6)]
  from ok alloc(5-7) show ?thesis
  proof (cases rule: calloc_cases2)
    case (fail sc)
    let ?w = "throwException OutOfMemory ''failed to allocate memory'' [] w2"
    have "free_type s ?w = Some (?w\<lparr>live := (live ?w)(s := None), types := (types ?w)(s := None)\<rparr>)"
      using fail alloc(6) by (intro free_type_live) auto
    with run alloc fail fresh show ?thesis by (auto simp: newArray_def Let_def)
  next
    case (block sc)
    let ?st = "\<lparr>ft_size = scast len * ft_size et, ft_alignment = ft_alignment et,
                ft_type = FFI_TYPE_STRUCT, ft_elements = e\<rparr>"
    let ?xs = "replicate (unat len + 1) NULL"
    let ?w3 = "write_type s ?st (write_ptrs e ?xs w2)"
    have fill: "array_fill e 0 (unat len) (j2p type) ?w3 = Some (if unat len = 0 then ?w3
       else write_ptrs e (take 0 ?xs @ replicate (unat len) (j2p type) @ drop (0 + unat len) ?xs) ?w3)"
      by (rule array_fill_effect) (simp_all del: replicate.simps)
    have "types w' s = Some ?st" "live w' = live w2" "h = p2j s"
      using run alloc block(1) fill by (auto simp: newArray_def Let_def split: if_splits)
    with block fresh alloc(6) show ?thesis
      by (intro disjI2 exI [of _ e]) (auto simp: aggregate_at_def)
  qed
qed simp

section \<open>Both constructors satisfy the handle contract\<close>

lemma aggregate_handle_contract:
  assumes "handle_outcome h w w'" and "type_heap_ok w"
  shows "h = 0 \<Longrightarrow> blocks w' = blocks w \<and> raised w'"
    and "h \<noteq> 0 \<Longrightarrow> \<exists>w''. freeAggregate h w' = Some w'' \<and> blocks w'' = blocks w"
    and "h \<noteq> 0 \<Longrightarrow> blocks w \<subset> blocks w'"
proof -
  show "h = 0 \<Longrightarrow> blocks w' = blocks w \<and> raised w'"
    using assms(1) by (auto simp: aggregate_at_def)
  show "h \<noteq> 0 \<Longrightarrow> \<exists>w''. freeAggregate h w' = Some w'' \<and> blocks w'' = blocks w"
    using assms(1) freeAggregate_releases by blast
  show "h \<noteq> 0 \<Longrightarrow> blocks w \<subset> blocks w'"
    using assms(1) by (simp add: aggregate_at_def psubset_eq) blast
qed

interpretation new_struct: handle_constructor "newStruct ta u" freeAggregate type_heap_ok
  by unfold_locales (rule aggregate_handle_contract [OF newStruct_outcome]; assumption?; simp?)+

interpretation new_array: handle_constructor "newArray ty len" freeAggregate type_heap_ok
  by unfold_locales (rule aggregate_handle_contract [OF newArray_outcome]; assumption?; simp?)+

section \<open>Success\<close>

definition struct_descr :: "bool \<Rightarrow> ffi_type list \<Rightarrow> addr \<Rightarrow> ffi_type" where
  "struct_descr u es e = \<lparr>ft_size = FFI_ALIGN (fst (scan u es 0 0)) (ucast (snd (scan u es 0 0))),
     ft_alignment = snd (scan u es 0 0), ft_type = FFI_TYPE_STRUCT, ft_elements = e\<rparr>"

definition built :: "addr \<Rightarrow> ffi_type \<Rightarrow> addr list \<Rightarrow> addr list \<Rightarrow> 'a type_world_scheme \<Rightarrow> 'a type_world_scheme" where
  "built s t xs sc w = write_type s t (write_ptrs (ft_elements t) xs
     (w\<lparr>script := sc, live := (live w)(s \<mapsto> 24, ft_elements t \<mapsto> of_nat (length xs) * 8)\<rparr>))"

lemma two_callocs:
  assumes "script w = s # e # sc" "s \<noteq> NULL" "e \<noteq> NULL" "n < 2 ^ 31"
  shows "calloc 1 24 w = Some (s, w\<lparr>script := e # sc, live := (live w)(s \<mapsto> 24)\<rparr>)"
    and "calloc (of_nat n) 8 (write_type s t (w\<lparr>script := e # sc, live := (live w)(s \<mapsto> 24)\<rparr>))
       = Some (e, write_type s t (w\<lparr>script := sc, live := (live w)(s \<mapsto> 24, e \<mapsto> of_nat n * 8)\<rparr>))"
  proof -
  have "(unat (of_nat n :: 64 word) = n)" using assms(4) by (intro unat_of_nat64) simp
  with assms show "calloc (of_nat n) 8 (write_type s t (w\<lparr>script := e # sc, live := (live w)(s \<mapsto> 24)\<rparr>))
       = Some (e, write_type s t (w\<lparr>script := sc, live := (live w)(s \<mapsto> 24, e \<mapsto> of_nat n * 8)\<rparr>))"
    by (simp add: calloc_def malloc_def write_type_def)
qed (use assms in \<open>simp add: calloc_def malloc_def\<close>)

lemma count_plus_one: "n + 1 < 2 ^ 31 \<Longrightarrow> (scast ((of_nat n :: 32 word) + 1) :: 64 word) = of_nat (n + 1)"
  using scast_of_nat32 [of "n + 1"] by (simp only: of_nat_add of_nat_1)

lemma newStruct_success:
  assumes ok: "type_heap_ok w" and fs: "fs \<noteq> []" "length fs + 1 < 2 ^ 31" "\<forall>f \<in> set fs. valid_field w f"
    and sc: "script w = s # e # sc" "s \<noteq> NULL" "e \<noteq> NULL"
    and sz: "fst (scan u (map (descr w) fs) 0 0) \<noteq> 0"
  shows "newStruct (Some fs) u w =
     Some (p2j s, built s (struct_descr u (map (descr w) fs) e) (map j2p fs @ [NULL]) sc w)"
proof -
  let ?t0 = "\<lparr>ft_size = 0, ft_alignment = 0, ft_type = FFI_TYPE_STRUCT, ft_elements = e\<rparr>"
  let ?n = "length fs + 1"
  let ?w2 = "write_type s zero_ffi_type (w\<lparr>script := sc, live := (live w)(s \<mapsto> 24, e \<mapsto> of_nat ?n * 8)\<rparr>)"
  let ?w3 = "write_type s ?t0 (write_ptrs e (replicate ?n NULL) ?w2)"
  let ?w4 = "write_type s (?t0\<lparr>ft_size := fst (scan u (map (descr w) fs) 0 0),
      ft_alignment := snd (scan u (map (descr w) fs) 0 0)\<rparr>) (write_ptrs e (map j2p fs @ [NULL])
        (w\<lparr>script := sc, live := (live w)(s \<mapsto> 24, e \<mapsto> of_nat ?n * 8)\<rparr>))"
  note c = two_callocs [OF sc fs(2)]
  note fresh = type_heap_ok_script [OF ok sc(1,2)]
  have same: "map (descr ?w3) fs = map (descr w) fs"
    using fs(3) fresh(2) by (auto simp: descr_def valid_field_def)
  have "\<forall>f \<in> set fs. valid_field ?w3 f \<and> j2p f \<noteq> s"
    using fs(3) fresh(2) by (auto simp: valid_field_def)
  then have run: "struct_fields s u 0 fs ?w3 = Some (True, if fs = [] then ?w3 else
     write_type s (?t0\<lparr>ft_size := fst (scan u (map (descr ?w3) fs) (ft_size ?t0) (ft_alignment ?t0)),
                      ft_alignment := snd (scan u (map (descr ?w3) fs) (ft_size ?t0) (ft_alignment ?t0))\<rparr>)
       (write_ptrs (ft_elements ?t0) (take 0 (replicate ?n NULL) @ map j2p fs
          @ drop (0 + length fs) (replicate ?n NULL)) ?w3))"
    by (rule struct_fields_valid) simp_all
  have cnt: "\<not> sint (of_nat (length fs) :: jint) < 1"
    using fs(1,2) sint_of_nat32 [of "length fs"] by (cases fs) (auto simp del: of_nat_Suc)
  have last: "drop (length fs) (replicate ?n NULL) = [NULL]" by (simp only: drop_replicate) simp
  have "newStruct (Some fs) u w = do { (ok, w4) \<leftarrow> struct_fields s u 0 fs ?w3; struct_finish s ok w4 }"
    by (rule newStruct_alloc [OF cnt c(1) sc(2) _ sc(3)])
       (simp only: count_plus_one [OF fs(2)] c(2))
  also have "\<dots> = struct_finish s True ?w4"
    unfolding run same add_0 last using fs(1) by (simp del: replicate.simps)
  also have "\<dots> = Some (p2j s, built s (struct_descr u (map (descr w) fs) e) (map j2p fs @ [NULL]) sc w)"
    using sz by (simp add: struct_finish_def struct_descr_def built_def)
  finally show ?thesis .
qed

lemma built_simps [simp]:
  "types (built s t xs sc w) = (types w)(s \<mapsto> t)"
  "ptrs (built s t xs sc w) = (ptrs w)(ft_elements t \<mapsto> xs)"
  "blocks (built s t xs sc w) = {s, ft_elements t} \<union> blocks w"
  "script (built s t xs sc w) = sc"
  by (auto simp: built_def)

lemma struct_error_defined:
  assumes "types w s = Some st" "s \<noteq> NULL" "s \<in> blocks w" "NULL \<notin> blocks w"
    and "ft_elements st = NULL \<or> ft_elements st \<in> blocks w \<and> ft_elements st \<noteq> s"
  shows "struct_error s w \<noteq> None"
  using struct_error_frees [of w s st] assms by auto

lemma newStruct_defined:
  assumes ok: "type_heap_ok w" and fs: "\<forall>f \<in> set fs. j2p f = NULL \<or> j2p f \<in> dom (types w)"
  shows "newStruct (Some fs) u w \<noteq> None"
proof (cases "sint (of_nat (length fs) :: jint) < 1")
  case True
  then show ?thesis by (simp add: newStruct_def)
next
  case cnt: False
  obtain s w1 where c1: "calloc 1 24 w = Some (s, w1)" using calloc_total by blast
  let ?n = "scast ((of_nat (length fs) :: jint) + 1) :: size_t"
  show ?thesis
  proof (cases "s = NULL")
    case True
    with cnt c1 show ?thesis by (simp add: newStruct_def)
  next
    case s: False
    obtain e w2 where c2: "calloc ?n 8 (write_type s zero_ffi_type w1) = Some (e, w2)"
      using calloc_total by blast
    from ok c1 s c2 show ?thesis
    proof (cases rule: calloc_cases2)
      case (fail sc)
      have "struct_error s (throwException OutOfMemory ''failed to allocate memory'' [] w2) \<noteq> None"
        by (rule struct_error_defined [where st = zero_ffi_type])
           (use fail s null_not_block [OF ok] in \<open>auto simp: zero_ffi_type_def\<close>)
      with cnt c1 c2 s fail show ?thesis by (simp add: newStruct_def)
    next
      case (block sc)
      let ?t0 = "\<lparr>ft_size = 0, ft_alignment = 0, ft_type = FFI_TYPE_STRUCT, ft_elements = e\<rparr>"
      let ?xs = "replicate (length fs + 1) NULL"
      let ?w3 = "write_type s ?t0 (write_ptrs e ?xs w2)"
      have "struct_fields s u 0 fs ?w3 \<noteq> None"
        by (rule struct_fields_defined [where xs = ?xs and st = ?t0]) (use fs block in auto)
      then obtain ok' w4 where run: "struct_fields s u 0 fs ?w3 = Some (ok', w4)" by auto
      have "types ?w3 s = Some ?t0" "ptrs ?w3 (ft_elements ?t0) = Some ?xs" by simp_all
      from struct_fields_frame [OF run this] block(5)
      obtain st where st: "types w4 s = Some st" "ft_elements st = e" "blocks w4 = {s, e} \<union> blocks w"
        by (auto simp: insert_commute)
      have "struct_error s w4 \<noteq> None"
        "struct_error s (throwException Runtime ''struct size is zero'' [] w4) \<noteq> None"
        by (rule struct_error_defined [where st = st]; use st s block null_not_block [OF ok] in simp)+
      then have "struct_finish s ok' w4 \<noteq> None" using st by (simp add: struct_finish_def)
      then show ?thesis using run by (simp add: newStruct_alloc [OF cnt c1 s c2 block(1)])
    qed
  qed
qed

section \<open>Layout lemmas for the constructors\<close>

lemma agg_scan_snd: "snd (agg_scan es s a) = foldl (\<lambda>m e. max m (ft_alignment e)) a es"
  by (induction es arbitrary: s a) auto

lemma union_scan_layout:
  "union_scan es s a = (foldl (\<lambda>m e. max m (ft_size e)) s es, foldl (\<lambda>m e. max m (ft_alignment e)) a es)"
  by (induction es arbitrary: s a) auto

lemma field_of_size_pos: "ft_size e \<noteq> 0 \<Longrightarrow> 0 < fst (field_of e)"
  by (simp add: field_of_def unat_gt_0)

lemma c_end_pos:
  assumes "fields_ok fs" "fs \<noteq> []" "\<forall>f \<in> set fs. 0 < fst f"
  shows "0 < c_end fs cur"
proof -
  obtain s a fs' where fs: "fs = (s, a) # fs'" using assms(2) by (cases fs) auto
  then have "align_up cur a + s \<le> c_end fs' (align_up cur a + s)" using assms(1) by (simp add: c_end_ge)
  with fs assms(3) show ?thesis by auto
qed

lemma agg_scan_nonzero:
  assumes es: "\<forall>e \<in> set es. sane_align e \<and> ft_size e \<noteq> 0" "es \<noteq> []"
    and fits: "c_end (map field_of es) 0 + 2 ^ 16 \<le> 2 ^ 64"
  shows "fst (agg_scan es 0 0) \<noteq> 0"
proof -
  have "0 < c_end (map field_of es) 0"
    using es by (intro c_end_pos sane_align_fields) (auto simp: field_of_size_pos)
  then show ?thesis using agg_scan_layout [of es 0 0] es(1) fits by force
qed

lemma agg_final_scan: "agg_final es = (FFI_ALIGN (fst (agg_scan es 0 0)) (ucast (snd (agg_scan es 0 0))), snd (agg_scan es 0 0))"
  by (simp add: agg_final_def split: prod.splits)

lemma struct_descr_final:
  "struct_descr False es e = \<lparr>ft_size = fst (agg_final es), ft_alignment = snd (agg_final es),
     ft_type = FFI_TYPE_STRUCT, ft_elements = e\<rparr>"
  by (simp add: struct_descr_def agg_final_scan scan_def)

lemma c_size_pos:
  assumes "fields_ok fs" "fs \<noteq> []" "\<forall>f \<in> set fs. 0 < fst f"
  shows "0 < c_size fs"
proof -
  obtain k where "c_align fs = 2 ^ k" using c_align_pow2 assms(1,2) by blast
  then have "c_end fs 0 \<le> c_size fs" by (simp add: c_size_def align_up_ge)
  with c_end_pos [OF assms] show ?thesis by (rule less_le_trans)
qed

text \<open>A run of equal fields whose size is a multiple of their alignment has no padding.\<close>

lemma agg_scan_replicate:
  assumes "sane_align e" "unat (ft_alignment e) dvd unat (ft_size e)"
    and "unat (ft_alignment e) dvd unat s" "unat s + n * unat (ft_size e) + 2 ^ 16 \<le> 2 ^ 64" "0 < n"
  shows "agg_scan (replicate n e) s a = (s + of_nat n * ft_size e, max a (ft_alignment e))"
  using assms
proof (induction n arbitrary: s a)
  case (Suc n)
  from Suc.prems(1) obtain k where k: "ft_alignment e = 2 ^ k" "k < 16" by (auto simp: sane_align_def)
  have al: "align_up (unat s) (unat (ft_alignment e)) = unat s"
    using Suc.prems(3) k by (intro align_up_dvd_same) (simp_all add: unat_pow2_16)
  have b: "unat s + unat (ft_size e) + n * unat (ft_size e) + 2 ^ 16 \<le> 2 ^ 64"
    using Suc.prems(4) by simp
  then have "align_up (unat s) (unat (ft_alignment e)) + unat (ft_size e) + 2 ^ 16 \<le> 2 ^ 64"
    unfolding al by linarith
  note st = agg_step_layout [OF Suc.prems(1) this, unfolded al]
  have s: "FFI_ALIGN s (ucast (ft_alignment e)) = s" using st(1) by (rule word_unat_eq_iff [THEN iffD2])
  show ?case
  proof (cases "n = 0")
    case False
    have "agg_scan (replicate n e) (s + ft_size e) (max a (ft_alignment e))
        = (s + ft_size e + of_nat n * ft_size e, max (max a (ft_alignment e)) (ft_alignment e))"
      by (rule Suc.IH) (use Suc.prems b st(2) s False in auto)
    then show ?thesis by (simp add: s algebra_simps)
  qed (simp add: s)
qed simp

lemma builtin_sane_align: "sane_align (builtin_type b)"
proof -
  obtain k where "k < 5" "ft_alignment (builtin_type b) = 2 ^ k" using builtin_sane(3) by blast
  then show ?thesis by (auto simp: sane_align_def intro!: exI [of _ k])
qed

lemma foldl_max_ge:
  fixes g :: "'a \<Rightarrow> 'b::linorder"
  shows "a \<le> foldl (\<lambda>m e. max m (g e)) a es"
proof (induction es arbitrary: a)
  case (Cons x es)
  have "a \<le> max a (g x)" by simp
  also have "\<dots> \<le> foldl (\<lambda>m e. max m (g e)) (max a (g x)) es" by (rule Cons.IH)
  finally show ?case by simp
qed simp

lemma foldl_max_member:
  fixes g :: "'a \<Rightarrow> 'b::linorder"
  shows "e \<in> set es \<Longrightarrow> g e \<le> foldl (\<lambda>m e. max m (g e)) a es"
proof (induction es arbitrary: a)
  case (Cons x es)
  have "g x \<le> max a (g x)" by simp
  also have "\<dots> \<le> foldl (\<lambda>m e. max m (g e)) (max a (g x)) es" by (rule foldl_max_ge)
  finally show ?case using Cons by auto
qed simp

lemma foldl_max_attained:
  fixes g :: "'a \<Rightarrow> 'b::linorder"
  shows "foldl (\<lambda>m e. max m (g e)) a es = a \<or> (\<exists>e \<in> set es. foldl (\<lambda>m e. max m (g e)) a es = g e)"
proof (induction es arbitrary: a)
  case (Cons x es)
  show ?case using Cons [of "max a (g x)"] by (cases "a \<le> g x") (auto simp: max_def)
qed simp

lemma foldl_max_align:
  "unat (foldl (\<lambda>m e. max m (ft_alignment e)) a es) = max (unat a) (c_align (map field_of es))"
proof (induction es arbitrary: a)
  case (Cons e es)
  have "unat (max a (ft_alignment e)) = max (unat a) (unat (ft_alignment e))"
    by (auto simp: max_def word_le_nat_alt)
  with Cons show ?case by (simp add: field_of_def [of e] max.assoc)
qed simp

section \<open>Properties\<close>

text \<open>Claim C1. \<open>newStruct\<close> is memory safe and never leaks. Given field handles that are null or
  valid descriptors, and whatever the allocator answers, it returns; a zero handle comes with
  an exception pending; and once the handle, if there is one, is passed to \<open>freeAggregate\<close>,
  exactly the blocks that were allocated before are allocated.\<close>

theorem newStruct_releases_all:
  assumes "type_heap_ok w" and "\<forall>f \<in> set fs. j2p f = NULL \<or> j2p f \<in> dom (types w)"
  shows "\<exists>h w' w''. newStruct (Some fs) u w = Some (h, w') \<and> (h = 0 \<longrightarrow> raised w')
       \<and> (if h = 0 then Some w' else freeAggregate h w') = Some w'' \<and> blocks w'' = blocks w"
proof -
  from newStruct_defined [OF assms, of u] obtain h w' where run: "newStruct (Some fs) u w = Some (h, w')" by auto
  with new_struct.no_leak [OF assms(1) run] new_struct.build_fail [OF assms(1)] show ?thesis by blast
qed


lemma newStruct_releases_all_witness:
  "\<exists>h w' w''. newStruct (Some [0x1078, 0x1108]) False (loaded [0x2000, 0x3000]) = Some (h, w')
     \<and> (h = 0 \<longrightarrow> raised w') \<and> (if h = 0 then Some w' else freeAggregate h w') = Some w''
     \<and> blocks w'' = blocks (loaded [0x2000, 0x3000])"
proof (rule newStruct_releases_all)
  show "type_heap_ok (loaded [0x2000, 0x3000])" by (rule loaded_ok) simp_all
  show "\<forall>f \<in> set [0x1078, 0x1108]. j2p f = NULL \<or> j2p f \<in> dom (types (loaded [0x2000, 0x3000]))"
    by (simp add: j2p_def image_types_def image_symbol.simps dom_def)
qed

text \<open>Claim C2. A struct descriptor has the layout of the C ABI. When every field descriptor is
  valid, with a power-of-two alignment, and the struct fits the address space, \<open>newStruct\<close>
  returns a descriptor of type STRUCT whose size and alignment are those C gives to a struct
  with these fields, whose element array holds the fields in order and ends with NULL, and
  nothing raised.\<close>

theorem newStruct_c_layout:
  assumes ok: "type_heap_ok w" and fs: "fs \<noteq> []" "length fs + 1 < 2 ^ 31"
    and valid: "\<forall>f \<in> set fs. valid_field w f \<and> sane_align (descr w f)"
    and sc: "script w = s # e # sc" "s \<noteq> NULL" "e \<noteq> NULL"
    and F: "F = map (field_of \<circ> descr w) fs" and fits: "c_end F 0 + 2 ^ 16 \<le> 2 ^ 64"
  shows "\<exists>w' t. newStruct (Some fs) False w = Some (p2j s, w') \<and> types w' s = Some t
       \<and> unat (ft_size t) = c_size F \<and> unat (ft_alignment t) = c_align F \<and> ft_type t = FFI_TYPE_STRUCT
       \<and> ptrs w' (ft_elements t) = Some (map j2p fs @ [NULL]) \<and> pending w' = pending w"
proof -
  let ?es = "map (descr w) fs"
  have es: "\<forall>e \<in> set ?es. sane_align e" "\<forall>e \<in> set ?es. sane_align e \<and> ft_size e \<noteq> 0" "?es \<noteq> []"
    using valid fs by (auto simp: valid_field_def descr_def)
  have fits': "c_end (map field_of ?es) 0 + 2 ^ 16 \<le> 2 ^ 64" using fits F by simp
  have "newStruct (Some fs) False w
      = Some (p2j s, built s (struct_descr False ?es e) (map j2p fs @ [NULL]) sc w)"
    using valid agg_scan_nonzero [OF es(2,3) fits']
    by (intro newStruct_success ok fs sc) (auto simp: scan_def)
  moreover have "pending (built s (struct_descr False ?es e) (map j2p fs @ [NULL]) sc w) = pending w"
    by (simp add: built_def)
  ultimately show ?thesis
    using agg_final_layout(1,2) [OF es(1,3) fits'] F by (simp add: struct_descr_final)
qed

lemma loaded_valid [simp]: "valid_field (loaded sc) (p2j (image_symbol b))"
  "descr (loaded sc) (p2j (image_symbol b)) = builtin_type b"
  by (auto simp: valid_field_def descr_def builtin_sane(2))

lemma newStruct_c_layout_witness:
  "\<exists>w' t. newStruct (Some (map (p2j \<circ> image_symbol) [ffi_type_uint8, ffi_type_double, ffi_type_uint16]))
            False (loaded [0x2000, 0x3000]) = Some (p2j 0x2000, w') \<and> types w' 0x2000 = Some t
     \<and> unat (ft_size t) = 24 \<and> unat (ft_alignment t) = 8"
proof -
  let ?fs = "map (p2j \<circ> image_symbol) [ffi_type_uint8, ffi_type_double, ffi_type_uint16]"
  let ?w = "loaded [0x2000, 0x3000]"
  have F: "[(1, 1), (8, 8), (2, 2)] = map (field_of \<circ> descr ?w) ?fs"
    by (simp add: builtin_type.simps FFI_TYPEDEF_def field_of_def)
  have "type_heap_ok ?w" by (rule loaded_ok) simp_all
  moreover have "\<forall>f \<in> set ?fs. valid_field ?w f \<and> sane_align (descr ?w f)"
    using builtin_sane_align by auto
  ultimately have "\<exists>w' t. newStruct (Some ?fs) False ?w = Some (p2j 0x2000, w') \<and> types w' 0x2000 = Some t
       \<and> unat (ft_size t) = c_size [(1, 1), (8, 8), (2, 2)] \<and> unat (ft_alignment t) = c_align [(1, 1), (8, 8), (2, 2)]
       \<and> ft_type t = FFI_TYPE_STRUCT
       \<and> ptrs w' (ft_elements t) = Some (map j2p ?fs @ [NULL]) \<and> pending w' = pending ?w"
    by (intro newStruct_c_layout [OF _ _ _ _ _ _ _ F, where e = "0x3000" and sc = "[]"])
       (simp_all add: align_up_def)
  then show ?thesis by (auto simp: c_size_def align_up_def)
qed

text \<open>Claim C3. jffi and libffi agree on the layout. On the descriptor that \<open>newStruct\<close> returns,
  libffi's own computation \<open>ffi_get_struct_offsets\<close> succeeds, finds the size and alignment
  already stored (it leaves the world as it was), and reports for each field the offset C gives
  it; those offsets are aligned, and the fields lie one after the other inside the struct.\<close>

theorem newStruct_libffi_offsets:
  assumes ok: "type_heap_ok w" and fs: "fs \<noteq> []" "length fs + 1 < 2 ^ 31"
    and valid: "\<forall>f \<in> set fs. valid_field w f \<and> sane_align (descr w f)"
    and sc: "script w = s # e # sc" "s \<noteq> NULL" "e \<noteq> NULL"
    and F: "F = map (field_of \<circ> descr w) fs" and fits: "c_end F 0 + 2 ^ 16 \<le> 2 ^ 64"
  shows "\<exists>w' offs. newStruct (Some fs) False w = Some (p2j s, w')
       \<and> ffi_get_struct_offsets (Suc n) FFI_DEFAULT_ABI s w' = Some ((FFI_OK, offs), w')
       \<and> map unat offs = c_offsets F 0
       \<and> (\<forall>i < length F. snd (F ! i) dvd unat (offs ! i) \<and> unat (offs ! i) + fst (F ! i) \<le> c_size F
            \<and> (\<forall>j < i. unat (offs ! j) + fst (F ! j) \<le> unat (offs ! i)))"
proof -
  let ?es = "map (descr w) fs"
  have es: "\<forall>e \<in> set ?es. sane_align e" "\<forall>e \<in> set ?es. sane_align e \<and> ft_size e \<noteq> 0" "?es \<noteq> []"
    using valid fs by (auto simp: valid_field_def descr_def)
  have fits': "c_end (map field_of ?es) 0 + 2 ^ 16 \<le> 2 ^ 64" using fits F by simp
  let ?t = "struct_descr False ?es e"
  let ?w = "built s ?t (map j2p fs @ [NULL]) sc w"
  have new: "newStruct (Some fs) False w = Some (p2j s, ?w)"
    using valid agg_scan_nonzero [OF es(2,3) fits']
    by (intro newStruct_success ok fs sc) (auto simp: scan_def)
  have Fo: "fields_ok F" "F \<noteq> []" "\<forall>f \<in> set F. 0 < fst f"
    using sane_align_fields [OF es(1)] es(2) fs F by (auto simp: o_def field_of_size_pos)
  have L: "unat (fst (agg_final ?es)) = c_size F" "map unat (agg_offs ?es 0) = c_offsets F 0"
    using agg_final_layout(1,3) [OF es(1,3) fits'] F by simp_all
  then have nz: "fst (agg_final ?es) \<noteq> 0" using c_size_pos [OF Fo] by force
  have el: "types w (j2p f) = Some (descr w f) \<and> j2p f \<noteq> NULL \<and> j2p f \<noteq> s \<and> ft_size (descr w f) \<noteq> 0"
    if "f \<in> set fs" for f
    using that valid type_heap_ok_script(2) [OF ok sc(1,2)] by (auto simp: valid_field_def descr_def)
  have same: "map (descr w \<circ> p2j) (map j2p fs) = ?es" by simp
  have init: "initialize_aggregate (Suc n) s ?w =
     Some ((if fst (agg_final ?es) = 0 then FFI_BAD_TYPEDEF else FFI_OK, agg_offs ?es 0),
           write_type s (?t\<lparr>ft_size := fst (agg_final ?es), ft_alignment := snd (agg_final ?es)\<rparr>) ?w)"
    unfolding same [symmetric]
    by (rule initialize_aggregate_scan [where rest = "[]"]) (use el sc in \<open>auto simp: struct_descr_def\<close>)
  have "write_type s ?t ?w = ?w" by (simp add: built_def)
  with init nz have off: "ffi_get_struct_offsets (Suc n) FFI_DEFAULT_ABI s ?w = Some ((FFI_OK, agg_offs ?es 0), ?w)"
    by (simp add: ffi_get_struct_offsets_def struct_descr_final)
  have len: "length (agg_offs ?es 0) = length F" using L(2) by (metis length_map length_c_offsets)
  then have nth: "i < length F \<Longrightarrow> unat (agg_offs ?es 0 ! i) = c_offsets F 0 ! i" for i
    using L(2) by (metis nth_map)
  obtain k where "c_align F = 2 ^ k" using c_align_pow2 Fo by blast
  then have "c_end F 0 \<le> c_size F" by (simp add: c_size_def align_up_ge)
  then have "i < length F \<Longrightarrow> snd (F ! i) dvd unat (agg_offs ?es 0 ! i)
      \<and> unat (agg_offs ?es 0 ! i) + fst (F ! i) \<le> c_size F
      \<and> (\<forall>j < i. unat (agg_offs ?es 0 ! j) + fst (F ! j) \<le> unat (agg_offs ?es 0 ! i))" for i
    using c_offsets_aligned [of i F 0] c_offsets_end [OF Fo(1), of i 0] c_offsets_disjoint [OF Fo(1), of _ i 0]
    by (auto simp: nth)
  with new off L(2) show ?thesis by blast
qed

lemma newStruct_libffi_offsets_witness:
  "\<exists>w' offs. newStruct (Some (map (p2j \<circ> image_symbol) [ffi_type_uint8, ffi_type_double, ffi_type_uint16]))
            False (loaded [0x2000, 0x3000]) = Some (p2j 0x2000, w')
     \<and> ffi_get_struct_offsets 1 FFI_DEFAULT_ABI 0x2000 w' = Some ((FFI_OK, offs), w')
     \<and> map unat offs = [0, 8, 16]"
proof -
  let ?fs = "map (p2j \<circ> image_symbol) [ffi_type_uint8, ffi_type_double, ffi_type_uint16]"
  let ?w = "loaded [0x2000, 0x3000]"
  let ?F = "[(1, 1), (8, 8), (2, 2)] :: field list"
  have F: "?F = map (field_of \<circ> descr ?w) ?fs"
    by (simp add: builtin_type.simps FFI_TYPEDEF_def field_of_def)
  have ok: "type_heap_ok ?w" by (rule loaded_ok) simp_all
  have v: "\<forall>f \<in> set ?fs. valid_field ?w f \<and> sane_align (descr ?w f)"
    using builtin_sane_align by auto
  have "\<exists>w' offs. newStruct (Some ?fs) False ?w = Some (p2j 0x2000, w')
       \<and> ffi_get_struct_offsets (Suc 0) FFI_DEFAULT_ABI 0x2000 w' = Some ((FFI_OK, offs), w')
       \<and> map unat offs = c_offsets ?F 0
       \<and> (\<forall>i < length ?F. snd (?F ! i) dvd unat (offs ! i) \<and> unat (offs ! i) + fst (?F ! i) \<le> c_size ?F
            \<and> (\<forall>j < i. unat (offs ! j) + fst (?F ! j) \<le> unat (offs ! i)))"
    by (rule newStruct_libffi_offsets [OF ok _ _ v _ _ _ F, where e = "0x3000" and sc = "[]"])
       (simp_all add: align_up_def)
  then show ?thesis by (auto simp: align_up_def)
qed

text \<open>Claim C4. An array descriptor is the descriptor of the struct that repeats the element.
  When the element's alignment is a power of two that divides its size and the array fits the
  address space, \<open>newArray\<close> and \<open>newStruct\<close> on \<open>n\<close> copies of the element end in the same
  world with the same handle.\<close>

theorem newArray_is_repeated_struct:
  assumes ok: "type_heap_ok w" and n: "0 < n" "n + 1 < 2 ^ 31"
    and valid: "valid_field w ty" "sane_align (descr w ty)"
      "unat (ft_alignment (descr w ty)) dvd unat (ft_size (descr w ty))"
    and fits: "n * unat (ft_size (descr w ty)) + 2 ^ 16 \<le> 2 ^ 64"
    and sc: "script w = s # e # sc" "s \<noteq> NULL" "e \<noteq> NULL"
  shows "newArray ty (of_nat n) w = newStruct (Some (replicate n ty)) False w
       \<and> (\<exists>w'. newArray ty (of_nat n) w = Some (p2j s, w'))"
proof -
  let ?t = "descr w ty"
  have t: "types w (j2p ty) = Some ?t" "j2p ty \<noteq> NULL" "ft_size ?t \<noteq> 0"
    using valid(1) by (auto simp: valid_field_def descr_def)
  have scan: "scan False (map (descr w) (replicate n ty)) 0 0 = (of_nat n * ft_size ?t, ft_alignment ?t)"
    using agg_scan_replicate [of ?t 0 n 0] valid fits n by (simp add: scan_def)
  have un: "unat (of_nat n * ft_size ?t) = n * unat (ft_size ?t)"
    using fits n by (simp add: unat_word_ariths unat_of_nat64)
  obtain k where k: "ft_alignment ?t = 2 ^ k" "k < 16" using valid(2) by (auto simp: sane_align_def)
  have kb: "(2::nat) ^ k \<le> 2 ^ 16" using k(2) by (rule pow2_16_le)
  have "unat (FFI_ALIGN (of_nat n * ft_size ?t) (ucast (ft_alignment ?t)))
      = align_up (n * unat (ft_size ?t)) (2 ^ k)"
    using k fits kb un by (subst unat_FFI_ALIGN [where k = k]) (auto simp: ucast_pow2_16)
  also have "\<dots> = n * unat (ft_size ?t)"
    using valid(3) k by (intro align_up_dvd_same) (simp_all add: unat_pow2_16)
  finally have al: "FFI_ALIGN (of_nat n * ft_size ?t) (ucast (ft_alignment ?t)) = of_nat n * ft_size ?t"
    using un by (simp add: word_unat_eq_iff)
  have st: "newStruct (Some (replicate n ty)) False w = Some (p2j s,
      built s (struct_descr False (map (descr w) (replicate n ty)) e) (map j2p (replicate n ty) @ [NULL]) sc w)"
    using n valid(1) t(3) un scan
    by (intro newStruct_success ok sc) (auto simp: unat_eq_0 [symmetric] simp del: map_replicate)
  note fresh = type_heap_ok_script [OF ok sc(1,2)]
  let ?st = "\<lparr>ft_size = of_nat n * ft_size ?t, ft_alignment = ft_alignment ?t,
      ft_type = FFI_TYPE_STRUCT, ft_elements = e\<rparr>"
  have descr: "struct_descr False (map (descr w) (replicate n ty)) e = ?st"
    unfolding struct_descr_def scan by (simp add: al)
  have len: "scast (of_nat n :: jint) = (of_nat n :: size_t)" "sint (of_nat n :: jint) = int n"
    "scast ((of_nat n :: jint) + 1) = (of_nat (n + 1) :: size_t)" "unat (of_nat n :: jint) = n"
    using n count_plus_one [OF n(2)] by (auto intro!: scast_of_nat32 sint_of_nat32 unat_of_nat32)
  note c = two_callocs [OF sc n(2)]
  have c2: "calloc (1 + of_nat n) 8 (write_type s t (w\<lparr>script := e # sc, live := (live w)(s \<mapsto> 24)\<rparr>))
       = Some (e, write_type s t (w\<lparr>script := sc, live := (live w)(s \<mapsto> 24, e \<mapsto> (1 + of_nat n) * 8)\<rparr>))" for t
    using c(2) [of t] by simp
  let ?xs = "replicate (n + 1) NULL"
  have fill: "array_fill e 0 n (j2p ty) w3 = Some (write_ptrs e (map j2p (replicate n ty) @ [NULL]) w3)"
    if "ptrs w3 e = Some ?xs" for w3 :: "'a type_world_scheme"
  proof -
    have "drop n ?xs = [NULL]" by (simp only: drop_replicate) simp
    with array_fill_effect [OF that, of 0 n "j2p ty"] n show ?thesis by (simp del: replicate.simps)
  qed
  have "newArray ty (of_nat n) w = Some (p2j s, built s ?st (map j2p (replicate n ty) @ [NULL]) sc w)"
    using t n sc(2,3)
    by (simp add: newArray_def Let_def len c(1) c2 fill built_def del: replicate.simps map_replicate)
  with st descr show ?thesis by simp
qed

lemma newArray_is_repeated_struct_witness:
  "newArray (p2j (image_symbol ffi_type_uint16)) 3 (loaded [0x2000, 0x3000])
     = newStruct (Some (replicate 3 (p2j (image_symbol ffi_type_uint16)))) False (loaded [0x2000, 0x3000])
   \<and> (\<exists>w'. newArray (p2j (image_symbol ffi_type_uint16)) 3 (loaded [0x2000, 0x3000]) = Some (p2j 0x2000, w'))"
proof -
  have "newArray (p2j (image_symbol ffi_type_uint16)) (of_nat 3) (loaded [0x2000, 0x3000])
     = newStruct (Some (replicate 3 (p2j (image_symbol ffi_type_uint16)))) False (loaded [0x2000, 0x3000])
   \<and> (\<exists>w'. newArray (p2j (image_symbol ffi_type_uint16)) (of_nat 3) (loaded [0x2000, 0x3000]) = Some (p2j 0x2000, w'))"
  proof (rule newArray_is_repeated_struct [where e = "0x3000" and sc = "[]"])
    show "type_heap_ok (loaded [0x2000, 0x3000])" by (rule loaded_ok) simp_all
  qed (simp_all add: builtin_sane_align, simp_all add: builtin_type.simps FFI_TYPEDEF_def)
  then show ?thesis unfolding of_nat_numeral .
qed

text \<open>Claim C5. A union descriptor has the size of its largest member rounded up to its
  strictest alignment: when the members are valid and have power-of-two alignments,
  \<open>newStruct\<close> with \<open>isUnion\<close> returns a descriptor that is at least as large as every member, is
  a multiple of every member's alignment, and would exceed the largest member by less than the
  largest alignment.\<close>

theorem newStruct_union_layout:
  assumes ok: "type_heap_ok w" and fs: "fs \<noteq> []" "length fs + 1 < 2 ^ 31"
    and valid: "\<forall>f \<in> set fs. valid_field w f \<and> sane_align (descr w f) \<and> unat (ft_size (descr w f)) + 2 ^ 16 \<le> 2 ^ 64"
    and sc: "script w = s # e # sc" "s \<noteq> NULL" "e \<noteq> NULL"
  shows "\<exists>w' t f. newStruct (Some fs) True w = Some (p2j s, w') \<and> types w' s = Some t \<and> f \<in> set fs
       \<and> unat (ft_alignment t) = c_align (map (field_of \<circ> descr w) fs)
       \<and> unat (ft_size t) = align_up (unat (ft_size (descr w f))) (unat (ft_alignment t))
       \<and> (\<forall>g \<in> set fs. ft_size (descr w g) \<le> ft_size (descr w f)
             \<and> unat (ft_alignment (descr w g)) dvd unat (ft_size t))"
proof -
  let ?es = "map (descr w) fs"
  let ?S = "foldl (\<lambda>m e. max m (ft_size e)) 0 ?es" and ?A = "foldl (\<lambda>m e. max m (ft_alignment e)) 0 ?es"
  have scan: "scan True ?es 0 0 = (?S, ?A)" by (simp add: scan_def union_scan_layout)
  have nz: "ft_size (descr w f) \<noteq> 0" if "f \<in> set fs" for f
    using valid that by (auto simp: valid_field_def descr_def)
  have big: "ft_size (descr w g) \<le> ?S" if "g \<in> set fs" for g
    using foldl_max_member [of "descr w g" ?es ft_size 0] that by simp
  have "hd fs \<in> set fs" using fs(1) by simp
  then have "?S \<noteq> 0" using nz [of "hd fs"] big [of "hd fs"] by auto
  then obtain f where f: "f \<in> set fs" "?S = ft_size (descr w f)"
    using foldl_max_attained [of ft_size 0 ?es] by auto
  let ?t = "struct_descr True ?es e"
  have new: "newStruct (Some fs) True w = Some (p2j s, built s ?t (map j2p fs @ [NULL]) sc w)"
    using valid \<open>?S \<noteq> 0\<close> scan by (intro newStruct_success ok fs sc) auto
  have A: "unat ?A = c_align (map (field_of \<circ> descr w) fs)"
    by (simp add: foldl_max_align)
  have ok_fs: "fields_ok (map (field_of \<circ> descr w) fs)"
    using sane_align_fields [of ?es] valid by simp
  then obtain k where k: "unat ?A = 2 ^ k" using c_align_pow2 [of "map (field_of \<circ> descr w) fs"] fs(1) A by auto
  have "unat ?A < 2 ^ LENGTH(16)" by (rule unsigned_less)
  then have "(2::nat) ^ k < 2 ^ 16" using k by simp
  then have k16: "k < 16" by (rule power_less_imp_less_exp [rotated]) simp
  have a: "?A = 2 ^ k" using k k16 by (simp add: word_unat_eq_iff unat_pow2_16)
  have "unat ?S + 2 ^ k \<le> 2 ^ 64"
    using valid f pow2_16_le [OF k16] by fastforce
  then have size: "unat (ft_size ?t) = align_up (unat ?S) (2 ^ k)"
    unfolding struct_descr_def scan using k16
    by (simp add: unat_FFI_ALIGN [where k = k] a ucast_pow2_16)
  have al: "unat (ft_alignment ?t) = 2 ^ k" unfolding struct_descr_def scan using k by simp
  have dvd: "unat (ft_alignment (descr w g)) dvd 2 ^ k" if "g \<in> set fs" for g
  proof -
    have "field_of (descr w g) \<in> set (map (field_of \<circ> descr w) fs)" using that by simp
    then show ?thesis using c_align_dvd [OF ok_fs, of "unat (ft_size (descr w g))"] A k
      by (simp add: field_of_def)
  qed
  have "types (built s ?t (map j2p fs @ [NULL]) sc w) s = Some ?t" by simp
  moreover have "unat (ft_alignment (descr w g)) dvd unat (ft_size ?t)" if "g \<in> set fs" for g
    unfolding size using dvd [OF that] by (rule dvd_align_up)
  ultimately show ?thesis using new f size al A k big
    by (intro exI conjI) (auto intro!: dvd_align_up simp del: o_apply)
qed

lemma newStruct_union_layout_witness:
  "\<exists>w' t f. newStruct (Some (map (p2j \<circ> image_symbol) [ffi_type_uint8, ffi_type_double]))
        True (loaded [0x2000, 0x3000]) = Some (p2j 0x2000, w') \<and> types w' 0x2000 = Some t
     \<and> f \<in> set (map (p2j \<circ> image_symbol) [ffi_type_uint8, ffi_type_double]) \<and> unat (ft_alignment t) = 8"
proof -
  let ?fs = "map (p2j \<circ> image_symbol) [ffi_type_uint8, ffi_type_double]"
  let ?w = "loaded [0x2000, 0x3000]"
  have F: "[(1, 1), (8, 8)] = map (field_of \<circ> descr ?w) ?fs"
    by (simp add: builtin_type.simps FFI_TYPEDEF_def field_of_def)
  have ok: "type_heap_ok ?w" by (rule loaded_ok) simp_all
  have b: "sane_align (builtin_type b) \<and> unat (ft_size (builtin_type b)) + 2 ^ 16 \<le> 2 ^ 64" for b
    by (rule conjI [OF builtin_sane_align]) (cases b; simp add: builtin_type.simps FFI_TYPEDEF_def)
  have v: "\<forall>f \<in> set ?fs. valid_field ?w f \<and> sane_align (descr ?w f) \<and> unat (ft_size (descr ?w f)) + 2 ^ 16 \<le> 2 ^ 64"
    using b by auto
  have "\<exists>w' t f. newStruct (Some ?fs) True ?w = Some (p2j 0x2000, w') \<and> types w' 0x2000 = Some t \<and> f \<in> set ?fs
       \<and> unat (ft_alignment t) = c_align (map (field_of \<circ> descr ?w) ?fs)
       \<and> unat (ft_size t) = align_up (unat (ft_size (descr ?w f))) (unat (ft_alignment t))
       \<and> (\<forall>g \<in> set ?fs. ft_size (descr ?w g) \<le> ft_size (descr ?w f)
             \<and> unat (ft_alignment (descr ?w g)) dvd unat (ft_size t))"
    by (rule newStruct_union_layout [OF ok _ _ v, where e = "0x3000" and sc = "[]"]) simp_all
  then show ?thesis unfolding F [symmetric] by auto
qed

end
