(* ===== verification/Ffi_Classify.thy ===== *)
theory Ffi_Classify
  imports Ffi_Aggregate
begin

text \<open>
  The x86-64 System V classification of arguments (\<^verbatim>\<open>jni/libffi/src/x86/ffi64.c\<close>:
  \<open>merge_classes\<close>, \<open>classify_argument\<close>, \<open>examine_argument\<close>): each eightbyte of a value gets a
  register class, and a value that cannot go in registers is passed in memory.

  The C array \<open>classes[MAX_CLASSES]\<close> filled by \<open>classify_argument\<close> is the list of the classes it
  reports; its length is the number returned, and the empty list stands for the return value
  \<open>0\<close>, memory. A write at or behind index \<open>MAX_CLASSES\<close> overruns the caller's array and is
  \<open>None\<close>, as are \<open>abort\<close> and a dereference of an invalid pointer. \<open>FFI_ASSERT\<close> expands to
  nothing (no \<open>FFI_DEBUG\<close>). Both functions only read the descriptors.
\<close>

section \<open>Register classes\<close>

datatype x86_64_reg_class =
    X86_64_NO_CLASS
  | X86_64_INTEGER_CLASS
  | X86_64_INTEGERSI_CLASS
  | X86_64_SSE_CLASS
  | X86_64_SSESF_CLASS
  | X86_64_SSEDF_CLASS
  | X86_64_SSEUP_CLASS
  | X86_64_X87_CLASS
  | X86_64_X87UP_CLASS
  | X86_64_COMPLEX_X87_CLASS
  | X86_64_MEMORY_CLASS

abbreviation (input) MAX_CLASSES :: nat where "MAX_CLASSES \<equiv> 4"

definition SSE_CLASS_P :: "x86_64_reg_class \<Rightarrow> bool" where
  "SSE_CLASS_P X \<longleftrightarrow> X \<in> {X86_64_SSE_CLASS, X86_64_SSESF_CLASS, X86_64_SSEDF_CLASS, X86_64_SSEUP_CLASS}"

definition merge_classes :: "x86_64_reg_class \<Rightarrow> x86_64_reg_class \<Rightarrow> x86_64_reg_class" where
  "merge_classes class1 class2 =
     (if class1 = class2 then class1
      else if class1 = X86_64_NO_CLASS then class2
      else if class2 = X86_64_NO_CLASS then class1
      else if class1 = X86_64_MEMORY_CLASS \<or> class2 = X86_64_MEMORY_CLASS then X86_64_MEMORY_CLASS
      else if class1 = X86_64_INTEGERSI_CLASS \<and> class2 = X86_64_SSESF_CLASS
            \<or> class2 = X86_64_INTEGERSI_CLASS \<and> class1 = X86_64_SSESF_CLASS then X86_64_INTEGERSI_CLASS
      else if class1 = X86_64_INTEGER_CLASS \<or> class1 = X86_64_INTEGERSI_CLASS
            \<or> class2 = X86_64_INTEGER_CLASS \<or> class2 = X86_64_INTEGERSI_CLASS then X86_64_INTEGER_CLASS
      else if class1 = X86_64_X87_CLASS \<or> class1 = X86_64_X87UP_CLASS \<or> class1 = X86_64_COMPLEX_X87_CLASS
            \<or> class2 = X86_64_X87_CLASS \<or> class2 = X86_64_X87UP_CLASS \<or> class2 = X86_64_COMPLEX_X87_CLASS
           then X86_64_MEMORY_CLASS
      else X86_64_SSE_CLASS)"

section \<open>classify_argument\<close>

definition is_integer_code :: "u16 \<Rightarrow> bool" where
  "is_integer_code c \<longleftrightarrow> c \<in> {FFI_TYPE_UINT8, FFI_TYPE_SINT8, FFI_TYPE_UINT16, FFI_TYPE_SINT16,
     FFI_TYPE_UINT32, FFI_TYPE_SINT32, FFI_TYPE_UINT64, FFI_TYPE_SINT64}"

definition classify_float :: "size_t \<Rightarrow> x86_64_reg_class list" where
  "classify_float byte_offset =
     [if byte_offset mod 8 = 0 then X86_64_SSESF_CLASS else X86_64_SSE_CLASS]"

text \<open>The label \<open>do_integer\<close>; with the assertion compiled out, a value that ends behind byte 16
  falls through to the case of \<open>FFI_TYPE_FLOAT\<close>.\<close>

definition do_integer :: "size_t \<Rightarrow> size_t \<Rightarrow> x86_64_reg_class list" where
  "do_integer type_size byte_offset =
     (let size = byte_offset + type_size in
      if size \<le> 4 then [X86_64_INTEGERSI_CLASS]
      else if size \<le> 8 then [X86_64_INTEGER_CLASS]
      else if size \<le> 12 then [X86_64_INTEGER_CLASS, X86_64_INTEGERSI_CLASS]
      else if size \<le> 16 then [X86_64_INTEGER_CLASS, X86_64_INTEGER_CLASS]
      else classify_float byte_offset)"

text \<open>\<open>for (i = 0; i < num && (i + pos) < words; i++)\<close>.\<close>

fun merge_at :: "x86_64_reg_class list \<Rightarrow> nat \<Rightarrow> x86_64_reg_class list \<Rightarrow> x86_64_reg_class list" where
  "merge_at [] pos classes = classes"
| "merge_at (c # subclasses) pos classes =
     (if pos < length classes
      then merge_at subclasses (Suc pos) (classes[pos := merge_classes c (classes ! pos)])
      else classes)"

text \<open>The final cleanup from index \<open>i\<close> on; the empty list is the return of \<open>0\<close>.\<close>

fun cleanup :: "nat \<Rightarrow> nat \<Rightarrow> x86_64_reg_class list \<Rightarrow> x86_64_reg_class list" where
  "cleanup i 0 classes = classes"
| "cleanup i (Suc n) classes =
     (if classes ! i = X86_64_MEMORY_CLASS then []
      else let classes = (if i > 1 \<and> classes ! i = X86_64_SSEUP_CLASS
                             \<and> classes ! (i - 1) \<noteq> X86_64_SSE_CLASS \<and> classes ! (i - 1) \<noteq> X86_64_SSEUP_CLASS
                          then classes[i := X86_64_SSE_CLASS] else classes)
           in if i > 1 \<and> classes ! i = X86_64_X87UP_CLASS \<and> classes ! (i - 1) \<noteq> X86_64_X87_CLASS
              then [] else cleanup (Suc i) n classes)"

definition struct_result :: "x86_64_reg_class list \<Rightarrow> x86_64_reg_class list" where
  "struct_result classes =
     (if length classes > 2 \<and> (classes ! 0 \<noteq> X86_64_SSE_CLASS
            \<or> (\<exists>c \<in> set (drop 1 classes). c \<noteq> X86_64_SSEUP_CLASS))
      then [] else cleanup 0 (length classes) classes)"

function classify_argument ::
    "nat \<Rightarrow> 'a type_world_scheme \<Rightarrow> ffi_type \<Rightarrow> size_t \<Rightarrow> x86_64_reg_class list option"
  and classify_fields ::
    "nat \<Rightarrow> 'a type_world_scheme \<Rightarrow> addr list \<Rightarrow> x86_64_reg_class list \<Rightarrow> size_t
       \<Rightarrow> x86_64_reg_class list option"
where
  "classify_argument 0 w type byte_offset = None"
| "classify_argument (Suc n) w type byte_offset =
     (if is_integer_code (ft_type type) \<or> ft_type type = FFI_TYPE_POINTER
      then Some (do_integer (ft_size type) byte_offset)
      else if ft_type type = FFI_TYPE_FLOAT then Some (classify_float byte_offset)
      else if ft_type type = FFI_TYPE_DOUBLE then Some [X86_64_SSEDF_CLASS]
      else if ft_type type = FFI_TYPE_LONGDOUBLE then Some [X86_64_X87_CLASS, X86_64_X87UP_CLASS]
      else if ft_type type = FFI_TYPE_STRUCT then
        (let words = unat ((ft_size type + byte_offset + 8 - 1) div 8) in
         if ft_size type > 32 then Some []
         else if words > MAX_CLASSES then None
         else if words = 0 then Some [X86_64_NO_CLASS]
         else do {
           ptr \<leftarrow> ptrs w (ft_elements type);
           classes \<leftarrow> classify_fields n w ptr (replicate words X86_64_NO_CLASS) byte_offset;
           Some (if classes = [] then [] else struct_result classes)
         })
      else if ft_type type = FFI_TYPE_VOID then Some [X86_64_NO_CLASS]
      else if ft_type type = FFI_TYPE_COMPLEX then do {
        elements \<leftarrow> ptrs w (ft_elements type);
        inner \<leftarrow> (case elements of [] \<Rightarrow> None | e # _ \<Rightarrow> types w e);
        (if is_integer_code (ft_type inner) \<or> ft_type inner = FFI_TYPE_INT
         then Some (do_integer (ft_size type) byte_offset)
         else if ft_type inner = FFI_TYPE_FLOAT
         then Some (if byte_offset mod 8 \<noteq> 0 then [X86_64_SSE_CLASS, X86_64_SSESF_CLASS] else [X86_64_SSE_CLASS])
         else if ft_type inner = FFI_TYPE_DOUBLE then Some [X86_64_SSEDF_CLASS, X86_64_SSEDF_CLASS]
         else if ft_type inner = FFI_TYPE_LONGDOUBLE then Some [X86_64_COMPLEX_X87_CLASS]
         else None)
      }
      else None)"
| "classify_fields n w [] classes byte_offset = None"
| "classify_fields n w (p # ptr) classes byte_offset =
     (if p = NULL then Some classes
      else do {
        t \<leftarrow> types w p;
        byte_offset \<leftarrow> Some (FFI_ALIGN byte_offset (ucast (ft_alignment t)));
        subclasses \<leftarrow> classify_argument n w t (byte_offset mod 8);
        if subclasses = [] then Some []
        else classify_fields n w ptr (merge_at subclasses (unat (byte_offset div 8)) classes)
               (byte_offset + ft_size t)
      })"
  by pat_completeness auto
termination
  by (relation "measures [case_sum (\<lambda>(n, _). n) (\<lambda>(n, _). n),
                          case_sum (\<lambda>_. 0) (\<lambda>(_, _, ptr, _). Suc (length ptr))]") auto

section \<open>examine_argument\<close>

text \<open>The counts stored through \<open>pngpr\<close> and \<open>pnsse\<close>, from the class at which the loop stands;
  the outer \<open>None\<close> is \<open>abort\<close>, \<open>Some None\<close> is the early return at an x87 class.\<close>

fun count_classes :: "x86_64_reg_class list \<Rightarrow> nat \<Rightarrow> nat \<Rightarrow> (nat \<times> nat) option option" where
  "count_classes [] ngpr nsse = Some (Some (ngpr, nsse))"
| "count_classes (c # cs) ngpr nsse =
     (if c = X86_64_INTEGER_CLASS \<or> c = X86_64_INTEGERSI_CLASS then count_classes cs (ngpr + 1) nsse
      else if c = X86_64_SSE_CLASS \<or> c = X86_64_SSESF_CLASS \<or> c = X86_64_SSEDF_CLASS
      then count_classes cs ngpr (nsse + 1)
      else if c = X86_64_NO_CLASS \<or> c = X86_64_SSEUP_CLASS then count_classes cs ngpr nsse
      else if c = X86_64_X87_CLASS \<or> c = X86_64_X87UP_CLASS \<or> c = X86_64_COMPLEX_X87_CLASS then Some None
      else None)"

record examined =
  ex_n :: nat
  ex_classes :: "x86_64_reg_class list"
  ex_ngpr :: nat
  ex_nsse :: nat

text \<open>Where the code leaves \<open>*pngpr\<close> and \<open>*pnsse\<close> unset (a return of 0, and the return of 1 for an
  x87 class) the counts are 0 here; no caller reads them then.\<close>

definition examine_argument ::
  "nat \<Rightarrow> 'a type_world_scheme \<Rightarrow> ffi_type \<Rightarrow> bool \<Rightarrow> examined option" where
  "examine_argument fuel w type in_return = do {
     classes \<leftarrow> classify_argument fuel w type 0;
     if classes = [] then Some \<lparr>ex_n = 0, ex_classes = [], ex_ngpr = 0, ex_nsse = 0\<rparr>
     else do {
       r \<leftarrow> count_classes classes 0 0;
       Some (case r of
           None \<Rightarrow> \<lparr>ex_n = (if in_return then 1 else 0), ex_classes = classes, ex_ngpr = 0, ex_nsse = 0\<rparr>
         | Some (ngpr, nsse) \<Rightarrow> \<lparr>ex_n = length classes, ex_classes = classes, ex_ngpr = ngpr, ex_nsse = nsse\<rparr>)
     }
   }"

declare classify_argument.simps [simp del] classify_fields.simps [simp del]

section \<open>What the classes can be\<close>

text \<open>The classes that reach a result: \<open>SSEUP\<close> is never produced, and \<open>MEMORY\<close> ends the
  classification.\<close>

abbreviation plain_class :: "x86_64_reg_class \<Rightarrow> bool" where
  "plain_class c \<equiv> c \<noteq> X86_64_SSEUP_CLASS"

lemma merge_classes_plain: "plain_class c \<Longrightarrow> plain_class d \<Longrightarrow> plain_class (merge_classes c d)"
  by (auto simp: merge_classes_def)

lemma merge_classes_comm: "merge_classes c d = merge_classes d c"
  by (cases c; cases d; simp add: merge_classes_def)

lemma merge_classes_no_class [simp]:
  "merge_classes c X86_64_NO_CLASS = c" "merge_classes X86_64_NO_CLASS c = c"
  by (auto simp: merge_classes_def)

lemma merge_at_length [simp]: "length (merge_at cs pos classes) = length classes"
  by (induction cs pos classes rule: merge_at.induct) auto

lemma merge_at_plain:
  "\<forall>c \<in> set cs. plain_class c \<Longrightarrow> \<forall>c \<in> set classes. plain_class c
     \<Longrightarrow> \<forall>c \<in> set (merge_at cs pos classes). plain_class c"
proof (induction cs pos classes rule: merge_at.induct)
  case (2 c cs pos classes)
  show ?case
  proof (cases "pos < length classes")
    case True
    with 2(2,3) have "plain_class (merge_classes c (classes ! pos))"
      by (intro merge_classes_plain) auto
    then have "\<forall>x \<in> set (classes[pos := merge_classes c (classes ! pos)]). plain_class x"
      using 2(3) set_update_subset_insert by fastforce
    then show ?thesis using 2(1) [OF True] 2(2) True by simp
  qed (use 2 in simp)
qed simp

lemma cleanup_plain:
  assumes "\<forall>c \<in> set classes. plain_class c" and "i + n \<le> length classes"
  shows "cleanup i n classes = [] \<or>
     cleanup i n classes = classes \<and> (\<forall>j. i \<le> j \<longrightarrow> j < i + n \<longrightarrow> classes ! j \<noteq> X86_64_MEMORY_CLASS)"
  using assms
proof (induction n arbitrary: i)
  case (Suc n)
  show ?case
  proof (cases "classes ! i = X86_64_MEMORY_CLASS")
    case False
    from Suc.prems have "plain_class (classes ! i)" by simp
    then have "cleanup i (Suc n) classes = [] \<or> cleanup i (Suc n) classes = cleanup (Suc i) n classes"
      using False by (simp add: Let_def)
    moreover have "cleanup (Suc i) n classes = [] \<or> cleanup (Suc i) n classes = classes \<and>
        (\<forall>j. Suc i \<le> j \<longrightarrow> j < Suc i + n \<longrightarrow> classes ! j \<noteq> X86_64_MEMORY_CLASS)"
      using Suc.IH [of "Suc i"] Suc.prems by simp
    moreover have "i \<le> j \<Longrightarrow> j < i + Suc n \<Longrightarrow> j = i \<or> Suc i \<le> j \<and> j < Suc i + n" for j by linarith
    ultimately show ?thesis using False by metis
  qed simp
qed simp

text \<open>A struct of more than two eightbytes always ends up in memory.\<close>

lemma struct_result_plain:
  assumes "\<forall>c \<in> set classes. plain_class c"
  shows "struct_result classes = [] \<or>
     struct_result classes = classes \<and> length classes \<le> 2 \<and> X86_64_MEMORY_CLASS \<notin> set classes"
proof (cases "length classes > 2")
  case True
  then have "drop 1 classes \<noteq> []" by simp
  then have "hd (drop 1 classes) \<in> set (drop 1 classes)" by (rule hd_in_set)
  moreover have "plain_class (hd (drop 1 classes))" using assms calculation by (meson in_set_dropD)
  ultimately have "struct_result classes = []" using True by (auto simp: struct_result_def)
  then show ?thesis by simp
next
  case False
  with cleanup_plain [OF assms, of 0 "length classes"] show ?thesis
    by (auto simp: struct_result_def in_set_conv_nth)
qed

definition reported_ok :: "x86_64_reg_class list \<Rightarrow> bool" where
  "reported_ok cs \<longleftrightarrow> length cs \<le> 2 \<and> X86_64_SSEUP_CLASS \<notin> set cs \<and> X86_64_MEMORY_CLASS \<notin> set cs"

lemma do_integer_ok: "reported_ok (do_integer s off)"
  by (simp add: do_integer_def classify_float_def reported_ok_def Let_def)

lemma classify_ok:
  "classify_argument n w t off = Some cs \<Longrightarrow> reported_ok cs"
  "classify_fields n w ptr classes off = Some cs \<Longrightarrow> \<forall>c \<in> set classes. plain_class c \<Longrightarrow>
     cs = [] \<or> length cs = length classes \<and> (\<forall>c \<in> set cs. plain_class c)"
proof (induction n w t off and n w ptr classes off arbitrary: cs and cs
       rule: classify_argument_classify_fields.induct)
  case (1 w type off)
  then show ?case by (simp add: classify_argument.simps)
next
  case (2 n w type off)
  show ?case
  proof (cases "ft_type type = FFI_TYPE_STRUCT")
    case True
    let ?words = "unat ((ft_size type + off + 8 - 1) div 8)"
    show ?thesis
    proof (cases "ft_size type > 32 \<or> ?words > 4 \<or> ?words = 0")
      case True
      with 2(2) \<open>ft_type type = FFI_TYPE_STRUCT\<close> show ?thesis
        by (auto simp: classify_argument.simps is_integer_code_def reported_ok_def Let_def split: if_splits)
    next
      case False
      then obtain ptr classes where r: "ptrs w (ft_elements type) = Some ptr"
        "classify_fields n w ptr (replicate ?words X86_64_NO_CLASS) off = Some classes"
        "cs = (if classes = [] then [] else struct_result classes)"
        using 2(2) True by (auto simp: classify_argument.simps is_integer_code_def Let_def split: bind_splits)
      have "\<not> (is_integer_code (ft_type type) \<or> ft_type type = FFI_TYPE_POINTER)"
        "ft_type type \<noteq> FFI_TYPE_FLOAT" "ft_type type \<noteq> FFI_TYPE_DOUBLE" "ft_type type \<noteq> FFI_TYPE_LONGDOUBLE"
        using True by (simp_all add: is_integer_code_def)
      from 2(1) [OF this True refl _ _ _ r(1,2)] False
      have "classes = [] \<or> length classes = ?words \<and> (\<forall>c \<in> set classes. plain_class c)" by simp
      then have "\<forall>c \<in> set classes. plain_class c" by auto
      from struct_result_plain [OF this] this show ?thesis
        unfolding r(3) reported_ok_def by (cases "classes = []") (simp, metis list.size(3) empty_iff empty_set le0)
    qed
  next
    case False
    with 2(2) show ?thesis
      by (auto simp: classify_argument.simps do_integer_ok split: if_splits bind_splits)
         (auto simp: reported_ok_def classify_float_def)
  qed
next
  case (3 n w classes off)
  then show ?case by (simp add: classify_fields.simps)
next
  case (4 n w p ptr classes off)
  show ?case
  proof (cases "p = NULL")
    case False
    with 4(3) obtain t sub where t: "types w p = Some t"
      and sub: "classify_argument n w t (FFI_ALIGN off (ucast (ft_alignment t)) mod 8) = Some sub"
      by (auto simp: classify_fields.simps split: bind_splits)
    have ok: "reported_ok sub" by (rule 4(1) [OF False t refl sub])
    show ?thesis
    proof (cases "sub = []")
      case True
      with 4(3) False t sub show ?thesis by (simp add: classify_fields.simps)
    next
      case ne: False
      have "classify_fields n w ptr (merge_at sub (unat (FFI_ALIGN off (ucast (ft_alignment t)) div 8)) classes)
              (FFI_ALIGN off (ucast (ft_alignment t)) + ft_size t) = Some cs"
        using 4(3) False t sub ne by (simp add: classify_fields.simps)
      from 4(2) [OF False t refl sub ne this] merge_at_plain [of sub classes] ok 4(4)
      show ?thesis by (auto simp: reported_ok_def)
    qed
  qed (use 4 in \<open>simp add: classify_fields.simps\<close>)
qed

section \<open>Classification reads descriptors only\<close>

definition more_types :: "'a type_world_scheme \<Rightarrow> 'b type_world_scheme \<Rightarrow> bool" where
  "more_types w w' \<longleftrightarrow> types w \<subseteq>\<^sub>m types w' \<and> ptrs w \<subseteq>\<^sub>m ptrs w'"

lemma more_typesD: "more_types w w' \<Longrightarrow> types w p = Some t \<Longrightarrow> types w' p = Some t"
  "more_types w w' \<Longrightarrow> ptrs w p = Some xs \<Longrightarrow> ptrs w' p = Some xs"
  by (auto simp: more_types_def map_le_def dom_def)

lemma classify_more:
  fixes w :: "'a type_world_scheme" and w' :: "'b type_world_scheme"
  assumes m: "more_types w w'"
  shows "classify_argument n w t off = Some cs \<Longrightarrow> classify_argument n w' t off = Some cs"
    and "classify_fields n w ptr classes off = Some cs \<Longrightarrow> classify_fields n w' ptr classes off = Some cs"
  using m
proof (induction n w t off and n w ptr classes off arbitrary: cs and cs
       rule: classify_argument_classify_fields.induct)
  case (1 w type off)
  then show ?case by (simp add: classify_argument.simps)
next
  case (2 n w type off)
  show ?case
  proof (cases "ft_type type = FFI_TYPE_STRUCT")
    case True
    have c: "\<not> (is_integer_code (ft_type type) \<or> ft_type type = FFI_TYPE_POINTER)"
      "ft_type type \<noteq> FFI_TYPE_FLOAT" "ft_type type \<noteq> FFI_TYPE_DOUBLE" "ft_type type \<noteq> FFI_TYPE_LONGDOUBLE"
      using True by (simp_all add: is_integer_code_def)
    let ?words = "unat ((ft_size type + off + 8 - 1) div 8)"
    show ?thesis
    proof (cases "ft_size type > 32 \<or> ?words > 4 \<or> ?words = 0")
      case True
      with 2(2) c \<open>ft_type type = FFI_TYPE_STRUCT\<close> show ?thesis by (auto simp: classify_argument.simps Let_def split: if_splits)
    next
      case False
      then obtain ptr classes where r: "ptrs w (ft_elements type) = Some ptr"
        "classify_fields n w ptr (replicate ?words X86_64_NO_CLASS) off = Some classes"
        "cs = (if classes = [] then [] else struct_result classes)"
        using 2(2) c True by (auto simp: classify_argument.simps Let_def split: bind_splits)
      from 2(1) [OF c True refl _ _ _ r(1,2) 2(3)] False
      have "classify_fields n w' ptr (replicate ?words X86_64_NO_CLASS) off = Some classes" by simp
      then show ?thesis using r(1,3) more_typesD(2) [OF 2(3)] c True False
        by (simp add: classify_argument.simps Let_def)
    qed
  next
    case False
    show ?thesis
    proof (cases "ft_type type = FFI_TYPE_COMPLEX")
      case True
      with 2(2) obtain els inner where e: "ptrs w (ft_elements type) = Some els"
        "(case els of [] \<Rightarrow> None | e # _ \<Rightarrow> types w e) = Some inner"
        by (auto simp: classify_argument.simps is_integer_code_def split: bind_splits)
      then have "ptrs w' (ft_elements type) = Some els"
        "(case els of [] \<Rightarrow> None | e # _ \<Rightarrow> types w' e) = Some inner"
        using more_typesD [OF 2(3)] by (auto split: list.splits)
      with e 2(2) True show ?thesis by (simp add: classify_argument.simps is_integer_code_def)
    next
      case f: False
      with 2(2) False show ?thesis by (auto simp: classify_argument.simps split: if_splits)
    qed
  qed
next
  case (3 n w classes off)
  then show ?case by (simp add: classify_fields.simps)
next
  case (4 n w p ptr classes off)
  show ?case
  proof (cases "p = NULL")
    case False
    with 4(3) obtain t sub where t: "types w p = Some t"
      and sub: "classify_argument n w t (FFI_ALIGN off (ucast (ft_alignment t)) mod 8) = Some sub"
      by (auto simp: classify_fields.simps split: bind_splits)
    have t': "types w' p = Some t" using more_typesD(1) [OF 4(4) t] .
    have sub': "classify_argument n w' t (FFI_ALIGN off (ucast (ft_alignment t)) mod 8) = Some sub"
      by (rule 4(1) [OF False t refl sub 4(4)])
    show ?thesis
    proof (cases "sub = []")
      case True
      with 4(3) False t t' sub sub' show ?thesis by (simp add: classify_fields.simps)
    next
      case ne: False
      have r: "classify_fields n w ptr (merge_at sub (unat (FFI_ALIGN off (ucast (ft_alignment t)) div 8)) classes)
              (FFI_ALIGN off (ucast (ft_alignment t)) + ft_size t) = Some cs"
        using 4(3) False t sub ne by (simp add: classify_fields.simps)
      from 4(2) [OF False t refl sub ne r 4(4)] show ?thesis
        using False t' sub' ne by (simp add: classify_fields.simps)
    qed
  qed (use 4 in \<open>simp add: classify_fields.simps\<close>)
qed

lemma examine_more:
  assumes "more_types w w'" and "examine_argument n w t r = Some e"
  shows "examine_argument n w' t r = Some e"
proof -
  from assms(2) obtain cs where c: "classify_argument n w t 0 = Some cs"
    by (auto simp: examine_argument_def split: bind_splits)
  with classify_more(1) [OF assms(1) c] assms(2) show ?thesis by (simp add: examine_argument_def)
qed

end
