(* ===== verification/Ffi_Prep.thy ===== *)
theory Ffi_Prep
  imports Ffi_Classify
begin

text \<open>
  Preparing a call interface: \<open>ffi_prep_cif_core\<close>, \<open>ffi_prep_cif\<close>, \<open>ffi_prep_cif_var\<close>
  (\<^verbatim>\<open>jni/libffi/src/prep_cif.c\<close>) with the machine-dependent parts of \<^verbatim>\<open>jni/libffi/src/x86/ffi64.c\<close>
  (System V) and \<^verbatim>\<open>jni/libffi/src/x86/ffiw64.c\<close> (the Microsoft ABI on the same machine).

  A function that fills in a cif takes its old contents and returns the new ones with the
  status. The fuel of the aggregate and classification recursions is an argument.
\<close>

record ffi_cif =
  cif_abi :: nat
  cif_nargs :: u32
  cif_arg_types :: addr
  cif_rtype :: addr
  cif_bytes :: u32
  cif_flags :: u32

definition zero_cif :: ffi_cif where
  "zero_cif = \<lparr>cif_abi = 0, cif_nargs = 0, cif_arg_types = NULL, cif_rtype = NULL, cif_bytes = 0, cif_flags = 0\<rparr>"

section \<open>Flags (x86/internal64.h)\<close>

abbreviation (input) UNIX64_RET_VOID :: u32 where "UNIX64_RET_VOID \<equiv> 0"
abbreviation (input) UNIX64_RET_UINT8 :: u32 where "UNIX64_RET_UINT8 \<equiv> 1"
abbreviation (input) UNIX64_RET_UINT16 :: u32 where "UNIX64_RET_UINT16 \<equiv> 2"
abbreviation (input) UNIX64_RET_UINT32 :: u32 where "UNIX64_RET_UINT32 \<equiv> 3"
abbreviation (input) UNIX64_RET_SINT8 :: u32 where "UNIX64_RET_SINT8 \<equiv> 4"
abbreviation (input) UNIX64_RET_SINT16 :: u32 where "UNIX64_RET_SINT16 \<equiv> 5"
abbreviation (input) UNIX64_RET_SINT32 :: u32 where "UNIX64_RET_SINT32 \<equiv> 6"
abbreviation (input) UNIX64_RET_INT64 :: u32 where "UNIX64_RET_INT64 \<equiv> 7"
abbreviation (input) UNIX64_RET_XMM32 :: u32 where "UNIX64_RET_XMM32 \<equiv> 8"
abbreviation (input) UNIX64_RET_XMM64 :: u32 where "UNIX64_RET_XMM64 \<equiv> 9"
abbreviation (input) UNIX64_RET_X87 :: u32 where "UNIX64_RET_X87 \<equiv> 10"
abbreviation (input) UNIX64_RET_X87_2 :: u32 where "UNIX64_RET_X87_2 \<equiv> 11"
abbreviation (input) UNIX64_RET_ST_XMM0_RAX :: u32 where "UNIX64_RET_ST_XMM0_RAX \<equiv> 12"
abbreviation (input) UNIX64_RET_ST_RAX_XMM0 :: u32 where "UNIX64_RET_ST_RAX_XMM0 \<equiv> 13"
abbreviation (input) UNIX64_RET_ST_XMM0_XMM1 :: u32 where "UNIX64_RET_ST_XMM0_XMM1 \<equiv> 14"
abbreviation (input) UNIX64_RET_ST_RAX_RDX :: u32 where "UNIX64_RET_ST_RAX_RDX \<equiv> 15"
abbreviation (input) UNIX64_FLAG_RET_IN_MEM :: u32 where "UNIX64_FLAG_RET_IN_MEM \<equiv> 0x400"
abbreviation (input) UNIX64_FLAG_XMM_ARGS :: u32 where "UNIX64_FLAG_XMM_ARGS \<equiv> 0x800"
abbreviation (input) UNIX64_SIZE_SHIFT :: nat where "UNIX64_SIZE_SHIFT \<equiv> 12"

abbreviation (input) MAX_GPR_REGS :: nat where "MAX_GPR_REGS \<equiv> 6"
abbreviation (input) MAX_SSE_REGS :: nat where "MAX_SSE_REGS \<equiv> 8"

section \<open>The return type\<close>

text \<open>The flags of the return type and the integer registers it takes away from the arguments;
  \<open>Inl\<close> is an early return of a status.\<close>

definition struct_ret_flags :: "examined \<Rightarrow> size_t \<Rightarrow> nat \<times> u32" where
  "struct_ret_flags e rtype_size =
     (if ex_n e = 0 then (1, UNIX64_RET_VOID OR UNIX64_FLAG_RET_IN_MEM)
      else
        let sse0 = SSE_CLASS_P (ex_classes e ! 0);
            sse1 = (ex_n e = 2 \<and> SSE_CLASS_P (ex_classes e ! 1)) in
        if rtype_size = 4 \<and> sse0 then (0, UNIX64_RET_XMM32)
        else if rtype_size = 8 then (0, if sse0 then UNIX64_RET_XMM64 else UNIX64_RET_INT64)
        else (0, (if sse0 \<and> sse1 then UNIX64_RET_ST_XMM0_XMM1
                  else if sse0 then UNIX64_RET_ST_XMM0_RAX
                  else if sse1 then UNIX64_RET_ST_RAX_XMM0
                  else UNIX64_RET_ST_RAX_RDX) OR push_bit UNIX64_SIZE_SHIFT (ucast rtype_size)))"

definition ret_flags ::
  "nat \<Rightarrow> 'a type_world_scheme \<Rightarrow> ffi_type \<Rightarrow> (ffi_status + nat \<times> u32) option" where
  "ret_flags fuel w rtype =
     (let c = ft_type rtype; rtype_size = ft_size rtype in
      if c = FFI_TYPE_VOID then Some (Inr (0, UNIX64_RET_VOID))
      else if c = FFI_TYPE_UINT8 then Some (Inr (0, UNIX64_RET_UINT8))
      else if c = FFI_TYPE_SINT8 then Some (Inr (0, UNIX64_RET_SINT8))
      else if c = FFI_TYPE_UINT16 then Some (Inr (0, UNIX64_RET_UINT16))
      else if c = FFI_TYPE_SINT16 then Some (Inr (0, UNIX64_RET_SINT16))
      else if c = FFI_TYPE_UINT32 then Some (Inr (0, UNIX64_RET_UINT32))
      else if c = FFI_TYPE_INT \<or> c = FFI_TYPE_SINT32 then Some (Inr (0, UNIX64_RET_SINT32))
      else if c = FFI_TYPE_UINT64 \<or> c = FFI_TYPE_SINT64 then Some (Inr (0, UNIX64_RET_INT64))
      else if c = FFI_TYPE_POINTER then Some (Inr (0, UNIX64_RET_INT64))
      else if c = FFI_TYPE_FLOAT then Some (Inr (0, UNIX64_RET_XMM32))
      else if c = FFI_TYPE_DOUBLE then Some (Inr (0, UNIX64_RET_XMM64))
      else if c = FFI_TYPE_LONGDOUBLE then Some (Inr (0, UNIX64_RET_X87))
      else if c = FFI_TYPE_STRUCT then
        map_option (\<lambda>e. Inr (struct_ret_flags e rtype_size)) (examine_argument fuel w rtype True)
      else if c = FFI_TYPE_COMPLEX then do {
        elements \<leftarrow> ptrs w (ft_elements rtype);
        inner \<leftarrow> (case elements of [] \<Rightarrow> None | e # _ \<Rightarrow> types w e);
        Some (if is_integer_code (ft_type inner) \<or> ft_type inner = FFI_TYPE_INT
              then Inr (0, UNIX64_RET_ST_RAX_RDX OR push_bit UNIX64_SIZE_SHIFT (ucast rtype_size))
              else if ft_type inner = FFI_TYPE_FLOAT then Inr (0, UNIX64_RET_XMM64)
              else if ft_type inner = FFI_TYPE_DOUBLE
              then Inr (0, UNIX64_RET_ST_XMM0_XMM1 OR push_bit UNIX64_SIZE_SHIFT 16)
              else if ft_type inner = FFI_TYPE_LONGDOUBLE then Inr (0, UNIX64_RET_X87_2)
              else Inl FFI_BAD_TYPEDEF)
      }
      else Some (Inl FFI_BAD_TYPEDEF))"

section \<open>The arguments\<close>

definition stack_align :: "ffi_type \<Rightarrow> size_t" where
  "stack_align t = (if ft_alignment t < 8 then 8 else ucast (ft_alignment t))"

definition goes_on_stack :: "examined \<Rightarrow> nat \<Rightarrow> nat \<Rightarrow> bool" where
  "goes_on_stack e gprcount ssecount \<longleftrightarrow>
     ex_n e = 0 \<or> gprcount + ex_ngpr e > MAX_GPR_REGS \<or> ssecount + ex_nsse e > MAX_SSE_REGS"

fun machdep_args ::
  "nat \<Rightarrow> 'a type_world_scheme \<Rightarrow> addr list \<Rightarrow> size_t \<Rightarrow> nat \<Rightarrow> nat \<Rightarrow> (size_t \<times> nat \<times> nat) option" where
  "machdep_args fuel w [] bytes gprcount ssecount = Some (bytes, gprcount, ssecount)"
| "machdep_args fuel w (p # arg_types) bytes gprcount ssecount = do {
     t \<leftarrow> types w p;
     e \<leftarrow> examine_argument fuel w t False;
     if goes_on_stack e gprcount ssecount
     then machdep_args fuel w arg_types (FFI_ALIGN bytes (stack_align t) + ft_size t) gprcount ssecount
     else machdep_args fuel w arg_types bytes (gprcount + ex_ngpr e) (ssecount + ex_nsse e)
   }"

text \<open>The first \<open>n\<close> entries of the array at \<open>arg_types\<close>; \<open>None\<close> when it is shorter.\<close>

definition read_ptrs :: "'a type_world_scheme \<Rightarrow> addr \<Rightarrow> nat \<Rightarrow> addr list option" where
  "read_ptrs w p n =
     (if n = 0 then Some []
      else case ptrs w p of None \<Rightarrow> None | Some xs \<Rightarrow> if n \<le> length xs then Some (take n xs) else None)"

definition ffi_prep_cif_machdep_efi64 ::
  "ffi_cif \<Rightarrow> 'a type_world_scheme \<Rightarrow> (ffi_status \<times> ffi_cif) option" where
  "ffi_prep_cif_machdep_efi64 cif w =
     (if cif_abi cif \<noteq> FFI_WIN64 \<and> cif_abi cif \<noteq> FFI_GNUW64 then Some (FFI_BAD_ABI, cif)
      else do {
        rtype \<leftarrow> types w (cif_rtype cif);
        flags \<leftarrow> Some (if ft_type rtype = FFI_TYPE_LONGDOUBLE
                       then (if cif_abi cif = FFI_GNUW64 then FFI_TYPE_STRUCT else FFI_TYPE_LONGDOUBLE)
                       else if ft_type rtype = FFI_TYPE_COMPLEX \<or> ft_type rtype = FFI_TYPE_STRUCT
                       then (if ft_size rtype = 8 then FFI_TYPE_UINT64
                             else if ft_size rtype = 4 then 18
                             else if ft_size rtype = 2 then 17
                             else if ft_size rtype = 1 then 16
                             else FFI_TYPE_STRUCT)
                       else ft_type rtype);
        n \<leftarrow> Some (cif_nargs cif + (if flags = FFI_TYPE_STRUCT then 1 else 0));
        Some (FFI_OK, cif\<lparr>cif_flags := ucast flags, cif_bytes := (if sint n < 4 then 4 else n) * 8\<rparr>)
      })"

definition ffi_prep_cif_machdep ::
  "nat \<Rightarrow> ffi_cif \<Rightarrow> 'a type_world_scheme \<Rightarrow> (ffi_status \<times> ffi_cif) option" where
  "ffi_prep_cif_machdep fuel cif w =
     (if cif_abi cif = FFI_EFI64 \<or> cif_abi cif = FFI_GNUW64 then ffi_prep_cif_machdep_efi64 cif w
      else if cif_abi cif \<noteq> FFI_UNIX64 then Some (FFI_BAD_ABI, cif)
      else do {
        rtype \<leftarrow> types w (cif_rtype cif);
        r \<leftarrow> ret_flags fuel w rtype;
        (case r of
           Inl status \<Rightarrow> Some (status, cif)
         | Inr (gprcount, flags) \<Rightarrow> do {
             arg_types \<leftarrow> read_ptrs w (cif_arg_types cif) (nat (sint (cif_nargs cif)));
             (bytes, gprs, ssecount) \<leftarrow> machdep_args fuel w arg_types 0 gprcount 0;
             Some (FFI_OK, cif\<lparr>cif_flags := (if ssecount \<noteq> 0 then flags OR UNIX64_FLAG_XMM_ARGS else flags),
                               cif_bytes := ucast (FFI_ALIGN bytes 8)\<rparr>)
           })
      })"

section \<open>The machine-independent part\<close>

text \<open>\<open>if (size == 0 && initialize_aggregate(...) != FFI_OK)\<close>, the result being that it is not so.\<close>

definition complete_type :: "nat \<Rightarrow> addr \<Rightarrow> 'a type_world_scheme \<Rightarrow> (bool \<times> 'a type_world_scheme) option" where
  "complete_type fuel p w = do {
     t \<leftarrow> types w p;
     if ft_size t = 0 then do {
       (r, w') \<leftarrow> initialize_aggregate fuel p w;
       Some (fst r = FFI_OK, w')
     } else Some (True, w)
   }"

fun complete_args :: "nat \<Rightarrow> addr list \<Rightarrow> 'a type_world_scheme \<Rightarrow> (bool \<times> 'a type_world_scheme) option" where
  "complete_args fuel [] w = Some (True, w)"
| "complete_args fuel (p # ptr) w = do {
     (ok, w') \<leftarrow> complete_type fuel p w;
     if ok then complete_args fuel ptr w' else Some (False, w')
   }"

definition ffi_prep_cif_core ::
  "nat \<Rightarrow> ffi_cif \<Rightarrow> nat \<Rightarrow> bool \<Rightarrow> u32 \<Rightarrow> u32 \<Rightarrow> addr \<Rightarrow> addr
     \<Rightarrow> 'a type_world_scheme \<Rightarrow> ((ffi_status \<times> ffi_cif) \<times> 'a type_world_scheme) option"
where
  "ffi_prep_cif_core fuel cif abi isvariadic nfixedargs ntotalargs rtype atypes w =
     (if \<not> (abi > FFI_FIRST_ABI \<and> abi < FFI_LAST_ABI) then Some ((FFI_BAD_ABI, cif), w)
      else do {
        cif \<leftarrow> Some (cif\<lparr>cif_abi := abi, cif_arg_types := atypes, cif_nargs := ntotalargs,
                          cif_rtype := rtype, cif_flags := 0\<rparr>);
        (ok, w1) \<leftarrow> complete_type fuel rtype w;
        if \<not> ok then Some ((FFI_BAD_TYPEDEF, cif), w1)
        else do {
          ptr \<leftarrow> read_ptrs w1 atypes (unat ntotalargs);
          (ok, w2) \<leftarrow> complete_args fuel ptr w1;
          if \<not> ok then Some ((FFI_BAD_TYPEDEF, cif), w2)
          else do {
            r \<leftarrow> ffi_prep_cif_machdep fuel (cif\<lparr>cif_bytes := 0\<rparr>) w2;
            Some (r, w2)
          }
        }
      })"

definition ffi_prep_cif ::
  "nat \<Rightarrow> ffi_cif \<Rightarrow> nat \<Rightarrow> u32 \<Rightarrow> addr \<Rightarrow> addr
     \<Rightarrow> 'a type_world_scheme \<Rightarrow> ((ffi_status \<times> ffi_cif) \<times> 'a type_world_scheme) option"
where
  "ffi_prep_cif fuel cif abi nargs rtype atypes w =
     ffi_prep_cif_core fuel cif abi False nargs nargs rtype atypes w"

text \<open>The check of the variadic arguments: \<open>float\<close> and integers narrower than \<open>int\<close> have to
  arrive promoted.\<close>

fun var_args_ok :: "'a type_world_scheme \<Rightarrow> addr list \<Rightarrow> bool option" where
  "var_args_ok w [] = Some True"
| "var_args_ok w (p # atypes) = do {
     t \<leftarrow> types w p;
     if p = symbol w ffi_type_float
        \<or> (ft_type t \<noteq> FFI_TYPE_STRUCT \<and> ft_type t \<noteq> FFI_TYPE_COMPLEX)
          \<and> ft_size t < ft_size (builtin_type ffi_type_sint)
     then Some False
     else var_args_ok w atypes
   }"

definition ffi_prep_cif_var ::
  "nat \<Rightarrow> ffi_cif \<Rightarrow> nat \<Rightarrow> u32 \<Rightarrow> u32 \<Rightarrow> addr \<Rightarrow> addr
     \<Rightarrow> 'a type_world_scheme \<Rightarrow> ((ffi_status \<times> ffi_cif) \<times> 'a type_world_scheme) option"
where
  "ffi_prep_cif_var fuel cif abi nfixedargs ntotalargs rtype atypes w = do {
     ((rc, cif'), w') \<leftarrow> ffi_prep_cif_core fuel cif abi True nfixedargs ntotalargs rtype atypes w;
     if rc \<noteq> FFI_OK then Some ((rc, cif'), w')
     else do {
       ptr \<leftarrow> read_ptrs w' atypes (unat ntotalargs);
       ok \<leftarrow> var_args_ok w' (drop (unat nfixedargs) ptr);
       Some ((if ok then FFI_OK else FFI_BAD_ARGTYPE, cif'), w')
     }
   }"

section \<open>What preparing a call leaves alone\<close>

lemma complete_type_frame: "complete_type fuel p w = Some (ok, w') \<Longrightarrow> types_only w w'"
  by (auto simp: complete_type_def split: if_splits bind_splits dest: aggregate_types_only)

lemma complete_args_frame: "complete_args fuel ps w = Some (ok, w') \<Longrightarrow> types_only w w'"
proof (induction fuel ps w arbitrary: ok w' rule: complete_args.induct)
  case (2 fuel p ptr w)
  then obtain ok1 w1 where c: "complete_type fuel p w = Some (ok1, w1)"
    and r: "(if ok1 then complete_args fuel ptr w1 else Some (False, w1)) = Some (ok, w')"
    by (auto split: bind_splits)
  note f = complete_type_frame [OF c]
  show ?case
  proof (cases ok1)
    case True
    with r 2(1) [OF c] f show ?thesis by (auto intro: types_only_trans)
  next
    case False
    with r f show ?thesis by simp
  qed
qed simp

lemma core_frame:
  assumes "ffi_prep_cif_core fuel cif abi v nf nt rt at w = Some (r, w')"
  shows "types_only w w'"
proof (cases "abi > FFI_FIRST_ABI \<and> abi < FFI_LAST_ABI")
  case True
  with assms obtain ok w1 where c: "complete_type fuel rt w = Some (ok, w1)"
    by (auto simp: ffi_prep_cif_core_def split: bind_splits)
  note f = complete_type_frame [OF c]
  show ?thesis
  proof (cases ok)
    case ok: True
    with assms True c obtain ptr ok' w2 where p: "read_ptrs w1 at (unat nt) = Some ptr"
      "complete_args fuel ptr w1 = Some (ok', w2)" "w' = w2"
      by (auto simp: ffi_prep_cif_core_def split: bind_splits if_splits)
    with f complete_args_frame show ?thesis by (blast intro: types_only_trans)
  next
    case False
    with assms True c f show ?thesis by (auto simp: ffi_prep_cif_core_def)
  qed
next
  case False
  with assms show ?thesis by (auto simp: ffi_prep_cif_core_def)
qed

lemma prep_frame:
  "ffi_prep_cif fuel cif abi n rt at w = Some (r, w') \<Longrightarrow> types_only w w'"
  "ffi_prep_cif_var fuel cif abi nf n rt at w = Some (r, w') \<Longrightarrow> types_only w w'"
  by (auto simp: ffi_prep_cif_def ffi_prep_cif_var_def split: bind_splits if_splits dest: core_frame)

text \<open>Types that are complete already stay as they are.\<close>

lemma complete_type_done: "types w p = Some t \<Longrightarrow> ft_size t \<noteq> 0 \<Longrightarrow> complete_type fuel p w = Some (True, w)"
  by (simp add: complete_type_def)

lemma complete_args_done:
  "\<forall>p \<in> set ps. \<exists>t. types w p = Some t \<and> ft_size t \<noteq> 0 \<Longrightarrow> complete_args fuel ps w = Some (True, w)"
  by (induction ps) (auto simp: complete_type_def)

lemma prep_done:
  assumes "\<exists>t. types w rt = Some t \<and> ft_size t \<noteq> 0"
    and "read_ptrs w at (unat nt) = Some ps" and "\<forall>p \<in> set ps. \<exists>t. types w p = Some t \<and> ft_size t \<noteq> 0"
  shows "ffi_prep_cif_core fuel cif FFI_DEFAULT_ABI v nf nt rt at w =
     map_option (\<lambda>r. (r, w)) (ffi_prep_cif_machdep fuel
       (cif\<lparr>cif_abi := FFI_DEFAULT_ABI, cif_arg_types := at, cif_nargs := nt, cif_rtype := rt,
            cif_flags := 0, cif_bytes := 0\<rparr>) w)"
proof -
  from assms(1) have "complete_type fuel rt w = Some (True, w)" by (auto simp: complete_type_def)
  with assms(2) complete_args_done [OF assms(3), of fuel] show ?thesis
    by (cases "ffi_prep_cif_machdep fuel (cif\<lparr>cif_abi := FFI_DEFAULT_ABI, cif_arg_types := at,
            cif_nargs := nt, cif_rtype := rt, cif_flags := 0, cif_bytes := 0\<rparr>) w")
       (simp_all add: ffi_prep_cif_core_def)
qed

section \<open>When preparing a call returns\<close>

text \<open>A complete type whose classification comes to a result, as an argument and as a return
  type.\<close>

definition passable :: "nat \<Rightarrow> 'a type_world_scheme \<Rightarrow> addr \<Rightarrow> bool" where
  "passable fuel w p \<longleftrightarrow> (\<exists>t. types w p = Some t \<and> ft_size t \<noteq> 0 \<and> examine_argument fuel w t False \<noteq> None)"

definition returnable :: "nat \<Rightarrow> 'a type_world_scheme \<Rightarrow> addr \<Rightarrow> bool" where
  "returnable fuel w p \<longleftrightarrow> (\<exists>t. types w p = Some t \<and> ft_size t \<noteq> 0 \<and> ret_flags fuel w t \<noteq> None)"

lemma passable_more: "more_types w w' \<Longrightarrow> passable fuel w p \<Longrightarrow> passable fuel w' p"
  unfolding passable_def using more_typesD(1) examine_more by (metis not_None_eq)

lemma ret_flags_more:
  assumes m: "more_types w w'" and r: "ret_flags fuel w t = Some r"
  shows "ret_flags fuel w' t = Some r"
proof (cases "ft_type t = FFI_TYPE_STRUCT")
  case True
  with r obtain e where "examine_argument fuel w t True = Some e" "r = Inr (struct_ret_flags e (ft_size t))"
    by (auto simp: ret_flags_def)
  with examine_more [OF m] True show ?thesis by (simp add: ret_flags_def)
next
  case False
  show ?thesis
  proof (cases "ft_type t = FFI_TYPE_COMPLEX")
    case True
    with r obtain els inner where "ptrs w (ft_elements t) = Some els"
      "(case els of [] \<Rightarrow> None | e # _ \<Rightarrow> types w e) = Some inner"
      by (auto simp: ret_flags_def split: bind_splits)
    moreover from this have "ptrs w' (ft_elements t) = Some els"
      "(case els of [] \<Rightarrow> None | e # _ \<Rightarrow> types w' e) = Some inner"
      using more_typesD [OF m] by (auto split: list.splits)
    ultimately show ?thesis using r True by (simp add: ret_flags_def)
  next
    case f: False
    have "ret_flags fuel w' t = ret_flags fuel w t" unfolding ret_flags_def Let_def using False f by simp
    with r show ?thesis by simp
  qed
qed

lemma returnable_more: "more_types w w' \<Longrightarrow> returnable fuel w p \<Longrightarrow> returnable fuel w' p"
  unfolding returnable_def using more_typesD(1) ret_flags_more by (metis not_None_eq)

lemma machdep_args_defined:
  "\<forall>p \<in> set ps. passable fuel w p \<Longrightarrow> machdep_args fuel w ps bytes g s \<noteq> None"
proof (induction ps arbitrary: bytes g s)
  case (Cons p ps)
  then obtain t e where "types w p = Some t" "examine_argument fuel w t False = Some e"
    by (auto simp: passable_def)
  with Cons show ?case by simp
qed simp

lemma machdep_defined:
  assumes "cif_abi cif = FFI_DEFAULT_ABI" "returnable fuel w (cif_rtype cif)"
    and "read_ptrs w (cif_arg_types cif) (nat (sint (cif_nargs cif))) = Some ps" "\<forall>p \<in> set ps. passable fuel w p"
  shows "ffi_prep_cif_machdep fuel cif w \<noteq> None"
proof -
  from assms(2) obtain t r where t: "types w (cif_rtype cif) = Some t" "ret_flags fuel w t = Some r"
    by (auto simp: returnable_def)
  show ?thesis
  proof (cases r)
    case (Inl st)
    with assms(1) t show ?thesis by (simp add: ffi_prep_cif_machdep_def)
  next
    case (Inr q)
    obtain g fl where q: "q = (g, fl)" by (cases q)
    from machdep_args_defined [OF assms(4)] obtain x where "machdep_args fuel w ps 0 g 0 = Some x" by blast
    then show ?thesis using assms(1,3) t Inr q
      by (cases x) (simp add: ffi_prep_cif_machdep_def)
  qed
qed

lemma var_args_defined: "\<forall>p \<in> set ps. types w p \<noteq> None \<Longrightarrow> var_args_ok w ps \<noteq> None"
  by (induction ps) auto

lemma core_defined:
  assumes "returnable fuel w rt" "read_ptrs w at (unat nt) = Some ps" "\<forall>p \<in> set ps. passable fuel w p"
    and "unat nt < 2 ^ 31"
  shows "\<exists>r. ffi_prep_cif_core fuel cif FFI_DEFAULT_ABI v nf nt rt at w = Some (r, w)"
proof -
  have n: "nat (sint nt) = unat nt" using assms(4) sint_of_nat32 [of "unat nt"] by simp
  let ?cif = "cif\<lparr>cif_abi := FFI_DEFAULT_ABI, cif_arg_types := at, cif_nargs := nt, cif_rtype := rt,
            cif_flags := 0, cif_bytes := 0\<rparr>"
  have "ffi_prep_cif_machdep fuel ?cif w \<noteq> None"
    by (rule machdep_defined [where ps = ps]) (use assms n in simp_all)
  moreover have "ffi_prep_cif_core fuel cif FFI_DEFAULT_ABI v nf nt rt at w =
     map_option (\<lambda>r. (r, w)) (ffi_prep_cif_machdep fuel ?cif w)"
    by (rule prep_done) (use assms in \<open>auto simp: returnable_def passable_def\<close>)
  ultimately show ?thesis by auto
qed

lemma prep_defined:
  assumes "returnable fuel w rt" "read_ptrs w at (unat nt) = Some ps" "\<forall>p \<in> set ps. passable fuel w p"
    and "unat nt < 2 ^ 31"
  shows "\<exists>r. ffi_prep_cif fuel cif FFI_DEFAULT_ABI nt rt at w = Some (r, w)"
    and "\<exists>r. ffi_prep_cif_var fuel cif FFI_DEFAULT_ABI nf nt rt at w = Some (r, w)"
proof -
  show "\<exists>r. ffi_prep_cif fuel cif FFI_DEFAULT_ABI nt rt at w = Some (r, w)"
    unfolding ffi_prep_cif_def by (rule core_defined [OF assms])
  have "\<forall>p \<in> set (drop (unat nf) ps). types w p \<noteq> None"
    using assms(3) by (auto simp: passable_def dest!: in_set_dropD)
  from var_args_defined [OF this] obtain b where b: "var_args_ok w (drop (unat nf) ps) = Some b" by blast
  from core_defined [OF assms, of cif True nf] obtain rc c
    where "ffi_prep_cif_core fuel cif FFI_DEFAULT_ABI True nf nt rt at w = Some ((rc, c), w)" by auto
  with b assms(2) show "\<exists>r. ffi_prep_cif_var fuel cif FFI_DEFAULT_ABI nf nt rt at w = Some (r, w)"
    by (auto simp: ffi_prep_cif_var_def)
qed

end
