(* ===== verification/Jffi_Bytes.thy ===== *)
theory Jffi_Bytes
  imports Jffi_Prelude
begin

text \<open>
  Byte-level memory: little-endian encodings of words, blocks of bytes with bounded writes, and
  the flat address space \<open>addr \<rightharpoonup> byte\<close> that native pointers reach, where a missing byte is an
  address that is not mapped.
\<close>

section \<open>Little-endian words\<close>

definition le_bytes :: "nat \<Rightarrow> u64 \<Rightarrow> byte list" where
  "le_bytes n x = map (\<lambda>i. ucast (drop_bit (8 * i) x)) [0..<n]"

fun le_word :: "byte list \<Rightarrow> u64" where
  "le_word [] = 0"
| "le_word (b # bs) = ucast b OR push_bit 8 (le_word bs)"

lemma length_le_bytes [simp]: "length (le_bytes n x) = n"
  by (simp add: le_bytes_def)

lemma le_bytes_0 [simp]: "le_bytes 0 x = []"
  by (simp add: le_bytes_def)

lemma le_bytes_Suc: "le_bytes (Suc n) x = ucast x # le_bytes n (drop_bit 8 x)"
  by (simp add: le_bytes_def upt_conv_Cons map_Suc_upt [symmetric] add.commute del: upt_Suc)

lemma take_le_bytes: "k \<le> n \<Longrightarrow> take k (le_bytes n x) = le_bytes k x"
  by (simp add: le_bytes_def take_map)

text \<open>Reading back what was written gives the low bytes of the word; eight bytes give all of it.\<close>

lemma le_word_le_bytes: "le_word (le_bytes n x) = take_bit (8 * n) x"
proof (induction n arbitrary: x)
  case 0
  then show ?case by simp
next
  case (Suc n)
  have "le_word (le_bytes (Suc n) x) = ucast (ucast x :: byte) OR push_bit 8 (take_bit (8 * n) (drop_bit 8 x))"
    by (simp add: le_bytes_Suc Suc)
  also have "\<dots> = take_bit (8 * Suc n) x"
    by (rule bit_eqI) (auto simp: bit_simps)
  finally show ?case .
qed

lemma le_bytes_sext: "8 * n \<le> Suc k \<Longrightarrow> le_bytes n (signed_take_bit k x) = le_bytes n x"
  by (auto simp: le_bytes_def intro!: bit_eqI) (auto simp: bit_simps dest: bit_imp_le_length)

lemma le_word_le_bytes_8 [simp]: "le_word (le_bytes 8 x) = x"
proof -
  have "take_bit 64 x = x" by (rule bit_eqI) (auto simp: bit_simps dest: bit_imp_le_length)
  then show ?thesis by (simp add: le_word_le_bytes)
qed

lemma ucast_low: "(ucast (ucast (b :: byte) OR push_bit 8 (x :: u64)) :: byte) = b"
  by (rule bit_eqI) (auto simp: bit_simps)

lemma drop_low: "length bs < 8 \<Longrightarrow> drop_bit 8 (ucast (b :: byte) OR push_bit 8 (le_word bs)) = le_word bs"
proof -
  assume l: "length bs < 8"
  have lt: "le_word bs = take_bit (8 * length bs) (le_word bs)"
  proof (induction bs)
    case (Cons c cs)
    have "le_word (c # cs) = ucast c OR push_bit 8 (take_bit (8 * length cs) (le_word cs))"
      using Cons by simp
    also have "\<dots> = take_bit (8 * length (c # cs)) (ucast c OR push_bit 8 (take_bit (8 * length cs) (le_word cs)))"
      by (rule bit_eqI) (auto simp: bit_simps dest: bit_imp_le_length)
    finally show ?case using Cons by simp
  qed simp
  have "bit (le_word bs) n \<Longrightarrow> n < 56" for n
    using l by (subst (asm) lt) (auto simp: bit_simps)
  then show ?thesis
    by (intro bit_eqI) (auto simp: bit_simps dest: bit_imp_le_length)
qed

lemma le_bytes_le_word: "length bs \<le> 8 \<Longrightarrow> le_bytes (length bs) (le_word bs) = bs"
proof (induction bs)
  case (Cons b bs)
  then have "drop_bit 8 (le_word (b # bs)) = le_word bs" using drop_low [of bs b] by simp
  moreover have "ucast (le_word (b # bs)) = b" by (simp only: le_word.simps ucast_low)
  ultimately have "le_bytes (length (b # bs)) (le_word (b # bs)) = b # le_bytes (length bs) (le_word bs)"
    by (simp only: length_Cons le_bytes_Suc)
  with Cons show ?case by simp
qed simp

section \<open>Blocks\<close>

definition put :: "byte list \<Rightarrow> nat \<Rightarrow> byte list \<Rightarrow> byte list option" where
  "put blk off bs =
     (if off + length bs \<le> length blk
      then Some (take off blk @ bs @ drop (off + length bs) blk) else None)"

definition get :: "byte list \<Rightarrow> nat \<Rightarrow> nat \<Rightarrow> byte list option" where
  "get blk off n = (if off + n \<le> length blk then Some (take n (drop off blk)) else None)"

lemma put_length: "put blk off bs = Some blk' \<Longrightarrow> length blk' = length blk"
  by (auto simp: put_def split: if_splits)

lemma put_in_bounds: "off + length bs \<le> length blk \<Longrightarrow> \<exists>blk'. put blk off bs = Some blk'"
  by (simp add: put_def)

lemma get_put_same:
  "put blk off bs = Some blk' \<Longrightarrow> n \<le> length bs \<Longrightarrow> get blk' off n = Some (take n bs)"
  by (auto simp: put_def get_def split: if_splits)

lemma get_put_before:
  "put blk off bs = Some blk' \<Longrightarrow> o' + n \<le> off \<Longrightarrow> get blk' o' n = get blk o' n"
  by (auto simp: put_def get_def drop_take min_def split: if_splits)

lemma get_put_after:
  assumes "put blk off bs = Some blk'" and "off + length bs \<le> o'"
  shows "get blk' o' n = get blk o' n"
proof -
  from assms obtain q where q: "o' = off + length bs + q" by (metis le_iff_add)
  from assms show ?thesis
    by (auto simp: put_def get_def q drop_take add.commute add.left_commute split: if_splits)
qed

section \<open>The address space\<close>

type_synonym memory = "addr \<rightharpoonup> byte"

fun load :: "memory \<Rightarrow> addr \<Rightarrow> nat \<Rightarrow> byte list option" where
  "load m p 0 = Some []"
| "load m p (Suc n) = do { b \<leftarrow> m p; bs \<leftarrow> load m (p + 1) n; Some (b # bs) }"

fun store :: "memory \<Rightarrow> addr \<Rightarrow> byte list \<Rightarrow> memory option" where
  "store m p [] = Some m"
| "store m p (b # bs) = (if m p = None then None else store (m(p \<mapsto> b)) (p + 1) bs)"

lemma load_length: "load m p n = Some bs \<Longrightarrow> length bs = n"
  by (induction n arbitrary: p bs) (auto split: bind_splits)

lemma load_append: "load m p (a + b) = do { xs \<leftarrow> load m p a; ys \<leftarrow> load m (p + of_nat a) b; Some (xs @ ys) }"
proof (induction a arbitrary: p)
  case (Suc a)
  show ?case by (cases "m p") (simp_all add: Suc Option.bind_assoc add.assoc)
qed simp

lemma load_prefix: "load m p n = Some bs \<Longrightarrow> k \<le> n \<Longrightarrow> load m p k = Some (take k bs)"
proof -
  assume l: "load m p n = Some bs" and "k \<le> n"
  then obtain q where "n = k + q" by (metis le_iff_add)
  with l show ?thesis by (auto simp: load_append load_length split: bind_splits)
qed

text \<open>An interval that does not wrap around.\<close>

fun span :: "addr \<Rightarrow> nat \<Rightarrow> addr set" where
  "span p 0 = {}"
| "span p (Suc n) = insert p (span (p + 1) n)"

lemma span_iff: "a \<in> span p n \<longleftrightarrow> (\<exists>i < n. a = p + of_nat i)"
proof (induction n arbitrary: p)
  case (Suc n)
  have "(\<exists>i < Suc n. a = p + of_nat i) \<longleftrightarrow> a = p \<or> (\<exists>i < n. a = p + of_nat (Suc i))"
    by (auto simp: less_Suc_eq_0_disj)
  also have "\<dots> \<longleftrightarrow> a = p \<or> (\<exists>i < n. a = p + 1 + of_nat i)" by (simp add: add.assoc)
  finally show ?case by (simp add: Suc)
qed simp

lemma load_defined: "load m p n \<noteq> None \<longleftrightarrow> span p n \<subseteq> dom m"
proof (induction n arbitrary: p)
  case (Suc n)
  show ?case using Suc [of "p + 1"] by (cases "m p"; cases "load m (p + 1) n") auto
qed simp

lemma store_defined: "store m p bs \<noteq> None \<longleftrightarrow> span p (length bs) \<subseteq> dom m"
proof (induction m p bs rule: store.induct)
  case (2 m p b bs)
  show ?case
  proof (cases "m p = None")
    case False
    then have d: "dom (m(p \<mapsto> b)) = dom m" by auto
    have "store m p (b # bs) \<noteq> None \<longleftrightarrow> span (p + 1) (length bs) \<subseteq> dom m"
      using 2 [OF False] False unfolding d by (simp only: store.simps if_False)
    with False show ?thesis by (simp only: span.simps length_Cons insert_subset domIff) simp
  qed (auto simp: domIff)
qed simp

lemma store_outside: "store m p bs = Some m' \<Longrightarrow> a \<notin> span p (length bs) \<Longrightarrow> m' a = m a"
  by (induction m p bs rule: store.induct) (auto split: if_splits)

lemma store_dom: "store m p bs = Some m' \<Longrightarrow> dom m' = dom m"
  by (induction m p bs rule: store.induct) (auto split: if_splits)

lemma load_cong: "(\<And>a. a \<in> span p n \<Longrightarrow> m' a = m a) \<Longrightarrow> load m' p n = load m p n"
  by (induction n arbitrary: p) auto

lemma load_store_disjoint:
  "store m p bs = Some m' \<Longrightarrow> span p (length bs) \<inter> span q n = {} \<Longrightarrow> load m' q n = load m q n"
  by (rule load_cong) (auto dest: store_outside)

lemma notin_span_next: "n < 2 ^ 64 \<Longrightarrow> p \<notin> span (p + 1) n"
proof
  assume n: "n < 2 ^ 64" and "p \<in> span (p + 1) n"
  then obtain i where i: "i < n" "p = p + 1 + of_nat i" by (auto simp: span_iff)
  then have z: "(of_nat (Suc i) :: 64 word) = 0" by (simp add: add.assoc)
  have "(2::nat) ^ 64 dvd Suc i" using z by (simp add: word_of_nat_eq_0_iff del: of_nat_Suc)
  with n i show False by (meson dvd_imp_le le_less_trans less_not_refl2 not_less Suc_leI zero_less_Suc)
qed

lemma span_apart:
  assumes "n \<le> d" and "d + k \<le> 2 ^ 64" shows "span p n \<inter> span (p + of_nat d) k = {}"
proof -
  have False if i: "i < n" and j: "j < k" and e: "(of_nat i :: 64 word) = of_nat (d + j)" for i j
  proof -
    have "unat (of_nat i :: 64 word) = unat (of_nat (d + j) :: 64 word)" using e by simp
    moreover have "unat (of_nat i :: 64 word) = i" by (rule unat_of_nat64) (use i assms in linarith)
    moreover have "unat (of_nat (d + j) :: 64 word) = d + j" by (rule unat_of_nat64) (use j assms in linarith)
    ultimately show False using i assms(1) by linarith
  qed
  then show ?thesis by (fastforce simp: span_iff add.assoc)
qed

lemma span_interval:
  assumes "unat p + n \<le> 2 ^ 64" shows "a \<in> span p n \<longleftrightarrow> unat p \<le> unat a \<and> unat a < unat p + n"
proof
  assume "a \<in> span p n"
  then obtain i where i: "i < n" "a = p + of_nat i" by (auto simp: span_iff)
  have "unat a = unat p + i"
    using assms i by (simp add: unat_word_ariths unsigned_of_nat take_bit_nat_eq_self)
  with i(1) show "unat p \<le> unat a \<and> unat a < unat p + n" by simp
next
  assume a: "unat p \<le> unat a \<and> unat a < unat p + n"
  have "unat (p + of_nat (unat a - unat p)) = unat a"
    using a assms by (simp add: unat_word_ariths unsigned_of_nat take_bit_nat_eq_self)
  then have "a = p + of_nat (unat a - unat p)" by (metis unsigned_word_eqI)
  with a show "a \<in> span p n" unfolding span_iff by (intro exI [of _ "unat a - unat p"]) auto
qed

lemma unat_bound: "unat (x :: 64 word) < 2 ^ 64"
  using unsigned_less [of x] by simp

lemma unat_align_down: "unat (x AND NOT 15 :: 64 word) = unat x div 16 * 16"
proof -
  have e: "x AND NOT (mask 4) = push_bit 4 (drop_bit 4 x)"
    by (rule bit_eqI) (auto simp: bit_simps)
  have t: "take_bit LENGTH(64) (unat x) = unat x" using take_bit_nat_eq_self [OF unat_bound, of x] by simp
  have "(mask 4 :: 64 word) = 15" by (simp add: mask_eq_exp_minus_1)
  then have "unat (x AND NOT 15) = unat (push_bit 4 (drop_bit 4 x))" using e by simp
  also have "unat (push_bit 4 (drop_bit 4 x)) = take_bit 64 (push_bit 4 (drop_bit 4 (unat x)))"
    by (simp only: unsigned_push_bit_eq unsigned_drop_bit_eq t) simp
  also have "push_bit 4 (drop_bit 4 (unat x)) = unat x div 16 * 16"
    by (simp add: push_bit_eq_mult drop_bit_eq_div)
  also have "take_bit 64 (unat x div 16 * 16) = unat x div 16 * 16"
    by (rule take_bit_nat_eq_self) (use unat_bound [of x] in linarith)
  finally show ?thesis .
qed

lemma load_store_same:
  "store m p bs = Some m' \<Longrightarrow> length bs \<le> 2 ^ 64 \<Longrightarrow> load m' p (length bs) = Some bs"
proof (induction m p bs rule: store.induct)
  case (2 m p b bs)
  then have s: "m p \<noteq> None" "store (m(p \<mapsto> b)) (p + 1) bs = Some m'" by (simp_all split: if_splits)
  have "m' p = (m(p \<mapsto> b)) p"
    using 2(3) notin_span_next [of "length bs" p] by (intro store_outside [OF s(2)]) simp
  moreover have "load m' (p + 1) (length bs) = Some bs" using 2(1) [OF s] 2(3) by simp
  ultimately show ?case by simp
qed simp

lemma store_append: "store m p (xs @ ys) = do { m1 \<leftarrow> store m p xs; store m1 (p + of_nat (length xs)) ys }"
proof (induction m p xs rule: store.induct)
  case (2 m p b bs)
  show ?case
  proof (cases "m p")
    case (Some y)
    then have "m p \<noteq> None" by simp
    from 2 [OF this] show ?thesis by (simp add: Some add.assoc del: fun_upd_apply)
  qed simp
qed simp

lemma load_Some_nth:
  "load m p n = Some bs \<longleftrightarrow> length bs = n \<and> (\<forall>i < n. m (p + of_nat i) = Some (bs ! i))"
proof (induction n arbitrary: p bs)
  case (Suc n)
  show ?case
  proof (cases bs)
    case (Cons b bs')
    have "load m p (Suc n) = Some bs \<longleftrightarrow> m p = Some b \<and> load m (p + 1) n = Some bs'"
      by (auto simp: Cons split: bind_splits)
    also have "\<dots> \<longleftrightarrow> length bs = Suc n \<and> m p = Some b \<and> (\<forall>i < n. m (p + 1 + of_nat i) = Some (bs' ! i))"
      by (auto simp: Suc Cons)
    also have "\<dots> \<longleftrightarrow> length bs = Suc n \<and> (\<forall>i < Suc n. m (p + of_nat i) = Some (bs ! i))"
      by (auto simp: Cons less_Suc_eq_0_disj add.assoc)
    finally show ?thesis .
  qed (auto split: bind_splits)
qed auto

lemma load_slice: "load m p n = Some bs \<Longrightarrow> a + b \<le> n \<Longrightarrow> load m (p + of_nat a) b = Some (take b (drop a bs))"
  by (auto simp: load_Some_nth add.assoc simp flip: of_nat_add)

lemma span_append: "span p (a + b) = span p a \<union> span (p + of_nat a) b"
  by (induction a arbitrary: p) (auto simp: add.assoc)

lemma span_mono: "k \<le> n \<Longrightarrow> span p k \<subseteq> span p n"
  by (metis le_iff_add span_append Un_upper1)

lemma span_at: "i + k \<le> m \<Longrightarrow> span (p + of_nat i) k \<subseteq> span p m"
proof -
  assume "i + k \<le> m"
  then have "span p (i + k) \<subseteq> span p m" by (rule span_mono)
  then show ?thesis by (simp add: span_append)
qed

end
