(* ===== verification/Ffi_Call64.thy ===== *)
theory Ffi_Call64
  imports Ffi_Prep Jffi_Bytes
begin

text \<open>
  Making a call and receiving one, x86-64 System V (\<^verbatim>\<open>jni/libffi/src/x86/ffi64.c\<close> with the two
  assembly stubs it relies on, \<^verbatim>\<open>jni/libffi/src/x86/unix64.S\<close>): \<open>ffi_call_int\<close> spreads the
  argument values over registers and stack, \<open>ffi_call_unix64\<close> loads them, calls the target and
  stores its result by the flags, \<open>ffi_closure_unix64_inner\<close> finds the argument values again in
  the registers and the stack of an incoming call.

  The block \<open>alloca\<close> gives \<open>ffi_call_int\<close> is a list of bytes of its own: nothing else points into
  it. A write outside it is \<open>None\<close>. The target is a parameter.
\<close>

section \<open>The world with byte-addressed memory\<close>

text \<open>\<open>mem\<close> is what raw pointers reach; \<open>stack_top\<close> is the lowest address in use by stack frames.
  \<open>garbage\<close> is the content a byte has when it is newly allocated, \<open>stale\<close> what is left in the
  argument registers nobody has set: C leaves both undetermined, so every theorem holds whatever
  they are.\<close>

record mem_world = type_world +
  mem :: memory
  stack_top :: addr
  garbage :: "addr \<Rightarrow> byte"
  stale :: "nat \<Rightarrow> u64"

definition fresh_bytes :: "'a mem_world_scheme \<Rightarrow> addr \<Rightarrow> nat \<Rightarrow> byte list" where
  "fresh_bytes w p n = map (\<lambda>i. garbage w (p + of_nat i)) [0..<n]"

fun map_block :: "addr \<Rightarrow> byte list \<Rightarrow> memory \<Rightarrow> memory" where
  "map_block p [] m = m"
| "map_block p (b # bs) m = map_block (p + 1) bs (m(p \<mapsto> b))"

lemma map_block_outside: "a \<notin> span p (length bs) \<Longrightarrow> map_block p bs m a = m a"
  by (induction bs arbitrary: p m) auto

lemma map_block_dom: "dom (map_block p bs m) = span p (length bs) \<union> dom m"
  by (induction bs arbitrary: p m) auto

lemma load_map_block: "length bs \<le> 2 ^ 64 \<Longrightarrow> load (map_block p bs m) p (length bs) = Some bs"
proof (induction bs arbitrary: p m)
  case (Cons b bs)
  have "map_block (p + 1) bs (m(p \<mapsto> b)) p = Some b"
    using notin_span_next [of "length bs" p] Cons(2) by (simp add: map_block_outside)
  with Cons show ?case by simp
qed simp

lemma length_fresh_bytes [simp]: "length (fresh_bytes w p n) = n"
  by (simp add: fresh_bytes_def)

text \<open>\<open>alloca\<close> moves the stack pointer down to a multiple of 16.\<close>

definition alloca :: "nat \<Rightarrow> 'a mem_world_scheme \<Rightarrow> addr \<times> 'a mem_world_scheme" where
  "alloca n w = (let p = (stack_top w - of_nat n) AND NOT 15
                 in (p, w\<lparr>stack_top := p, mem := map_block p (fresh_bytes w p n) (mem w)\<rparr>))"

lemma alloca_span:
  assumes "alloca n w = (p, w')" and "n + 16 \<le> unat (stack_top w)"
  shows "unat p + n \<le> unat (stack_top w) \<and> unat (stack_top w) < unat p + n + 16 \<and> unat p + n \<le> 2 ^ 64 \<and> stack_top w' = p"
proof -
  have p: "p = (stack_top w - of_nat n) AND NOT 15" and t: "stack_top w' = p"
    using assms(1) by (auto simp: alloca_def Let_def)
  have b: "unat (stack_top w) < 2 ^ 64" by (rule unat_bound)
  have n: "unat (of_nat n :: addr) = n" by (rule unat_of_nat64) (use assms(2) b in linarith)
  have "unat (stack_top w - of_nat n) = unat (stack_top w) - n"
    using assms(2) n by (simp add: unat_sub word_le_nat_alt)
  then have "unat p = (unat (stack_top w) - n) div 16 * 16" by (simp only: p unat_align_down)
  with assms(2) b t show ?thesis by linarith
qed

section \<open>ffi_call_int\<close>

text \<open>Offsets in \<open>struct register_args\<close>: six 8-byte \<open>gpr\<close>, eight 16-byte \<open>sse\<close>, \<open>rax\<close>, \<open>r10\<close>.\<close>

abbreviation (input) OFS_GPR :: nat where "OFS_GPR \<equiv> 0"
abbreviation (input) OFS_SSE :: nat where "OFS_SSE \<equiv> 48"
abbreviation (input) OFS_RAX :: nat where "OFS_RAX \<equiv> 176"
abbreviation (input) OFS_R10 :: nat where "OFS_R10 \<equiv> 184"
abbreviation (input) sizeof_register_args :: nat where "sizeof_register_args \<equiv> 192"

definition sext_bytes :: "byte list \<Rightarrow> u64" where
  "sext_bytes bs = signed_take_bit (8 * length bs - 1) (le_word bs)"

text \<open>What \<open>reg_args->gpr[gprcount]\<close> receives: sign-extended for the signed scalar types, otherwise
  up to eight bytes of the value on top of zeros.\<close>

definition gpr_bytes :: "memory \<Rightarrow> u16 \<Rightarrow> addr \<Rightarrow> size_t \<Rightarrow> byte list option" where
  "gpr_bytes m code a sz =
     (if code = FFI_TYPE_SINT8 then map_option (\<lambda>bs. le_bytes 8 (sext_bytes bs)) (load m a 1)
      else if code = FFI_TYPE_SINT16 then map_option (\<lambda>bs. le_bytes 8 (sext_bytes bs)) (load m a 2)
      else if code = FFI_TYPE_SINT32 then map_option (\<lambda>bs. le_bytes 8 (sext_bytes bs)) (load m a 4)
      else (let k = (if sz \<le> 8 then unat sz else 8)
            in map_option (\<lambda>bs. bs @ replicate (8 - k) 0) (load m a k)))"

fun store_regs ::
  "memory \<Rightarrow> u16 \<Rightarrow> x86_64_reg_class list \<Rightarrow> addr \<Rightarrow> size_t \<Rightarrow> nat \<times> nat \<times> byte list
     \<Rightarrow> (nat \<times> nat \<times> byte list) option"
where
  "store_regs m code [] a sz st = Some st"
| "store_regs m code (c # classes) a sz (gprcount, ssecount, blk) = do {
     st \<leftarrow> (if c = X86_64_NO_CLASS \<or> c = X86_64_SSEUP_CLASS then Some (gprcount, ssecount, blk)
          else if c = X86_64_INTEGER_CLASS \<or> c = X86_64_INTEGERSI_CLASS then do {
            v \<leftarrow> gpr_bytes m code a sz;
            blk \<leftarrow> put blk (OFS_GPR + 8 * gprcount) v;
            Some (gprcount + 1, ssecount, blk)
          }
          else if c = X86_64_SSE_CLASS \<or> c = X86_64_SSEDF_CLASS then do {
            v \<leftarrow> load m a 8;
            blk \<leftarrow> put blk (OFS_SSE + 16 * ssecount) v;
            Some (gprcount, ssecount + 1, blk)
          }
          else if c = X86_64_SSESF_CLASS then do {
            v \<leftarrow> load m a 4;
            blk \<leftarrow> put blk (OFS_SSE + 16 * ssecount) v;
            Some (gprcount, ssecount + 1, blk)
          }
          else None);
     store_regs m code classes (a + 8) (sz - 8) st
   }"

text \<open>The argument loop. \<open>stack\<close> is the address of the block, \<open>argp\<close> the next stack argument's.\<close>

fun call_args ::
  "nat \<Rightarrow> 'a mem_world_scheme \<Rightarrow> addr \<Rightarrow> addr list \<Rightarrow> addr list \<Rightarrow> addr \<Rightarrow> nat \<times> nat \<times> byte list
     \<Rightarrow> (nat \<times> byte list) option"
where
  "call_args fuel w stack [] avalue argp (gprcount, ssecount, blk) = Some (ssecount, blk)"
| "call_args fuel w stack (p # arg_types) [] argp st = None"
| "call_args fuel w stack (p # arg_types) (v # avalue) argp (gprcount, ssecount, blk) = do {
     t \<leftarrow> types w p;
     e \<leftarrow> examine_argument fuel w t False;
     if goes_on_stack e gprcount ssecount
     then do {
       argp \<leftarrow> Some (FFI_ALIGN argp (stack_align t));
       bs \<leftarrow> load (mem w) v (unat (ft_size t));
       blk \<leftarrow> put blk (unat (argp - stack)) bs;
       call_args fuel w stack arg_types avalue (argp + ft_size t) (gprcount, ssecount, blk)
     }
     else do {
       st \<leftarrow> store_regs (mem w) (ft_type t) (take (ex_n e) (ex_classes e)) v (ft_size t) (gprcount, ssecount, blk);
       call_args fuel w stack arg_types avalue argp st
     }
   }"

text \<open>The filling of the block of \<open>sizeof (struct register_args) + cif->bytes + 4*8\<close> bytes at
  \<open>stack\<close>, whose undetermined content is \<open>junk\<close>.\<close>

definition call_block ::
  "nat \<Rightarrow> 'a mem_world_scheme \<Rightarrow> addr list \<Rightarrow> u32 \<Rightarrow> addr \<Rightarrow> addr list \<Rightarrow> addr \<Rightarrow> addr \<Rightarrow> byte list
     \<Rightarrow> byte list option"
where
  "call_block fuel w arg_types flags rvalue avalue closure stack junk = do {
     blk \<leftarrow> put junk OFS_R10 (le_bytes 8 closure);
     (gprcount, blk) \<leftarrow>
       (if flags AND UNIX64_FLAG_RET_IN_MEM \<noteq> 0
        then map_option (\<lambda>b. (1, b)) (put blk OFS_GPR (le_bytes 8 rvalue))
        else Some (0, blk));
     (ssecount, blk) \<leftarrow> call_args fuel w stack arg_types avalue
                          (stack + of_nat sizeof_register_args) (gprcount, 0, blk);
     put blk OFS_RAX (le_bytes 8 (of_nat ssecount))
   }"

section \<open>ffi_call_unix64\<close>

text \<open>The machine state the target finds, and the registers it may return a value in. The vector
  registers are loaded only when \<open>al\<close> is not zero.\<close>

record call_regs =
  cr_gpr :: "u64 list"
  cr_sse :: "byte list option"
  cr_al :: u32
  cr_r10 :: u64
  cr_args :: "byte list"

record ret_regs =
  rr_rax :: u64
  rr_rdx :: u64
  rr_xmm0 :: u64
  rr_xmm1 :: u64
  rr_st0 :: "byte list"
  rr_st1 :: "byte list"

definition load_regs :: "byte list \<Rightarrow> u32 \<Rightarrow> call_regs" where
  "load_regs blk bytes =
     (let rd = (\<lambda>off. le_word (take 8 (drop off blk)));
          al = (ucast (rd OFS_RAX) :: u32)
      in \<lparr>cr_gpr = map (\<lambda>i. rd (OFS_GPR + 8 * i)) [0..<6],
          cr_sse = (if al \<noteq> 0 then Some (take 128 (drop OFS_SSE blk)) else None),
          cr_al = al, cr_r10 = rd OFS_R10,
          cr_args = take (unat bytes) (drop sizeof_register_args blk)\<rparr>)"

text \<open>\<open>L(store_table)\<close>: what is written for each return code, as offsets from the return address
  and bytes.\<close>

definition store_table :: "u32 \<Rightarrow> ret_regs \<Rightarrow> (addr \<times> byte list) list option" where
  "store_table flags r =
     (let code = take_bit 8 flags; n = unat (drop_bit UNIX64_SIZE_SHIFT flags);
          rax = rr_rax r;
          scratch = (\<lambda>lo hi. if n \<le> 16 then Some [(0, take n (le_bytes 8 lo @ le_bytes 8 hi))] else None)
      in if code = UNIX64_RET_VOID then Some []
         else if code = UNIX64_RET_UINT8 then Some [(0, le_bytes 8 (take_bit 8 rax))]
         else if code = UNIX64_RET_UINT16 then Some [(0, le_bytes 8 (take_bit 16 rax))]
         else if code = UNIX64_RET_UINT32 then Some [(0, le_bytes 8 (take_bit 32 rax))]
         else if code = UNIX64_RET_SINT8 then Some [(0, le_bytes 8 (signed_take_bit 7 rax))]
         else if code = UNIX64_RET_SINT16 then Some [(0, le_bytes 8 (signed_take_bit 15 rax))]
         else if code = UNIX64_RET_SINT32 then Some [(0, le_bytes 8 (signed_take_bit 31 rax))]
         else if code = UNIX64_RET_INT64 then Some [(0, le_bytes 8 rax)]
         else if code = UNIX64_RET_XMM32 then Some [(0, le_bytes 4 (rr_xmm0 r))]
         else if code = UNIX64_RET_XMM64 then Some [(0, le_bytes 8 (rr_xmm0 r))]
         else if code = UNIX64_RET_X87 then Some [(0, take 10 (rr_st0 r))]
         else if code = UNIX64_RET_X87_2 then Some [(0, take 10 (rr_st0 r)), (16, take 10 (rr_st1 r))]
         else if code = UNIX64_RET_ST_XMM0_RAX then scratch (rr_xmm0 r) rax
         else if code = UNIX64_RET_ST_RAX_XMM0 then scratch rax (rr_xmm0 r)
         else if code = UNIX64_RET_ST_XMM0_XMM1 then scratch (rr_xmm0 r) (rr_xmm1 r)
         else if code = UNIX64_RET_ST_RAX_RDX then scratch rax (rr_rdx r)
         else None)"

fun store_all :: "addr \<Rightarrow> (addr \<times> byte list) list \<Rightarrow> 'a mem_world_scheme \<Rightarrow> 'a mem_world_scheme option" where
  "store_all p [] w = Some w"
| "store_all p ((off, bs) # xs) w = do {
     m \<leftarrow> store (mem w) (p + off) bs;
     store_all p xs (w\<lparr>mem := m\<rparr>)
   }"

text \<open>The target: from its address, the registers and stack arguments and the whole state, to the
  return registers and the state it leaves; \<open>None\<close> when it does not come back.\<close>

type_synonym 'w native = "addr \<Rightarrow> call_regs \<Rightarrow> 'w \<Rightarrow> (ret_regs \<times> 'w) option"

definition ffi_call_unix64 ::
  "'a mem_world_scheme native \<Rightarrow> byte list \<Rightarrow> u32 \<Rightarrow> u32 \<Rightarrow> addr \<Rightarrow> addr
     \<Rightarrow> 'a mem_world_scheme \<Rightarrow> 'a mem_world_scheme option"
where
  "ffi_call_unix64 native blk bytes flags raddr fnaddr w = do {
     (r, w1) \<leftarrow> native fnaddr (load_regs blk bytes) w;
     out \<leftarrow> store_table flags r;
     store_all raddr out w1
   }"

definition ffi_call_int ::
  "'a mem_world_scheme native \<Rightarrow> nat \<Rightarrow> ffi_cif \<Rightarrow> addr \<Rightarrow> addr \<Rightarrow> addr list \<Rightarrow> addr
     \<Rightarrow> 'a mem_world_scheme \<Rightarrow> 'a mem_world_scheme option"
where
  "ffi_call_int native fuel cif fn rvalue avalue closure w = do {
     rtype \<leftarrow> types w (cif_rtype cif);
     (flags, rvalue, w1) \<leftarrow> Some
       (if rvalue \<noteq> NULL then (cif_flags cif, rvalue, w)
        else if cif_flags cif AND UNIX64_FLAG_RET_IN_MEM \<noteq> 0
        then (cif_flags cif, fst (alloca (unat (ft_size rtype)) w), snd (alloca (unat (ft_size rtype)) w))
        else (UNIX64_RET_VOID, rvalue, w));
     arg_types \<leftarrow> read_ptrs w1 (cif_arg_types cif) (nat (sint (cif_nargs cif)));
     n \<leftarrow> Some (sizeof_register_args + unat (cif_bytes cif) + 32);
     (stack, w2) \<leftarrow> Some (alloca n w1);
     blk \<leftarrow> call_block fuel w1 arg_types flags rvalue avalue closure stack (fresh_bytes w1 stack n);
     ffi_call_unix64 native blk (cif_bytes cif) flags rvalue fn (w2\<lparr>mem := map_block stack blk (mem w2)\<rparr>)
   }"

section \<open>ffi_call\<close>

text \<open>Large structures are copied first, so that they are passed by value; \<open>int size\<close> truncates.\<close>

fun copy_large :: "'a mem_world_scheme \<Rightarrow> addr list \<Rightarrow> addr list \<Rightarrow> nat
     \<Rightarrow> (addr list \<times> 'a mem_world_scheme) option" where
  "copy_large w [] avalue lim = Some (avalue, w)"
| "copy_large w (p # arg_types) [] lim = None"
| "copy_large w (p # arg_types) (v # avalue) lim = do {
     t \<leftarrow> types w p;
     sz \<leftarrow> Some (ucast (ft_size t) :: 32 word);
     (v', w') \<leftarrow> (if ft_type t = FFI_TYPE_STRUCT \<and> sint sz > int lim
        then do {
          bs \<leftarrow> load (mem w) v (unat sz);
          (q, w1) \<leftarrow> Some (alloca (unat sz) w);
          m \<leftarrow> store (mem w1) q bs;
          Some (q, w1\<lparr>mem := m\<rparr>)
        } else Some (v, w));
     (vs, w'') \<leftarrow> copy_large w' arg_types avalue lim;
     Some (v' # vs, w'')
   }"

text \<open>The calls jffi makes have the ABI \<open>FFI_UNIX64\<close>. The Microsoft calling sequence is an argument
  here, \<open>ffi_call_efi64\<close> of \<open>Ffi_Win64\<close> in the program. On return the frame is popped.\<close>

definition ffi_call ::
  "'a mem_world_scheme native
     \<Rightarrow> (ffi_cif \<Rightarrow> addr \<Rightarrow> addr \<Rightarrow> addr list \<Rightarrow> 'a mem_world_scheme \<Rightarrow> 'a mem_world_scheme option)
     \<Rightarrow> nat \<Rightarrow> ffi_cif \<Rightarrow> addr \<Rightarrow> addr \<Rightarrow> addr list \<Rightarrow> 'a mem_world_scheme \<Rightarrow> 'a mem_world_scheme option"
where
  "ffi_call native efi64 fuel cif fn rvalue avalue w = do {
     arg_types \<leftarrow> read_ptrs w (cif_arg_types cif) (nat (sint (cif_nargs cif)));
     (avalue, w1) \<leftarrow> copy_large w arg_types avalue (if cif_abi cif = FFI_GNUW64 then 8 else 16);
     w2 \<leftarrow> (if cif_abi cif = FFI_EFI64 \<or> cif_abi cif = FFI_GNUW64
           then efi64 cif fn rvalue avalue w1
           else ffi_call_int native fuel cif fn rvalue avalue NULL w1);
     Some (w2\<lparr>stack_top := stack_top w\<rparr>)
   }"

section \<open>ffi_closure_unix64_inner\<close>

text \<open>\<open>reg_args\<close> and \<open>argp\<close> are the addresses of the saved registers and of the stack arguments.
  The result: the argument pointers, the address the value is returned at and the flags for the
  assembly's load of the return registers.\<close>

fun gather :: "x86_64_reg_class list \<Rightarrow> addr \<Rightarrow> addr \<Rightarrow> nat \<times> nat \<times> 'a mem_world_scheme
     \<Rightarrow> (nat \<times> nat \<times> 'a mem_world_scheme) option" where
  "gather [] reg_args a st = Some st"
| "gather (c # classes) reg_args a (gprcount, ssecount, w) =
     (if SSE_CLASS_P c
      then do {
        bs \<leftarrow> load (mem w) (reg_args + of_nat (OFS_SSE + 16 * ssecount)) 8;
        m \<leftarrow> store (mem w) a bs;
        gather classes reg_args (a + 8) (gprcount, ssecount + 1, w\<lparr>mem := m\<rparr>)
      }
      else do {
        bs \<leftarrow> load (mem w) (reg_args + of_nat (OFS_GPR + 8 * gprcount)) 8;
        m \<leftarrow> store (mem w) a bs;
        gather classes reg_args (a + 8) (gprcount + 1, ssecount, w\<lparr>mem := m\<rparr>)
      })"

fun closure_args ::
  "nat \<Rightarrow> addr \<Rightarrow> addr list \<Rightarrow> addr \<Rightarrow> nat \<Rightarrow> nat \<Rightarrow> 'a mem_world_scheme
     \<Rightarrow> (addr list \<times> 'a mem_world_scheme) option"
where
  "closure_args fuel reg_args [] argp gprcount ssecount w = Some ([], w)"
| "closure_args fuel reg_args (p # arg_types) argp gprcount ssecount w = do {
     t \<leftarrow> types w p;
     e \<leftarrow> examine_argument fuel w t False;
     if goes_on_stack e gprcount ssecount
     then do {
       argp \<leftarrow> Some (FFI_ALIGN argp (stack_align t));
       (vs, w') \<leftarrow> closure_args fuel reg_args arg_types (argp + ft_size t) gprcount ssecount w;
       Some (argp # vs, w')
     }
     else if ex_n e = 1 \<or> ex_n e = 2 \<and> \<not> (SSE_CLASS_P (ex_classes e ! 0) \<or> SSE_CLASS_P (ex_classes e ! 1))
     then (if SSE_CLASS_P (ex_classes e ! 0)
       then do {
         (vs, w') \<leftarrow> closure_args fuel reg_args arg_types argp gprcount (ssecount + ex_n e) w;
         Some ((reg_args + of_nat (OFS_SSE + 16 * ssecount)) # vs, w')
       }
       else do {
         (vs, w') \<leftarrow> closure_args fuel reg_args arg_types argp (gprcount + ex_n e) ssecount w;
         Some ((reg_args + of_nat (OFS_GPR + 8 * gprcount)) # vs, w')
       })
     else do {
       (a, w1) \<leftarrow> Some (alloca 16 w);
       (gprs, sses, w2) \<leftarrow> gather (take (ex_n e) (ex_classes e)) reg_args a (gprcount, ssecount, w1);
       (vs, w') \<leftarrow> closure_args fuel reg_args arg_types argp gprs sses w2;
       Some (a # vs, w')
     }
   }"

definition ffi_closure_unix64_inner ::
  "nat \<Rightarrow> ffi_cif \<Rightarrow> addr \<Rightarrow> addr \<Rightarrow> addr \<Rightarrow> 'a mem_world_scheme
     \<Rightarrow> ((addr list \<times> addr \<times> u32) \<times> 'a mem_world_scheme) option"
where
  "ffi_closure_unix64_inner fuel cif rvalue reg_args argp w = do {
     (gprcount, rv, flags, w1) \<leftarrow>
       (if cif_flags cif AND UNIX64_FLAG_RET_IN_MEM \<noteq> 0
        then do {
          r \<leftarrow> load (mem w) (reg_args + of_nat OFS_GPR) 8;
          m \<leftarrow> store (mem w) rvalue r;
          Some (1, le_word r, UNIX64_RET_INT64, w\<lparr>mem := m\<rparr>)
        }
        else Some (0, rvalue, cif_flags cif, w));
     arg_types \<leftarrow> read_ptrs w1 (cif_arg_types cif) (nat (sint (cif_nargs cif)));
     (avalue, w2) \<leftarrow> closure_args fuel reg_args arg_types argp gprcount 0 w1;
     Some ((avalue, rv, flags), w2)
   }"

end
