(* ===== verification/Jffi_CallContext.thy ===== *)
theory Jffi_CallContext
  imports Jffi_Struct Ffi_Call64
begin

text \<open>
  \<^verbatim>\<open>jni/jffi/CallContext.c\<close> and \<^verbatim>\<open>CallContext.h\<close>: the native object that describes one function
  signature. It owns the array of parameter types handed to libffi and the array of the byte
  offsets at which each parameter lies in the buffer Java packs the arguments into.
\<close>

section \<open>Data\<close>

record CallContext =
  cc_cif :: ffi_cif
  cc_rawParameterSize :: jint
  cc_ffiParamTypes :: addr
  cc_rawParamOffsets :: addr
  cc_flags :: jint
  cc_resultMask :: u64
  cc_error_fn :: addr

definition zero_ctx :: CallContext where
  "zero_ctx = \<lparr>cc_cif = zero_cif, cc_rawParameterSize = 0, cc_ffiParamTypes = NULL,
     cc_rawParamOffsets = NULL, cc_flags = 0, cc_resultMask = 0, cc_error_fn = NULL\<rparr>"

abbreviation (input) CALL_CTX_SAVE_ERRNO :: jint where "CALL_CTX_SAVE_ERRNO \<equiv> 1"
abbreviation (input) CALL_CTX_FAST_INT :: jint where "CALL_CTX_FAST_INT \<equiv> 2"
abbreviation (input) CALL_CTX_FAST_LONG :: jint where "CALL_CTX_FAST_LONG \<equiv> 4"
abbreviation (input) CALL_CTX_FAULT_PROT :: jint where "CALL_CTX_FAULT_PROT \<equiv> 8"

abbreviation (input) F_NOERRNO :: jint where "F_NOERRNO \<equiv> 2"
abbreviation (input) F_PROTECT :: jint where "F_PROTECT \<equiv> 4"

abbreviation (input) sizeof_CallContext :: size_t where "sizeof_CallContext \<equiv> 80"
abbreviation (input) FFI_SIZEOF_ARG :: jint where "FFI_SIZEOF_ARG \<equiv> 8"

record ctx_world = mem_world +
  ctxs :: "addr \<rightharpoonup> CallContext"
  ints :: "addr \<rightharpoonup> jint list"

definition write_ctx :: "addr \<Rightarrow> CallContext \<Rightarrow> 'a ctx_world_scheme \<Rightarrow> 'a ctx_world_scheme" where
  "write_ctx p c w = w\<lparr>ctxs := (ctxs w)(p \<mapsto> c)\<rparr>"

definition write_ints :: "addr \<Rightarrow> jint list \<Rightarrow> 'a ctx_world_scheme \<Rightarrow> 'a ctx_world_scheme" where
  "write_ints p xs w = w\<lparr>ints := (ints w)(p \<mapsto> xs)\<rparr>"

definition store_int :: "addr \<Rightarrow> nat \<Rightarrow> jint \<Rightarrow> 'a ctx_world_scheme \<Rightarrow> 'a ctx_world_scheme option" where
  "store_int p i x w =
     (case ints w p of
        Some xs \<Rightarrow> if i < length xs then Some (write_ints p (xs[i := x]) w) else None
      | None \<Rightarrow> None)"

definition free_ctx :: "addr \<Rightarrow> 'a ctx_world_scheme \<Rightarrow> 'a ctx_world_scheme option" where
  "free_ctx p w = map_option (\<lambda>w. w\<lparr>ctxs := (ctxs w)(p := None)\<rparr>) (free p w)"

definition free_ints :: "addr \<Rightarrow> 'a ctx_world_scheme \<Rightarrow> 'a ctx_world_scheme option" where
  "free_ints p w = map_option (\<lambda>w. w\<lparr>ints := (ints w)(p := None)\<rparr>) (free p w)"

section \<open>newCallContext\<close>

text \<open>The file's own \<open>static inline int FFI_ALIGN(int v, int a)\<close>.\<close>

definition FFI_ALIGN_int :: "jint \<Rightarrow> jint \<Rightarrow> jint" where
  "FFI_ALIGN_int v a = ucast (((scast v :: size_t) - 1 OR scast (a - 1)) + 1)"

text \<open>The two switches on the types, with the \<open>__x86_64__\<close> branches of the preprocessor. A pair
  is \<open>(isFastInt, isFastLong)\<close>.\<close>

definition is_int32_code :: "u16 \<Rightarrow> bool" where
  "is_int32_code c \<longleftrightarrow> c \<in> {FFI_TYPE_INT, FFI_TYPE_SINT8, FFI_TYPE_UINT8, FFI_TYPE_SINT16,
     FFI_TYPE_UINT16, FFI_TYPE_SINT32, FFI_TYPE_UINT32}"

definition is_int64_code :: "u16 \<Rightarrow> bool" where
  "is_int64_code c \<longleftrightarrow> c \<in> {FFI_TYPE_SINT64, FFI_TYPE_UINT64, FFI_TYPE_POINTER}"

definition ret_fast :: "u16 \<Rightarrow> bool \<times> bool" where
  "ret_fast c = (if is_int32_code c then (True, True)
                 else if is_int64_code c then (False, True)
                 else if c = FFI_TYPE_VOID then (True, True)
                 else (False, False))"

definition param_fast :: "u16 \<Rightarrow> bool \<times> bool \<Rightarrow> bool \<times> bool" where
  "param_fast c fast = (if is_int32_code c then fast
                        else if is_int64_code c then (False, snd fast)
                        else (False, False))"

text \<open>The loop over the parameter types; \<open>None\<close> in the first component is the jump to \<open>cleanup\<close>.\<close>

fun ctx_params ::
  "addr \<Rightarrow> nat \<Rightarrow> jlong list \<Rightarrow> jint \<Rightarrow> bool \<times> bool \<Rightarrow> 'a ctx_world_scheme
     \<Rightarrow> ((jint \<times> bool \<times> bool) option \<times> 'a ctx_world_scheme) option"
where
  "ctx_params ctx i [] rawOffset fast w = Some (Some (rawOffset, fast), w)"
| "ctx_params ctx i (p # paramTypes) rawOffset fast w =
     (if j2p p = NULL
      then Some (None, throwException IllegalArgument ''Invalid parameter type: %#x'' [ArgInt (ucast p)] w)
      else do {
        c \<leftarrow> ctxs w ctx;
        w1 \<leftarrow> store_ptr (cc_ffiParamTypes c) i (j2p p) w;
        w2 \<leftarrow> store_int (cc_rawParamOffsets c) i rawOffset w1;
        t \<leftarrow> types w2 (j2p p);
        ctx_params ctx (Suc i) paramTypes
          (rawOffset + FFI_ALIGN_int (ucast (ft_size t)) FFI_SIZEOF_ARG) (param_fast (ft_type t) fast) w2
      })"

text \<open>The code at the label \<open>cleanup\<close>.\<close>

definition ctx_cleanup :: "addr \<Rightarrow> 'a ctx_world_scheme \<Rightarrow> (jlong \<times> 'a ctx_world_scheme) option" where
  "ctx_cleanup ctx w =
     (if ctx \<noteq> NULL then do {
        c \<leftarrow> ctxs w ctx;
        w1 \<leftarrow> (if cc_rawParamOffsets c \<noteq> NULL then free_ints (cc_rawParamOffsets c) w else Some w);
        w2 \<leftarrow> (if cc_ffiParamTypes c \<noteq> NULL then free_ptrs (cc_ffiParamTypes c) w1 else Some w1);
        w3 \<leftarrow> free_ctx ctx w2;
        Some (0, w3)
      } else Some (0, w))"

definition ctx_flags :: "jint \<Rightarrow> bool \<times> bool \<Rightarrow> jint" where
  "ctx_flags flags fast =
     (if flags AND F_NOERRNO = 0 then CALL_CTX_SAVE_ERRNO else 0)
     OR (if fst fast then CALL_CTX_FAST_INT else 0)
     OR (if snd fast then CALL_CTX_FAST_LONG else 0)
     OR (if flags AND F_PROTECT \<noteq> 0 then CALL_CTX_FAULT_PROT else 0)"

definition prep_context ::
  "nat \<Rightarrow> addr \<Rightarrow> jlong \<Rightarrow> jint \<Rightarrow> jint \<Rightarrow> 'a ctx_world_scheme
     \<Rightarrow> (ffi_status \<times> 'a ctx_world_scheme) option"
where
  "prep_context fuel ctx returnType fixedParamCount paramCount w = do {
     c \<leftarrow> ctxs w ctx;
     ((ffiStatus, cif), w1) \<leftarrow>
       (if fixedParamCount = paramCount
        then ffi_prep_cif fuel (cc_cif c) FFI_DEFAULT_ABI paramCount (j2p returnType) (cc_ffiParamTypes c) w
        else ffi_prep_cif_var fuel (cc_cif c) FFI_DEFAULT_ABI fixedParamCount paramCount
               (j2p returnType) (cc_ffiParamTypes c) w);
     Some (ffiStatus, write_ctx ctx (c\<lparr>cc_cif := cif\<rparr>) w1)
   }"

text \<open>What follows the parameter loop, from its result \<open>r\<close> on.\<close>

definition ctx_finish ::
  "nat \<Rightarrow> addr \<Rightarrow> jlong \<Rightarrow> jint \<Rightarrow> jint \<Rightarrow> jint \<Rightarrow> (jint \<times> bool \<times> bool) option
     \<Rightarrow> 'a ctx_world_scheme \<Rightarrow> (jlong \<times> 'a ctx_world_scheme) option"
where
  "ctx_finish fuel ctx returnType fixedParamCount paramCount flags r w4 =
     (case r of
        None \<Rightarrow> ctx_cleanup ctx w4
      | Some (rawOffset, fast) \<Rightarrow> do {
          (ffiStatus, w5) \<leftarrow> prep_context fuel ctx returnType fixedParamCount paramCount w4;
          (case ffiStatus of
             FFI_BAD_TYPEDEF \<Rightarrow> ctx_cleanup ctx (throwException IllegalArgument ''Bad typedef'' [] w5)
           | FFI_BAD_ABI \<Rightarrow> ctx_cleanup ctx (throwException Runtime ''Invalid ABI'' [] w5)
           | FFI_BAD_ARGTYPE \<Rightarrow> ctx_cleanup ctx (throwException Runtime ''Bad argument type'' [] w5)
           | FFI_OK \<Rightarrow> do {
               c \<leftarrow> ctxs w5 ctx;
               Some (p2j ctx, write_ctx ctx (c\<lparr>cc_rawParameterSize := rawOffset,
                                               cc_flags := ctx_flags flags fast\<rparr>) w5)
             })
        })"

text \<open>\<open>fuel\<close> bounds the libffi recursions through nested aggregate types.\<close>

definition newCallContext ::
  "nat \<Rightarrow> jlong \<Rightarrow> jlong list \<Rightarrow> jint \<Rightarrow> 'a ctx_world_scheme \<Rightarrow> (jlong \<times> 'a ctx_world_scheme) option"
where
  "newCallContext fuel returnType paramArray flags w =
     (let paramCount = (of_nat (length paramArray) :: jint);
          fixedParamCount = signed_drop_bit 16 flags;
          slots = scast (if sint paramCount < 1 then 1 else paramCount);
          n = max 1 (length paramArray)
      in do {
        (ctx, w1) \<leftarrow> calloc 1 sizeof_CallContext w;
        if ctx = NULL
        then ctx_cleanup NULL (throwException OutOfMemory ''Failed to allocate CallContext'' [] w1)
        else do {
          (pts, w2) \<leftarrow> calloc slots sizeof_ptr (write_ctx ctx zero_ctx w1);
          if pts = NULL
          then ctx_cleanup ctx (throwException OutOfMemory ''Failed to allocate CallContext#ffiParamTypes'' [] w2)
          else do {
            c1 \<leftarrow> Some (zero_ctx\<lparr>cc_ffiParamTypes := pts\<rparr>);
            (offs, w3) \<leftarrow> calloc slots 4 (write_ctx ctx c1 (write_ptrs pts (replicate n NULL) w2));
            if offs = NULL
            then ctx_cleanup ctx (throwException OutOfMemory ''Failed to allocate CallContext#rawParamOffsets'' [] w3)
            else do {
              rt \<leftarrow> types w3 (j2p returnType);
              c2 \<leftarrow> Some (c1\<lparr>cc_rawParamOffsets := offs,
                              cc_resultMask := (if ft_size rt > 4 then NOT 0 else 0xffffffff)\<rparr>);
              (r, w4) \<leftarrow> ctx_params ctx 0 paramArray 0 (ret_fast (ft_type rt))
                          (write_ctx ctx c2 (write_ints offs (replicate n 0) w3));
              ctx_finish fuel ctx returnType fixedParamCount paramCount flags r w4
            }
          }
        }
      })"

section \<open>The other entry points\<close>

definition freeCallContext :: "jlong \<Rightarrow> 'a ctx_world_scheme \<Rightarrow> 'a ctx_world_scheme option" where
  "freeCallContext handle w =
     (let ctx = j2p handle in
      if ctx \<noteq> NULL then do {
        c \<leftarrow> ctxs w ctx;
        w1 \<leftarrow> (if cc_rawParamOffsets c \<noteq> NULL then free_ints (cc_rawParamOffsets c) w else Some w);
        w2 \<leftarrow> (if cc_ffiParamTypes c \<noteq> NULL then free_ptrs (cc_ffiParamTypes c) w1 else Some w1);
        free_ctx ctx w2
      } else Some w)"

definition getCallContextRawParameterSize :: "jlong \<Rightarrow> 'a ctx_world_scheme \<Rightarrow> jint option" where
  "getCallContextRawParameterSize handle w = map_option cc_rawParameterSize (ctxs w (j2p handle))"

definition setCallContextErrorFunction ::
  "jlong \<Rightarrow> jlong \<Rightarrow> 'a ctx_world_scheme \<Rightarrow> 'a ctx_world_scheme option" where
  "setCallContextErrorFunction handle fn w =
     map_option (\<lambda>c. write_ctx (j2p handle) (c\<lparr>cc_error_fn := j2p fn\<rparr>) w) (ctxs w (j2p handle))"

section \<open>Frame lemmas\<close>

lemma ctx_updates [simp]:
  "ctxs (write_ctx p c w) = (ctxs w)(p \<mapsto> c)" "ints (write_ctx p c w) = ints w"
  "types (write_ctx p c w) = types w" "ptrs (write_ctx p c w) = ptrs w" "live (write_ctx p c w) = live w"
  "script (write_ctx p c w) = script w" "pending (write_ctx p c w) = pending w" "symbol (write_ctx p c w) = symbol w"
  "ints (write_ints q xs w) = (ints w)(q \<mapsto> xs)" "ctxs (write_ints q xs w) = ctxs w"
  "types (write_ints q xs w) = types w" "ptrs (write_ints q xs w) = ptrs w" "live (write_ints q xs w) = live w"
  "script (write_ints q xs w) = script w" "pending (write_ints q xs w) = pending w" "symbol (write_ints q xs w) = symbol w"
  "ctxs (write_ptrs q ps w) = ctxs w" "ints (write_ptrs q ps w) = ints w"
  by (simp_all add: write_ctx_def write_ints_def write_ptrs_def)

lemma throw_ctx_frame [simp]:
  "ctxs (throwException e f a w) = ctxs w"
  "ints (throwException e f a w) = ints w"
  by (simp_all add: throwException_def throwExceptionByName_def Let_def)

lemma heap_ok_writes [simp]:
  "heap_ok (write_ctx p c w) = heap_ok w" "heap_ok (write_ints q xs w) = heap_ok w"
  "heap_ok (write_ptrs q ps w2) = heap_ok w2"
  by (simp_all add: heap_ok_def)

lemma calloc_ctx_frame:
  assumes "calloc k n w = Some (p, w')"
  shows "ctxs w' = ctxs w" "ints w' = ints w" "types w' = types w" "ptrs w' = ptrs w" "symbol w' = symbol w"
    "pending w' = pending w"
  using calloc_frame [OF assms] by auto

text \<open>The parameter loop touches nothing but its two arrays, and raises when it stops early.\<close>

lemma ctx_params_frame:
  assumes "ctx_params ctx i ps off fast w = Some (r, w')"
  shows "live w' = live w \<and> script w' = script w \<and> ctxs w' = ctxs w \<and> types w' = types w \<and> symbol w' = symbol w
     \<and> (r = None \<longrightarrow> raised w')"
  using assms
proof (induction ctx i ps off fast w rule: ctx_params.induct)
  case (2 ctx i p ps off fast w)
  show ?case
  proof (cases "j2p p = NULL")
    case True
    with 2(2) show ?thesis by auto
  next
    case False
    with 2(2) obtain c w1 w2 t where s: "ctxs w ctx = Some c" "store_ptr (cc_ffiParamTypes c) i (j2p p) w = Some w1"
      "store_int (cc_rawParamOffsets c) i off w1 = Some w2" "types w2 (j2p p) = Some t"
      and rec: "ctx_params ctx (Suc i) ps (off + FFI_ALIGN_int (ucast (ft_size t)) FFI_SIZEOF_ARG)
                  (param_fast (ft_type t) fast) w2 = Some (r, w')"
      by (auto split: bind_splits)
    have "live w2 = live w \<and> script w2 = script w \<and> ctxs w2 = ctxs w \<and> types w2 = types w \<and> symbol w2 = symbol w"
      using s(2,3) by (auto simp: store_ptr_def store_int_def split: option.splits if_splits)
    with 2(1) [OF False s rec] show ?thesis by simp
  qed
qed auto

lemma types_only_ctx:
  fixes w w' :: "'a ctx_world_scheme"
  assumes "types_only w w'"
  shows "live w' = live w \<and> script w' = script w \<and> ctxs w' = ctxs w \<and> ints w' = ints w
     \<and> ptrs w' = ptrs w \<and> symbol w' = symbol w \<and> pending w' = pending w"
proof -
  obtain T where "w' = w\<lparr>types := T\<rparr>" using assms unfolding types_only_def by blast
  then show ?thesis by simp
qed

section \<open>Resources\<close>

text \<open>A context and its two arrays, freshly allocated between \<open>w\<close> and \<open>w'\<close>.\<close>

definition context_at :: "jlong \<Rightarrow> addr \<Rightarrow> addr \<Rightarrow> 'a ctx_world_scheme \<Rightarrow> 'a ctx_world_scheme \<Rightarrow> bool" where
  "context_at h pts offs w w' \<longleftrightarrow> h \<noteq> 0 \<and> distinct [j2p h, pts, offs] \<and> NULL \<notin> {pts, offs}
     \<and> {j2p h, pts, offs} \<inter> blocks w = {} \<and> blocks w' = {j2p h, pts, offs} \<union> blocks w
     \<and> (\<exists>c. ctxs w' (j2p h) = Some c \<and> cc_ffiParamTypes c = pts \<and> cc_rawParamOffsets c = offs)"

abbreviation context_outcome :: "jlong \<Rightarrow> 'a ctx_world_scheme \<Rightarrow> 'a ctx_world_scheme \<Rightarrow> bool" where
  "context_outcome h w w' \<equiv>
     h = 0 \<and> blocks w' = blocks w \<and> raised w' \<or> (\<exists>pts offs. context_at h pts offs w w')"

lemma free_keeps:
  "free_ints p w = Some w' \<Longrightarrow> ctxs w' = ctxs w \<and> pending w' = pending w \<and> blocks w' = blocks w - ({p} - {NULL})"
  "free_ptrs p w = Some w' \<Longrightarrow> ctxs w' = ctxs w \<and> pending w' = pending w \<and> blocks w' = blocks w - ({p} - {NULL})"
  "free_ctx p w = Some w' \<Longrightarrow> pending w' = pending w \<and> blocks w' = blocks w - ({p} - {NULL})"
  by (auto simp: free_ints_def free_ptrs_def free_ctx_def free_def split: if_splits)

lemma free_defined:
  "p \<in> blocks w \<Longrightarrow> free_ints p w \<noteq> None" "p \<in> blocks w \<Longrightarrow> free_ptrs p w \<noteq> None"
  "p \<in> blocks w \<Longrightarrow> free_ctx p w \<noteq> None"
  by (auto simp: free_ints_def free_ptrs_def free_ctx_def free_def)

text \<open>Releasing a context: the arrays it names, unless they are NULL, and itself.\<close>

lemma freeCallContext_effect:
  assumes "ctxs w (j2p h) = Some c" "h \<noteq> 0" "j2p h \<in> blocks w" "NULL \<notin> blocks w"
    and "cc_ffiParamTypes c \<noteq> j2p h" "cc_rawParamOffsets c \<noteq> j2p h"
    and "cc_rawParamOffsets c \<noteq> NULL \<longrightarrow> cc_rawParamOffsets c \<in> blocks w \<and> cc_rawParamOffsets c \<noteq> cc_ffiParamTypes c"
    and "cc_ffiParamTypes c \<noteq> NULL \<longrightarrow> cc_ffiParamTypes c \<in> blocks w"
  shows "\<exists>w'. freeCallContext h w = Some w' \<and> pending w' = pending w
     \<and> blocks w' = blocks w - {j2p h, cc_ffiParamTypes c, cc_rawParamOffsets c}"
proof -
  let ?o = "cc_rawParamOffsets c" and ?p = "cc_ffiParamTypes c"
  obtain w1 where w1: "(if ?o \<noteq> NULL then free_ints ?o w else Some w) = Some w1"
    "blocks w1 = blocks w - {?o}" "pending w1 = pending w"
  proof (cases "?o = NULL")
    case True
    then show thesis using that assms(4) by simp
  next
    case False
    then obtain w1 where "free_ints ?o w = Some w1" using free_defined(1) assms(7) by blast
    with False free_keeps(1) [OF this] show thesis using that by simp
  qed
  obtain w2 where w2: "(if ?p \<noteq> NULL then free_ptrs ?p w1 else Some w1) = Some w2"
    "blocks w2 = blocks w1 - {?p}" "pending w2 = pending w1"
  proof (cases "?p = NULL")
    case True
    then show thesis using that assms(4) w1(2) by simp
  next
    case False
    then have "?p \<in> blocks w1" using assms(7,8) w1(2) by auto
    then obtain w2 where "free_ptrs ?p w1 = Some w2" using free_defined(2) by blast
    with False free_keeps(2) [OF this] show thesis using that by simp
  qed
  have "j2p h \<in> blocks w2" using assms(3,5,6) w1(2) w2(2) by auto
  then obtain w3 where w3: "free_ctx (j2p h) w2 = Some w3" using free_defined(3) by blast
  with free_keeps(3) [OF w3] w1 w2 assms(1,2) show ?thesis
    by (auto simp: freeCallContext_def Let_def)
qed

lemma ctx_cleanup_free:
  "ctx_cleanup ctx w = (if ctx = NULL then Some (0, w) else map_option (\<lambda>w. (0, w)) (freeCallContext (p2j ctx) w))"
proof -
  have pull: "map_option f (x \<bind> g) = x \<bind> (\<lambda>y. map_option f (g y))" for x :: "'x option" and g :: "'x \<Rightarrow> 'y option" and f :: "'y \<Rightarrow> 'z"
    by (cases x) auto
  have last: "x \<bind> (\<lambda>y. Some (f y)) = map_option f x" for x :: "'x option" and f :: "'x \<Rightarrow> 'y"
    by (cases x) auto
  show ?thesis by (simp add: ctx_cleanup_def freeCallContext_def Let_def pull last)
qed

lemma ctx_cleanup_effect:
  assumes "ctxs w s = Some c" "s \<noteq> NULL" "s \<in> blocks w" "NULL \<notin> blocks w"
    and "cc_ffiParamTypes c \<noteq> s" "cc_rawParamOffsets c \<noteq> s"
    and "cc_rawParamOffsets c \<noteq> NULL \<longrightarrow> cc_rawParamOffsets c \<in> blocks w \<and> cc_rawParamOffsets c \<noteq> cc_ffiParamTypes c"
    and "cc_ffiParamTypes c \<noteq> NULL \<longrightarrow> cc_ffiParamTypes c \<in> blocks w"
  shows "\<exists>w'. ctx_cleanup s w = Some (0, w') \<and> pending w' = pending w
     \<and> blocks w' = blocks w - {s, cc_ffiParamTypes c, cc_rawParamOffsets c}"
  using freeCallContext_effect [of w "p2j s" c] assms by (auto simp: ctx_cleanup_free)

lemma context_released:
  assumes "context_at h pts offs w w'" and "NULL \<notin> blocks w"
  shows "\<exists>w''. freeCallContext h w' = Some w'' \<and> blocks w'' = blocks w"
proof -
  from assms(1) obtain c where c: "ctxs w' (j2p h) = Some c" "cc_ffiParamTypes c = pts" "cc_rawParamOffsets c = offs"
    and b: "blocks w' = {j2p h, pts, offs} \<union> blocks w" and ne: "h \<noteq> 0" "pts \<noteq> NULL" "offs \<noteq> NULL"
    and d: "j2p h \<noteq> pts" "j2p h \<noteq> offs" "pts \<noteq> offs" "{j2p h, pts, offs} \<inter> blocks w = {}"
    unfolding context_at_def by auto
  have "\<exists>w''. freeCallContext h w' = Some w'' \<and> pending w'' = pending w'
     \<and> blocks w'' = blocks w' - {j2p h, cc_ffiParamTypes c, cc_rawParamOffsets c}"
    using c b ne d assms(2) by (intro freeCallContext_effect) auto
  moreover have "blocks w' - {j2p h, pts, offs} = blocks w" using b d(4) by blast
  ultimately show ?thesis using c by auto
qed

lemma prep_context_frame:
  assumes "prep_context fuel ctx rt fixed n w = Some (st, w')" "ctxs w ctx = Some c"
  shows "\<exists>cif. ctxs w' = (ctxs w)(ctx \<mapsto> c\<lparr>cc_cif := cif\<rparr>) \<and> live w' = live w \<and> pending w' = pending w
     \<and> ptrs w' = ptrs w \<and> ints w' = ints w"
proof -
  from assms obtain st' cif w1 where p:
    "(if fixed = n then ffi_prep_cif fuel (cc_cif c) FFI_DEFAULT_ABI n (j2p rt) (cc_ffiParamTypes c) w
      else ffi_prep_cif_var fuel (cc_cif c) FFI_DEFAULT_ABI fixed n (j2p rt) (cc_ffiParamTypes c) w)
       = Some ((st', cif), w1)" and w': "w' = write_ctx ctx (c\<lparr>cc_cif := cif\<rparr>) w1"
    by (auto simp: prep_context_def split: bind_splits)
  have "types_only w w1" using p by (auto split: if_splits dest: prep_frame)
  with types_only_ctx [OF this] w' show ?thesis by auto
qed

lemma ctx_finish_outcome:
  assumes run: "ctx_finish fuel s rt fixed n flags r w4 = Some (h, w')"
    and c: "ctxs w4 s = Some c" "cc_ffiParamTypes c = pts" "cc_rawParamOffsets c = offs"
    and d: "distinct [s, pts, offs]" "NULL \<notin> {s, pts, offs}" "{s, pts, offs} \<inter> blocks w = {}"
    and b: "blocks w4 = {s, pts, offs} \<union> blocks w" "NULL \<notin> blocks w"
    and r: "r = None \<longrightarrow> raised w4"
  shows "h = 0 \<and> blocks w' = blocks w \<and> raised w' \<or> context_at h pts offs w w'"
proof -
  have clean: "h = 0 \<and> blocks w' = blocks w \<and> raised w'"
    if "ctx_cleanup s v = Some (h, w')" "ctxs v s = Some c'" "cc_ffiParamTypes c' = pts" "cc_rawParamOffsets c' = offs"
      "blocks v = {s, pts, offs} \<union> blocks w" "raised v" for v c'
  proof -
    have "\<exists>w'. ctx_cleanup s v = Some (0, w') \<and> pending w' = pending v
       \<and> blocks w' = blocks v - {s, cc_ffiParamTypes c', cc_rawParamOffsets c'}"
      using that d b(2) by (intro ctx_cleanup_effect) auto
    moreover have "blocks v - {s, pts, offs} = blocks w" using that(5) d(3) by blast
    ultimately show ?thesis using that by auto
  qed
  show ?thesis
  proof (cases r)
    case None
    with run have "ctx_cleanup s w4 = Some (h, w')" by (simp add: ctx_finish_def)
    with clean [OF this c b(1)] None r show ?thesis by simp
  next
    case (Some q)
    obtain off fast where q: "q = (off, fast)" by (cases q)
    from run Some q obtain st w5 where p: "prep_context fuel s rt fixed n w4 = Some (st, w5)"
      by (auto simp: ctx_finish_def split: bind_splits)
    from prep_context_frame [OF p c(1)] obtain cif where
      f: "ctxs w5 s = Some (c\<lparr>cc_cif := cif\<rparr>)" "live w5 = live w4" by auto
    have bw: "blocks (throwException ex msg [] w5) = {s, pts, offs} \<union> blocks w" for ex msg
      using f(2) b(1) by simp
    have e: "h = 0 \<and> blocks w' = blocks w \<and> raised w'"
      if "ctx_cleanup s (throwException ex msg [] w5) = Some (h, w')" for ex msg
      using clean [OF that _ _ _ bw throw_raises, of "c\<lparr>cc_cif := cif\<rparr>"] f(1) c by simp
    show ?thesis
    proof (cases "st = FFI_OK")
      case True
      with run Some q p f have w': "h = p2j s"
        "w' = write_ctx s (c\<lparr>cc_cif := cif, cc_rawParameterSize := off, cc_flags := ctx_flags flags fast\<rparr>) w5"
        by (auto simp: ctx_finish_def)
      have "blocks w' = {s, pts, offs} \<union> blocks w" using w'(2) f(2) b(1) by simp
      with w' c d show ?thesis by (simp add: context_at_def)
    next
      case False
      with run Some q p e show ?thesis by (cases st) (auto simp: ctx_finish_def)
    qed
  qed
qed

lemma newCallContext_outcome:
  assumes ok: "heap_ok w" and run: "newCallContext fuel rt ps flags w = Some (h, w')"
  shows "context_outcome h w w'"
proof -
  let ?n = "of_nat (length ps) :: jint"
  let ?slots = "scast (if sint ?n < 1 then 1 else ?n) :: size_t"
  let ?m = "max 1 (length ps)"
  note nn = zeroing.null_not_held
  obtain s w1 where c1: "calloc 1 80 w = Some (s, w1)" using calloc_total by blast
  have ok1: "heap_ok w1" using zeroing.request_ok [OF ok c1] .
  show ?thesis
  proof (cases "s = NULL")
    case True
    then have "live w1 = live w" using c1 by (auto elim: calloc_cases)
    with run c1 True show ?thesis by (auto simp: newCallContext_def Let_def ctx_cleanup_def)
  next
    case s: False
    note b1 = zeroing.request_fresh [OF ok c1 s]
    let ?w1 = "write_ctx s zero_ctx w1"
    obtain pts w2 where c2: "calloc ?slots 8 ?w1 = Some (pts, w2)" using calloc_total by blast
    have ok1': "heap_ok ?w1" using ok1 by simp
    have ok2: "heap_ok w2" using zeroing.request_ok [OF ok1' c2] .
    note f2 = calloc_ctx_frame [OF c2]
    show ?thesis
    proof (cases "pts = NULL")
      case True
      let ?v = "throwException OutOfMemory ''Failed to allocate CallContext#ffiParamTypes'' [] w2"
      have b2: "blocks w2 = insert s (blocks w)" using zeroing.request_fail [OF ok1'] c2 True b1 by simp
      have "ctx_cleanup s ?v = Some (h, w')"
        using run c1 c2 s True by (simp add: newCallContext_def Let_def)
      moreover have "\<exists>w'. ctx_cleanup s ?v = Some (0, w') \<and> pending w' = pending ?v
         \<and> blocks w' = blocks ?v - {s, cc_ffiParamTypes zero_ctx, cc_rawParamOffsets zero_ctx}"
        using f2(1) s b2 nn [OF ok2] by (intro ctx_cleanup_effect) (simp_all add: zero_ctx_def)
      ultimately show ?thesis using b1 b2 nn [OF ok2] by (auto simp: zero_ctx_def)
    next
      case pts: False
      note b2 = zeroing.request_fresh [OF ok1' c2 pts]
      let ?c1 = "zero_ctx\<lparr>cc_ffiParamTypes := pts\<rparr>"
      let ?w2 = "write_ctx s ?c1 (write_ptrs pts (replicate ?m NULL) w2)"
      obtain offs w3 where c3: "calloc ?slots 4 ?w2 = Some (offs, w3)" using calloc_total by blast
      have ok2': "heap_ok ?w2" using ok2 by simp
      have ok3: "heap_ok w3" using zeroing.request_ok [OF ok2' c3] .
      note f3 = calloc_ctx_frame [OF c3]
      show ?thesis
      proof (cases "offs = NULL")
        case True
        let ?v = "throwException OutOfMemory ''Failed to allocate CallContext#rawParamOffsets'' [] w3"
        have b3: "blocks w3 = {s, pts} \<union> blocks w"
          using zeroing.request_fail [OF ok2'] c3 True b1 b2 by auto
        have "ctx_cleanup s ?v = Some (h, w')"
          using run c1 c2 c3 s pts True by (simp add: newCallContext_def Let_def)
        moreover have "\<exists>w'. ctx_cleanup s ?v = Some (0, w') \<and> pending w' = pending ?v
           \<and> blocks w' = blocks ?v - {s, cc_ffiParamTypes ?c1, cc_rawParamOffsets ?c1}"
          using f3(1) s pts b1 b2 b3 nn [OF ok3] by (intro ctx_cleanup_effect) (auto simp: zero_ctx_def)
        ultimately show ?thesis using b1 b2 b3 nn [OF ok3] by (auto simp: zero_ctx_def)
      next
        case offs: False
        note b3 = zeroing.request_fresh [OF ok2' c3 offs]
        let ?c2 = "\<lambda>t. ?c1\<lparr>cc_rawParamOffsets := offs, cc_resultMask := (if ft_size t > 4 then NOT 0 else 0xffffffff)\<rparr>"
        let ?w3 = "\<lambda>t. write_ctx s (?c2 t) (write_ints offs (replicate ?m 0) w3)"
        from run c1 c2 c3 s pts offs obtain t r w4 where t: "types w3 (j2p rt) = Some t"
          and pr: "ctx_params s 0 ps 0 (ret_fast (ft_type t)) (?w3 t) = Some (r, w4)"
          and fin: "ctx_finish fuel s rt (signed_drop_bit 16 flags) ?n flags r w4 = Some (h, w')"
          by (auto simp: newCallContext_def Let_def split: bind_splits)
        note f4 = ctx_params_frame [OF pr]
        have bw: "blocks w4 = {s, pts, offs} \<union> blocks w" using f4 b1 b2 b3 by auto
        have "h = 0 \<and> blocks w' = blocks w \<and> raised w' \<or> context_at h pts offs w w'"
          using f4 bw b1 b2 b3 s pts offs nn [OF ok]
          by (intro ctx_finish_outcome [OF fin, where c = "?c2 t"]) auto
        then show ?thesis by blast
      qed
    qed
  qed
qed

interpretation call_context: handle_constructor "newCallContext fuel rt ps flags" freeCallContext heap_ok
proof
  fix w w' :: "'a ctx_world_scheme" and h
  assume ok: "heap_ok w" and run: "newCallContext fuel rt ps flags w = Some (h, w')"
  note out = newCallContext_outcome [OF ok run]
  show "h \<noteq> 0 \<Longrightarrow> \<exists>w''. freeCallContext h w' = Some w'' \<and> blocks w'' = blocks w"
    using out context_released zeroing.null_not_held [OF ok] by blast
  show "blocks w \<subset> blocks w'" if "h \<noteq> 0"
  proof -
    from out that have "j2p h \<notin> blocks w \<and> j2p h \<in> blocks w' \<and> blocks w \<subseteq> blocks w'"
      by (auto simp only: context_at_def)
    then show ?thesis by blast
  qed
next
  fix w w' :: "'a ctx_world_scheme"
  assume ok: "heap_ok w" and run: "newCallContext fuel rt ps flags w = Some (0, w')"
  from newCallContext_outcome [OF ok run] show "blocks w' = blocks w \<and> raised w'"
    by (simp add: context_at_def)
qed

section \<open>The parameter slots\<close>

text \<open>Each parameter takes its size rounded up to \<open>FFI_SIZEOF_ARG\<close> in the packed buffer.\<close>

definition slot_size :: "'a ctx_world_scheme \<Rightarrow> jlong \<Rightarrow> nat" where
  "slot_size w p = align_up (unat (ft_size (descr w p))) 8"

definition slot_offset :: "'a ctx_world_scheme \<Rightarrow> jlong list \<Rightarrow> nat \<Rightarrow> nat" where
  "slot_offset w ps i = sum_list (map (slot_size w) (take i ps))"

lemma unat_FFI_ALIGN_int:
  assumes "unat z + 8 < 2 ^ 31"
  shows "unat (FFI_ALIGN_int (ucast (z :: size_t)) 8) = align_up (unat z) 8"
proof -
  have z: "z = of_nat (unat z)" by simp
  have s: "(scast (ucast z :: 32 word) :: 64 word) = z"
    using assms scast_of_nat32 [of "unat z"] by simp
  have seven: "(scast ((8::32 word) - 1) :: 64 word) = 2 ^ 3 - 1" by simp
  have f: "FFI_ALIGN_int (ucast z) 8 = ucast (FFI_ALIGN z (2 ^ 3))"
    unfolding FFI_ALIGN_int_def s seven FFI_ALIGN_def ..
  have u: "unat (FFI_ALIGN z (2 ^ 3)) = align_up (unat z) (2 ^ 3)"
    using assms by (intro unat_FFI_ALIGN) simp_all
  have "align_up (unat z) 8 < unat z + 8" by (rule align_up_less) simp
  then have "unat (FFI_ALIGN z (2 ^ 3)) < 2 ^ 32" using u assms by simp
  then show ?thesis unfolding f using u by (simp add: unsigned_ucast_eq take_bit_nat_eq_self)
qed

text \<open>The parameter loop, run on valid types: the final offset, the flags and the two arrays.\<close>

fun param_offsets :: "ffi_type list \<Rightarrow> jint \<Rightarrow> jint list" where
  "param_offsets [] off = []"
| "param_offsets (t # ts) off = off # param_offsets ts (off + FFI_ALIGN_int (ucast (ft_size t)) 8)"

fun param_end :: "ffi_type list \<Rightarrow> jint \<Rightarrow> jint" where
  "param_end [] off = off"
| "param_end (t # ts) off = param_end ts (off + FFI_ALIGN_int (ucast (ft_size t)) 8)"

lemma length_param_offsets [simp]: "length (param_offsets ts off) = length ts"
  by (induction ts off rule: param_offsets.induct) auto

lemma write_ints_ptrs [simp]:
  "write_ints q xs (write_ints q ys w) = write_ints q xs w"
  "write_ptrs e ps (write_ints q xs w) = write_ints q xs (write_ptrs e ps w)"
  by (simp_all add: write_ints_def write_ptrs_def)

lemma ctx_params_valid:
  assumes "ctx_params s i ps off fast w = Some (Some (off', fast'), w')"
    and "ctxs w s = Some c" "ptrs w (cc_ffiParamTypes c) = Some xs" "ints w (cc_rawParamOffsets c) = Some ys"
    and "i + length ps \<le> length xs" "i + length ps \<le> length ys"
  shows "off' = param_end (map (descr w) ps) off
     \<and> fast' = fold (\<lambda>p f. param_fast (ft_type (descr w p)) f) ps fast
     \<and> (\<forall>p \<in> set ps. j2p p \<noteq> NULL \<and> types w (j2p p) = Some (descr w p))
     \<and> ptrs w' (cc_ffiParamTypes c) = Some (take i xs @ map j2p ps @ drop (i + length ps) xs)
     \<and> ints w' (cc_rawParamOffsets c) = Some (take i ys @ param_offsets (map (descr w) ps) off @ drop (i + length ps) ys)"
  using assms
proof (induction ps arbitrary: i off fast w xs ys)
  case Nil
  then show ?case by simp
next
  case (Cons p ps)
  have nz: "j2p p \<noteq> NULL" using Cons.prems(1) by (auto split: if_splits)
  let ?xs = "xs[i := j2p p]" and ?ys = "ys[i := off]"
  let ?w = "write_ints (cc_rawParamOffsets c) ?ys (write_ptrs (cc_ffiParamTypes c) ?xs w)"
  from Cons.prems nz obtain t where t: "types w (j2p p) = Some t"
    and run: "ctx_params s (Suc i) ps (off + FFI_ALIGN_int (ucast (ft_size t)) 8) (param_fast (ft_type t) fast) ?w
       = Some (Some (off', fast'), w')"
    by (auto simp: store_ptr_def store_int_def split: bind_splits)
  have d: "descr ?w = descr w" "descr w p = t" using t by (auto simp: descr_def fun_eq_iff)
  have IH: "off' = param_end (map (descr ?w) ps) (off + FFI_ALIGN_int (ucast (ft_size t)) 8)
     \<and> fast' = fold (\<lambda>p f. param_fast (ft_type (descr ?w p)) f) ps (param_fast (ft_type t) fast)
     \<and> (\<forall>p \<in> set ps. j2p p \<noteq> NULL \<and> types ?w (j2p p) = Some (descr ?w p))
     \<and> ptrs w' (cc_ffiParamTypes c) = Some (take (Suc i) ?xs @ map j2p ps @ drop (Suc i + length ps) ?xs)
     \<and> ints w' (cc_rawParamOffsets c) = Some (take (Suc i) ?ys
           @ param_offsets (map (descr ?w) ps) (off + FFI_ALIGN_int (ucast (ft_size t)) 8) @ drop (Suc i + length ps) ?ys)"
    by (rule Cons.IH [OF run]) (use Cons.prems in simp_all)
  then show ?case
    using Cons.prems(5,6) nz t unfolding d by (simp add: d(2) take_Suc_conv_app_nth)
qed

lemma param_offsets_layout:
  assumes "unat off + (\<Sum>t\<leftarrow>ts. align_up (unat (ft_size t)) 8) + 16 < 2 ^ 31"
  shows "unat (param_end ts off) = unat off + (\<Sum>t\<leftarrow>ts. align_up (unat (ft_size t)) 8)
     \<and> (\<forall>i < length ts. unat (param_offsets ts off ! i) = unat off + (\<Sum>t\<leftarrow>take i ts. align_up (unat (ft_size t)) 8))"
  using assms
proof (induction ts arbitrary: off)
  case (Cons t ts)
  let ?a = "align_up (unat (ft_size t)) 8"
  have "unat (ft_size t) \<le> ?a" by (rule align_up_ge) simp
  then have a: "unat (FFI_ALIGN_int (ucast (ft_size t)) 8) = ?a"
    using Cons.prems by (intro unat_FFI_ALIGN_int) simp
  let ?off = "off + FFI_ALIGN_int (ucast (ft_size t)) 8"
  have o: "unat ?off = unat off + ?a" using Cons.prems a by (simp add: unat_word_ariths)
  have IH: "unat (param_end ts ?off) = unat ?off + (\<Sum>t\<leftarrow>ts. align_up (unat (ft_size t)) 8)
     \<and> (\<forall>i < length ts. unat (param_offsets ts ?off ! i) = unat ?off + (\<Sum>t\<leftarrow>take i ts. align_up (unat (ft_size t)) 8))"
    by (rule Cons.IH) (use Cons.prems o in simp)
  show ?case
  proof (intro conjI allI impI)
    show "unat (param_end (t # ts) off) = unat off + (\<Sum>t\<leftarrow>t # ts. align_up (unat (ft_size t)) 8)"
      using IH o by simp
    fix i assume i: "i < length (t # ts)"
    show "unat (param_offsets (t # ts) off ! i) = unat off + (\<Sum>t\<leftarrow>take i (t # ts). align_up (unat (ft_size t)) 8)"
      using IH o i by (cases i) simp_all
  qed
qed simp

lemma ctx_cleanup_zero: "ctx_cleanup s w = Some (h, w') \<Longrightarrow> h = 0"
  by (auto simp: ctx_cleanup_free split: if_splits)

text \<open>The road to a handle.\<close>

lemma newCallContext_steps:
  assumes ok: "heap_ok w" and run: "newCallContext fuel rt ps flags w = Some (h, w')" and h: "h \<noteq> 0"
  obtains (handle) s pts offs w3 t off fast w4 w5 c where "h = p2j s" "distinct [s, pts, offs]" "NULL \<notin> {s, pts, offs}"
    "types w3 = types w" "symbol w3 = symbol w" "pending w3 = pending w"
    "ctxs w3 = (ctxs w)(s \<mapsto> zero_ctx\<lparr>cc_ffiParamTypes := pts\<rparr>)" "ints w3 = ints w"
    "ptrs w3 = (ptrs w)(pts \<mapsto> replicate (max 1 (length ps)) NULL)"
    "types w (j2p rt) = Some t"
    "c = zero_ctx\<lparr>cc_ffiParamTypes := pts, cc_rawParamOffsets := offs,
           cc_resultMask := (if ft_size t > 4 then NOT 0 else 0xffffffff)\<rparr>"
    "ctx_params s 0 ps 0 (ret_fast (ft_type t))
       (write_ctx s c (write_ints offs (replicate (max 1 (length ps)) 0) w3)) = Some (Some (off, fast), w4)"
    "prep_context fuel s rt (signed_drop_bit 16 flags) (of_nat (length ps)) w4 = Some (FFI_OK, w5)"
    "\<exists>c5. ctxs w5 s = Some c5 \<and> w' = write_ctx s (c5\<lparr>cc_rawParameterSize := off, cc_flags := ctx_flags flags fast\<rparr>) w5"
proof -
  let ?n = "of_nat (length ps) :: jint"
  let ?slots = "scast (if sint ?n < 1 then 1 else ?n) :: size_t"
  let ?m = "max 1 (length ps)"
  obtain s w1 where c1: "calloc 1 80 w = Some (s, w1)" using calloc_total by blast
  have s: "s \<noteq> NULL" using run c1 h by (auto simp: newCallContext_def Let_def dest: ctx_cleanup_zero)
  note b1 = zeroing.request_fresh [OF ok c1 s]
  let ?w1 = "write_ctx s zero_ctx w1"
  have ok1: "heap_ok ?w1" using zeroing.request_ok [OF ok c1] by simp
  obtain pts w2 where c2: "calloc ?slots 8 ?w1 = Some (pts, w2)" using calloc_total by blast
  have pts: "pts \<noteq> NULL" using run c1 c2 s h by (auto simp: newCallContext_def Let_def dest: ctx_cleanup_zero)
  note b2 = zeroing.request_fresh [OF ok1 c2 pts]
  let ?c1 = "zero_ctx\<lparr>cc_ffiParamTypes := pts\<rparr>"
  let ?w2 = "write_ctx s ?c1 (write_ptrs pts (replicate ?m NULL) w2)"
  have ok2: "heap_ok ?w2" using zeroing.request_ok [OF ok1 c2] by simp
  obtain offs w3 where c3: "calloc ?slots 4 ?w2 = Some (offs, w3)" using calloc_total by blast
  have offs: "offs \<noteq> NULL" using run c1 c2 c3 s pts h by (auto simp: newCallContext_def Let_def dest: ctx_cleanup_zero)
  note b3 = zeroing.request_fresh [OF ok2 c3 offs]
  let ?c2 = "\<lambda>t. ?c1\<lparr>cc_rawParamOffsets := offs, cc_resultMask := (if ft_size t > 4 then NOT 0 else 0xffffffff)\<rparr>"
  from run c1 c2 c3 s pts offs obtain t r w4 where t: "types w3 (j2p rt) = Some t"
    and pr: "ctx_params s 0 ps 0 (ret_fast (ft_type t)) (write_ctx s (?c2 t) (write_ints offs (replicate ?m 0) w3)) = Some (r, w4)"
    and fin: "ctx_finish fuel s rt (signed_drop_bit 16 flags) ?n flags r w4 = Some (h, w')"
    by (auto simp: newCallContext_def Let_def split: bind_splits)
  from fin h obtain off fast where r: "r = Some (off, fast)"
    by (cases r) (auto simp: ctx_finish_def dest: ctx_cleanup_zero)
  with fin obtain st w5 where p: "prep_context fuel s rt (signed_drop_bit 16 flags) ?n w4 = Some (st, w5)"
    by (auto simp: ctx_finish_def split: bind_splits)
  from fin r p h have st: "st = FFI_OK" by (cases st) (auto simp: ctx_finish_def dest: ctx_cleanup_zero)
  from fin r p st have w': "h = p2j s"
    "\<exists>c5. ctxs w5 s = Some c5 \<and> w' = write_ctx s (c5\<lparr>cc_rawParameterSize := off, cc_flags := ctx_flags flags fast\<rparr>) w5"
    by (auto simp: ctx_finish_def split: bind_splits)
  note f = calloc_ctx_frame [OF c1] calloc_ctx_frame [OF c2] calloc_ctx_frame [OF c3]
  show thesis
    by (rule that [OF w'(1) _ _ _ _ _ _ _ _ _ refl pr [unfolded r] p [unfolded st] w'(2)])
       (use f b1 b2 b3 s pts offs t in auto)
qed

section \<open>newCallContext returns\<close>

lemma ctx_params_ptrs:
  "ctx_params s i ps off fast w = Some (r, w') \<Longrightarrow> ctxs w s = Some c \<Longrightarrow> q \<noteq> cc_ffiParamTypes c \<Longrightarrow> ptrs w' q = ptrs w q"
proof (induction s i ps off fast w rule: ctx_params.induct)
  case (2 s i p ps off fast w)
  show ?case
  proof (cases "j2p p = NULL")
    case True
    with 2(2) show ?thesis by auto
  next
    case False
    with 2(2,3) obtain w1 w2 t where st: "store_ptr (cc_ffiParamTypes c) i (j2p p) w = Some w1"
      "store_int (cc_rawParamOffsets c) i off w1 = Some w2" "types w2 (j2p p) = Some t"
      and rec: "ctx_params s (Suc i) ps (off + FFI_ALIGN_int (ucast (ft_size t)) FFI_SIZEOF_ARG)
                  (param_fast (ft_type t) fast) w2 = Some (r, w')"
      by (auto split: bind_splits)
    have "ctxs w2 = ctxs w" "ptrs w2 q = ptrs w q"
      using st(1,2) 2(4) by (auto simp: store_ptr_def store_int_def split: option.splits if_splits)
    with 2(1) [OF False 2(3) st rec] 2(3,4) show ?thesis by simp
  qed
qed auto

lemma ctx_params_defined:
  assumes "\<forall>p \<in> set ps. j2p p = NULL \<or> types w (j2p p) \<noteq> None"
    and "ctxs w s = Some c" "ptrs w (cc_ffiParamTypes c) = Some xs" "ints w (cc_rawParamOffsets c) = Some ys"
    and "i + length ps \<le> length xs" "i + length ps \<le> length ys"
  shows "ctx_params s i ps off fast w \<noteq> None"
  using assms
proof (induction ps arbitrary: i off fast w xs ys)
  case (Cons p ps)
  show ?case
  proof (cases "j2p p = NULL")
    case False
    with Cons.prems(1) obtain t where t: "types w (j2p p) = Some t" by auto
    let ?w = "write_ints (cc_rawParamOffsets c) (ys[i := off]) (write_ptrs (cc_ffiParamTypes c) (xs[i := j2p p]) w)"
    have "ctx_params s (Suc i) ps (off + FFI_ALIGN_int (ucast (ft_size t)) 8) (param_fast (ft_type t) fast) ?w \<noteq> None"
      by (rule Cons.IH [where xs = "xs[i := j2p p]" and ys = "ys[i := off]"]) (use Cons.prems in simp_all)
    with False t Cons.prems show ?thesis by (simp add: store_ptr_def store_int_def)
  qed simp
qed simp

lemma ctx_cleanup_defined:
  assumes "ctxs w s = Some c" "s \<noteq> NULL" "s \<in> blocks w" "NULL \<notin> blocks w"
    and "cc_ffiParamTypes c \<noteq> s" "cc_rawParamOffsets c \<noteq> s"
    and "cc_rawParamOffsets c \<noteq> NULL \<longrightarrow> cc_rawParamOffsets c \<in> blocks w \<and> cc_rawParamOffsets c \<noteq> cc_ffiParamTypes c"
    and "cc_ffiParamTypes c \<noteq> NULL \<longrightarrow> cc_ffiParamTypes c \<in> blocks w"
  shows "ctx_cleanup s w \<noteq> None"
  using ctx_cleanup_effect [OF assms] by auto

lemma read_ptrs_prefix: "ptrs w p = Some (xs @ ys) \<Longrightarrow> read_ptrs w p (length xs) = Some xs"
  by (simp add: read_ptrs_def)

lemma prep_context_defined:
  assumes "ctxs w s = Some c" "ptrs w (cc_ffiParamTypes c) = Some (map j2p ps @ rest)" "length ps < 2 ^ 31"
    and "returnable fuel w (j2p rt)" "\<forall>p \<in> set ps. passable fuel w (j2p p)"
  shows "prep_context fuel s rt fixed (of_nat (length ps)) w \<noteq> None"
proof -
  have n: "unat (of_nat (length ps) :: jint) = length ps" using assms(3) by (intro unat_of_nat32) simp
  have r: "read_ptrs w (cc_ffiParamTypes c) (unat (of_nat (length ps) :: jint)) = Some (map j2p ps)"
    unfolding n using read_ptrs_prefix [OF assms(2)] by simp
  have p: "\<forall>p \<in> set (map j2p ps). passable fuel w p" using assms(5) by simp
  have l: "unat (of_nat (length ps) :: jint) < 2 ^ 31" unfolding n by (rule assms(3))
  from prep_defined(1) [OF assms(4) r p l, of "cc_cif c"]
       prep_defined(2) [OF assms(4) r p l, of "cc_cif c" fixed] assms(1)
  show ?thesis by (auto simp: prep_context_def)
qed

lemma ctx_finish_defined:
  assumes prep: "r \<noteq> None \<Longrightarrow> prep_context fuel s rt fixed n w4 \<noteq> None"
    and c: "ctxs w4 s = Some c" "cc_ffiParamTypes c = pts" "cc_rawParamOffsets c = offs"
    and d: "distinct [s, pts, offs]" "NULL \<notin> {s, pts, offs}" "{s, pts, offs} \<subseteq> blocks w4" "NULL \<notin> blocks w4"
  shows "ctx_finish fuel s rt fixed n flags r w4 \<noteq> None"
proof (cases r)
  case None
  have "ctx_cleanup s w4 \<noteq> None" by (rule ctx_cleanup_defined [OF c(1)]) (use c d in auto)
  with None show ?thesis by (simp add: ctx_finish_def)
next
  case (Some q)
  obtain off fast where q: "q = (off, fast)" by (cases q)
  from prep Some obtain st w5 where p: "prep_context fuel s rt fixed n w4 = Some (st, w5)" by auto
  from prep_context_frame [OF p c(1)] obtain cif where
    f: "ctxs w5 s = Some (c\<lparr>cc_cif := cif\<rparr>)" "live w5 = live w4" by auto
  have "ctx_cleanup s (throwException ex msg [] w5) \<noteq> None" for ex msg
    by (rule ctx_cleanup_defined [where c = "c\<lparr>cc_cif := cif\<rparr>"]) (use f c d in auto)
  with Some q p f(1) show ?thesis by (cases st) (simp_all add: ctx_finish_def)
qed

lemma newCallContext_defined:
  assumes ok: "type_heap_ok w" and n: "length ps < 2 ^ 31"
    and ps: "\<forall>p \<in> set ps. j2p p = NULL \<or> passable fuel w (j2p p)"
    and rt: "returnable fuel w (j2p rt)"
  shows "newCallContext fuel rt ps flags w \<noteq> None"
proof -
  have hok: "heap_ok w" using ok by (simp add: type_heap_ok_def)
  let ?n = "of_nat (length ps) :: jint"
  let ?slots = "scast (if sint ?n < 1 then 1 else ?n) :: size_t"
  let ?m = "max 1 (length ps)"
  note nn = zeroing.null_not_held
  obtain s w1 where c1: "calloc 1 80 w = Some (s, w1)" using calloc_total by blast
  have ok1: "heap_ok w1" using zeroing.request_ok [OF hok c1] .
  show ?thesis
  proof (cases "s = NULL")
    case True
    with c1 show ?thesis by (simp add: newCallContext_def Let_def ctx_cleanup_def)
  next
    case s: False
    note b1 = zeroing.request_fresh [OF hok c1 s]
    let ?w1 = "write_ctx s zero_ctx w1"
    have ok1': "heap_ok ?w1" using ok1 by simp
    obtain pts w2 where c2: "calloc ?slots 8 ?w1 = Some (pts, w2)" using calloc_total by blast
    have ok2: "heap_ok w2" using zeroing.request_ok [OF ok1' c2] .
    note f2 = calloc_ctx_frame [OF c2]
    show ?thesis
    proof (cases "pts = NULL")
      case True
      have b2: "blocks w2 = insert s (blocks w)" using zeroing.request_fail [OF ok1'] c2 True b1 by simp
      have "ctx_cleanup s (throwException OutOfMemory ''Failed to allocate CallContext#ffiParamTypes'' [] w2) \<noteq> None"
        using f2(1) s b2 nn [OF ok2] by (intro ctx_cleanup_defined [where c = zero_ctx]) (simp_all add: zero_ctx_def)
      with c1 c2 s True show ?thesis by (simp add: newCallContext_def Let_def)
    next
      case pts: False
      note b2 = zeroing.request_fresh [OF ok1' c2 pts]
      let ?c1 = "zero_ctx\<lparr>cc_ffiParamTypes := pts\<rparr>"
      let ?w2 = "write_ctx s ?c1 (write_ptrs pts (replicate ?m NULL) w2)"
      obtain offs w3 where c3: "calloc ?slots 4 ?w2 = Some (offs, w3)" using calloc_total by blast
      have ok2': "heap_ok ?w2" using ok2 by simp
      have ok3: "heap_ok w3" using zeroing.request_ok [OF ok2' c3] .
      note f3 = calloc_ctx_frame [OF c3]
      show ?thesis
      proof (cases "offs = NULL")
        case True
        have b3: "blocks w3 = {s, pts} \<union> blocks w"
          using zeroing.request_fail [OF ok2'] c3 True b1 b2 by auto
        have "ctx_cleanup s (throwException OutOfMemory ''Failed to allocate CallContext#rawParamOffsets'' [] w3) \<noteq> None"
          using f3(1) s pts b1 b2 b3 nn [OF ok3] by (intro ctx_cleanup_defined) (auto simp: zero_ctx_def)
        with c1 c2 c3 s pts True show ?thesis by (simp add: newCallContext_def Let_def)
      next
        case offs: False
        note b3 = zeroing.request_fresh [OF ok2' c3 offs]
        note f1 = calloc_ctx_frame [OF c1]
        obtain t where t: "types w3 (j2p rt) = Some t" "types w (j2p rt) = Some t"
          using rt f1 f2 f3 by (auto simp: returnable_def)
        let ?c2 = "?c1\<lparr>cc_rawParamOffsets := offs, cc_resultMask := (if ft_size t > 4 then NOT 0 else 0xffffffff)\<rparr>"
        let ?w3 = "write_ctx s ?c2 (write_ints offs (replicate ?m 0) w3)"
        have "ctx_params s 0 ps 0 (ret_fast (ft_type t)) ?w3 \<noteq> None"
          by (rule ctx_params_defined [where c = ?c2])
             (use ps f1 f2 f3 in \<open>auto simp: passable_def\<close>)
        then obtain r w4 where pr: "ctx_params s 0 ps 0 (ret_fast (ft_type t)) ?w3 = Some (r, w4)" by auto
        note f4 = ctx_params_frame [OF pr]
        have bw: "blocks w4 = {s, pts, offs} \<union> blocks w" using f4 b1 b2 b3 by auto
        have "prep_context fuel s rt (signed_drop_bit 16 flags) ?n w4 \<noteq> None" if rn: "r \<noteq> None"
        proof -
          obtain q where q: "r = Some q" using rn by blast
          obtain off fast where "q = (off, fast)" by (cases q)
          with q have r: "r = Some (off, fast)" by simp
          have v: "(\<forall>p \<in> set ps. j2p p \<noteq> NULL)
             \<and> ptrs w4 pts = Some (map j2p ps @ drop (length ps) (replicate ?m NULL))"
            using ctx_params_valid [OF pr [unfolded r], of ?c2 "replicate ?m NULL" "replicate ?m 0"] f3 by simp
          have "pts \<in> set (script w)"
            using c1 c2 pts by (auto elim!: calloc_cases)
          then have "ptrs w pts = None" using ok pts by (auto simp: type_heap_ok_def)
          moreover have "q \<noteq> pts \<Longrightarrow> ptrs w4 q = ptrs w q" for q
            using ctx_params_ptrs [OF pr, of ?c2 q] f1 f2 f3 by simp
          moreover have "types w4 = types w" using f1 f2 f3 f4 by simp
          ultimately have m: "more_types w w4" by (auto simp: more_types_def map_le_def dom_def) (metis option.distinct(1))
          have c4: "ctxs w4 s = Some ?c2" using f4 by simp
          have p4: "ptrs w4 (cc_ffiParamTypes ?c2) = Some (map j2p ps @ drop (length ps) (replicate ?m NULL))"
            using v by simp
          have pp: "\<forall>p \<in> set ps. passable fuel w4 (j2p p)" using v ps passable_more [OF m] by blast
          show ?thesis by (rule prep_context_defined [OF c4 p4 n returnable_more [OF m rt] pp])
        qed
        then have "ctx_finish fuel s rt (signed_drop_bit 16 flags) ?n flags r w4 \<noteq> None"
          by (rule ctx_finish_defined [where c = ?c2 and pts = pts and offs = offs])
             (use f4 bw b1 b2 b3 s pts offs nn [OF hok] in auto)
        with c1 c2 c3 s pts offs t pr show ?thesis by (simp add: newCallContext_def Let_def)
      qed
    qed
  qed
qed

section \<open>The slots of a finished context\<close>

lemma slot_offset_Suc: "i < length ps \<Longrightarrow> slot_offset w ps (Suc i) = slot_offset w ps i + slot_size w (ps ! i)"
  by (simp add: slot_offset_def take_Suc_conv_app_nth)

lemma slot_offset_mono: "i \<le> j \<Longrightarrow> slot_offset w ps i \<le> slot_offset w ps j"
proof -
  assume "i \<le> j"
  then have "take j ps = take i ps @ take (j - i) (drop i ps)" by (metis le_add_diff_inverse take_add)
  then show ?thesis by (simp add: slot_offset_def)
qed

lemma slot_offset_all: "slot_offset w ps (length ps) = (\<Sum>p\<leftarrow>ps. slot_size w p)"
  by (simp add: slot_offset_def)

lemma slot_offset_dvd: "8 dvd slot_offset w ps i"
proof -
  have "8 dvd sum_list (map (slot_size w) qs)" for qs
    by (induction qs) (auto simp: slot_size_def)
  then show ?thesis by (simp add: slot_offset_def)
qed

lemma slot_size_ge: "unat (ft_size (descr w p)) \<le> slot_size w p"
  by (simp add: slot_size_def align_up_ge)

lemma slot_offset_before:
  "j < i \<Longrightarrow> i \<le> length ps \<Longrightarrow> slot_offset w ps j + unat (ft_size (descr w (ps ! j))) \<le> slot_offset w ps i"
  using slot_offset_Suc [of j ps w] slot_offset_mono [of "Suc j" i w ps] slot_size_ge [of w "ps ! j"] by simp

lemma param_slots:
  assumes "(\<Sum>p\<leftarrow>ps. slot_size w p) + 16 < 2 ^ 31"
  shows "unat (param_end (map (descr w) ps) 0) = (\<Sum>p\<leftarrow>ps. slot_size w p)"
    and "i < length ps \<Longrightarrow> unat (param_offsets (map (descr w) ps) 0 ! i) = slot_offset w ps i"
proof -
  have s: "(\<Sum>t\<leftarrow>map (descr w) ps. align_up (unat (ft_size t)) 8) = (\<Sum>p\<leftarrow>ps. slot_size w p)"
    by (simp add: slot_size_def o_def)
  have L: "unat (param_end (map (descr w) ps) 0) = unat (0 :: jint) + (\<Sum>t\<leftarrow>map (descr w) ps. align_up (unat (ft_size t)) 8)
     \<and> (\<forall>i < length (map (descr w) ps). unat (param_offsets (map (descr w) ps) 0 ! i)
          = unat (0 :: jint) + (\<Sum>t\<leftarrow>take i (map (descr w) ps). align_up (unat (ft_size t)) 8))"
    by (rule param_offsets_layout) (use assms in \<open>simp add: s [simplified]\<close>)
  then show "unat (param_end (map (descr w) ps) 0) = (\<Sum>p\<leftarrow>ps. slot_size w p)" unfolding s by simp
  show "unat (param_offsets (map (descr w) ps) 0 ! i) = slot_offset w ps i" if "i < length ps"
    using L that by (simp add: slot_offset_def slot_size_def [abs_def] take_map o_def)
qed

section \<open>Success\<close>

lemma ctx_params_not_stopped:
  "ctx_params s i ps off fast w = Some (r, w') \<Longrightarrow> \<forall>p \<in> set ps. j2p p \<noteq> NULL \<Longrightarrow> r \<noteq> None"
  by (induction s i ps off fast w rule: ctx_params.induct) (auto split: bind_splits)

lemma prep_ok:
  assumes "types w rt = Some t" "ft_size t \<noteq> 0" "ret_flags fuel w t = Some (Inr (g, fl))"
    and "read_ptrs w at (unat nt) = Some ps" "\<forall>p \<in> set ps. passable fuel w p" "unat nt < 2 ^ 31"
  obtains bytes g' ss where "machdep_args fuel w ps 0 g 0 = Some (bytes, g', ss)"
    "ffi_prep_cif fuel cif FFI_DEFAULT_ABI nt rt at w = Some ((FFI_OK,
       \<lparr>cif_abi = FFI_DEFAULT_ABI, cif_nargs = nt, cif_arg_types = at, cif_rtype = rt,
        cif_bytes = ucast (FFI_ALIGN bytes 8),
        cif_flags = (if ss \<noteq> 0 then fl OR UNIX64_FLAG_XMM_ARGS else fl)\<rparr>), w)"
proof -
  have n: "nat (sint nt) = unat nt" using assms(6) sint_of_nat32 [of "unat nt"] by simp
  from machdep_args_defined [OF assms(5)] obtain bytes g' ss
    where m: "machdep_args fuel w ps 0 g 0 = Some (bytes, g', ss)" by (metis not_None_eq prod_cases3)
  have "ffi_prep_cif_core fuel cif FFI_DEFAULT_ABI False nt nt rt at w =
     map_option (\<lambda>r. (r, w)) (ffi_prep_cif_machdep fuel
       (cif\<lparr>cif_abi := FFI_DEFAULT_ABI, cif_arg_types := at, cif_nargs := nt, cif_rtype := rt,
            cif_flags := 0, cif_bytes := 0\<rparr>) w)"
    by (rule prep_done) (use assms in \<open>auto simp: passable_def\<close>)
  then have "ffi_prep_cif fuel cif FFI_DEFAULT_ABI nt rt at w = Some ((FFI_OK,
       \<lparr>cif_abi = FFI_DEFAULT_ABI, cif_nargs = nt, cif_arg_types = at, cif_rtype = rt,
        cif_bytes = ucast (FFI_ALIGN bytes 8),
        cif_flags = (if ss \<noteq> 0 then fl OR UNIX64_FLAG_XMM_ARGS else fl)\<rparr>), w)"
    using assms(1,3,4) m n by (cases cif) (simp add: ffi_prep_cif_def ffi_prep_cif_machdep_def)
  with m show thesis by (rule that)
qed

text \<open>With memory for its three blocks and a valid, non-variadic signature, a context is built.\<close>

lemma newCallContext_succeeds:
  assumes ok: "type_heap_ok w" and n: "length ps < 2 ^ 15"
    and sc: "script w = s # pts # offs # sc" "NULL \<notin> {s, pts, offs}"
    and ps: "\<forall>p \<in> set ps. j2p p \<noteq> NULL \<and> passable fuel w (j2p p)"
    and t: "types w (j2p rt) = Some t" "ft_size t \<noteq> 0" "ret_flags fuel w t = Some (Inr q)"
    and fl: "signed_drop_bit 16 flags = of_nat (length ps)"
  shows "\<exists>w'. newCallContext fuel rt ps flags w = Some (p2j s, w')"
proof -
  have hok: "heap_ok w" using ok by (simp add: type_heap_ok_def)
  let ?n = "of_nat (length ps) :: jint"
  let ?slots = "scast (if sint ?n < 1 then 1 else ?n) :: size_t"
  let ?m = "max 1 (length ps)"
  have sint: "sint ?n = int (length ps)" using n by (intro sint_of_nat32) simp
  have slots: "?slots = of_nat ?m"
    using n by (cases "ps = []") (auto simp: sint max_def scast_of_nat32 not_le)
  have small: "unat ?slots * k < 2 ^ 64" if "k \<le> 8" for k
  proof -
    have "?m * k \<le> 2 ^ 15 * 8" using n that by (intro mult_le_mono) auto
    then show ?thesis using n unat_of_nat64 [of ?m] unfolding slots by simp
  qed
  define w1 where "w1 = w\<lparr>script := pts # offs # sc, live := (live w)(s \<mapsto> 80)\<rparr>"
  have c1: "calloc 1 80 w = Some (s, w1)" using sc by (simp add: calloc_def malloc_def w1_def)
  define w2 where "w2 = (write_ctx s zero_ctx w1)\<lparr>script := offs # sc, live := (live w1)(pts \<mapsto> ?slots * 8)\<rparr>"
  have c2: "calloc ?slots 8 (write_ctx s zero_ctx w1) = Some (pts, w2)"
    using sc small [of 8] by (simp add: calloc_def malloc_def w1_def w2_def)
  let ?c1 = "zero_ctx\<lparr>cc_ffiParamTypes := pts\<rparr>"
  let ?w2 = "write_ctx s ?c1 (write_ptrs pts (replicate ?m NULL) w2)"
  define w3 where "w3 = ?w2\<lparr>script := sc, live := (live ?w2)(offs \<mapsto> ?slots * 4)\<rparr>"
  have c3: "calloc ?slots 4 ?w2 = Some (offs, w3)"
    using sc small [of 4] by (simp add: calloc_def malloc_def w2_def w3_def)
  let ?c2 = "?c1\<lparr>cc_rawParamOffsets := offs, cc_resultMask := (if ft_size t > 4 then NOT 0 else 0xffffffff)\<rparr>"
  let ?w3 = "write_ctx s ?c2 (write_ints offs (replicate ?m 0) w3)"
  have ty: "types w3 = types w" by (simp add: w1_def w2_def w3_def)
  have pt: "ptrs w3 = (ptrs w)(pts \<mapsto> replicate ?m NULL)" by (simp add: w1_def w2_def w3_def)
  have "ctx_params s 0 ps 0 (ret_fast (ft_type t)) ?w3 \<noteq> None"
    by (rule ctx_params_defined [where c = ?c2]) (use ps ty pt in \<open>auto simp: passable_def\<close>)
  then obtain r w4 where pr: "ctx_params s 0 ps 0 (ret_fast (ft_type t)) ?w3 = Some (r, w4)" by auto
  have "r \<noteq> None" using ctx_params_not_stopped [OF pr] ps by blast
  then obtain off fast where r: "r = Some (off, fast)" by auto
  have v: "ptrs w4 pts = Some (map j2p ps @ drop (length ps) (replicate ?m NULL))"
    using ctx_params_valid [OF pr [unfolded r], of ?c2 "replicate ?m NULL" "replicate ?m 0"] pt by simp
  note f4 = ctx_params_frame [OF pr]
  have "ptrs w pts = None" using ok sc by (auto simp: type_heap_ok_def)
  moreover have "q \<noteq> pts \<Longrightarrow> ptrs w4 q = ptrs w q" for q
    using ctx_params_ptrs [OF pr, of ?c2 q] pt by simp
  moreover have "types w4 = types w" using f4 ty by simp
  ultimately have m: "more_types w w4" by (auto simp: more_types_def map_le_def dom_def) (metis option.distinct(1))
  have un: "unat ?n = length ps" using n by (intro unat_of_nat32) simp
  have rd: "read_ptrs w4 pts (unat ?n) = Some (map j2p ps)"
    unfolding un using read_ptrs_prefix [OF v] by simp
  have pass: "\<forall>p \<in> set (map j2p ps). passable fuel w4 p" using ps passable_more [OF m] by auto
  have lim: "unat ?n < 2 ^ 31" using un n by simp
  obtain g fl where q: "q = (g, fl)" by (cases q)
  have t4: "types w4 (j2p rt) = Some t" "ret_flags fuel w4 t = Some (Inr (g, fl))"
    using m t(1) ret_flags_more [OF m t(3)] q by (auto dest: more_typesD)
  obtain cif where pc: "ffi_prep_cif fuel (cc_cif ?c2) FFI_DEFAULT_ABI ?n (j2p rt) pts w4 = Some ((FFI_OK, cif), w4)"
    by (rule prep_ok [OF t4(1) t(2) t4(2) rd pass lim]) blast
  have c4: "ctxs w4 s = Some ?c2" using f4 by simp
  have prep: "prep_context fuel s rt (signed_drop_bit 16 flags) ?n w4
      = Some (FFI_OK, write_ctx s (?c2\<lparr>cc_cif := cif\<rparr>) w4)"
    using pc c4 \<open>signed_drop_bit 16 flags = ?n\<close> by (simp add: prep_context_def)
  have fin: "\<exists>w'. ctx_finish fuel s rt (signed_drop_bit 16 flags) ?n flags r w4 = Some (p2j s, w')"
    unfolding r ctx_finish_def by (simp add: prep)
  have "s \<noteq> NULL" "pts \<noteq> NULL" "offs \<noteq> NULL" "types w3 (j2p rt) = Some t" using sc ty t(1) by auto
  with c1 c2 c3 pr have "newCallContext fuel rt ps flags w = ctx_finish fuel s rt (signed_drop_bit 16 flags) ?n flags r w4"
    by (simp add: newCallContext_def Let_def)
  with fin show ?thesis by simp
qed

section \<open>The fast-call flags\<close>

lemma fold_param_fast:
  "fst (fold (\<lambda>p f. param_fast (code p) f) ps fast) \<longleftrightarrow> fst fast \<and> (\<forall>p \<in> set ps. is_int32_code (code p))"
  "snd (fold (\<lambda>p f. param_fast (code p) f) ps fast) \<longleftrightarrow>
     snd fast \<and> (\<forall>p \<in> set ps. is_int32_code (code p) \<or> is_int64_code (code p))"
  by (induction ps arbitrary: fast) (auto simp: param_fast_def)

lemma ret_fast_simps [simp]:
  "fst (ret_fast c) \<longleftrightarrow> is_int32_code c \<or> c = FFI_TYPE_VOID"
  "snd (ret_fast c) \<longleftrightarrow> is_int32_code c \<or> is_int64_code c \<or> c = FFI_TYPE_VOID"
  by (auto simp: ret_fast_def is_int32_code_def is_int64_code_def)

lemma ctx_flags_bits:
  "ctx_flags flags fast AND CALL_CTX_FAST_INT \<noteq> 0 \<longleftrightarrow> fst fast"
  "ctx_flags flags fast AND CALL_CTX_FAST_LONG \<noteq> 0 \<longleftrightarrow> snd fast"
  "ctx_flags flags fast AND CALL_CTX_SAVE_ERRNO \<noteq> 0 \<longleftrightarrow> flags AND F_NOERRNO = 0"
  "ctx_flags flags fast AND CALL_CTX_FAULT_PROT \<noteq> 0 \<longleftrightarrow> flags AND F_PROTECT \<noteq> 0"
  by (simp_all add: ctx_flags_def)

text \<open>An argument of integer class takes one integer register.\<close>

lemma examine_integer:
  assumes "is_int32_code c \<or> is_int64_code c" "ft_type t = c" "c \<noteq> FFI_TYPE_INT" "ft_size t \<le> 8"
  shows "\<exists>cl. examine_argument (Suc n) w t False = Some \<lparr>ex_n = 1, ex_classes = [cl], ex_ngpr = 1, ex_nsse = 0\<rparr>
     \<and> (cl = X86_64_INTEGER_CLASS \<or> cl = X86_64_INTEGERSI_CLASS)"
proof -
  have "is_integer_code c \<or> c = FFI_TYPE_POINTER"
    using assms(1,3) by (auto simp: is_int32_code_def is_int64_code_def is_integer_code_def)
  with assms(2,4) show ?thesis
    by (cases "ft_size t \<le> 4") (auto simp: examine_argument_def classify_argument.simps do_integer_def Let_def)
qed

lemma machdep_integers:
  assumes "\<forall>p \<in> set ps. \<exists>t. types w p = Some t \<and> (is_int32_code (ft_type t) \<or> is_int64_code (ft_type t))
      \<and> ft_type t \<noteq> FFI_TYPE_INT \<and> ft_size t \<le> 8"
    and "g + length ps \<le> 6" "s \<le> 8"
  shows "machdep_args (Suc n) w ps bytes g s = Some (bytes, g + length ps, s)"
  using assms
proof (induction ps arbitrary: g)
  case (Cons p ps)
  then obtain t where t: "types w p = Some t" "is_int32_code (ft_type t) \<or> is_int64_code (ft_type t)"
    "ft_type t \<noteq> FFI_TYPE_INT" "ft_size t \<le> 8" by auto
  from examine_integer [OF t(2) refl t(3,4), of n w] obtain cl where
    e: "examine_argument (Suc n) w t False = Some \<lparr>ex_n = 1, ex_classes = [cl], ex_ngpr = 1, ex_nsse = 0\<rparr>" by blast
  have "machdep_args (Suc n) w ps bytes (g + 1) s = Some (bytes, g + 1 + length ps, s)"
    by (rule Cons.IH) (use Cons.prems in auto)
  then show ?case using t(1) e Cons.prems(2,3) by (simp add: goes_on_stack_def)
qed simp

lemma ret_flags_integer:
  assumes "is_int32_code (ft_type t) \<or> is_int64_code (ft_type t) \<or> ft_type t = FFI_TYPE_VOID"
  shows "\<exists>fl. ret_flags n w t = Some (Inr (0, fl)) \<and> fl \<le> 7"
  using assms by (auto simp: is_int32_code_def is_int64_code_def ret_flags_def)

lemma prep_context_core:
  assumes "prep_context fuel s rt fixed n w = Some (FFI_OK, w')" "ctxs w s = Some c"
  shows "\<exists>cif v w1. ffi_prep_cif_core fuel (cc_cif c) FFI_DEFAULT_ABI v (if v then fixed else n) n (j2p rt)
       (cc_ffiParamTypes c) w = Some ((FFI_OK, cif), w1) \<and> ctxs w' s = Some (c\<lparr>cc_cif := cif\<rparr>)"
  using assms
  by (auto simp: prep_context_def ffi_prep_cif_def ffi_prep_cif_var_def split: if_splits bind_splits)
     (metis (full_types))+

section \<open>Properties\<close>

definition ctx_boot :: "addr list \<Rightarrow> ctx_world" where
  "ctx_boot sc = \<lparr>script = sc, live = Map.empty, find_class = (\<lambda>_. True), pending = None,
     types = image_types, ptrs = Map.empty, symbol = image_symbol,
     mem = Map.empty, stack_top = 0x7fff0000, garbage = (\<lambda>_. 0xCC), stale = (\<lambda>_. 0xDEAD),
     ctxs = Map.empty, ints = Map.empty\<rparr>"

lemma ctx_boot_simps [simp]:
  "types (ctx_boot sc) = image_types" "script (ctx_boot sc) = sc" "live (ctx_boot sc) = Map.empty"
  "ptrs (ctx_boot sc) = Map.empty" "ctxs (ctx_boot sc) = Map.empty" "ints (ctx_boot sc) = Map.empty"
  "symbol (ctx_boot sc) = image_symbol" "pending (ctx_boot sc) = None" "find_class (ctx_boot sc) = (\<lambda>_. True)"
  "mem (ctx_boot sc) = Map.empty" "stack_top (ctx_boot sc) = 0x7fff0000"
  by (simp_all add: ctx_boot_def)

lemma ctx_boot_ok:
  assumes "distinct (filter (\<lambda>p. p \<noteq> NULL) sc)" and "\<forall>p \<in> set sc. p = NULL \<or> 0x1120 < p"
  shows "type_heap_ok (ctx_boot sc)"
  using assms image_types_range by (fastforce simp: type_heap_ok_def heap_ok_def ctx_boot_def)

text \<open>Claim C6. \<open>newCallContext\<close> is memory safe and leaks nothing. For a valid return type and
  parameter types that are null or valid, at most \<open>2^31 - 1\<close> of them, and whatever the allocator
  answers, it returns; a zero handle comes with an exception pending; and after
  \<open>freeCallContext\<close> on the handle, if there is one, the allocated blocks are those from before.\<close>

theorem newCallContext_releases_all:
  assumes "type_heap_ok w" and "length ps < 2 ^ 31"
    and "\<forall>p \<in> set ps. j2p p = NULL \<or> passable fuel w (j2p p)" and "returnable fuel w (j2p rt)"
  shows "\<exists>h w' w''. newCallContext fuel rt ps flags w = Some (h, w') \<and> (h = 0 \<longrightarrow> raised w')
       \<and> (if h = 0 then Some w' else freeCallContext h w') = Some w'' \<and> blocks w'' = blocks w"
proof -
  have ok: "heap_ok w" using assms(1) by (simp add: type_heap_ok_def)
  from newCallContext_defined [OF assms, of flags] obtain h w'
    where run: "newCallContext fuel rt ps flags w = Some (h, w')" by auto
  moreover have "h = 0 \<longrightarrow> raised w'" using call_context.build_fail [OF ok] run by blast
  ultimately show ?thesis using call_context.no_leak [OF ok run] by blast
qed

lemma builtin_passable:
  "passable (Suc n) (ctx_boot sc) (image_symbol b)"
proof -
  have "examine_argument (Suc n) (ctx_boot sc) (builtin_type b) False \<noteq> None"
    by (cases b) (simp_all add: examine_argument_def classify_argument.simps builtin_type.simps FFI_TYPEDEF_def
        is_integer_code_def do_integer_def classify_float_def)
  then show ?thesis by (auto simp: passable_def builtin_sane(2))
qed

lemma builtin_returnable: "returnable (Suc n) (ctx_boot sc) (image_symbol b)"
proof -
  have "ret_flags (Suc n) (ctx_boot sc) (builtin_type b) \<noteq> None"
    by (cases b) (simp_all add: ret_flags_def builtin_type.simps FFI_TYPEDEF_def)
  then show ?thesis by (auto simp: returnable_def builtin_sane(2))
qed

lemma newCallContext_releases_all_witness:
  "\<exists>h w' w''. newCallContext 1 (p2j (image_symbol ffi_type_sint32))
        [p2j (image_symbol ffi_type_double), 0] 0x20000 (ctx_boot [0x2000, 0x3000, 0x4000]) = Some (h, w')
     \<and> (h = 0 \<longrightarrow> raised w') \<and> (if h = 0 then Some w' else freeCallContext h w') = Some w''
     \<and> blocks w'' = blocks (ctx_boot [0x2000, 0x3000, 0x4000])"
  by (rule newCallContext_releases_all)
     (use builtin_passable [of 0] builtin_returnable [of 0] in \<open>auto intro!: ctx_boot_ok\<close>)

text \<open>Claim C7. The parameter slots of a context are the layout Java packs by. Whenever
  \<open>newCallContext\<close> returns a handle, and the parameters take less than \<open>2^31 - 16\<close> bytes, the
  context lists the parameter types in order, the offset of parameter \<open>i\<close> is the sum of the
  sizes before it, each rounded up to 8, every parameter lies behind the one before and inside
  the raw parameter size, and the raw size is what \<open>getCallContextRawParameterSize\<close> reports.\<close>

theorem newCallContext_slots:
  assumes ok: "type_heap_ok w" and run: "newCallContext fuel rt ps flags w = Some (h, w')" and h: "h \<noteq> 0"
    and fits: "(\<Sum>p\<leftarrow>ps. slot_size w p) + 16 < 2 ^ 31"
  shows "\<exists>c offs raw. ctxs w' (j2p h) = Some c \<and> getCallContextRawParameterSize h w' = Some raw
     \<and> unat raw = (\<Sum>p\<leftarrow>ps. slot_size w p)
     \<and> read_ptrs w' (cc_ffiParamTypes c) (length ps) = Some (map j2p ps)
     \<and> ints w' (cc_rawParamOffsets c) = Some offs \<and> length ps \<le> length offs
     \<and> (\<forall>i < length ps. unat (offs ! i) = slot_offset w ps i \<and> 8 dvd unat (offs ! i)
          \<and> unat (offs ! i) + unat (ft_size (descr w (ps ! i))) \<le> unat raw
          \<and> (\<forall>j < i. unat (offs ! j) + unat (ft_size (descr w (ps ! j))) \<le> unat (offs ! i)))"
proof -
  have hok: "heap_ok w" using ok by (simp add: type_heap_ok_def)
  let ?m = "max 1 (length ps)"
  from hok run h show ?thesis
  proof (cases rule: newCallContext_steps)
  case (handle s pts oa w3 t off fast w4 w5 c)
  note st = handle(1,4,9,11) and pr = handle(12) and pc = handle(13) and fin = handle(14)
  let ?w3 = "write_ctx s c (write_ints oa (replicate ?m 0) w3)"
  have d: "descr ?w3 = descr w" using st(2) by (simp add: descr_def fun_eq_iff)
  have v: "off = param_end (map (descr w) ps) 0"
    "ptrs w4 pts = Some (map j2p ps @ drop (length ps) (replicate ?m NULL))"
    "ints w4 oa = Some (param_offsets (map (descr w) ps) 0 @ drop (length ps) (replicate ?m 0))"
    using ctx_params_valid [OF pr, of c "replicate ?m NULL" "replicate ?m 0"] st(3,4) unfolding d by simp_all
  have c4: "ctxs w4 s = Some c" using ctx_params_frame [OF pr] by simp
  from prep_context_frame [OF pc c4] obtain cif where f: "ctxs w5 s = Some (c\<lparr>cc_cif := cif\<rparr>)"
    "ptrs w5 = ptrs w4" "ints w5 = ints w4" by auto
  let ?c = "c\<lparr>cc_cif := cif, cc_rawParameterSize := off, cc_flags := ctx_flags flags fast\<rparr>"
  let ?offs = "param_offsets (map (descr w) ps) 0 @ drop (length ps) (replicate ?m 0)"
  have w': "w' = write_ctx s ?c w5" using fin f(1) by simp
  have rd: "read_ptrs w' pts (length ps) = Some (map j2p ps)"
    using read_ptrs_prefix [of w' pts "map j2p ps"] w' f(2) v(2) by simp
  have o: "unat (?offs ! i) = slot_offset w ps i" if "i < length ps" for i
    using that param_slots(2) [OF fits that] by (simp add: nth_append)
  have each: "unat (?offs ! i) = slot_offset w ps i \<and> 8 dvd unat (?offs ! i)
          \<and> unat (?offs ! i) + unat (ft_size (descr w (ps ! i))) \<le> unat off
          \<and> (\<forall>j < i. unat (?offs ! j) + unat (ft_size (descr w (ps ! j))) \<le> unat (?offs ! i))" if i: "i < length ps" for i
    using o i slot_offset_dvd [of w ps i] slot_offset_before [of i "length ps" ps w] slot_offset_before [of _ i ps w]
      v(1) param_slots(1) [OF fits] by (simp add: slot_offset_all)
  show ?thesis
  proof (rule exI [of _ ?c], rule exI [of _ ?offs], rule exI [of _ off], intro conjI allI impI)
    show "ctxs w' (j2p h) = Some ?c" using w' st(1) by simp
    show "getCallContextRawParameterSize h w' = Some off"
      using w' st(1) by (simp add: getCallContextRawParameterSize_def)
    show "unat off = (\<Sum>p\<leftarrow>ps. slot_size w p)" unfolding v(1) by (rule param_slots(1) [OF fits])
    show "read_ptrs w' (cc_ffiParamTypes ?c) (length ps) = Some (map j2p ps)" using rd st(4) by simp
    show "ints w' (cc_rawParamOffsets ?c) = Some ?offs" using w' f(3) v(3) st(4) by simp
    show "length ps \<le> length ?offs" by simp
  qed (use each in blast)+
  qed
qed

lemma boot_context:
  "\<exists>w'. newCallContext 1 (p2j (image_symbol ffi_type_sint32))
      [p2j (image_symbol ffi_type_uint8), p2j (image_symbol ffi_type_sint64)] 0x20000
      (ctx_boot [0x2000, 0x3000, 0x4000]) = Some (p2j 0x2000, w')"
proof -
  have rt: "ret_flags 1 (ctx_boot [0x2000, 0x3000, 0x4000]) (builtin_type ffi_type_sint32) = Some (Inr (0, 6))"
    by (simp add: ret_flags_def builtin_type.simps FFI_TYPEDEF_def)
  show ?thesis
    by (rule newCallContext_succeeds [where pts = "0x3000" and offs = "0x4000" and sc = "[]" and q = "(0, 6)"
          and t = "builtin_type ffi_type_sint32"])
       (use builtin_passable [of 0] rt in \<open>auto intro!: ctx_boot_ok simp: builtin_sane(2)\<close>)
qed

lemma newCallContext_slots_witness:
  "\<exists>h w' c offs raw. newCallContext 1 (p2j (image_symbol ffi_type_sint32))
      [p2j (image_symbol ffi_type_uint8), p2j (image_symbol ffi_type_sint64)] 0x20000
      (ctx_boot [0x2000, 0x3000, 0x4000]) = Some (h, w')
     \<and> ctxs w' (j2p h) = Some c \<and> ints w' (cc_rawParamOffsets c) = Some offs
     \<and> getCallContextRawParameterSize h w' = Some raw \<and> unat raw = 16 \<and> unat (offs ! 0) = 0 \<and> unat (offs ! 1) = 8"
proof -
  let ?w = "ctx_boot [0x2000, 0x3000, 0x4000]"
  let ?ps = "[p2j (image_symbol ffi_type_uint8), p2j (image_symbol ffi_type_sint64)]"
  obtain w' where run: "newCallContext 1 (p2j (image_symbol ffi_type_sint32)) ?ps 0x20000 ?w = Some (p2j 0x2000, w')"
    using boot_context by blast
  have ok: "type_heap_ok ?w" by (rule ctx_boot_ok) simp_all
  have sl: "slot_size ?w (p2j (image_symbol ffi_type_uint8)) = 8" "slot_size ?w (p2j (image_symbol ffi_type_sint64)) = 8"
    by (simp_all add: slot_size_def descr_def builtin_type.simps FFI_TYPEDEF_def align_up_def)
  have "\<exists>c offs raw. ctxs w' (j2p (p2j 0x2000)) = Some c \<and> getCallContextRawParameterSize (p2j 0x2000) w' = Some raw
     \<and> unat raw = (\<Sum>p\<leftarrow>?ps. slot_size ?w p)
     \<and> read_ptrs w' (cc_ffiParamTypes c) (length ?ps) = Some (map j2p ?ps)
     \<and> ints w' (cc_rawParamOffsets c) = Some offs \<and> length ?ps \<le> length offs
     \<and> (\<forall>i < length ?ps. unat (offs ! i) = slot_offset ?w ?ps i \<and> 8 dvd unat (offs ! i)
          \<and> unat (offs ! i) + unat (ft_size (descr ?w (?ps ! i))) \<le> unat raw
          \<and> (\<forall>j < i. unat (offs ! j) + unat (ft_size (descr ?w (?ps ! j))) \<le> unat (offs ! i)))"
    by (rule newCallContext_slots [OF ok run]) (simp_all add: sl)
  then obtain c offs raw where r: "ctxs w' (j2p (p2j 0x2000)) = Some c"
    "getCallContextRawParameterSize (p2j 0x2000) w' = Some raw" "unat raw = (\<Sum>p\<leftarrow>?ps. slot_size ?w p)"
    "ints w' (cc_rawParamOffsets c) = Some offs"
    and each: "\<forall>i < length ?ps. unat (offs ! i) = slot_offset ?w ?ps i" by blast
  from each have "unat (offs ! 0) = 0" "unat (offs ! 1) = 8" by (auto simp: slot_offset_def sl)
  with r run show ?thesis by (simp add: sl)
qed

text \<open>Claim C8. The fast-call flags are exact and sound. A context returned by \<open>newCallContext\<close>
  is marked \<open>FAST_INT\<close> (\<open>FAST_LONG\<close>) exactly when the return type is void or an integer of at most
  32 (64) bits and every parameter is an integer of at most 32 (64) bits, pointers counting as 64;
  it saves errno unless asked not to. And when a context is marked \<open>FAST_LONG\<close>, has at most six
  parameters and their descriptors have the builtin codes and at most 8 bytes, then libffi itself
  would pass all of them in integer registers: no stack bytes, no vector registers, no hidden
  return pointer, so calling the function directly is the same call.\<close>

theorem newCallContext_fast_flags:
  assumes ok: "type_heap_ok w" and run: "newCallContext (Suc n) rt ps flags w = Some (h, w')" and h: "h \<noteq> 0"
    and t: "types w (j2p rt) = Some t"
  shows "\<exists>c. ctxs w' (j2p h) = Some c
     \<and> (cc_flags c AND CALL_CTX_FAST_INT \<noteq> 0 \<longleftrightarrow>
          (is_int32_code (ft_type t) \<or> ft_type t = FFI_TYPE_VOID) \<and> (\<forall>p \<in> set ps. is_int32_code (ft_type (descr w p))))
     \<and> (cc_flags c AND CALL_CTX_FAST_LONG \<noteq> 0 \<longleftrightarrow>
          (is_int32_code (ft_type t) \<or> is_int64_code (ft_type t) \<or> ft_type t = FFI_TYPE_VOID)
          \<and> (\<forall>p \<in> set ps. is_int32_code (ft_type (descr w p)) \<or> is_int64_code (ft_type (descr w p))))
     \<and> (cc_flags c AND CALL_CTX_SAVE_ERRNO \<noteq> 0 \<longleftrightarrow> flags AND F_NOERRNO = 0)
     \<and> (cc_flags c AND CALL_CTX_FAST_LONG \<noteq> 0 \<longrightarrow> length ps \<le> 6 \<longrightarrow> ft_size t \<noteq> 0 \<longrightarrow>
          (\<forall>p \<in> set ps. ft_type (descr w p) \<noteq> FFI_TYPE_INT \<and> ft_size (descr w p) \<le> 8 \<and> ft_size (descr w p) \<noteq> 0) \<longrightarrow>
          cif_bytes (cc_cif c) = 0 \<and> cif_flags (cc_cif c) \<le> 7)"
proof -
  have hok: "heap_ok w" using ok by (simp add: type_heap_ok_def)
  let ?m = "max 1 (length ps)"
  from hok run h show ?thesis
  proof (cases rule: newCallContext_steps)
    case (handle s pts oa w3 t' off fast w4 w5 c)
    note pr = handle(12) and pc = handle(13) and fin = handle(14)
    have t': "t' = t" using handle(10) t by simp
    let ?w3 = "write_ctx s c (write_ints oa (replicate ?m 0) w3)"
    have d: "descr ?w3 = descr w" using handle(4) by (simp add: descr_def fun_eq_iff)
    have v: "fast = fold (\<lambda>p f. param_fast (ft_type (descr w p)) f) ps (ret_fast (ft_type t))"
      "\<forall>p \<in> set ps. j2p p \<noteq> NULL \<and> types w (j2p p) = Some (descr w p)"
      "ptrs w4 pts = Some (map j2p ps @ drop (length ps) (replicate ?m NULL))"
      using ctx_params_valid [OF pr, of c "replicate ?m NULL" "replicate ?m 0"] handle(4,9,11) t' unfolding d by simp_all
    note f4 = ctx_params_frame [OF pr]
    have c4: "ctxs w4 s = Some c" using f4 by simp
    from prep_context_core [OF pc c4] obtain cif va w1 where core:
      "ffi_prep_cif_core (Suc n) (cc_cif c) FFI_DEFAULT_ABI va (if va then signed_drop_bit 16 flags else of_nat (length ps))
         (of_nat (length ps)) (j2p rt) (cc_ffiParamTypes c) w4 = Some ((FFI_OK, cif), w1)"
      and c5: "ctxs w5 s = Some (c\<lparr>cc_cif := cif\<rparr>)" by blast
    let ?c = "c\<lparr>cc_cif := cif, cc_rawParameterSize := off, cc_flags := ctx_flags flags fast\<rparr>"
    have w': "ctxs w' (j2p h) = Some ?c" using fin c5 handle(1) by auto
    have fi: "fst fast \<longleftrightarrow> (is_int32_code (ft_type t) \<or> ft_type t = FFI_TYPE_VOID) \<and> (\<forall>p \<in> set ps. is_int32_code (ft_type (descr w p)))"
      and fl: "snd fast \<longleftrightarrow> (is_int32_code (ft_type t) \<or> is_int64_code (ft_type t) \<or> ft_type t = FFI_TYPE_VOID)
          \<and> (\<forall>p \<in> set ps. is_int32_code (ft_type (descr w p)) \<or> is_int64_code (ft_type (descr w p)))"
      unfolding v(1) fold_param_fast [of "\<lambda>p. ft_type (descr w p)"] by simp_all
    have regs: "cif_bytes cif = 0 \<and> cif_flags cif \<le> 7"
      if f: "snd fast" and len: "length ps \<le> 6" and tz: "ft_size t \<noteq> 0"
        and sz: "\<forall>p \<in> set ps. ft_type (descr w p) \<noteq> FFI_TYPE_INT \<and> ft_size (descr w p) \<le> 8 \<and> ft_size (descr w p) \<noteq> 0"
    proof -
      have ty: "types w4 = types w" using f4 handle(4) by simp
      have un: "unat (of_nat (length ps) :: jint) = length ps" using len by (intro unat_of_nat32) simp
      have si: "nat (sint (of_nat (length ps) :: jint)) = length ps" using len sint_of_nat32 [of "length ps"] by simp
      have rd: "read_ptrs w4 (cc_ffiParamTypes c) (length ps) = Some (map j2p ps)"
        using read_ptrs_prefix [OF v(3)] handle(11) by simp
      obtain fl where rf: "ret_flags (Suc n) w4 t = Some (Inr (0, fl))" "fl \<le> 7"
        using ret_flags_integer [of t "Suc n" w4] f \<open>snd fast \<longleftrightarrow> _\<close> by blast
      have "machdep_args (Suc n) w4 (map j2p ps) 0 0 0 = Some (0, 0 + length (map j2p ps), 0)"
        by (rule machdep_integers) (use v(2) sz f \<open>snd fast \<longleftrightarrow> _\<close> ty len in auto)
      moreover have "ffi_prep_cif_core (Suc n) (cc_cif c) FFI_DEFAULT_ABI va
          (if va then signed_drop_bit 16 flags else of_nat (length ps)) (of_nat (length ps)) (j2p rt) (cc_ffiParamTypes c) w4
        = map_option (\<lambda>r. (r, w4)) (ffi_prep_cif_machdep (Suc n)
            ((cc_cif c)\<lparr>cif_abi := FFI_DEFAULT_ABI, cif_arg_types := cc_ffiParamTypes c, cif_nargs := of_nat (length ps),
               cif_rtype := j2p rt, cif_flags := 0, cif_bytes := 0\<rparr>) w4)"
        by (rule prep_done) (use rd un ty t tz v(2) sz in auto)
      ultimately show ?thesis
        using core rd si ty t rf by (auto simp: ffi_prep_cif_machdep_def)
    qed
    show ?thesis
      by (rule exI [of _ ?c]) (use w' fi fl regs in \<open>simp add: ctx_flags_bits\<close>)
  qed
qed

lemma newCallContext_fast_flags_witness:
  "\<exists>h w' c. newCallContext 1 (p2j (image_symbol ffi_type_sint32))
      [p2j (image_symbol ffi_type_uint8), p2j (image_symbol ffi_type_sint64)] 0x20000
      (ctx_boot [0x2000, 0x3000, 0x4000]) = Some (h, w')
     \<and> ctxs w' (j2p h) = Some c \<and> cc_flags c AND CALL_CTX_FAST_INT = 0 \<and> cc_flags c AND CALL_CTX_FAST_LONG \<noteq> 0
     \<and> cif_bytes (cc_cif c) = 0"
proof -
  let ?w = "ctx_boot [0x2000, 0x3000, 0x4000]"
  let ?ps = "[p2j (image_symbol ffi_type_uint8), p2j (image_symbol ffi_type_sint64)]"
  let ?t = "builtin_type ffi_type_sint32"
  obtain w' where run: "newCallContext (Suc 0) (p2j (image_symbol ffi_type_sint32)) ?ps 0x20000 ?w = Some (p2j 0x2000, w')"
    using boot_context by auto
  have ok: "type_heap_ok ?w" by (rule ctx_boot_ok) simp_all
  have t: "types ?w (j2p (p2j (image_symbol ffi_type_sint32))) = Some ?t" by simp
  have d: "descr ?w (p2j (image_symbol b)) = builtin_type b" for b by (simp add: descr_def)
  have nz: "p2j 0x2000 \<noteq> 0" by simp
  from newCallContext_fast_flags [OF ok run nz t] obtain c where c: "ctxs w' (j2p (p2j 0x2000)) = Some c"
    "cc_flags c AND CALL_CTX_FAST_INT \<noteq> 0 \<longleftrightarrow>
          (is_int32_code (ft_type ?t) \<or> ft_type ?t = FFI_TYPE_VOID) \<and> (\<forall>p \<in> set ?ps. is_int32_code (ft_type (descr ?w p)))"
    "cc_flags c AND CALL_CTX_FAST_LONG \<noteq> 0 \<longleftrightarrow>
          (is_int32_code (ft_type ?t) \<or> is_int64_code (ft_type ?t) \<or> ft_type ?t = FFI_TYPE_VOID)
          \<and> (\<forall>p \<in> set ?ps. is_int32_code (ft_type (descr ?w p)) \<or> is_int64_code (ft_type (descr ?w p)))"
    "cc_flags c AND CALL_CTX_FAST_LONG \<noteq> 0 \<longrightarrow> length ?ps \<le> 6 \<longrightarrow> ft_size ?t \<noteq> 0 \<longrightarrow>
          (\<forall>p \<in> set ?ps. ft_type (descr ?w p) \<noteq> FFI_TYPE_INT \<and> ft_size (descr ?w p) \<le> 8 \<and> ft_size (descr ?w p) \<noteq> 0) \<longrightarrow>
          cif_bytes (cc_cif c) = 0 \<and> cif_flags (cc_cif c) \<le> 7"
    by blast
  have "cc_flags c AND CALL_CTX_FAST_INT = 0" "cc_flags c AND CALL_CTX_FAST_LONG \<noteq> 0"
    using c(2,3) by (simp_all add: d builtin_type.simps FFI_TYPEDEF_def is_int32_code_def is_int64_code_def)
  moreover from this have "cif_bytes (cc_cif c) = 0"
    using c(4) by (simp add: d builtin_type.simps FFI_TYPEDEF_def)
  ultimately show ?thesis using run c(1) by (intro exI [of _ "p2j 0x2000"] exI [of _ w'] exI [of _ c]) simp
qed

end
