(* ===== verification/Ffi_Integers.thy ===== *)
theory Ffi_Integers
  imports Jffi_CallContext
begin

text \<open>
  Calls whose arguments are all integers or pointers, the signatures jffi treats specially: what the
  target finds in its registers when such a call goes through \<open>ffi_call\<close>, and what is stored as its
  result.
\<close>

section \<open>One integer argument\<close>

text \<open>The register image of an argument whose eight-byte slot holds \<open>x\<close>.\<close>

definition promote :: "ffi_type \<Rightarrow> u64 \<Rightarrow> u64" where
  "promote t x =
     (if ft_type t = FFI_TYPE_SINT8 then signed_take_bit 7 x
      else if ft_type t = FFI_TYPE_SINT16 then signed_take_bit 15 x
      else if ft_type t = FFI_TYPE_SINT32 then signed_take_bit 31 x
      else take_bit (8 * unat (ft_size t)) x)"

definition integer_type :: "ffi_type \<Rightarrow> bool" where
  "integer_type t \<longleftrightarrow> (is_int32_code (ft_type t) \<or> is_int64_code (ft_type t)) \<and> ft_type t \<noteq> FFI_TYPE_INT
     \<and> ft_size t \<noteq> 0 \<and> ft_size t \<le> 8"

lemma sext_le_bytes:
  assumes "0 < n" and "n \<le> 8" shows "sext_bytes (le_bytes n x) = signed_take_bit (8 * n - 1) x"
proof -
  have "signed_take_bit (8 * n - 1) (take_bit (8 * n) x) = signed_take_bit (8 * n - 1) x"
    using assms by (intro bit_eqI) (auto simp: bit_simps min_def)
  then show ?thesis by (simp add: sext_bytes_def le_word_le_bytes)
qed

lemma le_bytes_zeros: "n \<le> 8 \<Longrightarrow> le_bytes n x @ replicate (8 - n) 0 = le_bytes 8 (take_bit (8 * n) x)"
proof (rule nth_equalityI)
  fix i assume n: "n \<le> 8" and i: "i < length (le_bytes n x @ replicate (8 - n) 0)"
  then have "i < 8" by simp
  show "(le_bytes n x @ replicate (8 - n) 0) ! i = le_bytes 8 (take_bit (8 * n) x) ! i"
  proof (cases "i < n")
    case True
    then show ?thesis using \<open>i < 8\<close>
      by (simp add: nth_append le_bytes_def) (rule bit_eqI, auto simp: bit_simps)
  next
    case False
    then show ?thesis using \<open>i < 8\<close> n
      by (simp add: nth_append le_bytes_def) (rule bit_eqI, auto simp: bit_simps)
  qed
qed simp

lemma gpr_bytes_slot:
  assumes slot: "load m v 8 = Some (le_bytes 8 x)" and t: "integer_type t"
  shows "gpr_bytes m (ft_type t) v (ft_size t) = Some (le_bytes 8 (promote t x))"
proof -
  have pre: "load m v n = Some (le_bytes n x)" if "n \<le> 8" for n
    using load_prefix [OF slot that] that by (simp add: take_le_bytes)
  have sz: "unat (ft_size t) \<le> 8" using t by (simp add: integer_type_def word_le_nat_alt)
  show ?thesis
    using pre [of 1] pre [of 2] pre [of 4] pre [OF sz] t sz
    by (auto simp: gpr_bytes_def promote_def integer_type_def sext_le_bytes le_bytes_zeros word_le_nat_alt)
qed

section \<open>The argument loop\<close>

lemma get_mono: "get blk o' n = Some x \<Longrightarrow> length x = n"
  by (auto simp: get_def split: if_splits)

text \<open>From general register \<open>g\<close> on, each argument takes one register; the rest of the block stays.\<close>

lemma call_args_integers:
  assumes "list_all2 (\<lambda>p t. types w p = Some t \<and> integer_type t) ps ts"
    and "list_all2 (\<lambda>v x. load (mem w) v 8 = Some (le_bytes 8 x)) vs xs"
    and "length xs = length ts" and "g + length ps \<le> 6" and "sizeof_register_args \<le> length blk" and "s \<le> 8"
  shows "\<exists>blk'. call_args (Suc n) w stack ps vs argp (g, s, blk) = Some (s, blk') \<and> length blk' = length blk
     \<and> (\<forall>i < length xs. get blk' (8 * (g + i)) 8 = Some (le_bytes 8 (promote (ts ! i) (xs ! i))))
     \<and> (\<forall>o' n. o' + n \<le> 8 * g \<or> 8 * (g + length ps) \<le> o' \<longrightarrow> get blk' o' n = get blk o' n)"
  using assms
proof (induction ps ts arbitrary: vs xs g blk rule: list_all2_induct)
  case Nil
  then show ?case by simp
next
  case (Cons p ps t ts)
  then obtain x xs' where xs: "xs = x # xs'" by (cases xs) auto
  then obtain v vs' where vs: "vs = v # vs'" and ld: "load (mem w) v 8 = Some (le_bytes 8 x)"
    and rest: "list_all2 (\<lambda>v x. load (mem w) v 8 = Some (le_bytes 8 x)) vs' xs'"
    using Cons.prems(1) by (auto simp: list_all2_Cons2)
  have t: "types w p = Some t" "integer_type t" using Cons.hyps by auto
  then obtain cl where e: "examine_argument (Suc n) w t False = Some \<lparr>ex_n = 1, ex_classes = [cl], ex_ngpr = 1, ex_nsse = 0\<rparr>"
    and cl: "cl = X86_64_INTEGER_CLASS \<or> cl = X86_64_INTEGERSI_CLASS"
    using examine_integer [of "ft_type t" t n w] by (auto simp: integer_type_def)
  obtain blk1 where put: "put blk (8 * g) (le_bytes 8 (promote t x)) = Some blk1"
    using put_in_bounds [of "8 * g" "le_bytes 8 (promote t x)" blk] Cons.prems(3,4) by auto
  have regs: "store_regs (mem w) (ft_type t) [cl] v (ft_size t) (g, s, blk) = Some (g + 1, s, blk1)"
    using cl put gpr_bytes_slot [OF ld t(2)] by auto
  have l1: "length blk1 = length blk" by (rule put_length [OF put])
  have "\<exists>blk'. call_args (Suc n) w stack ps vs' argp (g + 1, s, blk1) = Some (s, blk') \<and> length blk' = length blk1
     \<and> (\<forall>i < length xs'. get blk' (8 * (g + 1 + i)) 8 = Some (le_bytes 8 (promote (ts ! i) (xs' ! i))))
     \<and> (\<forall>o' n. o' + n \<le> 8 * (g + 1) \<or> 8 * (g + 1 + length ps) \<le> o' \<longrightarrow> get blk' o' n = get blk1 o' n)"
    by (rule Cons.IH [OF rest]) (use Cons.prems xs l1 in auto)
  then obtain blk' where b: "call_args (Suc n) w stack ps vs' argp (g + 1, s, blk1) = Some (s, blk')"
    "length blk' = length blk1"
    and bi: "\<And>i. i < length xs' \<Longrightarrow> get blk' (8 * (g + 1 + i)) 8 = Some (le_bytes 8 (promote (ts ! i) (xs' ! i)))"
    and bo: "\<And>o' n. o' + n \<le> 8 * (g + 1) \<or> 8 * (g + 1 + length ps) \<le> o' \<Longrightarrow> get blk' o' n = get blk1 o' n"
    by blast
  have run: "call_args (Suc n) w stack (p # ps) vs argp (g, s, blk) = Some (s, blk')"
    using Cons.prems(3,5) by (simp add: vs t(1) e goes_on_stack_def regs b(1) [simplified] del: store_regs.simps)
  have reg: "get blk' (8 * (g + i)) 8 = Some (le_bytes 8 (promote ((t # ts) ! i) (xs ! i)))" if "i < length xs" for i
  proof (cases i)
    case 0
    have "get blk' (8 * g) 8 = get blk1 (8 * g) 8" by (rule bo) simp
    also have "\<dots> = Some (le_bytes 8 (promote t x))" using get_put_same [OF put, of 8] by simp
    finally show ?thesis by (simp add: 0 xs)
  next
    case (Suc j)
    then show ?thesis using bi [of j] that by (simp add: xs)
  qed
  have other: "get blk' o' m = get blk o' m" if "o' + m \<le> 8 * g \<or> 8 * (g + length (p # ps)) \<le> o'" for o' m
  proof -
    have "get blk' o' m = get blk1 o' m" by (rule bo) (use that in auto)
    also have "\<dots> = get blk o' m"
      using that get_put_before [OF put] get_put_after [OF put] by auto
    finally show ?thesis .
  qed
  show ?case using run reg other b(2) l1 by auto
qed

section \<open>The whole call\<close>

lemma copy_large_integers:
  assumes "list_all2 (\<lambda>p t. types w p = Some t \<and> integer_type t) ps ts" and "length vs = length ps"
  shows "copy_large w ps vs lim = Some (vs, w)"
  using assms
proof (induction ps ts arbitrary: vs rule: list_all2_induct)
  case (Cons p ps t ts)
  then obtain v vs' where v: "vs = v # vs'" by (cases vs) auto
  have "ft_type t \<noteq> FFI_TYPE_STRUCT"
    using Cons.hyps by (auto simp: integer_type_def is_int32_code_def is_int64_code_def)
  with Cons v show ?case by (simp add: Let_def)
qed simp

lemma call_block_integers:
  assumes "list_all2 (\<lambda>p t. types w p = Some t \<and> integer_type t) ps ts"
    and "list_all2 (\<lambda>v x. load (mem w) v 8 = Some (le_bytes 8 x)) vs xs"
    and "length xs = length ts" and "length ps \<le> 6" and "sizeof_register_args \<le> length junk"
    and "flags AND UNIX64_FLAG_RET_IN_MEM = 0"
  shows "\<exists>blk. call_block (Suc n) w ps flags rvalue vs closure stack junk = Some blk \<and> length blk = length junk
     \<and> (\<forall>i < length xs. get blk (8 * i) 8 = Some (le_bytes 8 (promote (ts ! i) (xs ! i))))
     \<and> get blk OFS_RAX 8 = Some (le_bytes 8 0) \<and> get blk OFS_R10 8 = Some (le_bytes 8 closure)"
proof -
  obtain b1 where b1: "put junk OFS_R10 (le_bytes 8 closure) = Some b1"
    using put_in_bounds [of OFS_R10 "le_bytes 8 closure" junk] assms(5) by auto
  have l1: "length b1 = length junk" by (rule put_length [OF b1])
  have "\<exists>blk'. call_args (Suc n) w stack ps vs (stack + of_nat sizeof_register_args) (0, 0, b1) = Some (0, blk')
     \<and> length blk' = length b1
     \<and> (\<forall>i < length xs. get blk' (8 * (0 + i)) 8 = Some (le_bytes 8 (promote (ts ! i) (xs ! i))))
     \<and> (\<forall>o' n. o' + n \<le> 8 * 0 \<or> 8 * (0 + length ps) \<le> o' \<longrightarrow> get blk' o' n = get b1 o' n)"
    by (rule call_args_integers [OF assms(1,2,3)]) (use assms l1 in auto)
  then obtain b2 where b2: "call_args (Suc n) w stack ps vs (stack + of_nat sizeof_register_args) (0, 0, b1) = Some (0, b2)"
    "length b2 = length b1" "\<And>i. i < length xs \<Longrightarrow> get b2 (8 * i) 8 = Some (le_bytes 8 (promote (ts ! i) (xs ! i)))"
    "\<And>o' n. 8 * length ps \<le> o' \<Longrightarrow> get b2 o' n = get b1 o' n"
    by auto
  obtain b3 where b3: "put b2 OFS_RAX (le_bytes 8 0) = Some b3"
    using put_in_bounds [of OFS_RAX "le_bytes 8 0" b2] assms(5) b2(2) l1 by auto
  have run: "call_block (Suc n) w ps flags rvalue vs closure stack junk = Some b3"
    using b1 b2(1) b3 assms(6) by (simp add: call_block_def)
  have lx: "length xs \<le> 6" using assms(1,3,4) by (simp add: list_all2_lengthD)
  have "get b3 (8 * i) 8 = Some (le_bytes 8 (promote (ts ! i) (xs ! i)))" if "i < length xs" for i
  proof -
    have "get b3 (8 * i) 8 = get b2 (8 * i) 8" by (rule get_put_before [OF b3]) (use that lx in simp)
    with b2(3) [OF that] show ?thesis by simp
  qed
  moreover have "get b3 OFS_RAX 8 = Some (le_bytes 8 0)" using get_put_same [OF b3, of 8] by simp
  moreover have "get b3 OFS_R10 8 = Some (le_bytes 8 closure)"
    using get_put_after [OF b3, of OFS_R10 8] b2(4) [of OFS_R10 8] get_put_same [OF b1, of 8] assms(4) by simp
  ultimately show ?thesis using run put_length [OF b3] b2(2) l1 by auto
qed

lemma get_take: "get blk off n = Some x \<Longrightarrow> take n (drop off blk) = x"
  by (simp add: get_def split: if_splits)

lemma load_regs_integers:
  assumes "\<And>i. i < length zs \<Longrightarrow> get blk (8 * i) 8 = Some (le_bytes 8 (zs ! i))" and "length zs \<le> 6"
    and "get blk OFS_RAX 8 = Some (le_bytes 8 0)" and "get blk OFS_R10 8 = Some (le_bytes 8 closure)"
  shows "take (length zs) (cr_gpr (load_regs blk bytes)) = zs \<and> length (cr_gpr (load_regs blk bytes)) = 6
     \<and> cr_sse (load_regs blk bytes) = None \<and> cr_al (load_regs blk bytes) = 0 \<and> cr_r10 (load_regs blk bytes) = closure
     \<and> (bytes = 0 \<longrightarrow> cr_args (load_regs blk bytes) = [])"
proof -
  have "take (length zs) (cr_gpr (load_regs blk bytes)) = zs"
  proof (rule nth_equalityI)
    fix i assume "i < length (take (length zs) (cr_gpr (load_regs blk bytes)))"
    then have i: "i < length zs" by simp
    with assms(1) [OF i] assms(2) show "take (length zs) (cr_gpr (load_regs blk bytes)) ! i = zs ! i"
      by (simp add: load_regs_def Let_def get_take)
  qed (use assms(2) in \<open>simp add: load_regs_def Let_def\<close>)
  then show ?thesis using get_take [OF assms(3)] get_take [OF assms(4)] by (simp add: load_regs_def Let_def)
qed

lemma integers_call:
  fixes w :: "'a mem_world_scheme" and native :: "'a mem_world_scheme native"
  assumes abi: "cif_abi cif \<noteq> FFI_EFI64" "cif_abi cif \<noteq> FFI_GNUW64"
    and ps: "cif_nargs cif = of_nat (length ps)" "read_ptrs w (cif_arg_types cif) (length ps) = Some ps" "length ps \<le> 6"
    and ts: "list_all2 (\<lambda>p t. types w p = Some t \<and> integer_type t) ps ts"
    and xs: "list_all2 (\<lambda>v x. load (mem w) v 8 = Some (le_bytes 8 x)) vs xs" "length xs = length ts"
    and cif: "cif_bytes cif = 0" "cif_flags cif AND UNIX64_FLAG_RET_IN_MEM = 0" "types w (cif_rtype cif) = Some rt"
    and rv: "rvalue \<noteq> NULL"
  shows "\<exists>regs s m. take (length xs) (cr_gpr regs) = map2 promote ts xs \<and> length (cr_gpr regs) = 6
     \<and> cr_al regs = 0 \<and> cr_sse regs = None \<and> cr_args regs = []
     \<and> s = (stack_top w - 224) AND NOT 15 \<and> (\<forall>a. a \<notin> span s 224 \<longrightarrow> m a = mem w a)
     \<and> ffi_call native efi64 (Suc n) cif fn rvalue vs w =
         do { (r, w1) \<leftarrow> native fn regs (w\<lparr>stack_top := s, mem := m\<rparr>);
              out \<leftarrow> store_table (cif_flags cif) r;
              w2 \<leftarrow> store_all rvalue out w1;
              Some (w2\<lparr>stack_top := stack_top w\<rparr>) }"
proof -
  have lens: "length vs = length ps" "length xs = length ps"
    using list_all2_lengthD [OF ts] list_all2_lengthD [OF xs(1)] xs(2) by simp_all
  have cl: "copy_large w ps vs lim = Some (vs, w)" for lim
    by (rule copy_large_integers [OF ts lens(1)])
  have si: "nat (sint (cif_nargs cif)) = length ps" using ps(1,3) sint_of_nat32 [of "length ps"] by simp
  obtain s w2 where al: "alloca 224 w = (s, w2)" by (cases "alloca 224 w")
  then have w2: "w2 = w\<lparr>stack_top := s, mem := map_block s (fresh_bytes w s 224) (mem w)\<rparr>"
    and s: "s = (stack_top w - 224) AND NOT 15"
    by (auto simp: alloca_def Let_def)
  obtain blk where blk: "call_block (Suc n) w ps (cif_flags cif) rvalue vs NULL s (fresh_bytes w s 224) = Some blk"
    "length blk = 224"
    and b: "\<And>i. i < length xs \<Longrightarrow> get blk (8 * i) 8 = Some (le_bytes 8 (promote (ts ! i) (xs ! i)))"
    "get blk OFS_RAX 8 = Some (le_bytes 8 0)" "get blk OFS_R10 8 = Some (le_bytes 8 NULL)"
    using call_block_integers [OF ts xs ps(3) _ cif(2), of "fresh_bytes w s 224" n rvalue NULL s]
    by (auto simp: fresh_bytes_def)
  let ?regs = "load_regs blk 0"
  have r: "take (length (map2 promote ts xs)) (cr_gpr ?regs) = map2 promote ts xs \<and> length (cr_gpr ?regs) = 6
     \<and> cr_sse ?regs = None \<and> cr_al ?regs = 0 \<and> cr_r10 ?regs = NULL \<and> ((0 :: u32) = 0 \<longrightarrow> cr_args ?regs = [])"
    by (rule load_regs_integers) (use b xs(2) lens ps(3) in auto)
  let ?m = "map_block s blk (map_block s (fresh_bytes w s 224) (mem w))"
  have out: "?m a = mem w a" if "a \<notin> span s 224" for a
    using that blk(2) by (simp add: map_block_outside)
  have "ffi_call native efi64 (Suc n) cif fn rvalue vs w =
         do { (r, w1) \<leftarrow> native fn ?regs (w\<lparr>stack_top := s, mem := ?m\<rparr>);
              out \<leftarrow> store_table (cif_flags cif) r;
              w2 \<leftarrow> store_all rvalue out w1;
              Some (w2\<lparr>stack_top := stack_top w\<rparr>) }"
    using abi ps(2) si cl cif(1,3) rv al blk(1)
    by (simp add: ffi_call_def ffi_call_int_def ffi_call_unix64_def w2 Option.bind_assoc case_prod_unfold)
  then show ?thesis
    using r out xs(2) s by (intro exI [of _ ?regs] exI [of _ s] exI [of _ ?m]) simp
qed

text \<open>Claim C17. An integer call through \<open>ffi_call\<close>. When a prepared interface of the System V ABI has at
  most six parameters, all integers or pointers, needs no stack bytes and returns its result in
  registers, \<open>ffi_call\<close> calls the target exactly once, in the state the caller left but for the call
  frame; parameter \<open>i\<close> is in general register \<open>i\<close>, sign- or zero-extended from its type to 64 bits;
  \<open>al\<close> is zero, no vector register is loaded and no stack argument passed. What the target returns
  is stored at the result address by the return code, and the frame is popped.\<close>

theorem ffi_call_integers:
  fixes w :: "'a mem_world_scheme" and native :: "'a mem_world_scheme native"
  assumes abi: "cif_abi cif \<noteq> FFI_EFI64" "cif_abi cif \<noteq> FFI_GNUW64"
    and ps: "cif_nargs cif = of_nat (length ps)" "read_ptrs w (cif_arg_types cif) (length ps) = Some ps" "length ps \<le> 6"
    and ts: "list_all2 (\<lambda>p t. types w p = Some t \<and> integer_type t) ps ts"
    and xs: "list_all2 (\<lambda>v x. load (mem w) v 8 = Some (le_bytes 8 x)) vs xs" "length xs = length ts"
    and cif: "cif_bytes cif = 0" "cif_flags cif AND UNIX64_FLAG_RET_IN_MEM = 0" "types w (cif_rtype cif) = Some rt"
    and rv: "rvalue \<noteq> NULL"
  shows "\<exists>regs s m. take (length xs) (cr_gpr regs) = map2 promote ts xs \<and> length (cr_gpr regs) = 6
     \<and> cr_al regs = 0 \<and> cr_sse regs = None \<and> cr_args regs = []
     \<and> s = (stack_top w - 224) AND NOT 15 \<and> (\<forall>a. a \<notin> span s 224 \<longrightarrow> m a = mem w a)
     \<and> ffi_call native efi64 (Suc n) cif fn rvalue vs w =
         do { (r, w1) \<leftarrow> native fn regs (w\<lparr>stack_top := s, mem := m\<rparr>);
              out \<leftarrow> store_table (cif_flags cif) r;
              w2 \<leftarrow> store_all rvalue out w1;
              Some (w2\<lparr>stack_top := stack_top w\<rparr>) }"
  by (rule integers_call [OF abi ps ts xs cif rv])

theorem ffi_call_integers_witness:
  "\<exists>w'. ffi_call (\<lambda>fn regs w. if fn = 0x4000 \<and> take 2 (cr_gpr regs) = [- 1, 0xFF]
                          then Some (\<lparr>rr_rax = 0, rr_rdx = 0, rr_xmm0 = 0, rr_xmm1 = 0, rr_st0 = [], rr_st1 = []\<rparr>, w)
                          else None)
       (\<lambda>_ _ _ _ _. None) 1 (zero_cif\<lparr>cif_abi := FFI_UNIX64, cif_nargs := 2, cif_arg_types := 0x9000,
                        cif_rtype := image_symbol ffi_type_void\<rparr>) 0x4000 0x300 [0x100, 0x108]
       ((ctx_boot [])\<lparr>ptrs := [0x9000 \<mapsto> [image_symbol ffi_type_sint32, image_symbol ffi_type_uint8]],
                      mem := map_block 0x100 (le_bytes 8 0xFFFFFFFF) (map_block 0x108 (le_bytes 8 0x1FF) Map.empty)\<rparr>)
     = Some w'"
proof -
  let ?nat = "\<lambda>fn (regs :: call_regs) (w :: ctx_world). if fn = 0x4000 \<and> take 2 (cr_gpr regs) = [- 1, 0xFF]
                          then Some (\<lparr>rr_rax = 0, rr_rdx = 0, rr_xmm0 = 0, rr_xmm1 = 0, rr_st0 = [], rr_st1 = []\<rparr>, w)
                          else None"
  let ?cif = "zero_cif\<lparr>cif_abi := FFI_UNIX64, cif_nargs := 2, cif_arg_types := 0x9000,
                        cif_rtype := image_symbol ffi_type_void\<rparr>"
  let ?ps = "[image_symbol ffi_type_sint32, image_symbol ffi_type_uint8]"
  let ?ts = "[builtin_type ffi_type_sint32, builtin_type ffi_type_uint8]"
  let ?m2 = "map_block 0x108 (le_bytes 8 0x1FF) Map.empty"
  let ?w = "(ctx_boot [])\<lparr>ptrs := [0x9000 \<mapsto> ?ps], mem := map_block 0x100 (le_bytes 8 0xFFFFFFFF) ?m2\<rparr>"
  have ps: "cif_nargs ?cif = of_nat (length ?ps)" "read_ptrs ?w (cif_arg_types ?cif) (length ?ps) = Some ?ps" "length ?ps \<le> 6"
    by (simp_all add: read_ptrs_def)
  have ts: "list_all2 (\<lambda>p t. types ?w p = Some t \<and> integer_type t) ?ps ?ts"
    by (simp add: integer_type_def is_int32_code_def is_int64_code_def builtin_type.simps FFI_TYPEDEF_def)
  have l1: "load (map_block 0x100 (le_bytes 8 0xFFFFFFFF) ?m2) 0x100 8 = Some (le_bytes 8 0xFFFFFFFF)"
    using load_map_block [of "le_bytes 8 0xFFFFFFFF" "0x100" ?m2] by simp
  have "load (map_block 0x100 (le_bytes 8 0xFFFFFFFF) ?m2) 0x108 8 = load ?m2 0x108 8"
    by (rule load_cong, rule map_block_outside) (use span_apart [of 8 8 8 "0x100"] in auto)
  then have l2: "load (map_block 0x100 (le_bytes 8 0xFFFFFFFF) ?m2) 0x108 8 = Some (le_bytes 8 0x1FF)"
    using load_map_block [of "le_bytes 8 0x1FF" "0x108" Map.empty] by simp
  have xs: "list_all2 (\<lambda>v x. load (mem ?w) v 8 = Some (le_bytes 8 x)) [0x100, 0x108] [0xFFFFFFFF, 0x1FF]"
    using l1 l2 by simp
  have pr: "map2 promote ?ts [0xFFFFFFFF, 0x1FF] = [- 1, 0xFF]"
    by (simp add: promote_def builtin_type.simps FFI_TYPEDEF_def)
  have len2: "length [0xFFFFFFFF :: u64, 0x1FF] = 2" by simp
  from ffi_call_integers [OF _ _ ps ts xs, where rt = "builtin_type ffi_type_void" and native = ?nat and n = 0
      and ?efi64.0 = "\<lambda>_ _ _ _ _. None" and rvalue = "0x300" and fn = "0x4000", unfolded pr len2]
  show ?thesis by (auto simp: zero_cif_def store_table_def Let_def)
qed

end
