(* ===== verification/Jffi_Thread.thy ===== *)
theory Jffi_Thread
  imports Jffi_CallContext
begin

text \<open>
  Per-thread state: \<open>ThreadData\<close> and its creation and destruction (\<^verbatim>\<open>jni/jffi/jffi.h\<close>,
  \<^verbatim>\<open>Foreign.c\<close>) and the saved value of \<open>errno\<close> (\<^verbatim>\<open>LastError.c\<close>, the macro \<open>SAVE_ERRNO\<close>). The
  pthread key is the function \<open>specific\<close> from threads to the value each has stored; \<open>errno\<close> too is
  a variable of the thread.
\<close>

section \<open>Data\<close>

record ThreadData =
  td_error :: jint
  td_attach_count :: jint
  td_attached_vm :: addr
  td_fault_data :: addr

definition zero_td :: ThreadData where
  "zero_td = \<lparr>td_error = 0, td_attach_count = 0, td_attached_vm = NULL, td_fault_data = NULL\<rparr>"

abbreviation (input) sizeof_ThreadData :: size_t where "sizeof_ThreadData \<equiv> 24"

record thread_world = ctx_world +
  self :: nat
  specific :: "nat \<Rightarrow> addr"
  tdata :: "addr \<rightharpoonup> ThreadData"
  errno :: "nat \<Rightarrow> jint"

section \<open>ThreadData\<close>

text \<open>A failed \<open>calloc\<close> is not checked: the null pointer is stored and returned.\<close>

definition jffi_thread_data_init :: "'a thread_world_scheme \<Rightarrow> (addr \<times> 'a thread_world_scheme) option" where
  "jffi_thread_data_init w = do {
     (td, w1) \<leftarrow> calloc 1 sizeof_ThreadData w;
     w2 \<leftarrow> Some (if td \<noteq> NULL then w1\<lparr>tdata := (tdata w1)(td \<mapsto> zero_td)\<rparr> else w1);
     Some (td, w2\<lparr>specific := (specific w2)(self w2 := td)\<rparr>)
   }"

definition thread_data_get :: "'a thread_world_scheme \<Rightarrow> (addr \<times> 'a thread_world_scheme) option" where
  "thread_data_get w =
     (let td = specific w (self w) in if td \<noteq> NULL then Some (td, w) else jffi_thread_data_init w)"

text \<open>The destructor of the key, run when a thread ends; \<open>DetachCurrentThread\<close> is the virtual
  machine's.\<close>

definition thread_data_free ::
  "(addr \<Rightarrow> 'a thread_world_scheme \<Rightarrow> 'a thread_world_scheme) \<Rightarrow> addr \<Rightarrow> 'a thread_world_scheme
     \<Rightarrow> 'a thread_world_scheme option"
where
  "thread_data_free DetachCurrentThread ptr w = do {
     td \<leftarrow> tdata w ptr;
     w1 \<leftarrow> Some (if td_attached_vm td \<noteq> NULL then DetachCurrentThread (td_attached_vm td) w else w);
     w2 \<leftarrow> free ptr w1;
     Some (w2\<lparr>tdata := (tdata w2)(ptr := None)\<rparr>)
   }"

text \<open>What the thread library does at the end of thread \<open>t\<close>: the slot is cleared, then the
  destructor is called with its old value if that is not null.\<close>

definition thread_exit ::
  "(addr \<Rightarrow> 'a thread_world_scheme \<Rightarrow> 'a thread_world_scheme) \<Rightarrow> 'a thread_world_scheme
     \<Rightarrow> 'a thread_world_scheme option"
where
  "thread_exit DetachCurrentThread w =
     (let p = specific w (self w);
          w1 = w\<lparr>specific := (specific w)(self w := NULL)\<rparr>
      in if p \<noteq> NULL then thread_data_free DetachCurrentThread p w1 else Some w1)"

section \<open>The saved error\<close>

definition write_td :: "addr \<Rightarrow> (ThreadData \<Rightarrow> ThreadData) \<Rightarrow> 'a thread_world_scheme \<Rightarrow> 'a thread_world_scheme option" where
  "write_td p f w = map_option (\<lambda>td. w\<lparr>tdata := (tdata w)(p \<mapsto> f td)\<rparr>) (tdata w p)"

definition getLastError :: "'a thread_world_scheme \<Rightarrow> (jint \<times> 'a thread_world_scheme) option" where
  "getLastError w = do {
     (p, w1) \<leftarrow> thread_data_get w;
     td \<leftarrow> tdata w1 p;
     Some (td_error td, w1)
   }"

definition setLastError :: "jint \<Rightarrow> 'a thread_world_scheme \<Rightarrow> 'a thread_world_scheme option" where
  "setLastError value w = do {
     (p, w1) \<leftarrow> thread_data_get w;
     w2 \<leftarrow> Some (w1\<lparr>errno := (errno w1)(self w1 := value)\<rparr>);
     write_td p (\<lambda>td. td\<lparr>td_error := value\<rparr>) w2
   }"

definition jffi_save_errno :: "'a thread_world_scheme \<Rightarrow> 'a thread_world_scheme option" where
  "jffi_save_errno w = do {
     (p, w1) \<leftarrow> thread_data_get w;
     write_td p (\<lambda>td. td\<lparr>td_error := errno w1 (self w1)\<rparr>) w1
   }"

text \<open>A direct call of a C function with integer arguments, as the compiler emits it: the arguments
  in the general registers in order, the others left as they were.\<close>

definition c_call :: "'a mem_world_scheme native \<Rightarrow> addr \<Rightarrow> u64 list \<Rightarrow> 'a mem_world_scheme
     \<Rightarrow> (u64 \<times> 'a mem_world_scheme) option" where
  "c_call native fn args w =
     map_option (\<lambda>(r, w'). (rr_rax r, w'))
       (native fn \<lparr>cr_gpr = args @ map (stale w) [length args..<6], cr_sse = None, cr_al = 0,
                   cr_r10 = 0, cr_args = []\<rparr> w)"

text \<open>\<open>thread_data_get()->error = (*ctx->error_fn)()\<close>: the two operands are indeterminately
  sequenced; the call is taken to come first.\<close>

definition jffi_save_errno_ctx ::
  "'a thread_world_scheme native \<Rightarrow> addr \<Rightarrow> 'a thread_world_scheme \<Rightarrow> 'a thread_world_scheme option"
where
  "jffi_save_errno_ctx native ctx w = do {
     c \<leftarrow> ctxs w ctx;
     if cc_error_fn c \<noteq> NULL
     then do {
       (v, w1) \<leftarrow> c_call native (cc_error_fn c) [] w;
       (p, w2) \<leftarrow> thread_data_get w1;
       write_td p (\<lambda>td. td\<lparr>td_error := ucast v\<rparr>) w2
     }
     else jffi_save_errno w
   }"

definition SAVE_ERRNO ::
  "'a thread_world_scheme native \<Rightarrow> addr \<Rightarrow> 'a thread_world_scheme \<Rightarrow> 'a thread_world_scheme option"
where
  "SAVE_ERRNO native ctx w = do {
     c \<leftarrow> ctxs w ctx;
     if cc_flags c AND CALL_CTX_SAVE_ERRNO \<noteq> 0 then jffi_save_errno_ctx native ctx w else Some w
   }"

text \<open>\<open>FAULTPROT_CTX\<close> with fault protection disabled, as it is on every platform of the source.\<close>

definition FAULTPROT_CTX ::
  "'a thread_world_scheme native \<Rightarrow> addr \<Rightarrow> ('a thread_world_scheme \<Rightarrow> ('r \<times> 'a thread_world_scheme) option)
     \<Rightarrow> 'a thread_world_scheme \<Rightarrow> ('r \<times> 'a thread_world_scheme) option"
where
  "FAULTPROT_CTX native ctx stmt w = do {
     (r, w1) \<leftarrow> stmt w;
     w2 \<leftarrow> SAVE_ERRNO native ctx w1;
     Some (r, w2)
   }"

section \<open>The thread invariant\<close>

text \<open>Every non-null slot holds a live \<open>ThreadData\<close> of its own.\<close>

definition threads_ok :: "'a thread_world_scheme \<Rightarrow> bool" where
  "threads_ok w \<longleftrightarrow> heap_ok w
     \<and> (\<forall>t. specific w t \<noteq> NULL \<longrightarrow> specific w t \<in> dom (tdata w) \<and> specific w t \<in> blocks w)
     \<and> (\<forall>t t'. specific w t \<noteq> NULL \<and> specific w t = specific w t' \<longrightarrow> t = t')"

definition saved_error :: "'a thread_world_scheme \<Rightarrow> nat \<Rightarrow> jint" where
  "saved_error w t = (case tdata w (specific w t) of Some td \<Rightarrow> (if specific w t = NULL then 0 else td_error td)
                      | None \<Rightarrow> 0)"

text \<open>\<open>saved_error\<close> is the value \<open>getLastError\<close> would return on a thread: a fresh \<open>ThreadData\<close> reads 0.\<close>

lemma thread_data_get_cases:
  assumes ok: "threads_ok w" and run: "thread_data_get w = Some (p, w')"
  obtains (failed) "p = NULL" "tdata w' = tdata w" "specific w' = specific w" "self w' = self w" "errno w' = errno w"
      "blocks w' = blocks w" "heap_ok w'"
  | (got) "p \<noteq> NULL" "threads_ok w'" "specific w' (self w') = p" "p \<in> dom (tdata w')" "self w' = self w"
      "errno w' = errno w" "\<forall>t. saved_error w' t = saved_error w t"
      "blocks w' = insert p (blocks w)"
      "\<forall>t. t \<noteq> self w \<longrightarrow> specific w' t = specific w t"
proof (cases "specific w (self w) = NULL")
  case False
  then have e: "w' = w" "specific w (self w) = p" "p \<noteq> NULL"
    using run by (auto simp: thread_data_get_def Let_def)
  then have "p \<in> dom (tdata w)" "p \<in> blocks w" using ok by (auto simp: threads_ok_def)
  with e ok show thesis by (intro got) (simp_all add: insert_absorb)
next
  case True
  then have init: "jffi_thread_data_init w = Some (p, w')" using run by (simp add: thread_data_get_def)
  obtain q w1 where c: "calloc 1 sizeof_ThreadData w = Some (q, w1)"
    using calloc_total [of 1 sizeof_ThreadData w] by blast
  have hw: "heap_ok w" using ok by (simp add: threads_ok_def)
  have h1: "heap_ok w1" by (rule calloc_ok [OF hw c])
  show thesis using c
  proof (cases rule: calloc_cases)
    case (fail sc)
    with init c have "p = NULL" and w': "w' = w\<lparr>script := sc, specific := (specific w)(self w := NULL)\<rparr>"
      by (simp_all add: jffi_thread_data_init_def)
    with True h1 fail show thesis by (intro failed) (simp_all add: heap_ok_def fun_upd_idem)
  next
    case (block sc)
    from init c block have p: "p = q" and w': "w' = w\<lparr>script := sc, live := (live w)(q \<mapsto> 1 * sizeof_ThreadData),
        tdata := (tdata w)(q \<mapsto> zero_td), specific := (specific w)(self w := q)\<rparr>"
      by (auto simp: jffi_thread_data_init_def)
    from zeroing.request_fresh [OF hw c] block(1) have fresh: "q \<notin> blocks w" by blast
    then have new: "specific w t \<noteq> q" if "specific w t \<noteq> NULL" for t
      using ok that unfolding threads_ok_def by metis
    show thesis
    proof (rule got)
      have "heap_ok w'" using h1 block by (simp add: w' heap_ok_def)
      moreover have "\<forall>t. specific w' t \<noteq> NULL \<longrightarrow> specific w' t \<in> dom (tdata w') \<and> specific w' t \<in> blocks w'"
        using ok by (auto simp: threads_ok_def w')
      moreover have "\<forall>t t'. specific w' t \<noteq> NULL \<and> specific w' t = specific w' t' \<longrightarrow> t = t'"
        using ok new unfolding threads_ok_def w' by (auto split: if_splits)
      ultimately show "threads_ok w'" by (simp add: threads_ok_def)
      show "\<forall>t. saved_error w' t = saved_error w t"
      proof
        fix t show "saved_error w' t = saved_error w t"
        proof (cases "t = self w")
          case True
          with \<open>specific w (self w) = NULL\<close> show ?thesis
            by (simp add: saved_error_def w' zero_td_def split: option.splits)
        next
          case False
          show ?thesis
          proof (cases "specific w t = NULL")
            case True
            with False block(1) show ?thesis by (simp add: saved_error_def w' split: option.splits)
          next
            case nn: False
            with new [OF nn] False show ?thesis by (simp add: saved_error_def w' split: option.splits)
          qed
        qed
      qed
      show "blocks w' = insert p (blocks w)" by (simp add: w' p)
    qed (simp_all add: w' p block(1))
  qed
qed

lemma write_td_ok: "threads_ok w \<Longrightarrow> write_td p f w = Some w' \<Longrightarrow> threads_ok w'"
  by (auto simp: write_td_def threads_ok_def heap_ok_def)

lemma write_td_frame:
  "write_td p f w = Some w' \<Longrightarrow> self w' = self w \<and> specific w' = specific w \<and> errno w' = errno w
     \<and> blocks w' = blocks w"
  by (auto simp: write_td_def)

lemma write_td_saved:
  assumes "threads_ok w" and "specific w (self w) = p" and "p \<noteq> NULL" and "write_td p f w = Some w'"
    and "\<And>td. td_error (f td) = v"
  shows "saved_error w' t = (if t = self w then v else saved_error w t)"
proof -
  from assms(4) obtain td where td: "tdata w p = Some td" and w': "w' = w\<lparr>tdata := (tdata w)(p \<mapsto> f td)\<rparr>"
    by (auto simp: write_td_def)
  show ?thesis
  proof (cases "t = self w")
    case True with assms(2,3,5) show ?thesis by (simp add: saved_error_def w')
  next
    case False
    with assms(1,2,3) have "specific w t \<noteq> p" unfolding threads_ok_def by metis
    with False show ?thesis by (simp add: saved_error_def w' split: option.splits)
  qed
qed

lemma write_td_defined: "p \<in> dom (tdata w) \<Longrightarrow> \<exists>w'. write_td p f w = Some w'"
  by (auto simp: write_td_def)

lemma thread_data_get_succeeds:
  assumes "threads_ok w" and "specific w (self w) \<noteq> NULL \<or> (\<exists>p sc. script w = p # sc \<and> p \<noteq> NULL)"
  obtains p w' where "thread_data_get w = Some (p, w')" and "p \<noteq> NULL"
proof (cases "specific w (self w) = NULL")
  case True
  with assms(2) obtain p sc where "script w = p # sc" and "p \<noteq> NULL" by auto
  with True that show thesis
    by (simp add: thread_data_get_def jffi_thread_data_init_def calloc_def malloc_def Let_def)
qed (use that in \<open>simp add: thread_data_get_def\<close>)

lemma threads_ok_fields [simp]:
  "threads_ok (w\<lparr>errno := e\<rparr>) = threads_ok w" "threads_ok (w\<lparr>self := t\<rparr>) = threads_ok w"
  by (simp_all add: threads_ok_def heap_ok_def)

lemma saved_error_fields [simp]:
  "saved_error (w\<lparr>errno := e\<rparr>) t = saved_error w t" "saved_error (w\<lparr>self := x\<rparr>) t = saved_error w t"
  by (simp_all add: saved_error_def split: option.splits)

lemma getLastError_defined:
  assumes ok: "threads_ok w" and nn: "specific w (self w) \<noteq> NULL"
  shows "getLastError w = Some (saved_error w (self w), w)"
  using assms by (auto simp: getLastError_def thread_data_get_def saved_error_def threads_ok_def)

section \<open>Properties\<close>

text \<open>Claim C9. The saved error is a variable of the thread. If the calling thread has its
  \<open>ThreadData\<close> or one can be allocated, \<open>setLastError\<close> returns, sets \<open>errno\<close> of this thread, and
  from then on \<open>getLastError\<close> on this thread returns the value without changing anything, while on
  every other thread that has its data \<open>getLastError\<close> returns what it returned before. The thread
  invariant is kept.\<close>

theorem setLastError_per_thread:
  assumes ok: "threads_ok w" and mem: "specific w (self w) \<noteq> NULL \<or> (\<exists>p sc. script w = p # sc \<and> p \<noteq> NULL)"
  shows "\<exists>w'. setLastError v w = Some w' \<and> threads_ok w' \<and> errno w' = (errno w)(self w := v)
     \<and> getLastError w' = Some (v, w')
     \<and> (\<forall>t. t \<noteq> self w \<and> specific w t \<noteq> NULL \<longrightarrow>
          map_option fst (getLastError (w'\<lparr>self := t\<rparr>)) = map_option fst (getLastError (w\<lparr>self := t\<rparr>)))"
proof -
  obtain p w1 where g: "thread_data_get w = Some (p, w1)" and p: "p \<noteq> NULL"
    by (rule thread_data_get_succeeds [OF ok mem])
  from thread_data_get_cases [OF ok g] p
  have f: "threads_ok w1" "specific w1 (self w1) = p" "p \<in> dom (tdata w1)" "self w1 = self w"
    "errno w1 = errno w" "\<forall>t. saved_error w1 t = saved_error w t" "\<forall>t. t \<noteq> self w \<longrightarrow> specific w1 t = specific w t"
    by metis+
  define w2 where "w2 = w1\<lparr>errno := (errno w1)(self w1 := v)\<rparr>"
  have ok2: "threads_ok w2" and sp2: "specific w2 (self w2) = p"
    using f(1,2) by (simp_all add: w2_def)
  obtain w' where w': "write_td p (\<lambda>td. td\<lparr>td_error := v\<rparr>) w2 = Some w'"
    using write_td_defined [of p w2] f(3) by (auto simp: w2_def)
  have run: "setLastError v w = Some w'" using g w' by (simp add: setLastError_def w2_def)
  have ok': "threads_ok w'" by (rule write_td_ok [OF ok2 w'])
  note fr = write_td_frame [OF w']
  have sv: "saved_error w' t = (if t = self w then v else saved_error w t)" for t
  proof -
    have "saved_error w2 t = saved_error w1 t" by (simp add: w2_def)
    then show ?thesis
      using write_td_saved [OF ok2 sp2 p w', of v t] f(4,6) by (simp add: w2_def)
  qed
  have "getLastError w' = Some (v, w')"
    using getLastError_defined [OF ok'] sv fr sp2 p f(4) by (simp add: w2_def)
  moreover have "map_option fst (getLastError (w'\<lparr>self := t\<rparr>)) = map_option fst (getLastError (w\<lparr>self := t\<rparr>))"
    if t: "t \<noteq> self w" "specific w t \<noteq> NULL" for t
  proof -
    have okt: "threads_ok (w'\<lparr>self := t\<rparr>)" "threads_ok (w\<lparr>self := t\<rparr>)"
      using ok' ok by simp_all
    have "specific w' t \<noteq> NULL" using t f(4,7) fr by (simp add: w2_def)
    with t show ?thesis
      using getLastError_defined [OF okt(1)] getLastError_defined [OF okt(2)] sv [of t] by simp
  qed
  moreover have "errno w' = (errno w)(self w := v)" using fr f(4,5) by (simp add: w2_def)
  ultimately show ?thesis using run ok' by blast
qed

text \<open>A world with two threads; thread 1 has saved the error 7.\<close>

definition thread_boot :: "addr list \<Rightarrow> thread_world" where
  "thread_boot sc = \<lparr>script = sc, live = [0x2000 \<mapsto> 24], find_class = (\<lambda>_. True), pending = None,
     types = image_types, ptrs = Map.empty, symbol = image_symbol,
     mem = Map.empty, stack_top = 0x7fff0000, garbage = (\<lambda>_. 0xCC), stale = (\<lambda>_. 0xDEAD),
     ctxs = [0x9000 \<mapsto> zero_ctx\<lparr>cc_flags := CALL_CTX_SAVE_ERRNO, cc_error_fn := 0x4000\<rparr>], ints = Map.empty,
     self = 0, specific = (\<lambda>_. NULL)(1 := 0x2000), tdata = [0x2000 \<mapsto> zero_td\<lparr>td_error := 7\<rparr>],
     errno = (\<lambda>_. 0)\<rparr>"

lemma thread_boot_ok:
  assumes "distinct (filter (\<lambda>p. p \<noteq> NULL) sc)" and "0x2000 \<notin> set sc"
  shows "threads_ok (thread_boot sc)"
  using assms by (auto simp: threads_ok_def heap_ok_def thread_boot_def)

theorem setLastError_per_thread_witness:
  "\<exists>w'. setLastError 5 (thread_boot [0x3000]) = Some w' \<and> getLastError w' = Some (5, w')
     \<and> map_option fst (getLastError (w'\<lparr>self := 1\<rparr>)) = Some 7"
proof -
  have ok: "threads_ok (thread_boot [0x3000])" by (rule thread_boot_ok) simp_all
  have m: "specific (thread_boot [0x3000]) (self (thread_boot [0x3000])) \<noteq> NULL
      \<or> (\<exists>p sc. script (thread_boot [0x3000]) = p # sc \<and> p \<noteq> NULL)"
    by (simp add: thread_boot_def)
  have o: "self (thread_boot [0x3000]) = 0" "specific (thread_boot [0x3000]) 1 \<noteq> NULL"
    "map_option fst (getLastError ((thread_boot [0x3000])\<lparr>self := 1\<rparr>)) = Some 7"
    by (simp_all add: thread_boot_def getLastError_def thread_data_get_def Let_def)
  from setLastError_per_thread [OF ok m, of 5] o show ?thesis by fastforce
qed

lemma save_value:
  assumes "threads_ok w" and "specific w (self w) \<noteq> NULL \<or> (\<exists>p sc. script w = p # sc \<and> p \<noteq> NULL)"
    and "\<And>u td. td_error (f u td) = g u" and "\<And>u u'. errno u = errno u' \<Longrightarrow> self u = self u' \<Longrightarrow> g u = g u'"
  shows "\<exists>w'. do { (p, w1) \<leftarrow> thread_data_get w; write_td p (f w1) w1 } = Some w'
     \<and> threads_ok w' \<and> getLastError w' = Some (g w, w')"
proof -
  obtain p w1 where t: "thread_data_get w = Some (p, w1)" and p: "p \<noteq> NULL"
    by (rule thread_data_get_succeeds [OF assms(1,2)])
  from thread_data_get_cases [OF assms(1) t] p
  have f: "threads_ok w1" "specific w1 (self w1) = p" "p \<in> dom (tdata w1)" "self w1 = self w" "errno w1 = errno w"
    by metis+
  obtain w' where w': "write_td p (f w1) w1 = Some w'" using write_td_defined [OF f(3)] by blast
  have ok': "threads_ok w'" by (rule write_td_ok [OF f(1) w'])
  note fr = write_td_frame [OF w']
  have "g w1 = g w" using assms(4) f(4,5) by metis
  then have "saved_error w' (self w') = g w"
    using write_td_saved [OF f(1,2) p w' assms(3)] fr by simp
  then have "getLastError w' = Some (g w, w')"
    using getLastError_defined [OF ok'] fr f(2) p by simp
  with t w' ok' show ?thesis by simp
qed

text \<open>Claim C10. What \<open>FAULTPROT_CTX\<close> leaves for \<open>getLastError\<close>. When the wrapped call has returned
  and the context asks for it, the saved error of the thread is the \<open>errno\<close> the call left, or, when
  the context has an error function, the low 32 bits of what that function returns when it is called
  after the call; the result of the call is passed on. A context that does not ask for it changes
  nothing after the call.\<close>

theorem FAULTPROT_CTX_saves:
  assumes call: "stmt w = Some (r, w1)" and c: "ctxs w1 ctx = Some c"
    and asked: "cc_flags c AND CALL_CTX_SAVE_ERRNO \<noteq> 0 \<Longrightarrow>
      (if cc_error_fn c = NULL then w2 = w1 \<and> e = errno w1 (self w1)
       else \<exists>x. c_call native (cc_error_fn c) [] w1 = Some (x, w2) \<and> e = ucast x)
      \<and> threads_ok w2 \<and> (specific w2 (self w2) \<noteq> NULL \<or> (\<exists>p sc. script w2 = p # sc \<and> p \<noteq> NULL))"
  shows "\<exists>w'. FAULTPROT_CTX native ctx stmt w = Some (r, w')
     \<and> (if cc_flags c AND CALL_CTX_SAVE_ERRNO \<noteq> 0 then threads_ok w' \<and> getLastError w' = Some (e, w')
        else w' = w1)"
proof (cases "cc_flags c AND CALL_CTX_SAVE_ERRNO = 0")
  case True
  with call c show ?thesis by (simp add: FAULTPROT_CTX_def SAVE_ERRNO_def)
next
  case save: False
  note a = asked [OF save]
  show ?thesis
  proof (cases "cc_error_fn c = NULL")
    case True
    with a have t: "threads_ok w1" "specific w1 (self w1) \<noteq> NULL \<or> (\<exists>p sc. script w1 = p # sc \<and> p \<noteq> NULL)"
      and e: "e = errno w1 (self w1)" by auto
    have "\<exists>w'. do { (p, w2) \<leftarrow> thread_data_get w1; write_td p (\<lambda>td. td\<lparr>td_error := errno w2 (self w2)\<rparr>) w2 } = Some w'
        \<and> threads_ok w' \<and> getLastError w' = Some (errno w1 (self w1), w')"
      by (rule save_value [OF t]) simp_all
    then obtain w' where "jffi_save_errno w1 = Some w'" "threads_ok w'" "getLastError w' = Some (e, w')"
      unfolding jffi_save_errno_def e by blast
    with call c True save show ?thesis by (simp add: FAULTPROT_CTX_def SAVE_ERRNO_def jffi_save_errno_ctx_def)
  next
    case False
    with a obtain x where x: "c_call native (cc_error_fn c) [] w1 = Some (x, w2)" "e = ucast x"
      and t: "threads_ok w2" "specific w2 (self w2) \<noteq> NULL \<or> (\<exists>p sc. script w2 = p # sc \<and> p \<noteq> NULL)" by auto
    from save_value [OF t, where f = "\<lambda>_ td. td\<lparr>td_error := ucast x\<rparr>" and g = "\<lambda>_. ucast x"]
    obtain w' where "do { (p, w3) \<leftarrow> thread_data_get w2; write_td p (\<lambda>td. td\<lparr>td_error := ucast x\<rparr>) w3 } = Some w'"
      "threads_ok w'" "getLastError w' = Some (e, w')" by (auto simp: x(2))
    with call c False save x show ?thesis
      by (simp add: FAULTPROT_CTX_def SAVE_ERRNO_def jffi_save_errno_ctx_def)
  qed
qed

theorem FAULTPROT_CTX_saves_witness:
  "\<exists>w'. FAULTPROT_CTX (\<lambda>fn regs w. Some (\<lparr>rr_rax = 0x100000009, rr_rdx = 0, rr_xmm0 = 0, rr_xmm1 = 0, rr_st0 = [], rr_st1 = []\<rparr>, w))
       0x9000 (\<lambda>w. Some ((), w)) (thread_boot [0x3000]) = Some ((), w') \<and> getLastError w' = Some (9, w')"
proof -
  let ?n = "\<lambda>fn (regs :: call_regs) (w :: thread_world). Some (\<lparr>rr_rax = 0x100000009, rr_rdx = 0, rr_xmm0 = 0, rr_xmm1 = 0, rr_st0 = [], rr_st1 = []\<rparr>, w)"
  let ?w = "thread_boot [0x3000]"
  let ?c = "zero_ctx\<lparr>cc_flags := CALL_CTX_SAVE_ERRNO, cc_error_fn := 0x4000\<rparr>"
  have ok: "threads_ok ?w" by (rule thread_boot_ok) simp_all
  have c: "ctxs ?w 0x9000 = Some ?c" by (simp add: thread_boot_def)
  have x: "c_call ?n (cc_error_fn ?c) [] ?w = Some (0x100000009, ?w)" by (simp add: c_call_def)
  have m: "specific ?w (self ?w) \<noteq> NULL \<or> (\<exists>p sc. script ?w = p # sc \<and> p \<noteq> NULL)" by (simp add: thread_boot_def)
  have asked: "(if cc_error_fn ?c = NULL then ?w = ?w \<and> (9 :: jint) = errno ?w (self ?w)
       else \<exists>x. c_call ?n (cc_error_fn ?c) [] ?w = Some (x, ?w) \<and> (9 :: jint) = ucast x)
      \<and> threads_ok ?w \<and> (specific ?w (self ?w) \<noteq> NULL \<or> (\<exists>p sc. script ?w = p # sc \<and> p \<noteq> NULL))"
    using ok m x by simp
  from FAULTPROT_CTX_saves [of "\<lambda>w. Some ((), w)" ?w "()" ?w, OF refl c asked] show ?thesis
    by (auto simp: zero_ctx_def)
qed

text \<open>Claim C11. A thread that ends gives back its \<open>ThreadData\<close> and nothing else. Provided
  detaching from the virtual machine leaves native memory alone, \<open>thread_exit\<close> returns, the blocks
  afterwards are the blocks before without this thread's, the machine the thread had been attached
  to, and only if there is one, has been asked to detach it, every other thread keeps its saved
  error, and the thread invariant holds.\<close>

theorem thread_exit_releases:
  assumes ok: "threads_ok w"
    and detach: "\<And>vm u. script (D vm u) = script u \<and> live (D vm u) = live u \<and> tdata (D vm u) = tdata u
                   \<and> specific (D vm u) = specific u \<and> self (D vm u) = self u"
    and obs: "\<And>u f g. seen (u\<lparr>live := g, tdata := f\<rparr>) = seen u"
  shows "\<exists>w'. thread_exit D w = Some w' \<and> threads_ok w' \<and> blocks w' = blocks w - {specific w (self w)}
     \<and> specific w' (self w) = NULL \<and> (\<forall>t. t \<noteq> self w \<longrightarrow> saved_error w' t = saved_error w t)
     \<and> seen w' = seen (let u = w\<lparr>specific := (specific w)(self w := NULL)\<rparr> in
         case tdata w (specific w (self w)) of
           Some td \<Rightarrow> if specific w (self w) \<noteq> NULL \<and> td_attached_vm td \<noteq> NULL then D (td_attached_vm td) u else u
         | None \<Rightarrow> u)"
proof -
  let ?p = "specific w (self w)" and ?u = "w\<lparr>specific := (specific w)(self w := NULL)\<rparr>"
  have nb: "NULL \<notin> blocks w" using ok by (simp add: threads_ok_def heap_ok_def)
  show ?thesis
  proof (cases "?p = NULL")
    case True
    then have u: "thread_exit D w = Some ?u" "?u = w" by (simp_all add: thread_exit_def Let_def fun_upd_idem)
    with True ok nb show ?thesis by (auto split: option.splits)
  next
    case False
    then obtain td where td: "tdata w ?p = Some td" and b: "?p \<in> blocks w" using ok by (auto simp: threads_ok_def)
    define v where "v = (if td_attached_vm td \<noteq> NULL then D (td_attached_vm td) ?u else ?u)"
    have v: "script v = script w" "live v = live w" "tdata v = tdata w" "self v = self w"
      "specific v = (specific w)(self w := NULL)"
      using detach by (simp_all add: v_def)
    let ?w' = "v\<lparr>live := (live v)(?p := None), tdata := (tdata v)(?p := None)\<rparr>"
    have run: "thread_exit D w = Some ?w'"
      using False td b v(2) by (simp add: thread_exit_def thread_data_free_def Let_def free_def v_def)
    have other: "specific w t \<noteq> ?p" if "t \<noteq> self w" for t
      using ok False that unfolding threads_ok_def by metis
    have "threads_ok ?w'"
    proof -
      have "heap_ok ?w'" using ok v by (auto simp: threads_ok_def heap_ok_def)
      moreover have "specific ?w' t \<in> dom (tdata ?w') \<and> specific ?w' t \<in> blocks ?w'" if "specific ?w' t \<noteq> NULL" for t
        using ok that other [of t] v by (auto simp: threads_ok_def split: if_splits)
      moreover have "t = t'" if "specific ?w' t \<noteq> NULL \<and> specific ?w' t = specific ?w' t'" for t t'
        using ok that unfolding threads_ok_def by (simp add: v split: if_splits) metis
      ultimately show ?thesis unfolding threads_ok_def by blast
    qed
    moreover have "saved_error ?w' t = saved_error w t" if "t \<noteq> self w" for t
      using that other [OF that] v by (simp add: saved_error_def split: option.splits)
    moreover have "seen ?w' = seen v" using obs [where u = v and f = "(tdata v)(?p := None)" and g = "(live v)(?p := None)"] by simp
    ultimately show ?thesis using run v False td by (auto simp: v_def Let_def)
  qed
qed

theorem thread_exit_releases_witness:
  "\<exists>w'. thread_exit (\<lambda>vm w. w\<lparr>pending := Some (JThrow ''detached'' [])\<rparr>)
       ((thread_boot [])\<lparr>self := 1, tdata := [0x2000 \<mapsto> zero_td\<lparr>td_attached_vm := 0x77\<rparr>]\<rparr>) = Some w'
     \<and> blocks w' = {} \<and> pending w' = Some (JThrow ''detached'' [])"
proof -
  let ?D = "\<lambda>(vm :: addr) (w :: thread_world). w\<lparr>pending := Some (JThrow ''detached'' [])\<rparr>"
  let ?w = "(thread_boot [])\<lparr>self := 1, tdata := [0x2000 \<mapsto> zero_td\<lparr>td_attached_vm := 0x77\<rparr>]\<rparr>"
  have ok: "threads_ok ?w" by (auto simp: threads_ok_def heap_ok_def thread_boot_def)
  from thread_exit_releases [OF ok, of ?D pending] show ?thesis
    by (auto simp: thread_boot_def Let_def)
qed

end
