(* ===== verification/Jffi_Jni.thy ===== *)
theory Jffi_Jni
  imports Jffi_Thread
begin

text \<open>
  The Java Native Interface as the sources use it. The virtual machine is outside the repository:
  its functions are the fields of a parameter \<open>J\<close> over an arbitrary state \<open>'j\<close>, and the theorems name
  what they need of the documented behaviour as hypotheses. The operations below are what one call
  does to the native world: copy bytes between a Java array and memory, or leave an exception pending.
  The C library's raw memory (\<open>malloc\<close>, \<open>free\<close>, \<open>memset\<close>) is here too.
\<close>

section \<open>Primitive types and the function table\<close>

datatype prim = JByte | JShort | JInt | JLong | JFloat | JDouble | JBoolean | JChar

fun prim_size :: "prim \<Rightarrow> nat" where
  "prim_size JByte = 1"
| "prim_size JShort = 2"
| "prim_size JInt = 4"
| "prim_size JLong = 8"
| "prim_size JFloat = 4"
| "prim_size JDouble = 8"
| "prim_size JBoolean = 1"
| "prim_size JChar = 2"

lemma prim_size_pos [simp]: "0 < prim_size p" and prim_size_le [simp]: "prim_size p \<le> 8"
  by (cases p; simp)+

type_synonym jobject = addr

text \<open>
  \<open>ArrayRegion\<close> and \<open>SetRegion\<close> check their range first: the outcome is an exception, or the bytes, or
  the effect of storing bytes. \<open>PinCritical\<close> gives a block of memory that is, or is a copy of, the
  array's; \<open>UnpinCritical\<close> takes the block's final content back.
\<close>

record 'j jni =
  ArrayLength :: "'j \<Rightarrow> jobject \<Rightarrow> jint"
  ArrayRegion :: "'j \<Rightarrow> prim \<Rightarrow> jobject \<Rightarrow> jint \<Rightarrow> jint \<Rightarrow> throwable + byte list"
  SetRegion :: "'j \<Rightarrow> prim \<Rightarrow> jobject \<Rightarrow> jint \<Rightarrow> jint \<Rightarrow> throwable + (byte list \<Rightarrow> 'j)"
  PinCritical :: "'j \<Rightarrow> jobject \<Rightarrow> (throwable option + (addr \<times> byte list)) \<times> 'j"
  PinnedSize :: "'j \<Rightarrow> addr \<Rightarrow> nat"
  UnpinCritical :: "'j \<Rightarrow> jobject \<Rightarrow> addr \<Rightarrow> byte list \<Rightarrow> 'j"
  ObjectElement :: "'j \<Rightarrow> jobject \<Rightarrow> jint \<Rightarrow> throwable + jobject"
  BufferAddress :: "'j \<Rightarrow> jobject \<Rightarrow> addr"

record 'j jni_world = thread_world +
  jvm :: 'j

section \<open>Calls into the virtual machine\<close>

definition jthrow :: "throwable \<Rightarrow> ('j, 'a) jni_world_scheme \<Rightarrow> ('j, 'a) jni_world_scheme" where
  "jthrow x w = w\<lparr>pending := Some x\<rparr>"

definition GetArrayRegion ::
  "'j jni \<Rightarrow> prim \<Rightarrow> jobject \<Rightarrow> jint \<Rightarrow> jint \<Rightarrow> addr \<Rightarrow> ('j, 'a) jni_world_scheme
     \<Rightarrow> ('j, 'a) jni_world_scheme option"
where
  "GetArrayRegion J p obj off len buf w =
     (case ArrayRegion J (jvm w) p obj off len of
        Inl x \<Rightarrow> Some (jthrow x w)
      | Inr bs \<Rightarrow> map_option (\<lambda>m. w\<lparr>mem := m\<rparr>) (store (mem w) buf bs))"

definition SetArrayRegion ::
  "'j jni \<Rightarrow> prim \<Rightarrow> jobject \<Rightarrow> jint \<Rightarrow> jint \<Rightarrow> addr \<Rightarrow> ('j, 'a) jni_world_scheme
     \<Rightarrow> ('j, 'a) jni_world_scheme option"
where
  "SetArrayRegion J p obj off len buf w =
     (case SetRegion J (jvm w) p obj off len of
        Inl x \<Rightarrow> Some (jthrow x w)
      | Inr k \<Rightarrow> map_option (\<lambda>bs. w\<lparr>jvm := k bs\<rparr>) (load (mem w) buf (nat (sint len) * prim_size p)))"

definition unmap :: "addr \<Rightarrow> nat \<Rightarrow> memory \<Rightarrow> memory" where
  "unmap p n m = m |` (- span p n)"

definition GetPrimitiveArrayCritical ::
  "'j jni \<Rightarrow> jobject \<Rightarrow> ('j, 'a) jni_world_scheme \<Rightarrow> addr \<times> ('j, 'a) jni_world_scheme"
where
  "GetPrimitiveArrayCritical J obj w =
     (case PinCritical J (jvm w) obj of
        (Inl None, j) \<Rightarrow> (NULL, w\<lparr>jvm := j\<rparr>)
      | (Inl (Some x), j) \<Rightarrow> (NULL, jthrow x (w\<lparr>jvm := j\<rparr>))
      | (Inr (p, bs), j) \<Rightarrow> (p, w\<lparr>jvm := j, mem := map_block p bs (mem w)\<rparr>))"

definition ReleasePrimitiveArrayCritical ::
  "'j jni \<Rightarrow> jobject \<Rightarrow> addr \<Rightarrow> ('j, 'a) jni_world_scheme \<Rightarrow> ('j, 'a) jni_world_scheme option"
where
  "ReleasePrimitiveArrayCritical J obj p w =
     map_option (\<lambda>bs. w\<lparr>jvm := UnpinCritical J (jvm w) obj p bs,
                        mem := unmap p (PinnedSize J (jvm w) p) (mem w)\<rparr>)
       (load (mem w) p (PinnedSize J (jvm w) p))"

section \<open>Raw memory of the C library\<close>

definition malloc_mem :: "size_t \<Rightarrow> 'a mem_world_scheme \<Rightarrow> (addr \<times> 'a mem_world_scheme) option" where
  "malloc_mem n w = do {
     (p, w1) \<leftarrow> malloc n w;
     Some (p, if p = NULL then w1 else w1\<lparr>mem := map_block p (fresh_bytes w1 p (unat n)) (mem w1)\<rparr>)
   }"

definition free_mem :: "addr \<Rightarrow> 'a mem_world_scheme \<Rightarrow> 'a mem_world_scheme option" where
  "free_mem p w =
     (if p = NULL then Some w
      else do {
        n \<leftarrow> live w p;
        w1 \<leftarrow> free p w;
        Some (w1\<lparr>mem := unmap p (unat n) (mem w1)\<rparr>)
      })"

definition memset :: "addr \<Rightarrow> byte \<Rightarrow> nat \<Rightarrow> 'a mem_world_scheme \<Rightarrow> 'a mem_world_scheme option" where
  "memset p b n w = map_option (\<lambda>m. w\<lparr>mem := m\<rparr>) (store (mem w) p (replicate n b))"

section \<open>Lemmas on blocks of memory\<close>

lemma unmap_outside: "a \<notin> span p n \<Longrightarrow> unmap p n m a = m a"
  by (simp add: unmap_def)

lemma unmap_map_block:
  assumes "span p (length bs) \<inter> dom m = {}" shows "unmap p (length bs) (map_block p bs m) = m"
proof
  fix a
  show "unmap p (length bs) (map_block p bs m) a = m a"
    using assms by (cases "a \<in> span p (length bs)"; cases "m a") (auto simp: unmap_def map_block_outside)
qed

lemma unmap_cong: "(\<And>a. a \<notin> span p n \<Longrightarrow> m a = m' a) \<Longrightarrow> unmap p n m = unmap p n m'"
  by (auto simp: unmap_def restrict_map_def)

end
