(* ===== verification/Jffi_Array.thy ===== *)
theory Jffi_Array
  imports Jffi_Jni
begin

text \<open>
  \<^verbatim>\<open>jni/jffi/Array.c\<close> and \<^verbatim>\<open>Array.h\<close>: Java arrays as arguments. An array is copied to a native
  buffer (on the stack or from \<open>malloc\<close>) or pinned; after the call it is copied back if the flags
  say so and its backing memory is released. The flag bits are the constants of
  \<^verbatim>\<open>ObjectBuffer.java\<close>. The function pointers of \<open>struct Array\<close> are data here.
\<close>

section \<open>Flags and the record\<close>

abbreviation (input) OB_IN :: jint where "OB_IN \<equiv> 0x1"
abbreviation (input) OB_OUT :: jint where "OB_OUT \<equiv> 0x2"
abbreviation (input) OB_ZERO_TERMINATE :: jint where "OB_ZERO_TERMINATE \<equiv> 0x4"
abbreviation (input) OB_PINNED :: jint where "OB_PINNED \<equiv> 0x8"
abbreviation (input) OB_CLEAR :: jint where "OB_CLEAR \<equiv> 0x10"
abbreviation (input) OB_INDEX_MASK :: jint where "OB_INDEX_MASK \<equiv> 0x00ff0000"
abbreviation (input) OB_TYPE_MASK :: jint where "OB_TYPE_MASK \<equiv> 0xff000000"
abbreviation (input) OB_PRIM_MASK :: jint where "OB_PRIM_MASK \<equiv> 0x0f000000"
abbreviation (input) OB_ARRAY :: jint where "OB_ARRAY \<equiv> 0x10000000"
abbreviation (input) OB_BUFFER :: jint where "OB_BUFFER \<equiv> 0x20000000"
abbreviation (input) OB_JNI :: jint where "OB_JNI \<equiv> 0x40000000"

definition IS_PINNED_ARRAY :: "jint \<Rightarrow> bool" where
  "IS_PINNED_ARRAY flags \<longleftrightarrow> flags AND (OB_ARRAY OR OB_PINNED) = OB_ARRAY OR OB_PINNED"

definition IS_UNPINNED_ARRAY :: "jint \<Rightarrow> bool" where
  "IS_UNPINNED_ARRAY flags \<longleftrightarrow> flags AND (OB_ARRAY OR OB_PINNED) = OB_ARRAY"

definition IS_OUT_ARRAY :: "jint \<Rightarrow> bool" where
  "IS_OUT_ARRAY flags \<longleftrightarrow> flags AND (OB_ARRAY OR OB_IN OR OB_OUT) \<noteq> OB_ARRAY OR OB_IN"

definition IS_IN_ARRAY :: "jint \<Rightarrow> bool" where
  "IS_IN_ARRAY flags \<longleftrightarrow> flags AND (OB_ARRAY OR OB_IN OR OB_OUT) \<noteq> OB_ARRAY OR OB_OUT"

definition prim_of :: "jint \<Rightarrow> prim option" where
  "prim_of type =
     (let c = type AND OB_PRIM_MASK in
      if c = 0x1000000 then Some JByte
      else if c = 0x2000000 then Some JShort
      else if c = 0x3000000 then Some JInt
      else if c = 0x4000000 then Some JLong
      else if c = 0x5000000 then Some JFloat
      else if c = 0x6000000 then Some JDouble
      else if c = 0x7000000 then Some JBoolean
      else if c = 0x8000000 then Some JChar
      else None)"

datatype array_release = ReleaseHeap | ReleaseCritical

record Array =
  ar_copyin :: "prim option"
  ar_copyout :: "prim option"
  ar_release :: "array_release option"
  ar_array :: jobject
  ar_elems :: addr
  ar_offset :: jint
  ar_length :: jint
  ar_type :: jint

section \<open>Copying in\<close>

text \<open>A byte offset or count computed from a signed \<open>int\<close> in pointer arithmetic.\<close>

abbreviation (input) widen :: "jint \<Rightarrow> 64 word" where "widen i \<equiv> scast i"

text \<open>\<open>COPY_DATA\<close>: the boolean is false when the macro returns \<open>NULL\<close> from the enclosing function.\<close>

definition COPY_DATA ::
  "'j jni \<Rightarrow> prim \<Rightarrow> jint \<Rightarrow> jobject \<Rightarrow> jint \<Rightarrow> jint \<Rightarrow> addr \<Rightarrow> ('j, 'a) jni_world_scheme
     \<Rightarrow> (bool \<times> ('j, 'a) jni_world_scheme) option"
where
  "COPY_DATA J p flags obj offset len elems w =
     (if IS_IN_ARRAY flags
      then map_option (\<lambda>w1. (\<not> raised w1, w1)) (GetArrayRegion J p obj offset len elems w)
      else if flags AND OB_CLEAR \<noteq> 0
      then map_option (\<lambda>w1. (True, w1)) (memset elems 0 (unat (widen len * of_nat (prim_size p))) w)
      else Some (True, w))"

definition SET_COPYOUT :: "prim \<Rightarrow> jint \<Rightarrow> prim option" where
  "SET_COPYOUT p flags = (if IS_OUT_ARRAY flags then Some p else None)"

text \<open>The terminator of a byte array that was really a string.\<close>

definition nul_terminate :: "jint \<Rightarrow> addr \<Rightarrow> jint \<Rightarrow> 'a mem_world_scheme \<Rightarrow> 'a mem_world_scheme option" where
  "nul_terminate type elems len w =
     (if type AND (OB_ZERO_TERMINATE OR OB_IN OR OB_OUT) \<noteq> OB_OUT
      then memset (elems + widen len) 0 1 w else Some w)"

definition GET_ARRAY_BUFFER ::
  "'j jni \<Rightarrow> prim \<Rightarrow> Array \<Rightarrow> ('j, 'a) jni_world_scheme \<Rightarrow> ((bool \<times> Array) \<times> ('j, 'a) jni_world_scheme) option"
where
  "GET_ARRAY_BUFFER J p ary w = do {
     (ok, w1) \<leftarrow> COPY_DATA J p (ar_type ary) (ar_array ary) (ar_offset ary) (ar_length ary) (ar_elems ary) w;
     Some ((ok, if ok then ary\<lparr>ar_copyout := SET_COPYOUT p (ar_type ary)\<rparr> else ary), w1)
   }"

text \<open>\<open>int allocSize = sizeof(NTYPE) * (length + 1)\<close>: computed as \<open>size_t\<close>, cut to \<open>int\<close>.\<close>

definition alloc_size :: "prim \<Rightarrow> jint \<Rightarrow> jint" where
  "alloc_size p len = ucast (of_nat (prim_size p) * widen (len + 1) :: size_t)"

definition GET_ARRAY_HEAP ::
  "'j jni \<Rightarrow> prim \<Rightarrow> Array \<Rightarrow> ('j, 'a) jni_world_scheme \<Rightarrow> ((bool \<times> Array) \<times> ('j, 'a) jni_world_scheme) option"
where
  "GET_ARRAY_HEAP J p ary w = do {
     allocSize \<leftarrow> Some (alloc_size p (ar_length ary));
     (elems, w1) \<leftarrow> malloc_mem (widen allocSize) w;
     if elems = NULL
     then Some ((False, ary\<lparr>ar_elems := NULL\<rparr>),
                throwException OutOfMemory ''failed to allocate native array of %d bytes'' [ArgInt allocSize] w1)
     else GET_ARRAY_BUFFER J p (ary\<lparr>ar_elems := elems\<rparr>) w1
   }"

text \<open>The result of the two functions below is the pointer they return and the record they fill.\<close>

definition jffi_getArrayHeap ::
  "'j jni \<Rightarrow> jobject \<Rightarrow> jint \<Rightarrow> jint \<Rightarrow> jint \<Rightarrow> ('j, 'a) jni_world_scheme
     \<Rightarrow> ((addr \<times> Array) \<times> ('j, 'a) jni_world_scheme) option"
where
  "jffi_getArrayHeap J buf offset len type w =
     (let ary = \<lparr>ar_copyin = None, ar_copyout = None, ar_release = Some ReleaseHeap, ar_array = buf,
                 ar_elems = NULL, ar_offset = offset, ar_length = len, ar_type = type\<rparr>
      in case prim_of type of
           None \<Rightarrow> Some ((NULL, ary), throwException IllegalArgument (''invalid array type: %#x'' @ [CHR 0x0A]) [ArgInt type] w)
         | Some p \<Rightarrow> do {
             ((ok, ary), w1) \<leftarrow> GET_ARRAY_HEAP J p ary w;
             if \<not> ok then Some ((NULL, ary), w1)
             else do {
               w2 \<leftarrow> (if p = JByte then nul_terminate type (ar_elems ary) len w1 else Some w1);
               Some ((ar_elems ary, ary), w2)
             }
           })"

definition jffi_getArrayBuffer ::
  "'j jni \<Rightarrow> jobject \<Rightarrow> jint \<Rightarrow> jint \<Rightarrow> jint \<Rightarrow> addr \<Rightarrow> ('j, 'a) jni_world_scheme
     \<Rightarrow> ((addr \<times> Array) \<times> ('j, 'a) jni_world_scheme) option"
where
  "jffi_getArrayBuffer J buf offset len type buffer w =
     (let ary = \<lparr>ar_copyin = None, ar_copyout = None, ar_release = None, ar_array = buf,
                 ar_elems = buffer, ar_offset = offset, ar_length = len, ar_type = type\<rparr>
      in case prim_of type of
           None \<Rightarrow> Some ((NULL, ary), throwException IllegalArgument (''Invalid array type: %#x'' @ [CHR 0x0A]) [ArgInt type] w)
         | Some p \<Rightarrow> do {
             ((ok, ary), w1) \<leftarrow> GET_ARRAY_BUFFER J p ary w;
             if \<not> ok then Some ((NULL, ary), w1)
             else do {
               w2 \<leftarrow> (if p = JByte then nul_terminate type (ar_elems ary) len w1 else Some w1);
               Some ((ar_elems ary, ary), w2)
             }
           })"

text \<open>\<open>length * sizeof(...)\<close> as \<open>size_t\<close>, returned as \<open>int\<close>.\<close>

definition jffi_arraySize :: "jint \<Rightarrow> jint \<Rightarrow> jint" where
  "jffi_arraySize len type =
     (case prim_of type of
        Some p \<Rightarrow> ucast (widen len * of_nat (prim_size p))
      | None \<Rightarrow> len * 8)"

definition jffi_getArrayCritical ::
  "'j jni \<Rightarrow> jobject \<Rightarrow> jint \<Rightarrow> jint \<Rightarrow> jint \<Rightarrow> array_release option \<Rightarrow> ('j, 'a) jni_world_scheme
     \<Rightarrow> (addr \<times> Array) \<times> ('j, 'a) jni_world_scheme"
where
  "jffi_getArrayCritical J buf offset len type old_release w =
     (let (elems, w1) = GetPrimitiveArrayCritical J buf w;
          ary = \<lparr>ar_copyin = None, ar_copyout = None, ar_release = old_release, ar_array = buf,
                 ar_elems = elems, ar_offset = offset, ar_length = len, ar_type = type\<rparr>
      in if elems = NULL
         then ((NULL, ary),
               if raised w1 then w1 else throwException NullPointer ''failed to pin native array'' [] w1)
         else ((elems + widen offset, ary\<lparr>ar_release := Some ReleaseCritical\<rparr>), w1))"

section \<open>Copying out and releasing\<close>

definition jffi_releaseArray ::
  "'j jni \<Rightarrow> Array \<Rightarrow> ('j, 'a) jni_world_scheme \<Rightarrow> ('j, 'a) jni_world_scheme option"
where
  "jffi_releaseArray J ary w = do {
     w1 \<leftarrow> (case ar_copyout ary of
              Some p \<Rightarrow> if IS_OUT_ARRAY (ar_type ary) \<and> \<not> raised w
                        then SetArrayRegion J p (ar_array ary) (ar_offset ary) (ar_length ary) (ar_elems ary) w
                        else Some w
            | None \<Rightarrow> Some w);
     case ar_release ary of
       None \<Rightarrow> Some w1
     | Some ReleaseHeap \<Rightarrow> free_mem (ar_elems ary) w1
     | Some ReleaseCritical \<Rightarrow> ReleasePrimitiveArrayCritical J (ar_array ary) (ar_elems ary) w1
   }"

text \<open>The loop goes from the last array to the first.\<close>

fun release_loop :: "'j jni \<Rightarrow> Array list \<Rightarrow> ('j, 'a) jni_world_scheme \<Rightarrow> ('j, 'a) jni_world_scheme option" where
  "release_loop J [] w = Some w"
| "release_loop J (ary # arrays) w = do { w1 \<leftarrow> jffi_releaseArray J ary w; release_loop J arrays w1 }"

definition jffi_releaseArrays ::
  "'j jni \<Rightarrow> Array list \<Rightarrow> ('j, 'a) jni_world_scheme \<Rightarrow> ('j, 'a) jni_world_scheme option"
where
  "jffi_releaseArrays J arrays w = release_loop J (rev arrays) w"

lemma release_single: "jffi_releaseArrays J [ary] w = jffi_releaseArray J ary w"
  by (cases "jffi_releaseArray J ary w") (simp_all add: jffi_releaseArrays_def)

section \<open>Copying in: what the buffer holds\<close>

text \<open>The interface documents that a region of \<open>len\<close> elements is that many elements.\<close>

definition region_law :: "'j jni \<Rightarrow> bool" where
  "region_law J \<longleftrightarrow> (\<forall>j p obj off len bs. ArrayRegion J j p obj off len = Inr bs \<longrightarrow>
     length bs = nat (sint len) * prim_size p)"

text \<open>The specification of the copy: an exception, or the bytes the buffer starts with if any are
  written.\<close>

definition copied_in :: "'j jni \<Rightarrow> 'j \<Rightarrow> prim \<Rightarrow> jint \<Rightarrow> jobject \<Rightarrow> jint \<Rightarrow> jint \<Rightarrow> throwable + byte list option" where
  "copied_in J j p flags obj off len =
     (if IS_IN_ARRAY flags
      then (case ArrayRegion J j p obj off len of Inl x \<Rightarrow> Inl x | Inr bs \<Rightarrow> Inr (Some bs))
      else if flags AND OB_CLEAR \<noteq> 0 then Inr (Some (replicate (nat (sint len) * prim_size p) 0))
      else Inr None)"

lemma widen_nat: "0 \<le> sint i \<Longrightarrow> widen i = of_nat (nat (sint i))"
  by (simp add: of_nat_nat)

lemma widen_mult:
  assumes "0 \<le> sint i" and "k \<le> 8" shows "unat (widen i * of_nat k) = nat (sint i) * k"
proof -
  have "nat (sint i) * k \<le> 2 ^ 31 * 8" using sint_jint_lt [of i] assms by (intro mult_mono) auto
  then have "nat (sint i) * k < 2 ^ 64" by (rule le_less_trans) simp
  then have "unat (of_nat (nat (sint i) * k) :: 64 word) = nat (sint i) * k" by (rule unat_of_nat64)
  with assms show ?thesis by (simp only: widen_nat of_nat_mult)
qed

lemma unat_widen: "0 \<le> sint i \<Longrightarrow> unat (widen i) = nat (sint i)"
  using widen_mult [of i 1] by simp

lemma widen_negative: "sint i < 0 \<Longrightarrow> 2 ^ 63 \<le> unat (widen i)"
proof -
  assume n: "sint i < 0"
  have "- (2 ^ 31) \<le> sint i" using sint_ge [of i] by simp
  then have "take_bit 64 (sint i) = sint i + 2 ^ 64"
    using n by (simp add: take_bit_eq_mod) (smt (verit) mod_add_self2 mod_pos_pos_trivial)
  moreover have "uint (widen i) = take_bit 64 (sint i)" by (simp only: scast_eq unsigned_of_int) simp
  ultimately have "uint (widen i) = sint i + 2 ^ 64" by simp
  with \<open>- (2 ^ 31) \<le> sint i\<close> have "2 ^ 63 \<le> uint (widen i)" by simp
  then show ?thesis by (simp only: unat_eq_nat_uint le_nat_iff uint_ge_0) simp
qed

lemma copied_length:
  "region_law J \<Longrightarrow> copied_in J j p flags obj off len = Inr (Some bs) \<Longrightarrow> length bs = nat (sint len) * prim_size p"
  by (auto simp: copied_in_def region_law_def split: if_splits sum.splits)

lemma COPY_DATA_spec:
  assumes law: "region_law J" and len: "0 \<le> sint len" and room: "span elems (nat (sint len) * prim_size p) \<subseteq> dom (mem w)"
    and nr: "\<not> raised w"
  obtains (exn) x where "copied_in J (jvm w) p flags obj off len = Inl x"
      "COPY_DATA J p flags obj off len elems w = Some (False, jthrow x w)"
  | (skip) "copied_in J (jvm w) p flags obj off len = Inr None"
      "COPY_DATA J p flags obj off len elems w = Some (True, w)"
  | (bytes) bs m where "copied_in J (jvm w) p flags obj off len = Inr (Some bs)" "store (mem w) elems bs = Some m"
      "COPY_DATA J p flags obj off len elems w = Some (True, w\<lparr>mem := m\<rparr>)"
proof (cases "copied_in J (jvm w) p flags obj off len")
  case (Inl x)
  then show thesis
    by (intro exn) (auto simp: copied_in_def COPY_DATA_def GetArrayRegion_def jthrow_def split: if_splits sum.splits)
next
  case (Inr r)
  show thesis
  proof (cases r)
    case None
    with Inr show thesis
      by (intro skip) (auto simp: copied_in_def COPY_DATA_def split: if_splits sum.splits)
  next
    case (Some bs)
    with Inr have c: "copied_in J (jvm w) p flags obj off len = Inr (Some bs)" by simp
    with room have "span elems (length bs) \<subseteq> dom (mem w)" using copied_length [OF law c] by simp
    then obtain m where m: "store (mem w) elems bs = Some m" using store_defined [of "mem w" elems bs] by blast
    have "COPY_DATA J p flags obj off len elems w = Some (True, w\<lparr>mem := m\<rparr>)"
      using c m nr widen_mult [OF len prim_size_le, of p]
      by (auto simp: copied_in_def COPY_DATA_def GetArrayRegion_def memset_def split: if_splits sum.splits)
    with c m show thesis by (rule bytes)
  qed
qed

lemma arraySize_nat:
  assumes "0 \<le> sint len" and "sint len < 2 ^ 28 - 1" and "prim_of type = Some p"
  shows "unat (jffi_arraySize (len + 1) type) = (nat (sint len) + 1) * prim_size p"
proof -
  have s: "sint (len + 1) = sint len + 1" by (rule sint_plus1) (use assms in auto)
  then have m: "unat (widen (len + 1) * of_nat (prim_size p)) = (nat (sint len) + 1) * prim_size p"
    using assms(1) widen_mult [of "len + 1" "prim_size p"] by (simp add: nat_add_distrib)
  have "nat (sint len) < 2 ^ 28 - 1" using assms(2) by (simp add: nat_less_iff)
  then have "nat (sint len) + 1 < 2 ^ 28" by simp
  then have "(nat (sint len) + 1) * prim_size p \<le> (2 ^ 28 - 1) * 8" by (intro mult_mono) auto
  then have lt: "(nat (sint len) + 1) * prim_size p < 2 ^ 32" by simp
  have "unat (ucast (widen (len + 1) * of_nat (prim_size p)) :: jint) = (nat (sint len) + 1) * prim_size p"
    using take_bit_nat_eq_self [OF lt] by (simp add: unsigned_ucast_eq m)
  then show ?thesis by (simp only: jffi_arraySize_def assms(3) option.case)
qed

text \<open>What a filled buffer of \<open>n\<close> bytes at \<open>buffer\<close> is, relative to the world before.\<close>

definition filled ::
  "'j jni \<Rightarrow> prim \<Rightarrow> Array \<Rightarrow> nat \<Rightarrow> ('j, 'a) jni_world_scheme \<Rightarrow> addr \<Rightarrow> ('j, 'a) jni_world_scheme \<Rightarrow> bool"
where
  "filled J p ary n w ptr w' \<longleftrightarrow>
     (\<forall>a. a \<notin> span (ar_elems ary) n \<longrightarrow> mem w' a = mem w a)
   \<and> dom (mem w') = dom (mem w) \<and> live w' = live w \<and> script w' = script w \<and> jvm w' = jvm w
   \<and> (case copied_in J (jvm w) p (ar_type ary) (ar_array ary) (ar_offset ary) (ar_length ary) of
        Inl x \<Rightarrow> ptr = NULL \<and> pending w' = Some x
      | Inr c \<Rightarrow> ptr = ar_elems ary \<and> pending w' = None
          \<and> (\<forall>bs. c = Some bs \<longrightarrow> load (mem w') ptr (length bs) = Some bs)
          \<and> (p = JByte \<and> ar_type ary AND (OB_ZERO_TERMINATE OR OB_IN OR OB_OUT) \<noteq> OB_OUT
               \<longrightarrow> mem w' (ptr + widen (ar_length ary)) = Some 0))"

text \<open>The end of both \<open>jffi_getArrayBuffer\<close> and \<open>jffi_getArrayHeap\<close>.\<close>

definition fill ::
  "'j jni \<Rightarrow> prim \<Rightarrow> Array \<Rightarrow> ('j, 'a) jni_world_scheme \<Rightarrow> ((addr \<times> Array) \<times> ('j, 'a) jni_world_scheme) option"
where
  "fill J p ary w = do {
     ((ok, ary), w1) \<leftarrow> GET_ARRAY_BUFFER J p ary w;
     if \<not> ok then Some ((NULL, ary), w1)
     else do {
       w2 \<leftarrow> (if p = JByte then nul_terminate (ar_type ary) (ar_elems ary) (ar_length ary) w1 else Some w1);
       Some ((ar_elems ary, ary), w2)
     }
   }"

lemma end_notin_span: "k < 2 ^ 64 \<Longrightarrow> (p :: addr) + of_nat k \<notin> span p k"
proof
  assume k: "k < 2 ^ 64" and "p + of_nat k \<in> span p k"
  then obtain i where i: "i < k" "(of_nat k :: 64 word) = of_nat i" by (auto simp: span_iff)
  then have "unat (of_nat k :: 64 word) = unat (of_nat i :: 64 word)" by simp
  with i(1) k show False by (simp add: unat_of_nat64)
qed

lemma end_in_span: "(p :: addr) + of_nat k \<in> span p (k + 1)"
  unfolding span_iff by (intro exI [of _ k]) simp

lemma nul_step:
  assumes "p = JByte \<longrightarrow> e + widen len \<in> dom (mem w)"
  shows "(if p = JByte then nul_terminate type e len w else Some w) =
    Some (w\<lparr>mem := (if p = JByte \<and> type AND (OB_ZERO_TERMINATE OR OB_IN OR OB_OUT) \<noteq> OB_OUT
                     then (mem w)(e + widen len \<mapsto> 0) else mem w)\<rparr>)"
  using assms by (auto simp: nul_terminate_def memset_def)

lemma fill_eq:
  "COPY_DATA J p (ar_type ary) (ar_array ary) (ar_offset ary) (ar_length ary) (ar_elems ary) w = Some (True, w1)
   \<Longrightarrow> fill J p ary w = map_option (\<lambda>w2. ((ar_elems ary, ary\<lparr>ar_copyout := SET_COPYOUT p (ar_type ary)\<rparr>), w2))
         (if p = JByte then nul_terminate (ar_type ary) (ar_elems ary) (ar_length ary) w1 else Some w1)"
  by (cases "nul_terminate (ar_type ary) (ar_elems ary) (ar_length ary) w1")
     (auto simp: fill_def GET_ARRAY_BUFFER_def)

lemma fill_filled:
  assumes law: "region_law J" and len: "0 \<le> sint (ar_length ary)" and nr: "\<not> raised w"
    and n: "n = (nat (sint (ar_length ary)) + 1) * prim_size p"
    and room: "span (ar_elems ary) n \<subseteq> dom (mem w)"
  shows "\<exists>ptr ary' w'. fill J p ary w = Some ((ptr, ary'), w') \<and> filled J p ary n w ptr w'
     \<and> ary' = (if \<not> raised w' then ary\<lparr>ar_copyout := SET_COPYOUT p (ar_type ary)\<rparr> else ary)"
proof -
  let ?len = "nat (sint (ar_length ary))" and ?e = "ar_elems ary"
  let ?k = "?len * prim_size p"
  have kn: "?k \<le> n" by (simp add: n)
  have room': "span ?e ?k \<subseteq> dom (mem w)" using room span_mono [OF kn, of ?e] by blast
  have lt: "?len < 2 ^ 31" using sint_jint_lt [of "ar_length ary"] by (simp add: nat_less_iff len)
  let ?t = "p = JByte \<and> ar_type ary AND (OB_ZERO_TERMINATE OR OB_IN OR OB_OUT) \<noteq> OB_OUT"
  let ?fin = "?e + widen (ar_length ary)"
  have e: "p = JByte \<longrightarrow> ?fin \<in> span ?e n \<and> ?fin \<notin> span ?e ?k"
    using end_in_span [of ?e ?len] end_notin_span [of ?len ?e] lt by (simp add: widen_nat [OF len] n)
  define tmem where "tmem m = (if ?t then m(?fin \<mapsto> (0 :: byte)) else m)" for m :: memory
  have tm: "dom (tmem m) = dom m" "(\<forall>a. a \<notin> span ?e n \<longrightarrow> tmem m a = m a)" "?t \<longrightarrow> tmem m ?fin = Some 0"
    if "dom m = dom (mem w)" for m
    using that e room by (auto simp: tmem_def)
  show ?thesis
  proof (rule COPY_DATA_spec [OF law len room' nr, of "ar_type ary" "ar_array ary" "ar_offset ary"])
    fix x
    assume "copied_in J (jvm w) p (ar_type ary) (ar_array ary) (ar_offset ary) (ar_length ary) = Inl x"
      and "COPY_DATA J p (ar_type ary) (ar_array ary) (ar_offset ary) (ar_length ary) ?e w = Some (False, jthrow x w)"
    then show ?thesis by (simp add: fill_def GET_ARRAY_BUFFER_def filled_def jthrow_def)
  next
    assume c: "copied_in J (jvm w) p (ar_type ary) (ar_array ary) (ar_offset ary) (ar_length ary) = Inr None"
      and r: "COPY_DATA J p (ar_type ary) (ar_array ary) (ar_offset ary) (ar_length ary) ?e w = Some (True, w)"
    have "p = JByte \<longrightarrow> ?fin \<in> dom (mem w)" using e room by blast
    have "fill J p ary w = Some ((?e, ary\<lparr>ar_copyout := SET_COPYOUT p (ar_type ary)\<rparr>), w\<lparr>mem := tmem (mem w)\<rparr>)"
      unfolding fill_eq [OF r] nul_step [OF \<open>p = JByte \<longrightarrow> ?fin \<in> dom (mem w)\<close>] tmem_def by simp
    with c nr tm [of "mem w"] show ?thesis by (auto simp: filled_def)
  next
    fix bs m
    assume c: "copied_in J (jvm w) p (ar_type ary) (ar_array ary) (ar_offset ary) (ar_length ary) = Inr (Some bs)"
      and m: "store (mem w) ?e bs = Some m"
      and r: "COPY_DATA J p (ar_type ary) (ar_array ary) (ar_offset ary) (ar_length ary) ?e w = Some (True, w\<lparr>mem := m\<rparr>)"
    have d: "dom m = dom (mem w)" by (rule store_dom [OF m])
    have lb: "length bs = ?k" by (rule copied_length [OF law c])
    have "?k \<le> 2 ^ 31 * 8" using lt by (intro mult_mono) auto
    then have "length bs \<le> 2 ^ 64" by (simp add: lb)
    then have ld: "load m ?e (length bs) = Some bs" by (rule load_store_same [OF m])
    have "load (tmem m) ?e (length bs) = load m ?e (length bs)"
      by (rule load_cong) (use e in \<open>auto simp: tmem_def lb\<close>)
    with ld have ld: "load (tmem m) ?e (length bs) = Some bs" by simp
    have out: "m a = mem w a" if "a \<notin> span ?e n" for a
      by (rule store_outside [OF m]) (use that span_mono [OF kn, of ?e] lb in auto)
    have "p = JByte \<longrightarrow> ?fin \<in> dom m" using e room d by blast
    then have at_end: "p = JByte \<longrightarrow> ?fin \<in> dom (mem (w\<lparr>mem := m\<rparr>))" by simp
    have "fill J p ary w = Some ((?e, ary\<lparr>ar_copyout := SET_COPYOUT p (ar_type ary)\<rparr>), w\<lparr>mem := tmem m\<rparr>)"
      unfolding fill_eq [OF r] nul_step [OF at_end] tmem_def by simp
    with c nr tm [OF d] out d ld show ?thesis by (auto simp: filled_def)
  qed
qed

lemma getArrayBuffer_fill:
  assumes "prim_of type = Some p"
  shows "jffi_getArrayBuffer J buf off len type buffer w =
    fill J p \<lparr>ar_copyin = None, ar_copyout = None, ar_release = None, ar_array = buf,
              ar_elems = buffer, ar_offset = off, ar_length = len, ar_type = type\<rparr> w"
  by (auto simp: jffi_getArrayBuffer_def fill_def GET_ARRAY_BUFFER_def assms Let_def split: bind_splits)

definition heap_array :: "jobject \<Rightarrow> jint \<Rightarrow> jint \<Rightarrow> jint \<Rightarrow> addr \<Rightarrow> Array" where
  "heap_array buf off len type elems =
     \<lparr>ar_copyin = None, ar_copyout = None, ar_release = Some ReleaseHeap, ar_array = buf,
      ar_elems = elems, ar_offset = off, ar_length = len, ar_type = type\<rparr>"

lemma getArrayHeap_fill:
  assumes "prim_of type = Some p" and "malloc_mem (widen (alloc_size p len)) w = Some (q, w1)" and "q \<noteq> NULL"
  shows "jffi_getArrayHeap J buf off len type w = fill J p (heap_array buf off len type q) w1"
  using assms
  by (auto simp: jffi_getArrayHeap_def fill_def GET_ARRAY_BUFFER_def GET_ARRAY_HEAP_def heap_array_def Let_def
           split: bind_splits)

section \<open>Properties\<close>

text \<open>Claim C12. Copying into a stack buffer. For a region of \<open>0 \<le> length < 2^28 - 1\<close> elements and a
  buffer of the \<open>jffi_arraySize(length + 1, type)\<close> bytes the callers allocate,
  \<open>jffi_getArrayBuffer\<close> never writes outside the buffer and maps nothing. When the array is an
  input, either the region is out of range and the exception of the virtual machine is pending and
  the result is null, or the buffer starts with the bytes of the region; for a pure output it is
  cleared if that is asked for. Byte arrays are followed by a zero byte, unless they are pure
  outputs without the terminator flag.\<close>

theorem getArrayBuffer_copies_in:
  assumes law: "region_law J" and len: "0 \<le> sint len" "sint len < 2 ^ 28 - 1" and p: "prim_of type = Some p"
    and nr: "\<not> raised w" and room: "span buffer (unat (jffi_arraySize (len + 1) type)) \<subseteq> dom (mem w)"
  shows "\<exists>ptr ary w'. jffi_getArrayBuffer J obj off len type buffer w = Some ((ptr, ary), w')
     \<and> (\<forall>a. a \<notin> span buffer (unat (jffi_arraySize (len + 1) type)) \<longrightarrow> mem w' a = mem w a)
     \<and> dom (mem w') = dom (mem w) \<and> live w' = live w \<and> jvm w' = jvm w
     \<and> (case copied_in J (jvm w) p type obj off len of
          Inl x \<Rightarrow> ptr = NULL \<and> pending w' = Some x
        | Inr c \<Rightarrow> ptr = buffer \<and> \<not> raised w'
            \<and> (\<forall>bs. c = Some bs \<longrightarrow> load (mem w') buffer (nat (sint len) * prim_size p) = Some bs)
            \<and> (p = JByte \<and> type AND (OB_ZERO_TERMINATE OR OB_IN OR OB_OUT) \<noteq> OB_OUT
                 \<longrightarrow> mem w' (buffer + of_nat (nat (sint len))) = Some 0))"
proof -
  let ?ary = "\<lparr>ar_copyin = None, ar_copyout = None, ar_release = None, ar_array = obj,
              ar_elems = buffer, ar_offset = off, ar_length = len, ar_type = type\<rparr>"
  have n: "unat (jffi_arraySize (len + 1) type) = (nat (sint (ar_length ?ary)) + 1) * prim_size p"
    using arraySize_nat [OF len p] by simp
  have "span (ar_elems ?ary) (unat (jffi_arraySize (len + 1) type)) \<subseteq> dom (mem w)" using room by simp
  from fill_filled [OF law _ nr n this] len obtain ptr ary w' where
    f: "fill J p ?ary w = Some ((ptr, ary), w')" "filled J p ?ary (unat (jffi_arraySize (len + 1) type)) w ptr w'"
    by auto
  have "jffi_getArrayBuffer J obj off len type buffer w = Some ((ptr, ary), w')"
    by (simp only: getArrayBuffer_fill [OF p] f)
  with f(2) widen_nat [OF len(1)] show ?thesis
    by (auto simp: filled_def copied_length [OF law] split: sum.splits)
qed

text \<open>A small virtual machine to evaluate on: a heap of primitive arrays, pinned at an address computed
  from the reference.\<close>

type_synonym jheap = "jobject \<rightharpoonup> prim \<times> byte list"

definition heap_jni :: "jheap jni" where
  "heap_jni = \<lparr>
     ArrayLength = (\<lambda>j r. case j r of Some (p, bs) \<Rightarrow> of_nat (length bs div prim_size p) | None \<Rightarrow> 0),
     ArrayRegion = (\<lambda>j p r off len. case j r of
        Some (q, bs) \<Rightarrow> (if q = p \<and> 0 \<le> sint off \<and> 0 \<le> sint len
             \<and> nat (sint off) * prim_size p + nat (sint len) * prim_size p \<le> length bs
           then Inr (take (nat (sint len) * prim_size p) (drop (nat (sint off) * prim_size p) bs))
           else Inl (JThrow ''java/lang/ArrayIndexOutOfBoundsException'' []))
      | None \<Rightarrow> Inl (JThrow ''java/lang/NullPointerException'' [])),
     SetRegion = (\<lambda>j p r off len. case j r of
        Some (q, bs) \<Rightarrow> (if q = p \<and> 0 \<le> sint off \<and> 0 \<le> sint len
             \<and> nat (sint off) * prim_size p + nat (sint len) * prim_size p \<le> length bs
           then Inr (\<lambda>new. j(r \<mapsto> (p, take (nat (sint off) * prim_size p) bs @ new
                  @ drop (nat (sint off) * prim_size p + nat (sint len) * prim_size p) bs)))
           else Inl (JThrow ''java/lang/ArrayIndexOutOfBoundsException'' []))
      | None \<Rightarrow> Inl (JThrow ''java/lang/NullPointerException'' [])),
     PinCritical = (\<lambda>j r. case j r of Some (p, bs) \<Rightarrow> (Inr (0x500000000000 + push_bit 32 r, bs), j) | None \<Rightarrow> (Inl None, j)),
     PinnedSize = (\<lambda>j a. case j (drop_bit 32 (a - 0x500000000000)) of Some (p, bs) \<Rightarrow> length bs | None \<Rightarrow> 0),
     UnpinCritical = (\<lambda>j r a bs. case j r of Some (p, old) \<Rightarrow> j(r \<mapsto> (p, bs)) | None \<Rightarrow> j),
     ObjectElement = (\<lambda>j r i. Inr (r + 1 + ucast i)),
     BufferAddress = (\<lambda>j r. r + 0x600000000000)\<rparr>"

text \<open>What the interface documents about regions: the range check is the same for reading and writing,
  and what was written is read back.\<close>

definition array_law :: "'j jni \<Rightarrow> bool" where
  "array_law J \<longleftrightarrow> region_law J
     \<and> (\<forall>j p r off len bs. ArrayRegion J j p r off len = Inr bs \<longrightarrow>
          (\<exists>k. SetRegion J j p r off len = Inr k
             \<and> (\<forall>new. length new = length bs \<longrightarrow> ArrayRegion J (k new) p r off len = Inr new)))"

lemma heap_jni_law: "array_law heap_jni"
  by (auto simp: array_law_def region_law_def heap_jni_def split: option.splits if_splits)

definition jni_boot :: "jheap \<Rightarrow> memory \<Rightarrow> addr list \<Rightarrow> jheap jni_world" where
  "jni_boot h m sc = \<lparr>script = sc, live = Map.empty, find_class = (\<lambda>_. True), pending = None,
     types = image_types, ptrs = Map.empty, symbol = image_symbol,
     mem = m, stack_top = 0x7fff0000, garbage = (\<lambda>_. 0xCC), stale = (\<lambda>_. 0xDEAD),
     ctxs = Map.empty, ints = Map.empty,
     self = 0, specific = (\<lambda>_. NULL), tdata = Map.empty, errno = (\<lambda>_. 0), jvm = h\<rparr>"

lemma jni_boot_simps [simp]:
  "script (jni_boot h m sc) = sc" "live (jni_boot h m sc) = Map.empty" "pending (jni_boot h m sc) = None"
  "mem (jni_boot h m sc) = m" "jvm (jni_boot h m sc) = h" "garbage (jni_boot h m sc) = (\<lambda>_. 0xCC)"
  by (simp_all add: jni_boot_def)

theorem getArrayBuffer_copies_in_witness:
  "\<exists>ptr ary w'. jffi_getArrayBuffer heap_jni 7 1 3 0x11000003 0x100
       (jni_boot [7 \<mapsto> (JByte, [1, 2, 3, 4, 5])] (map_block 0x100 [0, 0, 0, 9] Map.empty) []) = Some ((ptr, ary), w')
     \<and> ptr = 0x100 \<and> load (mem w') 0x100 3 = Some [2, 3, 4] \<and> mem w' 0x103 = Some 0"
proof -
  let ?w = "jni_boot [7 \<mapsto> (JByte, [1, 2, 3, 4, 5])] (map_block 0x100 [0, 0, 0, 9] Map.empty) []"
  have law: "region_law heap_jni" using heap_jni_law by (simp add: array_law_def)
  have p: "prim_of 0x11000003 = Some JByte" by (simp add: prim_of_def)
  have a: "unat (jffi_arraySize (3 + 1) 0x11000003) = 4" by (simp add: jffi_arraySize_def p)
  have room: "span 0x100 (unat (jffi_arraySize (3 + 1) 0x11000003)) \<subseteq> dom (mem ?w)"
    unfolding a by (simp add: map_block_dom numeral_eq_Suc)
  have c: "copied_in heap_jni (jvm ?w) JByte 0x11000003 7 1 3 = Inr (Some [2, 3, 4])"
    by (simp add: copied_in_def IS_IN_ARRAY_def heap_jni_def)
  from getArrayBuffer_copies_in [OF law _ _ p _ room, of 7 1] c show ?thesis by auto
qed

lemma alloc_size_cases:
  assumes "0 \<le> sint len" and "sint len < 2 ^ 31 - 1"
  shows "unat (widen (alloc_size p len)) = (nat (sint len) + 1) * prim_size p
     \<longleftrightarrow> (nat (sint len) + 1) * prim_size p < 2 ^ 31"
proof -
  let ?n = "(nat (sint len) + 1) * prim_size p"
  have s: "sint (len + 1) = sint len + 1" by (rule sint_plus1) (use assms in auto)
  have m: "unat (widen (len + 1) * of_nat (prim_size p)) = ?n"
    using assms(1) s widen_mult [of "len + 1" "prim_size p"] by (simp add: nat_add_distrib)
  then have "(ucast (widen (len + 1) * of_nat (prim_size p) :: 64 word) :: jint) = of_nat ?n"
    by (metis of_nat_unat)
  then have e: "alloc_size p len = of_nat ?n" by (simp only: alloc_size_def mult.commute)
  show ?thesis
  proof
    assume "?n < 2 ^ 31"
    moreover from this have "?n < 2 ^ 64" by (rule less_trans) simp
    ultimately show "unat (widen (alloc_size p len)) = ?n"
      unfolding e by (simp only: scast_of_nat32 unat_of_nat64)
  next
    assume "unat (widen (alloc_size p len)) = ?n"
    moreover have "?n \<le> 2 ^ 31 * 8"
      using assms by (intro mult_mono) (auto simp: nat_less_iff Suc_le_eq)
    moreover from this have "?n < 2 ^ 63" by (rule le_less_trans) simp
    ultimately have "unat (widen (alloc_size p len)) < 2 ^ 63" by (simp only:)
    then have "0 \<le> sint (alloc_size p len)" using widen_negative [of "alloc_size p len"] by linarith
    then have "unat (widen (alloc_size p len)) < 2 ^ 31"
      using sint_jint_lt [of "alloc_size p len"] by (simp add: unat_widen nat_less_iff)
    with \<open>unat (widen (alloc_size p len)) = ?n\<close> show "?n < 2 ^ 31" by simp
  qed
qed

text \<open>The block of a heap array. The number of bytes \<open>jffi_getArrayHeap\<close> asks of \<open>malloc\<close> is
  what the elements and the terminator need exactly when that is below \<open>2^31\<close>. From there on the
  \<open>int\<close> the product is stored in wraps around: for \<open>2^29\<close> longs it asks for 8 bytes.\<close>

theorem alloc_size_exact:
  assumes "0 \<le> sint len" and "sint len < 2 ^ 31 - 1"
  shows "unat (widen (alloc_size p len)) = (nat (sint len) + 1) * prim_size p
     \<longleftrightarrow> (nat (sint len) + 1) * prim_size p < 2 ^ 31"
  using assms by (rule alloc_size_cases)

theorem alloc_size_exact_witness:
  "unat (widen (alloc_size JLong 3)) = 32 \<and> unat (widen (alloc_size JLong 0x20000000)) \<noteq> (2 ^ 29 + 1) * 8
   \<and> alloc_size JLong 0x20000000 = 8"
  using alloc_size_exact [of 3 JLong] alloc_size_exact [of "0x20000000" JLong] by (simp add: alloc_size_def)

lemma heap_len:
  assumes "0 \<le> sint len" and "(nat (sint len) + 1) * prim_size p < 2 ^ 31"
  shows "unat (widen (alloc_size p len)) = (nat (sint len) + 1) * prim_size p"
proof -
  have "nat (sint len) + 1 \<le> (nat (sint len) + 1) * prim_size p" by (cases p) simp_all
  with assms(2) have "nat (sint len) < 2 ^ 31 - 1" by linarith
  then have "sint len < 2 ^ 31 - 1" by (simp add: nat_less_iff assms(1))
  with alloc_size_cases [OF assms(1)] assms(2) show ?thesis by blast
qed

lemma getArrayHeap_copies:
  assumes law: "region_law J" and nr: "\<not> raised w" and sc: "script w = q # sc" "q \<noteq> NULL"
    and p: "prim_of type = Some p" and in_array: "IS_IN_ARRAY type"
    and len: "0 \<le> sint len" and fits: "(nat (sint len) + 1) * prim_size p < 2 ^ 31"
    and java: "ArrayRegion J (jvm w) p obj off len = Inr old"
  obtains w' where "jffi_getArrayHeap J obj off len type w =
      Some ((q, (heap_array obj off len type q)\<lparr>ar_copyout := SET_COPYOUT p type\<rparr>), w')"
    and "live w' = (live w)(q \<mapsto> widen (alloc_size p len))" and "jvm w' = jvm w" and "\<not> raised w'"
    and "load (mem w') q (length old) = Some old"
proof -
  let ?n = "(nat (sint len) + 1) * prim_size p" and ?ary = "heap_array obj off len type q"
  have sz: "unat (widen (alloc_size p len)) = ?n" by (rule heap_len [OF len fits])
  define w0 where "w0 = w\<lparr>script := sc, live := (live w)(q \<mapsto> widen (alloc_size p len))\<rparr>"
  define w1 where "w1 = w0\<lparr>mem := map_block q (fresh_bytes w0 q ?n) (mem w0)\<rparr>"
  have alloc: "malloc_mem (widen (alloc_size p len)) w = Some (q, w1)"
    using sc sz by (simp add: malloc_mem_def malloc_def w0_def w1_def)
  have nr1: "\<not> raised w1" and l1: "0 \<le> sint (ar_length ?ary)" and j1: "jvm w1 = jvm w"
    and n1: "?n = (nat (sint (ar_length ?ary)) + 1) * prim_size p"
    using nr len by (simp_all add: w1_def w0_def heap_array_def)
  have room: "span (ar_elems ?ary) ?n \<subseteq> dom (mem w1)" by (simp add: w1_def map_block_dom heap_array_def)
  from fill_filled [OF law l1 nr1 n1 room] obtain ptr ary w' where
    f: "fill J p ?ary w1 = Some ((ptr, ary), w')" and fl: "filled J p ?ary ?n w1 ptr w'"
    and ary: "ary = (if \<not> raised w' then ?ary\<lparr>ar_copyout := SET_COPYOUT p type\<rparr> else ?ary)"
    by (auto simp: heap_array_def)
  have "copied_in J (jvm w1) p type obj off len = Inr (Some old)"
    using in_array java by (simp add: copied_in_def j1)
  with fl have w': "live w' = live w1" "jvm w' = jvm w" "ptr = q" "\<not> raised w'" "load (mem w') q (length old) = Some old"
    by (auto simp: filled_def heap_array_def j1)
  show thesis
    by (rule that [of w']) (use getArrayHeap_fill [OF p alloc sc(2)] f ary w' in \<open>simp_all add: w1_def w0_def\<close>)
qed

text \<open>Claim C14. A heap array round trip. Copy an input array in, let native code change the buffer
  and nothing the virtual machine owns, release: the block is gone and the Java region holds what the
  buffer held last if the array is an output, and its old elements if it is not.\<close>

theorem heap_array_roundtrip:
  fixes w :: "('j, 'a) jni_world_scheme"
  assumes law: "array_law J" and ok: "heap_ok w" and nr: "\<not> raised w" and sc: "script w = q # sc" "q \<noteq> NULL"
    and p: "prim_of type = Some p" and in_array: "IS_IN_ARRAY type"
    and fits: "(nat (sint len) + 1) * prim_size p < 2 ^ 31" and len: "0 \<le> sint len"
    and java: "ArrayRegion J (jvm w) p obj off len = Inr old"
  shows "\<exists>ary w1. jffi_getArrayHeap J obj off len type w = Some ((q, ary), w1)
     \<and> blocks w1 = insert q (blocks w) \<and> \<not> raised w1 \<and> load (mem w1) q (length old) = Some old
     \<and> (\<forall>(w2 :: ('j, 'a) jni_world_scheme) new.
          live w2 = live w1 \<and> jvm w2 = jvm w1 \<and> \<not> raised w2 \<and> load (mem w2) q (length old) = Some new \<longrightarrow>
          (\<exists>w3. jffi_releaseArrays J [ary] w2 = Some w3 \<and> blocks w3 = blocks w
             \<and> ArrayRegion J (jvm w3) p obj off len = Inr (if IS_OUT_ARRAY type then new else old)))"
proof -
  let ?ary = "(heap_array obj off len type q)\<lparr>ar_copyout := SET_COPYOUT p type\<rparr>"
  have rl: "region_law J" using law by (simp add: array_law_def)
  have lo: "length old = nat (sint len) * prim_size p" using rl java by (auto simp: region_law_def)
  have fresh: "q \<notin> blocks w" using ok sc by (simp add: heap_ok_def)
  obtain w' where run: "jffi_getArrayHeap J obj off len type w = Some ((q, ?ary), w')"
    and w': "live w' = (live w)(q \<mapsto> widen (alloc_size p len))" "jvm w' = jvm w" "\<not> raised w'"
    and ld: "load (mem w') q (length old) = Some old"
    by (rule getArrayHeap_copies [OF rl nr sc p in_array len fits java])
  from law java obtain k where k: "SetRegion J (jvm w) p obj off len = Inr k"
    "\<And>new. length new = length old \<Longrightarrow> ArrayRegion J (k new) p obj off len = Inr new"
    unfolding array_law_def by metis
  have "\<exists>w3. jffi_releaseArrays J [?ary] w2 = Some w3 \<and> blocks w3 = blocks w
             \<and> ArrayRegion J (jvm w3) p obj off len = Inr (if IS_OUT_ARRAY type then new else old)"
    if w2: "live w2 = live w'" "jvm w2 = jvm w'" "\<not> raised w2" "load (mem w2) q (length old) = Some new"
    for w2 :: "('j, 'a) jni_world_scheme" and new
  proof -
    define w2' where "w2' = (if IS_OUT_ARRAY type then w2\<lparr>jvm := k new\<rparr> else w2)"
    let ?w3 = "w2'\<lparr>live := (live w2)(q := None), mem := unmap q (unat (widen (alloc_size p len))) (mem w2)\<rparr>"
    have "jffi_releaseArrays J [?ary] w2 = free_mem q w2'"
      using k(1) w2 w'(2) lo
      by (simp add: release_single jffi_releaseArray_def heap_array_def SET_COPYOUT_def SetArrayRegion_def w2'_def)
    also have "\<dots> = Some ?w3"
      using sc(2) w2(1) w'(1) by (simp add: free_mem_def free_def w2'_def dom_def)
    finally have run: "jffi_releaseArrays J [?ary] w2 = Some ?w3" .
    have "length new = length old" using w2(4) by (rule load_length)
    then have "ArrayRegion J (jvm w2') p obj off len = Inr (if IS_OUT_ARRAY type then new else old)"
      using k(2) java w2(2) w'(2) by (simp add: w2'_def)
    with run w2(1) w'(1) fresh show ?thesis by auto
  qed
  then have "\<forall>(w2 :: ('j, 'a) jni_world_scheme) new.
      live w2 = live w' \<and> jvm w2 = jvm w' \<and> \<not> raised w2 \<and> load (mem w2) q (length old) = Some new \<longrightarrow>
      (\<exists>w3. jffi_releaseArrays J [?ary] w2 = Some w3 \<and> blocks w3 = blocks w
         \<and> ArrayRegion J (jvm w3) p obj off len = Inr (if IS_OUT_ARRAY type then new else old))"
    by blast
  moreover have "blocks w' = insert q (blocks w)" using w'(1) by simp
  ultimately show ?thesis using run w'(3) ld
    by - (rule exI [of _ ?ary], rule exI [of _ w'], intro conjI; assumption)
qed

theorem heap_array_roundtrip_witness:
  "\<exists>ary w1. jffi_getArrayHeap heap_jni 7 1 3 0x11000003
         (jni_boot [7 \<mapsto> (JByte, [1, 2, 3, 4, 5])] Map.empty [0x2000]) = Some ((0x2000, ary), w1)
     \<and> (\<exists>w3. jffi_releaseArrays heap_jni [ary] (w1\<lparr>mem := map_block 0x2000 [9, 8, 7] (mem w1)\<rparr>) = Some w3
          \<and> blocks w3 = {} \<and> ArrayRegion heap_jni (jvm w3) JByte 7 1 3 = Inr [9, 8, 7])"
proof -
  let ?w = "jni_boot [7 \<mapsto> (JByte, [1, 2, 3, 4, 5])] Map.empty [0x2000]"
  have ok: "heap_ok ?w" by (simp add: heap_ok_def)
  have p: "prim_of 0x11000003 = Some JByte" by (simp add: prim_of_def)
  have i: "IS_IN_ARRAY 0x11000003" "IS_OUT_ARRAY 0x11000003" by (simp_all add: IS_IN_ARRAY_def IS_OUT_ARRAY_def)
  have j: "ArrayRegion heap_jni (jvm ?w) JByte 7 1 3 = Inr [2, 3, 4]" by (simp add: heap_jni_def)
  have sc: "script ?w = 0x2000 # []" "(0x2000 :: addr) \<noteq> NULL" by simp_all
  from heap_array_roundtrip [OF heap_jni_law ok _ sc p i(1) _ _ j] obtain ary w1
    where run: "jffi_getArrayHeap heap_jni 7 1 3 0x11000003 ?w = Some ((0x2000, ary), w1)" and nr: "\<not> raised w1"
    and rel: "\<forall>(w2 :: jheap jni_world) new. live w2 = live w1 \<and> jvm w2 = jvm w1 \<and> \<not> raised w2
          \<and> load (mem w2) 0x2000 (length [2, 3, 4 :: byte]) = Some new \<longrightarrow>
          (\<exists>w3. jffi_releaseArrays heap_jni [ary] w2 = Some w3 \<and> blocks w3 = blocks ?w
             \<and> ArrayRegion heap_jni (jvm w3) JByte 7 1 3 = Inr (if IS_OUT_ARRAY 0x11000003 then new else [2, 3, 4]))"
    by (simp only: jni_boot_simps) (simp, blast)
  have "load (map_block 0x2000 [9, 8, 7] (mem w1)) 0x2000 (length [9 :: byte, 8, 7]) = Some [9, 8, 7]"
    by (rule load_map_block) simp
  with rel [rule_format, of "w1\<lparr>mem := map_block 0x2000 [9, 8, 7] (mem w1)\<rparr>" "[9, 8, 7]"] run nr i(2)
  show ?thesis by (intro exI [of _ ary] exI [of _ w1]) simp
qed

lemma COPY_DATA_false:
  assumes "COPY_DATA J p flags obj off len elems w = Some (False, w')" and "\<not> raised w"
  shows "IS_IN_ARRAY flags \<and> (\<exists>x. ArrayRegion J (jvm w) p obj off len = Inl x \<and> w' = jthrow x w)"
  using assms by (auto simp: COPY_DATA_def GetArrayRegion_def split: if_splits sum.splits)

lemma fill_null:
  assumes "fill J p ary w = Some ((NULL, ary'), w')" and "\<not> raised w" and "ar_elems ary \<noteq> NULL"
  shows "IS_IN_ARRAY (ar_type ary) \<and> (\<exists>x. ArrayRegion J (jvm w) p (ar_array ary) (ar_offset ary) (ar_length ary) = Inl x
     \<and> w' = jthrow x w)"
  using assms by (auto simp: fill_def GET_ARRAY_BUFFER_def split: bind_splits if_splits dest!: COPY_DATA_false)

text \<open>Claim C15. How \<open>jffi_getArrayHeap\<close> fails. A null result always comes with an exception pending
  and an unchanged Java heap. An unknown element type and a failed allocation leave the native blocks
  as they were. When the virtual machine refuses the region, its exception is the pending one, and
  the block that had already been allocated for the copy is still allocated: nobody holds its address.\<close>

theorem getArrayHeap_failure:
  assumes run: "jffi_getArrayHeap J obj off len type w = Some ((NULL, ary), w')"
    and ok: "heap_ok w" and nr: "\<not> raised w"
  shows "raised w' \<and> jvm w' = jvm w
     \<and> (case prim_of type of
          None \<Rightarrow> live w' = live w
        | Some p \<Rightarrow>
            if script w = [] \<or> hd (script w) = NULL then live w' = live w
            else IS_IN_ARRAY type \<and> ArrayRegion J (jvm w) p obj off len = Inl (the (pending w'))
               \<and> hd (script w) \<notin> blocks w \<and> blocks w' = insert (hd (script w)) (blocks w))"
proof (cases "prim_of type")
  case None
  with run show ?thesis
    by (auto simp: jffi_getArrayHeap_def Let_def throwException_def throwExceptionByName_def)
next
  case (Some p)
  obtain q w1 where m: "malloc (widen (alloc_size p len)) w = Some (q, w1)"
    using libc.request_total by blast
  show ?thesis
  proof (cases "script w = [] \<or> hd (script w) = NULL")
    case True
    with m have q: "q = NULL" "w1 = w\<lparr>script := tl (script w)\<rparr>"
      by (cases "script w"; auto simp: malloc_def Let_def)+
    with run Some m True show ?thesis
      by (auto simp: jffi_getArrayHeap_def GET_ARRAY_HEAP_def malloc_mem_def Let_def throwException_def
          throwExceptionByName_def)
  next
    case False
    then obtain q' sc where sc: "script w = q' # sc" "q' \<noteq> NULL" by (cases "script w") auto
    with m have q: "q = q'" "w1 = w\<lparr>script := sc, live := (live w)(q' \<mapsto> widen (alloc_size p len))\<rparr>"
      by (auto simp: malloc_def)
    define w2 where "w2 = w1\<lparr>mem := map_block q' (fresh_bytes w1 q' (unat (widen (alloc_size p len)))) (mem w1)\<rparr>"
    have mm: "malloc_mem (widen (alloc_size p len)) w = Some (q', w2)"
      using m sc(2) by (simp add: malloc_mem_def q w2_def)
    have f: "fill J p (heap_array obj off len type q') w2 = Some ((NULL, ary), w')"
      using getArrayHeap_fill [OF Some mm sc(2)] run by simp
    have "\<not> raised w2" and e: "ar_elems (heap_array obj off len type q') \<noteq> NULL"
      using nr sc(2) by (simp_all add: w2_def q heap_array_def)
    from fill_null [OF f this] obtain x where x: "IS_IN_ARRAY type" "ArrayRegion J (jvm w) p obj off len = Inl x"
      "w' = jthrow x w2"
      by (auto simp: heap_array_def w2_def q)
    have "q' \<notin> blocks w" using ok sc by (simp add: heap_ok_def)
    with x sc Some show ?thesis by (simp add: jthrow_def w2_def q)
  qed
qed

theorem getArrayHeap_failure_witness:
  "\<exists>ary w'. jffi_getArrayHeap heap_jni 7 4 3 0x11000003
         (jni_boot [7 \<mapsto> (JByte, [1, 2, 3, 4, 5])] Map.empty [0x2000]) = Some ((NULL, ary), w')
     \<and> raised w' \<and> blocks w' = {0x2000}"
proof -
  let ?w = "jni_boot [7 \<mapsto> (JByte, [1, 2, 3, 4, 5])] Map.empty [0x2000]"
  have ok: "heap_ok ?w" by (simp add: heap_ok_def)
  have p: "prim_of 0x11000003 = Some JByte" by (simp add: prim_of_def)
  have i: "IS_IN_ARRAY 0x11000003" by (simp add: IS_IN_ARRAY_def)
  have "\<exists>ary w'. jffi_getArrayHeap heap_jni 7 4 3 0x11000003 ?w = Some ((NULL, ary), w')"
    by (simp add: jffi_getArrayHeap_def p GET_ARRAY_HEAP_def GET_ARRAY_BUFFER_def malloc_mem_def malloc_def
        COPY_DATA_def i GetArrayRegion_def heap_jni_def jthrow_def Let_def)
  then obtain ary w' where run: "jffi_getArrayHeap heap_jni 7 4 3 0x11000003 ?w = Some ((NULL, ary), w')" by blast
  from getArrayHeap_failure [OF run ok] p show ?thesis using run by auto
qed


definition heap_blocks :: "Array list \<Rightarrow> addr set" where
  "heap_blocks arrays = ar_elems ` {a \<in> set arrays. ar_release a = Some ReleaseHeap}"

lemma heap_blocks_simps [simp]:
  "heap_blocks [] = {}"
  "heap_blocks (a # arrays) =
     (if ar_release a = Some ReleaseHeap then insert (ar_elems a) (heap_blocks arrays) else heap_blocks arrays)"
  by (auto simp: heap_blocks_def)






end
