(* ===== verification/Jffi_Fast.thy ===== *)
theory Jffi_Fast
  imports Jffi_Array Ffi_Integers
begin

text \<open>
  The numeric entry points: the direct calls of \<^verbatim>\<open>jni/jffi/FastNumeric.h\<close>, the families
  \<open>invokeI0..6\<close> (\<^verbatim>\<open>FastIntInvoke.c\<close>), \<open>invokeL0..6\<close> (\<^verbatim>\<open>FastLongInvoke.c\<close>) and \<open>invokeN0..6\<close> with
  their variants for object parameters (\<^verbatim>\<open>FastNumericInvoker.c\<close>). Each family generated by a macro
  is one definition over the list of its arguments. Every function takes the native code \<open>native\<close>,
  and where it may reach libffi the Microsoft call sequence \<open>efi64\<close> and the fuel of \<open>ffi_call\<close>.
\<close>

section \<open>FastNumeric.h\<close>

text \<open>A \<open>jint\<close> argument occupies the low half of its register.\<close>

definition int_regs :: "'a mem_world_scheme \<Rightarrow> jint list \<Rightarrow> u64 list" where
  "int_regs w args = map (\<lambda>i. push_bit 32 (drop_bit 32 (stale w i)) OR ucast (args ! i)) [0..<length args]"

text \<open>\<open>*(retval) = ((jint (*)(...)) (fn))(...)\<close> with an \<open>ffi_sarg\<close> or \<open>jlong\<close> to store to.\<close>

definition invokeI :: "'a mem_world_scheme native \<Rightarrow> addr \<Rightarrow> jint list \<Rightarrow> 'a mem_world_scheme
     \<Rightarrow> (u64 \<times> 'a mem_world_scheme) option" where
  "invokeI native fn args w = map_option (\<lambda>(x, w'). (scast (ucast x :: jint), w')) (c_call native fn (int_regs w args) w)"

definition invokeL :: "'a mem_world_scheme native \<Rightarrow> addr \<Rightarrow> jlong list \<Rightarrow> 'a mem_world_scheme
     \<Rightarrow> (u64 \<times> 'a mem_world_scheme) option" where
  "invokeL native fn args w = c_call native fn args w"

section \<open>The ffi_callN macros\<close>

type_synonym 'w efi64 = "ffi_cif \<Rightarrow> addr \<Rightarrow> addr \<Rightarrow> addr list \<Rightarrow> 'w \<Rightarrow> 'w option"

text \<open>Local variables that have their address taken.\<close>

definition local_word :: "u64 \<Rightarrow> 'a mem_world_scheme \<Rightarrow> addr \<times> 'a mem_world_scheme" where
  "local_word x w = (let (p, w1) = alloca 8 w in (p, w1\<lparr>mem := map_block p (le_bytes 8 x) (mem w1)\<rparr>))"

fun local_words :: "u64 list \<Rightarrow> 'a mem_world_scheme \<Rightarrow> addr list \<times> 'a mem_world_scheme" where
  "local_words [] w = ([], w)"
| "local_words (x # xs) w =
     (let (p, w1) = local_word x w; (ps, w2) = local_words xs w1 in (p # ps, w2))"

text \<open>\<open>ffi_call0\<close> hands over one undetermined value, the others their arguments; \<open>ARGPTR\<close> is the
  identity on a little-endian machine.\<close>

definition ffi_call_args ::
  "'a ctx_world_scheme native \<Rightarrow> 'a ctx_world_scheme efi64 \<Rightarrow> nat \<Rightarrow> addr \<Rightarrow> addr \<Rightarrow> addr \<Rightarrow> jlong list
     \<Rightarrow> 'a ctx_world_scheme \<Rightarrow> 'a ctx_world_scheme option"
where
  "ffi_call_args native efi64 fuel ctx fn retval args w = do {
     c \<leftarrow> ctxs w ctx;
     (ffiValues, w1) \<leftarrow> Some (if args = [] then (let (p, w1) = alloca 8 w in ([p], w1)) else local_words args w);
     w2 \<leftarrow> ffi_call native efi64 fuel (cc_cif c) fn retval ffiValues w1;
     Some (w2\<lparr>stack_top := stack_top w\<rparr>)
   }"

section \<open>FastIntInvoke.c and FastLongInvoke.c\<close>

definition Foreign_invokeI ::
  "'a thread_world_scheme native \<Rightarrow> jlong \<Rightarrow> jlong \<Rightarrow> jint list \<Rightarrow> 'a thread_world_scheme
     \<Rightarrow> (jint \<times> 'a thread_world_scheme) option"
where
  "Foreign_invokeI native ctxAddress function args w = do {
     (retval, w1) \<leftarrow> FAULTPROT_CTX native (j2p ctxAddress) (invokeI native (j2p function) args) w;
     Some (ucast retval, w1)
   }"

definition Foreign_invokeI_NoErrno ::
  "'a thread_world_scheme native \<Rightarrow> jlong \<Rightarrow> jlong \<Rightarrow> jint list \<Rightarrow> 'a thread_world_scheme
     \<Rightarrow> (jint \<times> 'a thread_world_scheme) option"
where
  "Foreign_invokeI_NoErrno native ctxAddress function args w = do {
     (retval, w1) \<leftarrow> invokeI native (j2p function) args w;
     Some (ucast retval, w1)
   }"

text \<open>The \<open>NoErrno\<close> variants of the long calls go through \<open>FAULTPROT_CTX\<close> too.\<close>

definition Foreign_invokeL ::
  "'a thread_world_scheme native \<Rightarrow> jlong \<Rightarrow> jlong \<Rightarrow> jlong list \<Rightarrow> 'a thread_world_scheme
     \<Rightarrow> (jlong \<times> 'a thread_world_scheme) option"
where
  "Foreign_invokeL native ctxAddress function args w =
     FAULTPROT_CTX native (j2p ctxAddress) (invokeL native (j2p function) args) w"

definition Foreign_invokeL_NoErrno ::
  "'a thread_world_scheme native \<Rightarrow> jlong \<Rightarrow> jlong \<Rightarrow> jlong list \<Rightarrow> 'a thread_world_scheme
     \<Rightarrow> (jlong \<times> 'a thread_world_scheme) option"
where
  "Foreign_invokeL_NoErrno native ctxAddress function args w =
     FAULTPROT_CTX native (j2p ctxAddress) (invokeL native (j2p function) args) w"

section \<open>FastNumericInvoker.c: the calls\<close>

text \<open>The statement the functions \<open>call1\<close> to \<open>call6\<close> and \<open>invokeN0\<close> protect: the three ways to make the
  call, chosen by the flags of the context. The result is the eight bytes of \<open>FFIValue retval\<close>.\<close>

definition call_stmt ::
  "'a thread_world_scheme native \<Rightarrow> 'a thread_world_scheme efi64 \<Rightarrow> nat \<Rightarrow> addr \<Rightarrow> addr \<Rightarrow> jlong list
     \<Rightarrow> 'a thread_world_scheme \<Rightarrow> (u64 \<times> 'a thread_world_scheme) option"
where
  "call_stmt native efi64 fuel ctx function args w = do {
     c \<leftarrow> ctxs w ctx;
     if cc_flags c AND CALL_CTX_FAST_LONG \<noteq> 0 then invokeL native function args w
     else if cc_flags c AND CALL_CTX_FAST_INT \<noteq> 0 then invokeI native function (map ucast args) w
     else do {
       (retval, w1) \<leftarrow> Some (alloca 8 w);
       w2 \<leftarrow> ffi_call_args native efi64 fuel ctx function retval args w1;
       bs \<leftarrow> load (mem w2) retval 8;
       Some (le_word bs, w2\<lparr>stack_top := stack_top w\<rparr>)
     }
   }"

text \<open>\<open>RETVAL\<close> reads the size of the result type to choose between two members of the union that
  have the same eight bytes.\<close>

definition call_n ::
  "'a thread_world_scheme native \<Rightarrow> 'a thread_world_scheme efi64 \<Rightarrow> nat \<Rightarrow> addr \<Rightarrow> addr \<Rightarrow> jlong list
     \<Rightarrow> 'a thread_world_scheme \<Rightarrow> (jlong \<times> 'a thread_world_scheme) option"
where
  "call_n native efi64 fuel ctx function args w = do {
     (retval, w1) \<leftarrow> FAULTPROT_CTX native ctx (call_stmt native efi64 fuel ctx function args) w;
     c \<leftarrow> ctxs w1 ctx;
     _ \<leftarrow> types w1 (cif_rtype (cc_cif c));
     Some (retval, w1)
   }"

definition Foreign_invokeN ::
  "'a thread_world_scheme native \<Rightarrow> 'a thread_world_scheme efi64 \<Rightarrow> nat \<Rightarrow> jlong \<Rightarrow> jlong \<Rightarrow> jlong list
     \<Rightarrow> 'a thread_world_scheme \<Rightarrow> (jlong \<times> 'a thread_world_scheme) option"
where
  "Foreign_invokeN native efi64 fuel ctxAddress function args w =
     call_n native efi64 fuel (j2p ctxAddress) (j2p function) args w"

section \<open>FastNumericInvoker.c: object parameters\<close>

record ObjectParam =
  op_object :: jobject
  op_offset :: jint
  op_length :: jint
  op_flags :: jint

definition OBJIDX :: "jint \<Rightarrow> jint" where
  "OBJIDX flags = drop_bit 16 (flags AND OB_INDEX_MASK)"

definition OBJTYPE :: "jint \<Rightarrow> jint" where
  "OBJTYPE flags = flags AND OB_TYPE_MASK"

definition IS_ARRAY :: "jint \<Rightarrow> bool" where
  "IS_ARRAY flags \<longleftrightarrow> OBJTYPE flags AND NOT OB_PRIM_MASK = OB_ARRAY"

definition IS_BUFFER :: "jint \<Rightarrow> bool" where
  "IS_BUFFER flags \<longleftrightarrow> OBJTYPE flags AND NOT OB_PRIM_MASK = OB_BUFFER"

abbreviation (input) MAX_STACK_ARRAY :: jint where "MAX_STACK_ARRAY \<equiv> 1024"

text \<open>What the conversion of the objects has built so far: the arguments, the arrays to release and
  the arrays still to be pinned.\<close>

record conv =
  cv_v :: "jlong list"
  cv_arrays :: "Array list"
  cv_pinned :: "ObjectParam list"

text \<open>The loop of \<open>pin_arrays\<close>; the flag is what the function returns.\<close>

fun pin_arrays ::
  "'j jni \<Rightarrow> ObjectParam list \<Rightarrow> conv \<Rightarrow> ('j, 'a) jni_world_scheme \<Rightarrow> (bool \<times> conv) \<times> ('j, 'a) jni_world_scheme"
where
  "pin_arrays J [] cv w = ((True, cv), w)"
| "pin_arrays J (p # pinned) cv w =
     (let ((a, ary), w1) = jffi_getArrayCritical J (op_object p) (op_offset p) (op_length p) (op_flags p) None w
      in if a = NULL then ((False, cv), w1)
         else pin_arrays J pinned
                (cv\<lparr>cv_v := (cv_v cv)[unat (OBJIDX (op_flags p)) := p2j a], cv_arrays := cv_arrays cv @ [ary]\<rparr>) w1)"

definition object_to_ptr ::
  "'j jni \<Rightarrow> ObjectParam \<Rightarrow> nat \<Rightarrow> conv \<Rightarrow> ('j, 'a) jni_world_scheme \<Rightarrow> ((bool \<times> conv) \<times> ('j, 'a) jni_world_scheme) option"
where
  "object_to_ptr J p i cv w =
     (let f = op_flags p in
      if op_object p = NULL
      then Some ((False, cv), throwException NullPointer ''null object for parameter %d'' [ArgInt (OBJIDX f)] w)
      else if IS_PINNED_ARRAY f
      then Some ((True, cv\<lparr>cv_v := (cv_v cv)[i := 0], cv_pinned := cv_pinned cv @ [p]\<rparr>), w)
      else if IS_ARRAY f
      then do {
        ((a, ary), w1) \<leftarrow> jffi_getArrayHeap J (op_object p) (op_offset p) (op_length p) f w;
        cv1 \<leftarrow> Some (cv\<lparr>cv_v := (cv_v cv)[i := p2j a]\<rparr>);
        Some (if a = NULL then ((False, cv1), w1) else ((True, cv1\<lparr>cv_arrays := cv_arrays cv @ [ary]\<rparr>), w1))
      }
      else if IS_BUFFER f
      then (let a = BufferAddress J (jvm w) (op_object p)
            in if a = NULL
               then Some ((False, cv), throwException NullPointer
                      ''could not get direct buffer address for parameter %d'' [ArgInt (OBJIDX f)] w)
               else Some ((True, cv\<lparr>cv_v := (cv_v cv)[i := p2j (a + widen (op_offset p))]\<rparr>), w))
      else Some ((False, cv), throwException IllegalArgument
                   ''unsupported object type for parameter %d: %#x'' [ArgInt (OBJIDX f), ArgInt f] w))"

text \<open>\<open>ADDOBJ\<close>; false is the jump to \<open>error\<close>. \<open>n\<close> is the number of numeric parameters.\<close>

definition ADDOBJ ::
  "'j jni \<Rightarrow> nat \<Rightarrow> ObjectParam \<Rightarrow> conv \<Rightarrow> ('j, 'a) jni_world_scheme \<Rightarrow> ((bool \<times> conv) \<times> ('j, 'a) jni_world_scheme) option"
where
  "ADDOBJ J n p cv w =
     (let idx = OBJIDX (op_flags p); flags = op_flags p; len = op_length p in
      if sint idx < 0 \<or> sint idx > int n - 1
      then Some ((False, cv), throwException OutOfBounds ''invalid object parameter index %d (expected 0..%d)''
             [ArgInt idx, ArgInt (of_nat n - 1)] w)
      else if IS_UNPINNED_ARRAY flags \<and> sint len < sint MAX_STACK_ARRAY
      then do {
        (ptr, w1) \<leftarrow> Some (alloca (unat (widen (jffi_arraySize (len + 1) flags))) w);
        ((a, ary), w2) \<leftarrow> jffi_getArrayBuffer J (op_object p) (op_offset p) len flags ptr w1;
        Some (if a = NULL then ((False, cv), w2)
              else ((True, cv\<lparr>cv_v := (cv_v cv)[unat idx := p2j ptr], cv_arrays := cv_arrays cv @ [ary]\<rparr>), w2))
      }
      else object_to_ptr J p (unat idx) cv w)"

fun add_objects ::
  "'j jni \<Rightarrow> nat \<Rightarrow> ObjectParam list \<Rightarrow> conv \<Rightarrow> ('j, 'a) jni_world_scheme \<Rightarrow> ((bool \<times> conv) \<times> ('j, 'a) jni_world_scheme) option"
where
  "add_objects J n [] cv w = Some ((True, cv), w)"
| "add_objects J n (p # objects) cv w = do {
     ((ok, cv1), w1) \<leftarrow> ADDOBJ J n p cv w;
     if ok then add_objects J n objects cv1 w1 else Some ((False, cv1), w1)
   }"

text \<open>The body \<open>IMPL(n)\<close> of \<open>invoke1\<close> to \<open>invoke6\<close>.\<close>

definition invoke_n ::
  "'j jni \<Rightarrow> ('j, 'a) jni_world_scheme native \<Rightarrow> ('j, 'a) jni_world_scheme efi64 \<Rightarrow> nat \<Rightarrow> jlong \<Rightarrow> jlong
     \<Rightarrow> jlong list \<Rightarrow> ObjectParam list \<Rightarrow> ('j, 'a) jni_world_scheme \<Rightarrow> (jlong \<times> ('j, 'a) jni_world_scheme) option"
where
  "invoke_n J native efi64 fuel ctxAddress function ns objects w = do {
     ((ok, cv), w1) \<leftarrow> add_objects J (length ns) objects \<lparr>cv_v = ns, cv_arrays = [], cv_pinned = []\<rparr> w;
     ((ok, cv), w2) \<leftarrow> Some (if ok then pin_arrays J (cv_pinned cv) cv w1 else ((False, cv), w1));
     (retval, w3) \<leftarrow> (if ok then call_n native efi64 fuel (j2p ctxAddress) (j2p function) (cv_v cv) w2
                      else Some (0, w2));
     w4 \<leftarrow> jffi_releaseArrays J (cv_arrays cv) w3;
     Some (retval, w4\<lparr>stack_top := stack_top w\<rparr>)
   }"

text \<open>The 21 exported functions \<open>invokeN1O1\<close> to \<open>invokeN6O6\<close> collect their parameters.\<close>

definition Foreign_invokeNO ::
  "'j jni \<Rightarrow> ('j, 'a) jni_world_scheme native \<Rightarrow> ('j, 'a) jni_world_scheme efi64 \<Rightarrow> nat \<Rightarrow> jlong \<Rightarrow> jlong
     \<Rightarrow> jlong list \<Rightarrow> (jobject \<times> jint \<times> jint \<times> jint) list \<Rightarrow> ('j, 'a) jni_world_scheme
     \<Rightarrow> (jlong \<times> ('j, 'a) jni_world_scheme) option"
where
  "Foreign_invokeNO J native efi64 fuel ctxAddress function ns os w =
     invoke_n J native efi64 fuel ctxAddress function ns
       (map (\<lambda>(obj, flags, off, len). \<lparr>op_object = obj, op_offset = off, op_length = len, op_flags = flags\<rparr>) os) w"

section \<open>The direct call and libffi agree\<close>

text \<open>The slots of local variables lie below the frame they are allocated from and keep their values
  while further ones are allocated.\<close>

lemma local_words_run:
  assumes "local_words xs w = (ps, w')" and "32 * length xs \<le> unat (stack_top w)"
  shows "length ps = length xs \<and> unat (stack_top w) \<le> unat (stack_top w') + 32 * length xs
     \<and> unat (stack_top w') \<le> unat (stack_top w)
     \<and> (\<forall>a. unat (stack_top w) \<le> unat a \<longrightarrow> mem w' a = mem w a)
     \<and> list_all2 (\<lambda>v x. load (mem w') v 8 = Some (le_bytes 8 x)) ps xs
     \<and> w' = w\<lparr>stack_top := stack_top w', mem := mem w'\<rparr>"
  using assms
proof (induction xs arbitrary: w ps w')
  case (Cons x xs)
  obtain p w1 where al: "alloca 8 w = (p, w1)" by (cases "alloca 8 w")
  let ?w2 = "w1\<lparr>mem := map_block p (le_bytes 8 x) (mem w1)\<rparr>"
  obtain qs where qs: "local_words xs ?w2 = (qs, w')" and ps: "ps = p # qs"
    using Cons.prems(1) by (auto simp: local_word_def Let_def al split: prod.splits)
  have s: "unat p + 8 \<le> unat (stack_top w)" "unat (stack_top w) < unat p + 24" "unat p + 8 \<le> 2 ^ 64" "stack_top w1 = p"
    using alloca_span [OF al] Cons.prems(2) by simp_all
  have m: "mem ?w2 a = mem w a" if "a \<notin> span p 8" for a
    using that al by (auto simp: alloca_def Let_def map_block_outside)
  have fr: "?w2\<lparr>stack_top := s, mem := m\<rparr> = w\<lparr>stack_top := s, mem := m\<rparr>" for s m
    using al by (auto simp: alloca_def Let_def)
  have IH: "length qs = length xs \<and> unat (stack_top ?w2) \<le> unat (stack_top w') + 32 * length xs
     \<and> unat (stack_top w') \<le> unat (stack_top ?w2)
     \<and> (\<forall>a. unat (stack_top ?w2) \<le> unat a \<longrightarrow> mem w' a = mem ?w2 a)
     \<and> list_all2 (\<lambda>v x. load (mem w') v 8 = Some (le_bytes 8 x)) qs xs
     \<and> w' = ?w2\<lparr>stack_top := stack_top w', mem := mem w'\<rparr>"
    by (rule Cons.IH [OF qs]) (use s Cons.prems(2) in simp)
  have "load (mem w') p 8 = load (mem ?w2) p 8"
    by (rule load_cong) (use IH s in \<open>auto simp: span_interval\<close>)
  then have l: "load (mem w') p 8 = Some (le_bytes 8 x)" using load_map_block [of "le_bytes 8 x" p "mem w1"] by simp
  have out: "mem w' a = mem w a" if "unat (stack_top w) \<le> unat a" for a
  proof -
    have "a \<notin> span p 8" using span_interval [OF s(3)] s that by auto
    with m [of a] IH s that show ?thesis by auto
  qed
  have "w' = w\<lparr>stack_top := stack_top w', mem := mem w'\<rparr>" using IH unfolding fr by blast
  with IH s ps l out show ?case by auto
qed simp

text \<open>What an integer result looks like when libffi has stored it.\<close>

lemma ret_flags_store:
  assumes "integer_type (builtin_type b)" and "ret_flags fuel w (builtin_type b) = Some (Inr (g, fl))"
  shows "store_table fl r = Some [(0, le_bytes 8 (promote (builtin_type b) (rr_rax r)))] \<and> g = 0
     \<and> fl AND UNIX64_FLAG_RET_IN_MEM = 0"
proof -
  have "take_bit 64 (rr_rax r) = rr_rax r" by (rule bit_eqI) (auto simp: bit_simps dest: bit_imp_le_length)
  with assms show ?thesis
    by (cases b) (auto simp: ret_flags_def integer_type_def is_int32_code_def is_int64_code_def
      builtin_type.simps FFI_TYPEDEF_def store_table_def promote_def Let_def)
qed

lemma ret_flags_any: "integer_type t \<Longrightarrow> ret_flags fuel w t = ret_flags fuel w' t"
  by (auto simp: ret_flags_def integer_type_def is_int32_code_def is_int64_code_def Let_def)

lemma store_word:
  assumes "span p 8 \<subseteq> dom m0"
  shows "\<exists>m. store m0 p (le_bytes 8 x) = Some m \<and> load m p 8 = Some (le_bytes 8 x)
     \<and> (\<forall>a. a \<notin> span p 8 \<longrightarrow> m a = m0 a)"
proof -
  obtain m where m: "store m0 p (le_bytes 8 x) = Some m"
    using store_defined [of m0 p "le_bytes 8 x"] assms by auto
  have "load m p 8 = Some (le_bytes 8 x)" using load_store_same [OF m] by simp
  moreover have "m a = m0 a" if "a \<notin> span p 8" for a using store_outside [OF m] that by simp
  ultimately show ?thesis using m by (intro exI [of _ m]) simp
qed

text \<open>The call through \<open>ffi_call\<close> with the arguments in local variables, for a target that computes a
  result from its parameters.\<close>

definition pure_target :: "nat \<Rightarrow> (addr \<Rightarrow> u64 list \<Rightarrow> ret_regs) \<Rightarrow> 'a mem_world_scheme native" where
  "pure_target k f fn regs w = Some (f fn (take k (cr_gpr regs)), w)"

lemma ffi_call_args_pure:
  fixes w :: "'a ctx_world_scheme"
  assumes c: "ctxs w ctx = Some c" "cif_abi (cc_cif c) \<noteq> FFI_EFI64" "cif_abi (cc_cif c) \<noteq> FFI_GNUW64"
    "cif_nargs (cc_cif c) = of_nat (length ps)" "read_ptrs w (cif_arg_types (cc_cif c)) (length ps) = Some ps"
    "cif_bytes (cc_cif c) = 0"
    and ts: "list_all2 (\<lambda>p t. types w p = Some t \<and> integer_type t) ps ts" "length xs = length ts"
    and n: "xs \<noteq> []" "length xs \<le> 6"
    and rt: "types w (cif_rtype (cc_cif c)) = Some (builtin_type b)" "integer_type (builtin_type b)"
      "ret_flags fuel w (builtin_type b) = Some (Inr (g, cif_flags (cc_cif c)))"
    and rv: "retval \<noteq> NULL" "span retval 8 \<subseteq> dom (mem w)" "unat (stack_top w) \<le> unat retval" "unat retval + 8 \<le> 2 ^ 64"
      "512 \<le> unat (stack_top w)"
  shows "\<exists>m. ffi_call_args (pure_target (length xs) f) efi64 (Suc k) ctx fn retval xs w = Some (w\<lparr>mem := m\<rparr>)
     \<and> load m retval 8 = Some (le_bytes 8 (promote (builtin_type b) (rr_rax (f fn (map2 promote ts xs)))))
     \<and> (\<forall>a. unat (stack_top w) \<le> unat a \<and> a \<notin> span retval 8 \<longrightarrow> m a = mem w a)"
proof -
  obtain vs w1 where lw: "local_words xs w = (vs, w1)" by (cases "local_words xs w")
  have L: "length vs = length xs" "unat (stack_top w) \<le> unat (stack_top w1) + 32 * length xs"
    "list_all2 (\<lambda>v x. load (mem w1) v 8 = Some (le_bytes 8 x)) vs xs"
    and Lm: "\<And>a. unat (stack_top w) \<le> unat a \<Longrightarrow> mem w1 a = mem w a"
    and w1: "w1 = w\<lparr>stack_top := stack_top w1, mem := mem w1\<rparr>"
    using local_words_run [OF lw] n rv(5) by auto
  have same: "types w1 = types w" "ptrs w1 = ptrs w" by (subst w1, simp)+
  note st = ret_flags_store [OF rt(2,3), of "f fn (map2 promote ts xs)"]
  have ts1: "list_all2 (\<lambda>p t. types w1 p = Some t \<and> integer_type t) ps ts" using ts(1) by (simp add: same)
  have len6: "length ps \<le> 6" using ts n list_all2_lengthD [OF ts(1)] by simp
  have rp: "read_ptrs w1 (cif_arg_types (cc_cif c)) (length ps) = Some ps" using c(5) by (simp only: read_ptrs_def same)
  have rt1: "types w1 (cif_rtype (cc_cif c)) = Some (builtin_type b)" using rt(1) by (simp add: same)
  obtain regs s m where r: "take (length xs) (cr_gpr regs) = map2 promote ts xs"
    "s = (stack_top w1 - 224) AND NOT 15" "\<And>a. a \<notin> span s 224 \<Longrightarrow> m a = mem w1 a"
    and call: "ffi_call (pure_target (length xs) f) efi64 (Suc k) (cc_cif c) fn retval vs w1 =
         do { (r, w2) \<leftarrow> pure_target (length xs) f fn regs (w1\<lparr>stack_top := s, mem := m\<rparr>);
              out \<leftarrow> store_table (cif_flags (cc_cif c)) r;
              w3 \<leftarrow> store_all retval out w2;
              Some (w3\<lparr>stack_top := stack_top w1\<rparr>) }"
    using integers_call [OF c(2,3,4) rp len6 ts1 L(3) ts(2) c(6) conjunct2 [OF conjunct2 [OF st]] rt1 rv(1),
        of "pure_target (length xs) f" efi64 k fn] by blast
  have al: "alloca 224 w1 = (s, w1\<lparr>stack_top := s, mem := map_block s (fresh_bytes w1 s 224) (mem w1)\<rparr>)"
    using r(2) by (simp add: alloca_def Let_def)
  have sp: "unat s + 224 \<le> unat (stack_top w1)" "unat s + 224 \<le> 2 ^ 64" "unat (stack_top w1) \<le> unat (stack_top w)"
    using alloca_span [OF al] L(2) n rv(5) local_words_run [OF lw] by auto
  have above: "m a = mem w a" if "unat (stack_top w) \<le> unat a" for a
    using r(3) [of a] Lm [OF that] that sp span_interval [OF sp(2), of a] by auto
  have "span retval 8 \<subseteq> dom m"
    using rv above by (auto simp: span_interval domIff)
  from store_word [OF this, of "promote (builtin_type b) (rr_rax (f fn (map2 promote ts xs)))"] obtain m' where
    m': "store m retval (le_bytes 8 (promote (builtin_type b) (rr_rax (f fn (map2 promote ts xs))))) = Some m'"
    "load m' retval 8 = Some (le_bytes 8 (promote (builtin_type b) (rr_rax (f fn (map2 promote ts xs)))))"
    "\<And>a. a \<notin> span retval 8 \<Longrightarrow> m' a = m a" by auto
  have fr: "w1\<lparr>stack_top := s', mem := m\<rparr> = w\<lparr>stack_top := s', mem := m\<rparr>" for s' m by (subst w1) simp
  have "ffi_call_args (pure_target (length xs) f) efi64 (Suc k) ctx fn retval xs w = Some (w\<lparr>mem := m'\<rparr>)"
    using c(1) n(1) lw call r(1) st m'(1) fr by (simp add: ffi_call_args_def pure_target_def)
  with m' above show ?thesis by auto
qed

definition zero_regs :: ret_regs where
  "zero_regs = \<lparr>rr_rax = 0, rr_rdx = 0, rr_xmm0 = 0, rr_xmm1 = 0, rr_st0 = [], rr_st1 = []\<rparr>"

definition fast_boot_ctx :: CallContext where
  "fast_boot_ctx = zero_ctx\<lparr>cc_cif := zero_cif\<lparr>cif_abi := FFI_UNIX64, cif_nargs := 2, cif_arg_types := 0x9200,
     cif_rtype := image_symbol ffi_type_sint32, cif_flags := UNIX64_RET_SINT32\<rparr>\<rparr>"

definition fast_boot :: thread_world where
  "fast_boot = (thread_boot [])\<lparr>ptrs := [0x9200 \<mapsto> [image_symbol ffi_type_sint32, image_symbol ffi_type_uint8]],
     ctxs := [0x9000 \<mapsto> zero_ctx\<lparr>cc_flags := CALL_CTX_FAST_LONG\<rparr>, 0x9100 \<mapsto> fast_boot_ctx]\<rparr>"

text \<open>Claim C18. The shortcut of the numeric entry points is invisible. Take a prepared interface with one to
  six parameters and a result, all of integer or pointer type, and arguments that are already in the
  range of their types. For a target that computes a result from its parameters, the call through a
  context marked for the direct call and the call through a context that goes by libffi both return
  and leave every address of the callers' frames as it was; the direct call gives the whole register,
  libffi the same value cut or extended to the size of the result type.\<close>

theorem fast_path_agrees:
  fixes w :: "'a thread_world_scheme"
  assumes fast: "ctxs w cf = Some c1" "cc_flags c1 AND CALL_CTX_FAST_LONG \<noteq> 0"
    and slow: "ctxs w cs = Some c" "cc_flags c AND CALL_CTX_FAST_LONG = 0" "cc_flags c AND CALL_CTX_FAST_INT = 0"
    and cif: "cif_abi (cc_cif c) = FFI_UNIX64" "cif_nargs (cc_cif c) = of_nat (length ps)"
      "read_ptrs w (cif_arg_types (cc_cif c)) (length ps) = Some ps" "cif_bytes (cc_cif c) = 0"
      "types w (cif_rtype (cc_cif c)) = Some (builtin_type b)" "integer_type (builtin_type b)"
      "ret_flags fuel w (builtin_type b) = Some (Inr (g, cif_flags (cc_cif c)))"
    and ts: "list_all2 (\<lambda>p t. types w p = Some t \<and> integer_type t) ps ts" "length xs = length ts"
    and xs: "map2 promote ts xs = xs" "xs \<noteq> []" "length xs \<le> 6"
    and st: "1024 \<le> unat (stack_top w)"
  shows "\<exists>m. call_stmt (pure_target (length xs) f) efi64 (Suc k) cf fn xs w = Some (rr_rax (f fn xs), w)
     \<and> call_stmt (pure_target (length xs) f) efi64 (Suc k) cs fn xs w
          = Some (promote (builtin_type b) (rr_rax (f fn xs)), w\<lparr>mem := m\<rparr>)
     \<and> (\<forall>a. unat (stack_top w) \<le> unat a \<longrightarrow> m a = mem w a)"
proof -
  have direct: "call_stmt (pure_target (length xs) f) efi64 (Suc k) cf fn xs w = Some (rr_rax (f fn xs), w)"
    using fast by (simp add: call_stmt_def invokeL_def c_call_def pure_target_def)
  obtain rv w1 where al: "alloca 8 w = (rv, w1)" by (cases "alloca 8 w")
  have w1: "w1 = w\<lparr>stack_top := rv, mem := map_block rv (fresh_bytes w rv 8) (mem w)\<rparr>"
    using al by (auto simp: alloca_def Let_def)
  have sp: "unat rv + 8 \<le> unat (stack_top w)" "unat (stack_top w) < unat rv + 24" "unat rv + 8 \<le> 2 ^ 64"
    using alloca_span [OF al] st by auto
  have eq: "ptrs w1 = ptrs w" "types w1 = types w" "stack_top w1 = rv" "ctxs w1 = ctxs w" by (simp_all add: w1)
  have rp: "read_ptrs w1 (cif_arg_types (cc_cif c)) (length ps) = Some ps" using cif(3) by (simp only: read_ptrs_def eq)
  have rf: "ret_flags fuel w1 (builtin_type b) = Some (Inr (g, cif_flags (cc_cif c)))"
    using cif(7) ret_flags_any [OF cif(6), of fuel w1 w] by simp
  obtain m where m: "ffi_call_args (pure_target (length xs) f) efi64 (Suc k) cs fn rv xs w1 = Some (w1\<lparr>mem := m\<rparr>)"
    "load m rv 8 = Some (le_bytes 8 (promote (builtin_type b) (rr_rax (f fn xs))))"
    "\<And>a. unat (stack_top w1) \<le> unat a \<Longrightarrow> a \<notin> span rv 8 \<Longrightarrow> m a = mem w1 a"
  proof -
    have "\<exists>m. ffi_call_args (pure_target (length xs) f) efi64 (Suc k) cs fn rv xs w1 = Some (w1\<lparr>mem := m\<rparr>)
       \<and> load m rv 8 = Some (le_bytes 8 (promote (builtin_type b) (rr_rax (f fn (map2 promote ts xs)))))
       \<and> (\<forall>a. unat (stack_top w1) \<le> unat a \<and> a \<notin> span rv 8 \<longrightarrow> m a = mem w1 a)"
      by (rule ffi_call_args_pure [OF _ _ _ cif(2) rp cif(4) _ ts(2) xs(2,3) _ cif(6) rf])
         (use slow cif ts st sp in \<open>auto simp: eq w1 map_block_dom\<close>)
    with xs(1) that show thesis by auto
  qed
  have "m a = mem w a" if "unat (stack_top w) \<le> unat a" for a
  proof -
    have out: "a \<notin> span rv 8" using span_interval [OF sp(3)] sp that by auto
    with m(3) [of a] sp that have "m a = mem w1 a" by (simp add: w1)
    with out show ?thesis by (simp add: w1 map_block_outside)
  qed
  moreover have "call_stmt (pure_target (length xs) f) efi64 (Suc k) cs fn xs w
          = Some (promote (builtin_type b) (rr_rax (f fn xs)), w\<lparr>mem := m\<rparr>)"
    using slow al m(1,2) xs(1) by (simp add: call_stmt_def w1)
  ultimately show ?thesis using direct by blast
qed

theorem fast_path_agrees_witness:
  "\<exists>m. call_stmt (pure_target 2 (\<lambda>_ xs. (zero_regs\<lparr>rr_rax := xs ! 0 + xs ! 1\<rparr>))) (\<lambda>_ _ _ _ _. None) 1 0x9000 0x4000 [- 7, 5] fast_boot
       = Some (- 2, fast_boot)
     \<and> call_stmt (pure_target 2 (\<lambda>_ xs. (zero_regs\<lparr>rr_rax := xs ! 0 + xs ! 1\<rparr>))) (\<lambda>_ _ _ _ _. None) 1 0x9100 0x4000 [- 7, 5] fast_boot
       = Some (- 2, fast_boot\<lparr>mem := m\<rparr>)"
proof -
  let ?f = "\<lambda>(_ :: addr) xs. zero_regs\<lparr>rr_rax := xs ! 0 + xs ! 1\<rparr>"
  let ?ps = "[image_symbol ffi_type_sint32, image_symbol ffi_type_uint8]"
  let ?ts = "[builtin_type ffi_type_sint32, builtin_type ffi_type_uint8]"
  have c: "ctxs fast_boot 0x9000 = Some (zero_ctx\<lparr>cc_flags := CALL_CTX_FAST_LONG\<rparr>)"
    "ctxs fast_boot 0x9100 = Some fast_boot_ctx" by (simp_all add: fast_boot_def)
  have fl: "cc_flags (zero_ctx\<lparr>cc_flags := CALL_CTX_FAST_LONG\<rparr>) AND CALL_CTX_FAST_LONG \<noteq> 0"
    "cc_flags fast_boot_ctx AND CALL_CTX_FAST_LONG = 0" "cc_flags fast_boot_ctx AND CALL_CTX_FAST_INT = 0"
    by (simp_all add: fast_boot_ctx_def zero_ctx_def)
  have cif: "cif_abi (cc_cif fast_boot_ctx) = FFI_UNIX64" "cif_nargs (cc_cif fast_boot_ctx) = of_nat (length ?ps)"
    "read_ptrs fast_boot (cif_arg_types (cc_cif fast_boot_ctx)) (length ?ps) = Some ?ps" "cif_bytes (cc_cif fast_boot_ctx) = 0"
    "types fast_boot (cif_rtype (cc_cif fast_boot_ctx)) = Some (builtin_type ffi_type_sint32)"
    "cif_flags (cc_cif fast_boot_ctx) = UNIX64_RET_SINT32"
    by (simp_all add: fast_boot_ctx_def zero_cif_def fast_boot_def thread_boot_def read_ptrs_def)
  have it: "integer_type (builtin_type ffi_type_sint32)" "integer_type (builtin_type ffi_type_uint8)"
    by (simp_all add: integer_type_def is_int32_code_def is_int64_code_def builtin_type.simps FFI_TYPEDEF_def)
  have rf: "ret_flags 1 fast_boot (builtin_type ffi_type_sint32) = Some (Inr (0, cif_flags (cc_cif fast_boot_ctx)))"
    unfolding cif(6) by (simp add: ret_flags_def builtin_type.simps FFI_TYPEDEF_def)
  have ts: "list_all2 (\<lambda>p t. types fast_boot p = Some t \<and> integer_type t) ?ps ?ts"
    using it by (simp add: fast_boot_def thread_boot_def)
  have pr: "map2 promote ?ts [- 7, 5] = [- 7, 5]" "promote (builtin_type ffi_type_sint32) (- 2) = - 2"
    by (simp_all add: promote_def builtin_type.simps FFI_TYPEDEF_def)
  have len: "length [- 7 :: u64, 5] = length ?ts" "[- 7 :: u64, 5] \<noteq> []" "length [- 7 :: u64, 5] \<le> 6" "length [- 7 :: u64, 5] = 2"
    by simp_all
  have st: "1024 \<le> unat (stack_top fast_boot)" by (simp add: fast_boot_def thread_boot_def)
  from fast_path_agrees [OF c(1) fl(1) c(2) fl(2,3) cif(1-5) it(1) rf ts len(1) pr(1) len(2,3) st,
      of ?f "\<lambda>_ _ _ _ _. None" 0 "0x4000", unfolded len(4)] pr(2)
  show ?thesis by auto
qed

section \<open>Objects that cannot be converted\<close>

text \<open>Why an object parameter is refused before anything is copied: the specification of the checks of
  \<open>ADDOBJ\<close> and \<open>object_to_ptr\<close>. Small arrays that need not be pinned are not checked for null.\<close>

definition object_error :: "'j jni \<Rightarrow> 'j \<Rightarrow> nat \<Rightarrow> ObjectParam \<Rightarrow> (exn \<times> string \<times> fmtarg list) option" where
  "object_error J j n p =
     (let f = op_flags p; idx = OBJIDX f in
      if \<not> (0 \<le> sint idx \<and> sint idx < int n)
      then Some (OutOfBounds, ''invalid object parameter index %d (expected 0..%d)'', [ArgInt idx, ArgInt (of_nat n - 1)])
      else if IS_UNPINNED_ARRAY f \<and> sint (op_length p) < 1024 then None
      else if op_object p = NULL then Some (NullPointer, ''null object for parameter %d'', [ArgInt idx])
      else if IS_PINNED_ARRAY f \<or> IS_ARRAY f then None
      else if IS_BUFFER f
      then (if BufferAddress J j (op_object p) = NULL
            then Some (NullPointer, ''could not get direct buffer address for parameter %d'', [ArgInt idx]) else None)
      else Some (IllegalArgument, ''unsupported object type for parameter %d: %#x'', [ArgInt idx, ArgInt f]))"

lemma ADDOBJ_error:
  assumes "object_error J (jvm w) n p = Some (e, fmt, args)"
  shows "ADDOBJ J n p cv w = Some ((False, cv), throwException e fmt args w)"
proof (cases "0 \<le> sint (OBJIDX (op_flags p)) \<and> sint (OBJIDX (op_flags p)) < int n")
  case True
  moreover from this have "\<not> (IS_UNPINNED_ARRAY (op_flags p) \<and> sint (op_length p) < 1024)"
    using assms by (auto simp: object_error_def Let_def)
  moreover from calculation have "object_to_ptr J p (unat (OBJIDX (op_flags p))) cv w = Some ((False, cv), throwException e fmt args w)"
    using assms by (simp add: object_error_def object_to_ptr_def Let_def split: if_splits)
  ultimately show ?thesis by (auto simp: ADDOBJ_def Let_def)
next
  case False
  with assms show ?thesis by (auto simp: object_error_def ADDOBJ_def Let_def)
qed

text \<open>What the conversion keeps: the arrays collected so far own exactly the blocks that are new.\<close>

definition owns :: "Array list \<Rightarrow> 'a world_scheme \<Rightarrow> bool" where
  "owns arrays w \<longleftrightarrow> distinct (map ar_elems (filter (\<lambda>a. ar_release a = Some ReleaseHeap) arrays))
     \<and> (\<forall>a \<in> set arrays. ar_release a \<noteq> Some ReleaseCritical)
     \<and> heap_blocks arrays \<subseteq> blocks w \<and> NULL \<notin> heap_blocks arrays"

definition converting :: "'a world_scheme \<Rightarrow> Array list \<Rightarrow> 'a world_scheme \<Rightarrow> bool" where
  "converting w0 arrays w \<longleftrightarrow> heap_ok w \<and> \<not> raised w \<and> find_class w = find_class w0 \<and> owns arrays w
     \<and> blocks w = blocks w0 \<union> heap_blocks arrays \<and> blocks w0 \<inter> heap_blocks arrays = {}"

lemma fill_frame:
  assumes "fill J p ary w = Some ((a, ary'), w')"
  shows "live w' = live w \<and> script w' = script w \<and> find_class w' = find_class w \<and> ar_release ary' = ar_release ary
     \<and> ar_elems ary' = ar_elems ary \<and> stack_top w' = stack_top w
     \<and> (a \<noteq> NULL \<longrightarrow> a = ar_elems ary \<and> (raised w' \<longrightarrow> raised w))"
  using assms
  by (auto simp: fill_def GET_ARRAY_BUFFER_def COPY_DATA_def GetArrayRegion_def memset_def nul_terminate_def jthrow_def
           split: bind_splits if_splits sum.splits)

lemma getArrayBuffer_frame:
  assumes "jffi_getArrayBuffer J obj off len type ptr w = Some ((a, ary), w')" and "a \<noteq> NULL"
  shows "live w' = live w \<and> script w' = script w \<and> find_class w' = find_class w \<and> ar_release ary = None
     \<and> (raised w' \<longrightarrow> raised w)"
proof (cases "prim_of type")
  case None
  with assms show ?thesis by (simp add: jffi_getArrayBuffer_def Let_def)
next
  case (Some p)
  from assms(1) [unfolded getArrayBuffer_fill [OF Some]] show ?thesis using assms(2) by (auto dest: fill_frame)
qed

lemma getArrayHeap_frame:
  assumes "jffi_getArrayHeap J obj off len type w = Some ((a, ary), w')" and "a \<noteq> NULL" and ok: "heap_ok w"
  shows "heap_ok w' \<and> find_class w' = find_class w \<and> ar_release ary = Some ReleaseHeap \<and> ar_elems ary = a
     \<and> a \<notin> blocks w \<and> blocks w' = insert a (blocks w) \<and> (raised w' \<longrightarrow> raised w)"
proof (cases "prim_of type")
  case None
  with assms show ?thesis by (simp add: jffi_getArrayHeap_def Let_def)
next
  case (Some p)
  obtain q w1 where m: "malloc (widen (alloc_size p len)) w = Some (q, w1)" using libc.request_total by blast
  have q: "q \<noteq> NULL"
    using assms(1,2) Some m
    by (auto simp: jffi_getArrayHeap_def GET_ARRAY_HEAP_def malloc_mem_def Let_def split: bind_splits if_splits)
  define w2 where "w2 = w1\<lparr>mem := map_block q (fresh_bytes w1 q (unat (widen (alloc_size p len)))) (mem w1)\<rparr>"
  have mm: "malloc_mem (widen (alloc_size p len)) w = Some (q, w2)" using m q by (simp add: malloc_mem_def w2_def)
  have f: "fill J p (heap_array obj off len type q) w2 = Some ((a, ary), w')"
    using getArrayHeap_fill [OF Some mm q] assms(1) by simp
  have w1: "find_class w1 = find_class w" "pending w1 = pending w"
    using m by (auto simp: malloc_def Let_def)
  have "heap_ok w1" using malloc_ok [OF ok m] .
  moreover have "q \<notin> blocks w" "blocks w1 = insert q (blocks w)" using libc.request_fresh [OF ok m q] by blast+
  ultimately show ?thesis using fill_frame [OF f] assms(2) w1
    by (auto simp: w2_def heap_array_def heap_ok_def)
qed

lemma converting_more:
  assumes c: "converting w0 arrays w" and r: "ar_release ary \<noteq> Some ReleaseCritical" and h: "heap_ok w'"
    and n: "\<not> raised w'" "find_class w' = find_class w"
    and b: "if ar_release ary = Some ReleaseHeap
            then ar_elems ary \<noteq> NULL \<and> ar_elems ary \<notin> blocks w \<and> blocks w' = insert (ar_elems ary) (blocks w)
            else blocks w' = blocks w"
  shows "converting w0 (arrays @ [ary]) w'"
proof -
  have "heap_blocks (arrays @ [ary]) = heap_blocks arrays \<union> heap_blocks [ary]" by (auto simp: heap_blocks_def)
  moreover have "ar_elems ` {a \<in> set arrays. ar_release a = Some ReleaseHeap} = heap_blocks arrays"
    by (simp add: heap_blocks_def)
  ultimately show ?thesis using c r h n b by (auto simp: converting_def owns_def split: if_splits)
qed

lemma alloca_frame [simp]:
  "live (snd (alloca n w)) = live w" "script (snd (alloca n w)) = script w" "pending (snd (alloca n w)) = pending w"
  "find_class (snd (alloca n w)) = find_class w" "heap_ok (snd (alloca n w)) = heap_ok w"
  by (simp_all add: alloca_def Let_def heap_ok_def)

lemma converting_buffer:
  assumes c: "converting w0 arrays w" and al: "alloca n w = (ptr, w1)"
    and g: "jffi_getArrayBuffer J obj off len type ptr w1 = Some ((a, ary), w')" "a \<noteq> NULL"
  shows "converting w0 (arrays @ [ary]) w'"
proof -
  have w1: "w1 = snd (alloca n w)" by (simp add: al)
  have fr: "live w' = live w" "script w' = script w" "find_class w' = find_class w" "ar_release ary = None" "\<not> raised w'"
    using getArrayBuffer_frame [OF g] c by (auto simp: w1 converting_def)
  have "heap_ok w" using c by (simp add: converting_def)
  then have "heap_ok w'" using fr(1,2) by (simp add: heap_ok_def)
  with fr show ?thesis by (intro converting_more [OF c]) simp_all
qed

lemma converting_heap:
  assumes c: "converting w0 arrays w"
    and g: "jffi_getArrayHeap J obj off len type w = Some ((a, ary), w')" "a \<noteq> NULL"
  shows "converting w0 (arrays @ [ary]) w'"
proof -
  have "heap_ok w" using c by (simp add: converting_def)
  from getArrayHeap_frame [OF g this] show ?thesis
    by (intro converting_more [OF c]) (use c g(2) in \<open>auto simp: converting_def\<close>)
qed

lemma ADDOBJ_converting:
  assumes run: "ADDOBJ J n p cv w = Some ((True, cv'), w')" and c: "converting w0 (cv_arrays cv) w"
  shows "converting w0 (cv_arrays cv') w'"
proof (cases "IS_UNPINNED_ARRAY (op_flags p) \<and> sint (op_length p) < sint MAX_STACK_ARRAY")
  case True
  obtain ptr w1 where al: "alloca (unat (widen (jffi_arraySize (op_length p + 1) (op_flags p)))) w = (ptr, w1)"
    by fastforce
  from run True obtain a ary where
    g: "jffi_getArrayBuffer J (op_object p) (op_offset p) (op_length p) (op_flags p) ptr w1 = Some ((a, ary), w')"
    "a \<noteq> NULL" "cv_arrays cv' = cv_arrays cv @ [ary]"
    by (auto simp: ADDOBJ_def Let_def al split: bind_splits if_splits)
  from converting_buffer [OF c al g(1,2)] show ?thesis by (simp add: g(3))
next
  case False
  with run have o: "object_to_ptr J p (unat (OBJIDX (op_flags p))) cv w = Some ((True, cv'), w')"
    by (auto simp: ADDOBJ_def Let_def split: if_splits)
  show ?thesis
  proof (cases "cv_arrays cv' = cv_arrays cv \<and> w' = w")
    case True
    with c show ?thesis by simp
  next
    case False
    with o obtain a ary where
      g: "jffi_getArrayHeap J (op_object p) (op_offset p) (op_length p) (op_flags p) w = Some ((a, ary), w')"
      "a \<noteq> NULL" "cv_arrays cv' = cv_arrays cv @ [ary]"
      by (auto simp: object_to_ptr_def Let_def split: bind_splits if_splits)
    from converting_heap [OF c g(1,2)] show ?thesis by (simp add: g(3))
  qed
qed

lemma add_objects_converting:
  "add_objects J n objects cv w = Some ((True, cv'), w') \<Longrightarrow> converting w0 (cv_arrays cv) w
   \<Longrightarrow> converting w0 (cv_arrays cv') w'"
proof (induction objects arbitrary: cv w)
  case (Cons p objects)
  from Cons.prems(1) obtain cv1 w1 where s: "ADDOBJ J n p cv w = Some ((True, cv1), w1)"
    "add_objects J n objects cv1 w1 = Some ((True, cv'), w')"
    by (auto split: bind_splits if_splits)
  show ?case by (rule Cons.IH [OF s(2) ADDOBJ_converting [OF s(1) Cons.prems(2)]])
qed simp

lemma add_objects_append:
  "add_objects J n objects cv w = Some ((True, cv1), w1) \<Longrightarrow>
   add_objects J n (objects @ rest) cv w = add_objects J n rest cv1 w1"
proof (induction objects arbitrary: cv w)
  case (Cons p objects)
  from Cons.prems obtain cv2 w2 where s: "ADDOBJ J n p cv w = Some ((True, cv2), w2)"
    "add_objects J n objects cv2 w2 = Some ((True, cv1), w1)"
    by (auto split: bind_splits if_splits)
  with Cons.IH [OF s(2)] show ?case by simp
qed simp

text \<open>With an exception pending, releasing copies nothing out.\<close>

lemma release_raised:
  fixes w :: "('j, 'a) jni_world_scheme"
  assumes "raised w" and "owns arrays w"
  shows "\<exists>w'. jffi_releaseArrays J arrays w = Some w' \<and> blocks w' = blocks w - heap_blocks arrays
     \<and> pending w' = pending w \<and> jvm w' = jvm w"
proof -
  have run: "\<exists>w'. release_loop J as w = Some w' \<and> blocks w' = blocks w - heap_blocks as
     \<and> pending w' = pending w \<and> jvm w' = jvm w" if "raised w" "owns as w" for as and w :: "('j, 'a) jni_world_scheme"
    using that
  proof (induction as arbitrary: w)
    case Nil then show ?case by (simp add: heap_blocks_def)
  next
    case (Cons a as)
    show ?case
    proof (cases "ar_release a = Some ReleaseHeap")
      case True
      with Cons.prems(2) obtain n where n: "live w (ar_elems a) = Some n" "ar_elems a \<noteq> NULL"
        by (auto simp: owns_def)
      let ?w1 = "w\<lparr>live := (live w)(ar_elems a := None), mem := unmap (ar_elems a) (unat n) (mem w)\<rparr>"
      have rel: "jffi_releaseArray J a w = Some ?w1"
        using True n Cons.prems(1) by (auto simp: jffi_releaseArray_def free_mem_def free_def split: option.split)
      have "owns as ?w1" using Cons.prems(2) True by (auto simp: owns_def heap_blocks_def image_iff)
      with Cons.IH [of ?w1] Cons.prems(1) rel True show ?thesis by (auto split: if_splits)
    next
      case False
      then have "ar_release a = None" using Cons.prems(2)
        by (cases "ar_release a") (auto simp: owns_def, metis array_release.exhaust)
      then have rel: "jffi_releaseArray J a w = Some w" using Cons.prems(1)
        by (auto simp: jffi_releaseArray_def split: option.split)
      have "owns as w" using Cons.prems(2) False by (auto simp: owns_def)
      with Cons.IH [of w] Cons.prems(1) rel False show ?thesis by simp
    qed
  qed
  have "owns (rev arrays) w" using assms(2) by (simp add: owns_def heap_blocks_def rev_filter [symmetric] rev_map [symmetric])
  from run [OF assms(1) this] show ?thesis by (simp add: jffi_releaseArrays_def heap_blocks_def)
qed

text \<open>Claim C19. A refused object stops the call. When the objects before it were converted and an object
  parameter has an index outside the parameters, is null, is a buffer without an address or of no
  known kind, the numeric entry points with objects return 0 with the exception of that check
  pending, whatever function was to be called: it is never called. Every block allocated for the
  objects before is free again and no Java array is written.\<close>

theorem invoke_n_refused_object:
  assumes ok: "heap_ok w" and nr: "\<not> raised w"
    and conv: "add_objects J (length ns) objects \<lparr>cv_v = ns, cv_arrays = [], cv_pinned = []\<rparr> w = Some ((True, cv), w1)"
    and bad: "object_error J (jvm w1) (length ns) p = Some (e, fmt, args)"
  shows "\<exists>w'. (\<forall>native efi64 fuel ctx function.
        invoke_n J native efi64 fuel ctx function ns (objects @ p # rest) w = Some (0, w'))
     \<and> pending w' = pending (throwException e fmt args w) \<and> blocks w' = blocks w \<and> jvm w' = jvm w1"
proof -
  have "converting w [] w" using ok nr by (simp add: converting_def owns_def)
  then have c: "converting w (cv_arrays cv) w1" using add_objects_converting [OF conv, of w] by simp
  let ?w2 = "throwException e fmt args w1"
  have all: "add_objects J (length ns) (objects @ p # rest) \<lparr>cv_v = ns, cv_arrays = [], cv_pinned = []\<rparr> w
      = Some ((False, cv), ?w2)"
    using ADDOBJ_error [OF bad, of cv] by (simp add: add_objects_append [OF conv])
  have "owns (cv_arrays cv) ?w2" using c by (simp add: converting_def owns_def)
  then obtain w3 where w3: "jffi_releaseArrays J (cv_arrays cv) ?w2 = Some w3"
    "blocks w3 = blocks ?w2 - heap_blocks (cv_arrays cv)" "pending w3 = pending ?w2" "jvm w3 = jvm ?w2"
    using release_raised [of ?w2 "cv_arrays cv" J] by auto
  have "pending ?w2 = pending (throwException e fmt args w)"
    using c by (simp add: throwException_def throwExceptionByName_def Let_def converting_def)
  moreover have "blocks w3 = blocks w" using w3(2) c by (auto simp: converting_def)
  moreover have "jvm ?w2 = jvm w1" by (simp add: throwException_def throwExceptionByName_def Let_def)
  ultimately show ?thesis using all w3 by (intro exI [of _ "w3\<lparr>stack_top := stack_top w\<rparr>"]) (simp add: invoke_n_def)
qed

theorem invoke_n_refused_object_witness:
  "\<exists>w'. (\<forall>native efi64 fuel. invoke_n (heap_jni\<lparr>BufferAddress := (\<lambda>_ _. 0x5000)\<rparr>) native efi64 fuel 0x9000 0x4000 [1, 2]
        [\<lparr>op_object = 7, op_offset = 0, op_length = 4, op_flags = 0x20000000\<rparr>,
         \<lparr>op_object = NULL, op_offset = 0, op_length = 4, op_flags = 0x10010009\<rparr>] (jni_boot Map.empty Map.empty []) = Some (0, w'))
     \<and> pending w' = Some (JThrow ''java/lang/NullPointerException'' ''null object for parameter 1'')"
proof -
  let ?J = "heap_jni\<lparr>BufferAddress := (\<lambda>_ _. 0x5000)\<rparr>" and ?w = "jni_boot Map.empty Map.empty []"
  let ?p = "\<lparr>op_object = 7, op_offset = 0, op_length = 4, op_flags = 0x20000000\<rparr>"
  let ?q = "\<lparr>op_object = NULL, op_offset = 0, op_length = 4, op_flags = 0x10010009\<rparr>"
  let ?cv = "\<lparr>cv_v = [1, 2], cv_arrays = [], cv_pinned = []\<rparr>"
  have "add_objects ?J (length [1 :: jlong, 2]) [?p] ?cv ?w = Some ((True, ?cv\<lparr>cv_v := [0x5000, 2]\<rparr>), ?w)"
    by (simp add: ADDOBJ_def object_to_ptr_def OBJIDX_def IS_UNPINNED_ARRAY_def IS_PINNED_ARRAY_def IS_ARRAY_def
        IS_BUFFER_def OBJTYPE_def p2j_def Let_def)
  moreover have "object_error ?J (jvm ?w) (length [1 :: jlong, 2]) ?q = Some (NullPointer, ''null object for parameter %d'', [ArgInt 1])"
    by (simp add: object_error_def OBJIDX_def IS_UNPINNED_ARRAY_def Let_def)
  moreover have "heap_ok ?w" "\<not> raised ?w" by (simp_all add: heap_ok_def)
  ultimately have "\<exists>w'. (\<forall>native efi64 fuel ctx function. invoke_n ?J native efi64 fuel ctx function [1, 2] ([?p] @ ?q # []) ?w = Some (0, w'))
      \<and> pending w' = pending (throwException NullPointer ''null object for parameter %d'' [ArgInt 1] ?w)
      \<and> blocks w' = blocks ?w \<and> jvm w' = jvm ?w"
    by (intro invoke_n_refused_object)
  moreover have "pending (throwException NullPointer ''null object for parameter %d'' [ArgInt 1] ?w)
      = Some (JThrow ''java/lang/NullPointerException'' ''null object for parameter 1'')"
    by (simp add: throwException_def throwExceptionByName_def jni_boot_def fmt_d_def numeral_eq_Suc)
  ultimately show ?thesis by auto
qed

end
