(* ===== verification/Jffi_MemoryIO.thy ===== *)
theory Jffi_MemoryIO
  imports Jffi_Array
begin

text \<open>
  Raw memory access from Java: \<^verbatim>\<open>jni/jffi/MemoryIO.c\<close>, the page functions of \<^verbatim>\<open>MemoryUtil.c\<close> and the
  mapping calls of \<^verbatim>\<open>Memory.c\<close>. The eight families a macro generates per primitive type are one
  definition over the type; a value is its bits. Calls to the operating system are parameters, the
  string and memory functions of the C library are defined here.
\<close>

section \<open>The C library\<close>

text \<open>Copying between overlapping objects is undefined for \<open>memcpy\<close>, allowed for \<open>memmove\<close>.\<close>

definition memmove :: "addr \<Rightarrow> addr \<Rightarrow> nat \<Rightarrow> 'a mem_world_scheme \<Rightarrow> 'a mem_world_scheme option" where
  "memmove dst src n w = do {
     bs \<leftarrow> load (mem w) src n;
     m \<leftarrow> store (mem w) dst bs;
     Some (w\<lparr>mem := m\<rparr>)
   }"

definition memcpy :: "addr \<Rightarrow> addr \<Rightarrow> nat \<Rightarrow> 'a mem_world_scheme \<Rightarrow> 'a mem_world_scheme option" where
  "memcpy dst src n w = (if span dst n \<inter> span src n = {} then memmove dst src n w else None)"

text \<open>\<open>memchr\<close> reads no further than the first match.\<close>

fun memchr :: "memory \<Rightarrow> addr \<Rightarrow> byte \<Rightarrow> nat \<Rightarrow> addr option" where
  "memchr m p c 0 = Some NULL"
| "memchr m p c (Suc n) = do { b \<leftarrow> m p; if b = c then Some p else memchr m (p + 1) c n }"

text \<open>The length of the string at \<open>p\<close>, \<open>n\<close> bytes of it already passed.\<close>

partial_function (option) strlen_from :: "memory \<Rightarrow> addr \<Rightarrow> nat \<Rightarrow> nat option" where
  "strlen_from m p n = do { b \<leftarrow> m (p + of_nat n); if b = 0 then Some n else strlen_from m p (n + 1) }"

definition strlen :: "memory \<Rightarrow> addr \<Rightarrow> nat option" where
  "strlen m p = strlen_from m p 0"

section \<open>Single values\<close>

text \<open>Fault protection is disabled.\<close>

definition PROT :: "('w \<Rightarrow> 'r option) \<Rightarrow> 'w \<Rightarrow> 'r option" where
  "PROT stmt w = stmt w"

definition Foreign_get :: "prim \<Rightarrow> jlong \<Rightarrow> 'a mem_world_scheme \<Rightarrow> u64 option" where
  "Foreign_get p address w = map_option le_word (load (mem w) (j2p address) (prim_size p))"

definition Foreign_getChecked :: "prim \<Rightarrow> jlong \<Rightarrow> 'a mem_world_scheme \<Rightarrow> u64 option" where
  "Foreign_getChecked p address w =
     PROT (\<lambda>w. map_option le_word (load (mem w) (j2p address) (prim_size p))) w"

definition Foreign_put :: "prim \<Rightarrow> jlong \<Rightarrow> u64 \<Rightarrow> 'a mem_world_scheme \<Rightarrow> 'a mem_world_scheme option" where
  "Foreign_put p address v w =
     map_option (\<lambda>m. w\<lparr>mem := m\<rparr>) (store (mem w) (j2p address) (le_bytes (prim_size p) v))"

definition Foreign_putChecked :: "prim \<Rightarrow> jlong \<Rightarrow> u64 \<Rightarrow> 'a mem_world_scheme \<Rightarrow> 'a mem_world_scheme option" where
  "Foreign_putChecked p address v w =
     PROT (\<lambda>w. map_option (\<lambda>m. w\<lparr>mem := m\<rparr>) (store (mem w) (j2p address) (le_bytes (prim_size p) v))) w"

definition getAddress :: "jlong \<Rightarrow> 'a mem_world_scheme \<Rightarrow> jlong option" where
  "getAddress address w = map_option (\<lambda>bs. p2j (le_word bs)) (PROT (\<lambda>w. load (mem w) (j2p address) 8) w)"

definition putAddress :: "jlong \<Rightarrow> jlong \<Rightarrow> 'a mem_world_scheme \<Rightarrow> 'a mem_world_scheme option" where
  "putAddress address v w =
     PROT (\<lambda>w. map_option (\<lambda>m. w\<lparr>mem := m\<rparr>) (store (mem w) (j2p address) (le_bytes 8 (j2p v)))) w"

section \<open>Java arrays\<close>

definition putArray ::
  "'j jni \<Rightarrow> prim \<Rightarrow> jlong \<Rightarrow> jobject \<Rightarrow> jint \<Rightarrow> jint \<Rightarrow> ('j, 'a) jni_world_scheme \<Rightarrow> ('j, 'a) jni_world_scheme option"
where
  "putArray J p address obj offset len w = GetArrayRegion J p obj offset len (j2p address) w"

definition getArray ::
  "'j jni \<Rightarrow> prim \<Rightarrow> jlong \<Rightarrow> jobject \<Rightarrow> jint \<Rightarrow> jint \<Rightarrow> ('j, 'a) jni_world_scheme \<Rightarrow> ('j, 'a) jni_world_scheme option"
where
  "getArray J p address obj offset len w = SetArrayRegion J p obj offset len (j2p address) w"

text \<open>The pieces the checked variants copy: \<open>MIN(sizeof(tmp) / typeSize, length - copyOff)\<close> elements at
  \<open>address + (copyOff * typeSize)\<close>, computed in \<open>int\<close>.\<close>

definition chunk_len :: "prim \<Rightarrow> jint \<Rightarrow> jint \<Rightarrow> jint" where
  "chunk_len p len copyOff =
     (let a = of_nat (4096 div prim_size p); b = len - copyOff in if sint a < sint b then a else b)"

definition chunk_addr :: "prim \<Rightarrow> jlong \<Rightarrow> jint \<Rightarrow> jlong" where
  "chunk_addr p address copyOff = address + widen (copyOff * of_nat (prim_size p))"

definition chunk_bytes :: "prim \<Rightarrow> jint \<Rightarrow> nat" where
  "chunk_bytes p copyLen = nat (sint (copyLen * of_nat (prim_size p)))"

text \<open>\<open>tmp\<close> is a block of its own on the stack; what it holds at first is undetermined.\<close>

abbreviation chunk_tmp :: "'a mem_world_scheme \<Rightarrow> byte list" where
  "chunk_tmp w \<equiv> fresh_bytes w (fst (alloca 4096 w)) 4096"

partial_function (option) putArrayChecked ::
  "'j jni \<Rightarrow> prim \<Rightarrow> jlong \<Rightarrow> jobject \<Rightarrow> jint \<Rightarrow> jint \<Rightarrow> jint \<Rightarrow> ('j, 'a) jni_world_scheme
     \<Rightarrow> ('j, 'a) jni_world_scheme option"
where
  "putArrayChecked J p address obj offset len copyOff w =
     (if sint copyOff < sint len
      then do {
        copyLen \<leftarrow> Some (chunk_len p len copyOff);
        (tmp, w1) \<leftarrow> (case ArrayRegion J (jvm w) p obj (offset + copyOff) copyLen of
                        Inl x \<Rightarrow> Some (chunk_tmp w, jthrow x w)
                      | Inr bs \<Rightarrow> map_option (\<lambda>t. (t, w)) (put (chunk_tmp w) 0 bs));
        m \<leftarrow> store (mem w1) (j2p (chunk_addr p address copyOff)) (take (chunk_bytes p copyLen) tmp);
        putArrayChecked J p address obj offset len (copyOff + copyLen) (w1\<lparr>mem := m\<rparr>)
      }
      else Some w)"

partial_function (option) getArrayChecked ::
  "'j jni \<Rightarrow> prim \<Rightarrow> jlong \<Rightarrow> jobject \<Rightarrow> jint \<Rightarrow> jint \<Rightarrow> jint \<Rightarrow> ('j, 'a) jni_world_scheme
     \<Rightarrow> ('j, 'a) jni_world_scheme option"
where
  "getArrayChecked J p address obj offset len copyOff w =
     (if sint copyOff < sint len
      then do {
        copyLen \<leftarrow> Some (chunk_len p len copyOff);
        bs \<leftarrow> load (mem w) (j2p (chunk_addr p address copyOff)) (chunk_bytes p copyLen);
        w1 \<leftarrow> (case SetRegion J (jvm w) p obj (offset + copyOff) copyLen of
                 Inl x \<Rightarrow> Some (jthrow x w)
               | Inr k \<Rightarrow> Some (w\<lparr>jvm := k bs\<rparr>));
        getArrayChecked J p address obj offset len (copyOff + copyLen) w1
      }
      else Some w)"

definition Foreign_putArrayChecked ::
  "'j jni \<Rightarrow> prim \<Rightarrow> jlong \<Rightarrow> jobject \<Rightarrow> jint \<Rightarrow> jint \<Rightarrow> ('j, 'a) jni_world_scheme \<Rightarrow> ('j, 'a) jni_world_scheme option"
where
  "Foreign_putArrayChecked J p address obj offset len w = PROT (putArrayChecked J p address obj offset len 0) w"

definition Foreign_getArrayChecked ::
  "'j jni \<Rightarrow> prim \<Rightarrow> jlong \<Rightarrow> jobject \<Rightarrow> jint \<Rightarrow> jint \<Rightarrow> ('j, 'a) jni_world_scheme \<Rightarrow> ('j, 'a) jni_world_scheme option"
where
  "Foreign_getArrayChecked J p address obj offset len w = PROT (getArrayChecked J p address obj offset len 0) w"

section \<open>Blocks\<close>

text \<open>A \<open>jlong\<close> size becomes a \<open>size_t\<close>. The unchecked and the checked functions have the same body.\<close>

definition setMemory :: "jlong \<Rightarrow> jlong \<Rightarrow> byte \<Rightarrow> 'a mem_world_scheme \<Rightarrow> 'a mem_world_scheme option" where
  "setMemory address sz v w = PROT (memset (j2p address) v (unat sz)) w"

definition copyMemory :: "jlong \<Rightarrow> jlong \<Rightarrow> jlong \<Rightarrow> 'a mem_world_scheme \<Rightarrow> 'a mem_world_scheme option" where
  "copyMemory src dst sz w = PROT (memcpy (j2p dst) (j2p src) (unat sz)) w"

definition Foreign_memchr :: "jlong \<Rightarrow> jint \<Rightarrow> jlong \<Rightarrow> 'a mem_world_scheme \<Rightarrow> jlong option" where
  "Foreign_memchr address c maxlen w =
     PROT (\<lambda>w. map_option p2j (memchr (mem w) (j2p address) (ucast c) (unat maxlen))) w"

definition Foreign_memmove :: "jlong \<Rightarrow> jlong \<Rightarrow> jlong \<Rightarrow> 'a mem_world_scheme \<Rightarrow> 'a mem_world_scheme option" where
  "Foreign_memmove dst src sz w = PROT (memmove (j2p dst) (j2p src) (unat sz)) w"

definition Foreign_memcpy :: "jlong \<Rightarrow> jlong \<Rightarrow> jlong \<Rightarrow> 'a mem_world_scheme \<Rightarrow> 'a mem_world_scheme option" where
  "Foreign_memcpy dst src sz w = PROT (memcpy (j2p dst) (j2p src) (unat sz)) w"

definition Foreign_strlen :: "jlong \<Rightarrow> 'a mem_world_scheme \<Rightarrow> jlong option" where
  "Foreign_strlen address w = PROT (\<lambda>w. map_option of_nat (strlen (mem w) (j2p address))) w"

section \<open>Strings\<close>

text \<open>Objects the virtual machine makes: an exception and a null reference, or the new object.\<close>

record 'j jni_objects =
  NewByteArray :: "'j \<Rightarrow> jint \<Rightarrow> throwable + (jobject \<times> 'j)"
  NewDirectByteBuffer :: "'j \<Rightarrow> addr \<Rightarrow> jlong \<Rightarrow> throwable + (jobject \<times> 'j)"

definition new_object :: "throwable + (jobject \<times> 'j) \<Rightarrow> ('j, 'a) jni_world_scheme \<Rightarrow> jobject \<times> ('j, 'a) jni_world_scheme" where
  "new_object r w = (case r of Inl x \<Rightarrow> (NULL, jthrow x w) | Inr (obj, j) \<Rightarrow> (obj, w\<lparr>jvm := j\<rparr>))"

definition new_bytes ::
  "'j jni \<Rightarrow> 'j jni_objects \<Rightarrow> addr \<Rightarrow> jint \<Rightarrow> ('j, 'a) jni_world_scheme \<Rightarrow> (jobject \<times> ('j, 'a) jni_world_scheme) option"
where
  "new_bytes J N str len w = do {
     (bytes, w1) \<leftarrow> Some (new_object (NewByteArray N (jvm w) len) w);
     w2 \<leftarrow> SetArrayRegion J JByte bytes 0 len str w1;
     Some (bytes, w2)
   }"

definition getZeroTerminatedByteArray ::
  "'j jni \<Rightarrow> 'j jni_objects \<Rightarrow> jlong \<Rightarrow> ('j, 'a) jni_world_scheme \<Rightarrow> (jobject \<times> ('j, 'a) jni_world_scheme) option"
where
  "getZeroTerminatedByteArray J N address w = do {
     len \<leftarrow> PROT (\<lambda>w. strlen (mem w) (j2p address)) w;
     new_bytes J N (j2p address) (of_nat len) w
   }"

text \<open>With a limit; \<open>zp - str\<close> is cut to \<open>jsize\<close>.\<close>

definition getZeroTerminatedByteArray_JI ::
  "'j jni \<Rightarrow> 'j jni_objects \<Rightarrow> jlong \<Rightarrow> jint \<Rightarrow> ('j, 'a) jni_world_scheme \<Rightarrow> (jobject \<times> ('j, 'a) jni_world_scheme) option"
where
  "getZeroTerminatedByteArray_JI J N address maxlen w = do {
     zp \<leftarrow> PROT (\<lambda>w. memchr (mem w) (j2p address) 0 (unat (widen maxlen))) w;
     new_bytes J N (j2p address) (if zp \<noteq> NULL then ucast (zp - j2p address) else maxlen) w
   }"

definition getZeroTerminatedByteArray_JJ ::
  "'j jni \<Rightarrow> 'j jni_objects \<Rightarrow> jlong \<Rightarrow> jlong \<Rightarrow> ('j, 'a) jni_world_scheme \<Rightarrow> (jobject \<times> ('j, 'a) jni_world_scheme) option"
where
  "getZeroTerminatedByteArray_JJ J N address maxlen w = getZeroTerminatedByteArray_JI J N address (ucast maxlen) w"

definition putZeroTerminatedByteArray ::
  "'j jni \<Rightarrow> jlong \<Rightarrow> jobject \<Rightarrow> jint \<Rightarrow> jint \<Rightarrow> ('j, 'a) jni_world_scheme \<Rightarrow> ('j, 'a) jni_world_scheme option"
where
  "putZeroTerminatedByteArray J address data offset len w = do {
     w1 \<leftarrow> GetArrayRegion J JByte data offset len (j2p address) w;
     memset (j2p address + widen len) 0 1 w1
   }"

definition putZeroTerminatedByteArrayChecked ::
  "'j jni \<Rightarrow> jlong \<Rightarrow> jobject \<Rightarrow> jint \<Rightarrow> jint \<Rightarrow> ('j, 'a) jni_world_scheme \<Rightarrow> ('j, 'a) jni_world_scheme option"
where
  "putZeroTerminatedByteArrayChecked J address data offset len w = do {
     w1 \<leftarrow> PROT (\<lambda>w. do { w1 \<leftarrow> memset (j2p address) 0 1 w; memset (j2p address + widen len) 0 1 w1 }) w;
     GetArrayRegion J JByte data offset len (j2p address) w1
   }"

section \<open>Allocation and buffers\<close>

definition allocateMemory :: "jlong \<Rightarrow> bool \<Rightarrow> 'a mem_world_scheme \<Rightarrow> (jlong \<times> 'a mem_world_scheme) option" where
  "allocateMemory sz clear w = do {
     (memory, w1) \<leftarrow> malloc_mem sz w;
     w2 \<leftarrow> (if memory \<noteq> NULL \<and> clear then memset memory 0 (unat sz) w1 else Some w1);
     Some (p2j memory, w2)
   }"

definition freeMemory :: "jlong \<Rightarrow> 'a mem_world_scheme \<Rightarrow> 'a mem_world_scheme option" where
  "freeMemory address w = free_mem (j2p address) w"

definition newDirectByteBuffer ::
  "'j jni_objects \<Rightarrow> jlong \<Rightarrow> jint \<Rightarrow> ('j, 'a) jni_world_scheme \<Rightarrow> jobject \<times> ('j, 'a) jni_world_scheme" where
  "newDirectByteBuffer N address capacity w =
     new_object (NewDirectByteBuffer N (jvm w) (j2p address) (widen capacity)) w"

definition getDirectBufferAddress :: "'j jni \<Rightarrow> jobject \<Rightarrow> ('j, 'a) jni_world_scheme \<Rightarrow> jlong" where
  "getDirectBufferAddress J buffer w = p2j (BufferAddress J (jvm w) buffer)"

section \<open>strlen\<close>

lemma strlen_from_Some:
  assumes "\<And>i. k \<le> i \<Longrightarrow> i < n \<Longrightarrow> \<exists>b. m (p + of_nat i) = Some b \<and> b \<noteq> 0" and "m (p + of_nat n) = Some 0" and "k \<le> n"
  shows "strlen_from m p k = Some n"
  using assms
proof (induction "n - k" arbitrary: k)
  case 0
  then show ?case by (simp add: strlen_from.simps)
next
  case (Suc d)
  then have kn: "k < n" by simp
  then obtain b where b: "m (p + of_nat k) = Some b" "b \<noteq> 0" using Suc.prems(1) [of k] by auto
  have "strlen_from m p (k + 1) = Some n" by (rule Suc.hyps(1)) (use Suc kn in auto)
  with b show ?case by (subst strlen_from.simps) simp
qed

lemma strlen_from_result:
  assumes "strlen_from m p k = Some n"
  shows "k \<le> n \<and> m (p + of_nat n) = Some 0 \<and> (\<forall>i. k \<le> i \<and> i < n \<longrightarrow> (\<exists>b. m (p + of_nat i) = Some b \<and> b \<noteq> 0))"
  using assms
proof (induction rule: strlen_from.raw_induct [rotated 1, consumes 1, case_names 1])
  case (1 strlen_from m p k n)
  then obtain b where b: "m (p + of_nat k) = Some b" by (auto split: bind_splits)
  show ?case
  proof (cases "b = 0")
    case True
    with 1(2) b show ?thesis by auto
  next
    case False
    with 1 b have r: "k + 1 \<le> n" "m (p + of_nat n) = Some 0"
      "\<And>i. k + 1 \<le> i \<Longrightarrow> i < n \<Longrightarrow> \<exists>b. m (p + of_nat i) = Some b \<and> b \<noteq> 0" by auto
    have "\<exists>b. m (p + of_nat i) = Some b \<and> b \<noteq> 0" if "k \<le> i" "i < n" for i
      using that r(3) [of i] b False by (cases "i = k") auto
    with r show ?thesis by auto
  qed
qed

lemma strlen_iff:
  "strlen m p = Some n \<longleftrightarrow> m (p + of_nat n) = Some 0 \<and> (\<forall>i < n. \<exists>b. m (p + of_nat i) = Some b \<and> b \<noteq> 0)"
  using strlen_from_result [of m p 0 n] strlen_from_Some [of 0 n m p] by (auto simp: strlen_def)

section \<open>The chunked copies\<close>

text \<open>Documented behaviour of the region functions: a part of a region holds the part of its elements,
  and storing a region in two parts is storing it at once.\<close>

definition slice_law :: "'j jni \<Rightarrow> bool" where
  "slice_law J \<longleftrightarrow> (\<forall>j p obj off len bs k n. ArrayRegion J j p obj off len = Inr bs \<and> 0 \<le> sint off
       \<and> sint off + sint len < 2 ^ 31 \<and> int (k + n) \<le> sint len \<longrightarrow>
     ArrayRegion J j p obj (off + of_nat k) (of_nat n) = Inr (take (n * prim_size p) (drop (k * prim_size p) bs)))"

lemma slice_lawD:
  "slice_law J \<Longrightarrow> ArrayRegion J j p obj off len = Inr bs \<Longrightarrow> 0 \<le> sint off \<Longrightarrow> sint off + sint len < 2 ^ 31
   \<Longrightarrow> int (k + n) \<le> sint len \<Longrightarrow>
   ArrayRegion J j p obj (off + of_nat k) (of_nat n) = Inr (take (n * prim_size p) (drop (k * prim_size p) bs))"
  unfolding slice_law_def by blast

lemma of_nat_jint: "0 \<le> sint (i :: jint) \<Longrightarrow> of_nat (nat (sint i)) = i"
  by (simp add: of_nat_nat)

lemma sint_of_nat_jint: "n < 2 ^ 31 \<Longrightarrow> sint (of_nat n :: jint) = int n"
  by (rule sint_of_nat32)

lemma widen_of_nat: "n < 2 ^ 31 \<Longrightarrow> widen (of_nat n :: jint) = of_nat n"
  using widen_nat [of "of_nat n"] by (simp add: sint_of_nat_jint)

definition chunk :: "prim \<Rightarrow> nat \<Rightarrow> nat \<Rightarrow> nat" where
  "chunk p n k = min (4096 div prim_size p) (n - k)"

lemma chunk_pos: "k < n \<Longrightarrow> 0 < chunk p n k" and chunk_le: "k \<le> n \<Longrightarrow> k + chunk p n k \<le> n"
  and chunk_4096: "chunk p n k * prim_size p \<le> 4096"
proof -
  show "0 < chunk p n k" if "k < n" using that by (cases p) (simp_all add: chunk_def)
  show "k + chunk p n k \<le> n" if "k \<le> n" using that by (simp add: chunk_def)
  have "chunk p n k * prim_size p \<le> 4096 div prim_size p * prim_size p" by (simp add: chunk_def)
  also have "\<dots> \<le> 4096" by simp
  finally show "chunk p n k * prim_size p \<le> 4096" .
qed

lemma prim_size_ge: "n \<le> n * prim_size p"
  by (cases p) simp_all

text \<open>As long as the byte count of the array fits an \<open>int\<close>, the chunk arithmetic is exact.\<close>

lemma chunk_exact:
  assumes "k \<le> n" and "n * prim_size p < 2 ^ 31"
  shows "chunk_len p (of_nat n) (of_nat k) = of_nat (chunk p n k)"
    and "chunk_addr p address (of_nat k) = address + of_nat (k * prim_size p)"
    and "chunk_bytes p (of_nat (chunk p n k)) = chunk p n k * prim_size p"
proof -
  have n: "n < 2 ^ 31" using assms(2) prim_size_ge [of n p] by linarith
  have d: "(of_nat n :: jint) - of_nat k = of_nat (n - k)" using assms(1) by (simp add: of_nat_diff)
  have c: "4096 div prim_size p < 2 ^ 31" by (cases p) simp_all
  have "sint (of_nat (4096 div prim_size p) :: jint) = int (4096 div prim_size p)" by (rule sint_of_nat_jint [OF c])
  moreover have "sint (of_nat (n - k) :: jint) = int (n - k)" by (rule sint_of_nat_jint) (use n in simp)
  ultimately show "chunk_len p (of_nat n) (of_nat k) = of_nat (chunk p n k)"
    unfolding chunk_len_def d Let_def by (simp add: chunk_def min_def)
  have "k * prim_size p \<le> n * prim_size p" using assms(1) by simp
  then have k: "k * prim_size p < 2 ^ 31" using assms(2) by linarith
  have "(of_nat k :: jint) * of_nat (prim_size p) = of_nat (k * prim_size p)" by simp
  then show "chunk_addr p address (of_nat k) = address + of_nat (k * prim_size p)"
    unfolding chunk_addr_def by (simp only: widen_of_nat [OF k])
  have "(of_nat (chunk p n k) :: jint) * of_nat (prim_size p) = of_nat (chunk p n k * prim_size p)" by simp
  moreover have "chunk p n k * prim_size p < 2 ^ 31" using chunk_4096 [where p = p and n = n and k = k] by simp
  ultimately show "chunk_bytes p (of_nat (chunk p n k)) = chunk p n k * prim_size p"
    unfolding chunk_bytes_def by (simp only: sint_of_nat_jint nat_int)
qed

lemma putArrayChecked_loop:
  fixes w :: "('j, 'a) jni_world_scheme"
  assumes law: "region_law J" "slice_law J" and fits: "n * prim_size p < 2 ^ 31" and off: "0 \<le> sint off" "sint off + int n < 2 ^ 31"
    and reg: "ArrayRegion J (jvm w) p obj off (of_nat n) = Inr bs"
    and room: "span (j2p address) (n * prim_size p) \<subseteq> dom (mem w)" and k: "k \<le> n"
  shows "\<exists>m. store (mem w) (j2p address + of_nat (k * prim_size p)) (drop (k * prim_size p) bs) = Some m
     \<and> putArrayChecked J p address obj off (of_nat n) (of_nat k) w = Some (w\<lparr>mem := m\<rparr>)"
  using reg room k
proof (induction "n - k" arbitrary: k w rule: less_induct)
  case less
  let ?s = "prim_size p"
  have n: "n < 2 ^ 31" using fits prim_size_ge [of n p] by linarith
  have sn: "sint (of_nat n :: jint) = int n" "sint (of_nat k :: jint) = int k"
    using n less.prems(3) by (simp_all add: sint_of_nat_jint)
  have lb: "length bs = n * ?s" using law(1) less.prems(1) sn by (auto simp: region_law_def)
  show ?case
  proof (cases "k = n")
    case True
    then show ?thesis using lb by (subst putArrayChecked.simps) simp
  next
    case False
    define c where "c = chunk p n k"
    have c: "0 < c" "k + c \<le> n" "c * ?s \<le> 4096"
      unfolding c_def using False less.prems(3) chunk_pos chunk_le chunk_4096 by auto
    note ex = chunk_exact(1) [OF less.prems(3) fits, folded c_def] chunk_exact(2) [OF less.prems(3) fits, of address]
      chunk_exact(3) [OF less.prems(3) fits, folded c_def]
    define xs where "xs = take (c * ?s) (drop (k * ?s) bs)"
    have reg: "ArrayRegion J (jvm w) p obj (off + of_nat k) (of_nat c) = Inr xs"
      unfolding xs_def
      by (rule slice_lawD [OF law(2) less.prems(1) off(1)]) (use off c(2) sn in simp_all)
    have "k * ?s + c * ?s \<le> n * ?s" using c(2) by (metis add_mult_distrib mult_le_mono1)
    then have lx: "length xs = c * ?s" by (simp add: xs_def lb)
    obtain t where t: "put (chunk_tmp w) 0 xs = Some t" "take (c * ?s) t = xs"
      using c(3) lx by (simp add: put_def)
    have sp: "span (j2p address + of_nat (k * ?s)) (c * ?s) \<subseteq> span (j2p address) (n * ?s)"
    proof -
      have "span (j2p address) (k * ?s + c * ?s) \<subseteq> span (j2p address) (n * ?s)"
        by (rule span_mono) (use \<open>k * ?s + c * ?s \<le> n * ?s\<close> in simp)
      then show ?thesis by (simp only: span_append) simp
    qed
    then have "span (j2p address + of_nat (k * ?s)) (length xs) \<subseteq> dom (mem w)" using less.prems(2) lx by auto
    then obtain m1 where m1: "store (mem w) (j2p address + of_nat (k * ?s)) xs = Some m1"
      using store_defined [of "mem w" "j2p address + of_nat (k * ?s)" xs] by blast
    have d1: "dom m1 = dom (mem w)" by (rule store_dom [OF m1])
    have "\<exists>m. store (mem (w\<lparr>mem := m1\<rparr>)) (j2p address + of_nat ((k + c) * ?s)) (drop ((k + c) * ?s) bs) = Some m
       \<and> putArrayChecked J p address obj off (of_nat n) (of_nat (k + c)) (w\<lparr>mem := m1\<rparr>) = Some (w\<lparr>mem := m1\<rparr>\<lparr>mem := m\<rparr>)"
      by (rule less.hyps) (use False c less.prems d1 in auto)
    then obtain m where m: "store m1 (j2p address + of_nat ((k + c) * ?s)) (drop ((k + c) * ?s) bs) = Some m"
      "putArrayChecked J p address obj off (of_nat n) (of_nat k + of_nat c) (w\<lparr>mem := m1\<rparr>) = Some (w\<lparr>mem := m\<rparr>)"
      by auto
    have split: "drop (k * ?s) bs = xs @ drop ((k + c) * ?s) bs"
      unfolding xs_def by (metis add.commute add_mult_distrib append_take_drop_id drop_drop)
    have a: "j2p address + of_nat (k * ?s) + of_nat (length xs) = j2p address + of_nat ((k + c) * ?s)"
      unfolding lx by (simp add: add_mult_distrib)
    have whole: "store (mem w) (j2p address + of_nat (k * ?s)) (drop (k * ?s) bs) = Some m"
      unfolding split store_append m1 a Option.bind.bind_lunit using m(1) by simp
    have ja: "j2p (address + of_nat (k * ?s)) = j2p address + of_nat (k * ?s)" by (simp add: j2p_def)
    have "putArrayChecked J p address obj off (of_nat n) (of_nat k) w = Some (w\<lparr>mem := m\<rparr>)"
      by (subst putArrayChecked.simps) (use False less.prems(3) sn reg t m1 m(2) ex ja in simp)
    with whole show ?thesis by blast
  qed
qed

definition set_slice_law :: "'j jni \<Rightarrow> bool" where
  "set_slice_law J \<longleftrightarrow> (\<forall>j p obj off len K k. SetRegion J j p obj off len = Inr K \<and> 0 \<le> sint off
       \<and> sint off + sint len < 2 ^ 31 \<and> int k \<le> sint len \<longrightarrow>
     (\<exists>K1. SetRegion J j p obj off (of_nat k) = Inr K1
        \<and> (\<forall>xs. length xs = k * prim_size p \<longrightarrow>
             (\<exists>K2. SetRegion J (K1 xs) p obj (off + of_nat k) (len - of_nat k) = Inr K2
                \<and> (\<forall>ys. int (length ys) = (sint len - int k) * int (prim_size p) \<longrightarrow> K2 ys = K (xs @ ys))))))"

lemma set_slice_lawD:
  assumes "set_slice_law J" "SetRegion J j p obj off len = Inr K" "0 \<le> sint off" "sint off + sint len < 2 ^ 31" "int k \<le> sint len"
  obtains K1 where "SetRegion J j p obj off (of_nat k) = Inr K1"
    and "\<And>xs. length xs = k * prim_size p \<Longrightarrow>
       \<exists>K2. SetRegion J (K1 xs) p obj (off + of_nat k) (len - of_nat k) = Inr K2
          \<and> (\<forall>ys. int (length ys) = (sint len - int k) * int (prim_size p) \<longrightarrow> K2 ys = K (xs @ ys))"
  using assms unfolding set_slice_law_def by blast

lemma getArrayChecked_loop:
  fixes w :: "('j, 'a) jni_world_scheme"
  assumes law: "set_slice_law J" and fits: "n * prim_size p < 2 ^ 31" and off: "0 \<le> sint off" "sint off + int n < 2 ^ 31"
    and bs: "load (mem w) (j2p address) (n * prim_size p) = Some bs"
    and reg: "SetRegion J (jvm w) p obj (off + of_nat k) (of_nat (n - k)) = Inr K" and k: "k \<le> n"
  shows "getArrayChecked J p address obj off (of_nat n) (of_nat k) w
     = Some (w\<lparr>jvm := if k = n then jvm w else K (drop (k * prim_size p) bs)\<rparr>)"
  using bs reg k
proof (induction "n - k" arbitrary: k w K rule: less_induct)
  case less
  let ?s = "prim_size p"
  have n: "n < 2 ^ 31" using fits prim_size_ge [of n p] by linarith
  have sn: "sint (of_nat n :: jint) = int n" "sint (of_nat k :: jint) = int k" "sint (of_nat (n - k) :: jint) = int (n - k)"
    by (rule sint_of_nat_jint; use n less.prems(3) in simp)+
  have lb: "length bs = n * ?s" by (rule load_length [OF less.prems(1)])
  show ?case
  proof (cases "k = n")
    case True
    then show ?thesis by (subst getArrayChecked.simps) simp
  next
    case False
    define c where "c = chunk p n k"
    have c: "0 < c" "k + c \<le> n" "c * ?s \<le> 4096"
      unfolding c_def using False less.prems(3) chunk_pos chunk_le chunk_4096 by auto
    note ex = chunk_exact(1) [OF less.prems(3) fits, folded c_def] chunk_exact(2) [OF less.prems(3) fits, of address]
      chunk_exact(3) [OF less.prems(3) fits, folded c_def]
    define xs where "xs = take (c * ?s) (drop (k * ?s) bs)"
    have kc: "k * ?s + c * ?s \<le> n * ?s" using c(2) by (metis add_mult_distrib mult_le_mono1)
    have lx: "length xs = c * ?s" using kc by (simp add: xs_def lb)
    have ld: "load (mem w) (j2p address + of_nat (k * ?s)) (c * ?s) = Some xs"
      unfolding xs_def by (rule load_slice [OF less.prems(1) kc])
    have so: "sint (off + of_nat k) = sint off + int k"
      using off n less.prems(3) sn(2) False by (simp add: sint_word_ariths signed_take_bit_int_eq_self)
    have o1: "0 \<le> sint (off + of_nat k)" "sint (off + of_nat k) + sint (of_nat (n - k) :: jint) < 2 ^ 31"
      "int c \<le> sint (of_nat (n - k) :: jint)"
      using so off c(2) less.prems(3) sn by auto
    from set_slice_lawD [OF law less.prems(2) o1] obtain K1 where
      K1: "SetRegion J (jvm w) p obj (off + of_nat k) (of_nat c) = Inr K1"
      and rest: "\<And>xs. length xs = c * ?s \<Longrightarrow>
       \<exists>K2. SetRegion J (K1 xs) p obj (off + of_nat k + of_nat c) (of_nat (n - k) - of_nat c) = Inr K2
          \<and> (\<forall>ys. int (length ys) = (sint (of_nat (n - k) :: jint) - int c) * int ?s \<longrightarrow> K2 ys = K (xs @ ys))" by blast
    obtain K2 where K2: "SetRegion J (K1 xs) p obj (off + of_nat (k + c)) (of_nat (n - (k + c))) = Inr K2"
      and K2K: "\<And>ys. length ys = (n - (k + c)) * ?s \<Longrightarrow> K2 ys = K (xs @ ys)"
    proof -
      have e: "(of_nat (n - k) :: jint) - of_nat c = of_nat (n - (k + c))" using c(2) by (simp add: of_nat_diff)
      have "int ((n - (k + c)) * ?s) = (sint (of_nat (n - k) :: jint) - int c) * int ?s"
        using c(2) sn(3) less.prems(3) by (simp add: of_nat_diff)
      with rest [OF lx] e that show thesis by (fastforce simp: add.assoc)
    qed
    have IH: "getArrayChecked J p address obj off (of_nat n) (of_nat (k + c)) (w\<lparr>jvm := K1 xs\<rparr>)
       = Some (w\<lparr>jvm := K1 xs\<rparr>\<lparr>jvm := if k + c = n then jvm (w\<lparr>jvm := K1 xs\<rparr>) else K2 (drop ((k + c) * ?s) bs)\<rparr>)"
      by (rule less.hyps) (use False c less.prems K2 in auto)
    have j: "(if k + c = n then K1 xs else K2 (drop ((k + c) * ?s) bs)) = K (drop (k * ?s) bs)"
    proof -
      have split: "drop (k * ?s) bs = xs @ drop ((k + c) * ?s) bs"
        unfolding xs_def by (metis add.commute add_mult_distrib append_take_drop_id drop_drop)
      show ?thesis
      proof (cases "k + c = n")
        case True
        then have "n - k = c" by simp
        with less.prems(2) K1 have "K = K1" by simp
        with True show ?thesis unfolding split by (simp add: lb)
      next
        case False
        have "length (drop ((k + c) * ?s) bs) = (n - (k + c)) * ?s" by (simp add: lb diff_mult_distrib)
        from K2K [OF this] False show ?thesis unfolding split by simp
      qed
    qed
    have run: "getArrayChecked J p address obj off (of_nat n) (of_nat k + of_nat c) (w\<lparr>jvm := K1 xs\<rparr>)
       = Some (w\<lparr>jvm := K (drop (k * ?s) bs)\<rparr>)"
      using IH unfolding j [symmetric] by simp
    have ja: "j2p (address + of_nat (k * ?s)) = j2p address + of_nat (k * ?s)" by (simp add: j2p_def)
    show ?thesis
      by (subst getArrayChecked.simps) (use False less.prems(3) sn K1 ld ex ja run in simp)
  qed
qed

section \<open>Properties\<close>

lemma heap_slice_law: "slice_law heap_jni"
proof -
  have "ArrayRegion heap_jni j p obj (off + of_nat k) (of_nat n) = Inr (take (n * prim_size p) (drop (k * prim_size p) bs))"
    if r: "ArrayRegion heap_jni j p obj off len = Inr bs" and o: "0 \<le> sint off" "sint off + sint len < 2 ^ 31"
      "int (k + n) \<le> sint len" for j :: jheap and p obj off len bs k n
  proof -
    obtain xs where xs: "j obj = Some (p, xs)" "nat (sint off) * prim_size p + nat (sint len) * prim_size p \<le> length xs"
      "bs = take (nat (sint len) * prim_size p) (drop (nat (sint off) * prim_size p) xs)"
      using r by (auto simp: heap_jni_def split: option.splits if_splits)
    have s: "sint (off + of_nat k) = sint off + int k" "sint (of_nat n :: jint) = int n"
      using o by (simp_all add: sint_word_ariths signed_take_bit_int_eq_self sint_of_nat_jint)
    have ns: "nat (sint off + int k) = nat (sint off) + k" using o by simp
    have b: "k * prim_size p + n * prim_size p \<le> nat (sint len) * prim_size p"
      using o(3) by (metis add_mult_distrib mult_le_mono1 nat_int nat_mono)
    with xs s ns o show ?thesis
      by (simp add: heap_jni_def add_mult_distrib drop_take min_def add.commute add.left_commute)
  qed
  then show ?thesis by (auto simp: slice_law_def)
qed

lemma splice:
  assumes "a + l \<le> length old" and "b \<le> l" and "length xs = b"
  shows "drop (a + l) (take a old @ xs @ drop (a + b) old) = drop (a + l) old"
    and "take (a + b) (take a old @ xs @ drop (a + b) old) = take a old @ xs"
    and "a + l \<le> length (take a old @ xs @ drop (a + b) old)"
proof -
  have "length (take a old) = a" using assms(1) by simp
  then show "drop (a + l) (take a old @ xs @ drop (a + b) old) = drop (a + l) old"
    "take (a + b) (take a old @ xs @ drop (a + b) old) = take a old @ xs"
    "a + l \<le> length (take a old @ xs @ drop (a + b) old)"
    using assms by (simp_all add: add.commute)
qed

lemma heap_SetRegion:
  assumes "j r = Some (p, old)" and "sint off = int a" and "sint len = int l" and "a * prim_size p + l * prim_size p \<le> length old"
  shows "SetRegion heap_jni j p r off len = Inr (\<lambda>new. j(r \<mapsto> (p, take (a * prim_size p) old @ new
     @ drop (a * prim_size p + l * prim_size p) old)))"
  using assms by (simp add: heap_jni_def)

lemma heap_set_slice_law: "set_slice_law heap_jni"
  unfolding set_slice_law_def
proof (intro allI impI, elim conjE)
  fix j :: jheap and p obj off len K k
  assume r: "SetRegion heap_jni j p obj off len = Inr K" and o: "0 \<le> sint off" "sint off + sint len < 2 ^ 31" "int k \<le> sint len"
  let ?s = "prim_size p"
  obtain a l where al: "sint off = int a" "sint len = int l" using o by (metis nonneg_int_cases of_nat_0_le_iff order_trans)
  have k: "k \<le> l" "a + l < 2 ^ 31" using o al by auto
  obtain old where old: "j obj = Some (p, old)" "a * ?s + l * ?s \<le> length old"
    "K = (\<lambda>new. j(obj \<mapsto> (p, take (a * ?s) old @ new @ drop (a * ?s + l * ?s) old)))"
    using r al by (auto simp: heap_jni_def split: option.splits if_splits)
  have s: "sint (off + of_nat k) = int (a + k)" "sint (of_nat k :: jint) = int k" "sint (len - of_nat k) = int (l - k)"
    using k al by (simp_all add: sint_word_ariths signed_take_bit_int_eq_self sint_of_nat_jint of_nat_diff)
  let ?K1 = "\<lambda>new. j(obj \<mapsto> (p, take (a * ?s) old @ new @ drop (a * ?s + k * ?s) old))"
  have ks: "k * ?s \<le> l * ?s" using k(1) by simp
  then have le: "a * ?s + k * ?s \<le> length old" using old(2) by linarith
  have one: "SetRegion heap_jni j p obj off (of_nat k) = Inr ?K1" 
    using heap_SetRegion [of j obj p old off a "of_nat k" k] old(1) al(1) s(2) le by blast
  have "\<exists>K2. SetRegion heap_jni (?K1 xs) p obj (off + of_nat k) (len - of_nat k) = Inr K2
      \<and> (\<forall>ys. int (length ys) = (sint len - int k) * int ?s \<longrightarrow> K2 ys = K (xs @ ys))" if lx: "length xs = k * ?s" for xs
  proof -
    let ?old = "take (a * ?s) old @ xs @ drop (a * ?s + k * ?s) old"
    note sp = splice [OF old(2) ks lx]
    have e: "(a + k) * ?s = a * ?s + k * ?s" "a * ?s + k * ?s + (l - k) * ?s = a * ?s + l * ?s"
      using ks by (simp_all add: add_mult_distrib diff_mult_distrib)
    have "(a + k) * ?s + (l - k) * ?s \<le> length ?old" unfolding e by (rule sp(3))
    have "SetRegion heap_jni (?K1 xs) p obj (off + of_nat k) (len - of_nat k)
        = Inr (\<lambda>new. (?K1 xs)(obj \<mapsto> (p, (take (a * ?s) old @ xs) @ new @ drop (a * ?s + l * ?s) old)))"
      using heap_SetRegion [of "?K1 xs" obj p ?old "off + of_nat k" "a + k" "len - of_nat k" "l - k"] s(1,3)
        \<open>(a + k) * ?s + (l - k) * ?s \<le> length ?old\<close>
      unfolding e sp(1,2) by simp
    then show ?thesis by (simp add: old(3))
  qed
  with one show "\<exists>K1. SetRegion heap_jni j p obj off (of_nat k) = Inr K1
        \<and> (\<forall>xs. length xs = k * prim_size p \<longrightarrow>
             (\<exists>K2. SetRegion heap_jni (K1 xs) p obj (off + of_nat k) (len - of_nat k) = Inr K2
                \<and> (\<forall>ys. int (length ys) = (sint len - int k) * int (prim_size p) \<longrightarrow> K2 ys = K (xs @ ys))))"
    by blast
qed

text \<open>Claim C20. Single values. If the bytes at the address are mapped, storing a value of a primitive type
  returns; reading it back gives the value cut to the size of the type; every value that does not
  overlap it reads as before, and nothing else in the state changes.\<close>

theorem put_get_roundtrip:
  assumes "span (j2p address) (prim_size p) \<subseteq> dom (mem w)"
  shows "\<exists>m. Foreign_put p address v w = Some (w\<lparr>mem := m\<rparr>)
     \<and> Foreign_get p address (w\<lparr>mem := m\<rparr>) = Some (take_bit (8 * prim_size p) v)
     \<and> (\<forall>q other. span (j2p address) (prim_size p) \<inter> span (j2p other) (prim_size q) = {} \<longrightarrow>
          Foreign_get q other (w\<lparr>mem := m\<rparr>) = Foreign_get q other w)"
proof -
  obtain m where m: "store (mem w) (j2p address) (le_bytes (prim_size p) v) = Some m"
    using store_defined [of "mem w" "j2p address" "le_bytes (prim_size p) v"] assms by auto
  have "load m (j2p address) (prim_size p) = Some (le_bytes (prim_size p) v)"
    using load_store_same [OF m] by (cases p) simp_all
  moreover have "load m (j2p other) (prim_size q) = load (mem w) (j2p other) (prim_size q)"
    if "span (j2p address) (prim_size p) \<inter> span (j2p other) (prim_size q) = {}" for q other
    by (rule load_store_disjoint [OF m]) (use that in simp)
  ultimately show ?thesis using m
    by (intro exI [of _ m]) (simp add: Foreign_put_def Foreign_get_def le_word_le_bytes)
qed

theorem put_get_roundtrip_witness:
  "\<exists>m. Foreign_put JShort 0x100 0x12345 ((jni_boot Map.empty Map.empty [])\<lparr>mem := map_block 0x100 [1, 2, 3, 4] Map.empty\<rparr>)
        = Some ((jni_boot Map.empty Map.empty [])\<lparr>mem := m\<rparr>)
     \<and> Foreign_get JShort 0x100 ((jni_boot Map.empty Map.empty [])\<lparr>mem := m\<rparr>) = Some 0x2345
     \<and> Foreign_get JByte 0x102 ((jni_boot Map.empty Map.empty [])\<lparr>mem := m\<rparr>) = Some 3"
proof -
  let ?w = "(jni_boot Map.empty Map.empty [])\<lparr>mem := map_block 0x100 [1, 2, 3, 4] Map.empty\<rparr>"
  have "span (j2p 0x100) (prim_size JShort) \<subseteq> dom (mem ?w)" by (simp add: j2p_def numeral_eq_Suc)
  from put_get_roundtrip [OF this, of "0x12345"] obtain m where
    m: "Foreign_put JShort 0x100 0x12345 ?w = Some (?w\<lparr>mem := m\<rparr>)"
      "Foreign_get JShort 0x100 (?w\<lparr>mem := m\<rparr>) = Some (take_bit (8 * prim_size JShort) 0x12345)"
      "\<And>q other. span (j2p 0x100) (prim_size JShort) \<inter> span (j2p other) (prim_size q) = {} \<Longrightarrow>
          Foreign_get q other (?w\<lparr>mem := m\<rparr>) = Foreign_get q other ?w" by blast
  have "span (j2p 0x100) (prim_size JShort) \<inter> span (j2p 0x102) (prim_size JByte) = {}"
    by (simp add: j2p_def numeral_2_eq_2)
  from m(3) [OF this] have "Foreign_get JByte 0x102 (?w\<lparr>mem := m\<rparr>) = Foreign_get JByte 0x102 ?w" .
  also have "\<dots> = Some 3" by (simp add: Foreign_get_def j2p_def)
  finally have "Foreign_get JByte 0x102 (?w\<lparr>mem := m\<rparr>) = Some 3" .
  with m(1,2) show ?thesis by (intro exI [of _ m]) simp
qed

text \<open>Claim C21. Copying an array to memory in pieces. For a region of an array that the virtual machine
  accepts, of less than \<open>2^31\<close> bytes, and mapped target memory, the loop of the checked variants ends,
  and \<open>put...ArrayChecked\<close> leaves the state \<open>put...Array\<close> leaves: the bytes of the region are at the
  address and nothing else has changed.\<close>

theorem putArrayChecked_is_putArray:
  fixes w :: "('j, 'a) jni_world_scheme"
  assumes law: "region_law J" "slice_law J" and fits: "nat (sint len) * prim_size p < 2 ^ 31"
    and dims: "0 \<le> sint len" "0 \<le> sint off" "sint off + sint len < 2 ^ 31"
    and reg: "ArrayRegion J (jvm w) p obj off len = Inr bs"
    and room: "span (j2p address) (nat (sint len) * prim_size p) \<subseteq> dom (mem w)"
  shows "\<exists>m. Foreign_putArrayChecked J p address obj off len w = Some (w\<lparr>mem := m\<rparr>)
     \<and> putArray J p address obj off len w = Some (w\<lparr>mem := m\<rparr>) \<and> load m (j2p address) (length bs) = Some bs"
proof -
  define n where "n = nat (sint len)"
  have len: "len = of_nat n" using of_nat_jint [OF dims(1)] by (simp add: n_def)
  have o: "sint off + int n < 2 ^ 31" using dims by (simp add: n_def)
  obtain m where m: "store (mem w) (j2p address) bs = Some m"
    "putArrayChecked J p address obj off len 0 w = Some (w\<lparr>mem := m\<rparr>)"
    using putArrayChecked_loop [OF law fits [folded n_def] dims(2) o reg [unfolded len] room [folded n_def], of 0] len by auto
  have "length bs = n * prim_size p" using law(1) reg by (simp add: region_law_def n_def)
  then have "load m (j2p address) (length bs) = Some bs" using load_store_same [OF m(1)] fits by (simp add: n_def)
  with m reg show ?thesis
    by (intro exI [of _ m]) (simp add: Foreign_putArrayChecked_def PROT_def putArray_def GetArrayRegion_def)
qed

theorem putArrayChecked_is_putArray_witness:
  "\<exists>m. Foreign_putArrayChecked heap_jni JShort 0x100 7 1 2
         (jni_boot [7 \<mapsto> (JShort, [1, 0, 2, 0, 3, 0])] (map_block 0x100 [9, 9, 9, 9] Map.empty) [])
       = Some ((jni_boot [7 \<mapsto> (JShort, [1, 0, 2, 0, 3, 0])] (map_block 0x100 [9, 9, 9, 9] Map.empty) [])\<lparr>mem := m\<rparr>)
     \<and> load m 0x100 4 = Some [2, 0, 3, 0]"
proof -
  let ?w = "jni_boot [7 \<mapsto> (JShort, [1, 0, 2, 0, 3, 0])] (map_block 0x100 [9, 9, 9, 9] Map.empty) []"
  have law: "region_law heap_jni" using heap_jni_law by (simp add: array_law_def)
  have reg: "ArrayRegion heap_jni (jvm ?w) JShort 7 1 2 = Inr [2, 0, 3, 0]" by (simp add: heap_jni_def)
  have room: "span (j2p 0x100) (nat (sint (2 :: jint)) * prim_size JShort) \<subseteq> dom (mem ?w)"
    by (simp add: j2p_def map_block_dom numeral_eq_Suc)
  from putArrayChecked_is_putArray [OF law heap_slice_law _ _ _ _ reg room] obtain m where
    "Foreign_putArrayChecked heap_jni JShort 0x100 7 1 2 ?w = Some (?w\<lparr>mem := m\<rparr>)"
    "load m (j2p 0x100) (length [2 :: byte, 0, 3, 0]) = Some [2, 0, 3, 0]" by auto
  then show ?thesis by (intro exI [of _ m]) (simp add: j2p_def numeral_eq_Suc)
qed

text \<open>Copying memory to an array in pieces. Under the documented behaviour of the region
  functions, for a region of less than \<open>2^31\<close> bytes that the virtual machine accepts and mapped source
  memory, the loop of \<open>get...ArrayChecked\<close> ends and the array holds what \<open>get...Array\<close> would have
  stored.\<close>

theorem getArrayChecked_is_getArray:
  fixes w :: "('j, 'a) jni_world_scheme"
  assumes law: "set_slice_law J" and fits: "nat (sint len) * prim_size p < 2 ^ 31"
    and dims: "0 < sint len" "0 \<le> sint off" "sint off + sint len < 2 ^ 31"
    and reg: "SetRegion J (jvm w) p obj off len = Inr K"
    and room: "span (j2p address) (nat (sint len) * prim_size p) \<subseteq> dom (mem w)"
  shows "\<exists>bs. load (mem w) (j2p address) (nat (sint len) * prim_size p) = Some bs
     \<and> Foreign_getArrayChecked J p address obj off len w = Some (w\<lparr>jvm := K bs\<rparr>)
     \<and> getArray J p address obj off len w = Some (w\<lparr>jvm := K bs\<rparr>)"
proof -
  define n where "n = nat (sint len)"
  have len: "len = of_nat n" "n \<noteq> 0" using of_nat_jint [of len] dims(1) by (simp_all add: n_def)
  have o: "sint off + int n < 2 ^ 31" using dims by (simp add: n_def)
  have "load (mem w) (j2p address) (n * prim_size p) \<noteq> None" unfolding load_defined n_def by (rule room)
  then obtain bs where bs: "load (mem w) (j2p address) (n * prim_size p) = Some bs" by blast
  have "getArrayChecked J p address obj off (of_nat n) (of_nat 0) w = Some (w\<lparr>jvm := if 0 = n then jvm w else K (drop (0 * prim_size p) bs)\<rparr>)"
    by (rule getArrayChecked_loop [OF law fits [folded n_def] dims(2) o bs]) (use reg len in simp_all)
  then have "getArrayChecked J p address obj off len 0 w = Some (w\<lparr>jvm := K bs\<rparr>)"
    using len(2) by (simp add: len(1) [symmetric])
  with bs [unfolded n_def] reg show ?thesis
    by (simp add: Foreign_getArrayChecked_def PROT_def getArray_def SetArrayRegion_def)
qed

theorem getArrayChecked_is_getArray_witness:
  "Foreign_getArrayChecked heap_jni JByte 0x100 7 1 2 (jni_boot [7 \<mapsto> (JByte, [1, 2, 3, 4])] (map_block 0x100 [9, 8] Map.empty) [])
   = Some ((jni_boot [7 \<mapsto> (JByte, [1, 2, 3, 4])] (map_block 0x100 [9, 8] Map.empty) [])\<lparr>jvm := [7 \<mapsto> (JByte, [1, 9, 8, 4])]\<rparr>)"
proof -
  let ?w = "jni_boot [7 \<mapsto> (JByte, [1, 2, 3, 4])] (map_block 0x100 [9, 8] Map.empty) []"
  let ?K = "\<lambda>new. (jvm ?w)(7 \<mapsto> (JByte, [1] @ new @ [4]))"
  have reg: "SetRegion heap_jni (jvm ?w) JByte 7 1 2 = Inr ?K" by (simp add: heap_jni_def)
  have room: "span (j2p 0x100) (nat (sint (2 :: jint)) * prim_size JByte) \<subseteq> dom (mem ?w)"
    by (simp add: j2p_def map_block_dom numeral_eq_Suc)
  have l: "load (mem ?w) (j2p 0x100) (nat (sint (2 :: jint)) * prim_size JByte) = Some [9, 8]"
    by (simp add: j2p_def numeral_2_eq_2)
  from getArrayChecked_is_getArray [OF heap_set_slice_law _ _ _ _ reg room] l show ?thesis by auto
qed

text \<open>The byte offset of a piece. The checked copies compute the address of the element at index
  \<open>copyOff\<close> in \<open>int\<close>: it is \<open>copyOff\<close> elements past the address exactly as long as the offset is below
  \<open>2^31\<close> bytes. In larger arrays the copy goes to a wrong address, \<open>2^32\<close> bytes or a multiple too low.\<close>

theorem chunk_addr_exact:
  assumes "0 \<le> sint copyOff"
  shows "chunk_addr p address copyOff = address + of_nat (nat (sint copyOff) * prim_size p)
     \<longleftrightarrow> nat (sint copyOff) * prim_size p < 2 ^ 31"
proof -
  define k where "k = nat (sint copyOff)"
  have c: "copyOff = of_nat k" and k: "k < 2 ^ 31"
    using of_nat_jint [OF assms] sint_jint_lt [of copyOff] by (simp_all add: k_def nat_less_iff assms)
  have e: "chunk_addr p address copyOff = address + widen (of_nat (k * prim_size p))"
    unfolding chunk_addr_def c by simp
  show ?thesis unfolding k_def [symmetric] e
  proof
    assume "k * prim_size p < 2 ^ 31"
    then show "address + widen (of_nat (k * prim_size p)) = address + of_nat (k * prim_size p)"
      by (simp only: widen_of_nat)
  next
    assume a: "address + widen (of_nat (k * prim_size p)) = address + of_nat (k * prim_size p)"
    have kp: "k * prim_size p \<le> k * 8" by simp
    have lt34: "k * prim_size p < 2 ^ 34" by (rule le_less_trans [OF kp]) (use k in simp)
    then have lt: "k * prim_size p < 2 ^ 64" by simp
    have "unat (widen (of_nat (k * prim_size p))) = k * prim_size p"
      using a unat_of_nat64 [OF lt] by simp
    moreover have "unat (widen i) < 2 ^ 31 \<or> 2 ^ 63 \<le> unat (widen i)" for i :: jint
      using unat_widen [of i] widen_negative [of i] sint_jint_lt [of i] by (cases "0 \<le> sint i") (simp_all add: nat_less_iff)
    ultimately have "k * prim_size p < 2 ^ 31 \<or> 2 ^ 63 \<le> k * prim_size p" by metis
    then show "k * prim_size p < 2 ^ 31" using lt34 by auto
  qed
qed

theorem chunk_addr_exact_witness:
  "chunk_addr JInt 0x100 3 = 0x10C \<and> chunk_addr JLong 0x7f0000000000 0x10000000 \<noteq> 0x7f0000000000 + of_nat (2 ^ 28 * 8)"
  using chunk_addr_exact [of 3 JInt "0x100"] chunk_addr_exact [of "0x10000000" JLong "0x7f0000000000"]
  by simp

text \<open>A refused region. When the virtual machine refuses a region that fits one piece, its
  exception is pending after both variants, but they differ in what they do to memory: \<open>put...Array\<close>
  leaves it as it was, \<open>put...ArrayChecked\<close> goes on and overwrites the target with what the buffer on
  its stack happened to hold.\<close>

theorem putArrayChecked_refused:
  fixes w :: "('j, 'a) jni_world_scheme"
  assumes reg: "ArrayRegion J (jvm w) p obj off len = Inl x"
    and len: "0 < sint len" "nat (sint len) * prim_size p \<le> 4096"
    and room: "span (j2p address) (nat (sint len) * prim_size p) \<subseteq> dom (mem w)"
  shows "putArray J p address obj off len w = Some (w\<lparr>pending := Some x\<rparr>)
     \<and> (\<exists>m. Foreign_putArrayChecked J p address obj off len w = Some (w\<lparr>pending := Some x, mem := m\<rparr>)
          \<and> load m (j2p address) (nat (sint len) * prim_size p)
              = Some (take (nat (sint len) * prim_size p) (fresh_bytes w (fst (alloca 4096 w)) 4096)))"
proof -
  define n where "n = nat (sint len)"
  have l: "len = of_nat n" and n0: "0 < n" using of_nat_jint [of len] len(1) by (simp_all add: n_def)
  have ns: "n * prim_size p \<le> 4096" using len(2) by (simp add: n_def)
  then have n1: "n * prim_size p < 2 ^ 31" by simp
  have n2: "n \<le> 4096" using prim_size_ge [of n p] ns by linarith
  have "n \<le> 4096 div prim_size p" using ns by (simp add: less_eq_div_iff_mult_less_eq)
  then have c: "chunk p n 0 = n" by (simp add: chunk_def)
  note ex = chunk_exact(1) [of 0 n p, OF _ n1] chunk_exact(2) [of 0 n p address, OF _ n1] chunk_exact(3) [of 0 n p, OF _ n1]
  have sn: "sint (of_nat n :: jint) = int n" by (rule sint_of_nat_jint) (use n2 in simp)
  let ?t = "take (n * prim_size p) (chunk_tmp w)"
  have lt: "length ?t = n * prim_size p" using ns by simp
  obtain m where m: "store (mem w) (j2p address) ?t = Some m"
    using store_defined [of "mem w" "j2p address" ?t] room lt by (fastforce simp: n_def)
  have fin: "putArrayChecked J p address obj off (of_nat n) (of_nat n) v = Some v" for v :: "('j, 'a) jni_world_scheme"
    by (subst putArrayChecked.simps) simp
  have "putArrayChecked J p address obj off (of_nat n) (of_nat 0) w = Some (w\<lparr>pending := Some x, mem := m\<rparr>)"
    by (subst putArrayChecked.simps) (use ex c sn n0 m reg fin in \<open>simp add: l [symmetric] jthrow_def\<close>)
  then have run: "Foreign_putArrayChecked J p address obj off len w = Some (w\<lparr>pending := Some x, mem := m\<rparr>)"
    by (simp add: Foreign_putArrayChecked_def PROT_def l)
  have "load m (j2p address) (n * prim_size p) = Some ?t" using load_store_same [OF m] lt ns by simp
  moreover have "putArray J p address obj off len w = Some (w\<lparr>pending := Some x\<rparr>)"
    by (simp add: putArray_def GetArrayRegion_def reg jthrow_def)
  ultimately show ?thesis using run unfolding n_def by blast
qed

theorem putArrayChecked_refused_witness:
  "\<exists>m. Foreign_putArrayChecked heap_jni JByte 0x100 7 3 2 (jni_boot [7 \<mapsto> (JByte, [1, 2, 3, 4])] (map_block 0x100 [5, 6] Map.empty) [])
       = Some ((jni_boot [7 \<mapsto> (JByte, [1, 2, 3, 4])] (map_block 0x100 [5, 6] Map.empty) [])
                 \<lparr>pending := Some (JThrow ''java/lang/ArrayIndexOutOfBoundsException'' []), mem := m\<rparr>)
     \<and> load m 0x100 2 = Some [0xCC, 0xCC]"
proof -
  let ?w = "jni_boot [7 \<mapsto> (JByte, [1, 2, 3, 4])] (map_block 0x100 [5, 6] Map.empty) []"
  have reg: "ArrayRegion heap_jni (jvm ?w) JByte 7 3 2 = Inl (JThrow ''java/lang/ArrayIndexOutOfBoundsException'' [])"
    by (simp add: heap_jni_def)
  have room: "span (j2p 0x100) (nat (sint (2 :: jint)) * prim_size JByte) \<subseteq> dom (mem ?w)"
    by (simp add: j2p_def map_block_dom numeral_eq_Suc)
  have t: "take 2 (fresh_bytes ?w (fst (alloca 4096 ?w)) 4096) = [0xCC, 0xCC]"
    by (simp add: fresh_bytes_def take_map numeral_2_eq_2)
  from putArrayChecked_refused [OF reg _ _ room] obtain m where
    "Foreign_putArrayChecked heap_jni JByte 0x100 7 3 2 ?w
       = Some (?w\<lparr>pending := Some (JThrow ''java/lang/ArrayIndexOutOfBoundsException'' []), mem := m\<rparr>)"
    "load m (j2p 0x100) 2 = Some (take 2 (fresh_bytes ?w (fst (alloca 4096 ?w)) 4096))" by auto
  with t show ?thesis by (intro exI [of _ m]) (simp add: j2p_def)
qed

lemma takeWhile_zero: "0 \<in> set (bs :: byte list) \<Longrightarrow> length (takeWhile (\<lambda>b. b \<noteq> 0) bs) < length bs"
  by (induction bs) auto

text \<open>The length of a string. \<open>strlen\<close> returns exactly on the addresses from which mapped memory
  reaches a zero byte, and then returns the distance to the first one.\<close>

theorem strlen_terminates:
  "(strlen m p = Some n \<longleftrightarrow> (\<exists>bs. load m p (n + 1) = Some (bs @ [0]) \<and> 0 \<notin> set bs))
   \<and> ((\<exists>n. strlen m p = Some n) \<longleftrightarrow> (\<exists>k bs. load m p k = Some bs \<and> 0 \<in> set bs))"
proof -
  have one: "strlen m p = Some n \<longleftrightarrow> (\<exists>bs. load m p (n + 1) = Some (bs @ [0]) \<and> 0 \<notin> set bs)" for n
  proof
    assume "strlen m p = Some n"
    then have z: "m (p + of_nat n) = Some 0" and i: "\<And>i. i < n \<Longrightarrow> \<exists>b. m (p + of_nat i) = Some b \<and> b \<noteq> 0"
      by (auto simp: strlen_iff)
    let ?bs = "map (\<lambda>i. the (m (p + of_nat i))) [0..<n]"
    have "m (p + of_nat j) = Some ((?bs @ [0]) ! j)" if "j < n + 1" for j
    proof (cases "j < n")
      case True
      with i [OF this] show ?thesis by (auto simp: nth_append)
    next
      case False
      with that z show ?thesis by (simp add: nth_append less_Suc_eq)
    qed
    then have "load m p (n + 1) = Some (?bs @ [0])" unfolding load_Some_nth by simp
    moreover have "0 \<notin> set ?bs" using i by fastforce
    ultimately show "\<exists>bs. load m p (n + 1) = Some (bs @ [0]) \<and> 0 \<notin> set bs" by blast
  next
    assume "\<exists>bs. load m p (n + 1) = Some (bs @ [0]) \<and> 0 \<notin> set bs"
    then obtain bs where bs: "length bs = n" "\<And>i. i < n + 1 \<Longrightarrow> m (p + of_nat i) = Some ((bs @ [0]) ! i)" "0 \<notin> set bs"
      unfolding load_Some_nth by auto
    have "(bs @ [0]) ! n = 0" by (simp add: nth_append bs(1))
    then have "m (p + of_nat n) = Some 0" using bs(2) [of n] by simp
    moreover have "\<exists>b. m (p + of_nat i) = Some b \<and> b \<noteq> 0" if "i < n" for i
      using bs(1,3) bs(2) [of i] that by (auto simp: nth_append) (metis nth_mem)
    ultimately show "strlen m p = Some n" by (simp add: strlen_iff)
  qed
  have "\<exists>n. strlen m p = Some n" if bs: "load m p k = Some bs" and z: "0 \<in> set bs" for k bs
  proof -
    define n where "n = length (takeWhile (\<lambda>b. b \<noteq> 0) bs)"
    have lt: "n < length bs" unfolding n_def by (rule takeWhile_zero [OF z])
    have "bs ! n = 0" using nth_length_takeWhile [of "\<lambda>b. b \<noteq> 0" bs] lt by (simp add: n_def)
    moreover have "bs ! i \<noteq> 0" if "i < n" for i
    proof -
      have "takeWhile (\<lambda>b. b \<noteq> 0) bs ! i \<in> set (takeWhile (\<lambda>b. b \<noteq> 0) bs)" using that by (simp add: n_def)
      then have "takeWhile (\<lambda>b. b \<noteq> 0) bs ! i \<noteq> 0" by (metis set_takeWhileD)
      with that show ?thesis by (simp add: n_def takeWhile_nth)
    qed
    ultimately have "strlen m p = Some n" using bs lt by (auto simp: strlen_iff load_Some_nth)
    then show ?thesis ..
  qed
  moreover have "\<exists>k bs. load m p k = Some bs \<and> 0 \<in> set bs" if "strlen m p = Some n" for n
    using that unfolding one by fastforce
  ultimately show ?thesis using one by blast
qed

text \<open>Claim C26. Strings to memory and back. Writing the region of a byte array with
  \<open>putZeroTerminatedByteArray\<close> and reading it with \<open>getZeroTerminatedByteArray\<close> makes a byte array with
  the bytes of the region before its first zero, provided the region is accepted, the memory of its
  bytes and one more is mapped and the virtual machine can make the array.\<close>

theorem zero_terminated_roundtrip:
  fixes w :: "('j, 'a) jni_world_scheme"
  assumes law: "region_law J" and len: "0 \<le> sint len"
    and reg: "ArrayRegion J (jvm w) JByte data off len = Inr bs"
    and room: "span (j2p address) (nat (sint len) + 1) \<subseteq> dom (mem w)"
    and new: "NewByteArray N (jvm w) (of_nat (length (takeWhile (\<lambda>b. b \<noteq> 0) bs))) = Inr (obj, j)"
      "SetRegion J j JByte obj 0 (of_nat (length (takeWhile (\<lambda>b. b \<noteq> 0) bs))) = Inr K"
  shows "\<exists>w1. putZeroTerminatedByteArray J address data off len w = Some w1 \<and> dom (mem w1) = dom (mem w)
     \<and> (\<forall>a. a \<notin> span (j2p address) (nat (sint len) + 1) \<longrightarrow> mem w1 a = mem w a)
     \<and> getZeroTerminatedByteArray J N address w1 = Some (obj, w1\<lparr>jvm := K (takeWhile (\<lambda>b. b \<noteq> 0) bs)\<rparr>)"
proof -
  define n where "n = nat (sint len)"
  let ?a = "j2p address" and ?t = "takeWhile (\<lambda>b. b \<noteq> 0) bs"
  have lb: "length bs = n" using law reg by (auto simp: region_law_def n_def)
  have n31: "n < 2 ^ 31" using sint_jint_lt [of len] by (simp add: n_def nat_less_iff len)
  have wl: "widen len = of_nat n" using widen_nat [OF len] by (simp add: n_def)
  have room': "span ?a (n + 1) \<subseteq> dom (mem w)" using room by (simp only: n_def)
  then have "span ?a (length (bs @ [0])) \<subseteq> dom (mem w)" using lb by simp
  then obtain m where m: "store (mem w) ?a (bs @ [0]) = Some m" using store_defined [of "mem w" ?a "bs @ [0]"] by blast
  obtain m1 where m1: "store (mem w) ?a bs = Some m1" "store m1 (?a + of_nat n) [0] = Some m"
    using m lb unfolding store_append by (auto split: bind_splits)
  have put: "putZeroTerminatedByteArray J address data off len w = Some (w\<lparr>mem := m\<rparr>)"
    using reg m1 by (auto simp: putZeroTerminatedByteArray_def GetArrayRegion_def memset_def wl split: if_splits)
  have ld: "load m ?a (n + 1) = Some (bs @ [0])" using load_store_same [OF m] lb n31 by simp
  have out: "m a = mem w a" if "a \<notin> span ?a (n + 1)" for a using store_outside [OF m] that lb by simp
  have t: "length ?t \<le> n" using length_takeWhile_le [of "\<lambda>b. b \<noteq> 0" bs] lb by simp
  have at: "m (?a + of_nat i) = Some ((bs @ [0]) ! i)" if "i < n + 1" for i
    using ld that unfolding load_Some_nth by blast
  have z: "(bs @ [0]) ! length ?t = 0"
  proof (cases "length ?t < n")
    case True
    then show ?thesis using nth_length_takeWhile [of "\<lambda>b. b \<noteq> 0" bs] lb by (simp add: nth_append)
  next
    case False
    then show ?thesis using t lb by (simp add: nth_append)
  qed
  have nz: "(bs @ [0]) ! i \<noteq> 0" if "i < length ?t" for i
  proof -
    have "?t ! i \<in> set ?t" using that by simp
    then have "?t ! i \<noteq> 0" by (metis set_takeWhileD)
    with that t lb show ?thesis by (simp add: nth_append takeWhile_nth)
  qed
  have "m (?a + of_nat (length ?t)) = Some 0" using at [of "length ?t"] t z by simp
  moreover have "\<exists>b. m (?a + of_nat i) = Some b \<and> b \<noteq> 0" if "i < length ?t" for i using at [of i] t that nz [of i] by simp
  ultimately have sl: "strlen m ?a = Some (length ?t)" unfolding strlen_iff by blast
  have "length ?t < 2 ^ 31" using t n31 by linarith
  then have l: "nat (sint (of_nat (length ?t) :: jint)) = length ?t" by (simp only: sint_of_nat_jint nat_int)
  have "load m ?a (length ?t) = Some (take (length ?t) (bs @ [0]))" by (rule load_prefix [OF ld]) (use t in simp)
  also have "take (length ?t) (bs @ [0]) = ?t" using t lb by (simp add: takeWhile_eq_take [symmetric])
  finally have "getZeroTerminatedByteArray J N address (w\<lparr>mem := m\<rparr>) = Some (obj, w\<lparr>mem := m\<rparr>\<lparr>jvm := K ?t\<rparr>)"
    using new sl by (simp add: getZeroTerminatedByteArray_def PROT_def new_bytes_def new_object_def SetArrayRegion_def l)
  then show ?thesis using put out store_dom [OF m] unfolding n_def [symmetric]
    by (intro exI [of _ "w\<lparr>mem := m\<rparr>"]) simp
qed

definition demo_objects :: "jheap jni_objects" where
  "demo_objects = \<lparr>NewByteArray = (\<lambda>j n. Inr (0x77, j(0x77 \<mapsto> (JByte, replicate (nat (sint n)) 0)))),
     NewDirectByteBuffer = (\<lambda>j a n. Inl (JThrow ''java/lang/OutOfMemoryError'' []))\<rparr>"

theorem zero_terminated_roundtrip_witness:
  "\<exists>w1 w2. putZeroTerminatedByteArray heap_jni 0x100 7 0 3
         (jni_boot [7 \<mapsto> (JByte, [65, 66, 0])] (map_block 0x100 [9, 9, 9, 9] Map.empty) []) = Some w1
     \<and> getZeroTerminatedByteArray heap_jni demo_objects 0x100 w1 = Some (0x77, w2) \<and> jvm w2 0x77 = Some (JByte, [65, 66])"
proof -
  let ?w = "jni_boot [7 \<mapsto> (JByte, [65, 66, 0])] (map_block 0x100 [9, 9, 9, 9] Map.empty) []"
  have law: "region_law heap_jni" using heap_jni_law by (simp add: array_law_def)
  have reg: "ArrayRegion heap_jni (jvm ?w) JByte 7 0 3 = Inr [65, 66, 0]" by (simp add: heap_jni_def)
  have room: "span (j2p 0x100) (nat (sint (3 :: jint)) + 1) \<subseteq> dom (mem ?w)"
    by (simp add: j2p_def map_block_dom numeral_3_eq_3)
  have l: "length (takeWhile (\<lambda>b. b \<noteq> 0) [65 :: byte, 66, 0]) = 2" by simp
  have new: "NewByteArray demo_objects (jvm ?w) (of_nat (length (takeWhile (\<lambda>b. b \<noteq> 0) [65 :: byte, 66, 0])))
      = Inr (0x77, (jvm ?w)(0x77 \<mapsto> (JByte, [0, 0])))"
    unfolding l by (simp add: demo_objects_def numeral_2_eq_2)
  have set: "SetRegion heap_jni ((jvm ?w)(0x77 \<mapsto> (JByte, [0, 0]))) JByte 0x77 0
      (of_nat (length (takeWhile (\<lambda>b. b \<noteq> 0) [65 :: byte, 66, 0])))
      = Inr (\<lambda>new. ((jvm ?w)(0x77 \<mapsto> (JByte, [0, 0])))(0x77 \<mapsto> (JByte, new)))"
    unfolding l by (simp add: heap_jni_def)
  from zero_terminated_roundtrip [OF law _ reg room new set] obtain w1 where
    "putZeroTerminatedByteArray heap_jni 0x100 7 0 3 ?w = Some w1"
    "getZeroTerminatedByteArray heap_jni demo_objects 0x100 w1
      = Some (0x77, w1\<lparr>jvm := ((jvm ?w)(0x77 \<mapsto> (JByte, [0, 0])))(0x77 \<mapsto> (JByte, [65, 66]))\<rparr>)" by auto
  then show ?thesis by (intro exI conjI) (assumption | simp)+
qed

text \<open>Allocated memory. Under any allocator answers \<open>allocateMemory\<close> returns; its result is 0 with
  no block allocated or the address of a new block of the size asked for, whose bytes are all mapped
  and, if clearing was asked for, zero; \<open>freeMemory\<close> on the result gives the old blocks back.\<close>

theorem allocateMemory_cleared:
  assumes ok: "heap_ok w"
  shows "\<exists>h w1. allocateMemory sz True w = Some (h, w1)
     \<and> (if h = 0 then blocks w1 = blocks w
        else blocks w1 = insert (j2p h) (blocks w) \<and> j2p h \<notin> blocks w
           \<and> load (mem w1) (j2p h) (unat sz) = Some (replicate (unat sz) 0))
     \<and> (\<exists>w2. freeMemory h w1 = Some w2 \<and> blocks w2 = blocks w)"
proof -
  obtain q w0 where q: "malloc sz w = Some (q, w0)" using libc.request_total by blast
  have z: "p2j q = 0 \<longleftrightarrow> q = NULL" "j2p (p2j q) = q" by (simp_all add: p2j_def j2p_def)
  show ?thesis
  proof (cases "q = NULL")
    case True
    with q have "blocks w0 = blocks w" using libc.request_fail [OF ok, of sz w0] by blast
    with q True show ?thesis by (simp add: allocateMemory_def malloc_mem_def freeMemory_def free_mem_def p2j_def j2p_def)
  next
    case False
    note fresh = libc.request_fresh [OF ok q False]
    have lv: "live w0 q = Some sz" using q False by (auto simp: malloc_def Let_def split: list.splits)
    let ?m = "map_block q (fresh_bytes w0 q (unat sz)) (mem w0)"
    have "span q (length (replicate (unat sz) (0 :: byte))) \<subseteq> dom ?m" by (simp add: map_block_dom)
    then obtain m where m: "store ?m q (replicate (unat sz) 0) = Some m"
      using store_defined [of ?m q "replicate (unat sz) 0"] by blast
    have "load m q (unat sz) = Some (replicate (unat sz) 0)"
      using load_store_same [OF m] unat_bound [of sz] by simp
    moreover have "allocateMemory sz True w = Some (p2j q, w0\<lparr>mem := m\<rparr>)"
      using q False m by (simp add: allocateMemory_def malloc_mem_def memset_def)
    moreover have "\<exists>w2. freeMemory (p2j q) (w0\<lparr>mem := m\<rparr>) = Some w2 \<and> blocks w2 = blocks w"
      using lv fresh False by (auto simp: freeMemory_def free_mem_def free_def z split: if_splits)
    ultimately show ?thesis using fresh False z by simp
  qed
qed

theorem allocateMemory_cleared_witness:
  "\<exists>w1. allocateMemory 2 True (jni_boot Map.empty Map.empty [0x2000]) = Some (0x2000, w1) \<and> load (mem w1) 0x2000 2 = Some [0, 0]"
proof -
  let ?w = "jni_boot Map.empty Map.empty [0x2000]"
  have "heap_ok ?w" by (simp add: heap_ok_def)
  from allocateMemory_cleared [OF this, of 2] obtain h w1 where r: "allocateMemory 2 True ?w = Some (h, w1)"
    "h \<noteq> 0 \<Longrightarrow> load (mem w1) (j2p h) 2 = Some (replicate 2 0)" by (auto split: if_splits)
  have "malloc 2 ?w = Some (0x2000, ?w\<lparr>script := [], live := [0x2000 \<mapsto> 2]\<rparr>)" by (simp add: malloc_def)
  with r(1) have "h = 0x2000" by (auto simp: allocateMemory_def malloc_mem_def p2j_def split: bind_splits)
  have rep: "replicate 2 (0 :: byte) = [0, 0]" by (simp add: numeral_2_eq_2)
  from r \<open>h = 0x2000\<close> show ?thesis by (simp add: j2p_def rep)
qed

end
