(* ===== verification/Jffi_Pages.thy ===== *)
theory Jffi_Pages
  imports Jffi_Jni
begin

text \<open>
  Pages from the operating system: the helpers of \<^verbatim>\<open>jni/jffi/MemoryUtil.c\<close> and the mapping calls of
  \<^verbatim>\<open>jni/jffi/Memory.c\<close>, in their POSIX branches. The system calls are a parameter; the numbers of the
  protection and mapping flags are those of Linux on x86-64, where neither \<open>MAP_ALIGN\<close> nor \<open>MAP_TEXT\<close>
  exists.
\<close>

section \<open>The system calls\<close>

abbreviation (input) MAP_FAILED :: addr where "MAP_FAILED \<equiv> - 1"

record 'w os =
  sys_pagesize :: jint
  sys_mmap :: "addr \<Rightarrow> size_t \<Rightarrow> jint \<Rightarrow> jint \<Rightarrow> jint \<Rightarrow> jlong \<Rightarrow> 'w \<Rightarrow> addr \<times> 'w"
  sys_munmap :: "addr \<Rightarrow> size_t \<Rightarrow> 'w \<Rightarrow> (jint \<times> 'w) option"
  sys_mprotect :: "addr \<Rightarrow> size_t \<Rightarrow> jint \<Rightarrow> 'w \<Rightarrow> jint \<times> 'w"

abbreviation (input) PROT_READ :: jint where "PROT_READ \<equiv> 1"
abbreviation (input) PROT_WRITE :: jint where "PROT_WRITE \<equiv> 2"
abbreviation (input) PROT_EXEC :: jint where "PROT_EXEC \<equiv> 4"
abbreviation (input) MAP_SHARED :: jint where "MAP_SHARED \<equiv> 0x1"
abbreviation (input) MAP_PRIVATE :: jint where "MAP_PRIVATE \<equiv> 0x2"
abbreviation (input) MAP_FIXED :: jint where "MAP_FIXED \<equiv> 0x10"
abbreviation (input) MAP_ANON :: jint where "MAP_ANON \<equiv> 0x20"
abbreviation (input) MAP_NORESERVE :: jint where "MAP_NORESERVE \<equiv> 0x4000"

section \<open>MemoryUtil.c\<close>

definition jffi_getPageSize :: "'w os \<Rightarrow> jint" where
  "jffi_getPageSize os = sys_pagesize os"

text \<open>\<open>npages * jffi_getPageSize()\<close> is an \<open>int\<close> product.\<close>

definition page_bytes :: "'w os \<Rightarrow> jint \<Rightarrow> size_t" where
  "page_bytes os npages = scast (npages * jffi_getPageSize os)"

definition jffi_allocatePages :: "'w os \<Rightarrow> jint \<Rightarrow> 'w \<Rightarrow> addr \<times> 'w" where
  "jffi_allocatePages os npages w =
     (let (memory, w1) = sys_mmap os NULL (page_bytes os npages) (PROT_READ OR PROT_WRITE) (MAP_ANON OR MAP_PRIVATE) (- 1) 0 w
      in (if memory \<noteq> MAP_FAILED then memory else NULL, w1))"

definition jffi_freePages :: "'w os \<Rightarrow> addr \<Rightarrow> jint \<Rightarrow> 'w \<Rightarrow> (bool \<times> 'w) option" where
  "jffi_freePages os addr npages w = map_option (\<lambda>(r, w1). (r = 0, w1)) (sys_munmap os addr (page_bytes os npages) w)"

definition jffi_makePagesExecutable :: "'w os \<Rightarrow> addr \<Rightarrow> jint \<Rightarrow> 'w \<Rightarrow> bool \<times> 'w" where
  "jffi_makePagesExecutable os memory npages w =
     (let (r, w1) = sys_mprotect os memory (page_bytes os npages) (PROT_READ OR PROT_EXEC) w in (r = 0, w1))"

section \<open>Memory.c\<close>

definition pageSize :: "'w os \<Rightarrow> jlong" where
  "pageSize os = scast (sys_pagesize os)"

text \<open>The constants of \<open>Foreign.java\<close>; \<open>PROT_NONE\<close> is 0 on both sides.\<close>

definition prot_bits :: "jint \<Rightarrow> jint" where
  "prot_bits p =
     (if p AND 0x0 \<noteq> 0 then 0 else 0) OR
     (if p AND 0x1 \<noteq> 0 then PROT_READ else 0) OR
     (if p AND 0x2 \<noteq> 0 then PROT_WRITE else 0) OR
     (if p AND 0x4 \<noteq> 0 then PROT_EXEC else 0)"

definition map_flags :: "jint \<Rightarrow> jint" where
  "map_flags j =
     (if j AND 0x10 \<noteq> 0 then MAP_FIXED else 0) OR
     (if j AND 0x1 \<noteq> 0 then MAP_SHARED else 0) OR
     (if j AND 0x2 \<noteq> 0 then MAP_PRIVATE else 0) OR
     (if j AND 0x40 \<noteq> 0 then MAP_NORESERVE else 0) OR
     (if j AND 0x100 \<noteq> 0 then MAP_ANON else 0)"

definition Foreign_mmap ::
  "'a thread_world_scheme os \<Rightarrow> jlong \<Rightarrow> jlong \<Rightarrow> jint \<Rightarrow> jint \<Rightarrow> jint \<Rightarrow> jlong \<Rightarrow> 'a thread_world_scheme
     \<Rightarrow> (jlong \<times> 'a thread_world_scheme) option"
where
  "Foreign_mmap os addr len prot flags fd off w = do {
     (result, w1) \<leftarrow> Some (sys_mmap os (j2p addr) len (prot_bits prot) (map_flags flags) fd off w);
     if result = MAP_FAILED then map_option (\<lambda>w2. (- 1, w2)) (jffi_save_errno w1) else Some (p2j result, w1)
   }"

definition Foreign_munmap ::
  "'a thread_world_scheme os \<Rightarrow> jlong \<Rightarrow> jlong \<Rightarrow> 'a thread_world_scheme \<Rightarrow> (jint \<times> 'a thread_world_scheme) option"
where
  "Foreign_munmap os addr len w = do {
     (result, w1) \<leftarrow> sys_munmap os (j2p addr) len w;
     if result \<noteq> 0 then map_option (\<lambda>w2. (- 1, w2)) (jffi_save_errno w1) else Some (0, w1)
   }"

definition Foreign_mprotect ::
  "'a thread_world_scheme os \<Rightarrow> jlong \<Rightarrow> jlong \<Rightarrow> jint \<Rightarrow> 'a thread_world_scheme \<Rightarrow> (jint \<times> 'a thread_world_scheme) option"
where
  "Foreign_mprotect os addr len prot w = do {
     (result, w1) \<leftarrow> Some (sys_mprotect os (j2p addr) len (prot_bits prot) w);
     if result \<noteq> 0 then map_option (\<lambda>w2. (- 1, w2)) (jffi_save_errno w1) else Some (0, w1)
   }"

section \<open>Properties\<close>

lemma threads_ok_errno: "threads_ok (w\<lparr>errno := e\<rparr>) = threads_ok w"
  by (simp add: threads_ok_def heap_ok_def)

lemma save_errno_value:
  assumes "threads_ok w" and "specific w (self w) \<noteq> NULL \<or> (\<exists>p sc. script w = p # sc \<and> p \<noteq> NULL)"
  shows "\<exists>w'. jffi_save_errno w = Some w' \<and> threads_ok w' \<and> getLastError w' = Some (errno w (self w), w')"
  unfolding jffi_save_errno_def
  by (rule save_value [OF assms]) simp_all

text \<open>Translating one flag; the numbers of Java and of the system differ in two places.\<close>

lemma and_single: "x AND 2 ^ n = (if bit x n then 2 ^ n else 0)" for x :: jint
  by (rule bit_eqI) (auto simp: bit_simps)

lemma same_flag: "(if x AND c \<noteq> 0 then c else 0) = x AND c" if "c = 2 ^ n" for x c :: jint
  unfolding that and_single by simp

lemma moved_flags:
  "(if x AND 0x40 \<noteq> 0 then 0x4000 else 0) = push_bit 8 (x AND 0x40)"
  "(if x AND 0x100 \<noteq> 0 then 0x20 else 0) = drop_bit 3 (x AND 0x100)" for x :: jint
  using and_single [of x 6] and_single [of x 8] by simp_all

lemma prot_bits_eq: "prot_bits p = p AND 7"
proof -
  have e: "(7 :: jint) = 1 OR (2 OR 4)" by simp
  show ?thesis unfolding e bit.conj_disj_distrib prot_bits_def
    using same_flag [of 1 0 p] same_flag [of 2 1 p] same_flag [of 4 2 p] by (simp add: or.assoc)
qed

lemma map_flags_eq: "map_flags j = (j AND 0x13) OR push_bit 8 (j AND 0x40) OR drop_bit 3 (j AND 0x100)"
proof -
  have e: "(0x13 :: jint) = 0x10 OR (1 OR 2)" by simp
  show ?thesis unfolding e bit.conj_disj_distrib map_flags_def moved_flags
    using same_flag [of "0x10" 4 j] same_flag [of 1 0 j] same_flag [of 2 1 j] by (simp add: or.assoc)
qed

text \<open>Claim C28. Mapping memory. \<open>mmap\<close> hands the system the address, length, descriptor and offset it
  was given, the three protection bits and the five known flags, each moved to the number the system
  uses, all others dropped. Its result is the mapped address, with nothing else changed; or \<open>-1\<close>,
  and then the saved error of the calling thread is the \<open>errno\<close> the system call left.\<close>

theorem mmap_reports_errno:
  assumes call: "sys_mmap os (j2p addr) len (prot AND 7)
      ((flags AND 0x13) OR push_bit 8 (flags AND 0x40) OR drop_bit 3 (flags AND 0x100)) fd off w = (p, w1)"
    and thread: "p = MAP_FAILED \<Longrightarrow> threads_ok w1 \<and>
      (specific w1 (self w1) \<noteq> NULL \<or> (\<exists>q sc. script w1 = q # sc \<and> q \<noteq> NULL))"
  shows "\<exists>w2. Foreign_mmap os addr len prot flags fd off w = Some (if p = MAP_FAILED then - 1 else p2j p, w2)
     \<and> (if p = MAP_FAILED then getLastError w2 = Some (errno w1 (self w1), w2) else w2 = w1)"
  using call thread save_errno_value [of w1]
  by (auto simp: Foreign_mmap_def prot_bits_eq map_flags_eq)

definition no_memory :: "thread_world os" where
  "no_memory = \<lparr>sys_pagesize = 4096, sys_mmap = (\<lambda>_ _ _ _ _ _ w. (MAP_FAILED, w\<lparr>errno := (errno w)(self w := 12)\<rparr>)),
     sys_munmap = (\<lambda>_ _ w. Some (0, w)), sys_mprotect = (\<lambda>_ _ _ w. (- 1, w\<lparr>errno := (errno w)(self w := 13)\<rparr>))\<rparr>"

theorem mmap_reports_errno_witness:
  "\<exists>w2. Foreign_mmap no_memory 0 4096 3 0x102 (- 1) 0 (thread_boot [0x3000]) = Some (- 1, w2) \<and> getLastError w2 = Some (12, w2)"
proof -
  let ?w = "thread_boot [0x3000]" and ?w1 = "(thread_boot [0x3000])\<lparr>errno := (errno (thread_boot [0x3000]))(self (thread_boot [0x3000]) := 12)\<rparr>"
  have "threads_ok ?w" by (rule thread_boot_ok) simp_all
  then have o: "threads_ok ?w1" by (simp only: threads_ok_errno)
  have t: "threads_ok ?w1 \<and> (specific ?w1 (self ?w1) \<noteq> NULL \<or> (\<exists>q sc. script ?w1 = q # sc \<and> q \<noteq> NULL))"
    using o by (simp add: thread_boot_def)
  have c: "sys_mmap no_memory (j2p 0) 4096 (3 AND 7)
      ((0x102 AND 0x13) OR push_bit 8 (0x102 AND 0x40) OR drop_bit 3 (0x102 AND 0x100)) (- 1) 0 ?w = (MAP_FAILED, ?w1)"
    by (simp add: no_memory_def)
  from mmap_reports_errno [OF c t] show ?thesis by auto
qed

end
