(* ===== verification/Ffi_Closure.thy ===== *)
theory Ffi_Closure
  imports Ffi_Integers
begin

text \<open>
  libffi's closures on x86-64: \<open>ffi_prep_closure_loc\<close> (\<^verbatim>\<open>jni/libffi/src/x86/ffi64.c\<close>, and its Microsoft
  counterpart in \<^verbatim>\<open>ffiw64.c\<close>) writes a trampoline into executable memory; a call of the trampoline
  enters \<open>ffi_closure_unix64\<close> (\<^verbatim>\<open>unix64.S\<close>), which saves the argument registers, finds the
  argument values with \<open>ffi_closure_unix64_inner\<close>, calls the closure's C function and loads the
  value it left into the return registers.

  Closures are raw bytes: the processor executes them. jffi prepares them in pages it has mapped
  itself, which are no segment of libffi's own closure heap, so \<open>ffi_tramp_is_present\<close> is 0 and the
  static trampolines of \<open>Ffi_Exec\<close> are not used. A call interface is the first field of the call
  context it belongs to and has its address.
\<close>

section \<open>ffi_prep_closure_loc\<close>

text \<open>The link-time addresses of the assembly entries.\<close>

record link =
  at_closure_unix64 :: addr
  at_closure_unix64_sse :: addr
  at_closure_win64 :: addr

definition trampoline :: "byte list" where
  "trampoline =
    [0xf3, 0x0f, 0x1e, 0xfa,
     0x4c, 0x8d, 0x15, 0xf5, 0xff, 0xff, 0xff,
     0xff, 0x25, 0x07, 0x00, 0x00, 0x00,
     0x0f, 0x1f, 0x80, 0x00, 0x00, 0x00, 0x00]"

text \<open>\<open>ffi_closure\<close>: 32 bytes of trampoline, then \<open>cif\<close>, \<open>fun\<close> and \<open>user_data\<close>.\<close>

abbreviation (input) FFI_TRAMPOLINE_SIZE :: addr where "FFI_TRAMPOLINE_SIZE \<equiv> 32"
abbreviation (input) sizeof_ffi_closure :: nat where "sizeof_ffi_closure \<equiv> 56"

definition init_closure :: "addr \<Rightarrow> addr \<Rightarrow> addr \<Rightarrow> addr \<Rightarrow> addr \<Rightarrow> 'a mem_world_scheme \<Rightarrow> 'a mem_world_scheme option" where
  "init_closure closure dest cif fn user_data w = do {
     m1 \<leftarrow> store (mem w) closure trampoline;
     m2 \<leftarrow> store m1 (closure + 24) (le_bytes 8 dest);
     m3 \<leftarrow> store m2 (closure + FFI_TRAMPOLINE_SIZE) (le_bytes 8 cif);
     m4 \<leftarrow> store m3 (closure + FFI_TRAMPOLINE_SIZE + 8) (le_bytes 8 fn);
     m5 \<leftarrow> store m4 (closure + FFI_TRAMPOLINE_SIZE + 16) (le_bytes 8 user_data);
     Some (w\<lparr>mem := m5\<rparr>)
   }"

definition cif_at :: "addr \<Rightarrow> 'a ctx_world_scheme \<Rightarrow> ffi_cif option" where
  "cif_at p w = map_option cc_cif (ctxs w p)"

definition ffi_prep_closure_loc_efi64 ::
  "link \<Rightarrow> addr \<Rightarrow> addr \<Rightarrow> addr \<Rightarrow> addr \<Rightarrow> 'a ctx_world_scheme \<Rightarrow> (ffi_status \<times> 'a ctx_world_scheme) option"
where
  "ffi_prep_closure_loc_efi64 lk closure cif fn user_data w = do {
     c \<leftarrow> cif_at cif w;
     if cif_abi c = FFI_WIN64 \<or> cif_abi c = FFI_GNUW64
     then map_option (\<lambda>w1. (FFI_OK, w1)) (init_closure closure (at_closure_win64 lk) cif fn user_data w)
     else Some (FFI_BAD_ABI, w)
   }"

definition ffi_prep_closure_loc ::
  "link \<Rightarrow> addr \<Rightarrow> addr \<Rightarrow> addr \<Rightarrow> addr \<Rightarrow> 'a ctx_world_scheme \<Rightarrow> (ffi_status \<times> 'a ctx_world_scheme) option"
where
  "ffi_prep_closure_loc lk closure cif fn user_data w = do {
     c \<leftarrow> cif_at cif w;
     if cif_abi c = FFI_EFI64 \<or> cif_abi c = FFI_GNUW64
     then ffi_prep_closure_loc_efi64 lk closure cif fn user_data w
     else if cif_abi c \<noteq> FFI_UNIX64 then Some (FFI_BAD_ABI, w)
     else do {
       dest \<leftarrow> Some (if cif_flags c AND UNIX64_FLAG_XMM_ARGS \<noteq> 0 then at_closure_unix64_sse lk
                     else at_closure_unix64 lk);
       w1 \<leftarrow> init_closure closure dest cif fn user_data w;
       Some (FFI_OK, w1)
     }
   }"

section \<open>The call of a closure\<close>

text \<open>What the processor does with the 24 bytes: \<open>leaq -0xb(%rip), %r10\<close> loads the trampoline's own
  address, \<open>jmpq *7(%rip)\<close> jumps to the address stored behind the bytes. The result is the address
  jumped to and \<open>r10\<close>.\<close>

definition run_trampoline :: "memory \<Rightarrow> addr \<Rightarrow> (addr \<times> addr) option" where
  "run_trampoline m pc = do {
     code \<leftarrow> load m pc 24;
     if code = trampoline then map_option (\<lambda>d. (le_word d, pc)) (load m (pc + 24) 8) else None
   }"

text \<open>The 216 bytes of \<open>ffi_closure_FS\<close>: the six general registers, the eight vector registers if the
  entry is the \<open>sse\<close> one, room for the value returned; the rest keeps its content \<open>junk\<close>.\<close>

definition closure_frame :: "bool \<Rightarrow> call_regs \<Rightarrow> byte list \<Rightarrow> byte list" where
  "closure_frame sse regs junk =
     concat (map (le_bytes 8) (cr_gpr regs))
     @ (case cr_sse regs of Some v \<Rightarrow> if sse then v else take 128 (drop 48 junk) | None \<Rightarrow> take 128 (drop 48 junk))
     @ drop 176 junk"

text \<open>\<open>L(load_table)\<close>: the return registers by the return code, from the value at \<open>p\<close>; the others are
  as the callee left them, \<open>r\<close>.\<close>

definition load_table :: "u32 \<Rightarrow> memory \<Rightarrow> addr \<Rightarrow> ret_regs \<Rightarrow> ret_regs option" where
  "load_table flags m p r =
     (let code = take_bit 8 flags;
          rd = (\<lambda>off n. map_option le_word (load m (p + off) n));
          rax = map_option (\<lambda>x. r\<lparr>rr_rax := x\<rparr>)
      in if code = UNIX64_RET_VOID then Some r
         else if code = UNIX64_RET_UINT8 then rax (rd 0 1)
         else if code = UNIX64_RET_UINT16 then rax (rd 0 2)
         else if code = UNIX64_RET_UINT32 then rax (rd 0 4)
         else if code = UNIX64_RET_SINT8 then rax (map_option (\<lambda>x. take_bit 32 (signed_take_bit 7 x)) (rd 0 1))
         else if code = UNIX64_RET_SINT16 then rax (map_option (\<lambda>x. take_bit 32 (signed_take_bit 15 x)) (rd 0 2))
         else if code = UNIX64_RET_SINT32 then rax (rd 0 4)
         else if code = UNIX64_RET_INT64 then rax (rd 0 8)
         else if code = UNIX64_RET_XMM32 then map_option (\<lambda>x. r\<lparr>rr_xmm0 := x\<rparr>) (rd 0 4)
         else if code = UNIX64_RET_XMM64 then map_option (\<lambda>x. r\<lparr>rr_xmm0 := x\<rparr>) (rd 0 8)
         else if code = UNIX64_RET_X87 then map_option (\<lambda>x. r\<lparr>rr_st0 := x\<rparr>) (load m p 10)
         else if code = UNIX64_RET_X87_2
         then do { x \<leftarrow> load m p 10; y \<leftarrow> load m (p + 16) 10; Some (r\<lparr>rr_st0 := x, rr_st1 := y\<rparr>) }
         else if code = UNIX64_RET_ST_XMM0_RAX
         then do { x \<leftarrow> rd 0 8; y \<leftarrow> rd 8 8; Some (r\<lparr>rr_xmm0 := x, rr_rax := y\<rparr>) }
         else if code = UNIX64_RET_ST_RAX_XMM0
         then do { x \<leftarrow> rd 0 8; y \<leftarrow> rd 8 8; Some (r\<lparr>rr_rax := x, rr_xmm0 := y\<rparr>) }
         else if code = UNIX64_RET_ST_XMM0_XMM1
         then do { x \<leftarrow> rd 0 8; y \<leftarrow> rd 8 8; Some (r\<lparr>rr_xmm0 := x, rr_xmm1 := y\<rparr>) }
         else if code = UNIX64_RET_ST_RAX_RDX
         then do { x \<leftarrow> rd 0 8; y \<leftarrow> rd 8 8; Some (r\<lparr>rr_rax := x, rr_rdx := y\<rparr>) }
         else None)"

text \<open>The closure's C function \<open>(*fun)(cif, rvalue, avalue, user_data)\<close>, by its address.\<close>

type_synonym 'w closure_fun = "addr \<Rightarrow> addr \<Rightarrow> addr \<Rightarrow> addr \<Rightarrow> addr \<Rightarrow> 'w \<Rightarrow> 'w option"

definition closure_inner ::
  "'a ctx_world_scheme closure_fun \<Rightarrow> nat \<Rightarrow> addr \<Rightarrow> addr \<Rightarrow> addr \<Rightarrow> addr \<Rightarrow> addr \<Rightarrow> addr
     \<Rightarrow> 'a ctx_world_scheme \<Rightarrow> (u32 \<times> 'a ctx_world_scheme) option"
where
  "closure_inner call fuel cif fn user_data rvalue reg_args argp w = do {
     c \<leftarrow> cif_at cif w;
     (avp, w1) \<leftarrow> Some (alloca (8 * nat (sint (cif_nargs c))) w);
     ((avalue, rv, flags), w2) \<leftarrow> ffi_closure_unix64_inner fuel c rvalue reg_args argp w1;
     m \<leftarrow> store (mem w2) avp (concat (map (le_bytes 8) avalue));
     w3 \<leftarrow> call fn cif rv avp user_data (w2\<lparr>mem := m\<rparr>);
     Some (flags, w3)
   }"

text \<open>From the saved registers to the return, common to closures and Go closures. The stack arguments of
  the call are at \<open>argp\<close>, the return address is in the eight bytes below them, the frame below that.
  \<open>loads\<close> reads the call interface, the function and the user data.\<close>

definition do_closure ::
  "'a ctx_world_scheme closure_fun \<Rightarrow> nat \<Rightarrow> bool \<Rightarrow> (memory \<Rightarrow> (addr \<times> addr \<times> addr) option) \<Rightarrow> call_regs \<Rightarrow> ret_regs
     \<Rightarrow> 'a ctx_world_scheme \<Rightarrow> (ret_regs \<times> 'a ctx_world_scheme) option"
where
  "do_closure call fuel sse loads regs junk w = do {
     (argp, w1) \<leftarrow> Some (alloca (length (cr_args regs)) w);
     s \<leftarrow> Some (argp - 224);
     w2 \<leftarrow> Some (w1\<lparr>stack_top := s - 8,
                   mem := map_block s (closure_frame sse regs (fresh_bytes w1 s 216))
                            (map_block argp (cr_args regs) (mem w1))\<rparr>);
     (cif, fn, user_data) \<leftarrow> loads (mem w2);
     (flags, w3) \<leftarrow> closure_inner call fuel cif fn user_data (s + 176) s argp w2;
     r \<leftarrow> load_table flags (mem w3) (s + 176) junk;
     Some (r, w3\<lparr>stack_top := stack_top w\<rparr>)
   }"

text \<open>The three pointers behind the trampoline at \<open>r10\<close>.\<close>

definition closure_loads :: "addr \<Rightarrow> memory \<Rightarrow> (addr \<times> addr \<times> addr) option" where
  "closure_loads r10 m = do {
     cif \<leftarrow> load m (r10 + FFI_TRAMPOLINE_SIZE) 8;
     fn \<leftarrow> load m (r10 + FFI_TRAMPOLINE_SIZE + 8) 8;
     user_data \<leftarrow> load m (r10 + FFI_TRAMPOLINE_SIZE + 16) 8;
     Some (le_word cif, le_word fn, le_word user_data)
   }"

text \<open>\<open>ffi_closure_unix64\<close> and \<open>ffi_closure_unix64_sse\<close>.\<close>

definition closure_entry ::
  "'a ctx_world_scheme closure_fun \<Rightarrow> nat \<Rightarrow> bool \<Rightarrow> addr \<Rightarrow> call_regs \<Rightarrow> ret_regs
     \<Rightarrow> 'a ctx_world_scheme \<Rightarrow> (ret_regs \<times> 'a ctx_world_scheme) option"
where
  "closure_entry call fuel sse r10 = do_closure call fuel sse (closure_loads r10)"

text \<open>A call to the address of a closure of a System V interface.\<close>

definition closure_native ::
  "link \<Rightarrow> 'a ctx_world_scheme closure_fun \<Rightarrow> nat \<Rightarrow> ret_regs \<Rightarrow> 'a ctx_world_scheme native"
where
  "closure_native lk call fuel junk pc regs w = do {
     (dest, r10) \<leftarrow> run_trampoline (mem w) pc;
     if dest = at_closure_unix64 lk then closure_entry call fuel False r10 regs junk w
     else if dest = at_closure_unix64_sse lk then closure_entry call fuel True r10 regs junk w
     else None
   }"

section \<open>What the trampoline finds\<close>

lemma length_trampoline [simp]: "length trampoline = 24"
  by (simp add: trampoline_def)

lemma init_closure_bytes:
  "init_closure closure dest cif fn ud w =
     map_option (\<lambda>m. w\<lparr>mem := m\<rparr>)
       (store (mem w) closure (trampoline @ le_bytes 8 dest @ le_bytes 8 cif @ le_bytes 8 fn @ le_bytes 8 ud))"
  by (simp add: init_closure_def store_append map_conv_bind_option add.assoc comp_def)

lemma init_closure_defined:
  "span closure sizeof_ffi_closure \<subseteq> dom (mem w) \<Longrightarrow> \<exists>m. init_closure closure dest cif fn ud w = Some (w\<lparr>mem := m\<rparr>)"
  using store_defined [of "mem w" closure "trampoline @ le_bytes 8 dest @ le_bytes 8 cif @ le_bytes 8 fn @ le_bytes 8 ud"]
  by (auto simp: init_closure_bytes)

text \<open>A closure that is ready to be called, as the bytes from its address on.\<close>

definition closure_ready :: "memory \<Rightarrow> addr \<Rightarrow> addr \<Rightarrow> addr \<Rightarrow> addr \<Rightarrow> addr \<Rightarrow> bool" where
  "closure_ready m pc dest cif fn ud \<longleftrightarrow>
     load m pc sizeof_ffi_closure = Some (trampoline @ le_bytes 8 dest @ le_bytes 8 cif @ le_bytes 8 fn @ le_bytes 8 ud)"

lemma init_closure_ready:
  assumes "init_closure pc dest cif fn ud w = Some w'"
  shows "closure_ready (mem w') pc dest cif fn ud \<and> (\<forall>a. a \<notin> span pc sizeof_ffi_closure \<longrightarrow> mem w' a = mem w a)
     \<and> w' = w\<lparr>mem := mem w'\<rparr>"
proof -
  let ?bs = "trampoline @ le_bytes 8 dest @ le_bytes 8 cif @ le_bytes 8 fn @ le_bytes 8 ud"
  from assms obtain m where m: "store (mem w) pc ?bs = Some m" and w': "w' = w\<lparr>mem := m\<rparr>"
    by (auto simp: init_closure_bytes)
  have "closure_ready m pc dest cif fn ud"
    using load_store_same [OF m] by (simp add: closure_ready_def)
  then show ?thesis using store_outside [OF m] by (simp add: w')
qed

lemma closure_ready_fields:
  assumes "closure_ready m pc dest cif fn ud"
  shows "run_trampoline m pc = Some (dest, pc)"
    and "load m (pc + 32) 8 = Some (le_bytes 8 cif)" and "load m (pc + 32 + 8) 8 = Some (le_bytes 8 fn)"
    and "load m (pc + 32 + 16) 8 = Some (le_bytes 8 ud)"
proof -
  note l = load_slice [OF assms [unfolded closure_ready_def]]
  show "run_trampoline m pc = Some (dest, pc)" using l [of 0 24] l [of 24 8] by (simp add: run_trampoline_def)
  show "load m (pc + 32) 8 = Some (le_bytes 8 cif)" using l [of 32 8] by simp
  show "load m (pc + 32 + 8) 8 = Some (le_bytes 8 fn)" using l [of 40 8] by (simp add: add.assoc)
  show "load m (pc + 32 + 16) 8 = Some (le_bytes 8 ud)" using l [of 48 8] by (simp add: add.assoc)
qed

lemma closure_ready_cong:
  "(\<And>a. a \<in> span pc sizeof_ffi_closure \<Longrightarrow> m' a = m a) \<Longrightarrow> closure_ready m' pc = closure_ready m pc"
  unfolding closure_ready_def by (subst load_cong [of pc sizeof_ffi_closure m' m]) simp_all

text \<open>The entry \<open>ffi_prep_closure_loc\<close> chooses.\<close>

definition closure_dest :: "link \<Rightarrow> ffi_cif \<Rightarrow> addr" where
  "closure_dest lk c =
     (if cif_abi c = FFI_EFI64 \<or> cif_abi c = FFI_GNUW64 then at_closure_win64 lk
      else if cif_flags c AND UNIX64_FLAG_XMM_ARGS \<noteq> 0 then at_closure_unix64_sse lk else at_closure_unix64 lk)"

section \<open>Integer arguments\<close>

lemma closure_args_integers:
  assumes "list_all2 (\<lambda>p t. types w p = Some t \<and> integer_type t) ps ts" and "g + length ps \<le> 6" and "s \<le> 8"
  shows "closure_args (Suc n) reg_args ps argp g s w = Some (map (\<lambda>i. reg_args + of_nat (8 * i)) [g..<g + length ps], w)"
  using assms
proof (induction ps ts arbitrary: g rule: list_all2_induct)
  case (Cons p ps t ts)
  have t: "types w p = Some t" "integer_type t" using Cons.hyps by auto
  then obtain cl where e: "examine_argument (Suc n) w t False = Some \<lparr>ex_n = 1, ex_classes = [cl], ex_ngpr = 1, ex_nsse = 0\<rparr>"
    and cl: "cl = X86_64_INTEGER_CLASS \<or> cl = X86_64_INTEGERSI_CLASS"
    using examine_integer [of "ft_type t" t n w] by (auto simp: integer_type_def)
  have ih: "closure_args (Suc n) reg_args ps argp (Suc g) s w
      = Some (map (\<lambda>i. reg_args + of_nat (8 * i)) [Suc g..<Suc g + length ps], w)"
    using Cons.IH [of "Suc g"] Cons.prems by simp
  have u: "[g..<g + length (p # ps)] = g # [Suc g..<Suc g + length ps]"
    using upt_conv_Cons [of g "g + length (p # ps)"] by (simp del: upt_Suc)
  show ?case unfolding u using cl Cons.prems
    by (auto simp: t(1) e ih goes_on_stack_def SSE_CLASS_P_def)
qed simp

lemma length_concat_le_bytes [simp]: "length (concat (map (le_bytes 8) xs)) = 8 * length xs"
  by (induction xs) simp_all

lemma take_drop_concat:
  "i < length xs \<Longrightarrow> take 8 (drop (8 * i) (concat (map (le_bytes 8) xs) @ ys)) = le_bytes 8 (xs ! i)"
proof (induction xs arbitrary: i)
  case (Cons x xs)
  then show ?case by (cases i) simp_all
qed simp

lemma load_words:
  assumes "load m p n = Some (concat (map (le_bytes 8) xs) @ ys)" and "i < length xs"
  shows "load m (p + of_nat (8 * i)) 8 = Some (le_bytes 8 (xs ! i))"
proof -
  have "length (concat (map (le_bytes 8) xs) @ ys) = n" by (rule load_length [OF assms(1)])
  then have "8 * i + 8 \<le> n" using assms(2) by simp
  from load_slice [OF assms(1) this] take_drop_concat [OF assms(2)] show ?thesis by simp
qed

section \<open>The frames\<close>

text \<open>Where the argument block, the saved registers and the argument pointers lie below the caller's
  frame, for a call without stack arguments.\<close>

lemma closure_frames:
  assumes top: "512 \<le> unat (stack_top w)" and n: "n \<le> 6"
    and a: "alloca 0 w = (argp, w1)" and v: "alloca (8 * n) (w1\<lparr>stack_top := argp - 224 - 8, mem := m\<rparr>) = (avp, w2)"
  shows "unat avp + 8 * n \<le> unat (argp - 224) \<and> unat (argp - 224) + 216 \<le> unat (stack_top w)
     \<and> unat (stack_top w) \<le> unat avp + 512 \<and> w1 = w\<lparr>stack_top := argp\<rparr>
     \<and> w2 = w\<lparr>stack_top := avp, mem := map_block avp (fresh_bytes w avp (8 * n)) m\<rparr>"
proof -
  let ?u = "w1\<lparr>stack_top := argp - 224 - 8, mem := m\<rparr>"
  have b: "unat (stack_top w) < 2 ^ 64" by (rule unat_bound)
  note sa = alloca_span [OF a, simplified]
  have ap: "unat argp \<le> unat (stack_top w)" "unat (stack_top w) < unat argp + 16" using sa top by simp_all
  have s: "unat (argp - 224) = unat argp - 224" "unat (argp - 224 - 8) = unat argp - 232"
    using ap top by (simp_all add: unat_sub word_le_nat_alt)
  have "unat avp + 8 * n \<le> unat (stack_top ?u) \<and> unat (stack_top ?u) < unat avp + 8 * n + 16 \<and> unat avp + 8 * n \<le> 2 ^ 64 \<and> stack_top w2 = avp"
    by (rule alloca_span [OF v]) (use s ap top n in simp)
  moreover have "w1 = w\<lparr>stack_top := argp\<rparr>" using a by (auto simp: alloca_def Let_def fresh_bytes_def)
  moreover have "w2 = w1\<lparr>stack_top := avp, mem := map_block avp (fresh_bytes w1 avp (8 * n)) m\<rparr>"
    using v by (auto simp: alloca_def Let_def fresh_bytes_def)
  moreover have "fresh_bytes (w\<lparr>stack_top := argp\<rparr>) avp (8 * n) = fresh_bytes w avp (8 * n)"
    by (simp add: fresh_bytes_def)
  ultimately show ?thesis using s ap top n by auto
qed

lemma inner_integers:
  assumes c: "cif_flags c AND UNIX64_FLAG_RET_IN_MEM = 0" "cif_nargs c = of_nat (length ps)" "length ps \<le> 6"
    "read_ptrs w (cif_arg_types c) (length ps) = Some ps"
    and ts: "list_all2 (\<lambda>p t. types w p = Some t \<and> integer_type t) ps ts"
  shows "ffi_closure_unix64_inner (Suc n) c rvalue reg_args argp w
     = Some ((map (\<lambda>i. reg_args + of_nat (8 * i)) [0..<length ps], rvalue, cif_flags c), w)"
proof -
  have si: "nat (sint (cif_nargs c)) = length ps" using c(2,3) sint_of_nat32 [of "length ps"] by simp
  show ?thesis using c si closure_args_integers [OF ts, of 0 0 n reg_args argp]
    by (simp add: ffi_closure_unix64_inner_def)
qed

lemma load_map_block_disjoint: "span p (length bs) \<inter> span q n = {} \<Longrightarrow> load (map_block p bs m) q n = load m q n"
  by (rule load_cong) (auto intro: map_block_outside)

lemma closure_frame_split:
  assumes "length (cr_gpr regs) = 6" and "\<And>v. cr_sse regs = Some v \<Longrightarrow> length v = 128" and "length junk = 216"
  shows "\<exists>ys. closure_frame sse regs junk = concat (map (le_bytes 8) (cr_gpr regs)) @ ys \<and> length ys = 168"
  using assms by (auto simp: closure_frame_def split: option.splits)

lemma spans_apart:
  assumes "unat p + n \<le> unat q" and "unat q + k \<le> 2 ^ 64" shows "span p n \<inter> span q k = {}"
  using assms by (auto simp: span_interval)

text \<open>The memory the closure's function is called in: saved registers \<open>xs\<close> at \<open>f\<close>, pointers to them at
  \<open>avp\<close>.\<close>

lemma argument_memory:
  fixes top f avp :: addr and m0 :: memory
  assumes room: "512 \<le> unat top" "unat top \<le> unat avp + 512" "unat avp + 8 * n \<le> unat f" "unat f + 216 \<le> unat top"
    and xs: "length xs = 6" "length ys = 168" "n \<le> 6" and junk: "length junk = 8 * n"
  defines "m2 \<equiv> map_block f (concat (map (le_bytes 8) xs) @ ys) m0"
    and "vs \<equiv> map (\<lambda>i. f + of_nat (8 * i)) [0..<n]"
  shows "\<exists>m. store (map_block avp junk m2) avp (concat (map (le_bytes 8) vs)) = Some m
     \<and> (\<forall>a. a \<notin> span (top - 512) 512 \<longrightarrow> m a = m0 a \<and> m2 a = m0 a) \<and> span (f + 176) 40 \<subseteq> dom m
     \<and> (\<forall>i < n. \<exists>v. load m (avp + of_nat (8 * i)) 8 = Some (le_bytes 8 v) \<and> load m v 8 = Some (le_bytes 8 (xs ! i)))"
proof -
  let ?blk = "concat (map (le_bytes 8) xs) @ ys" and ?m3 = "map_block avp junk m2"
  have lb: "length ?blk = 216" using xs by simp
  have lv: "length vs = n" by (simp add: vs_def)
  have "span avp (length (concat (map (le_bytes 8) vs))) \<subseteq> dom ?m3"
    using junk by (simp add: map_block_dom lv)
  then obtain m where m: "store ?m3 avp (concat (map (le_bytes 8) vs)) = Some m"
    using store_defined [of ?m3 avp "concat (map (le_bytes 8) vs)"] by auto
  have b: "unat top < 2 ^ 64" by (rule unat_bound)
  have st: "unat (top - 512) = unat top - 512" using room(1) by (simp add: unat_sub word_le_nat_alt)
  have inside: "span f 216 \<subseteq> span (top - 512) 512" "span avp (8 * n) \<subseteq> span (top - 512) 512"
    using room st b xs(3) by (auto simp: span_interval)
  have apart: "span avp (8 * n) \<inter> span f 216 = {}" using room b by (intro spans_apart) linarith+
  have out2: "m2 a = m0 a" if "a \<notin> span f 216" for a
    using that lb map_block_outside [of a f ?blk] by (simp add: m2_def)
  have out: "m a = m2 a" if "a \<notin> span avp (8 * n)" for a
    using store_outside [OF m, of a] map_block_outside [of a avp junk m2] that junk by (simp add: lv)
  have lf: "load m f 216 = Some ?blk"
  proof -
    have "load m f 216 = load m2 f 216" by (rule load_cong) (use out apart in blast)
    also have "\<dots> = Some ?blk" using load_map_block [of ?blk f m0] lb by (simp add: m2_def)
    finally show ?thesis .
  qed
  have la: "load m avp (8 * n) = Some (concat (map (le_bytes 8) vs) @ [])"
    using load_store_same [OF m] xs(3) by (simp add: lv)
  have "\<exists>v. load m (avp + of_nat (8 * i)) 8 = Some (le_bytes 8 v) \<and> load m v 8 = Some (le_bytes 8 (xs ! i))" if "i < n" for i
    by (rule exI [of _ "f + of_nat (8 * i)"]) (use load_words [OF la, of i] load_words [OF lf, of i] that xs in \<open>simp add: vs_def\<close>)
  moreover have "span f 216 \<subseteq> dom m" using load_defined [of m f 216] lf by simp
  then have "span (f + 176) 40 \<subseteq> dom m"
    using Un_upper2 [of "span (f + of_nat 176) 40" "span f 176", folded span_append] by (rule_tac subset_trans) simp_all
  moreover have "m a = m0 a \<and> m2 a = m0 a" if "a \<notin> span (top - 512) 512" for a
    using out [of a] out2 [of a] subsetD [OF inside(1), of a] subsetD [OF inside(2), of a] that by metis
  ultimately show ?thesis by (intro exI [of _ m] conjI) (use m in simp_all)
qed

lemma closure_loads_cong:
  assumes "\<And>a. a \<in> span (r10 + 32) 24 \<Longrightarrow> m' a = m a" shows "closure_loads r10 m' = closure_loads r10 m"
proof -
  have "load m' (r10 + 32 + of_nat i) 8 = load m (r10 + 32 + of_nat i) 8" if "i + 8 \<le> 24" for i
  proof (rule load_cong, rule assms)
    fix a assume "a \<in> span (r10 + 32 + of_nat i) 8"
    then show "a \<in> span (r10 + 32) 24" using span_at [OF that] by blast
  qed
  from this [of 0] this [of 8] this [of 16] show ?thesis by (simp add: closure_loads_def del: load.simps)
qed

lemma closure_entry_integers:
  fixes w :: "'a ctx_world_scheme" and call :: "'a ctx_world_scheme closure_fun"
  assumes loads: "closure_loads r10 (mem w) = Some (cif, fn, ud)"
    and cif: "cif_at cif w = Some c"
    and cc: "cif_flags c AND UNIX64_FLAG_RET_IN_MEM = 0" "cif_nargs c = of_nat (length ps)" "length ps \<le> 6"
      "read_ptrs w (cif_arg_types c) (length ps) = Some ps"
    and ts: "list_all2 (\<lambda>p t. types w p = Some t \<and> integer_type t) ps ts"
    and regs: "length (cr_gpr regs) = 6" "\<forall>v. cr_sse regs = Some v \<longrightarrow> length v = 128" "cr_args regs = []"
    and top: "512 \<le> unat (stack_top w)" and code: "span (r10 + 32) 24 \<inter> span (stack_top w - 512) 512 = {}"
  shows "\<exists>s avp m. unat (stack_top w) \<le> unat avp + 512 \<and> unat avp + 8 * length ps \<le> unat s \<and> unat s + 40 \<le> unat (stack_top w)
     \<and> span s 40 \<subseteq> dom m \<and> (\<forall>a. a \<notin> span (stack_top w - 512) 512 \<longrightarrow> m a = mem w a)
     \<and> (\<forall>i < length ps. \<exists>v. load m (avp + of_nat (8 * i)) 8 = Some (le_bytes 8 v) \<and> load m v 8 = Some (le_bytes 8 (cr_gpr regs ! i)))
     \<and> closure_entry call (Suc n) sse r10 regs junk w = do {
         w2 \<leftarrow> call fn cif s avp ud (w\<lparr>stack_top := avp, mem := m\<rparr>);
         r \<leftarrow> load_table (cif_flags c) (mem w2) s junk;
         Some (r, w2\<lparr>stack_top := stack_top w\<rparr>) }"
proof -
  define lp where "lp = length ps"
  have lp: "lp \<le> 6" "length ps = lp" using cc(3) by (simp_all add: lp_def)
  obtain argp u1 where a: "alloca 0 w = (argp, u1)" by (cases "alloca 0 w")
  define f where "f = argp - 224"
  obtain ys where fr: "closure_frame sse regs (fresh_bytes u1 f 216) = concat (map (le_bytes 8) (cr_gpr regs)) @ ys" "length ys = 168"
    using closure_frame_split [OF regs(1) regs(2) [rule_format], of "fresh_bytes u1 f 216" sse] by auto
  define m2 where "m2 = map_block f (concat (map (le_bytes 8) (cr_gpr regs)) @ ys) (mem w)"
  obtain avp u2 where v: "alloca (8 * lp) (u1\<lparr>stack_top := argp - 224 - 8, mem := m2\<rparr>) = (avp, u2)"
    by (cases "alloca (8 * lp) (u1\<lparr>stack_top := argp - 224 - 8, mem := m2\<rparr>)")
  note F = closure_frames [OF top lp(1) a v, folded f_def]
  note F1 = conjunct1 [OF F] conjunct1 [OF conjunct2 [OF F]] conjunct1 [OF conjunct2 [OF conjunct2 [OF F]]]
  define vs where "vs = map (\<lambda>i. f + of_nat (8 * i)) [0..<lp]"
  have "\<exists>m. store (map_block avp (fresh_bytes w avp (8 * lp)) m2) avp (concat (map (le_bytes 8) vs)) = Some m
     \<and> (\<forall>a. a \<notin> span (stack_top w - 512) 512 \<longrightarrow> m a = mem w a \<and> m2 a = mem w a) \<and> span (f + 176) 40 \<subseteq> dom m
     \<and> (\<forall>i < lp. \<exists>v. load m (avp + of_nat (8 * i)) 8 = Some (le_bytes 8 v) \<and> load m v 8 = Some (le_bytes 8 (cr_gpr regs ! i)))"
    unfolding m2_def vs_def by (rule argument_memory [OF top F1(3,1,2) regs(1) fr(2) lp(1) length_fresh_bytes])
  then obtain m where m: "store (map_block avp (fresh_bytes w avp (8 * lp)) m2) avp (concat (map (le_bytes 8) vs)) = Some m"
      and same: "\<And>a. a \<notin> span (stack_top w - 512) 512 \<Longrightarrow> m a = mem w a \<and> m2 a = mem w a"
      and dom: "span (f + 176) 40 \<subseteq> dom m"
      and arg: "\<And>i. i < lp \<Longrightarrow> \<exists>v. load m (avp + of_nat (8 * i)) 8 = Some (le_bytes 8 v) \<and> load m v 8 = Some (le_bytes 8 (cr_gpr regs ! i))"
    by blast
  have "m2 a = mem w a" if "a \<in> span (r10 + 32) 24" for a
    using same [of a] code that unfolding disjoint_iff by metis
  then have l: "closure_loads r10 m2 = Some (cif, fn, ud)" using closure_loads_cong [of r10 m2 "mem w"] loads by simp
  have si: "nat (sint (cif_nargs c)) = lp" using cc(2,3) sint_of_nat32 [of "length ps"] by (simp add: lp_def)
  have rp: "read_ptrs u2 = read_ptrs w" using F by (simp add: read_ptrs_def fun_eq_iff)
  have inner: "ffi_closure_unix64_inner (Suc n) c (f + 176) f argp u2 = Some ((vs, f + 176, cif_flags c), u2)"
    unfolding vs_def lp(2) [symmetric] by (rule inner_integers) (use cc ts F rp in simp_all)
  have ci: "closure_inner call (Suc n) cif fn ud (f + 176) f argp (u1\<lparr>stack_top := f - 8, mem := m2\<rparr>)
      = map_option (Pair (cif_flags c)) (call fn cif (f + 176) avp ud (w\<lparr>stack_top := avp, mem := m\<rparr>))"
    using cif F v inner m si
    by (simp add: closure_inner_def cif_at_def f_def map_conv_bind_option comp_def)
  have fm: "map_block f (closure_frame sse regs (fresh_bytes (w\<lparr>stack_top := argp\<rparr>) f 216)) (mem w) = m2"
    using F fr(1) by (simp add: m2_def)
  have ar: "argp - 48 = f + 176" "argp - 232 = f - 8" by (simp_all add: f_def)
  have "closure_entry call (Suc n) sse r10 regs junk w = do {
         w2 \<leftarrow> call fn cif (f + 176) avp ud (w\<lparr>stack_top := avp, mem := m\<rparr>);
         r \<leftarrow> load_table (cif_flags c) (mem w2) (f + 176) junk;
         Some (r, w2\<lparr>stack_top := stack_top w\<rparr>) }"
    using F l ci by (simp add: closure_entry_def do_closure_def a regs(3) f_def [symmetric] ar fm comp_def map_conv_bind_option)
  moreover have "unat (f + 176) = unat f + 176"
    using F1(2) unat_bound [of "stack_top w"] by (subst unat_plus_if') simp
  ultimately show ?thesis using F1 same dom arg
    by (intro exI [of _ "f + 176"] exI [of _ avp] exI [of _ m]) (auto simp: lp_def)
qed

lemma closure_dispatch_integers:
  fixes w :: "'a ctx_world_scheme" and call :: "'a ctx_world_scheme closure_fun"
  assumes ready: "closure_ready (mem w) pc dest cif fn ud" and dest: "dest = at_closure_unix64 lk \<or> dest = at_closure_unix64_sse lk"
    and cif: "cif_at cif w = Some c"
    and cc: "cif_flags c AND UNIX64_FLAG_RET_IN_MEM = 0" "cif_nargs c = of_nat (length ps)" "length ps \<le> 6"
      "read_ptrs w (cif_arg_types c) (length ps) = Some ps"
    and ts: "list_all2 (\<lambda>p t. types w p = Some t \<and> integer_type t) ps ts"
    and regs: "length (cr_gpr regs) = 6" "\<And>v. cr_sse regs = Some v \<Longrightarrow> length v = 128" "cr_args regs = []"
    and top: "512 \<le> unat (stack_top w)" and code: "span pc sizeof_ffi_closure \<inter> span (stack_top w - 512) 512 = {}"
  shows "\<exists>s avp m. unat (stack_top w) \<le> unat avp + 512 \<and> unat avp + 8 * length ps \<le> unat s \<and> unat s + 40 \<le> unat (stack_top w)
     \<and> span s 40 \<subseteq> dom m \<and> (\<forall>a. a \<notin> span (stack_top w - 512) 512 \<longrightarrow> m a = mem w a)
     \<and> (\<forall>i < length ps. \<exists>v. load m (avp + of_nat (8 * i)) 8 = Some (le_bytes 8 v) \<and> load m v 8 = Some (le_bytes 8 (cr_gpr regs ! i)))
     \<and> closure_native lk call (Suc n) junk pc regs w = do {
         w2 \<leftarrow> call fn cif s avp ud (w\<lparr>stack_top := avp, mem := m\<rparr>);
         r \<leftarrow> load_table (cif_flags c) (mem w2) s junk;
         Some (r, w2\<lparr>stack_top := stack_top w\<rparr>) }"
proof -
  have l: "closure_loads pc (mem w) = Some (cif, fn, ud)" using closure_ready_fields [OF ready] by (simp add: closure_loads_def)
  have "span pc 56 = span pc 32 \<union> span (pc + 32) 24" using span_append [of pc 32 24] by simp
  with code have c: "span (pc + 32) 24 \<inter> span (stack_top w - 512) 512 = {}" by blast
  have "closure_native lk call (Suc n) junk pc regs w = closure_entry call (Suc n) (dest \<noteq> at_closure_unix64 lk) pc regs junk w"
    using closure_ready_fields(1) [OF ready] dest by (auto simp: closure_native_def)
  moreover have v: "\<forall>v. cr_sse regs = Some v \<longrightarrow> length v = 128" using regs(2) by blast
  ultimately show ?thesis using closure_entry_integers [OF l cif cc ts regs(1) v regs(3) top c, where sse = "dest \<noteq> at_closure_unix64 lk"] by simp
qed

section \<open>Properties\<close>

text \<open>Claim C29. Calling a closure. Once \<open>ffi_prep_closure_loc\<close> has returned \<open>FFI_OK\<close> for a System V
  interface, a call of the closure's address, from any later state with the closure's 56 bytes and
  the interface as they were left, with the integer and pointer arguments of the interface in
  registers (at most six), calls the closure's function exactly once, with the interface, the user
  data and two pointers: to room for the value, and to an array whose entry \<open>i\<close> points at the
  eight bytes of general register \<open>i\<close>. Memory outside the 512 bytes below the caller's stack is what
  it was. What the function leaves for the value is loaded into the return registers by the
  interface's return code, and the frame is popped.\<close>

theorem closure_call_integers:
  fixes w w0 w1 :: "'a ctx_world_scheme" and call :: "'a ctx_world_scheme closure_fun"
  assumes prep: "ffi_prep_closure_loc lk pc cif fn ud w0 = Some (FFI_OK, w1)"
    and abi: "cif_at cif w0 = Some c" "cif_abi c = FFI_UNIX64"
    and later: "\<And>a. a \<in> span pc sizeof_ffi_closure \<Longrightarrow> mem w a = mem w1 a" "cif_at cif w = cif_at cif w0"
    and cc: "cif_flags c AND UNIX64_FLAG_RET_IN_MEM = 0" "cif_nargs c = of_nat (length ps)" "length ps \<le> 6"
      "read_ptrs w (cif_arg_types c) (length ps) = Some ps"
    and ts: "list_all2 (\<lambda>p t. types w p = Some t \<and> integer_type t) ps ts"
    and regs: "length (cr_gpr regs) = 6" "\<And>v. cr_sse regs = Some v \<Longrightarrow> length v = 128" "cr_args regs = []"
    and top: "512 \<le> unat (stack_top w)" and code: "span pc sizeof_ffi_closure \<inter> span (stack_top w - 512) 512 = {}"
  shows "\<exists>s avp m. unat (stack_top w) \<le> unat avp + 512 \<and> unat avp + 8 * length ps \<le> unat s \<and> unat s + 40 \<le> unat (stack_top w)
     \<and> span s 40 \<subseteq> dom m \<and> (\<forall>a. a \<notin> span (stack_top w - 512) 512 \<longrightarrow> m a = mem w a)
     \<and> (\<forall>i < length ps. \<exists>v. load m (avp + of_nat (8 * i)) 8 = Some (le_bytes 8 v) \<and> load m v 8 = Some (le_bytes 8 (cr_gpr regs ! i)))
     \<and> closure_native lk call (Suc n) junk pc regs w = do {
         w2 \<leftarrow> call fn cif s avp ud (w\<lparr>stack_top := avp, mem := m\<rparr>);
         r \<leftarrow> load_table (cif_flags c) (mem w2) s junk;
         Some (r, w2\<lparr>stack_top := stack_top w\<rparr>) }"
proof (rule closure_dispatch_integers [where dest = "closure_dest lk c"])
  have "ffi_prep_closure_loc lk pc cif fn ud w0 = map_option (Pair FFI_OK) (init_closure pc (closure_dest lk c) cif fn ud w0)"
    using abi by (simp add: ffi_prep_closure_loc_def closure_dest_def map_conv_bind_option comp_def)
  with prep have "init_closure pc (closure_dest lk c) cif fn ud w0 = Some w1" by auto
  then have "closure_ready (mem w1) pc (closure_dest lk c) cif fn ud" using init_closure_ready by blast
  then show "closure_ready (mem w) pc (closure_dest lk c) cif fn ud"
    using closure_ready_cong [of pc "mem w" "mem w1"] later(1) by simp
  show "closure_dest lk c = at_closure_unix64 lk \<or> closure_dest lk c = at_closure_unix64_sse lk"
    using abi by (simp add: closure_dest_def)
  show "cif_at cif w = Some c" using later(2) abi(1) by simp
qed (fact cc ts regs top code)+

text \<open>A closure of a function of an \<open>int\<close> and an unsigned byte that returns nothing.\<close>

definition closure_boot :: ctx_world where
  "closure_boot = (ctx_boot [])\<lparr>ptrs := [0x9100 \<mapsto> [image_symbol ffi_type_sint32, image_symbol ffi_type_uint8]],
     ctxs := [0x9000 \<mapsto> zero_ctx\<lparr>cc_cif := zero_cif\<lparr>cif_abi := FFI_UNIX64, cif_nargs := 2, cif_arg_types := 0x9100,
                                 cif_rtype := image_symbol ffi_type_void\<rparr>\<rparr>],
     mem := map_block 0x10000 (replicate sizeof_ffi_closure 0) Map.empty\<rparr>"

definition zero_regs_ret :: ret_regs where
  "zero_regs_ret = \<lparr>rr_rax = 0, rr_rdx = 0, rr_xmm0 = 0, rr_xmm1 = 0, rr_st0 = [], rr_st1 = []\<rparr>"

definition test_link :: link where
  "test_link = \<lparr>at_closure_unix64 = 0x5000, at_closure_unix64_sse = 0x5100, at_closure_win64 = 0x5200\<rparr>"

theorem closure_call_integers_witness:
  "\<exists>w1 w2. ffi_prep_closure_loc test_link 0x10000 0x9000 0x4000 0x77 closure_boot = Some (FFI_OK, w1)
     \<and> closure_native test_link (\<lambda>fn cif s avp ud w. if fn = 0x4000 \<and> ud = 0x77 then Some w else None) 1 zero_regs_ret
         0x10000 \<lparr>cr_gpr = [5, 6, 0, 0, 0, 0], cr_sse = None, cr_al = 0, cr_r10 = 0, cr_args = []\<rparr> w1
       = Some (zero_regs_ret, w2)"
proof -
  let ?lk = test_link and ?pc = "0x10000 :: addr" and ?cif = "0x9000 :: addr"
  let ?c = "zero_cif\<lparr>cif_abi := FFI_UNIX64, cif_nargs := 2, cif_arg_types := 0x9100, cif_rtype := image_symbol ffi_type_void\<rparr>"
  let ?ps = "[image_symbol ffi_type_sint32, image_symbol ffi_type_uint8]"
  let ?ts = "[builtin_type ffi_type_sint32, builtin_type ffi_type_uint8]"
  let ?regs = "\<lparr>cr_gpr = [5, 6, 0, 0, 0, 0], cr_sse = None, cr_al = 0, cr_r10 = 0, cr_args = []\<rparr> :: call_regs"
  have d: "span ?pc sizeof_ffi_closure \<subseteq> dom (mem closure_boot)" by (simp add: closure_boot_def map_block_dom)
  have c: "cif_at ?cif closure_boot = Some ?c" "cif_abi ?c = FFI_UNIX64" by (simp_all add: cif_at_def closure_boot_def zero_ctx_def)
  obtain m where i: "init_closure ?pc 0x5000 ?cif 0x4000 0x77 closure_boot = Some (closure_boot\<lparr>mem := m\<rparr>)"
    using init_closure_defined [OF d, of "0x5000" ?cif "0x4000" "0x77"] by blast
  let ?w1 = "closure_boot\<lparr>mem := m\<rparr>"
  have prep: "ffi_prep_closure_loc ?lk ?pc ?cif 0x4000 0x77 closure_boot = Some (FFI_OK, ?w1)"
    using c i by (simp add: ffi_prep_closure_loc_def test_link_def zero_cif_def)
  have cc: "cif_flags ?c AND UNIX64_FLAG_RET_IN_MEM = 0" "cif_nargs ?c = of_nat (length ?ps)" "length ?ps \<le> 6"
    "read_ptrs ?w1 (cif_arg_types ?c) (length ?ps) = Some ?ps"
    by (simp_all add: zero_cif_def read_ptrs_def closure_boot_def)
  have ts: "list_all2 (\<lambda>p t. types ?w1 p = Some t \<and> integer_type t) ?ps ?ts"
    by (simp add: closure_boot_def ctx_boot_def integer_type_def is_int32_code_def is_int64_code_def builtin_type.simps FFI_TYPEDEF_def)
  have regs: "length (cr_gpr ?regs) = 6" "\<And>v. cr_sse ?regs = Some v \<Longrightarrow> length v = 128" "cr_args ?regs = []" by simp_all
  have top: "512 \<le> unat (stack_top ?w1)" by (simp add: closure_boot_def ctx_boot_def)
  have code: "span ?pc sizeof_ffi_closure \<inter> span (stack_top ?w1 - 512) 512 = {}"
    by (rule spans_apart) (simp_all add: closure_boot_def ctx_boot_def)
  have l: "cif_at ?cif ?w1 = cif_at ?cif closure_boot" by (simp add: cif_at_def)
  from closure_call_integers [OF prep c _ l cc ts regs top code, where n = 0 and junk = zero_regs_ret
      and call = "\<lambda>fn cif s avp ud w. if fn = 0x4000 \<and> ud = 0x77 then Some w else None"]
  have "\<exists>w2. closure_native ?lk (\<lambda>fn cif s avp ud w. if fn = 0x4000 \<and> ud = 0x77 then Some w else None) (Suc 0) zero_regs_ret
      ?pc ?regs ?w1 = Some (zero_regs_ret, w2)"
    by (auto simp: load_table_def zero_cif_def)
  with prep show ?thesis by auto
qed

end
