(* ===== verification/Jffi_Closure.thy ===== *)
theory Jffi_Closure
  imports Jffi_Pages Ffi_Closure "HOL-Library.Signed_Division"
begin

text \<open>
  \<^verbatim>\<open>jni/jffi/ClosureMagazine.c\<close>, in its branch without \<open>USE_FFI_ALLOC\<close>: a magazine is a page of
  prepared closures that Java takes one by one, each with the object it calls. \<open>closure_invoke\<close> is
  the C function of all of them: it attaches the thread to the virtual machine if it has to, turns
  the native arguments into a Java call and the Java result into native bytes.

  The parts of the virtual machine used here only are a second table of functions; the Java method is
  a parameter from the object, the method and the argument values to the value returned (the bits of
  its \<open>jvalue\<close>) and the state it leaves, with the exception it raised pending.
\<close>

section \<open>Data\<close>

record Magazine =
  mg_callContext :: addr
  mg_methodID :: addr
  mg_jvm :: addr
  mg_code :: addr
  mg_closures :: addr
  mg_nclosures :: jint
  mg_nextclosure :: jint
  mg_callWithPrimitiveParameters :: jint

record Closure =
  cl_code :: addr
  cl_javaObject :: jobject
  cl_magazine :: addr
  cl_pcl :: addr

abbreviation (input) sizeof_Magazine :: size_t where "sizeof_Magazine \<equiv> 56"
abbreviation (input) sizeof_Closure :: size_t where "sizeof_Closure \<equiv> 32"
abbreviation (input) THREAD_ATTACH_THRESHOLD :: int where "THREAD_ATTACH_THRESHOLD \<equiv> 1000"

definition zero_magazine :: Magazine where
  "zero_magazine = \<lparr>mg_callContext = NULL, mg_methodID = NULL, mg_jvm = NULL, mg_code = NULL, mg_closures = NULL,
     mg_nclosures = 0, mg_nextclosure = 0, mg_callWithPrimitiveParameters = 0\<rparr>"

definition zero_closure :: Closure where
  "zero_closure = \<lparr>cl_code = NULL, cl_javaObject = NULL, cl_magazine = NULL, cl_pcl = NULL\<rparr>"

text \<open>\<open>closures\<close> holds each element of a list of closures under its own address.\<close>

record 'j closure_world = "'j jni_world" +
  magazines :: "addr \<rightharpoonup> Magazine"
  closures :: "addr \<rightharpoonup> Closure"

definition closure_at :: "addr \<Rightarrow> nat \<Rightarrow> addr" where
  "closure_at list i = list + of_nat (32 * i)"

record 'j vm =
  NewGlobalRef :: "'j \<Rightarrow> jobject \<Rightarrow> jobject \<times> 'j"
  DeleteGlobalRef :: "'j \<Rightarrow> jobject \<Rightarrow> 'j"
  FromReflectedMethod :: "'j \<Rightarrow> jobject \<Rightarrow> addr"
  GetJavaVM :: "'j \<Rightarrow> addr"
  GetEnv :: "'j \<Rightarrow> addr \<Rightarrow> nat \<Rightarrow> addr"
  AttachCurrentThreadAsDaemon :: "'j \<Rightarrow> addr \<Rightarrow> nat \<Rightarrow> addr \<times> 'j"
  DetachCurrentThread :: "'j \<Rightarrow> addr \<Rightarrow> nat \<Rightarrow> 'j"

type_synonym 'w java_method = "jobject \<Rightarrow> addr \<Rightarrow> u64 list \<Rightarrow> 'w \<Rightarrow> (u64 \<times> 'w) option"

definition write_magazine :: "addr \<Rightarrow> Magazine \<Rightarrow> ('j, 'a) closure_world_scheme \<Rightarrow> ('j, 'a) closure_world_scheme" where
  "write_magazine p mg w = w\<lparr>magazines := (magazines w)(p \<mapsto> mg)\<rparr>"

definition write_closure :: "addr \<Rightarrow> Closure \<Rightarrow> ('j, 'a) closure_world_scheme \<Rightarrow> ('j, 'a) closure_world_scheme" where
  "write_closure p cl w = w\<lparr>closures := (closures w)(p \<mapsto> cl)\<rparr>"

definition list_addrs :: "addr \<Rightarrow> nat \<Rightarrow> addr set" where
  "list_addrs list n = closure_at list ` {..<n}"

section \<open>newClosureMagazine\<close>

text \<open>\<open>closure_invoke\<close> is known to the prepared closures by its address \<open>fn\<close>. \<open>FFI_BAD_ARGTYPE\<close> takes
  the default branch.\<close>

definition closure_prep ::
  "link \<Rightarrow> addr \<Rightarrow> addr \<Rightarrow> addr \<Rightarrow> addr \<Rightarrow> string \<Rightarrow> ('j, 'a) closure_world_scheme
     \<Rightarrow> (bool \<times> string \<times> ('j, 'a) closure_world_scheme) option"
where
  "closure_prep lk fn cif code closure errbuf w = do {
     cl \<leftarrow> closures w closure;
     (status, w1) \<leftarrow> ffi_prep_closure_loc lk (cl_pcl cl) cif fn closure w;
     Some (case status of
             FFI_OK \<Rightarrow> (True, errbuf, w1)
           | FFI_BAD_ABI \<Rightarrow> (False, ''Invalid ABI specified'', w1)
           | FFI_BAD_TYPEDEF \<Rightarrow> (False, ''Invalid argument type specified'', w1)
           | _ \<Rightarrow> (False, ''Unknown FFI error'', w1))
   }"

definition trampolineSize :: nat where
  "trampolineSize = (sizeof_ffi_closure + 7) div 8 * 8"

text \<open>The loop, from closure \<open>i\<close> on with \<open>k\<close> left; \<open>False\<close> is the jump to \<open>error\<close>.\<close>

fun prep_closures ::
  "link \<Rightarrow> addr \<Rightarrow> addr \<Rightarrow> addr \<Rightarrow> addr \<Rightarrow> addr \<Rightarrow> nat \<Rightarrow> nat \<Rightarrow> string \<Rightarrow> ('j, 'a) closure_world_scheme
     \<Rightarrow> (bool \<times> string \<times> ('j, 'a) closure_world_scheme) option"
where
  "prep_closures lk fn cif magazine list code i 0 errmsg w = Some (True, errmsg, w)"
| "prep_closures lk fn cif magazine list code i (Suc k) errmsg w = do {
     cl \<leftarrow> closures w (closure_at list i);
     pc \<leftarrow> Some (code + of_nat (i * trampolineSize));
     w1 \<leftarrow> Some (write_closure (closure_at list i) (cl\<lparr>cl_magazine := magazine, cl_code := pc, cl_pcl := pc\<rparr>) w);
     (ok, errmsg, w2) \<leftarrow> closure_prep lk fn cif pc (closure_at list i) errmsg w1;
     if ok then prep_closures lk fn cif magazine list code (Suc i) k errmsg w2 else Some (False, errmsg, w2)
   }"

definition calloc_magazine :: "('j, 'a) closure_world_scheme \<Rightarrow> (addr \<times> ('j, 'a) closure_world_scheme) option" where
  "calloc_magazine w = do {
     (p, w1) \<leftarrow> calloc 1 sizeof_Magazine w;
     Some (p, if p = NULL then w1 else write_magazine p zero_magazine w1)
   }"

definition calloc_closures :: "jint \<Rightarrow> ('j, 'a) closure_world_scheme \<Rightarrow> (addr \<times> ('j, 'a) closure_world_scheme) option" where
  "calloc_closures n w = do {
     (p, w1) \<leftarrow> calloc (scast n) sizeof_Closure w;
     Some (p, if p = NULL then w1
              else w1\<lparr>closures := (\<lambda>a. if a \<in> list_addrs p (unat n) then Some zero_closure else closures w1 a)\<rparr>)
   }"

definition free_closures :: "addr \<Rightarrow> nat \<Rightarrow> ('j, 'a) closure_world_scheme \<Rightarrow> ('j, 'a) closure_world_scheme option" where
  "free_closures p n w =
     (if p = NULL then Some w
      else map_option (\<lambda>w1. w1\<lparr>closures := closures w1 |` (- list_addrs p n)\<rparr>) (free p w))"

definition free_magazine :: "addr \<Rightarrow> ('j, 'a) closure_world_scheme \<Rightarrow> ('j, 'a) closure_world_scheme option" where
  "free_magazine p w =
     (if p = NULL then Some w
      else map_option (\<lambda>w1. w1\<lparr>magazines := (magazines w1)(p := None)\<rparr>) (free p w))"

text \<open>The code at the label \<open>error\<close>.\<close>

definition magazine_error ::
  "('j, 'a) closure_world_scheme os \<Rightarrow> addr \<Rightarrow> addr \<Rightarrow> nat \<Rightarrow> addr \<Rightarrow> string \<Rightarrow> ('j, 'a) closure_world_scheme
     \<Rightarrow> (jlong \<times> ('j, 'a) closure_world_scheme) option"
where
  "magazine_error os magazine list n code errmsg w = do {
     w1 \<leftarrow> free_closures list n w;
     w2 \<leftarrow> free_magazine magazine w1;
     w3 \<leftarrow> (if code \<noteq> NULL then map_option snd (jffi_freePages os code 1 w2) else Some w2);
     Some (0, throwException Runtime errmsg [] w3)
   }"

text \<open>\<open>strerror\<close> and the initial content \<open>junk\<close> of \<open>errmsg\<close> are parameters; \<open>snprintf\<close> into \<open>errmsg\<close>
  keeps 255 characters.\<close>

definition errno_message :: "(jint \<Rightarrow> string) \<Rightarrow> string \<Rightarrow> 'a thread_world_scheme \<Rightarrow> string" where
  "errno_message strerror what w =
     (let e = errno w (self w)
      in take 255 (vformat (what @ ''. errno=%d (%s)'') [ArgInt e, ArgStr (strerror e)]))"

definition finish_magazine ::
  "'j vm \<Rightarrow> ('j, 'a) closure_world_scheme os \<Rightarrow> jobject \<Rightarrow> jint \<Rightarrow> addr \<Rightarrow> addr \<Rightarrow> jint \<Rightarrow> addr \<Rightarrow> string
     \<Rightarrow> ('j, 'a) closure_world_scheme \<Rightarrow> (jlong \<times> ('j, 'a) closure_world_scheme) option"
where
  "finish_magazine V os closureMethod prim magazine list nclosures code errmsg w = do {
     mg \<leftarrow> magazines w magazine;
     mid \<leftarrow> Some (FromReflectedMethod V (jvm w) closureMethod);
     if mid = NULL
     then magazine_error os magazine list (unat nclosures) code errmsg
            (throwException IllegalArgument ''could not obtain reference to closure method'' [] w)
     else Some (p2j magazine,
       write_magazine magazine (mg\<lparr>mg_methodID := mid, mg_closures := list, mg_nextclosure := 0, mg_nclosures := nclosures,
         mg_code := code, mg_callWithPrimitiveParameters := prim, mg_jvm := GetJavaVM V (jvm w)\<rparr>) w)
   }"

definition newClosureMagazine ::
  "'j vm \<Rightarrow> link \<Rightarrow> addr \<Rightarrow> ('j, 'a) closure_world_scheme os \<Rightarrow> (jint \<Rightarrow> string) \<Rightarrow> string
     \<Rightarrow> jlong \<Rightarrow> jobject \<Rightarrow> jint \<Rightarrow> ('j, 'a) closure_world_scheme \<Rightarrow> (jlong \<times> ('j, 'a) closure_world_scheme) option"
where
  "newClosureMagazine V lk fn os strerror junk ctxAddress closureMethod prim w = do {
     nclosures \<leftarrow> Some (of_int (sint (jffi_getPageSize os) sdiv int trampolineSize) :: jint);
     (magazine, w1) \<leftarrow> calloc_magazine w;
     (list, w2) \<leftarrow> calloc_closures nclosures w1;
     (code, w3) \<leftarrow> Some (jffi_allocatePages os 1 w2);
     if magazine = NULL \<or> list = NULL \<or> code = NULL
     then magazine_error os magazine list (unat nclosures) code (errno_message strerror ''failed to allocate a page'' w3) w3
     else do {
       (ok, errmsg, w4) \<leftarrow> prep_closures lk fn (j2p ctxAddress) magazine list code 0 (nat (sint nclosures)) junk w3;
       if \<not> ok then magazine_error os magazine list (unat nclosures) code errmsg w4
       else do {
         (ok, w5) \<leftarrow> Some (jffi_makePagesExecutable os code 1 w4);
         if \<not> ok
         then magazine_error os magazine list (unat nclosures) code (errno_message strerror ''failed to make page executable'' w5) w5
         else finish_magazine V os closureMethod prim magazine list nclosures code errmsg w5
       }
     }
   }"

section \<open>closureMagazineGet and freeClosureMagazine\<close>

definition closureMagazineGet ::
  "'j vm \<Rightarrow> jlong \<Rightarrow> jobject \<Rightarrow> ('j, 'a) closure_world_scheme \<Rightarrow> (jlong \<times> ('j, 'a) closure_world_scheme) option"
where
  "closureMagazineGet V magAddress closureProxy w = do {
     mg \<leftarrow> magazines w (j2p magAddress);
     if sint (mg_nextclosure mg) < sint (mg_nclosures mg)
     then do {
       h \<leftarrow> Some (closure_at (mg_closures mg) (nat (sint (mg_nextclosure mg))));
       cl \<leftarrow> closures w h;
       (ref, j) \<leftarrow> Some (NewGlobalRef V (jvm w) closureProxy);
       w1 \<leftarrow> Some (write_closure h (cl\<lparr>cl_javaObject := ref\<rparr>) (w\<lparr>jvm := j\<rparr>));
       if ref = NULL then Some (0, throwException IllegalArgument ''could not obtain reference to java object'' [] w1)
       else Some (p2j h, write_magazine (j2p magAddress) (mg\<lparr>mg_nextclosure := mg_nextclosure mg + 1\<rparr>) w1)
     }
     else Some (0, w)
   }"

fun delete_refs :: "'j vm \<Rightarrow> addr \<Rightarrow> nat \<Rightarrow> nat \<Rightarrow> ('j, 'a) closure_world_scheme \<Rightarrow> ('j, 'a) closure_world_scheme option" where
  "delete_refs V list i 0 w = Some w"
| "delete_refs V list i (Suc k) w = do {
     cl \<leftarrow> closures w (closure_at list i);
     delete_refs V list (Suc i) k (w\<lparr>jvm := DeleteGlobalRef V (jvm w) (cl_javaObject cl)\<rparr>)
   }"

definition freeClosureMagazine ::
  "'j vm \<Rightarrow> ('j, 'a) closure_world_scheme os \<Rightarrow> jlong \<Rightarrow> ('j, 'a) closure_world_scheme \<Rightarrow> ('j, 'a) closure_world_scheme option"
where
  "freeClosureMagazine V os magAddress w = do {
     mg \<leftarrow> magazines w (j2p magAddress);
     w1 \<leftarrow> delete_refs V (mg_closures mg) 0 (nat (sint (mg_nextclosure mg))) w;
     w2 \<leftarrow> free_closures (mg_closures mg) (unat (mg_nclosures mg)) w1;
     (_, w3) \<leftarrow> jffi_freePages os (mg_code mg) 1 w2;
     free_magazine (j2p magAddress) w3
   }"

section \<open>closure_invoke\<close>

text \<open>Attaching. \<open>env\<close> and \<open>detach\<close> are the results; a thread that stays without an \<open>env\<close> makes the
  code call through an undetermined pointer.\<close>

definition closure_begin ::
  "'j vm \<Rightarrow> addr \<Rightarrow> ('j, 'a) closure_world_scheme \<Rightarrow> ((addr \<times> bool) \<times> ('j, 'a) closure_world_scheme) option"
where
  "closure_begin V closure w = do {
     cl \<leftarrow> closures w closure;
     mg \<leftarrow> magazines w (cl_magazine cl);
     vm \<leftarrow> Some (mg_jvm mg);
     env0 \<leftarrow> Some (GetEnv V (jvm w) vm (self w));
     (env, detach, w1) \<leftarrow> Some
       (if env0 \<noteq> NULL then (env0, False, w)
        else (let (e, j) = AttachCurrentThreadAsDaemon V (jvm w) vm (self w) in (e, e \<noteq> NULL, w\<lparr>jvm := j\<rparr>)));
     (detach, w4) \<leftarrow>
       (if detach then do {
          (p, w2) \<leftarrow> thread_data_get w1;
          td \<leftarrow> tdata w2 p;
          w3 \<leftarrow> write_td p (\<lambda>td. td\<lparr>td_attach_count := td_attach_count td + 1\<rparr>) w2;
          if THREAD_ATTACH_THRESHOLD \<le> sint (td_attach_count td)
          then do {
            (p, w4) \<leftarrow> thread_data_get w3;
            w5 \<leftarrow> write_td p (\<lambda>td. td\<lparr>td_attached_vm := vm\<rparr>) w4;
            Some (False, w5)
          }
          else Some (True, w3)
        }
        else Some (False, w1));
     if env = NULL then None else Some ((env, detach), w4\<lparr>pending := None\<rparr>)
   }"

definition closure_end ::
  "'j vm \<Rightarrow> addr \<Rightarrow> addr \<Rightarrow> bool \<Rightarrow> ('j, 'a) closure_world_scheme \<Rightarrow> ('j, 'a) closure_world_scheme option"
where
  "closure_end V closure env detach w = do {
     cl \<leftarrow> closures w closure;
     mg \<leftarrow> magazines w (cl_magazine cl);
     vm \<leftarrow> Some (mg_jvm mg);
     (p, w1) \<leftarrow> thread_data_get w;
     td \<leftarrow> tdata w1 p;
     clearException \<leftarrow> Some (detach \<or> td_attached_vm td \<noteq> NULL);
     w2 \<leftarrow> Some (if env \<noteq> NULL \<and> clearException then w1\<lparr>pending := None\<rparr> else w1);
     Some (if detach then w2\<lparr>jvm := DetachCurrentThread V (jvm w2) vm (self w2)\<rparr> else w2)
   }"

text \<open>The C conversion of a \<open>float\<close> or \<open>double\<close>, given by its bits, to a 32-bit \<open>int\<close>: the value without
  its fraction. Values that do not fit are undefined behaviour.\<close>

definition float_to_int :: "nat \<Rightarrow> nat \<Rightarrow> u64 \<Rightarrow> jint option" where
  "float_to_int mant expo x =
     (let e = int (unat (take_bit expo (drop_bit mant x))) - (2 ^ (expo - 1) - 1);
          f = 2 ^ mant + int (unat (take_bit mant x));
          v = (if e < 0 then 0 else f * 2 ^ nat e div 2 ^ mant);
          i = (if bit x (mant + expo) then - v else v)
      in if e < 32 \<and> - (2 ^ 31) \<le> i \<and> i < 2 ^ 31 then Some (of_int i) else None)"

text \<open>One \<open>jvalue\<close>, zeroed first, from the argument at address \<open>a\<close>.\<close>

definition closure_param :: "memory \<Rightarrow> ffi_type \<Rightarrow> addr \<Rightarrow> u64 option" where
  "closure_param m t a =
     (let c = ft_type t; rd = (\<lambda>n. map_option le_word (load m a n))
      in if c = FFI_TYPE_SINT8 \<or> c = FFI_TYPE_UINT8 then rd 1
         else if c = FFI_TYPE_SINT16 \<or> c = FFI_TYPE_UINT16 then rd 2
         else if c = FFI_TYPE_SINT32 \<or> c = FFI_TYPE_UINT32 \<or> c = FFI_TYPE_INT then rd 4
         else if c = FFI_TYPE_SINT64 \<or> c = FFI_TYPE_UINT64 then rd 8
         else if c = FFI_TYPE_FLOAT then map_option ucast (rd 4 \<bind> float_to_int 23 8)
         else if c = FFI_TYPE_DOUBLE then map_option ucast (rd 8 \<bind> float_to_int 52 11)
         else if c = FFI_TYPE_POINTER then map_option (\<lambda>x. if ft_size t = 4 then take_bit 32 x else x) (rd 8)
         else if c = FFI_TYPE_STRUCT \<or> c = FFI_TYPE_LONGDOUBLE then Some a
         else Some 0)"

fun closure_params :: "('j, 'a) closure_world_scheme \<Rightarrow> addr \<Rightarrow> addr list \<Rightarrow> u64 list option" where
  "closure_params w parameters [] = Some []"
| "closure_params w parameters (p # arg_types) = do {
     t \<leftarrow> types w p;
     a \<leftarrow> load (mem w) parameters 8;
     x \<leftarrow> closure_param (mem w) t (le_word a);
     xs \<leftarrow> closure_params w (parameters + 8) arg_types;
     Some (x # xs)
   }"

text \<open>The bytes stored at \<open>retval\<close> for the value \<open>v\<close> of the Java call the return type selects.\<close>

definition closure_result :: "ffi_type \<Rightarrow> u64 \<Rightarrow> byte list" where
  "closure_result t v =
     (let c = ft_type t
      in if c = FFI_TYPE_VOID then le_bytes 8 0
         else if c = FFI_TYPE_SINT8 \<or> c = FFI_TYPE_UINT8 then le_bytes 8 (signed_take_bit 7 v)
         else if c = FFI_TYPE_SINT16 \<or> c = FFI_TYPE_UINT16 then le_bytes 8 (signed_take_bit 15 v)
         else if c = FFI_TYPE_SINT32 \<or> c = FFI_TYPE_INT \<or> c = FFI_TYPE_UINT32 then le_bytes 8 (signed_take_bit 31 v)
         else if c = FFI_TYPE_SINT64 \<or> c = FFI_TYPE_UINT64 then le_bytes 8 v
         else if c = FFI_TYPE_POINTER then le_bytes 8 (if ft_size t = 4 then signed_take_bit 31 v else v)
         else if c = FFI_TYPE_FLOAT then le_bytes 4 v
         else if c = FFI_TYPE_DOUBLE then le_bytes 8 v
         else [])"

definition returns_by_pointer :: "u16 \<Rightarrow> bool" where
  "returns_by_pointer c \<longleftrightarrow> c = FFI_TYPE_STRUCT \<or> c = FFI_TYPE_LONGDOUBLE"

definition has_java_call :: "u16 \<Rightarrow> bool" where
  "has_java_call c \<longleftrightarrow> c \<le> FFI_TYPE_POINTER"

definition invoke_primitive ::
  "('j, 'a) closure_world_scheme java_method \<Rightarrow> ffi_cif \<Rightarrow> ffi_type \<Rightarrow> jobject \<Rightarrow> addr \<Rightarrow> addr \<Rightarrow> addr
     \<Rightarrow> ('j, 'a) closure_world_scheme \<Rightarrow> ('j, 'a) closure_world_scheme option"
where
  "invoke_primitive M cif rtype obj mid retval parameters w = do {
     arg_types \<leftarrow> read_ptrs w (cif_arg_types cif) (nat (sint (cif_nargs cif)));
     jparams \<leftarrow> closure_params w parameters arg_types;
     if has_java_call (ft_type rtype)
     then do {
       (v, w1) \<leftarrow> M obj mid (if returns_by_pointer (ft_type rtype) then jparams @ [p2j retval] else jparams) w;
       m \<leftarrow> store (mem w1) retval (closure_result rtype v);
       Some (w1\<lparr>mem := m\<rparr>)
     }
     else memset retval 0 (unat (ft_size rtype)) w
   }"

definition closure_invoke ::
  "'j vm \<Rightarrow> ('j, 'a) closure_world_scheme java_method \<Rightarrow> addr \<Rightarrow> addr \<Rightarrow> addr \<Rightarrow> addr
     \<Rightarrow> ('j, 'a) closure_world_scheme \<Rightarrow> ('j, 'a) closure_world_scheme option"
where
  "closure_invoke V M cifp retval parameters user_data w = do {
     ((env, detach), w1) \<leftarrow> closure_begin V user_data w;
     cl \<leftarrow> closures w1 user_data;
     mg \<leftarrow> magazines w1 (cl_magazine cl);
     cif \<leftarrow> cif_at cifp w1;
     rtype \<leftarrow> types w1 (cif_rtype cif);
     w2 \<leftarrow> (if mg_callWithPrimitiveParameters mg \<noteq> 0
           then invoke_primitive M cif rtype (cl_javaObject cl) (mg_methodID mg) retval parameters w1
           else map_option snd (M (cl_javaObject cl) (mg_methodID mg) [p2j retval, p2j parameters] w1));
     w3 \<leftarrow> (if raised w2 then memset retval 0 (unat (ft_size rtype)) w2 else Some w2);
     closure_end V user_data env detach w3
   }"

text \<open>The functions closures can have, by address: \<open>closure_invoke\<close> is the only one.\<close>

definition closure_call :: "'j vm \<Rightarrow> ('j, 'a) closure_world_scheme java_method \<Rightarrow> addr \<Rightarrow> ('j, 'a) closure_world_scheme closure_fun" where
  "closure_call V M fn f cifp retval parameters user_data w =
     (if f = fn then closure_invoke V M cifp retval parameters user_data w else None)"

section \<open>The closures of a magazine\<close>

lemma trampolineSize [simp]: "trampolineSize = 56"
  by (simp add: trampolineSize_def)

lemma closure_at_inj:
  assumes "closure_at list i = closure_at list j" and "i < 2 ^ 58" and "j < 2 ^ 58" shows "i = j"
proof -
  have "unat (of_nat (32 * i) :: addr) = 32 * i" "unat (of_nat (32 * j) :: addr) = 32 * j"
    by (rule unat_of_nat64, use assms(2,3) in simp)+
  then show ?thesis using assms(1) unfolding closure_at_def add_left_cancel by (metis mult_cancel1 zero_neq_numeral)
qed

text \<open>Closure \<open>i\<close> of the magazine is prepared: it knows its code and its magazine, and the code runs
  \<open>fn\<close> with the interface \<open>cif\<close> and the closure as user data.\<close>

definition slot_ok :: "('j, 'a) closure_world_scheme \<Rightarrow> addr \<Rightarrow> addr \<Rightarrow> addr \<Rightarrow> addr \<Rightarrow> addr \<Rightarrow> addr \<Rightarrow> nat \<Rightarrow> bool" where
  "slot_ok w dest fn cif magazine list code i \<longleftrightarrow>
     (\<exists>cl. closures w (closure_at list i) = Some cl \<and> cl_magazine cl = magazine
        \<and> cl_code cl = code + of_nat (i * 56) \<and> closure_ready (mem w) (cl_code cl) dest cif fn (closure_at list i))"

lemma page_slots_apart:
  assumes "i < j" and "j < 2 ^ 58"
  shows "span (code + of_nat (i * 56) :: addr) 56 \<inter> span (code + of_nat (j * 56)) 56 = {}"
proof -
  have "i * 56 + 56 * (j - i) = j * 56" using assms(1) by (simp add: algebra_simps)
  then have e: "code + of_nat (j * 56) = (code + of_nat (i * 56) :: addr) + of_nat (56 * (j - i))"
    by (simp only: add.assoc of_nat_add [symmetric])
  show ?thesis unfolding e by (rule span_apart) (use assms in simp_all)
qed

lemma page_slot:
  assumes "i \<le> j" and "j < i + k"
  shows "span (code + of_nat (j * 56) :: addr) 56 \<subseteq> span (code + of_nat (i * 56)) (k * 56)"
proof -
  obtain d where d: "j = i + d" using assms(1) le_Suc_ex by blast
  then obtain r where r: "k = d + (1 + r)" using assms(2) by (metis add_less_cancel_left less_imp_Suc_add plus_1_eq_Suc add.assoc add.commute)
  have e: "code + of_nat (j * 56) = (code + of_nat (i * 56) :: addr) + of_nat (d * 56)"
    by (simp add: d algebra_simps)
  have "k * 56 = d * 56 + (56 + r * 56)" by (simp add: r)
  then show ?thesis unfolding e by (simp only: span_append) blast
qed

lemma init_closure_dom: "init_closure p d cif fn u w = Some w' \<Longrightarrow> dom (mem w') = dom (mem w)"
  by (clarsimp simp only: init_closure_bytes map_option_eq_Some) (drule store_dom, simp)

definition abi_known :: "ffi_cif \<Rightarrow> bool" where
  "abi_known c \<longleftrightarrow> cif_abi c = FFI_UNIX64 \<or> cif_abi c = FFI_EFI64 \<or> cif_abi c = FFI_GNUW64"

lemma closure_prep_run:
  assumes "closures w h = Some cl" and "cif_at cif w = Some c" and "span (cl_pcl cl) 56 \<subseteq> dom (mem w)"
  shows "\<exists>ok msg' m. closure_prep lk fn cif code h msg w = Some (ok, msg', w\<lparr>mem := m\<rparr>)
     \<and> (\<forall>a. a \<notin> span (cl_pcl cl) 56 \<longrightarrow> m a = mem w a) \<and> dom m = dom (mem w)
     \<and> (ok \<longrightarrow> closure_ready m (cl_pcl cl) (closure_dest lk c) cif fn h) \<and> ok = abi_known c"
proof -
  have same: "w = w\<lparr>mem := mem w\<rparr>" by simp
  have init: "\<exists>m. init_closure (cl_pcl cl) dest cif fn h w = Some (w\<lparr>mem := m\<rparr>)
     \<and> (\<forall>a. a \<notin> span (cl_pcl cl) 56 \<longrightarrow> m a = mem w a) \<and> dom m = dom (mem w)
     \<and> closure_ready m (cl_pcl cl) dest cif fn h" for dest
  proof -
    obtain m where m: "init_closure (cl_pcl cl) dest cif fn h w = Some (w\<lparr>mem := m\<rparr>)"
      using init_closure_defined [OF assms(3)] by blast
    then have "dom m = dom (mem w)" using init_closure_dom by fastforce
    with m init_closure_ready [OF m] show ?thesis by auto
  qed
  show ?thesis
  proof (cases "abi_known c")
    case True
    then have "ffi_prep_closure_loc lk (cl_pcl cl) cif fn h w
        = map_option (\<lambda>w1. (FFI_OK, w1)) (init_closure (cl_pcl cl) (closure_dest lk c) cif fn h w)"
      using assms(2) by (auto simp: closure_dest_def abi_known_def ffi_prep_closure_loc_def ffi_prep_closure_loc_efi64_def map_conv_bind_option comp_def)
    moreover obtain m where "init_closure (cl_pcl cl) (closure_dest lk c) cif fn h w = Some (w\<lparr>mem := m\<rparr>)"
      "\<forall>a. a \<notin> span (cl_pcl cl) 56 \<longrightarrow> m a = mem w a" "dom m = dom (mem w)" "closure_ready m (cl_pcl cl) (closure_dest lk c) cif fn h"
      using init [of "closure_dest lk c"] by blast
    ultimately show ?thesis using assms(1)
      by (intro exI [of _ True] exI [of _ msg] exI [of _ m]) (auto simp: closure_prep_def True)
  next
    case False
    then have "ffi_prep_closure_loc lk (cl_pcl cl) cif fn h w = Some (FFI_BAD_ABI, w)"
      using assms(2) by (simp add: abi_known_def ffi_prep_closure_loc_def)
    with False assms(1) show ?thesis
      by (intro exI [of _ False] exI [of _ "''Invalid ABI specified''"] exI [of _ "mem w"]) (simp add: closure_prep_def)
  qed
qed

lemma prep_closures_run:
  assumes "\<And>j. i \<le> j \<Longrightarrow> j < i + k \<Longrightarrow> closures w (closure_at list j) \<noteq> None"
    and "cif_at cif w = Some c" and "span (code + of_nat (i * 56)) (k * 56) \<subseteq> dom (mem w)" and "i + k < 2 ^ 58"
  shows "\<exists>ok msg' m cs. prep_closures lk fn cif magazine list code i k msg w = Some (ok, msg', w\<lparr>mem := m, closures := cs\<rparr>)
     \<and> (\<forall>a. a \<notin> span (code + of_nat (i * 56)) (k * 56) \<longrightarrow> m a = mem w a) \<and> dom m = dom (mem w)
     \<and> (\<forall>a. a \<notin> closure_at list ` {i..<i + k} \<longrightarrow> cs a = closures w a) \<and> dom cs = dom (closures w)
     \<and> (ok \<longrightarrow> (\<forall>j. i \<le> j \<and> j < i + k \<longrightarrow> slot_ok (w\<lparr>mem := m, closures := cs\<rparr>) (closure_dest lk c) fn cif magazine list code j))
     \<and> (abi_known c \<longrightarrow> ok)"
  using assms
proof (induction k arbitrary: i w msg)
  case 0
  have "w = w\<lparr>mem := mem w, closures := closures w\<rparr>" by simp
  then show ?case by (intro exI [of _ True] exI [of _ msg] exI [of _ "mem w"] exI [of _ "closures w"]) auto
next
  case (Suc k)
  define h pc where "h = closure_at list i" and "pc = code + of_nat (i * 56)"
  obtain cl where cl: "closures w h = Some cl" using Suc.prems(1) [of i] by (auto simp: h_def)
  define cl' where "cl' = cl\<lparr>cl_magazine := magazine, cl_code := pc, cl_pcl := pc\<rparr>"
  define w1 where "w1 = write_closure h cl' w"
  have w1: "closures w1 h = Some cl'" "mem w1 = mem w" "cif_at cif w1 = Some c" "cl_pcl cl' = pc"
    "closures w1 = (closures w)(h \<mapsto> cl')"
    using Suc.prems(2) by (simp_all add: w1_def write_closure_def cif_at_def cl'_def)
  have sl: "span pc 56 \<subseteq> span pc (Suc k * 56)" by (rule span_mono) simp
  obtain ok msg1 m where p: "closure_prep lk fn cif pc h msg w1 = Some (ok, msg1, w1\<lparr>mem := m\<rparr>)"
    and m: "\<forall>a. a \<notin> span pc 56 \<longrightarrow> m a = mem w a" "dom m = dom (mem w)"
    and r: "ok \<longrightarrow> closure_ready m pc (closure_dest lk c) cif fn h" and ak: "ok = abi_known c"
    using closure_prep_run [OF w1(1,3), of lk fn pc msg, unfolded w1(2,4), OF subset_trans [OF sl Suc.prems(3) [folded pc_def]]] by blast
  have dc: "dom (closures w1) = dom (closures w)" using cl by (auto simp: w1(5))
  have oc: "closures w1 a = closures w a" if "a \<notin> closure_at list ` {i..<i + Suc k}" for a
    using that by (auto simp: w1(5) h_def)
  show ?case
  proof (cases ok)
    case False
    have e: "prep_closures lk fn cif magazine list code i (Suc k) msg w = Some (False, msg1, w1\<lparr>mem := m\<rparr>)"
      using cl p False by (simp add: h_def pc_def w1_def cl'_def)
    have "w1\<lparr>mem := m\<rparr> = w\<lparr>mem := m, closures := closures w1\<rparr>" by (simp add: w1_def write_closure_def)
    then show ?thesis using e m dc oc sl ak False
      by (intro exI [of _ False] exI [of _ msg1] exI [of _ m] exI [of _ "closures w1"]) (auto simp: pc_def)
  next
    case True
    let ?w2 = "w1\<lparr>mem := m\<rparr>"
    have s2: "span (code + of_nat (Suc i * 56)) (k * 56) \<subseteq> span pc (Suc k * 56)"
      using span_append [of pc 56 "k * 56"] by (auto simp: pc_def algebra_simps)
    obtain ok2 msg2 m2 cs where q: "prep_closures lk fn cif magazine list code (Suc i) k msg1 ?w2
        = Some (ok2, msg2, ?w2\<lparr>mem := m2, closures := cs\<rparr>)"
      and m2: "\<forall>a. a \<notin> span (code + of_nat (Suc i * 56)) (k * 56) \<longrightarrow> m2 a = m a" "dom m2 = dom m"
      and c2: "\<forall>a. a \<notin> closure_at list ` {Suc i..<Suc i + k} \<longrightarrow> cs a = closures w1 a" "dom cs = dom (closures w1)"
      and ok2: "ok2 \<longrightarrow> (\<forall>j. Suc i \<le> j \<and> j < Suc i + k \<longrightarrow> slot_ok (?w2\<lparr>mem := m2, closures := cs\<rparr>) (closure_dest lk c) fn cif magazine list code j)"
      and ak2: "abi_known c \<longrightarrow> ok2"
    proof -
      have "\<exists>ok2 msg2 m2 cs. prep_closures lk fn cif magazine list code (Suc i) k msg1 ?w2
          = Some (ok2, msg2, ?w2\<lparr>mem := m2, closures := cs\<rparr>)
        \<and> (\<forall>a. a \<notin> span (code + of_nat (Suc i * 56)) (k * 56) \<longrightarrow> m2 a = mem ?w2 a) \<and> dom m2 = dom (mem ?w2)
        \<and> (\<forall>a. a \<notin> closure_at list ` {Suc i..<Suc i + k} \<longrightarrow> cs a = closures ?w2 a) \<and> dom cs = dom (closures ?w2)
        \<and> (ok2 \<longrightarrow> (\<forall>j. Suc i \<le> j \<and> j < Suc i + k \<longrightarrow> slot_ok (?w2\<lparr>mem := m2, closures := cs\<rparr>) (closure_dest lk c) fn cif magazine list code j))
        \<and> (abi_known c \<longrightarrow> ok2)"
        by (rule Suc.IH) (use Suc.prems s2 w1(3,5) m(2) in \<open>auto simp: cif_at_def pc_def\<close>)
      then show thesis using that by auto
    qed
    have res: "prep_closures lk fn cif magazine list code i (Suc k) msg w = Some (ok2, msg2, w\<lparr>mem := m2, closures := cs\<rparr>)"
      using cl p True q by (simp add: h_def pc_def w1_def cl'_def write_closure_def)
    have ap: "span pc 56 \<inter> span (code + of_nat (Suc i * 56)) (k * 56) = {}"
      using span_apart [of 56 56 "k * 56" pc] Suc.prems(4) by (simp add: pc_def algebra_simps)
    have hn: "h \<notin> closure_at list ` {Suc i..<Suc i + k}"
      using closure_at_inj [of list i] Suc.prems(4) by (force simp: h_def)
    have "slot_ok (w\<lparr>mem := m2, closures := cs\<rparr>) (closure_dest lk c) fn cif magazine list code i"
    proof -
      from r True have d: "closure_ready m pc (closure_dest lk c) cif fn h" by blast
      have "m2 a = m a" if "a \<in> span pc 56" for a using m2(1) ap that by blast
      then have "closure_ready m2 pc (closure_dest lk c) cif fn h" using closure_ready_cong [of pc m2 m] d by metis
      moreover have "cs h = Some cl'" using c2(1) hn w1(1) by metis
      ultimately show ?thesis by (auto simp: slot_ok_def h_def pc_def cl'_def)
    qed
    then have sl2: "slot_ok (w\<lparr>mem := m2, closures := cs\<rparr>) (closure_dest lk c) fn cif magazine list code j"
      if "ok2" "i \<le> j" "j < i + Suc k" for j
      using ok2 that by (cases "j = i") (auto simp: slot_ok_def)
    have f1: "m2 a = mem w a" if "a \<notin> span pc (Suc k * 56)" for a
      using m(1) [rule_format, of a] m2(1) [rule_format, of a] subsetD [OF sl, of a] subsetD [OF s2, of a] that by metis
    have f2: "cs a = closures w a" if "a \<notin> closure_at list ` {i..<i + Suc k}" for a
    proof -
      have "{Suc i..<Suc i + k} \<subseteq> {i..<i + Suc k}" by auto
      then have "a \<notin> closure_at list ` {Suc i..<Suc i + k}" using that image_mono by blast
      then show ?thesis using c2(1) oc [OF that] by simp
    qed
    have dm: "dom m2 = dom (mem w)" "dom cs = dom (closures w)"
      using m(2) m2(2) c2(2) dc by (simp_all only: update_convs select_convs)
    show ?thesis
    proof (intro exI conjI)
      show "prep_closures lk fn cif magazine list code i (Suc k) msg w = Some (ok2, msg2, w\<lparr>mem := m2, closures := cs\<rparr>)"
        by (rule res)
    qed (use f1 f2 sl2 ak2 in \<open>auto simp only: pc_def dm\<close>)
  qed
qed

section \<open>Building and freeing a magazine\<close>

text \<open>What the code relies on of the system: a private anonymous mapping is a new range of zero bytes,
  \<open>munmap\<close> of a mapped range removes it, and the three calls change nothing else but \<open>errno\<close>.\<close>

definition posix :: "'a thread_world_scheme os \<Rightarrow> bool" where
  "posix os \<longleftrightarrow>
     (\<forall>n w p w'. sys_mmap os NULL n (PROT_READ OR PROT_WRITE) (MAP_ANON OR MAP_PRIVATE) (- 1) 0 w = (p, w') \<longrightarrow>
        (p = MAP_FAILED \<longrightarrow> (\<exists>e. w' = w\<lparr>errno := e\<rparr>))
        \<and> (p \<noteq> MAP_FAILED \<longrightarrow> p \<noteq> NULL \<and> span p (unat n) \<inter> dom (mem w) = {} \<and> unat p + unat n \<le> 2 ^ 64
             \<and> (\<exists>e. w' = w\<lparr>mem := map_block p (replicate (unat n) 0) (mem w), errno := e\<rparr>)))
   \<and> (\<forall>p n w. span p (unat n) \<subseteq> dom (mem w) \<longrightarrow>
        (\<exists>r e. sys_munmap os p n w = Some (r, w\<lparr>mem := unmap p (unat n) (mem w), errno := e\<rparr>)))
   \<and> (\<forall>p n prot w. \<exists>r e. sys_mprotect os p n prot w = (r, w\<lparr>errno := e\<rparr>))"

lemma heap_ok_fields [simp]:
  "heap_ok (w\<lparr>mem := m\<rparr>) = heap_ok w" "heap_ok (w\<lparr>errno := e\<rparr>) = heap_ok w" "heap_ok (w\<lparr>magazines := ms\<rparr>) = heap_ok w"
  "heap_ok (w\<lparr>closures := cs\<rparr>) = heap_ok w" "heap_ok (w\<lparr>jvm := j\<rparr>) = heap_ok w"
  by (simp_all add: heap_ok_def)

lemma allocate_page:
  assumes "posix os" and "jffi_allocatePages os 1 w = (p, w')"
  shows "(p = NULL \<longrightarrow> (\<exists>e. w' = w\<lparr>errno := e\<rparr>))
     \<and> (p \<noteq> NULL \<longrightarrow> span p (unat (page_bytes os 1)) \<inter> dom (mem w) = {}
          \<and> (\<exists>e. w' = w\<lparr>mem := map_block p (replicate (unat (page_bytes os 1)) 0) (mem w), errno := e\<rparr>))"
  using assms unfolding posix_def jffi_allocatePages_def by (auto simp: Let_def split: prod.splits if_splits)

lemma free_page:
  "posix os \<Longrightarrow> span p (unat (page_bytes os 1)) \<subseteq> dom (mem w) \<Longrightarrow>
     \<exists>r e. jffi_freePages os p 1 w = Some (r, w\<lparr>mem := unmap p (unat (page_bytes os 1)) (mem w), errno := e\<rparr>)"
proof -
  assume "posix os" and "span p (unat (page_bytes os 1)) \<subseteq> dom (mem w)"
  then obtain r e where "sys_munmap os p (page_bytes os 1) w = Some (r, w\<lparr>mem := unmap p (unat (page_bytes os 1)) (mem w), errno := e\<rparr>)"
    unfolding posix_def by blast
  then have "jffi_freePages os p 1 w = Some (r = 0, w\<lparr>mem := unmap p (unat (page_bytes os 1)) (mem w), errno := e\<rparr>)"
    by (simp add: jffi_freePages_def)
  then show ?thesis by blast
qed

lemma protect_page: "posix os \<Longrightarrow> \<exists>r e. jffi_makePagesExecutable os p 1 w = (r, w\<lparr>errno := e\<rparr>)"
proof -
  assume "posix os"
  then obtain r e where "sys_mprotect os p (page_bytes os 1) (PROT_READ OR PROT_EXEC) w = (r, w\<lparr>errno := e\<rparr>)"
    unfolding posix_def by blast
  then have "jffi_makePagesExecutable os p 1 w = (r = 0, w\<lparr>errno := e\<rparr>)" by (simp add: jffi_makePagesExecutable_def)
  then show ?thesis by blast
qed

lemma calloc_magazine_spec:
  assumes "heap_ok w" and "calloc_magazine w = Some (p, w')"
  shows "heap_ok w' \<and> blocks w' = blocks w \<union> ({p} - {NULL}) \<and> p \<notin> blocks w
     \<and> (p \<noteq> NULL \<longrightarrow> magazines w' p = Some zero_magazine)
     \<and> (\<exists>sc lv ms. w' = w\<lparr>script := sc, live := lv, magazines := ms\<rparr>)"
proof -
  obtain w1 where c: "calloc 1 sizeof_Magazine w = Some (p, w1)"
    and w': "w' = (if p = NULL then w1 else write_magazine p zero_magazine w1)"
    using assms(2) by (auto simp: calloc_magazine_def split: bind_splits)
  note ok = calloc_ok [OF assms(1) c] zeroing.request_fresh [OF assms(1) c] zeroing.null_not_held [OF assms(1)]
  show ?thesis using c
  proof (cases rule: calloc_cases)
    case (fail sc)
    have "w' = w\<lparr>script := sc, live := live w, magazines := magazines w\<rparr>" using fail w' by simp
    then have "\<exists>sc lv ms. w' = w\<lparr>script := sc, live := lv, magazines := ms\<rparr>" by blast
    with fail ok w' show ?thesis by simp
  next
    case (block sc)
    with ok w' show ?thesis by (auto simp: write_magazine_def)
  qed
qed

lemma calloc_closures_spec:
  assumes "heap_ok w" and "calloc_closures n w = Some (p, w')"
  shows "heap_ok w' \<and> blocks w' = blocks w \<union> ({p} - {NULL}) \<and> p \<notin> blocks w
     \<and> (p \<noteq> NULL \<longrightarrow> (\<forall>i < unat n. closures w' (closure_at p i) \<noteq> None))
     \<and> (\<exists>sc lv cs. w' = w\<lparr>script := sc, live := lv, closures := cs\<rparr>)"
proof -
  obtain w1 where c: "calloc (scast n) sizeof_Closure w = Some (p, w1)"
    and w': "w' = (if p = NULL then w1
       else w1\<lparr>closures := (\<lambda>a. if a \<in> list_addrs p (unat n) then Some zero_closure else closures w1 a)\<rparr>)"
    using assms(2) by (auto simp: calloc_closures_def split: bind_splits)
  note ok = calloc_ok [OF assms(1) c] zeroing.request_fresh [OF assms(1) c] zeroing.null_not_held [OF assms(1)]
  show ?thesis using c
  proof (cases rule: calloc_cases)
    case (fail sc)
    have "w' = w\<lparr>script := sc, live := live w, closures := closures w\<rparr>" using fail w' by simp
    then have "\<exists>sc lv cs. w' = w\<lparr>script := sc, live := lv, closures := cs\<rparr>" by blast
    with fail ok w' show ?thesis by simp
  next
    case (block sc)
    with ok w' show ?thesis by (auto simp: list_addrs_def)
  qed
qed

lemma free_closures_spec:
  assumes "list \<noteq> NULL \<Longrightarrow> list \<in> blocks w"
  shows "\<exists>w'. free_closures list n w = Some w' \<and> blocks w' = blocks w - ({list} - {NULL}) \<and> mem w' = mem w \<and> jvm w' = jvm w
     \<and> magazines w' = magazines w"
  using assms by (auto simp: free_closures_def free_def)

lemma free_magazine_spec:
  assumes "p \<noteq> NULL \<Longrightarrow> p \<in> blocks w"
  shows "\<exists>w'. free_magazine p w = Some w' \<and> blocks w' = blocks w - ({p} - {NULL}) \<and> mem w' = mem w \<and> jvm w' = jvm w"
  using assms by (auto simp: free_magazine_def free_def)

lemma magazine_error_spec:
  assumes "posix os" and "list \<noteq> NULL \<Longrightarrow> list \<in> blocks w" and "magazine \<noteq> NULL \<Longrightarrow> magazine \<in> blocks w \<and> magazine \<noteq> list"
    and "code \<noteq> NULL \<Longrightarrow> span code (unat (page_bytes os 1)) \<subseteq> dom (mem w)"
  shows "\<exists>w'. magazine_error os magazine list n code msg w = Some (0, w') \<and> raised w'
     \<and> blocks w' = blocks w - ({list, magazine} - {NULL})
     \<and> mem w' = (if code = NULL then mem w else unmap code (unat (page_bytes os 1)) (mem w))"
proof -
  obtain w1 where w1: "free_closures list n w = Some w1" "blocks w1 = blocks w - ({list} - {NULL})" "mem w1 = mem w"
    using free_closures_spec [OF assms(2)] by blast
  have "magazine \<noteq> NULL \<Longrightarrow> magazine \<in> blocks w1" using assms(3) w1(2) by blast
  from free_magazine_spec [OF this] obtain w2
    where w2: "free_magazine magazine w1 = Some w2" "blocks w2 = blocks w1 - ({magazine} - {NULL})" "mem w2 = mem w" using w1(3) by auto
  obtain w3 where w3: "(if code \<noteq> NULL then map_option snd (jffi_freePages os code 1 w2) else Some w2) = Some w3"
    "blocks w3 = blocks w2" "mem w3 = (if code = NULL then mem w else unmap code (unat (page_bytes os 1)) (mem w))"
  proof (cases "code = NULL")
    case False
    with free_page [OF assms(1), of code w2] assms(4) w2(3) obtain r e
      where "jffi_freePages os code 1 w2 = Some (r, w2\<lparr>mem := unmap code (unat (page_bytes os 1)) (mem w2), errno := e\<rparr>)"
      by auto
    with False w2(3) show thesis
      by (intro that [of "w2\<lparr>mem := unmap code (unat (page_bytes os 1)) (mem w2), errno := e\<rparr>"]) simp_all
  qed (use w2 that in simp)
  have "magazine_error os magazine list n code msg w = Some (0, throwException Runtime msg [] w3)"
    using w1(1) w2(1) w3(1) by (simp add: magazine_error_def)
  moreover have "blocks w3 = blocks w - ({list, magazine} - {NULL})"
    unfolding w3(2) w2(2) w1(2) by blast
  moreover have "mem (throwException Runtime msg [] w3) = mem w3"
    by (simp add: throwException_def throwExceptionByName_def Let_def)
  ultimately show ?thesis using w3(3) by auto
qed

text \<open>A magazine in order: its two blocks and its page are there, every closure of the page is prepared,
  and those handed out have their Java object.\<close>

definition magazine_ok ::
  "('j, 'a) closure_world_scheme os \<Rightarrow> addr \<Rightarrow> addr \<Rightarrow> addr \<Rightarrow> addr \<Rightarrow> ('j, 'a) closure_world_scheme \<Rightarrow> bool"
where
  "magazine_ok os dest fn cif h w \<longleftrightarrow> (\<exists>mg. magazines w h = Some mg
     \<and> 0 \<le> sint (mg_nextclosure mg) \<and> sint (mg_nextclosure mg) \<le> sint (mg_nclosures mg)
     \<and> {h, mg_closures mg} \<subseteq> blocks w \<and> h \<noteq> mg_closures mg \<and> h \<noteq> NULL \<and> mg_closures mg \<noteq> NULL \<and> mg_code mg \<noteq> NULL
     \<and> span (mg_code mg) (unat (page_bytes os 1)) \<subseteq> dom (mem w)
     \<and> nat (sint (mg_nclosures mg)) * 56 \<le> unat (page_bytes os 1)
     \<and> (\<forall>i < nat (sint (mg_nclosures mg)). slot_ok w dest fn cif h (mg_closures mg) (mg_code mg) i)
     \<and> (\<forall>i < nat (sint (mg_nextclosure mg)). \<exists>cl. closures w (closure_at (mg_closures mg) i) = Some cl \<and> cl_javaObject cl \<noteq> NULL))"

lemma slot_ok_cong:
  assumes "closures w' (closure_at list i) = closures w (closure_at list i)"
    and "\<And>a. a \<in> span (code + of_nat (i * 56)) sizeof_ffi_closure \<Longrightarrow> mem w' a = mem w a"
  shows "slot_ok w' dest fn cif magazine list code i = slot_ok w dest fn cif magazine list code i"
  unfolding slot_ok_def assms(1) using closure_ready_cong [of "code + of_nat (i * 56)" "mem w'" "mem w", OF assms(2)]
  by metis

text \<open>The Java objects of the closures handed out, in order.\<close>

definition held_refs :: "('j, 'a) closure_world_scheme \<Rightarrow> addr \<Rightarrow> nat \<Rightarrow> jobject list" where
  "held_refs w list n = map (\<lambda>i. cl_javaObject (the (closures w (closure_at list i)))) [0..<n]"

lemma delete_refs_run:
  assumes "\<And>j. i \<le> j \<Longrightarrow> j < i + k \<Longrightarrow> closures w (closure_at list j) \<noteq> None"
  shows "delete_refs V list i k w
     = Some (w\<lparr>jvm := fold (\<lambda>x j. DeleteGlobalRef V j x) (map (\<lambda>i. cl_javaObject (the (closures w (closure_at list i)))) [i..<i + k]) (jvm w)\<rparr>)"
  using assms
proof (induction k arbitrary: i w)
  case (Suc k)
  then obtain cl where cl: "closures w (closure_at list i) = Some cl" by force
  let ?u = "w\<lparr>jvm := DeleteGlobalRef V (jvm w) (cl_javaObject cl)\<rparr>"
  have "delete_refs V list (Suc i) k ?u
     = Some (?u\<lparr>jvm := fold (\<lambda>x j. DeleteGlobalRef V j x) (map (\<lambda>i. cl_javaObject (the (closures ?u (closure_at list i)))) [Suc i..<Suc i + k]) (jvm ?u)\<rparr>)"
    by (rule Suc.IH) (use Suc.prems in simp)
  moreover have "[i..<i + Suc k] = i # [Suc i..<Suc i + k]" by (simp add: upt_conv_Cons del: upt_Suc)
  ultimately show ?case using cl by (simp del: upt_Suc)
qed simp

lemma freeClosureMagazine_spec:
  assumes os: "posix os" and ok: "magazine_ok os dest fn cif h w" and mg: "magazines w h = Some mg"
  shows "\<exists>w'. freeClosureMagazine V os (p2j h) w = Some w' \<and> blocks w' = blocks w - {h, mg_closures mg}
     \<and> mem w' = unmap (mg_code mg) (unat (page_bytes os 1)) (mem w)
     \<and> jvm w' = fold (\<lambda>x j. DeleteGlobalRef V j x) (held_refs w (mg_closures mg) (nat (sint (mg_nextclosure mg)))) (jvm w)"
proof -
  let ?list = "mg_closures mg" and ?next = "nat (sint (mg_nextclosure mg))" and ?code = "mg_code mg"
  have m: "{h, ?list} \<subseteq> blocks w" "h \<noteq> ?list" "h \<noteq> NULL" "?list \<noteq> NULL" "span ?code (unat (page_bytes os 1)) \<subseteq> dom (mem w)"
    "\<And>i. i < ?next \<Longrightarrow> closures w (closure_at ?list i) \<noteq> None"
    using ok mg by (auto simp: magazine_ok_def)
  define w1 where "w1 = w\<lparr>jvm := fold (\<lambda>x j. DeleteGlobalRef V j x) (held_refs w ?list ?next) (jvm w)\<rparr>"
  have d: "delete_refs V ?list 0 ?next w = Some w1"
    using delete_refs_run [of 0 ?next w ?list V] m(6) by (simp add: w1_def held_refs_def)
  have lb: "?list \<in> blocks w1" using m(1) by (simp add: w1_def)
  obtain w2 where w2: "free_closures ?list (unat (mg_nclosures mg)) w1 = Some w2" "blocks w2 = blocks w1 - ({?list} - {NULL})"
    "mem w2 = mem w1" "jvm w2 = jvm w1"
    using free_closures_spec [OF lb, of "unat (mg_nclosures mg)"] by blast
  obtain r e where f: "jffi_freePages os ?code 1 w2 = Some (r, w2\<lparr>mem := unmap ?code (unat (page_bytes os 1)) (mem w2), errno := e\<rparr>)"
    using free_page [OF os, of ?code w2] m(5) w2(3) by (auto simp: w1_def)
  let ?w3 = "w2\<lparr>mem := unmap ?code (unat (page_bytes os 1)) (mem w2), errno := e\<rparr>"
  have "h \<in> blocks ?w3" using m(1,2) w2(2) by (simp add: w1_def)
  then obtain w4 where w4: "free_magazine h ?w3 = Some w4" "blocks w4 = blocks ?w3 - ({h} - {NULL})" "mem w4 = mem ?w3" "jvm w4 = jvm ?w3"
    using free_magazine_spec [of h ?w3] by blast
  have "freeClosureMagazine V os (p2j h) w = Some w4"
    using mg d w2(1) f w4(1) by (simp add: freeClosureMagazine_def)
  moreover have "blocks w4 = blocks w - {h, ?list}" using w4(2) w2(2) m(3,4) by (auto simp: w1_def)
  ultimately show ?thesis using w4(3,4) w2(3,4) by (simp add: w1_def)
qed

lemma page_bytes_1: "0 < sint (sys_pagesize os) \<Longrightarrow> unat (page_bytes os 1) = nat (sint (sys_pagesize os))"
proof -
  assume p: "0 < sint (sys_pagesize os)"
  define k where "k = nat (sint (sys_pagesize os))"
  have "sint (sys_pagesize os) < 2 ^ 31" using sint_lt [of "sys_pagesize os"] by simp
  then have k: "k < 2 ^ 31" "sint (sys_pagesize os) = int k" using p by (simp_all add: k_def)
  have "(of_int (sint (sys_pagesize os)) :: jint) = sys_pagesize os" by simp
  then have "sys_pagesize os = of_nat k" unfolding k(2) by simp
  then have "page_bytes os 1 = of_nat k" using k(1) by (simp add: page_bytes_def jffi_getPageSize_def scast_of_nat32)
  then have "unat (page_bytes os 1) = k" using unat_of_nat64 [of k] k(1) by simp
  then show ?thesis by (simp add: k_def)
qed

definition page_closures :: "'w os \<Rightarrow> nat" where
  "page_closures os = nat (sint (sys_pagesize os)) div 56"

lemma nclosures:
  assumes "0 < sint (sys_pagesize os)"
  defines "n \<equiv> of_int (sint (sys_pagesize os) sdiv 56) :: jint"
  shows "sint n = int (page_closures os)" and "unat n = page_closures os" and "page_closures os < 2 ^ 26"
    and "page_closures os * 56 \<le> nat (sint (sys_pagesize os))"
proof -
  have b: "sint (sys_pagesize os) < 2 ^ 31" using sint_lt [of "sys_pagesize os"] by simp
  have q: "sint (sys_pagesize os) sdiv 56 = int (page_closures os)"
    using assms(1) by (simp add: signed_divide_int_def page_closures_def zdiv_int)
  show l: "page_closures os < 2 ^ 26" using b by (simp add: page_closures_def nat_less_iff div_less_iff_less_mult)
  then show "sint n = int (page_closures os)" and "unat n = page_closures os"
    unfolding n_def q by (simp_all add: unat_of_nat32 sint_of_nat32)
  show "page_closures os * 56 \<le> nat (sint (sys_pagesize os))" by (simp add: page_closures_def)
qed

lemma unmap_new_page:
  assumes "span p n \<inter> dom m0 = {}" and "\<And>a. a \<notin> span p n \<Longrightarrow> m a = map_block p (replicate n 0) m0 a"
  shows "unmap p n m = m0"
proof -
  have "unmap p n m = unmap p n (map_block p (replicate n 0) m0)" by (rule unmap_cong) (rule assms(2))
  also have "\<dots> = m0" using unmap_map_block [of p "replicate n 0" m0] assms(1) by simp
  finally show ?thesis .
qed

lemma calloc_magazine_total: "\<exists>p w'. calloc_magazine w = Some (p, w')"
  using calloc_total [of 1 sizeof_Magazine w] by (auto simp: calloc_magazine_def)

lemma calloc_closures_total: "\<exists>p w'. calloc_closures n w = Some (p, w')"
  using calloc_total [of "scast n" sizeof_Closure w] by (auto simp: calloc_closures_def)

lemma finish_magazine_ok:
  assumes os: "posix os" and mg: "magazines u mag = Some mg0" "{mag, list} \<subseteq> blocks u" "mag \<noteq> list" "mag \<noteq> NULL" "list \<noteq> NULL" "code \<noteq> NULL"
    and page: "span code (unat (page_bytes os 1)) \<subseteq> dom (mem u)" and n: "0 \<le> sint n" "nat (sint n) * 56 \<le> unat (page_bytes os 1)"
    and slots: "\<And>i. i < nat (sint n) \<Longrightarrow> slot_ok u dest fn cif mag list code i"
    and mid: "FromReflectedMethod V (jvm u) method_object \<noteq> NULL"
  shows "\<exists>w'. finish_magazine V os method_object prim mag list n code msg u = Some (p2j mag, w')
     \<and> magazine_ok os dest fn cif mag w' \<and> pending w' = pending u \<and> blocks w' = blocks u
     \<and> (\<exists>mg. magazines w' mag = Some mg \<and> mg_nextclosure mg = 0 \<and> mg_nclosures mg = n)
     \<and> (\<exists>w''. freeClosureMagazine V os (p2j mag) w' = Some w'' \<and> blocks w'' = blocks u - {mag, list}
          \<and> mem w'' = unmap code (unat (page_bytes os 1)) (mem u) \<and> jvm w'' = jvm w')"
proof -
  let ?mg = "mg0\<lparr>mg_methodID := FromReflectedMethod V (jvm u) method_object, mg_closures := list, mg_nextclosure := 0,
     mg_nclosures := n, mg_code := code, mg_callWithPrimitiveParameters := prim, mg_jvm := GetJavaVM V (jvm u)\<rparr>"
  let ?w = "write_magazine mag ?mg u"
  have run: "finish_magazine V os method_object prim mag list n code msg u = Some (p2j mag, ?w)"
    using mg(1) mid by (simp add: finish_magazine_def)
  have g: "magazines ?w mag = Some ?mg" and f: "mem ?w = mem u" "blocks ?w = blocks u" "pending ?w = pending u"
    by (simp_all add: write_magazine_def)
  have "slot_ok ?w dest fn cif mag list code i" if "i < nat (sint n)" for i
    using slots [OF that] by (simp add: slot_ok_def write_magazine_def)
  then have ok: "magazine_ok os dest fn cif mag ?w"
    using g mg page n by (simp add: magazine_ok_def f)
  show ?thesis using run ok g f freeClosureMagazine_spec [OF os ok g, of V] by (auto simp: held_refs_def)
qed

lemma throw_pending_only: "throwException e f a w = w\<lparr>pending := pending (throwException e f a w)\<rparr>"
  by (simp add: throwException_def throwExceptionByName_def Let_def)

lemma newClosureMagazine_run:
  fixes w :: "('j, 'a) closure_world_scheme"
  assumes os: "posix os" "0 < sint (sys_pagesize os)" and heap: "heap_ok w" and ctx: "cif_at (j2p ctx) w = Some c"
  shows "\<exists>h w'. newClosureMagazine V lk fn os strerror junk ctx method_object prim w = Some (h, w')
     \<and> (h = 0 \<longrightarrow> raised w' \<and> blocks w' = blocks w \<and> mem w' = mem w)
     \<and> (h \<noteq> 0 \<longrightarrow> magazine_ok os (closure_dest lk c) fn (j2p ctx) (j2p h) w' \<and> pending w' = pending w \<and> blocks w \<subset> blocks w'
          \<and> (\<exists>mg. magazines w' (j2p h) = Some mg \<and> mg_nextclosure mg = 0 \<and> sint (mg_nclosures mg) = sint (sys_pagesize os) div 56)
          \<and> (\<exists>w''. freeClosureMagazine V os h w' = Some w'' \<and> blocks w'' = blocks w \<and> mem w'' = mem w \<and> jvm w'' = jvm w'))"
proof -
  define pb where "pb = unat (page_bytes os 1)"
  define n where "n = (of_int (sint (sys_pagesize os) sdiv 56) :: jint)"
  define k where "k = page_closures os"
  note N = nclosures [OF os(2), folded n_def k_def] and PB = page_bytes_1 [OF os(2), folded pb_def]
  obtain mag w1 where w1: "calloc_magazine w = Some (mag, w1)" using calloc_magazine_total by blast
  note A = calloc_magazine_spec [OF heap w1]
  obtain list w2 where w2: "calloc_closures n w1 = Some (list, w2)" using calloc_closures_total by blast
  have B: "blocks w2 = blocks w1 \<union> ({list} - {NULL})" "list \<notin> blocks w1"
    "list \<noteq> NULL \<Longrightarrow> i < unat n \<Longrightarrow> closures w2 (closure_at list i) \<noteq> None" "\<exists>sc lv cs. w2 = w1\<lparr>script := sc, live := lv, closures := cs\<rparr>" for i
    using calloc_closures_spec [OF conjunct1 [OF A] w2] by blast+
  obtain code w3 where w3: "jffi_allocatePages os 1 w2 = (code, w3)" by (cases "jffi_allocatePages os 1 w2")
  note C = allocate_page [OF os(1) w3, folded pb_def]
  have b2: "blocks w2 - ({list, mag} - {NULL}) = blocks w" "mag \<noteq> NULL \<Longrightarrow> mag \<in> blocks w2 \<and> mag \<noteq> list"
    "list \<noteq> NULL \<Longrightarrow> list \<in> blocks w2"
    using A B(1,2) by auto
  have f2: "mem w2 = mem w" "ctxs w2 = ctxs w" "pending w2 = pending w" "mag \<noteq> NULL \<Longrightarrow> magazines w2 mag = Some zero_magazine"
    "jvm w2 = jvm w"
    using A B(4) by auto
  have f3: "blocks w3 = blocks w2" "ctxs w3 = ctxs w" "pending w3 = pending w" "magazines w3 = magazines w2" "closures w3 = closures w2" "jvm w3 = jvm w"
    using C f2 by (cases "code = NULL"; auto)+
  have d3: "span code pb \<subseteq> dom (mem w3)" if "code \<noteq> NULL"
  proof -
    from that C have "mem w3 = map_block code (replicate pb 0) (mem w2)" by auto
    then show ?thesis by (simp add: map_block_dom)
  qed
  have err: "\<exists>w'. magazine_error os mag list i code msg u = Some (0, w') \<and> raised w' \<and> blocks w' = blocks w \<and> mem w' = mem w"
    if u: "blocks u = blocks w3" "dom (mem u) = dom (mem w3)" "\<And>a. a \<notin> span code pb \<Longrightarrow> mem u a = mem w3 a" "code = NULL \<Longrightarrow> mem u = mem w3"
    for i msg u
  proof -
    have "code \<noteq> NULL \<Longrightarrow> span code (unat (page_bytes os 1)) \<subseteq> dom (mem u)"
      using d3 u(2) by (simp add: pb_def)
    with b2 u(1) f3(1) obtain w' where w': "magazine_error os mag list i code msg u = Some (0, w')" "raised w'"
      "blocks w' = blocks w" "mem w' = (if code = NULL then mem u else unmap code pb (mem u))"
      using magazine_error_spec [OF os(1), of list u mag code i msg] by (auto simp: pb_def)
    have "mem w' = mem w"
    proof (cases "code = NULL")
      case True with w'(4) u(4) C f2(1) show ?thesis by auto
    next
      case False
      with C f2(1) have "mem w3 = map_block code (replicate pb 0) (mem w)" "span code pb \<inter> dom (mem w) = {}" by auto
      with False w'(4) u(3) show ?thesis using unmap_new_page [of code pb "mem w" "mem u"] by simp
    qed
    with w' show ?thesis by blast
  qed
  show ?thesis
  proof (cases "mag = NULL \<or> list = NULL \<or> code = NULL")
    case True
    from err [of w3] obtain w' where e: "magazine_error os mag list (unat n) code (errno_message strerror ''failed to allocate a page'' w3) w3 = Some (0, w')"
      "raised w'" "blocks w' = blocks w" "mem w' = mem w" by blast
    have "newClosureMagazine V lk fn os strerror junk ctx method_object prim w = Some (0, w')"
      using w1 w2 w3 True e(1) by (simp add: newClosureMagazine_def jffi_getPageSize_def n_def)
    with e show ?thesis by blast
  next
    case False
    have cif3: "cif_at (j2p ctx) w3 = Some c" using ctx f3(2) by (simp add: cif_at_def)
    have sp: "span (code + of_nat (0 * 56)) (k * 56) \<subseteq> dom (mem w3)"
      using d3 False span_mono [of "k * 56" pb code] N(4) PB by auto
    have cl3: "closures w3 (closure_at list j) \<noteq> None" if "j < 0 + k" for j
      using that B(3) False N(2) by (simp add: f3(5))
    obtain ok msg m cs where p: "prep_closures lk fn (j2p ctx) mag list code 0 k junk w3 = Some (ok, msg, w3\<lparr>mem := m, closures := cs\<rparr>)"
      and m: "\<And>a. a \<notin> span code (k * 56) \<Longrightarrow> m a = mem w3 a" "dom m = dom (mem w3)"
      and slots: "\<And>j. ok \<Longrightarrow> j < k \<Longrightarrow> slot_ok (w3\<lparr>mem := m, closures := cs\<rparr>) (closure_dest lk c) fn (j2p ctx) mag list code j"
      using prep_closures_run [OF cl3 cif3 sp, of lk fn mag junk] N(3) by auto
    define w4 where "w4 = w3\<lparr>mem := m, closures := cs\<rparr>"
    have m4: "mem w4 a = mem w3 a" if "a \<notin> span code pb" for a
      using m(1) that span_mono [of "k * 56" pb code] N(4) PB by (auto simp: w4_def)
    have err4: "\<exists>w'. magazine_error os mag list i code msg (w4\<lparr>errno := e, pending := x\<rparr>) = Some (0, w')
        \<and> raised w' \<and> blocks w' = blocks w \<and> mem w' = mem w" for i msg e x
      by (rule err) (use m4 m(2) False in \<open>auto simp: w4_def\<close>)
    have nk: "nat (sint n) = k" using N(1) by simp
    have run: "newClosureMagazine V lk fn os strerror junk ctx method_object prim w =
        (if \<not> ok then magazine_error os mag list (unat n) code msg w4
         else do {
           (ok, w5) \<leftarrow> Some (jffi_makePagesExecutable os code 1 w4);
           if \<not> ok
           then magazine_error os mag list (unat n) code (errno_message strerror ''failed to make page executable'' w5) w5
           else finish_magazine V os method_object prim mag list n code msg w5
         })"
      using w1 w2 w3 p False by (simp add: newClosureMagazine_def jffi_getPageSize_def n_def [symmetric] nk w4_def [symmetric])
    have w4: "w4 = w4\<lparr>errno := errno w4, pending := pending w4\<rparr>" by simp
    obtain r e where pe: "jffi_makePagesExecutable os code 1 w4 = (r, w4\<lparr>errno := e\<rparr>)" using protect_page [OF os(1)] by blast
    have w5: "w4\<lparr>errno := e\<rparr> = w4\<lparr>errno := e, pending := pending w4\<rparr>" by simp
    define mid where "mid = FromReflectedMethod V (jvm w4) method_object"
    show ?thesis
    proof (cases "ok \<and> r \<and> mid \<noteq> NULL")
      case bad: False
      let ?x = "pending (throwException IllegalArgument ''could not obtain reference to closure method'' [] (w4\<lparr>errno := e\<rparr>))"
      have f: "finish_magazine V os method_object prim mag list n code msg (w4\<lparr>errno := e\<rparr>)
          = magazine_error os mag list (unat n) code msg (w4\<lparr>errno := e, pending := ?x\<rparr>)" if "mid = NULL"
      proof -
        have "magazines w4 mag = Some zero_magazine" using f2(4) f3(4) False by (simp add: w4_def)
        with that throw_pending_only [of IllegalArgument "''could not obtain reference to closure method''" "[]" "w4\<lparr>errno := e\<rparr>"]
        show ?thesis by (simp add: finish_magazine_def mid_def)
      qed
      consider "\<not> ok" | "ok" "\<not> r" | "ok" r "mid = NULL" using bad by blast
      then have "\<exists>i msg e x. newClosureMagazine V lk fn os strerror junk ctx method_object prim w
          = magazine_error os mag list i code msg (w4\<lparr>errno := e, pending := x\<rparr>)"
        by cases (unfold run pe, simp_all add: f, metis w4, metis w5, blast)
      then obtain i msg e x where "newClosureMagazine V lk fn os strerror junk ctx method_object prim w
          = magazine_error os mag list i code msg (w4\<lparr>errno := e, pending := x\<rparr>)" by blast
      with err4 [where i = i and msg = msg and e = e and x = x] show ?thesis by auto
    next
      case good: True
      have g: "magazines (w4\<lparr>errno := e\<rparr>) mag = Some zero_magazine" "{mag, list} \<subseteq> blocks (w4\<lparr>errno := e\<rparr>)" "mag \<noteq> list"
          "mag \<noteq> NULL" "list \<noteq> NULL" "code \<noteq> NULL"
        using f2(4) f3(1,4) b2(2,3) False by (auto simp: w4_def)
      have page: "span code (unat (page_bytes os 1)) \<subseteq> dom (mem (w4\<lparr>errno := e\<rparr>))"
        using d3 False m(2) by (simp add: w4_def pb_def)
      have sl: "slot_ok (w4\<lparr>errno := e\<rparr>) (closure_dest lk c) fn (j2p ctx) mag list code i" if "i < nat (sint n)" for i
        using slots [of i] that good nk by (simp add: w4_def slot_ok_def)
      have mid: "FromReflectedMethod V (jvm (w4\<lparr>errno := e\<rparr>)) method_object \<noteq> NULL" using good by (simp add: mid_def)
      have n0: "0 \<le> sint n" "nat (sint n) * 56 \<le> unat (page_bytes os 1)" using N(1,4) PB by (simp_all add: pb_def)
      have un: "unmap code (unat (page_bytes os 1)) (mem w4) = mem w"
        using C False f2(1) m4 unmap_new_page [of code pb "mem w" "mem w4"] by (auto simp: pb_def)
      have bl: "blocks w4 - {mag, list} = blocks w" "pending w4 = pending w"
        using b2(1) f3(1,3) False by (auto simp: w4_def)
      have e: "newClosureMagazine V lk fn os strerror junk ctx method_object prim w
          = finish_magazine V os method_object prim mag list n code msg (w4\<lparr>errno := e\<rparr>)"
        using run pe good by simp
      obtain w' where w': "finish_magazine V os method_object prim mag list n code msg (w4\<lparr>errno := e\<rparr>) = Some (p2j mag, w')"
        "magazine_ok os (closure_dest lk c) fn (j2p ctx) mag w'" "pending w' = pending w" "blocks w' = blocks w4"
        "\<exists>mg. magazines w' mag = Some mg \<and> mg_nextclosure mg = 0 \<and> mg_nclosures mg = n"
        "\<exists>w''. freeClosureMagazine V os (p2j mag) w' = Some w'' \<and> blocks w'' = blocks w \<and> mem w'' = mem w \<and> jvm w'' = jvm w'"
        using finish_magazine_ok [OF os(1) g page n0 sl mid, where prim = prim and msg = msg] un bl by auto
      have "sint n = sint (sys_pagesize os) div 56"
        using N(1) os(2) by (simp add: k_def page_closures_def zdiv_int)
      moreover have "mag \<in> blocks w4" using g(2) by simp
      then have "blocks w \<subset> blocks w'" unfolding w'(4) bl(1) [symmetric] by blast
      moreover have "j2p (p2j mag) = mag" "p2j mag \<noteq> 0" using False by simp_all
      ultimately show ?thesis unfolding e using w' by auto
    qed
  qed
qed

section \<open>Properties\<close>

text \<open>Claim C30. \<open>newClosureMagazine\<close> returns, whatever the allocator and the system answer. If it
  returns 0, an exception is pending, no block and no page it asked for is left, and memory is what
  it was. Otherwise the magazine is in order, with as many prepared closures as trampolines of 56
  bytes fit the page and none of them handed out, and \<open>freeClosureMagazine\<close> gives both blocks and the
  page back.\<close>

theorem newClosureMagazine_releases_all:
  fixes w :: "('j, 'a) closure_world_scheme"
  assumes os: "posix os" "0 < sint (sys_pagesize os)" and heap: "heap_ok w" and ctx: "cif_at (j2p ctx) w = Some c"
  shows "\<exists>h w'. newClosureMagazine V lk fn os strerror junk ctx method_object prim w = Some (h, w')
     \<and> (h = 0 \<longrightarrow> raised w' \<and> blocks w' = blocks w \<and> mem w' = mem w)
     \<and> (h \<noteq> 0 \<longrightarrow> magazine_ok os (closure_dest lk c) fn (j2p ctx) (j2p h) w' \<and> pending w' = pending w \<and> blocks w \<subset> blocks w'
          \<and> (\<exists>mg. magazines w' (j2p h) = Some mg \<and> mg_nextclosure mg = 0 \<and> sint (mg_nclosures mg) = sint (sys_pagesize os) div 56)
          \<and> (\<exists>w''. freeClosureMagazine V os h w' = Some w'' \<and> blocks w'' = blocks w \<and> mem w'' = mem w \<and> jvm w'' = jvm w'))"
  using newClosureMagazine_run [OF assms] by blast

text \<open>A system that gives one range, and a world with one call context of one integer parameter.\<close>

definition page_free :: "memory \<Rightarrow> size_t \<Rightarrow> bool" where
  "page_free m n \<longleftrightarrow> unat n \<le> 4096 \<and> list_all (\<lambda>i. m (0x10000 + of_nat i) = None) [0..<unat n]"

definition one_page_os :: "('j, 'a) closure_world_scheme os" where
  "one_page_os = \<lparr>sys_pagesize = 4096,
     sys_mmap = (\<lambda>_ n _ _ _ _ w.
       if page_free (mem w) n
       then (0x10000, w\<lparr>mem := map_block 0x10000 (replicate (unat n) 0) (mem w)\<rparr>) else (MAP_FAILED, w)),
     sys_munmap = (\<lambda>p n w. Some (0, w\<lparr>mem := unmap p (unat n) (mem w)\<rparr>)),
     sys_mprotect = (\<lambda>_ _ _ w. (0, w))\<rparr>"

lemma one_page_posix: "posix one_page_os"
  unfolding posix_def
proof (intro conjI allI impI)
  fix n w p w'
  assume "sys_mmap one_page_os NULL n (PROT_READ OR PROT_WRITE) (MAP_ANON OR MAP_PRIVATE) (- 1) 0 w = (p, w')"
  then consider "p = MAP_FAILED" "w' = w"
    | "p = 0x10000" "page_free (mem w) n" "w' = w\<lparr>mem := map_block 0x10000 (replicate (unat n) 0) (mem w)\<rparr>"
    by (auto simp: one_page_os_def split: if_splits)
  note c = this
  show "\<exists>e. w' = w\<lparr>errno := e\<rparr>" if "p = MAP_FAILED"
  proof (rule exI [of _ "errno w"])
    from c that have "w' = w" by auto
    then show "w' = w\<lparr>errno := errno w\<rparr>" by simp
  qed
  assume "p \<noteq> MAP_FAILED"
  with c have p: "p = 0x10000" "page_free (mem w) n" and w': "w' = w\<lparr>mem := map_block p (replicate (unat n) 0) (mem w)\<rparr>" by auto
  then show "p \<noteq> NULL" "unat p + unat n \<le> 2 ^ 64" by (simp_all add: page_free_def)
  show "span p (unat n) \<inter> dom (mem w) = {}" using p by (auto simp: page_free_def span_iff list_all_iff)
  show "\<exists>e. w' = w\<lparr>mem := map_block p (replicate (unat n) 0) (mem w), errno := e\<rparr>"
    unfolding w' by (rule exI [of _ "errno w"]) simp
next
  fix p n and w :: "('a, 'b) closure_world_scheme"
  show "\<exists>r e. sys_munmap one_page_os p n w = Some (r, w\<lparr>mem := unmap p (unat n) (mem w), errno := e\<rparr>)"
    by (intro exI [of _ 0] exI [of _ "errno w"]) (simp add: one_page_os_def)
next
  fix p n prot and w :: "('a, 'b) closure_world_scheme"
  show "\<exists>r e. sys_mprotect one_page_os p n prot w = (r, w\<lparr>errno := e\<rparr>)"
    by (intro exI [of _ 0] exI [of _ "errno w"]) (simp add: one_page_os_def)
qed

definition no_vm :: "unit vm" where
  "no_vm = \<lparr>NewGlobalRef = (\<lambda>j x. (x, j)), DeleteGlobalRef = (\<lambda>j x. j), FromReflectedMethod = (\<lambda>j x. x), GetJavaVM = (\<lambda>j. 0x700),
     GetEnv = (\<lambda>j v t. if t = 1 then 0x800 else NULL), AttachCurrentThreadAsDaemon = (\<lambda>j v t. (0x900, j)), DetachCurrentThread = (\<lambda>j v t. j)\<rparr>"

definition boot_cif :: ffi_cif where
  "boot_cif = zero_cif\<lparr>cif_abi := FFI_UNIX64, cif_nargs := 1, cif_arg_types := 0x9100,
     cif_rtype := image_symbol ffi_type_sint32, cif_flags := UNIX64_RET_SINT32\<rparr>"

definition magazine_boot :: "addr list \<Rightarrow> unit closure_world" where
  "magazine_boot sc = \<lparr>script = sc, live = [0x2000 \<mapsto> 24], find_class = (\<lambda>_. True), pending = None,
     types = image_types, ptrs = [0x9100 \<mapsto> [image_symbol ffi_type_sint32]], symbol = image_symbol,
     mem = Map.empty, stack_top = 0x7fff0000, garbage = (\<lambda>_. 0xCC), stale = (\<lambda>_. 0xDEAD),
     ctxs = [0x9000 \<mapsto> zero_ctx\<lparr>cc_cif := boot_cif\<rparr>],
     ints = Map.empty, self = 1, specific = (\<lambda>_. NULL)(1 := 0x2000), tdata = [0x2000 \<mapsto> zero_td], errno = (\<lambda>_. 0),
     jvm = (), magazines = Map.empty, closures = Map.empty\<rparr>"

lemma magazine_boot_ok:
  "distinct (filter (\<lambda>p. p \<noteq> NULL) sc) \<Longrightarrow> 0x2000 \<notin> set sc \<Longrightarrow> heap_ok (magazine_boot sc)"
  by (auto simp: heap_ok_def magazine_boot_def)

theorem newClosureMagazine_releases_all_witness:
  "\<exists>h w'. newClosureMagazine no_vm test_link 0x4000 one_page_os (\<lambda>_. ''error'') [] 0x9000 0x5000 1 (magazine_boot [0x3000, 0x4000]) = Some (h, w')
     \<and> (h = 0 \<longrightarrow> raised w' \<and> dom (live w') = {0x2000})
     \<and> (h \<noteq> 0 \<longrightarrow> (\<exists>w''. freeClosureMagazine no_vm one_page_os h w' = Some w'' \<and> dom (live w'') = {0x2000}))"
proof -
  have h: "heap_ok (magazine_boot [0x3000, 0x4000])" by (rule magazine_boot_ok) simp_all
  obtain c where c: "cif_at (j2p 0x9000) (magazine_boot [0x3000, 0x4000]) = Some c"
    by (simp add: cif_at_def magazine_boot_def j2p_def)
  have ps: "0 < sint (sys_pagesize one_page_os)" by (simp add: one_page_os_def)
  have b: "dom (live (magazine_boot [0x3000, 0x4000])) = {0x2000}" by (simp add: magazine_boot_def)
  from newClosureMagazine_releases_all [OF one_page_posix ps h c, where V = no_vm and lk = test_link and fn = "0x4000"
      and strerror = "\<lambda>_. ''error''" and junk = "[]" and method_object = "0x5000" and prim = 1, unfolded b]
  show ?thesis by metis
qed

section \<open>The life of a magazine\<close>

text \<open>One \<open>closureMagazineGet\<close> on a magazine in order.\<close>

lemma jint_succ: "0 \<le> sint (x :: jint) \<Longrightarrow> sint x < sint (y :: jint) \<Longrightarrow> sint (x + 1) = sint x + 1"
  using sint_plus1 [of x] sint_jint_lt [of y] by linarith

lemma closureMagazineGet_spec:
  fixes V :: "'j vm" and w :: "('j, 'a) closure_world_scheme" and obj :: jobject
  assumes ok: "magazine_ok os dest fn cif h w" and mg: "magazines w h = Some mg"
  defines "i \<equiv> nat (sint (mg_nextclosure mg))"
    and "ref \<equiv> fst (NewGlobalRef V (jvm w) obj)" and "j \<equiv> snd (NewGlobalRef V (jvm w) obj)"
  shows "\<exists>r w'. closureMagazineGet V (p2j h) obj w = Some (r, w') \<and> magazine_ok os dest fn cif h w'
     \<and> (sint (mg_nextclosure mg) = sint (mg_nclosures mg) \<longrightarrow> r = 0 \<and> w' = w)
     \<and> (sint (mg_nextclosure mg) < sint (mg_nclosures mg) \<longrightarrow> jvm w' = j
          \<and> (ref = NULL \<longrightarrow> r = 0 \<and> raised w' \<and> magazines w' = magazines w)
          \<and> (ref \<noteq> NULL \<longrightarrow> r = p2j (closure_at (mg_closures mg) i) \<and> pending w' = pending w
               \<and> magazines w' = (magazines w)(h \<mapsto> mg\<lparr>mg_nextclosure := mg_nextclosure mg + 1\<rparr>)
               \<and> (\<exists>cl. closures w (closure_at (mg_closures mg) i) = Some cl
                    \<and> closures w' = (closures w)(closure_at (mg_closures mg) i \<mapsto> cl\<lparr>cl_javaObject := ref\<rparr>))))"
proof (cases "sint (mg_nextclosure mg) < sint (mg_nclosures mg)")
  case False
  with mg ok show ?thesis by (auto simp: closureMagazineGet_def magazine_ok_def)
next
  case True
  let ?h = "closure_at (mg_closures mg) i"
  have M: "0 \<le> sint (mg_nextclosure mg)" "\<And>k. k < nat (sint (mg_nclosures mg)) \<Longrightarrow> slot_ok w dest fn cif h (mg_closures mg) (mg_code mg) k"
    "\<And>k. k < i \<Longrightarrow> \<exists>cl. closures w (closure_at (mg_closures mg) k) = Some cl \<and> cl_javaObject cl \<noteq> NULL"
    "{h, mg_closures mg} \<subseteq> blocks w" "h \<noteq> mg_closures mg" "h \<noteq> NULL" "mg_closures mg \<noteq> NULL" "mg_code mg \<noteq> NULL"
    "span (mg_code mg) (unat (page_bytes os 1)) \<subseteq> dom (mem w)" "nat (sint (mg_nclosures mg)) * 56 \<le> unat (page_bytes os 1)"
    using ok mg by (auto simp: magazine_ok_def i_def)
  have "sint (mg_nclosures mg) < 2 ^ 31" by (rule sint_jint_lt)
  then have b: "nat (sint (mg_nclosures mg)) < 2 ^ 31" by simp
  have i: "i < nat (sint (mg_nclosures mg))" using True M(1) by (simp add: i_def)
  from M(2) [OF i] obtain cl where cl: "closures w ?h = Some cl" by (auto simp: slot_ok_def)
  have apart: "closure_at (mg_closures mg) k \<noteq> ?h" if "k < nat (sint (mg_nclosures mg))" "k \<noteq> i" for k
  proof -
    have "k < 2 ^ 58" "i < 2 ^ 58" using that i b by simp_all
    with that(2) show ?thesis using closure_at_inj by blast
  qed
  define w1 where "w1 = write_closure ?h (cl\<lparr>cl_javaObject := ref\<rparr>) (w\<lparr>jvm := j\<rparr>)"
  have w1: "mem w1 = mem w" "magazines w1 = magazines w" "blocks w1 = blocks w" "jvm w1 = j" "pending w1 = pending w"
    "closures w1 = (closures w)(?h \<mapsto> cl\<lparr>cl_javaObject := ref\<rparr>)"
    by (simp_all add: w1_def write_closure_def)
  have sl: "slot_ok w1 dest fn cif h (mg_closures mg) (mg_code mg) k" if "k < nat (sint (mg_nclosures mg))" for k
    using M(2) [OF that] apart [OF that] cl by (cases "k = i") (auto simp: slot_ok_def w1)
  have held: "\<exists>cl. closures w1 (closure_at (mg_closures mg) k) = Some cl \<and> cl_javaObject cl \<noteq> NULL" if "k < i" for k
    using M(3) [OF that] apart [of k] that i by (auto simp: w1)
  show ?thesis
  proof (cases "ref = NULL")
    case null: True
    let ?u = "throwException IllegalArgument ''could not obtain reference to java object'' [] w1"
    have "closureMagazineGet V (p2j h) obj w = Some (0, ?u)"
      using mg True null cl by (simp add: closureMagazineGet_def i_def [symmetric] w1_def ref_def j_def case_prod_unfold)
    moreover have u: "magazines ?u = magazines w" "closures ?u = closures w1" "mem ?u = mem w" "jvm ?u = j"
      by (simp_all add: throwException_def throwExceptionByName_def Let_def w1)
    have su: "slot_ok ?u dest fn cif h l c k = slot_ok w1 dest fn cif h l c k" for l c k by (simp add: slot_ok_def u w1(1))
    have "magazine_ok os dest fn cif h ?u"
      using M(1,4-10) mg True sl held su by (simp add: magazine_ok_def u w1(3) i_def)
    ultimately show ?thesis using True null u by (intro exI [of _ 0] exI [of _ ?u]) simp
  next
    case False
    let ?u = "write_magazine h (mg\<lparr>mg_nextclosure := mg_nextclosure mg + 1\<rparr>) w1"
    have run: "closureMagazineGet V (p2j h) obj w = Some (p2j ?h, ?u)"
      using mg True False cl by (simp add: closureMagazineGet_def i_def [symmetric] w1_def ref_def j_def case_prod_unfold)
    have s: "sint (mg_nextclosure mg + 1) = sint (mg_nextclosure mg) + 1" by (rule jint_succ [OF M(1) True])
    have u: "magazines ?u = (magazines w)(h \<mapsto> mg\<lparr>mg_nextclosure := mg_nextclosure mg + 1\<rparr>)" "closures ?u = closures w1"
      "mem ?u = mem w" "blocks ?u = blocks w" "jvm ?u = j" "pending ?u = pending w"
      by (simp_all add: write_magazine_def w1)
    have "\<exists>cl. closures w1 (closure_at (mg_closures mg) k) = Some cl \<and> cl_javaObject cl \<noteq> NULL" if "k < Suc i" for k
      using held [of k] that False cl by (cases "k = i") (auto simp: w1)
    then have held': "\<forall>k < nat (sint (mg_nextclosure mg + 1)). \<exists>cl. closures w1 (closure_at (mg_closures mg) k) = Some cl \<and> cl_javaObject cl \<noteq> NULL"
      using M(1) by (simp add: s i_def nat_add_distrib)
    have su: "slot_ok ?u dest fn cif h l c k = slot_ok w1 dest fn cif h l c k" for l c k by (simp add: slot_ok_def u w1(1))
    have "magazine_ok os dest fn cif h ?u"
      using M(1,4-10) True sl held' s su by (simp add: magazine_ok_def u)
    then show ?thesis using run True False u cl w1(6) by (intro exI [of _ "p2j ?h"] exI [of _ ?u]) simp
  qed
qed

text \<open>Everything else in the process: it leaves the magazine, its closures and its page alone.\<close>

definition untouched :: "('j, 'a) closure_world_scheme os \<Rightarrow> addr \<Rightarrow> ('j, 'a) closure_world_scheme \<Rightarrow> ('j, 'a) closure_world_scheme \<Rightarrow> bool" where
  "untouched os h w w' \<longleftrightarrow> magazines w' h = magazines w h \<and> (\<forall>mg. magazines w h = Some mg \<longrightarrow>
     (\<forall>i < nat (sint (mg_nclosures mg)). closures w' (closure_at (mg_closures mg) i) = closures w (closure_at (mg_closures mg) i))
   \<and> (\<forall>a \<in> span (mg_code mg) (unat (page_bytes os 1)). mem w' a = mem w a)
   \<and> blocks w \<inter> {h, mg_closures mg} \<subseteq> blocks w')"

lemma untouched_ok:
  assumes ok: "magazine_ok os dest fn cif h w" and u: "untouched os h w w'"
  shows "magazine_ok os dest fn cif h w'"
proof -
  obtain mg where mg: "magazines w h = Some mg" using ok by (auto simp: magazine_ok_def)
  let ?n = "nat (sint (mg_nclosures mg))" and ?page = "span (mg_code mg) (unat (page_bytes os 1))"
  have U: "magazines w' h = Some mg"
    "\<And>i. i < ?n \<Longrightarrow> closures w' (closure_at (mg_closures mg) i) = closures w (closure_at (mg_closures mg) i)"
    "\<And>a. a \<in> ?page \<Longrightarrow> mem w' a = mem w a" "blocks w \<inter> {h, mg_closures mg} \<subseteq> blocks w'"
    using u mg by (auto simp: untouched_def)
  have M: "?n * 56 \<le> unat (page_bytes os 1)" "?page \<subseteq> dom (mem w)" "nat (sint (mg_nextclosure mg)) \<le> ?n"
    using ok mg by (auto simp: magazine_ok_def)
  have sl: "slot_ok w' dest fn cif h (mg_closures mg) (mg_code mg) i = slot_ok w dest fn cif h (mg_closures mg) (mg_code mg) i" if "i < ?n" for i
  proof (rule slot_ok_cong [OF U(2) [OF that]], rule U(3))
    fix a assume "a \<in> span (mg_code mg + of_nat (i * 56)) sizeof_ffi_closure"
    then have "a \<in> span (mg_code mg) (?n * 56)" using page_slot [of 0 i ?n "mg_code mg"] that by auto
    then show "a \<in> ?page" using span_mono [OF M(1)] by blast
  qed
  have pd: "?page \<subseteq> dom (mem w')" using M(2) U(3) by (auto simp: dom_def)
  have "\<exists>cl. closures w' (closure_at (mg_closures mg) i) = Some cl \<and> cl_javaObject cl \<noteq> NULL" if "i < nat (sint (mg_nextclosure mg))" for i
    using ok mg that M(3) U(2) [of i] by (auto simp: magazine_ok_def)
  then show ?thesis using ok mg sl pd U(1,4) by (auto simp: magazine_ok_def)
qed

lemma thread_data_get_untouched: "thread_data_get w = Some (p, w') \<Longrightarrow> untouched os h w w'"
proof -
  assume t: "thread_data_get w = Some (p, w')"
  show ?thesis
  proof (cases "specific w (self w) = NULL")
    case True
    with t obtain w1 where c: "calloc 1 sizeof_ThreadData w = Some (p, w1)"
      and w': "w' = (if p \<noteq> NULL then w1\<lparr>tdata := (tdata w1)(p \<mapsto> zero_td)\<rparr> else w1)\<lparr>specific := (specific w1)(self w1 := p)\<rparr>"
      by (auto simp: thread_data_get_def jffi_thread_data_init_def Let_def split: bind_splits)
    from c show ?thesis by (cases rule: calloc_cases) (auto simp: w' untouched_def)
  qed (use t in \<open>auto simp: thread_data_get_def untouched_def\<close>)
qed

text \<open>The states of a process with the magazine \<open>h\<close>.\<close>

inductive magazine_life ::
  "'j vm \<Rightarrow> link \<Rightarrow> addr \<Rightarrow> ('j, 'a) closure_world_scheme os \<Rightarrow> jlong \<Rightarrow> ffi_cif \<Rightarrow> addr \<Rightarrow> ('j, 'a) closure_world_scheme \<Rightarrow> bool"
  for V lk fn os ctx c h
where
  built: "newClosureMagazine V lk fn os strerror junk ctx method_object prim w0 = Some (p2j h, w) \<Longrightarrow> h \<noteq> NULL \<Longrightarrow>
     heap_ok w0 \<Longrightarrow> cif_at (j2p ctx) w0 = Some c \<Longrightarrow> magazine_life V lk fn os ctx c h w"
| got: "magazine_life V lk fn os ctx c h w \<Longrightarrow> closureMagazineGet V (p2j h) obj w = Some (r, w') \<Longrightarrow> magazine_life V lk fn os ctx c h w'"
| other: "magazine_life V lk fn os ctx c h w \<Longrightarrow> untouched os h w w' \<Longrightarrow> magazine_life V lk fn os ctx c h w'"

text \<open>Claim C31. From the moment \<open>newClosureMagazine\<close> returns it, through any sequence of
  \<open>closureMagazineGet\<close> calls (the virtual machine may refuse the reference at any of them) and of other
  activity that leaves the magazine alone, a magazine stays in order: the count of closures handed out
  stays within the page, every closure of the page remains prepared with the magazine's interface and
  itself as user data, and every closure handed out has its Java object. In every such state
  the next \<open>closureMagazineGet\<close> and \<open>freeClosureMagazine\<close> are defined.\<close>

theorem magazine_stays_ok:
  assumes life: "magazine_life V lk fn os ctx c h w" and os: "posix os" "0 < sint (sys_pagesize os)"
  shows "magazine_ok os (closure_dest lk c) fn (j2p ctx) h w \<and> closureMagazineGet V (p2j h) obj w \<noteq> None \<and> freeClosureMagazine V os (p2j h) w \<noteq> None"
proof -
  have ok: "magazine_ok os (closure_dest lk c) fn (j2p ctx) h w"
    using life
  proof (induction rule: magazine_life.induct)
    case (built strerror junk method_object prim w0 w)
    then have "p2j h \<noteq> 0" by simp
    with newClosureMagazine_run [OF os built.hyps(3,4), of V lk fn strerror junk method_object prim] built.hyps(1) show ?case by auto
  next
    case (got w obj r w')
    then obtain mg where "magazines w h = Some mg" by (auto simp: magazine_ok_def)
    from closureMagazineGet_spec [OF got.IH this, of V obj] got.hyps(2) show ?case by auto
  next
    case (other w w')
    then show ?case using untouched_ok by blast
  qed
  then obtain mg where mg: "magazines w h = Some mg" by (auto simp: magazine_ok_def)
  show ?thesis
    using ok closureMagazineGet_spec [OF ok mg, of V obj] freeClosureMagazine_spec [OF os(1) ok mg, of V] by auto
qed

lemma boot_dest: "closure_dest test_link boot_cif = 0x5000"
  by (simp add: closure_dest_def boot_cif_def test_link_def)

lemma boot_page: "page_free Map.empty n = (unat n \<le> 4096)"
  by (auto simp: page_free_def list_all_iff)

lemma boot_magazine:
  "\<exists>w mg. newClosureMagazine no_vm test_link 0x4000 one_page_os (\<lambda>_. []) [] 0x9000 0x5000 1 (magazine_boot [0x3000, 0x20000]) = Some (p2j 0x3000, w)
     \<and> magazines w 0x3000 = Some mg \<and> mg_closures mg = 0x20000 \<and> mg_code mg = 0x10000 \<and> mg_callWithPrimitiveParameters mg = 1
     \<and> mg_jvm mg = 0x700 \<and> ctxs w = [0x9000 \<mapsto> zero_ctx\<lparr>cc_cif := boot_cif\<rparr>] \<and> types w = image_types
     \<and> ptrs w = [0x9100 \<mapsto> [image_symbol ffi_type_sint32]] \<and> self w = 1 \<and> specific w = (\<lambda>_. NULL)(1 := 0x2000)
     \<and> tdata w = [0x2000 \<mapsto> zero_td] \<and> stack_top w = 0x7fff0000 \<and> heap_ok w \<and> 0x2000 \<in> blocks w"
proof -
  define w1 where "w1 = (magazine_boot [0x20000])\<lparr>live := [0x2000 \<mapsto> 24, 0x3000 \<mapsto> 56], magazines := [0x3000 \<mapsto> zero_magazine]\<rparr>"
  have w1: "calloc_magazine (magazine_boot [0x3000, 0x20000]) = Some (0x3000, w1)"
    by (simp add: calloc_magazine_def calloc_def malloc_def magazine_boot_def write_magazine_def w1_def)
  have sz: "unat (73 :: u64) * unat (32 :: u64) < 2 ^ 64" "scast (73 :: jint) = (73 :: u64)" "unat (73 :: jint) = 73" by simp_all
  define w2 where "w2 = w1\<lparr>script := [], live := (live w1)(0x20000 \<mapsto> 73 * 32),
     closures := (\<lambda>a. if a \<in> list_addrs 0x20000 73 then Some zero_closure else closures w1 a)\<rparr>"
  have sc: "script w1 = [0x20000]" by (simp add: w1_def magazine_boot_def)
  have w2: "calloc_closures 73 w1 = Some (0x20000, w2)"
    unfolding calloc_closures_def calloc_def sz by (simp add: w2_def malloc_def sc cong: if_cong)
  define w3 where "w3 = w2\<lparr>mem := map_block 0x10000 (replicate 4096 0) Map.empty\<rparr>"
  have pb: "page_bytes one_page_os 1 = 4096" by (simp add: page_bytes_def jffi_getPageSize_def one_page_os_def)
  have w3: "jffi_allocatePages one_page_os 1 w2 = (0x10000, w3)"
    unfolding jffi_allocatePages_def pb by (simp add: one_page_os_def w2_def w3_def w1_def magazine_boot_def boot_page)
  have c: "cif_at 0x9000 w3 = Some boot_cif"
    by (simp add: cif_at_def w3_def w2_def w1_def magazine_boot_def)
  have cl: "closures w3 (closure_at 0x20000 j) \<noteq> None" if "j < 0 + 73" for j
    using that by (simp add: w3_def w2_def list_addrs_def)
  have sp: "span (0x10000 + of_nat (0 * 56)) (73 * 56) \<subseteq> dom (mem w3)"
    using span_mono [of "73 * 56" 4096 "0x10000"] map_block_dom [of "0x10000" "replicate 4096 0" Map.empty] by (simp add: w3_def)
  obtain msg m cs where p: "prep_closures test_link 0x4000 0x9000 0x3000 0x20000 0x10000 0 73 [] w3 = Some (True, msg, w3\<lparr>mem := m, closures := cs\<rparr>)"
    using prep_closures_run [OF cl c sp, of test_link "0x4000" "0x3000" "[]"] by (auto simp: abi_known_def boot_cif_def)
  have n: "of_int (sint (jffi_getPageSize one_page_os) sdiv int trampolineSize) = (73 :: jint)" "nat (sint (73 :: jint)) = 73"
    by (simp_all add: jffi_getPageSize_def one_page_os_def signed_divide_int_def)
  have x: "jffi_makePagesExecutable one_page_os 0x10000 1 u = (True, u)" for u :: "unit closure_world"
    by (simp add: jffi_makePagesExecutable_def one_page_os_def)
  define w4 where "w4 = w3\<lparr>mem := m, closures := cs\<rparr>"
  have mg: "magazines w4 0x3000 = Some zero_magazine" by (simp add: w4_def w3_def w2_def w1_def)
  have run: "newClosureMagazine no_vm test_link 0x4000 one_page_os (\<lambda>_. []) [] 0x9000 0x5000 1 (magazine_boot [0x3000, 0x20000])
      = finish_magazine no_vm one_page_os 0x5000 1 0x3000 0x20000 73 0x10000 msg w4"
    unfolding newClosureMagazine_def n by (simp add: w1 w2 w3 n p x j2p_def w4_def)
  show ?thesis unfolding run
    by (simp add: finish_magazine_def no_vm_def mg) (simp add: write_magazine_def w4_def w3_def w2_def w1_def magazine_boot_def heap_ok_def)
qed

theorem magazine_stays_ok_witness:
  "\<exists>w r w'. newClosureMagazine no_vm test_link 0x4000 one_page_os (\<lambda>_. []) [] 0x9000 0x5000 1 (magazine_boot [0x3000, 0x20000]) = Some (p2j 0x3000, w)
     \<and> closureMagazineGet no_vm (p2j 0x3000) 0x77 w = Some (r, w') \<and> magazine_ok one_page_os 0x5000 0x4000 (j2p 0x9000) 0x3000 w'"
proof -
  obtain w where w: "newClosureMagazine no_vm test_link 0x4000 one_page_os (\<lambda>_. []) [] 0x9000 0x5000 1 (magazine_boot [0x3000, 0x20000]) = Some (p2j 0x3000, w)"
    using boot_magazine by blast
  have h: "heap_ok (magazine_boot [0x3000, 0x20000])" by (rule magazine_boot_ok) simp_all
  have c: "cif_at (j2p 0x9000) (magazine_boot [0x3000, 0x20000]) = Some boot_cif" by (simp add: cif_at_def magazine_boot_def j2p_def)
  have ps: "0 < sint (sys_pagesize one_page_os)" by (simp add: one_page_os_def)
  have life: "magazine_life no_vm test_link 0x4000 one_page_os 0x9000 boot_cif 0x3000 w" by (rule built [OF w _ h c]) simp
  obtain r w' where g: "closureMagazineGet no_vm (p2j 0x3000) 0x77 w = Some (r, w')"
    using magazine_stays_ok [OF life one_page_posix ps, of "0x77"] by auto
  have "magazine_life no_vm test_link 0x4000 one_page_os 0x9000 boot_cif 0x3000 w'" by (rule got [OF life g])
  from magazine_stays_ok [OF this one_page_posix ps, of "0x77", unfolded boot_dest] w g show ?thesis by auto
qed

text \<open>Taking one closure for each of a list of Java objects.\<close>

fun take_closures :: "'j vm \<Rightarrow> addr \<Rightarrow> jobject list \<Rightarrow> ('j, 'a) closure_world_scheme \<Rightarrow> (jlong list \<times> ('j, 'a) closure_world_scheme) option" where
  "take_closures V h [] w = Some ([], w)"
| "take_closures V h (x # xs) w = do {
     (r, w1) \<leftarrow> closureMagazineGet V (p2j h) x w;
     (rs, w2) \<leftarrow> take_closures V h xs w1;
     Some (r # rs, w2)
   }"

text \<open>The virtual machine after \<open>NewGlobalRef\<close> of each of \<open>xs\<close>.\<close>

definition after_refs :: "'j vm \<Rightarrow> jobject list \<Rightarrow> 'j \<Rightarrow> 'j" where
  "after_refs V xs j = fold (\<lambda>x j. snd (NewGlobalRef V j x)) xs j"

lemma take_closures_full:
  assumes "magazines w h = Some mg" and "sint (mg_nextclosure mg) = sint (mg_nclosures mg)"
  shows "take_closures V h xs w = Some (replicate (length xs) 0, w)"
  using assms by (induction xs) (simp_all add: closureMagazineGet_def)

lemma take_closures_run:
  assumes "magazine_ok os dest fn cif h w" and "magazines w h = Some mg" and "nat (sint (mg_nextclosure mg)) = k"
    and "\<And>j x. x \<in> set xs \<Longrightarrow> fst (NewGlobalRef V j x) \<noteq> NULL"
  shows "\<exists>w' mg'. take_closures V h xs w
       = Some (map (\<lambda>i. if k + i < nat (sint (mg_nclosures mg)) then p2j (closure_at (mg_closures mg) (k + i)) else 0) [0..<length xs], w')
     \<and> pending w' = pending w \<and> magazine_ok os dest fn cif h w' \<and> magazines w' h = Some mg'
     \<and> mg_closures mg' = mg_closures mg \<and> mg_code mg' = mg_code mg \<and> mg_nclosures mg' = mg_nclosures mg
     \<and> (\<forall>i < k. closures w' (closure_at (mg_closures mg) i) = closures w (closure_at (mg_closures mg) i))
     \<and> (\<forall>i < length xs. k + i < nat (sint (mg_nclosures mg)) \<longrightarrow>
          (\<exists>cl. closures w' (closure_at (mg_closures mg) (k + i)) = Some cl
             \<and> cl_javaObject cl = fst (NewGlobalRef V (after_refs V (take i xs) (jvm w)) (xs ! i))))"
  using assms
proof (induction xs arbitrary: w mg k)
  case Nil
  then show ?case by simp
next
  case (Cons x xs)
  let ?n = "nat (sint (mg_nclosures mg))" and ?at = "closure_at (mg_closures mg)"
  have M: "0 \<le> sint (mg_nextclosure mg)" "sint (mg_nextclosure mg) \<le> sint (mg_nclosures mg)"
    using Cons.prems(1,2) by (auto simp: magazine_ok_def)
  show ?case
  proof (cases "sint (mg_nextclosure mg) = sint (mg_nclosures mg)")
    case True
    have "map (\<lambda>i. if k + i < ?n then p2j (?at (k + i)) else 0) [0..<length (x # xs)] = replicate (length (x # xs)) 0"
      using True Cons.prems(3) by (intro nth_equalityI) (simp_all del: upt_Suc replicate_Suc)
    with take_closures_full [OF Cons.prems(2) True, of V "x # xs"] Cons.prems True show ?thesis
      by (intro exI [of _ w] exI [of _ mg]) simp
  next
    case False
    then have lt: "sint (mg_nextclosure mg) < sint (mg_nclosures mg)" using M(2) by simp
    have ref: "fst (NewGlobalRef V (jvm w) x) \<noteq> NULL" using Cons.prems(4) by simp
    let ?mg1 = "mg\<lparr>mg_nextclosure := mg_nextclosure mg + 1\<rparr>"
    obtain w1 cl where g: "closureMagazineGet V (p2j h) x w = Some (p2j (?at k), w1)" "magazine_ok os dest fn cif h w1"
      "jvm w1 = snd (NewGlobalRef V (jvm w) x)" "pending w1 = pending w" "magazines w1 = (magazines w)(h \<mapsto> ?mg1)"
      "closures w ( ?at k) = Some cl"
      "closures w1 = (closures w)(?at k \<mapsto> cl\<lparr>cl_javaObject := fst (NewGlobalRef V (jvm w) x)\<rparr>)"
      using closureMagazineGet_spec [OF Cons.prems(1,2), of V x] lt ref Cons.prems(3) by auto
    have s: "nat (sint (mg_nextclosure ?mg1)) = Suc k"
      using jint_succ [OF M(1) lt] M(1) Cons.prems(3) by (simp add: nat_add_distrib)
    have kn: "k < ?n" using lt M(1) Cons.prems(3) by simp
    obtain w' mg' where ih: "take_closures V h xs w1
         = Some (map (\<lambda>i. if Suc k + i < ?n then p2j (?at (Suc k + i)) else 0) [0..<length xs], w')"
      "pending w' = pending w1" "magazine_ok os dest fn cif h w'" "magazines w' h = Some mg'"
      "mg_closures mg' = mg_closures mg" "mg_code mg' = mg_code mg" "mg_nclosures mg' = mg_nclosures mg"
      and old: "\<And>i. i < Suc k \<Longrightarrow> closures w' (?at i) = closures w1 (?at i)"
      and new: "\<And>i. i < length xs \<Longrightarrow> Suc k + i < ?n \<Longrightarrow> \<exists>cl. closures w' (?at (Suc k + i)) = Some cl
             \<and> cl_javaObject cl = fst (NewGlobalRef V (after_refs V (take i xs) (jvm w1)) (xs ! i))"
      using Cons.IH [OF g(2), of ?mg1 "Suc k"] g(5) s Cons.prems(4) by auto
    have b: "?n < 2 ^ 31" using sint_jint_lt [of "mg_nclosures mg"] by (simp add: nat_less_iff)
    have keep: "closures w1 (?at i) = closures w (?at i)" if "i < k" for i
    proof -
      have "i < 2 ^ 58" "k < 2 ^ 58" using that kn b by simp_all
      then have "?at i \<noteq> ?at k" using closure_at_inj that by blast
      then show ?thesis by (simp add: g(7))
    qed
    have l: "map (\<lambda>i. if k + i < ?n then p2j (?at (k + i)) else 0) [0..<length (x # xs)]
        = p2j (?at k) # map (\<lambda>i. if Suc k + i < ?n then p2j (?at (Suc k + i)) else 0) [0..<length xs]"
      using kn by (simp add: upt_conv_Cons map_Suc_upt [symmetric] del: upt_Suc)
    have res: "\<exists>cl. closures w' (?at (k + i)) = Some cl
        \<and> cl_javaObject cl = fst (NewGlobalRef V (after_refs V (take i (x # xs)) (jvm w)) ((x # xs) ! i))"
      if "i < length (x # xs)" "k + i < ?n" for i
    proof (cases i)
      case 0
      with old [of k] g(7) show ?thesis by (simp add: after_refs_def)
    next
      case (Suc d)
      with new [of d] that g(3) show ?thesis by (simp add: after_refs_def)
    qed
    show ?thesis unfolding l
      by (rule exI [of _ w'], rule exI [of _ mg']) (use g(1,4) ih old keep res in simp)
  qed
qed

text \<open>Claim C32. Handing a magazine out. On a fresh magazine of \<open>n\<close> closures whose list does not wrap around
  the address space, and with a virtual machine that grants every reference, asking for a closure for
  each of a list of objects returns \<open>n\<close> different non-null handles, in the order of the list, and from
  then on 0 for every further object, never an exception: the loop of a caller that asks until it gets 0
  ends after all closures. Handle \<open>i\<close> then is the closure prepared at place \<open>i\<close> of the page, with the
  reference obtained for object \<open>i\<close>.\<close>

theorem closures_handed_out:
  assumes ok: "magazine_ok os dest fn cif h w" and mg: "magazines w h = Some mg" "mg_nextclosure mg = 0"
    and refs: "\<And>j x. x \<in> set xs \<Longrightarrow> fst (NewGlobalRef V j x) \<noteq> NULL"
    and n: "n = nat (sint (mg_nclosures mg))" and room: "0 < unat (mg_closures mg)" "unat (mg_closures mg) + 32 * n \<le> 2 ^ 64"
  shows "\<exists>hs w'. take_closures V h xs w = Some (hs @ replicate (length xs - n) 0, w') \<and> length hs = min n (length xs)
     \<and> distinct hs \<and> 0 \<notin> set hs \<and> pending w' = pending w \<and> magazine_ok os dest fn cif h w'
     \<and> (\<forall>i < length hs. \<exists>cl. closures w' (j2p (hs ! i)) = Some cl \<and> cl_code cl = mg_code mg + of_nat (i * 56)
          \<and> cl_javaObject cl = fst (NewGlobalRef V (after_refs V (take i xs) (jvm w)) (xs ! i)))"
proof -
  let ?at = "closure_at (mg_closures mg)"
  obtain w' mg' where run: "take_closures V h xs w = Some (map (\<lambda>i. if i < n then p2j (?at i) else 0) [0..<length xs], w')"
    and p: "pending w' = pending w" "magazine_ok os dest fn cif h w'" "magazines w' h = Some mg'"
      "mg_closures mg' = mg_closures mg" "mg_code mg' = mg_code mg" "mg_nclosures mg' = mg_nclosures mg"
    and obj: "\<And>i. i < length xs \<Longrightarrow> i < n \<Longrightarrow> \<exists>cl. closures w' (?at i) = Some cl
       \<and> cl_javaObject cl = fst (NewGlobalRef V (after_refs V (take i xs) (jvm w)) (xs ! i))"
    using take_closures_run [OF ok mg(1), where k = 0 and V = V and xs = xs] mg(2) refs by (auto simp: n)
  define hs where "hs = map (\<lambda>i. p2j (?at i)) [0..<min n (length xs)]"
  have split: "map (\<lambda>i. if i < n then p2j (?at i) else 0) [0..<length xs] = hs @ replicate (length xs - n) 0"
    by (rule nth_equalityI) (auto simp: hs_def nth_append)
  have b: "n < 2 ^ 31" using sint_jint_lt [of "mg_nclosures mg"] by (simp add: n nat_less_iff)
  have inj: "i = j" if "?at i = ?at j" "i < n" "j < n" for i j
    by (rule closure_at_inj [OF that(1)]) (use that b in simp_all)
  have "inj_on (\<lambda>i. p2j (?at i)) {..<n}"
  proof (rule inj_onI)
    fix i j assume "i \<in> {..<n}" "j \<in> {..<n}" and "p2j (?at i) = p2j (?at j)"
    then have "j2p (p2j (?at i)) = j2p (p2j (?at j))" "i < n" "j < n" by (simp_all only: lessThan_iff)
    then show "i = j" by (intro inj) simp_all
  qed
  then have "distinct hs" unfolding hs_def distinct_map by (auto elim: inj_on_subset)
  moreover have "?at i \<noteq> 0" if "i < n" for i
  proof -
    have "unat (of_nat (32 * i) :: addr) = 32 * i" by (rule unat_of_nat64) (use that b in simp)
    then have "unat (?at i) = unat (mg_closures mg) + 32 * i"
      using room that by (simp add: closure_at_def unat_plus_if')
    with room(1) show ?thesis by auto
  qed
  then have "0 \<notin> set hs" by (auto simp: hs_def)
  moreover have "\<exists>cl. closures w' (j2p (hs ! i)) = Some cl \<and> cl_code cl = mg_code mg + of_nat (i * 56)
       \<and> cl_javaObject cl = fst (NewGlobalRef V (after_refs V (take i xs) (jvm w)) (xs ! i))" if "i < length hs" for i
  proof -
    have i: "i < n" "i < length xs" using that by (simp_all add: hs_def)
    then have "slot_ok w' dest fn cif h (mg_closures mg) (mg_code mg) i" using p n by (auto simp: magazine_ok_def)
    with obj [OF i(2,1)] i show ?thesis by (auto simp: slot_ok_def hs_def)
  qed
  ultimately show ?thesis using run p(1,2) unfolding split by (intro exI [of _ hs] exI [of _ w']) (simp add: hs_def)
qed

theorem closures_handed_out_witness:
  "\<exists>w hs w'. newClosureMagazine no_vm test_link 0x4000 one_page_os (\<lambda>_. []) [] 0x9000 0x5000 1 (magazine_boot [0x3000, 0x20000]) = Some (p2j 0x3000, w)
     \<and> take_closures no_vm 0x3000 (replicate 80 0x77) w = Some (hs @ replicate 7 0, w') \<and> length hs = 73 \<and> distinct hs"
proof -
  obtain w mg where w: "newClosureMagazine no_vm test_link 0x4000 one_page_os (\<lambda>_. []) [] 0x9000 0x5000 1 (magazine_boot [0x3000, 0x20000]) = Some (p2j 0x3000, w)"
    and mg: "magazines w 0x3000 = Some mg" and l: "mg_closures mg = 0x20000"
    using boot_magazine by blast
  have h: "heap_ok (magazine_boot [0x3000, 0x20000])" by (rule magazine_boot_ok) simp_all
  have c: "cif_at (j2p 0x9000) (magazine_boot [0x3000, 0x20000]) = Some boot_cif" by (simp add: cif_at_def magazine_boot_def j2p_def)
  have ps: "0 < sint (sys_pagesize one_page_os)" "sint (sys_pagesize one_page_os) div 56 = 73" by (simp_all add: one_page_os_def)
  have nz: "p2j 0x3000 \<noteq> 0" by (simp add: p2j_def)
  have ok: "magazine_ok one_page_os 0x5000 0x4000 (j2p 0x9000) 0x3000 w" and nx: "mg_nextclosure mg = 0"
    and n: "sint (mg_nclosures mg) = 73"
    using newClosureMagazine_run [OF one_page_posix ps(1) h c, of no_vm test_link "0x4000" "\<lambda>_. []" "[]" "0x5000" 1, unfolded w ps(2) boot_dest] mg nz by auto
  have n': "73 = nat (sint (mg_nclosures mg))" using n by simp
  have r: "0 < unat (mg_closures mg)" "unat (mg_closures mg) + 32 * 73 \<le> 2 ^ 64" by (simp_all add: l)
  have v: "fst (NewGlobalRef no_vm j x) \<noteq> NULL" if "x \<in> set (replicate 80 (0x77 :: jobject))" for j x
    using that by (simp add: no_vm_def in_set_replicate)
  have m: "min 73 (length (replicate 80 (0x77 :: jobject))) = 73" "length (replicate 80 (0x77 :: jobject)) - 73 = 7"
    by simp_all
  from closures_handed_out [where xs = "replicate 80 0x77" and V = no_vm, OF ok mg nx v n' r, unfolded m] w show ?thesis by blast
qed

end
