(* ===== verification/Jffi_Upcall.thy ===== *)
theory Jffi_Upcall
  imports Jffi_Closure
begin

text \<open>
  Calls from native code into Java: what \<open>closure_begin\<close> and \<open>closure_end\<close> do to the calling thread, what
  \<open>closure_invoke\<close> hands to the Java method, and the whole way from the call of a closure's code to the
  native result.
\<close>

section \<open>Floating-point parameters\<close>






section \<open>Attaching the thread\<close>









section \<open>The call of a Java method\<close>










end
