(* ===== verification/Jffi_Invoke.thy ===== *)
theory Jffi_Invoke
  imports Jffi_Fast
begin

text \<open>
  \<^verbatim>\<open>jni/jffi/Invoke.c\<close>: calls whose parameters come in a Java byte array of eight-byte slots (or as an
  array of pointers), with any number of objects whose addresses replace slots. \<open>native\<close>, \<open>efi64\<close> and
  \<open>fuel\<close> are the parameters of \<open>ffi_call\<close>; \<open>env\<close> is the address of the thread's \<open>JNIEnv\<close>.
\<close>

section \<open>Arguments\<close>

abbreviation (input) PARAM_SIZE :: addr where "PARAM_SIZE \<equiv> 8"
abbreviation (input) OB_JNIENV :: jint where "OB_JNIENV \<equiv> 0x01000000"
abbreviation (input) OB_JNIOBJECT :: jint where "OB_JNIOBJECT \<equiv> 0x02000000"

text \<open>\<open>COPY_ARGS\<close>: a slot is its own argument, except that the slot of a struct holds its address.\<close>

fun COPY_ARGS :: "'a mem_world_scheme \<Rightarrow> addr \<Rightarrow> addr list \<Rightarrow> addr list option" where
  "COPY_ARGS w src [] = Some []"
| "COPY_ARGS w src (p # arg_types) = do {
     t \<leftarrow> types w p;
     a \<leftarrow> (if ft_type t = FFI_TYPE_STRUCT then map_option le_word (load (mem w) src 8) else Some src);
     ffiArgs \<leftarrow> COPY_ARGS w (src + PARAM_SIZE) arg_types;
     Some (a # ffiArgs)
   }"

text \<open>The local variables of \<open>invokeArrayWithObjects_\<close> while it goes through the objects.\<close>

record frame =
  fr_ffiArgs :: "addr list"
  fr_arrays :: "Array list"
  fr_pinned :: "ObjectParam list"

text \<open>\<open>idx\<close> is not checked against the number of parameters: reading a type behind them is undefined.\<close>

definition set_arg ::
  "addr list \<Rightarrow> jint \<Rightarrow> addr \<Rightarrow> frame \<Rightarrow> 'a mem_world_scheme \<Rightarrow> (frame \<times> 'a mem_world_scheme) option"
where
  "set_arg arg_types idx ptr fr w =
     (if unat idx < length arg_types \<and> unat idx < length (fr_ffiArgs fr)
      then do {
        t \<leftarrow> types w (arg_types ! unat idx);
        if ft_type t = FFI_TYPE_POINTER
        then map_option (\<lambda>m. (fr, w\<lparr>mem := m\<rparr>)) (store (mem w) (fr_ffiArgs fr ! unat idx) (le_bytes 8 ptr))
        else Some (fr\<lparr>fr_ffiArgs := (fr_ffiArgs fr)[unat idx := ptr]\<rparr>, w)
      }
      else None)"

section \<open>Objects\<close>

text \<open>The switch on the type of one object: \<open>NULL\<close> for the jump to \<open>cleanup\<close>, or the pointer that
  replaces the slot. The outer kind of the object has no type bits of the kinds \<open>JNIENV\<close> and
  \<open>JNIOBJECT\<close> left.\<close>

definition object_ptr ::
  "'j jni \<Rightarrow> addr \<Rightarrow> ObjectParam \<Rightarrow> frame \<Rightarrow> ('j, 'a) jni_world_scheme
     \<Rightarrow> ((addr option \<times> frame) \<times> ('j, 'a) jni_world_scheme) option"
where
  "object_ptr J env p fr w =
     (let type = op_flags p; object = op_object p; idx = OBJIDX type;
          kind = type AND OB_TYPE_MASK AND NOT OB_PRIM_MASK;
          cleanup = (\<lambda>e fmt args. Some ((None, fr), throwException e fmt args w))
      in if kind = OB_ARRAY
         then (if object = NULL then cleanup NullPointer ''null object for parameter %d'' [ArgInt idx]
               else if type AND OB_PINNED \<noteq> 0
               then Some ((Some NULL, fr\<lparr>fr_pinned := fr_pinned fr @ [p]\<rparr>), w)
               else if sint (op_length p) < sint MAX_STACK_ARRAY
               then do {
                 (ptr, w1) \<leftarrow> Some (alloca (unat (widen (jffi_arraySize (op_length p + 1) type))) w);
                 ((a, ary), w2) \<leftarrow> jffi_getArrayBuffer J object (op_offset p) (op_length p) type ptr w1;
                 Some (if a = NULL then ((None, fr), w2) else ((Some ptr, fr\<lparr>fr_arrays := fr_arrays fr @ [ary]\<rparr>), w2))
               }
               else do {
                 ((a, ary), w1) \<leftarrow> jffi_getArrayHeap J object (op_offset p) (op_length p) type w;
                 Some (if a = NULL then ((None, fr), w1) else ((Some a, fr\<lparr>fr_arrays := fr_arrays fr @ [ary]\<rparr>), w1))
               })
         else if kind = OB_BUFFER
         then (if object = NULL then cleanup NullPointer ''null object for parameter %d'' [ArgInt idx]
               else (let a = BufferAddress J (jvm w) object
                     in if a = NULL then cleanup NullPointer ''null direct buffer address for parameter %d'' [ArgInt idx]
                        else Some ((Some (a + widen (op_offset p)), fr), w)))
         else if kind = OB_JNI
         then (if type AND OB_TYPE_MASK = OB_JNIENV then Some ((Some env, fr), w)
               else if type AND OB_TYPE_MASK = OB_JNIOBJECT then Some ((Some object, fr), w)
               else cleanup IllegalArgument ''Unsupported object type: %#x'' [ArgInt (type AND OB_TYPE_MASK)])
         else cleanup IllegalArgument ''Unsupported object type: %#x'' [ArgInt (type AND OB_TYPE_MASK)])"

fun put_objects ::
  "'j jni \<Rightarrow> addr \<Rightarrow> addr list \<Rightarrow> ObjectParam list \<Rightarrow> frame \<Rightarrow> ('j, 'a) jni_world_scheme
     \<Rightarrow> ((bool \<times> frame) \<times> ('j, 'a) jni_world_scheme) option"
where
  "put_objects J env arg_types [] fr w = Some ((True, fr), w)"
| "put_objects J env arg_types (p # objects) fr w = do {
     ((ptr, fr1), w1) \<leftarrow> object_ptr J env p fr w;
     (case ptr of
        None \<Rightarrow> Some ((False, fr1), w1)
      | Some a \<Rightarrow> do {
          (fr2, w2) \<leftarrow> set_arg arg_types (OBJIDX (op_flags p)) a fr1 w1;
          put_objects J env arg_types objects fr2 w2
        })
   }"

fun pin_objects ::
  "'j jni \<Rightarrow> addr list \<Rightarrow> ObjectParam list \<Rightarrow> frame \<Rightarrow> ('j, 'a) jni_world_scheme
     \<Rightarrow> ((bool \<times> frame) \<times> ('j, 'a) jni_world_scheme) option"
where
  "pin_objects J arg_types [] fr w = Some ((True, fr), w)"
| "pin_objects J arg_types (p # pinned) fr w =
     (let ((a, ary), w1) = jffi_getArrayCritical J (op_object p) (op_offset p) (op_length p) (op_flags p) None w
      in if a = NULL then Some ((False, fr), w1)
         else do {
           (fr1, w2) \<leftarrow> set_arg arg_types (OBJIDX (op_flags p)) a fr w1;
           pin_objects J arg_types pinned (fr1\<lparr>fr_arrays := fr_arrays fr1 @ [ary]\<rparr>) w2
         })"

section \<open>invokeArrayWithObjects_\<close>

text \<open>The parameter buffer: a refused region leaves the exception pending and the slots undetermined.\<close>

definition param_slots ::
  "'j jni \<Rightarrow> ffi_cif \<Rightarrow> jobject \<Rightarrow> ('j, 'a) jni_world_scheme \<Rightarrow> (addr list \<times> ('j, 'a) jni_world_scheme) option"
where
  "param_slots J cif paramBuffer w =
     (if cif_nargs cif = 0 then Some ([], w)
      else do {
        (tmpBuffer, w1) \<leftarrow> Some (alloca (unat (cif_nargs cif * 8)) w);
        w2 \<leftarrow> GetArrayRegion J JByte paramBuffer 0 (ucast (cif_nargs cif * 8)) tmpBuffer w1;
        arg_types \<leftarrow> read_ptrs w2 (cif_arg_types cif) (nat (sint (cif_nargs cif)));
        ffiArgs \<leftarrow> COPY_ARGS w2 tmpBuffer arg_types;
        Some (ffiArgs, w2)
      })"

definition invokeArrayWithObjects_body ::
  "'j jni \<Rightarrow> addr \<Rightarrow> ('j, 'a) jni_world_scheme native \<Rightarrow> ('j, 'a) jni_world_scheme efi64 \<Rightarrow> nat \<Rightarrow> jlong \<Rightarrow> jlong
     \<Rightarrow> jobject \<Rightarrow> ObjectParam list \<Rightarrow> addr \<Rightarrow> ('j, 'a) jni_world_scheme \<Rightarrow> ('j, 'a) jni_world_scheme option"
where
  "invokeArrayWithObjects_body J env native efi64 fuel ctxAddress function paramBuffer objects retval w = do {
     c \<leftarrow> ctxs w (j2p ctxAddress);
     (ffiArgs, w1) \<leftarrow> param_slots J (cc_cif c) paramBuffer w;
     arg_types \<leftarrow> read_ptrs w1 (cif_arg_types (cc_cif c)) (nat (sint (cif_nargs (cc_cif c))));
     ((ok, fr), w2) \<leftarrow> put_objects J env arg_types objects \<lparr>fr_ffiArgs = ffiArgs, fr_arrays = [], fr_pinned = []\<rparr> w1;
     ((ok, fr), w3) \<leftarrow> (if ok then pin_objects J arg_types (fr_pinned fr) fr w2 else Some ((False, fr), w2));
     w4 \<leftarrow> (if ok
           then map_option snd (FAULTPROT_CTX native (j2p ctxAddress)
                  (\<lambda>w. map_option (\<lambda>w. ((), w)) (ffi_call native efi64 fuel (cc_cif c) (j2p function) retval (fr_ffiArgs fr) w)) w3)
           else Some w3);
     w5 \<leftarrow> jffi_releaseArrays J (fr_arrays fr) w4;
     Some (w5\<lparr>stack_top := stack_top w\<rparr>)
   }"

text \<open>\<open>invokeArrayWithObjects\<close> first copies the description of the objects out of Java arrays: three
  \<open>int\<close>s for each (flags, offset, length) and the references.\<close>

fun fetch_objects ::
  "'j jni \<Rightarrow> jobject \<Rightarrow> addr \<Rightarrow> nat \<Rightarrow> nat \<Rightarrow> ('j, 'a) jni_world_scheme \<Rightarrow> (ObjectParam list \<times> ('j, 'a) jni_world_scheme) option"
where
  "fetch_objects J objectArray infoBuffer i 0 w = Some ([], w)"
| "fetch_objects J objectArray infoBuffer i (Suc k) w = do {
     info \<leftarrow> load (mem w) (infoBuffer + of_nat (12 * i)) 12;
     (object, w1) \<leftarrow> Some (case ObjectElement J (jvm w) objectArray (of_nat i) of
                        Inl x \<Rightarrow> (NULL, jthrow x w) | Inr obj \<Rightarrow> (obj, w));
     (objects, w2) \<leftarrow> fetch_objects J objectArray infoBuffer (Suc i) k w1;
     Some (\<lparr>op_object = object, op_offset = ucast (le_word (take 4 (drop 4 info))),
            op_length = ucast (le_word (drop 8 info)), op_flags = ucast (le_word (take 4 info))\<rparr> # objects, w2)
   }"

definition invokeArrayWithObjects ::
  "'j jni \<Rightarrow> addr \<Rightarrow> ('j, 'a) jni_world_scheme native \<Rightarrow> ('j, 'a) jni_world_scheme efi64 \<Rightarrow> nat \<Rightarrow> jlong \<Rightarrow> jlong
     \<Rightarrow> jobject \<Rightarrow> jint \<Rightarrow> jobject \<Rightarrow> jobject \<Rightarrow> addr \<Rightarrow> ('j, 'a) jni_world_scheme \<Rightarrow> ('j, 'a) jni_world_scheme option"
where
  "invokeArrayWithObjects J env native efi64 fuel ctxAddress function paramBuffer objectCount objectInfo objectArray retval w =
     (if sint objectCount < 0 then None
      else do {
        (infoBuffer, w1) \<leftarrow> Some (alloca (nat (sint objectCount) * 12) w);
        w2 \<leftarrow> GetArrayRegion J JInt objectInfo 0 (objectCount * 3) infoBuffer w1;
        (objects, w3) \<leftarrow> fetch_objects J objectArray infoBuffer 0 (nat (sint objectCount)) w2;
        w4 \<leftarrow> invokeArrayWithObjects_body J env native efi64 fuel ctxAddress function paramBuffer objects retval w3;
        Some (w4\<lparr>stack_top := stack_top w\<rparr>)
      })"

section \<open>The exported functions\<close>

text \<open>\<open>FFIValue retval\<close>: eight bytes that the functions below read as the type of their result.\<close>

definition FFIValue_of ::
  "(addr \<Rightarrow> 'a mem_world_scheme \<Rightarrow> 'a mem_world_scheme option) \<Rightarrow> 'a mem_world_scheme \<Rightarrow> (u64 \<times> 'a mem_world_scheme) option"
where
  "FFIValue_of call w = do {
     (retval, w1) \<leftarrow> Some (alloca 8 w);
     w2 \<leftarrow> call retval w1;
     bs \<leftarrow> load (mem w2) retval 8;
     Some (le_word bs, w2\<lparr>stack_top := stack_top w\<rparr>)
   }"

text \<open>The value of the four kinds of result: \<open>return_int\<close>, the 64 bits, the bits of a \<open>float\<close> or
  \<open>double\<close>.\<close>

datatype invoke_result = IntResult jint | LongResult jlong | FloatResult u32 | DoubleResult u64

datatype invoke_kind = ReturnInt | ReturnLong | ReturnFloat | ReturnDouble

fun result_of :: "invoke_kind \<Rightarrow> u64 \<Rightarrow> invoke_result" where
  "result_of ReturnInt x = IntResult (ucast x)"
| "result_of ReturnLong x = LongResult x"
| "result_of ReturnFloat x = FloatResult (ucast x)"
| "result_of ReturnDouble x = DoubleResult x"

text \<open>\<open>invokeArrayReturnInt\<close>, \<open>-Long\<close>, \<open>-Float\<close> and \<open>-Double\<close>.\<close>

definition Foreign_invokeArrayReturn ::
  "invoke_kind \<Rightarrow> 'j jni \<Rightarrow> addr \<Rightarrow> ('j, 'a) jni_world_scheme native \<Rightarrow> ('j, 'a) jni_world_scheme efi64 \<Rightarrow> nat
     \<Rightarrow> jlong \<Rightarrow> jlong \<Rightarrow> jobject \<Rightarrow> ('j, 'a) jni_world_scheme \<Rightarrow> (invoke_result \<times> ('j, 'a) jni_world_scheme) option"
where
  "Foreign_invokeArrayReturn kind J env native efi64 fuel ctxAddress function paramBuffer w =
     map_option (apfst (result_of kind))
       (FFIValue_of (invokeArrayWithObjects_body J env native efi64 fuel ctxAddress function paramBuffer []) w)"

text \<open>\<open>invokeArrayO1Int32\<close>, \<open>invokeArrayO2Int32\<close>, \<open>invokeArrayO1Int64\<close> and \<open>invokeArrayO2Int64\<close>: the
  objects come with their flags, offset and length.\<close>

definition Foreign_invokeArrayO ::
  "invoke_kind \<Rightarrow> 'j jni \<Rightarrow> addr \<Rightarrow> ('j, 'a) jni_world_scheme native \<Rightarrow> ('j, 'a) jni_world_scheme efi64 \<Rightarrow> nat
     \<Rightarrow> jlong \<Rightarrow> jlong \<Rightarrow> jobject \<Rightarrow> (jobject \<times> jint \<times> jint \<times> jint) list
     \<Rightarrow> ('j, 'a) jni_world_scheme \<Rightarrow> (invoke_result \<times> ('j, 'a) jni_world_scheme) option"
where
  "Foreign_invokeArrayO kind J env native efi64 fuel ctxAddress function paramBuffer os w =
     map_option (apfst (result_of kind))
       (FFIValue_of (invokeArrayWithObjects_body J env native efi64 fuel ctxAddress function paramBuffer
          (map (\<lambda>(obj, flags, off, len). \<lparr>op_object = obj, op_offset = off, op_length = len, op_flags = flags\<rparr>) os)) w)"

text \<open>\<open>invokeArrayWithObjectsInt32\<close>, \<open>-Int64\<close>, \<open>-Float\<close> and \<open>-Double\<close>.\<close>

definition Foreign_invokeArrayWithObjects ::
  "invoke_kind \<Rightarrow> 'j jni \<Rightarrow> addr \<Rightarrow> ('j, 'a) jni_world_scheme native \<Rightarrow> ('j, 'a) jni_world_scheme efi64 \<Rightarrow> nat
     \<Rightarrow> jlong \<Rightarrow> jlong \<Rightarrow> jobject \<Rightarrow> jint \<Rightarrow> jobject \<Rightarrow> jobject
     \<Rightarrow> ('j, 'a) jni_world_scheme \<Rightarrow> (invoke_result \<times> ('j, 'a) jni_world_scheme) option"
where
  "Foreign_invokeArrayWithObjects kind J env native efi64 fuel ctxAddress function paramBuffer objectCount objectInfo objectArray w =
     map_option (apfst (result_of kind))
       (FFIValue_of (invokeArrayWithObjects J env native efi64 fuel ctxAddress function paramBuffer
          objectCount objectInfo objectArray) w)"

text \<open>The functions that return a struct copy its bytes into a Java byte array.\<close>

definition return_struct ::
  "'j jni \<Rightarrow> jlong \<Rightarrow> jobject \<Rightarrow> jint \<Rightarrow> (addr \<Rightarrow> ('j, 'a) jni_world_scheme \<Rightarrow> ('j, 'a) jni_world_scheme option)
     \<Rightarrow> ('j, 'a) jni_world_scheme \<Rightarrow> ('j, 'a) jni_world_scheme option"
where
  "return_struct J ctxAddress returnBuffer offset call w = do {
     c \<leftarrow> ctxs w (j2p ctxAddress);
     rtype \<leftarrow> types w (cif_rtype (cc_cif c));
     (retval, w1) \<leftarrow> Some (alloca (unat (ft_size rtype)) w);
     w2 \<leftarrow> call retval w1;
     w3 \<leftarrow> SetArrayRegion J JByte returnBuffer offset (ucast (ft_size rtype)) retval w2;
     Some (w3\<lparr>stack_top := stack_top w\<rparr>)
   }"

definition Foreign_invokeArrayReturnStruct ::
  "'j jni \<Rightarrow> addr \<Rightarrow> ('j, 'a) jni_world_scheme native \<Rightarrow> ('j, 'a) jni_world_scheme efi64 \<Rightarrow> nat \<Rightarrow> jlong \<Rightarrow> jlong
     \<Rightarrow> jobject \<Rightarrow> jobject \<Rightarrow> jint \<Rightarrow> ('j, 'a) jni_world_scheme \<Rightarrow> ('j, 'a) jni_world_scheme option"
where
  "Foreign_invokeArrayReturnStruct J env native efi64 fuel ctxAddress function paramBuffer returnBuffer offset w =
     return_struct J ctxAddress returnBuffer offset
       (invokeArrayWithObjects_body J env native efi64 fuel ctxAddress function paramBuffer []) w"

definition Foreign_invokeArrayWithObjectsReturnStruct ::
  "'j jni \<Rightarrow> addr \<Rightarrow> ('j, 'a) jni_world_scheme native \<Rightarrow> ('j, 'a) jni_world_scheme efi64 \<Rightarrow> nat \<Rightarrow> jlong \<Rightarrow> jlong
     \<Rightarrow> jobject \<Rightarrow> jint \<Rightarrow> jobject \<Rightarrow> jobject \<Rightarrow> jobject \<Rightarrow> jint \<Rightarrow> ('j, 'a) jni_world_scheme \<Rightarrow> ('j, 'a) jni_world_scheme option"
where
  "Foreign_invokeArrayWithObjectsReturnStruct J env native efi64 fuel ctxAddress function paramBuffer objectCount objectInfo
       objectArray returnBuffer offset w =
     return_struct J ctxAddress returnBuffer offset
       (invokeArrayWithObjects J env native efi64 fuel ctxAddress function paramBuffer objectCount objectInfo objectArray) w"

text \<open>\<open>invokePointerParameterArray\<close>: the caller gives the addresses of the arguments. The array
  region may be refused; the exception then stays pending and the addresses are undetermined.\<close>

definition Foreign_invokePointerParameterArray ::
  "'j jni \<Rightarrow> ('j, 'a) jni_world_scheme native \<Rightarrow> ('j, 'a) jni_world_scheme efi64 \<Rightarrow> nat \<Rightarrow> jlong \<Rightarrow> jlong
     \<Rightarrow> jlong \<Rightarrow> jobject \<Rightarrow> ('j, 'a) jni_world_scheme \<Rightarrow> ('j, 'a) jni_world_scheme option"
where
  "Foreign_invokePointerParameterArray J native efi64 fuel ctxAddress function returnBuffer parameterArray w =
     (if ctxAddress = 0 then Some (throwException NullPointer ''context address is null'' [] w)
      else if returnBuffer = 0 then Some (throwException NullPointer ''result buffer is null'' [] w)
      else if parameterArray = NULL then Some (throwException NullPointer ''parameter array is null'' [] w)
      else do {
        c \<leftarrow> ctxs w (j2p ctxAddress);
        parameterCount \<leftarrow> Some (ArrayLength J (jvm w) parameterArray);
        (ffiArgs, w1) \<leftarrow>
          (if 0 < sint parameterCount
           then do {
             (params, w1) \<leftarrow> Some (alloca (nat (sint parameterCount) * 8) w);
             w2 \<leftarrow> GetArrayRegion J JLong parameterArray 0 parameterCount params w1;
             xs \<leftarrow> those (map (\<lambda>i. map_option le_word (load (mem w2) (params + of_nat (8 * i)) 8)) [0..<nat (sint parameterCount)]);
             Some (map j2p xs, w2)
           }
           else Some ([], w));
        w2 \<leftarrow> ffi_call native efi64 fuel (cc_cif c) (j2p function) (j2p returnBuffer) ffiArgs w1;
        Some (w2\<lparr>stack_top := stack_top w\<rparr>)
      })"

definition Foreign_isRawParameterPackingEnabled :: bool where
  "Foreign_isRawParameterPackingEnabled = False"

section \<open>Objects that stop the call\<close>

text \<open>The specification of the checks that stop the call before anything of the object is copied.\<close>

definition object_refused :: "'j jni \<Rightarrow> 'j \<Rightarrow> ObjectParam \<Rightarrow> (exn \<times> string \<times> fmtarg list) option" where
  "object_refused J j p =
     (let type = op_flags p; kind = type AND OB_TYPE_MASK AND NOT OB_PRIM_MASK in
      if kind = OB_ARRAY \<or> kind = OB_BUFFER
      then (if op_object p = NULL then Some (NullPointer, ''null object for parameter %d'', [ArgInt (OBJIDX type)])
            else if kind = OB_BUFFER \<and> BufferAddress J j (op_object p) = NULL
            then Some (NullPointer, ''null direct buffer address for parameter %d'', [ArgInt (OBJIDX type)])
            else None)
      else Some (IllegalArgument, ''Unsupported object type: %#x'', [ArgInt (type AND OB_TYPE_MASK)]))"

lemma jni_kind:
  assumes "(type :: jint) AND OB_TYPE_MASK AND NOT OB_PRIM_MASK = OB_JNI"
  shows "type AND OB_TYPE_MASK \<noteq> OB_JNIENV" and "type AND OB_TYPE_MASK \<noteq> OB_JNIOBJECT"
proof -
  have "(type AND OB_TYPE_MASK) AND NOT OB_PRIM_MASK = OB_JNI" using assms by (simp only: and.assoc)
  then show "type AND OB_TYPE_MASK \<noteq> OB_JNIENV" "type AND OB_TYPE_MASK \<noteq> OB_JNIOBJECT" by auto
qed

lemma object_ptr_refused:
  assumes "object_refused J (jvm w) p = Some (e, fmt, args)"
  shows "object_ptr J env p fr w = Some ((None, fr), throwException e fmt args w)"
  using assms jni_kind [of "op_flags p"]
  by (auto simp: object_refused_def object_ptr_def Let_def split: if_splits)

lemma set_arg_frame:
  fixes w :: "('j, 'a) jni_world_scheme"
  assumes "set_arg arg_types idx ptr fr w = Some (fr', w')"
  shows "fr_arrays fr' = fr_arrays fr \<and> fr_pinned fr' = fr_pinned fr \<and> (\<exists>m. w' = w\<lparr>mem := m\<rparr>)"
proof -
  have "w = w\<lparr>mem := mem w\<rparr>" by simp
  with assms show ?thesis by (auto simp: set_arg_def intro: exI [of _ "mem w"] split: bind_splits if_splits)
qed

lemma converting_mem [simp]: "converting w0 arrays (w\<lparr>mem := m\<rparr>) = converting w0 arrays w"
  by (simp add: converting_def heap_ok_def owns_def)

lemma object_ptr_converting:
  assumes run: "object_ptr J env p fr w = Some ((Some a, fr'), w')" and c: "converting w0 (fr_arrays fr) w"
  shows "converting w0 (fr_arrays fr') w'"
proof (cases "fr_arrays fr' = fr_arrays fr \<and> w' = w")
  case True
  with c show ?thesis by simp
next
  case False
  let ?f = "op_flags p"
  have k: "?f AND OB_TYPE_MASK AND NOT OB_PRIM_MASK = OB_ARRAY" "op_object p \<noteq> NULL" "?f AND OB_PINNED = 0"
    using run False by (auto simp: object_ptr_def Let_def split: if_splits)
  show ?thesis
  proof (cases "sint (op_length p) < sint MAX_STACK_ARRAY")
    case True
    obtain ptr w1 where al: "alloca (unat (widen (jffi_arraySize (op_length p + 1) ?f))) w = (ptr, w1)" by fastforce
    from run k True obtain b ary where
      g: "jffi_getArrayBuffer J (op_object p) (op_offset p) (op_length p) ?f ptr w1 = Some ((b, ary), w')" "b \<noteq> NULL"
      "fr_arrays fr' = fr_arrays fr @ [ary]"
      by (auto simp: object_ptr_def Let_def al split: bind_splits if_splits)
    from converting_buffer [OF c al g(1,2)] show ?thesis by (simp add: g(3))
  next
    case small: False
    with run k obtain b ary where
      g: "jffi_getArrayHeap J (op_object p) (op_offset p) (op_length p) ?f w = Some ((b, ary), w')" "b \<noteq> NULL"
      "fr_arrays fr' = fr_arrays fr @ [ary]"
      by (auto simp: object_ptr_def Let_def split: bind_splits if_splits)
    from converting_heap [OF c g(1,2)] show ?thesis by (simp add: g(3))
  qed
qed

lemma put_objects_converting:
  "put_objects J env arg_types objects fr w = Some ((True, fr'), w') \<Longrightarrow> converting w0 (fr_arrays fr) w
   \<Longrightarrow> converting w0 (fr_arrays fr') w'"
proof (induction objects arbitrary: fr w)
  case (Cons p objects)
  from Cons.prems(1) obtain a fr1 w1 fr2 w2 where s: "object_ptr J env p fr w = Some ((Some a, fr1), w1)"
    "set_arg arg_types (OBJIDX (op_flags p)) a fr1 w1 = Some (fr2, w2)"
    "put_objects J env arg_types objects fr2 w2 = Some ((True, fr'), w')"
    by (auto split: bind_splits option.splits)
  have "converting w0 (fr_arrays fr2) w2"
    using object_ptr_converting [OF s(1) Cons.prems(2)] set_arg_frame [OF s(2)] by auto
  from Cons.IH [OF s(3) this] show ?case .
qed simp

lemma put_objects_append:
  "put_objects J env arg_types objects fr w = Some ((True, fr1), w1) \<Longrightarrow>
   put_objects J env arg_types (objects @ rest) fr w = put_objects J env arg_types rest fr1 w1"
proof (induction objects arbitrary: fr w)
  case (Cons p objects)
  from Cons.prems obtain a fr2 w2 fr3 w3 where s: "object_ptr J env p fr w = Some ((Some a, fr2), w2)"
    "set_arg arg_types (OBJIDX (op_flags p)) a fr2 w2 = Some (fr3, w3)"
    "put_objects J env arg_types objects fr3 w3 = Some ((True, fr1), w1)"
    by (auto split: bind_splits option.splits)
  with Cons.IH [OF s(3)] show ?case by simp
qed simp

lemma jni_refused:
  assumes "op_flags p AND 0xf0000000 = 0x40000000"
  shows "object_refused J j p = Some (IllegalArgument, ''Unsupported object type: %#x'', [ArgInt (op_flags p AND OB_TYPE_MASK)])"
proof -
  have "op_flags p AND OB_TYPE_MASK AND NOT OB_PRIM_MASK = OB_JNI" using assms by (simp add: and.assoc)
  then show ?thesis by (simp add: object_refused_def Let_def)
qed

section \<open>The parameter buffer\<close>

lemma COPY_ARGS_slots:
  assumes "list_all (\<lambda>p. \<exists>t. types w p = Some t \<and> ft_type t \<noteq> FFI_TYPE_STRUCT) ps"
  shows "COPY_ARGS w src ps = Some (map (\<lambda>i. src + of_nat (8 * i)) [0..<length ps])"
  using assms
proof (induction ps arbitrary: src)
  case (Cons p ps)
  then obtain t where "types w p = Some t" "ft_type t \<noteq> FFI_TYPE_STRUCT" by auto
  moreover have "map (\<lambda>i. src + of_nat (8 * i)) [0..<length (p # ps)]
      = src # map (\<lambda>i. src + 8 + of_nat (8 * i)) [0..<length ps]"
    by (simp add: map_upt_Suc algebra_simps del: upt_Suc)
  ultimately show ?case using Cons by simp
qed simp

lemma concat_slots:
  assumes "i < length xs"
  shows "take 8 (drop (8 * i) (concat (map (le_bytes 8) xs))) = le_bytes 8 (xs ! i)"
  using assms
proof (induction xs arbitrary: i)
  case (Cons x xs)
  then show ?case by (cases i) simp_all
qed simp

lemma length_slots [simp]: "length (concat (map (le_bytes 8) xs)) = 8 * length xs"
  by (induction xs) simp_all

text \<open>With the buffer read, argument \<open>i\<close> is at slot \<open>i\<close> of a copy in the frame.\<close>

lemma param_slots_run:
  fixes w :: "('j, 'a) jni_world_scheme"
  assumes nargs: "cif_nargs cif = of_nat (length ps)" "length ps < 2 ^ 28"
    and ps: "read_ptrs w (cif_arg_types cif) (length ps) = Some ps"
      "list_all (\<lambda>p. \<exists>t. types w p = Some t \<and> ft_type t \<noteq> FFI_TYPE_STRUCT) ps"
    and buf: "ps \<noteq> [] \<longrightarrow> ArrayRegion J (jvm w) JByte buf 0 (of_nat (8 * length ps)) = Inr (concat (map (le_bytes 8) xs))"
      "length xs = length ps"
    and st: "8 * length ps + 16 \<le> unat (stack_top w)"
  shows "\<exists>tmp m vs. param_slots J cif buf w = Some (vs, w\<lparr>stack_top := tmp, mem := m\<rparr>) \<and> unat tmp \<le> unat (stack_top w)
     \<and> unat (stack_top w) < unat tmp + 8 * length ps + 16
     \<and> list_all2 (\<lambda>v x. load m v 8 = Some (le_bytes 8 x)) vs xs
     \<and> (\<forall>a. unat (stack_top w) \<le> unat a \<longrightarrow> m a = mem w a)"
proof (cases "ps = []")
  case True
  then show ?thesis using nargs buf(2)
    by (intro exI [of _ "stack_top w"] exI [of _ "mem w"] exI [of _ "[]"]) (simp add: param_slots_def)
next
  case False
  have u: "unat (of_nat (length ps) :: u32) = length ps" using nargs(2) by (simp add: unsigned_of_nat take_bit_nat_eq_self)
  with False have nz: "cif_nargs cif \<noteq> 0" using nargs(1) by (metis length_0_conv unsigned_0)
  have n8: "cif_nargs cif * 8 = of_nat (8 * length ps)" by (simp add: nargs(1))
  have lt: "8 * length ps < 2 ^ 31" using nargs(2) by simp
  have un: "unat (of_nat (8 * length ps) :: u32) = 8 * length ps"
    using lt by (simp only: unsigned_of_nat) (simp add: take_bit_nat_eq_self)
  have si: "nat (sint (cif_nargs cif)) = length ps" using nargs sint_of_nat32 [of "length ps"] by simp
  obtain tmp w1 where al: "alloca (8 * length ps) w = (tmp, w1)" by fastforce
  have al': "alloca (unat (cif_nargs cif * 8)) w = (tmp, w1)" by (simp only: n8 un al)
  have w1: "w1 = w\<lparr>stack_top := tmp, mem := map_block tmp (fresh_bytes w tmp (8 * length ps)) (mem w)\<rparr>"
    using al by (auto simp: alloca_def Let_def)
  have sp: "unat tmp + 8 * length ps \<le> unat (stack_top w)" "unat (stack_top w) < unat tmp + 8 * length ps + 16"
    "unat tmp + 8 * length ps \<le> 2 ^ 64"
    using alloca_span [OF al st] by blast+
  let ?bs = "concat (map (le_bytes 8) xs)"
  have len: "length ?bs = 8 * length ps" using buf(2) by simp
  have "span tmp (length ?bs) \<subseteq> dom (mem w1)" unfolding len by (simp add: w1 map_block_dom fresh_bytes_def)
  then obtain m where m: "store (mem w1) tmp ?bs = Some m" using store_defined [of "mem w1" tmp ?bs] by blast
  let ?w2 = "w\<lparr>stack_top := tmp, mem := m\<rparr>" and ?vs = "map (\<lambda>i. tmp + of_nat (8 * i)) [0..<length ps]"
  have g: "GetArrayRegion J JByte buf 0 (ucast (cif_nargs cif * 8)) tmp w1 = Some ?w2"
    using buf(1) False m by (simp add: GetArrayRegion_def n8 w1)
  have rp: "read_ptrs ?w2 (cif_arg_types cif) (length ps) = Some ps" using ps(1) False by (simp add: read_ptrs_def)
  have "COPY_ARGS ?w2 tmp ps = Some ?vs" by (rule COPY_ARGS_slots) (use ps(2) in simp)
  then have "param_slots J cif buf w = Some (?vs, ?w2)"
    using nz g rp by (simp add: param_slots_def al' si)
  moreover have "list_all2 (\<lambda>v x. load m v 8 = Some (le_bytes 8 x)) ?vs xs"
  proof (rule list_all2_all_nthI)
    fix i assume "i < length ?vs"
    then have i: "i < length xs" using buf(2) by simp
    have l: "load m tmp (8 * length ps) = Some ?bs" using load_store_same [OF m] len sp(3) by simp
    show "load m (?vs ! i) 8 = Some (le_bytes 8 (xs ! i))"
      using load_slice [OF l, of "8 * i" 8] concat_slots [OF i] i buf(2) by simp
  qed (use buf(2) in simp)
  moreover have "m a = mem w a" if "unat (stack_top w) \<le> unat a" for a
  proof -
    have "a \<notin> span tmp (8 * length ps)" using span_interval [OF sp(3)] sp(1) that by auto
    then show ?thesis using store_outside [OF m] buf(2) by (simp add: w1 map_block_outside fresh_bytes_def)
  qed
  ultimately show ?thesis using sp by (intro exI [of _ tmp] exI [of _ m] exI [of _ ?vs]) simp
qed


definition invoke_boot_ctx :: CallContext where
  "invoke_boot_ctx = zero_ctx\<lparr>cc_cif := zero_cif\<lparr>cif_abi := FFI_UNIX64, cif_nargs := 2, cif_arg_types := 0x9200,
     cif_rtype := image_symbol ffi_type_sint32, cif_flags := UNIX64_RET_SINT32\<rparr>\<rparr>"

text \<open>A context for \<open>(int, unsigned char)\<close>, a byte array with two slots, and a mapped result address.\<close>

definition invoke_boot :: "jheap jni_world" where
  "invoke_boot = (jni_boot [9 \<mapsto> (JByte, le_bytes 8 0xFFFFFFFF @ le_bytes 8 0x1FF)]
       (map_block 0x7fff1000 (replicate 8 0) Map.empty) [])
     \<lparr>ptrs := [0x9200 \<mapsto> [image_symbol ffi_type_sint32, image_symbol ffi_type_uint8]], ctxs := [0x9100 \<mapsto> invoke_boot_ctx]\<rparr>"

abbreviation (input) boot_params :: "addr list" where
  "boot_params \<equiv> [image_symbol ffi_type_sint32, image_symbol ffi_type_uint8]"

lemma invoke_boot_facts:
  "ctxs invoke_boot (j2p 0x9100) = Some invoke_boot_ctx" "cif_abi (cc_cif invoke_boot_ctx) = FFI_UNIX64"
  "cif_nargs (cc_cif invoke_boot_ctx) = of_nat (length boot_params)"
  "read_ptrs invoke_boot (cif_arg_types (cc_cif invoke_boot_ctx)) (length boot_params) = Some boot_params"
  "list_all2 (\<lambda>p t. types invoke_boot p = Some t \<and> integer_type t) boot_params
     [builtin_type ffi_type_sint32, builtin_type ffi_type_uint8]"
  "boot_params \<noteq> [] \<longrightarrow> ArrayRegion heap_jni (jvm invoke_boot) JByte 9 0 (of_nat (8 * length boot_params))
     = Inr (concat (map (le_bytes 8) [0xFFFFFFFF, 0x1FF]))"
  "types invoke_boot (cif_rtype (cc_cif invoke_boot_ctx)) = Some (builtin_type ffi_type_sint32)"
  "heap_ok invoke_boot" "\<not> raised invoke_boot" "stack_top invoke_boot = 0x7fff0000"
  by (simp_all add: invoke_boot_def invoke_boot_ctx_def zero_cif_def read_ptrs_def jni_boot_def heap_ok_def j2p_def heap_jni_def
      integer_type_def is_int32_code_def is_int64_code_def builtin_type.simps FFI_TYPEDEF_def)


text \<open>Claim C37. A refused object stops a call of the array interface. When the parameter buffer was
  read and the objects before were converted, an object that is null, is a buffer without
  an address, or is neither an array nor a buffer ends the call: its exception is pending, the target is never
  called, and every block allocated for the objects before is free again. The last case covers every
  object of the \<open>JNI\<close> kind, the ones \<open>ObjectBuffer\<close> makes for \<open>JNIENV\<close> and \<open>JNIOBJECT\<close> included.\<close>

theorem invokeArray_refused_object:
  assumes ok: "heap_ok w" and nr: "\<not> raised w"
    and ctx: "ctxs w (j2p ctx) = Some c" "param_slots J (cc_cif c) buf w = Some (ffiArgs, w1)" "\<not> raised w1"
      "read_ptrs w1 (cif_arg_types (cc_cif c)) (nat (sint (cif_nargs (cc_cif c)))) = Some ps"
    and conv: "put_objects J env ps objects \<lparr>fr_ffiArgs = ffiArgs, fr_arrays = [], fr_pinned = []\<rparr> w1 = Some ((True, fr), w2)"
    and bad: "object_refused J (jvm w2) p = Some (e, fmt, args)"
  shows "\<exists>w'. (\<forall>native efi64 fuel function retval.
        invokeArrayWithObjects_body J env native efi64 fuel ctx function buf (objects @ p # rest) retval w = Some w')
     \<and> pending w' = pending (throwException e fmt args w) \<and> blocks w' = blocks w \<and> jvm w' = jvm w2
     \<and> (op_flags p AND 0xf0000000 = 0x40000000 \<longrightarrow>
          (e, fmt, args) = (IllegalArgument, ''Unsupported object type: %#x'', [ArgInt (op_flags p AND OB_TYPE_MASK)]))"
proof -
  have "live w1 = live w \<and> script w1 = script w \<and> find_class w1 = find_class w"
    using ctx(2,3) by (auto simp: param_slots_def GetArrayRegion_def jthrow_def alloca_def Let_def split: bind_splits if_splits sum.splits)
  with ok ctx(3) have "converting w [] w1" by (simp add: converting_def owns_def heap_ok_def)
  then have c: "converting w (fr_arrays fr) w2" using put_objects_converting [OF conv, of w] by simp
  let ?w3 = "throwException e fmt args w2"
  have all: "put_objects J env ps (objects @ p # rest) \<lparr>fr_ffiArgs = ffiArgs, fr_arrays = [], fr_pinned = []\<rparr> w1
      = Some ((False, fr), ?w3)"
    using object_ptr_refused [OF bad, of env fr] by (simp add: put_objects_append [OF conv])
  have "owns (fr_arrays fr) ?w3" using c by (simp add: converting_def owns_def)
  then obtain w4 where w4: "jffi_releaseArrays J (fr_arrays fr) ?w3 = Some w4"
    "blocks w4 = blocks ?w3 - heap_blocks (fr_arrays fr)" "pending w4 = pending ?w3" "jvm w4 = jvm ?w3"
    using release_raised [of ?w3 "fr_arrays fr" J] by auto
  have "pending ?w3 = pending (throwException e fmt args w)"
    using c by (simp add: throwException_def throwExceptionByName_def Let_def converting_def)
  moreover have "blocks w4 = blocks w" using w4(2) c by (auto simp: converting_def)
  moreover have "jvm ?w3 = jvm w2" by (simp add: throwException_def throwExceptionByName_def Let_def)
  ultimately show ?thesis
    using all w4 ctx jni_refused [of p J "jvm w2"] bad
    by (intro exI [of _ "w4\<lparr>stack_top := stack_top w\<rparr>"]) (simp add: invokeArrayWithObjects_body_def)
qed

theorem invokeArray_refused_object_witness:
  "\<exists>w'. (\<forall>native efi64 fuel.
        invokeArrayWithObjects_body (heap_jni\<lparr>BufferAddress := (\<lambda>_ _. 0x5000)\<rparr>) 0x8000 native efi64 fuel 0x9100 0x4000 9
          [\<lparr>op_object = 7, op_offset = 0, op_length = 4, op_flags = 0x20000000\<rparr>,
           \<lparr>op_object = NULL, op_offset = 0, op_length = 0, op_flags = 0x41010000\<rparr>] 0x7fff1000 invoke_boot = Some w')
     \<and> pending w' = Some (JThrow ''java/lang/IllegalArgumentException'' ''Unsupported object type: 0x41000000'')"
proof -
  note f = invoke_boot_facts
  let ?J = "heap_jni\<lparr>BufferAddress := (\<lambda>_ _. 0x5000)\<rparr>"
  let ?p = "\<lparr>op_object = 7, op_offset = 0, op_length = 4, op_flags = 0x20000000\<rparr>"
  let ?q = "\<lparr>op_object = NULL, op_offset = 0, op_length = 0, op_flags = 0x41010000\<rparr>"
  have buf: "boot_params \<noteq> [] \<longrightarrow> ArrayRegion ?J (jvm invoke_boot) JByte 9 0 (of_nat (8 * length boot_params))
     = Inr (concat (map (le_bytes 8) [0xFFFFFFFF, 0x1FF]))" using f(6) by simp
  have nos: "list_all (\<lambda>p. \<exists>t. types invoke_boot p = Some t \<and> ft_type t \<noteq> FFI_TYPE_STRUCT) boot_params"
    using f(5) by (auto simp: integer_type_def is_int32_code_def is_int64_code_def)
  obtain tmp m vs where sl: "param_slots ?J (cc_cif invoke_boot_ctx) 9 invoke_boot = Some (vs, invoke_boot\<lparr>stack_top := tmp, mem := m\<rparr>)"
    "list_all2 (\<lambda>v x. load m v 8 = Some (le_bytes 8 x)) vs [0xFFFFFFFF, 0x1FF]"
    using param_slots_run [OF f(3) _ f(4) nos buf] by (auto simp: f(10))
  let ?w1 = "invoke_boot\<lparr>stack_top := tmp, mem := m\<rparr>"
  have vs: "length vs = 2" "vs \<noteq> []" using list_all2_lengthD [OF sl(2)] by auto
  have rp: "read_ptrs ?w1 (cif_arg_types (cc_cif invoke_boot_ctx)) (nat (sint (cif_nargs (cc_cif invoke_boot_ctx)))) = Some boot_params"
    using f(4) by (simp add: read_ptrs_def invoke_boot_ctx_def numeral_2_eq_2)
  have t: "types invoke_boot (image_symbol ffi_type_sint32) = Some (builtin_type ffi_type_sint32)" using f(5) by simp
  have put: "put_objects ?J 0x8000 boot_params [?p] \<lparr>fr_ffiArgs = vs, fr_arrays = [], fr_pinned = []\<rparr> ?w1
      = Some ((True, \<lparr>fr_ffiArgs = vs[0 := 0x5000], fr_arrays = [], fr_pinned = []\<rparr>), ?w1)"
    using vs t by (simp add: object_ptr_def set_arg_def OBJIDX_def Let_def builtin_type.simps FFI_TYPEDEF_def)
  have bad: "object_refused ?J (jvm ?w1) ?q = Some (IllegalArgument, ''Unsupported object type: %#x'', [ArgInt 0x41000000])"
    by (simp add: object_refused_def Let_def)
  have e8: "(8 :: nat) = Suc (Suc (Suc (Suc (Suc (Suc (Suc (Suc 0)))))))" by simp
  have fx: "fmt_x 0x41000000 = ''0x41000000''" unfolding fmt_x_def e8 by simp
  have "pending (throwException IllegalArgument ''Unsupported object type: %#x'' [ArgInt 0x41000000] invoke_boot)
      = Some (JThrow ''java/lang/IllegalArgumentException'' ''Unsupported object type: 0x41000000'')"
    by (simp add: throwException_def throwExceptionByName_def invoke_boot_def jni_boot_def fx)
  note msg = this
  have "\<not> raised ?w1" using f(9) by simp
  note stop = invokeArray_refused_object [OF f(8,9,1) sl(1) this rp put bad, where rest = "[]"]
  from stop obtain w' where
    run: "\<forall>native efi64 fuel fn retval. invokeArrayWithObjects_body ?J 0x8000 native efi64 fuel 0x9100 fn 9 ([?p] @ ?q # []) retval invoke_boot = Some w'"
    and "pending w' = pending (throwException IllegalArgument ''Unsupported object type: %#x'' [ArgInt 0x41000000] invoke_boot)"
    by (elim exE conjE) (rule that)
  with msg have "pending w' = Some (JThrow ''java/lang/IllegalArgumentException'' ''Unsupported object type: 0x41000000'')"
    by (simp only:)
  with run show ?thesis unfolding append_Cons append_Nil by (intro exI [of _ w'] conjI allI) (elim allE, assumption, assumption)
qed

end
