(* ===== verification/Jffi_Library.thy ===== *)
theory Jffi_Library
  imports Jffi_MemoryIO "HOL-Library.Sublist"
begin

text \<open>
  \<^verbatim>\<open>jni/jffi/Library.c\<close>, in its branches for systems with \<open>dlfcn.h\<close>: Java strings turned into C strings
  in fixed buffers and handed to the dynamic linker. The linker and the Java strings are parameters;
  \<open>wcstombs\<close> of the C library is defined here over the character encoding \<open>enc\<close> of the locale, which
  maps a wide character to its bytes or refuses it.
\<close>

section \<open>Java strings, wide characters, the linker\<close>

record 'j strings =
  GetStringLength :: "'j \<Rightarrow> jobject \<Rightarrow> jint"
  GetStringChars :: "'j \<Rightarrow> jobject \<Rightarrow> u16 list option \<times> 'j"
  ReleaseStringChars :: "'j \<Rightarrow> jobject \<Rightarrow> 'j"
  NewStringUTF :: "'j \<Rightarrow> string \<Rightarrow> jobject \<times> 'j"

record 'w linker =
  dl_open :: "byte list option \<Rightarrow> jint \<Rightarrow> 'w \<Rightarrow> addr \<times> 'w"
  dl_sym :: "addr \<Rightarrow> byte list \<Rightarrow> 'w \<Rightarrow> addr \<times> 'w"
  dl_close :: "addr \<Rightarrow> 'w \<Rightarrow> 'w"
  dl_error :: "'w \<Rightarrow> string option \<times> 'w"

type_synonym encoding = "u32 \<Rightarrow> byte list option"

abbreviation (input) PATH_MAX :: nat where "PATH_MAX \<equiv> 4096"

text \<open>\<open>wcstombs\<close> on a wide string without its terminator: the bytes it stores in a buffer of \<open>n\<close> bytes and
  its result, \<open>-1\<close> at a character that has no encoding. A character that does not fit ends the
  conversion, and so does a full buffer: then there is no terminator.\<close>

fun wcstombs :: "encoding \<Rightarrow> nat \<Rightarrow> u32 list \<Rightarrow> byte list \<times> jint" where
  "wcstombs enc n [] = (if n = 0 then [] else [0], 0)"
| "wcstombs enc n (c # cs) =
     (if c = 0 then (if n = 0 then [] else [0], 0)
      else case enc c of
             None \<Rightarrow> ([], - 1)
           | Some bs \<Rightarrow>
               if n < length bs then ([], 0)
               else (let (out, r) = wcstombs enc (n - length bs) cs
                     in (bs @ out, if r = - 1 then - 1 else of_nat (length bs) + r)))"

text \<open>The characters of a Java string; reading them through a null pointer is undefined, as is the
  length of a null string.\<close>

definition string_chars ::
  "'j strings \<Rightarrow> jobject \<Rightarrow> nat \<Rightarrow> ('j, 'a) jni_world_scheme \<Rightarrow> (u16 list \<times> ('j, 'a) jni_world_scheme) option"
where
  "string_chars S src len w =
     (case GetStringChars S (jvm w) src of
        (None, j) \<Rightarrow> if len = 0 then Some ([], w\<lparr>jvm := j\<rparr>) else None
      | (Some cs, j) \<Rightarrow> if len \<le> length cs then Some (take len cs, w\<lparr>jvm := ReleaseStringChars S j src\<rparr>) else None)"

definition getMultibyteString ::
  "'j strings \<Rightarrow> encoding \<Rightarrow> addr \<Rightarrow> jobject \<Rightarrow> nat \<Rightarrow> ('j, 'a) jni_world_scheme \<Rightarrow> (jint \<times> ('j, 'a) jni_world_scheme) option"
where
  "getMultibyteString S enc dst src n w =
     (if src = NULL then None
      else do {
        len \<leftarrow> Some (nat (sint (GetStringLength S (jvm w) src)));
        (jstr, w1) \<leftarrow> string_chars S src len w;
        (out, r) \<leftarrow> Some (wcstombs enc n (map ucast jstr));
        m \<leftarrow> store (mem w1) dst out;
        Some (r, w1\<lparr>mem := m\<rparr>)
      })"

text \<open>The result is the length and the \<open>wchar_t\<close> values written to \<open>dst\<close>, terminator included.\<close>

definition getWideString ::
  "'j strings \<Rightarrow> jobject \<Rightarrow> nat \<Rightarrow> ('j, 'a) jni_world_scheme \<Rightarrow> ((nat \<times> u32 list) \<times> ('j, 'a) jni_world_scheme) option"
where
  "getWideString S src n w =
     (if src = NULL \<or> n = 0 then None
      else do {
        len \<leftarrow> Some (min (nat (sint (GetStringLength S (jvm w) src))) (n - 1));
        (jstr, w1) \<leftarrow> string_chars S src len w;
        Some ((len, map ucast jstr @ [0]), w1)
      })"

section \<open>The exported functions\<close>

text \<open>\<open>dl_error(errbuf, sizeof(errbuf) - 1)\<close>: at most 1022 characters.\<close>

definition dl_error_message :: "'w linker \<Rightarrow> 'w \<Rightarrow> string \<times> 'w" where
  "dl_error_message L w = (let (e, w1) = dl_error L w in (take 1022 (case e of Some s \<Rightarrow> s | None \<Rightarrow> ''unknown''), w1))"

definition link_error :: "('j, 'a) jni_world_scheme linker \<Rightarrow> ('j, 'a) jni_world_scheme \<Rightarrow> ('j, 'a) jni_world_scheme" where
  "link_error L w = (let (errbuf, w1) = dl_error_message L w in throwException UnsatisfiedLink ''%s'' [ArgStr errbuf] w1)"

text \<open>The bits of Java's \<open>RTLD\<close> constants, translated to those of the system.\<close>

definition dlopen_flags :: "jint \<Rightarrow> jint" where
  "dlopen_flags jFlags =
     (if jFlags AND 0x1 \<noteq> 0 then 0x1 else 0) OR (if jFlags AND 0x8 \<noteq> 0 then 0x100 else 0)
     OR (if jFlags AND 0x4 \<noteq> 0 then 0 else 0) OR (if jFlags AND 0x2 \<noteq> 0 then 0x2 else 0)"

definition c_string :: "memory \<Rightarrow> addr \<Rightarrow> byte list option" where
  "c_string m p = do { n \<leftarrow> strlen m p; load m p n }"

definition Foreign_dlopen ::
  "'j strings \<Rightarrow> encoding \<Rightarrow> ('j, 'a) jni_world_scheme linker \<Rightarrow> jobject \<Rightarrow> jint
     \<Rightarrow> ('j, 'a) jni_world_scheme \<Rightarrow> (jlong \<times> ('j, 'a) jni_world_scheme) option"
where
  "Foreign_dlopen S enc L jPath jFlags w = do {
     (pathbuf, w1) \<leftarrow> Some (alloca PATH_MAX w);
     flags \<leftarrow> Some (dlopen_flags jFlags);
     (path, w2) \<leftarrow> (if jPath = NULL then Some (None, w1)
                   else do {
                     (_, w2) \<leftarrow> getMultibyteString S enc pathbuf jPath PATH_MAX w1;
                     name \<leftarrow> c_string (mem w2) pathbuf;
                     Some (Some name, w2)
                   });
     (handle, w3) \<leftarrow> Some (dl_open L path (if flags \<noteq> 0 then flags else 0x1) w2);
     w4 \<leftarrow> Some (if handle = NULL then link_error L w3 else w3);
     Some (p2j handle, w4\<lparr>stack_top := stack_top w\<rparr>)
   }"

definition Foreign_dlclose :: "('j, 'a) jni_world_scheme linker \<Rightarrow> jlong \<Rightarrow> ('j, 'a) jni_world_scheme \<Rightarrow> ('j, 'a) jni_world_scheme" where
  "Foreign_dlclose L handle w = dl_close L (j2p handle) w"

definition Foreign_dlsym ::
  "'j strings \<Rightarrow> encoding \<Rightarrow> ('j, 'a) jni_world_scheme linker \<Rightarrow> jlong \<Rightarrow> jobject
     \<Rightarrow> ('j, 'a) jni_world_scheme \<Rightarrow> (jlong \<times> ('j, 'a) jni_world_scheme) option"
where
  "Foreign_dlsym S enc L handle jstr w = do {
     (sym, w1) \<leftarrow> Some (alloca 1024 w);
     (_, w2) \<leftarrow> getMultibyteString S enc sym jstr 1024 w1;
     (_, w3) \<leftarrow> Some (dl_error L w2);
     name \<leftarrow> c_string (mem w3) sym;
     (a, w4) \<leftarrow> Some (dl_sym L (j2p handle) name w3);
     w5 \<leftarrow> Some (if a = NULL then link_error L w4 else w4);
     Some (p2j a, w5\<lparr>stack_top := stack_top w\<rparr>)
   }"

definition Foreign_dlerror ::
  "'j strings \<Rightarrow> ('j, 'a) jni_world_scheme linker \<Rightarrow> ('j, 'a) jni_world_scheme \<Rightarrow> jobject \<times> ('j, 'a) jni_world_scheme"
where
  "Foreign_dlerror S L w =
     (let (errbuf, w1) = dl_error_message L w; (s, j) = NewStringUTF S (jvm w1) errbuf in (s, w1\<lparr>jvm := j\<rparr>))"

section \<open>The conversion\<close>

text \<open>The specification: the bytes of the characters before the first zero, if all have an encoding.\<close>

fun encode :: "encoding \<Rightarrow> u32 list \<Rightarrow> byte list option" where
  "encode enc [] = Some []"
| "encode enc (c # cs) =
     (if c = 0 then Some [] else do { bs \<leftarrow> enc c; rest \<leftarrow> encode enc cs; Some (bs @ rest) })"

text \<open>Documented of a locale's encoding: no byte of a character other than null is zero.\<close>

definition encoding_law :: "encoding \<Rightarrow> bool" where
  "encoding_law enc \<longleftrightarrow> (\<forall>c bs. c \<noteq> 0 \<longrightarrow> enc c = Some bs \<longrightarrow> 0 \<notin> set bs)"

lemma wcstombs_fits:
  "encode enc ws = Some bs \<Longrightarrow> length bs < n \<Longrightarrow> fst (wcstombs enc n ws) = bs @ [0]"
  by (induction enc n ws arbitrary: bs rule: wcstombs.induct)
     (auto simp: Let_def split: if_splits option.splits bind_splits prod.splits, force)

lemma encode_nonzero: "encoding_law enc \<Longrightarrow> encode enc ws = Some bs \<Longrightarrow> 0 \<notin> set bs"
  by (induction ws arbitrary: bs) (auto simp: encoding_law_def split: if_splits bind_splits)

text \<open>The buffer is never overrun; a conversion that fills or almost fills it leaves it without
  a terminator.\<close>

lemma wcstombs_bound: "length (fst (wcstombs enc n ws)) \<le> n"
  by (induction enc n ws rule: wcstombs.induct) (auto simp: Let_def split: option.splits prod.splits)

lemma wcstombs_overflow:
  "encoding_law enc \<Longrightarrow> encode enc ws = Some bs \<Longrightarrow> n \<le> length bs
   \<Longrightarrow> 0 \<notin> set (fst (wcstombs enc n ws)) \<and> prefix (fst (wcstombs enc n ws)) bs"
proof (induction enc n ws arbitrary: bs rule: wcstombs.induct)
  case (2 enc n c cs)
  show ?case
  proof (cases "c = 0")
    case False
    with 2(3) obtain b rest where b: "enc c = Some b" "encode enc cs = Some rest" "bs = b @ rest"
      by (auto split: bind_splits)
    show ?thesis
    proof (cases "n < length b")
      case fits: False
      have "0 \<notin> set (fst (wcstombs enc (n - length b) cs)) \<and> prefix (fst (wcstombs enc (n - length b) cs)) rest"
        by (rule 2(1) [OF False b(1) fits 2(2) b(2)]) (use 2(4) b(3) fits in simp)
      moreover have "0 \<notin> set b" using 2(2) False b(1) by (auto simp: encoding_law_def)
      ultimately show ?thesis using False b fits by (auto simp: case_prod_unfold Let_def)
    qed (use False b in simp)
  qed (use 2 in auto)
qed simp

lemma wcstombs_single:
  assumes "\<forall>c \<in> set ws. \<exists>b. enc c = Some [b]" and "encode enc ws = Some bs" and "n \<le> length bs"
  shows "fst (wcstombs enc n ws) = take n bs"
  using assms
proof (induction enc n ws arbitrary: bs rule: wcstombs.induct)
  case (2 enc n c cs)
  show ?case
  proof (cases "c = 0")
    case False
    with 2(2,3) obtain b rest where b: "enc c = Some [b]" "encode enc cs = Some rest" "bs = b # rest"
      by (fastforce split: bind_splits)
    show ?thesis
    proof (cases n)
      case (Suc k)
      then have "fst (wcstombs enc (n - length [b]) cs) = take (n - length [b]) rest"
        by (intro 2(1) [OF False b(1) _ _ b(2)]) (use 2(2,4) b(3) in auto)
      with False b Suc show ?thesis by (simp add: case_prod_unfold Let_def)
    qed (use False b in simp)
  qed (use 2 in auto)
qed simp

section \<open>Looking a symbol up\<close>

text \<open>\<open>getMultibyteString\<close> for a Java string that the virtual machine hands out.\<close>

lemma getMultibyteString_run:
  fixes w :: "('j, 'a) jni_world_scheme"
  assumes str: "src \<noteq> NULL" "GetStringLength S (jvm w) src = of_nat (length cs)" "length cs < 2 ^ 31"
      "GetStringChars S (jvm w) src = (Some cs, j)"
    and room: "span dst n \<subseteq> dom (mem w)"
  shows "\<exists>m. getMultibyteString S enc dst src n w
      = Some (snd (wcstombs enc n (map ucast cs)), w\<lparr>jvm := ReleaseStringChars S j src, mem := m\<rparr>)
    \<and> store (mem w) dst (fst (wcstombs enc n (map ucast cs))) = Some m"
proof -
  let ?out = "fst (wcstombs enc n (map ucast cs))"
  have "span dst (length ?out) \<subseteq> dom (mem w)" using room span_mono [OF wcstombs_bound] by blast
  then obtain m where m: "store (mem w) dst ?out = Some m" using store_defined [of "mem w" dst ?out] by blast
  have "nat (sint (of_nat (length cs) :: jint)) = length cs" using str(3) sint_of_nat32 [of "length cs"] by simp
  with str m show ?thesis
    by (intro exI [of _ m]) (simp add: getMultibyteString_def string_chars_def case_prod_unfold Let_def)
qed

lemma c_string_store:
  assumes "store m p (bs @ [0]) = Some m'" and "0 \<notin> set bs" and "length bs < 2 ^ 64 - 1"
  shows "c_string m' p = Some bs"
proof -
  have l: "load m' p (length bs + 1) = Some (bs @ [0])" using load_store_same [OF assms(1)] assms(3) by simp
  have n: "m' (p + of_nat i) = Some ((bs @ [0]) ! i)" if "i \<le> length bs" for i
    using l that unfolding load_Some_nth by simp
  have "strlen m' p = Some (length bs)" unfolding strlen_iff
  proof (intro conjI allI impI)
    show "m' (p + of_nat (length bs)) = Some 0" using n [of "length bs"] by simp
    show "\<exists>b. m' (p + of_nat i) = Some b \<and> b \<noteq> 0" if "i < length bs" for i
      using n [of i] that assms(2) by (auto simp: nth_append in_set_conv_nth)
  qed
  moreover have "load m' p (length bs) = Some bs" using load_prefix [OF l, of "length bs"] by simp
  ultimately show ?thesis by (simp add: c_string_def)
qed

lemma c_string_long:
  assumes "c_string m p = Some name" and "load m p n = Some bs" and "0 \<notin> set bs"
  shows "n \<le> length name \<and> take n name = bs"
proof -
  from assms(1) obtain k where k: "strlen m p = Some k" "load m p k = Some name"
    by (auto simp: c_string_def split: bind_splits)
  have z: "m (p + of_nat k) = Some 0" using k(1) by (simp add: strlen_iff)
  have "n \<le> k"
  proof (rule ccontr)
    assume "\<not> n \<le> k"
    then have "k < length bs" using load_length [OF assms(2)] by simp
    with assms(2) have "m (p + of_nat k) = Some (bs ! k)" by (simp add: load_Some_nth)
    with z assms(3) \<open>k < length bs\<close> show False by (metis nth_mem option.inject)
  qed
  with load_prefix [OF k(2)] assms(2) load_length [OF k(2)] show ?thesis by auto
qed

text \<open>Claim C38. The name a symbol is looked up by. For a Java string whose characters all have an encoding,
  \<open>dlsym\<close> asks the linker for exactly the encoded bytes when they fit its buffer of 1024 with the
  terminator, and returns the linker's address; a null answer comes with an \<open>UnsatisfiedLinkError\<close>. When the
  bytes (of a one-byte encoding) fill the buffer it has no terminator: the linker is then asked for
  the first 1024 bytes and whatever follows the buffer in memory, up to the next zero byte.\<close>

theorem dlsym_name:
  fixes w :: "('j, 'a) jni_world_scheme"
  assumes law: "encoding_law enc" "\<And>v. mem (snd (dl_error L v)) = mem v"
    and str: "jstr \<noteq> NULL" "GetStringLength S (jvm w) jstr = of_nat (length cs)" "length cs < 2 ^ 31"
      "GetStringChars S (jvm w) jstr = (Some cs, j)"
    and enc: "encode enc (map ucast cs) = Some bs" and st: "2048 \<le> unat (stack_top w)"
  shows "(length bs < 1024 \<longrightarrow> (\<exists>s m a w1.
        dl_sym L (j2p handle) bs (snd (dl_error L (w\<lparr>stack_top := s, jvm := ReleaseStringChars S j jstr, mem := m\<rparr>))) = (a, w1)
      \<and> (\<forall>p. unat (stack_top w) \<le> unat p \<longrightarrow> m p = mem w p)
      \<and> Foreign_dlsym S enc L handle jstr w = Some (p2j a, (if a = NULL then link_error L w1 else w1)\<lparr>stack_top := stack_top w\<rparr>)))
    \<and> (1024 \<le> length bs \<and> (\<forall>c \<in> set cs. \<exists>b. enc (ucast c) = Some [b]) \<longrightarrow>
        (\<forall>h w'. Foreign_dlsym S enc L handle jstr w = Some (h, w') \<longrightarrow>
           (\<exists>name v. 1024 \<le> length name \<and> take 1024 name = take 1024 bs \<and> h = p2j (fst (dl_sym L (j2p handle) name v)))))"
proof -
  obtain s w0 where al: "alloca 1024 w = (s, w0)" by fastforce
  have w0: "w0 = w\<lparr>stack_top := s, mem := map_block s (fresh_bytes w s 1024) (mem w)\<rparr>"
    using al by (auto simp: alloca_def Let_def)
  have sp: "unat s + 1024 \<le> unat (stack_top w)" "unat s + 1024 \<le> 2 ^ 64" using alloca_span [OF al] st by simp_all
  have room: "span s 1024 \<subseteq> dom (mem w0)" by (simp add: w0 map_block_dom fresh_bytes_def)
  let ?out = "fst (wcstombs enc 1024 (map ucast cs))"
  from getMultibyteString_run [OF str(1) _ str(3) _ room, of S j enc] str obtain m where
    g: "getMultibyteString S enc s jstr 1024 w0
      = Some (snd (wcstombs enc 1024 (map ucast cs)), w0\<lparr>jvm := ReleaseStringChars S j jstr, mem := m\<rparr>)"
    and m: "store (mem w0) s ?out = Some m" by (auto simp: w0)
  let ?w2 = "w\<lparr>stack_top := s, jvm := ReleaseStringChars S j jstr, mem := m\<rparr>"
  have w2: "w0\<lparr>jvm := ReleaseStringChars S j jstr, mem := m\<rparr> = ?w2" by (simp add: w0)
  have above: "m p = mem w p" if "unat (stack_top w) \<le> unat p" for p
  proof -
    have "p \<notin> span s 1024" using span_interval [OF sp(2)] sp(1) that by auto
    then have "p \<notin> span s (length ?out)" "p \<notin> span s (length (fresh_bytes w s 1024))"
      using span_mono [OF wcstombs_bound [of enc 1024 "map ucast cs"]] by (auto simp: fresh_bytes_def)
    then show ?thesis using store_outside [OF m] by (simp add: w0 map_block_outside)
  qed
  have run: "Foreign_dlsym S enc L handle jstr w = do {
       name \<leftarrow> c_string m s;
       (a, w4) \<leftarrow> Some (dl_sym L (j2p handle) name (snd (dl_error L ?w2)));
       Some (p2j a, (if a = NULL then link_error L w4 else w4)\<lparr>stack_top := stack_top w\<rparr>) }"
    by (simp add: Foreign_dlsym_def al g w2 law(2) case_prod_unfold cong: if_cong)
  have nz: "0 \<notin> set bs" by (rule encode_nonzero [OF law(1) enc])
  have "\<exists>a w1. dl_sym L (j2p handle) bs (snd (dl_error L ?w2)) = (a, w1)
      \<and> Foreign_dlsym S enc L handle jstr w = Some (p2j a, (if a = NULL then link_error L w1 else w1)\<lparr>stack_top := stack_top w\<rparr>)"
    if "length bs < 1024"
  proof -
    have "c_string m s = Some bs"
      by (rule c_string_store [of "mem w0"]) (use m wcstombs_fits [OF enc that] nz that in simp_all)
    moreover obtain a w1 where "dl_sym L (j2p handle) bs (snd (dl_error L ?w2)) = (a, w1)" by fastforce
    ultimately show ?thesis by (intro exI [of _ a] exI [of _ w1]) (simp add: run)
  qed
  moreover have "\<exists>name v. 1024 \<le> length name \<and> take 1024 name = take 1024 bs \<and> h = p2j (fst (dl_sym L (j2p handle) name v))"
    if long: "1024 \<le> length bs" "\<forall>c \<in> set cs. \<exists>b. enc (ucast c) = Some [b]"
      and ret: "Foreign_dlsym S enc L handle jstr w = Some (h, w')" for h w'
  proof -
    have o: "?out = take 1024 bs" by (rule wcstombs_single [OF _ enc long(1)]) (use long(2) in auto)
    have l: "load m s 1024 = Some (take 1024 bs)" using load_store_same [OF m] long(1) by (simp add: o)
    from ret obtain name where name: "c_string m s = Some name"
      "h = p2j (fst (dl_sym L (j2p handle) name (snd (dl_error L ?w2))))"
      by (auto simp: run case_prod_unfold split: bind_splits)
    have "0 \<notin> set (take 1024 bs)" using nz by (meson in_set_takeD)
    from c_string_long [OF name(1) l this] name(2) show ?thesis by blast
  qed
  ultimately show ?thesis using above by blast
qed

text \<open>A linker that knows the symbol \<open>ab\<close>, ASCII strings by handle.\<close>

definition ascii :: encoding where
  "ascii c = (if c < 128 then Some [ucast c] else None)"

definition toy_strings :: "unit strings" where
  "toy_strings = \<lparr>GetStringLength = (\<lambda>_ r. if r = 7 then 2 else 2000),
     GetStringChars = (\<lambda>_ r. (Some (if r = 7 then [97, 98] else replicate 2000 120), ())),
     ReleaseStringChars = (\<lambda>_ _. ()), NewStringUTF = (\<lambda>_ _. (NULL, ()))\<rparr>"

definition toy_linker :: "'w linker" where
  "toy_linker = \<lparr>dl_open = (\<lambda>_ _ w. (NULL, w)), dl_sym = (\<lambda>_ name w. (if name = [97, 98] then 0x4000 else NULL, w)),
     dl_close = (\<lambda>_ w. w), dl_error = (\<lambda>w. (Some ''no such symbol'', w))\<rparr>"

definition library_boot :: "unit jni_world" where
  "library_boot = \<lparr>script = [], live = Map.empty, find_class = (\<lambda>_. True), pending = None,
     types = image_types, ptrs = Map.empty, symbol = image_symbol,
     mem = Map.empty, stack_top = 0x7fff0000, garbage = (\<lambda>_. 0xCC), stale = (\<lambda>_. 0xDEAD),
     ctxs = Map.empty, ints = Map.empty,
     self = 0, specific = (\<lambda>_. NULL), tdata = Map.empty, errno = (\<lambda>_. 0), jvm = ()\<rparr>"

lemma ascii_law: "encoding_law ascii"
proof -
  have "(ucast c :: byte) \<noteq> 0" if "c \<noteq> 0" "c < 128" for c :: u32
  proof
    assume "(ucast c :: byte) = 0"
    then have "unat (ucast c :: byte) = 0" by simp
    moreover have "unat c < 128" using that(2) by (simp add: word_less_nat_alt)
    ultimately have "unat c = 0" by (simp add: unsigned_ucast_eq take_bit_nat_eq_self)
    with that(1) show False by (simp add: unat_eq_0)
  qed
  then show ?thesis by (auto simp: encoding_law_def ascii_def split: if_splits)
qed

theorem dlsym_name_witness:
  "\<exists>w'. Foreign_dlsym toy_strings ascii toy_linker 0x9000 7 library_boot = Some (0x4000, w')"
proof -
  have e: "encode ascii (map ucast [97 :: u16, 98]) = Some [97, 98]" by (simp add: ascii_def)
  have str: "GetStringLength toy_strings (jvm library_boot) 7 = of_nat (length [97 :: u16, 98])"
    "GetStringChars toy_strings (jvm library_boot) 7 = (Some [97, 98], ())" by (simp_all add: toy_strings_def)
  have st: "2048 \<le> unat (stack_top library_boot)" by (simp add: library_boot_def)
  have l: "mem (snd (dl_error toy_linker v)) = mem v" for v :: "unit jni_world" by (simp add: toy_linker_def)
  from dlsym_name [OF ascii_law l _ str(1) _ str(2) e st, of "0x9000"] obtain s m a and w1 :: "unit jni_world" where
    "dl_sym toy_linker (j2p 0x9000) [97, 98] (snd (dl_error toy_linker
       (library_boot\<lparr>stack_top := s, jvm := ReleaseStringChars toy_strings () 7, mem := m\<rparr>))) = (a, w1)"
    "Foreign_dlsym toy_strings ascii toy_linker 0x9000 7 library_boot
       = Some (p2j a, (if a = NULL then link_error toy_linker w1 else w1)\<lparr>stack_top := stack_top library_boot\<rparr>)"
    by auto
  moreover from this(1) have "a = 0x4000" by (simp add: toy_linker_def)
  ultimately show ?thesis by (simp add: p2j_def)
qed

end
