(* ===== verification/Jffi_LongDouble.thy ===== *)
theory Jffi_LongDouble
  imports Jffi_Library
begin

text \<open>
  \<^verbatim>\<open>jni/jffi/LongDouble.c\<close>: \<open>long double\<close> values, kept by Java as byte arrays, turned into strings and
  \<open>double\<close>s and back. A \<open>long double\<close> is its 16 bytes in memory: the 64 bits of the significand, the 15
  of the exponent and the sign, and six bytes of padding. \<open>strtold\<close> and the formats \<open>%.35Le\<close> and \<open>%.35Lg\<close>
  of the C library are parameters; \<open>%.35Lf\<close> and the conversions from and to \<open>double\<close> are defined here.
\<close>

section \<open>The format\<close>

type_synonym long_double = "byte list"

definition ld_mant :: "long_double \<Rightarrow> nat" where
  "ld_mant ld = unat (le_word (take 8 ld))"

definition ld_expo :: "long_double \<Rightarrow> nat" where
  "ld_expo ld = unat (take_bit 15 (le_word (take 2 (drop 8 ld))))"

definition ld_neg :: "long_double \<Rightarrow> bool" where
  "ld_neg ld = bit (le_word (take 2 (drop 8 ld))) 15"

definition make_ld :: "bool \<Rightarrow> nat \<Rightarrow> nat \<Rightarrow> byte list \<Rightarrow> long_double" where
  "make_ld s expo mant padding = le_bytes 8 (of_nat mant) @ le_bytes 2 (of_nat ((if s then 2 ^ 15 else 0) + expo)) @ padding"

text \<open>Division by \<open>2 ^ k\<close>, rounded to the nearest, ties to even.\<close>

definition round_shift :: "nat \<Rightarrow> nat \<Rightarrow> nat" where
  "round_shift k n =
     (let q = n div 2 ^ k; r = n mod 2 ^ k
      in if 2 * r < 2 ^ k \<or> 2 * r = 2 ^ k \<and> even q then q else q + 1)"

text \<open>\<open>double\<close> to \<open>long double\<close>: exact; subnormal values are normalised, a signalling NaN becomes quiet.\<close>

definition top_bit :: "nat \<Rightarrow> nat" where
  "top_bit n = length (takeWhile (\<lambda>i. 2 ^ (i + 1) \<le> n) [0..<64])"

definition double_to_ld :: "byte list \<Rightarrow> u64 \<Rightarrow> long_double" where
  "double_to_ld padding d =
     (let s = bit d 63; e = unat (take_bit 11 (drop_bit 52 d)); m = unat (take_bit 52 d)
      in if e = 2047 then make_ld s 32767 (2 ^ 63 + (if m = 0 then 0 else 2 ^ 62 + m mod 2 ^ 51 * 2 ^ 11)) padding
         else if e \<noteq> 0 then make_ld s (e + 15360) (2 ^ 63 + m * 2 ^ 11) padding
         else if m = 0 then make_ld s 0 0 padding
         else make_ld s (15309 + top_bit m) (m * 2 ^ (63 - top_bit m)) padding)"

text \<open>\<open>long double\<close> to \<open>double\<close>: rounded; the exponent bits are added to the rounded significand, so that
  a carry moves to the next exponent and, at the end, to infinity.\<close>

definition ld_to_double :: "long_double \<Rightarrow> u64" where
  "ld_to_double ld =
     (let e = int (ld_expo ld) - 15360; m = ld_mant ld;
          mag = (if ld_expo ld = 32767
                 then 2047 * 2 ^ 52 + (if m mod 2 ^ 63 = 0 then 0 else 2 ^ 51 + m div 2 ^ 11 mod 2 ^ 51)
                 else if 1 \<le> e then nat (e - 1) * 2 ^ 52 + round_shift 11 m
                 else round_shift (nat (12 - e)) m)
      in of_nat (min mag (if ld_expo ld = 32767 then 2 ^ 63 - 1 else 2047 * 2 ^ 52)) OR (if ld_neg ld then push_bit 63 1 else 0))"

section \<open>The format %.35Lf\<close>

definition digit :: "nat \<Rightarrow> char" where
  "digit d = ''0123456789'' ! d"

fun decimal :: "nat \<Rightarrow> string" where
  "decimal n = (if n < 10 then [digit n] else decimal (n div 10) @ [digit (n mod 10)])"

declare decimal.simps [simp del]

definition padded :: "nat \<Rightarrow> nat \<Rightarrow> string" where
  "padded k n = (let s = decimal n in replicate (k - length s) CHR ''0'' @ s)"

text \<open>The magnitude in units of \<open>10 ^ -35\<close>, rounded; the value is the significand times two to the power of the exponent
  (of the smallest one for the subnormals) less 16446.\<close>

definition ld_units :: "long_double \<Rightarrow> nat" where
  "ld_units ld =
     (let e = max (ld_expo ld) 1; n = ld_mant ld * 10 ^ 35
      in if 16446 \<le> e then n * 2 ^ (e - 16446) else round_shift (16446 - e) n)"

definition print_Lf :: "long_double \<Rightarrow> string" where
  "print_Lf ld =
     (if ld_neg ld then ''-'' else '''')
     @ (if ld_expo ld = 32767 then (if ld_mant ld mod 2 ^ 63 = 0 then ''inf'' else ''nan'')
        else decimal (ld_units ld div 10 ^ 35) @ ''.'' @ padded 35 (ld_units ld mod 10 ^ 35))"

section \<open>The exported functions\<close>

definition jffi_encodeLongDouble ::
  "'j jni \<Rightarrow> long_double \<Rightarrow> jobject \<Rightarrow> jint \<Rightarrow> jint \<Rightarrow> ('j, 'a) jni_world_scheme \<Rightarrow> ('j, 'a) jni_world_scheme option"
where
  "jffi_encodeLongDouble J ld array arrayOffset arrayLength w =
     (if arrayLength \<noteq> 16 then Some (throwException Runtime ''array size != sizeof(long double)'' [] w)
      else do {
        (p, w1) \<leftarrow> Some (alloca 16 w);
        w2 \<leftarrow> SetArrayRegion J JByte array arrayOffset arrayLength p (w1\<lparr>mem := map_block p ld (mem w1)\<rparr>);
        Some (w2\<lparr>stack_top := stack_top w\<rparr>)
      })"

text \<open>A refused region leaves an undetermined value and the exception pending.\<close>

definition jffi_decodeLongDouble ::
  "'j jni \<Rightarrow> jobject \<Rightarrow> jint \<Rightarrow> jint \<Rightarrow> ('j, 'a) jni_world_scheme \<Rightarrow> (long_double \<times> ('j, 'a) jni_world_scheme) option"
where
  "jffi_decodeLongDouble J array arrayOffset arrayLength w =
     (if arrayLength \<noteq> 16
      then Some (make_ld False 0 0 (replicate 6 0), throwException Runtime ''array size != sizeof(long double)'' [] w)
      else do {
        (p, w1) \<leftarrow> Some (alloca 16 w);
        w2 \<leftarrow> GetArrayRegion J JByte array arrayOffset arrayLength p w1;
        ld \<leftarrow> load (mem w2) p 16;
        Some (ld, w2\<lparr>stack_top := stack_top w\<rparr>)
      })"

text \<open>\<open>GetStringUTFRegion\<close> is the bytes \<open>utf\<close> of the string in the virtual machine's encoding, as many as
  \<open>GetStringUTFLength\<close> gives.\<close>

definition Foreign_longDoubleFromString ::
  "'j jni \<Rightarrow> ('j \<Rightarrow> jobject \<Rightarrow> byte list) \<Rightarrow> (byte list \<Rightarrow> long_double) \<Rightarrow> jobject \<Rightarrow> jobject \<Rightarrow> jint \<Rightarrow> jint
     \<Rightarrow> ('j, 'a) jni_world_scheme \<Rightarrow> ('j, 'a) jni_world_scheme option"
where
  "Foreign_longDoubleFromString J utf strtold str array arrayOffset arrayLength w = do {
     len \<leftarrow> Some (length (utf (jvm w) str));
     (tmp, w1) \<leftarrow> Some (alloca (len + 1) w);
     m \<leftarrow> store (mem w1) tmp (utf (jvm w) str @ [0]);
     s \<leftarrow> c_string m tmp;
     w2 \<leftarrow> jffi_encodeLongDouble J (strtold s) array arrayOffset arrayLength (w1\<lparr>mem := m\<rparr>);
     Some (w2\<lparr>stack_top := stack_top w\<rparr>)
   }"

text \<open>\<open>sprintf\<close> into \<open>char tmp[256]\<close>: all characters and the terminator, however many they are.\<close>

definition jffi_longDoubleToString ::
  "'j jni \<Rightarrow> 'j strings \<Rightarrow> (long_double \<Rightarrow> string) \<Rightarrow> jobject \<Rightarrow> jint \<Rightarrow> jint
     \<Rightarrow> ('j, 'a) jni_world_scheme \<Rightarrow> (jobject \<times> ('j, 'a) jni_world_scheme) option"
where
  "jffi_longDoubleToString J S fmt array arrayOffset arrayLength w = do {
     (tmp, w1) \<leftarrow> Some (alloca 256 w);
     (ld, w2) \<leftarrow> jffi_decodeLongDouble J array arrayOffset arrayLength w1;
     m \<leftarrow> store (mem w2) tmp (map of_char (fmt ld) @ [0]);
     s \<leftarrow> c_string m tmp;
     (r, j) \<leftarrow> Some (NewStringUTF S (jvm w2) (map (\<lambda>b. char_of (unat b)) s));
     Some (r, w2\<lparr>mem := m, jvm := j, stack_top := stack_top w\<rparr>)
   }"

definition Foreign_longDoubleToPlainString ::
  "'j jni \<Rightarrow> 'j strings \<Rightarrow> jobject \<Rightarrow> jint \<Rightarrow> jint \<Rightarrow> ('j, 'a) jni_world_scheme \<Rightarrow> (jobject \<times> ('j, 'a) jni_world_scheme) option"
where
  "Foreign_longDoubleToPlainString J S array arrayOffset arrayLength w =
     jffi_longDoubleToString J S print_Lf array arrayOffset arrayLength w"

text \<open>\<open>longDoubleToEngineeringString\<close> and \<open>longDoubleToString\<close>, over the C library's formats.\<close>

definition Foreign_longDoubleToString ::
  "'j jni \<Rightarrow> 'j strings \<Rightarrow> (string \<Rightarrow> long_double \<Rightarrow> string) \<Rightarrow> bool \<Rightarrow> jobject \<Rightarrow> jint \<Rightarrow> jint
     \<Rightarrow> ('j, 'a) jni_world_scheme \<Rightarrow> (jobject \<times> ('j, 'a) jni_world_scheme) option"
where
  "Foreign_longDoubleToString J S printf engineering array arrayOffset arrayLength w =
     jffi_longDoubleToString J S (printf (if engineering then ''%.35Le'' else ''%.35Lg'')) array arrayOffset arrayLength w"

definition Foreign_longDoubleFromDouble ::
  "'j jni \<Rightarrow> byte list \<Rightarrow> u64 \<Rightarrow> jobject \<Rightarrow> jint \<Rightarrow> jint \<Rightarrow> ('j, 'a) jni_world_scheme \<Rightarrow> ('j, 'a) jni_world_scheme option"
where
  "Foreign_longDoubleFromDouble J padding doubleValue array arrayOffset arrayLength w =
     jffi_encodeLongDouble J (double_to_ld padding doubleValue) array arrayOffset arrayLength w"

definition Foreign_longDoubleToDouble ::
  "'j jni \<Rightarrow> jobject \<Rightarrow> jint \<Rightarrow> jint \<Rightarrow> ('j, 'a) jni_world_scheme \<Rightarrow> (u64 \<times> ('j, 'a) jni_world_scheme) option"
where
  "Foreign_longDoubleToDouble J array arrayOffset arrayLength w =
     map_option (apfst ld_to_double) (jffi_decodeLongDouble J array arrayOffset arrayLength w)"

section \<open>The fields of the format\<close>

lemma make_ld_mant [simp]: "mant < 2 ^ 64 \<Longrightarrow> ld_mant (make_ld s expo mant padding) = mant"
  by (simp add: ld_mant_def make_ld_def unat_of_nat64)

lemma make_ld_top:
  assumes "expo < 2 ^ 15"
  shows "le_word (take 2 (drop 8 (make_ld s expo mant padding))) = of_nat ((if s then 2 ^ 15 else 0) + expo)"
proof -
  let ?n = "(if s then 2 ^ 15 else 0) + expo"
  have "?n < 2 ^ 16" using assms by simp
  then have "take_bit 16 (of_nat ?n :: u64) = of_nat ?n" by (simp only: take_bit_of_nat take_bit_nat_eq_self)
  then show ?thesis by (simp only: make_ld_def) (simp add: le_word_le_bytes)
qed

lemma make_ld_expo [simp]: "expo < 2 ^ 15 \<Longrightarrow> ld_expo (make_ld s expo mant padding) = expo"
proof -
  assume e: "expo < 2 ^ 15"
  let ?n = "(if s then 2 ^ 15 else 0) + expo"
  have "take_bit 15 (of_nat ?n :: u64) = of_nat (?n mod 2 ^ 15)" by (simp only: take_bit_of_nat) (simp only: take_bit_eq_mod)
  moreover have "?n mod 2 ^ 15 = expo" using e by simp
  ultimately show ?thesis using e by (simp only: ld_expo_def make_ld_top) (simp add: unat_of_nat64)
qed

lemma make_ld_neg [simp]: "expo < 2 ^ 15 \<Longrightarrow> ld_neg (make_ld s expo mant padding) = s"
proof -
  assume e: "expo < 2 ^ 15"
  let ?n = "(if s then 2 ^ 15 else 0) + expo"
  have "bit (of_nat n :: u64) 15 \<longleftrightarrow> bit n 15" for n by (simp add: bit_simps)
  then have "bit (of_nat ?n :: u64) 15 \<longleftrightarrow> bit ?n 15" by blast
  moreover have "bit ?n 15 \<longleftrightarrow> s" using e by (auto simp: bit_iff_odd div_add_self1)
  ultimately show ?thesis using e by (simp only: ld_neg_def make_ld_top)
qed

lemma make_ld_length [simp]: "length (make_ld s expo mant padding) = 10 + length padding"
  by (simp add: make_ld_def)

section \<open>How long the string is\<close>

lemma decimal_nonempty: "decimal n \<noteq> []"
  by (subst decimal.simps) simp

lemma decimal_length: "0 < k \<Longrightarrow> length (decimal n) \<le> k \<longleftrightarrow> n < 10 ^ k"
proof (induction n arbitrary: k rule: decimal.induct)
  case (1 n)
  show ?case
  proof (cases "n < 10")
    case True
    have "(10 :: nat) ^ 1 \<le> 10 ^ k" using 1(2) by (intro power_increasing) simp_all
    with True have "n < 10 ^ k" by simp
    with True 1(2) show ?thesis by (simp add: decimal.simps)
  next
    case False
    show ?thesis
    proof (cases "k = 1")
      case True
      have "length (decimal n) = Suc (length (decimal (n div 10)))" using False by (subst decimal.simps) simp
      with True False decimal_nonempty [of "n div 10"] show ?thesis by simp
    next
      case k: False
      then obtain j where j: "k = Suc j" "0 < j" using 1(2) by (metis One_nat_def Suc_pred neq0_conv)
      have "n < 10 ^ k \<longleftrightarrow> n div 10 < 10 ^ j" by (simp add: j(1) div_less_iff_less_mult mult.commute)
      moreover have "length (decimal n) = Suc (length (decimal (n div 10)))" using False by (subst decimal.simps) simp
      ultimately show ?thesis using 1(1) [OF False j(2)] by (simp add: j(1))
    qed
  qed
qed

lemma padded_length: "0 < k \<Longrightarrow> n < 10 ^ k \<Longrightarrow> length (padded k n) = k"
  using decimal_length [of k n] by (simp add: padded_def Let_def)

definition ld_finite :: "long_double \<Rightarrow> bool" where
  "ld_finite ld \<longleftrightarrow> ld_expo ld \<noteq> 32767"

lemma print_Lf_length:
  assumes "ld_finite ld"
  shows "length (print_Lf ld) = (if ld_neg ld then 1 else 0) + length (decimal (ld_units ld div 10 ^ 35)) + 36"
proof -
  have "length (padded 35 (ld_units ld mod 10 ^ 35)) = 35" by (rule padded_length) simp_all
  then show ?thesis using assms by (simp add: print_Lf_def ld_finite_def)
qed

text \<open>The plain string needs at most the 256 bytes of the buffer exactly if its integer part has at most
  219 digits, the sign counted.\<close>

lemma print_Lf_fits:
  "length (print_Lf ld) < 256 \<longleftrightarrow> (ld_finite ld \<longrightarrow> ld_units ld div 10 ^ 35 < 10 ^ (if ld_neg ld then 218 else 219))"
proof (cases "ld_finite ld")
  case True
  then have "length (print_Lf ld) < 256 \<longleftrightarrow> length (decimal (ld_units ld div 10 ^ 35)) \<le> (if ld_neg ld then 218 else 219)"
    by (auto simp: print_Lf_length split: if_splits)
  then show ?thesis using True by (simp add: decimal_length)
qed (simp add: print_Lf_def ld_finite_def)

lemma round_shift_le: "round_shift k n \<le> n + 1"
  by (simp add: round_shift_def Let_def div_le_dividend le_SucI)

lemma print_Lf_short: "length (print_Lf ld) < 2 ^ 16"
proof (cases "ld_finite ld")
  case True
  have m: "ld_mant ld < 2 ^ 64" unfolding ld_mant_def by (rule unat_bound)
  have "take_bit 15 (unat (le_word (take 2 (drop 8 ld)))) < 2 ^ 15" by (rule take_bit_nat_less_exp)
  then have e: "ld_expo ld < 2 ^ 15" by (simp add: ld_expo_def unsigned_take_bit_eq)
  have e2: "(2 :: nat) ^ 64 * 2 ^ 16384 = (2 ^ 4) ^ 4112"
    unfolding power_mult [symmetric] power_add [symmetric] by (rule arg_cong [where f = "\<lambda>k. 2 ^ k"]) simp
  have e10: "((10 :: nat) ^ 2) ^ 4112 = 10 ^ 8224"
    unfolding power_mult [symmetric] by (rule arg_cong [where f = "\<lambda>k. 10 ^ k"]) simp
  have "ld_units ld < 2 ^ 64 * 10 ^ 35 * 2 ^ 16384"
  proof (cases "16446 \<le> max (ld_expo ld) 1")
    case True
    then have "ld_units ld = ld_mant ld * 10 ^ 35 * 2 ^ (max (ld_expo ld) 1 - 16446)"
      by (simp only: ld_units_def Let_def if_True)
    also have "\<dots> < 2 ^ 64 * 10 ^ 35 * 2 ^ 16384"
      using m e by (intro mult_less_le_imp_less mult_strict_right_mono power_increasing) simp_all
    finally show ?thesis .
  next
    case False
    then have "ld_units ld \<le> ld_mant ld * 10 ^ 35 + 1" using round_shift_le by (simp add: ld_units_def Let_def)
    also have "\<dots> \<le> (2 ^ 64 - 1) * 10 ^ 35 + 1" using m by (intro add_mono mult_mono) simp_all
    also have "\<dots> < 2 ^ 64 * 10 ^ 35 * 2 ^ 1" by simp
    also have "\<dots> \<le> 2 ^ 64 * 10 ^ 35 * 2 ^ 16384" by (intro mult_mono power_increasing) simp_all
    finally show ?thesis .
  qed
  also have "\<dots> = 10 ^ 35 * (2 ^ 4) ^ 4112" by (simp only: e2 [symmetric] ac_simps)
  also have "\<dots> \<le> 10 ^ 35 * (10 ^ 2) ^ 4112" by (rule mult_le_mono2, rule power_mono) simp_all
  also have "\<dots> = 10 ^ 35 * 10 ^ 8224" by (simp only: e10)
  finally have "ld_units ld < 10 ^ 8224 * 10 ^ 35" by (simp only: mult.commute)
  then have lt: "ld_units ld div 10 ^ 35 < 10 ^ 8224" by (rule less_mult_imp_div_less)
  have k: "0 < (8224 :: nat)" by simp
  have "length (decimal (ld_units ld div 10 ^ 35)) \<le> 8224" by (rule iffD2 [OF decimal_length [OF k] lt])
  then show ?thesis using True by (simp add: print_Lf_length)
qed (simp add: print_Lf_def ld_finite_def)

text \<open>Its characters: digits, the sign, the point, letters.\<close>

lemma digit_plain: "d < 10 \<Longrightarrow> (of_char (digit d) :: byte) \<noteq> 0"
proof -
  assume "d < 10"
  moreover have "\<forall>d \<in> {..<10}. (of_char (digit d) :: byte) \<noteq> 0" by (simp add: digit_def lessThan_nat_numeral lessThan_Suc)
  ultimately show ?thesis by simp
qed

lemma decimal_plain: "c \<in> set (decimal n) \<Longrightarrow> (of_char c :: byte) \<noteq> 0"
proof (induction n rule: decimal.induct)
  case (1 n)
  show ?case
  proof (cases "n < 10")
    case True
    with 1(2) have "c = digit n" by (simp add: decimal.simps)
    with True show ?thesis by (simp add: digit_plain)
  next
    case False
    with 1(2) have "c \<in> set (decimal (n div 10)) \<or> c = digit (n mod 10)" by (subst (asm) decimal.simps) auto
    with 1(1) [OF False] show ?thesis using digit_plain [of "n mod 10"] by auto
  qed
qed

lemma print_plain: "c \<in> set (print_Lf ld) \<Longrightarrow> (of_char c :: byte) \<noteq> 0"
  using decimal_plain
  by (auto simp: print_Lf_def padded_def Let_def split: if_splits)

lemma of_char_back: "char_of (unat (of_char c :: byte)) = c"
proof -
  have "unat (of_char c :: byte) = of_char c" by (cases c) (auto split: if_splits)
  then show ?thesis by simp
qed

section \<open>The buffer of the plain string\<close>

lemma decode_run:
  fixes w :: "('j, 'a) jni_world_scheme"
  assumes "ArrayRegion J (jvm w) JByte array off 16 = Inr ld" and "length ld = 16" and "32 \<le> unat (stack_top w)"
  shows "\<exists>m. jffi_decodeLongDouble J array off 16 w = Some (ld, w\<lparr>mem := m\<rparr>)
     \<and> (\<forall>a. unat (stack_top w) \<le> unat a \<longrightarrow> m a = mem w a)"
proof -
  obtain p w1 where al: "alloca 16 w = (p, w1)" by fastforce
  have w1: "w1 = w\<lparr>stack_top := p, mem := map_block p (fresh_bytes w p 16) (mem w)\<rparr>"
    using al by (auto simp: alloca_def Let_def)
  have sp: "unat p + 16 \<le> unat (stack_top w)" "unat p + 16 \<le> 2 ^ 64" using alloca_span [OF al] assms(3) by simp_all
  have "span p (length ld) \<subseteq> dom (mem w1)" by (simp add: w1 map_block_dom fresh_bytes_def assms(2))
  then obtain m where m: "store (mem w1) p ld = Some m" using store_defined [of "mem w1" p ld] by blast
  have "load m p 16 = Some ld" using load_store_same [OF m] assms(2) by simp
  then have "jffi_decodeLongDouble J array off 16 w = Some (ld, w\<lparr>mem := m\<rparr>)"
    using m assms(1) by (simp add: jffi_decodeLongDouble_def al GetArrayRegion_def w1)
  moreover have "m a = mem w a" if "unat (stack_top w) \<le> unat a" for a
  proof -
    have "a \<notin> span p 16" using span_interval [OF sp(2)] sp(1) that by auto
    then show ?thesis using store_outside [OF m] assms(2) by (simp add: w1 map_block_outside fresh_bytes_def)
  qed
  ultimately show ?thesis by blast
qed

text \<open>Claim C40. The plain string of a \<open>long double\<close> and its buffer. When the array holds a value whose integer part has
  at most 219 digits (218 if it is negative) or that is not finite, \<open>longDoubleToPlainString\<close> gives the exact
  decimal string and leaves the callers' frames alone. From \<open>10 ^ 219\<close> on, which the largest finite \<open>double\<close> exceeds, too,
  the string is longer than the 256 bytes of the buffer: with the stack aligned as
  the ABI has it, its 257th byte lands in the frame of the caller.\<close>

theorem plain_string_buffer:
  fixes w :: "('j, 'a) jni_world_scheme"
  assumes reg: "ArrayRegion J (jvm w) JByte array off 16 = Inr ld" "length ld = 16"
    and st: "1024 \<le> unat (stack_top w)" "16 dvd unat (stack_top w)"
  shows "((ld_finite ld \<longrightarrow> ld_units ld div 10 ^ 35 < 10 ^ (if ld_neg ld then 218 else 219)) \<longrightarrow>
        (\<exists>m. Foreign_longDoubleToPlainString J S array off 16 w
           = Some (fst (NewStringUTF S (jvm w) (print_Lf ld)), w\<lparr>mem := m, jvm := snd (NewStringUTF S (jvm w) (print_Lf ld))\<rparr>)
         \<and> (\<forall>a. unat (stack_top w) \<le> unat a \<longrightarrow> m a = mem w a)))
    \<and> (ld_finite ld \<and> 10 ^ (if ld_neg ld then 218 else 219) \<le> ld_units ld div 10 ^ 35 \<longrightarrow>
        (\<forall>r w'. Foreign_longDoubleToPlainString J S array off 16 w = Some (r, w') \<longrightarrow>
           mem w' (stack_top w) = Some ((map of_char (print_Lf ld) @ [0]) ! 256)))"
proof -
  let ?s = "map of_char (print_Lf ld) :: byte list"
  obtain tmp w1 where al: "alloca 256 w = (tmp, w1)" by fastforce
  have w1: "w1 = w\<lparr>stack_top := tmp, mem := map_block tmp (fresh_bytes w tmp 256) (mem w)\<rparr>"
    and tmp: "tmp = (stack_top w - 256) AND NOT 15"
    using al by (auto simp: alloca_def Let_def)
  have sp: "unat tmp + 256 \<le> unat (stack_top w)" "unat tmp + 256 \<le> 2 ^ 64" "stack_top w1 = tmp" "32 \<le> unat tmp"
    using alloca_span [OF al] st by simp_all
  have tmp0: "tmp + 256 = stack_top w"
  proof -
    have "unat (stack_top w) mod 16 = 0" using st(2) by simp
    moreover have "unat (stack_top w - 256) = unat (stack_top w) - 256" using st(1) by (simp add: unat_sub word_le_nat_alt)
    moreover have "unat tmp = unat (stack_top w - 256) div 16 * 16" unfolding tmp by (rule unat_align_down)
    ultimately have "unat tmp = unat (stack_top w - 256)" using st(1) by presburger
    then have "tmp = stack_top w - 256" by (simp only: word_unat_eq_iff)
    then show ?thesis by simp
  qed
  obtain m1 where dec: "jffi_decodeLongDouble J array off 16 w1 = Some (ld, w1\<lparr>mem := m1\<rparr>)"
    and m1: "\<And>a. unat tmp \<le> unat a \<Longrightarrow> m1 a = mem w1 a"
    using decode_run [of J w1 array off ld] reg sp st(1) tmp0 by (auto simp: w1)
  have run: "Foreign_longDoubleToPlainString J S array off 16 w = do {
       m \<leftarrow> store m1 tmp (?s @ [0]);
       s \<leftarrow> c_string m tmp;
       Some (fst (NewStringUTF S (jvm w) (map (\<lambda>b. char_of (unat b)) s)),
             w\<lparr>mem := m, jvm := snd (NewStringUTF S (jvm w) (map (\<lambda>b. char_of (unat b)) s))\<rparr>) }"
    by (simp add: Foreign_longDoubleToPlainString_def jffi_longDoubleToString_def al w1 dec [unfolded w1] case_prod_unfold)
  have nz: "0 \<notin> set ?s" using print_plain by force
  show ?thesis
  proof (intro conjI impI allI)
    assume "ld_finite ld \<longrightarrow> ld_units ld div 10 ^ 35 < 10 ^ (if ld_neg ld then 218 else 219)"
    then have len: "length (print_Lf ld) < 256" unfolding print_Lf_fits .
    then have sub: "span tmp (length (?s @ [0])) \<subseteq> span tmp 256" by (intro span_mono) simp
    have "span tmp 256 \<subseteq> dom m1"
    proof
      fix a assume a: "a \<in> span tmp 256"
      then have "m1 a = mem w1 a" using span_interval [OF sp(2)] by (intro m1) simp
      moreover have "a \<in> dom (mem w1)" using a by (simp add: w1 map_block_dom fresh_bytes_def)
      ultimately show "a \<in> dom m1" by (simp add: domIff)
    qed
    with sub obtain m where m: "store m1 tmp (?s @ [0]) = Some m" using store_defined [of m1 tmp "?s @ [0]"] by blast
    have "c_string m tmp = Some ?s" by (rule c_string_store [OF m nz]) (use len in simp)
    moreover have "m a = mem w a" if a: "unat (stack_top w) \<le> unat a" for a
    proof -
      have "a \<notin> span tmp 256" using span_interval [OF sp(2)] sp(1) a by auto
      moreover from this have "a \<notin> span tmp (length (?s @ [0]))" using sub by blast
      ultimately show ?thesis using store_outside [OF m] m1 [of a] sp(1) a by (simp add: w1 map_block_outside fresh_bytes_def)
    qed
    moreover have "map (\<lambda>b. char_of (unat b)) ?s = print_Lf ld" by (simp add: of_char_back map_idI)
    ultimately show "\<exists>m. Foreign_longDoubleToPlainString J S array off 16 w
           = Some (fst (NewStringUTF S (jvm w) (print_Lf ld)), w\<lparr>mem := m, jvm := snd (NewStringUTF S (jvm w) (print_Lf ld))\<rparr>)
         \<and> (\<forall>a. unat (stack_top w) \<le> unat a \<longrightarrow> m a = mem w a)"
      using m by (intro exI [of _ m]) (simp add: run)
  next
    fix r w'
    assume big: "ld_finite ld \<and> 10 ^ (if ld_neg ld then 218 else 219) \<le> ld_units ld div 10 ^ 35"
      and ret: "Foreign_longDoubleToPlainString J S array off 16 w = Some (r, w')"
    then have len: "256 \<le> length (print_Lf ld)" using print_Lf_fits [of ld] by (simp add: not_less [symmetric])
    from ret obtain m where m: "store m1 tmp (?s @ [0]) = Some m" "mem w' = m" by (auto simp: run split: bind_splits)
    have "length (?s @ [0]) \<le> 2 ^ 64" using print_Lf_short [of ld] by simp
    from load_store_same [OF m(1) this] have "\<forall>i < length (?s @ [0]). m (tmp + of_nat i) = Some ((?s @ [0]) ! i)"
      unfolding load_Some_nth by blast
    from this [rule_format, of 256] len have "m (tmp + of_nat 256) = Some ((?s @ [0]) ! 256)" by simp
    then show "mem w' (stack_top w) = Some ((?s @ [0]) ! 256)" using m(2) tmp0 by simp
  qed
qed

definition plain_strings :: "jheap strings" where
  "plain_strings = \<lparr>GetStringLength = (\<lambda>_ _. 0), GetStringChars = (\<lambda>j _. (None, j)), ReleaseStringChars = (\<lambda>j _. j),
     NewStringUTF = (\<lambda>j s. (of_nat (length s), j))\<rparr>"

text \<open>\<open>-1.5\<close>, and the number two to the 800 (a double holds it, too).\<close>

theorem plain_string_buffer_witness:
  "(\<exists>w'. Foreign_longDoubleToPlainString heap_jni plain_strings 9 0 16
       (jni_boot [9 \<mapsto> (JByte, make_ld True 16383 (2 ^ 63 + 2 ^ 62) (replicate 6 0))] Map.empty []) = Some (38, w'))
   \<and> 10 ^ 219 \<le> ld_units (make_ld False (16383 + 800) (2 ^ 63) (replicate 6 0)) div 10 ^ 35"
proof -
  let ?ld = "make_ld True 16383 (2 ^ 63 + 2 ^ 62) (replicate 6 0)"
  let ?w = "jni_boot [9 \<mapsto> (JByte, ?ld)] Map.empty []"
  have len: "length ?ld = 16" by simp
  have reg: "ArrayRegion heap_jni (jvm ?w) JByte 9 0 16 = Inr ?ld" by (simp add: heap_jni_def del: make_ld_length) (simp add: len)
  have st: "1024 \<le> unat (stack_top ?w)" "16 dvd unat (stack_top ?w)" by (simp_all add: jni_boot_def)
  have f: "ld_mant ?ld = 2 ^ 63 + 2 ^ 62" "ld_expo ?ld = 16383" "ld_neg ?ld" by simp_all
  have u: "ld_units ?ld = 15 * 10 ^ 34"
    unfolding ld_units_def f by (simp add: round_shift_def Let_def)
  have fin: "ld_finite ?ld" by (simp add: ld_finite_def f)
  have one: "length (decimal 1) = 1" by (simp add: decimal.simps)
  have int: "ld_units ?ld div 10 ^ 35 = 1" unfolding u by simp
  have n38: "length (print_Lf ?ld) = 38" unfolding print_Lf_length [OF fin] int one by (simp only: f if_True)
  have small: "ld_finite ?ld \<longrightarrow> ld_units ?ld div 10 ^ 35 < 10 ^ (if ld_neg ?ld then 218 else 219)" unfolding int by simp
  from mp [OF conjunct1 [OF plain_string_buffer [OF reg len st, of plain_strings]] small] obtain m where
    "Foreign_longDoubleToPlainString heap_jni plain_strings 9 0 16 ?w
      = Some (fst (NewStringUTF plain_strings (jvm ?w) (print_Lf ?ld)),
              ?w\<lparr>mem := m, jvm := snd (NewStringUTF plain_strings (jvm ?w) (print_Lf ?ld))\<rparr>)"
    by (elim exE conjE) (rule that)
  with n38 have "\<exists>w'. Foreign_longDoubleToPlainString heap_jni plain_strings 9 0 16 ?w = Some (38, w')"
    by (simp add: plain_strings_def)
  moreover have "ld_mant (make_ld False (16383 + 800) (2 ^ 63) (replicate 6 0)) = 2 ^ 63"
    "ld_expo (make_ld False (16383 + 800) (2 ^ 63) (replicate 6 0)) = 16383 + 800" by simp_all
  then have "ld_units (make_ld False (16383 + 800) (2 ^ 63) (replicate 6 0)) div 10 ^ 35 = 2 ^ 800"
    by (simp add: ld_units_def Let_def)
  then have "10 ^ 219 \<le> ld_units (make_ld False (16383 + 800) (2 ^ 63) (replicate 6 0)) div 10 ^ 35" by simp
  ultimately show ?thesis by blast
qed

end
