(* ===== verification/Jffi_Foreign.thy ===== *)
theory Jffi_Foreign
  imports Jffi_Library
begin

text \<open>
  The rest of \<^verbatim>\<open>jni/jffi/Foreign.c\<close> and \<^verbatim>\<open>Internals.c\<close>: loading and unloading, version and platform, and
  the functions that define classes and pass through to the virtual machine, whose part they use is a
  table of functions. Versions come from a header the build generates and are parameters.
\<close>

section \<open>Loading, version, platform\<close>

abbreviation (input) JNI_VERSION_1_4 :: jint where "JNI_VERSION_1_4 \<equiv> 0x00010004"

text \<open>\<open>pthread_key_create\<close> makes a key all of whose slots are null; its deletion runs no destructors.\<close>

definition JNI_OnLoad :: "'a thread_world_scheme \<Rightarrow> jint \<times> 'a thread_world_scheme" where
  "JNI_OnLoad w = (JNI_VERSION_1_4, w\<lparr>specific := (\<lambda>_. NULL)\<rparr>)"

definition JNI_OnUnload :: "'a thread_world_scheme \<Rightarrow> 'a thread_world_scheme" where
  "JNI_OnUnload w = w\<lparr>specific := (\<lambda>_. NULL)\<rparr>"

definition Foreign_getVersion :: "jint \<Rightarrow> jint \<Rightarrow> jint \<Rightarrow> jint" where
  "Foreign_getVersion major minor micro = push_bit 16 major OR push_bit 8 minor OR micro"

definition Foreign_getArch :: "'j strings \<Rightarrow> ('j, 'a) jni_world_scheme \<Rightarrow> jobject \<times> ('j, 'a) jni_world_scheme" where
  "Foreign_getArch S w = (let (s, j) = NewStringUTF S (jvm w) ''x86_64'' in (s, w\<lparr>jvm := j\<rparr>))"

definition Foreign_isFaultProtectionEnabled :: bool where
  "Foreign_isFaultProtectionEnabled = False"

text \<open>The link-time addresses of the two functions that save the error.\<close>

definition Foreign_getSaveErrnoFunction :: "addr \<Rightarrow> jlong" where
  "Foreign_getSaveErrnoFunction at_jffi_save_errno = p2j at_jffi_save_errno"

definition Foreign_getSaveErrnoCtxFunction :: "addr \<Rightarrow> jlong" where
  "Foreign_getSaveErrnoCtxFunction at_jffi_save_errno_ctx = p2j at_jffi_save_errno_ctx"

section \<open>Classes\<close>

text \<open>\<open>DefineClass\<close> takes the addresses of the name and of the class file; a class it refuses comes with an
  exception.\<close>

record 'j classes =
  GetStringUTFChars :: "'j \<Rightarrow> jobject \<Rightarrow> addr \<times> 'j"
  ReleaseStringUTFChars :: "'j \<Rightarrow> jobject \<Rightarrow> addr \<Rightarrow> 'j"
  GetByteArrayElements :: "'j \<Rightarrow> jobject \<Rightarrow> addr \<times> 'j"
  AbortByteArrayElements :: "'j \<Rightarrow> jobject \<Rightarrow> addr \<Rightarrow> 'j"
  DefineClass :: "'j \<Rightarrow> addr \<Rightarrow> jobject \<Rightarrow> addr \<Rightarrow> jint \<Rightarrow> (throwable + jobject) \<times> 'j"
  DirectBufferAddress :: "'j \<Rightarrow> jobject \<Rightarrow> addr"
  DirectBufferCapacity :: "'j \<Rightarrow> jobject \<Rightarrow> jlong"
  AllocObject :: "'j \<Rightarrow> jobject \<Rightarrow> (throwable + jobject) \<times> 'j"
  RegisterNatives :: "'j \<Rightarrow> jobject \<Rightarrow> addr \<Rightarrow> jint \<Rightarrow> jint \<times> 'j"
  UnregisterNatives :: "'j \<Rightarrow> jobject \<Rightarrow> jint \<times> 'j"
  GetVersion :: "'j \<Rightarrow> jint"
  JavaVM :: "'j \<Rightarrow> addr"

definition jvm_result ::
  "(throwable + jobject) \<times> 'j \<Rightarrow> ('j, 'a) jni_world_scheme \<Rightarrow> jobject \<times> ('j, 'a) jni_world_scheme"
where
  "jvm_result r w = (case r of (Inl x, j) \<Rightarrow> (NULL, jthrow x (w\<lparr>jvm := j\<rparr>)) | (Inr c, j) \<Rightarrow> (c, w\<lparr>jvm := j\<rparr>))"

text \<open>The code at \<open>cleanup\<close>, for the string and the array elements that were obtained.\<close>

definition class_cleanup ::
  "'j classes \<Rightarrow> jobject \<Rightarrow> addr \<Rightarrow> jobject \<Rightarrow> addr \<Rightarrow> ('j, 'a) jni_world_scheme \<Rightarrow> ('j, 'a) jni_world_scheme"
where
  "class_cleanup K jname name jbuf buf w =
     (let w1 = (if buf \<noteq> NULL then w\<lparr>jvm := AbortByteArrayElements K (jvm w) jbuf buf\<rparr> else w)
      in if name \<noteq> NULL then w1\<lparr>jvm := ReleaseStringUTFChars K (jvm w1) jname name\<rparr> else w1)"

definition Foreign_defineClass_array ::
  "'j classes \<Rightarrow> jobject \<Rightarrow> jobject \<Rightarrow> jobject \<Rightarrow> jint \<Rightarrow> jint \<Rightarrow> ('j, 'a) jni_world_scheme \<Rightarrow> jobject \<times> ('j, 'a) jni_world_scheme"
where
  "Foreign_defineClass_array K jname loader jbuf off len w =
     (let (name, j) = GetStringUTFChars K (jvm w) jname; w1 = w\<lparr>jvm := j\<rparr> in
      if name = NULL
      then (NULL, class_cleanup K jname name jbuf NULL (throwException NullPointer ''Invalid name parameter'' [] w1))
      else (let (buf, j) = GetByteArrayElements K (jvm w1) jbuf; w2 = w1\<lparr>jvm := j\<rparr> in
        if buf = NULL
        then (NULL, class_cleanup K jname name jbuf buf (throwException NullPointer ''Invalid buffer parameter'' [] w2))
        else (let (retval, w3) = jvm_result (DefineClass K (jvm w2) name loader (buf + widen off) len) w2
              in (retval, class_cleanup K jname name jbuf buf w3))))"

definition Foreign_defineClass_buffer ::
  "'j classes \<Rightarrow> jobject \<Rightarrow> jobject \<Rightarrow> jobject \<Rightarrow> ('j, 'a) jni_world_scheme \<Rightarrow> jobject \<times> ('j, 'a) jni_world_scheme"
where
  "Foreign_defineClass_buffer K jname loader jbuf w =
     (let (name, j) = GetStringUTFChars K (jvm w) jname; w1 = w\<lparr>jvm := j\<rparr> in
      if name = NULL
      then (NULL, class_cleanup K jname name NULL NULL (throwException NullPointer ''Invalid name parameter'' [] w1))
      else if jbuf = NULL
      then (NULL, class_cleanup K jname name NULL NULL (throwException NullPointer ''Invalid buffer parameter'' [] w1))
      else (let (retval, w2) = jvm_result (DefineClass K (jvm w1) name loader (DirectBufferAddress K (jvm w1) jbuf)
                                             (ucast (DirectBufferCapacity K (jvm w1) jbuf))) w1
            in (retval, class_cleanup K jname name NULL NULL w2)))"

definition Foreign_allocObject :: "'j classes \<Rightarrow> jobject \<Rightarrow> ('j, 'a) jni_world_scheme \<Rightarrow> jobject \<times> ('j, 'a) jni_world_scheme" where
  "Foreign_allocObject K klass w = jvm_result (AllocObject K (jvm w) klass) w"

definition Foreign_registerNatives ::
  "'j classes \<Rightarrow> jobject \<Rightarrow> jlong \<Rightarrow> jint \<Rightarrow> ('j, 'a) jni_world_scheme \<Rightarrow> jint \<times> ('j, 'a) jni_world_scheme" where
  "Foreign_registerNatives K clazz methods nmethods w =
     (let (r, j) = RegisterNatives K (jvm w) clazz (j2p methods) nmethods in (r, w\<lparr>jvm := j\<rparr>))"

definition Foreign_unregisterNatives :: "'j classes \<Rightarrow> jobject \<Rightarrow> ('j, 'a) jni_world_scheme \<Rightarrow> jint \<times> ('j, 'a) jni_world_scheme" where
  "Foreign_unregisterNatives K clazz w = (let (r, j) = UnregisterNatives K (jvm w) clazz in (r, w\<lparr>jvm := j\<rparr>))"

definition Foreign_getJNIVersion :: "'j classes \<Rightarrow> ('j, 'a) jni_world_scheme \<Rightarrow> jint" where
  "Foreign_getJNIVersion K w = GetVersion K (jvm w)"

definition Foreign_getJavaVM :: "'j classes \<Rightarrow> ('j, 'a) jni_world_scheme \<Rightarrow> jlong" where
  "Foreign_getJavaVM K w = p2j (JavaVM K (jvm w))"

text \<open>\<open>FatalError\<close> does not return, and \<open>init\<close> does nothing.\<close>

definition Foreign_fatalError :: "jobject \<Rightarrow> 'w \<Rightarrow> 'w option" where
  "Foreign_fatalError msg w = None"

definition Foreign_init :: "'w \<Rightarrow> 'w" where
  "Foreign_init w = w"

section \<open>What is borrowed is given back\<close>

text \<open>Counting what a virtual machine has lent out, \<open>defineClass\<close> leaves the count as it was, on every
  path. The laws say that a null pointer is no loan and that defining a class keeps the loans.\<close>

definition loans_law :: "'j classes \<Rightarrow> ('j \<Rightarrow> int) \<Rightarrow> bool" where
  "loans_law K loans \<longleftrightarrow>
     (\<forall>j s p j'. GetStringUTFChars K j s = (p, j') \<longrightarrow> loans j' = loans j + (if p = NULL then 0 else 1))
   \<and> (\<forall>j s p j'. GetByteArrayElements K j s = (p, j') \<longrightarrow> loans j' = loans j + (if p = NULL then 0 else 1))
   \<and> (\<forall>j s p. loans (ReleaseStringUTFChars K j s p) = loans j - 1)
   \<and> (\<forall>j s p. loans (AbortByteArrayElements K j s p) = loans j - 1)
   \<and> (\<forall>j n l b k. loans (snd (DefineClass K j n l b k)) = loans j)"

lemma jvm_result_frame: "jvm (snd (jvm_result r w)) = snd r"
  by (auto simp: jvm_result_def jthrow_def split: prod.splits sum.splits)

lemma class_cleanup_loans:
  assumes "loans_law K loans"
  shows "loans (jvm (class_cleanup K jname name jbuf buf w))
    = loans (jvm w) - (if buf \<noteq> NULL then 1 else 0) - (if name \<noteq> NULL then 1 else 0)"
  using assms by (simp add: class_cleanup_def loans_law_def Let_def)

lemma throw_jvm [simp]: "jvm (throwException e f a w) = jvm w"
  by (simp add: throwException_def throwExceptionByName_def Let_def)

lemma defineClass_loans:
  assumes law: "loans_law K loans"
  shows "loans (jvm (snd (Foreign_defineClass_array K jname loader jbuf off len w))) = loans (jvm w)"
    and "loans (jvm (snd (Foreign_defineClass_buffer K jname loader jb w))) = loans (jvm w)"
proof -
  obtain name j where n: "GetStringUTFChars K (jvm w) jname = (name, j)" by fastforce
  obtain buf k where b: "GetByteArrayElements K j jbuf = (buf, k)" by fastforce
  have l: "loans j = loans (jvm w) + (if name = NULL then 0 else 1)" "loans k = loans j + (if buf = NULL then 0 else 1)"
    using law n b by (auto simp: loans_law_def)
  have d: "loans (snd (DefineClass K i x y z u)) = loans i" for i x y z u using law by (simp add: loans_law_def)
  show "loans (jvm (snd (Foreign_defineClass_array K jname loader jbuf off len w))) = loans (jvm w)"
    using l by (simp add: Foreign_defineClass_array_def n b class_cleanup_loans [OF law] jvm_result_frame d Let_def case_prod_unfold)
  show "loans (jvm (snd (Foreign_defineClass_buffer K jname loader jb w))) = loans (jvm w)"
    using l by (simp add: Foreign_defineClass_buffer_def n class_cleanup_loans [OF law] jvm_result_frame d Let_def case_prod_unfold)
qed

text \<open>The version number keeps its three parts apart while they fit a byte.\<close>

lemma getVersion_parts:
  assumes "major < 128" and "minor < 256" and "micro < 256"
  shows "drop_bit 16 (Foreign_getVersion major minor micro) = major"
    and "drop_bit 8 (Foreign_getVersion major minor micro) AND 0xff = minor"
    and "Foreign_getVersion major minor micro AND 0xff = micro"
proof -
  have h: "n < k" if "x < 2 ^ k" "bit x n" for x :: jint and k n
  proof -
    have "take_bit k x = x" using that(1) by (simp add: take_bit_eq_mod mod_word_less)
    then show ?thesis using that(2) by (metis bit_take_bit_iff)
  qed
  have a: "major < 2 ^ 7" "minor < 2 ^ 8" "micro < 2 ^ 8" using assms by simp_all
  have ff: "(0xff :: jint) = mask 8" by (simp add: mask_eq_decr_exp)
  show "drop_bit 16 (Foreign_getVersion major minor micro) = major"
    by (rule bit_word_eqI) (auto simp: Foreign_getVersion_def bit_simps dest: h [OF a(1)] h [OF a(2)] h [OF a(3)])
  show "drop_bit 8 (Foreign_getVersion major minor micro) AND 0xff = minor"
    unfolding ff by (rule bit_word_eqI) (auto simp: Foreign_getVersion_def bit_simps dest: h [OF a(1)] h [OF a(2)] h [OF a(3)])
  show "Foreign_getVersion major minor micro AND 0xff = micro"
    unfolding ff by (rule bit_word_eqI) (auto simp: Foreign_getVersion_def bit_simps dest: h [OF a(1)] h [OF a(2)] h [OF a(3)])
qed

end
