(* ===== verification/Jffi_Descriptors.thy ===== *)
theory Jffi_Descriptors
  imports Jffi_Struct Ffi_Classify
begin

text \<open>
  A type discipline for descriptors: \<open>ctype w n p\<close> says that in \<open>w\<close> the address \<open>p\<close> holds the
  descriptor of a C type whose structs are nested at most \<open>n\<close> deep. \<open>newStruct\<close> preserves it
  (\<^verbatim>\<open>jni/jffi/Struct.c\<close>), and on a well-typed descriptor the classification of arguments
  (\<^verbatim>\<open>jni/libffi/src/x86/ffi64.c\<close>) never gets stuck: it follows no bad pointer, stays within
  \<open>classes[MAX_CLASSES]\<close> and does not reach its \<open>abort\<close>.
\<close>

section \<open>Well-typed descriptors\<close>

definition fields_at :: "'a type_world_scheme \<Rightarrow> addr list \<Rightarrow> field list" where
  "fields_at w ps = map (\<lambda>p. field_of (the (types w p))) ps"

inductive ctype :: "'a type_world_scheme \<Rightarrow> nat \<Rightarrow> addr \<Rightarrow> bool" for w :: "'a type_world_scheme" where
  scalar: "ctype w n p" if "p \<noteq> NULL" "types w p = Some (builtin_type b)"
| struct: "ctype w (Suc n) p"
    if "p \<noteq> NULL" "types w p = Some t" "ft_type t = FFI_TYPE_STRUCT"
      and "ptrs w (ft_elements t) = Some (ps @ [NULL])" "ps \<noteq> []" "\<forall>q \<in> set ps. ctype w n q"
      and "unat (ft_size t) = c_size (fields_at w ps)" "unat (ft_alignment t) = c_align (fields_at w ps)"

lemma ctype_not_null: "ctype w n p \<Longrightarrow> p \<noteq> NULL"
  by (auto elim: ctype.cases)

lemma ctype_weaken: "ctype w n p \<Longrightarrow> n \<le> m \<Longrightarrow> ctype w m p"
proof (induction arbitrary: m rule: ctype.induct)
  case (scalar p b n)
  then show ?case by (intro ctype.scalar)
next
  case (struct p t ps n)
  then obtain m' where "m = Suc m'" "n \<le> m'" by (cases m) auto
  with struct show ?case by (auto intro!: ctype.struct [of p w t ps m'])
qed

text \<open>What every well-typed descriptor has.\<close>

lemma ctype_sane:
  assumes "ctype w n p"
  shows "\<exists>t k. types w p = Some t \<and> k < 5 \<and> ft_alignment t = 2 ^ k \<and> ft_size t \<noteq> 0"
  using assms
proof (induction rule: ctype.induct)
  case (scalar p b n)
  then show ?case using builtin_sane(2,3) by blast
next
  case (struct p t ps n)
  have el: "\<exists>e k. types w q = Some e \<and> k < 5 \<and> ft_alignment e = 2 ^ k \<and> ft_size e \<noteq> 0" if "q \<in> set ps" for q
    using struct.IH that by blast
  have al: "\<exists>k < 5. snd (field_of (the (types w q))) = 2 ^ k \<and> 0 < fst (field_of (the (types w q)))"
    if "q \<in> set ps" for q
    using el [OF that] by (auto simp: field_of_def unat_pow2_16 unat_gt_0)
  then have pos: "\<forall>f \<in> set (fields_at w ps). 0 < fst f" by (auto simp: fields_at_def)
  have ok: "fields_ok (fields_at w ps)" using al by (fastforce simp: fields_ok_def fields_at_def)
  have le: "c_align (fields_at w qs) \<le> 2 ^ 4" if "set qs \<subseteq> set ps" for qs
    using that
  proof (induction qs)
    case (Cons q qs)
    obtain k where k: "k < 5" "snd (field_of (the (types w q))) = 2 ^ k" using al Cons.prems by auto
    have "(2::nat) ^ k \<le> 2 ^ 4" using k(1) by (intro power_increasing) auto
    with Cons k(2) show ?case by (cases "field_of (the (types w q))") (simp add: fields_at_def)
  qed (simp add: fields_at_def)
  obtain k where k: "c_align (fields_at w ps) = 2 ^ k"
    using c_align_pow2 [OF ok] struct.hyps(5) by (auto simp: fields_at_def)
  then have "(2::nat) ^ k \<le> 2 ^ 4" using le [of ps] by simp
  then have "k \<le> 4" by (rule power_le_imp_le_exp [rotated]) simp
  then have k5: "k < 5" by simp
  have "ft_alignment t = 2 ^ k"
    using struct.hyps(7) k k5 by (simp add: unat_pow2_16 word_unat_eq_iff)
  moreover have "0 < c_size (fields_at w ps)"
    using c_size_pos [OF ok _ pos] struct.hyps(5) by (simp add: fields_at_def)
  then have "ft_size t \<noteq> 0" using struct.hyps(6) by auto
  ultimately show ?case using struct.hyps(2) k5 by blast
qed

text \<open>The judgement depends on the descriptors only, and more of them do no harm.\<close>

lemma ctype_more:
  fixes w :: "'a type_world_scheme" and w' :: "'b type_world_scheme"
  assumes m: "more_types w w'" and "ctype w n p"
  shows "ctype w' n p"
  using assms(2)
proof (induction rule: ctype.induct)
  case (scalar p b n)
  then show ?case using more_typesD(1) [OF m] by (intro ctype.scalar)
next
  case (struct p t ps n)
  have "types w' q = types w q" if "q \<in> set ps" for q
    using struct.IH that ctype_sane [of w n q] more_typesD(1) [OF m, of q] by fastforce
  then have "fields_at w' ps = fields_at w ps" by (simp add: fields_at_def)
  with struct more_typesD [OF m] show ?case by (intro ctype.struct [of p w' t ps n]) auto
qed
section \<open>Classification makes progress\<close>

lemma align_up_shift:
  assumes "a dvd off" and "0 < a"
  shows "align_up (off + cur) a = off + align_up cur a"
proof -
  obtain m where m: "off = m * a" using assms(1) by (metis dvdE mult.commute)
  have "(m * a + n) div a = m + n div a" for n using assms(2) by simp
  then have "(m * a + (cur + a - 1)) div a = m + (cur + a - 1) div a" .
  moreover have "m * a + cur + a - 1 = m * a + (cur + a - 1)" using assms(2) by simp
  ultimately show ?thesis by (simp add: m align_up_def add_mult_distrib)
qed

text \<open>A field's alignment divides the offset of its struct in the argument.\<close>

lemma min8_pow: "min (2 ^ k) (8::nat) = 2 ^ min k 3"
proof (cases "k \<le> 3")
  case True
  then have "(2::nat) ^ k \<le> 2 ^ 3" by (intro power_increasing) auto
  with True show ?thesis by simp
next
  case False
  then have "(2::nat) ^ 3 \<le> 2 ^ k" by (intro power_increasing) auto
  with False show ?thesis by simp
qed

lemma field_align_dvd:
  assumes "k \<le> j" "j < 5" and "min (2 ^ j) 8 dvd off" and "off < (8::nat)"
  shows "2 ^ k dvd off"
proof (cases "j \<le> 3")
  case True
  with assms(3) have "2 ^ j dvd off" by (simp add: min8_pow)
  with assms(1) show ?thesis by (meson dvd_trans le_imp_power_dvd)
next
  case False
  with assms(3,4) have "off = 0" by (auto simp: min8_pow elim: dvdE)
  then show ?thesis by simp
qed

lemma classify_scalar: "classify_argument (Suc n) w (builtin_type b) off \<noteq> None"
  by (cases b; simp add: classify_argument.simps builtin_type.simps FFI_TYPEDEF_def is_integer_code_def)

lemma struct_words:
  assumes "unat off + unat sz \<le> 32" and "off < (8 :: 64 word)"
  shows "unat ((sz + off + 8 - 1) div 8) \<le> 4"
proof -
  have "sz + off + 8 - 1 = sz + off + 7" by simp
  moreover have "unat (sz + off + 7) = unat sz + unat off + 7"
    using assms(1) by (simp add: unat_word_ariths)
  ultimately have "unat ((sz + off + 8 - 1) div 8) = (unat sz + unat off + 7) div 8" by (simp only: unat_div) simp
  also have "\<dots> \<le> 4" using assms(1) by simp
  finally show ?thesis .
qed

definition fits_argument :: "ffi_type \<Rightarrow> size_t \<Rightarrow> bool" where
  "fits_argument t off \<longleftrightarrow> off < 8 \<and> min (unat (ft_alignment t)) 8 dvd unat off
     \<and> unat off + unat (ft_size t) \<le> 32"

lemma classify_fields_progress:
  assumes "\<forall>q \<in> set qs. ctype w n q
       \<and> (\<forall>e off. types w q = Some e \<longrightarrow> fits_argument e off \<longrightarrow> classify_argument m w e off \<noteq> None)"
    and "\<forall>q \<in> set qs. unat (ft_alignment (the (types w q))) dvd unat off"
    and "unat pos = unat off + cur" and "unat off + c_end (fields_at w qs) cur \<le> 32"
  shows "classify_fields m w (qs @ [NULL]) classes pos \<noteq> None"
  using assms
proof (induction qs arbitrary: pos cur classes)
  case Nil
  then show ?case by (simp add: classify_fields.simps)
next
  case (Cons q qs)
  obtain e k where e: "types w q = Some e" "k < 5" "ft_alignment e = 2 ^ k" "ft_size e \<noteq> 0" "q \<noteq> NULL"
    using Cons.prems(1) ctype_sane [of w n q] ctype_not_null [of w n q] by auto
  have a: "unat (ft_alignment e) = 2 ^ k" using e(2,3) by (simp add: unat_pow2_16)
  have dv: "2 ^ k dvd unat off" using Cons.prems(2) e(1) a by auto
  let ?cur = "align_up cur (2 ^ k) + unat (ft_size e)"
  let ?pos = "FFI_ALIGN pos (ucast (ft_alignment e))"
  have fs: "fields_at w (q # qs) = (unat (ft_size e), 2 ^ k) # fields_at w qs"
    using e(1) a by (simp add: fields_at_def field_of_def)
  have "fields_ok (fields_at w qs)"
  proof -
    have "\<exists>k. snd (field_of (the (types w p))) = 2 ^ k" if "p \<in> set qs" for p
      using Cons.prems(1) that ctype_sane [of w n p] by (fastforce simp: field_of_def unat_pow2_16)
    then show ?thesis by (fastforce simp: fields_ok_def fields_at_def)
  qed
  then have "?cur \<le> c_end (fields_at w qs) ?cur" by (rule c_end_ge)
  moreover have rest: "unat off + c_end (fields_at w qs) ?cur \<le> 32" using Cons.prems(4) fs by simp
  ultimately have b: "unat off + ?cur \<le> 32" by linarith
  have up: "align_up (unat pos) (2 ^ k) = unat off + align_up cur (2 ^ k)"
    using align_up_shift [OF dv, of cur] Cons.prems(3) by simp
  have sane: "sane_align e" unfolding sane_align_def using e(2,3) by (intro exI [of _ k]) simp
  have "align_up (unat pos) (unat (ft_alignment e)) + unat (ft_size e) + 2 ^ 16 \<le> 2 ^ 64"
    unfolding a up using b by simp
  note st = agg_step_layout [OF sane this, unfolded a up]
  have m8: "unat (?pos mod 8) = unat ?pos mod 8" by (simp add: unat_mod)
  have "2 ^ k dvd unat ?pos" unfolding st(1) up [symmetric] by simp
  moreover have "(2::nat) ^ min k 3 dvd 2 ^ k" "(2::nat) ^ min k 3 dvd 2 ^ 3" by (rule le_imp_power_dvd; simp)+
  ultimately have "2 ^ min k 3 dvd unat ?pos mod 8"
    using dvd_trans by (intro dvd_mod) auto
  moreover have "?pos mod 8 < 8" by (simp add: word_less_nat_alt m8)
  moreover have "unat ?pos mod 8 + unat (ft_size e) \<le> 32"
    using b st(1) mod_less_eq_dividend [of "unat ?pos" 8] by linarith
  ultimately have "fits_argument e (?pos mod 8)"
    by (simp add: fits_argument_def a min8_pow m8)
  then obtain sub where sub: "classify_argument m w e (?pos mod 8) = Some sub"
    using Cons.prems(1) e(1) by auto
  have "classify_fields m w (qs @ [NULL]) (merge_at sub (unat (?pos div 8)) classes) (?pos + ft_size e) \<noteq> None"
    by (rule Cons.IH [OF _ _ _ rest]) (use Cons.prems st(2) in auto)
  then show ?case using e sub by (simp add: classify_fields.simps)
qed

lemma classify_progress:
  "ctype w n p \<Longrightarrow> types w p = Some t \<Longrightarrow> fits_argument t off \<Longrightarrow> classify_argument (Suc n) w t off \<noteq> None"
proof (induction arbitrary: t off rule: ctype.induct)
  case (scalar p b n)
  then show ?case using classify_scalar by (metis option.inject)
next
  case (struct p t0 ps n)
  have p: "ctype w (Suc n) p" by (rule ctype.struct) (use struct in auto)
  obtain j where j: "j < 5" "ft_alignment t = 2 ^ j"
    using ctype_sane [OF p] struct.prems(1) by auto
  have aj: "c_align (fields_at w ps) = 2 ^ j"
    using struct.hyps(2,7) struct.prems(1) j by (simp add: unat_pow2_16)
  have t: "t = t0" using struct.hyps(2) struct.prems(1) by simp
  from struct.prems(2) have off: "off < 8" "min (2 ^ j) 8 dvd unat off" "unat off + unat (ft_size t) \<le> 32"
    using j by (simp_all add: fits_argument_def unat_pow2_16)
  have el: "\<forall>q \<in> set ps. \<exists>e k. types w q = Some e \<and> k < 5 \<and> ft_alignment e = 2 ^ k"
    using struct.IH ctype_sane by blast
  have ok: "fields_ok (fields_at w ps)"
    using el by (fastforce simp: fields_ok_def fields_at_def field_of_def unat_pow2_16)
  have dv: "\<forall>q \<in> set ps. unat (ft_alignment (the (types w q))) dvd unat off"
  proof
    fix q assume q: "q \<in> set ps"
    obtain e k where e: "types w q = Some e" "k < 5" "ft_alignment e = 2 ^ k" using el q by blast
    then have a: "unat (ft_alignment e) = 2 ^ k" by (simp add: unat_pow2_16)
    have "(unat (ft_size e), unat (ft_alignment e)) \<in> set (fields_at w ps)"
      using q e by (force simp: fields_at_def field_of_def)
    from c_align_ge [OF this] have "(2::nat) ^ k \<le> 2 ^ j" using a aj by simp
    then have "k \<le> j" by (rule power_le_imp_le_exp [rotated]) simp
    moreover have "unat off < 8" using off(1) by (simp add: word_less_nat_alt)
    ultimately have "2 ^ k dvd unat off" using field_align_dvd [of k j "unat off"] j(1) off(2) by blast
    with e a show "unat (ft_alignment (the (types w q))) dvd unat off" by simp
  qed
  have "c_end (fields_at w ps) 0 \<le> c_size (fields_at w ps)"
    unfolding c_size_def aj by (rule align_up_ge) simp
  then have fit: "unat off + c_end (fields_at w ps) 0 \<le> 32"
    using off(3) struct.hyps(6) t by simp
  let ?words = "unat ((ft_size t + off + 8 - 1) div 8)"
  have "classify_fields (Suc n) w (ps @ [NULL]) (replicate ?words X86_64_NO_CLASS) off \<noteq> None"
    by (rule classify_fields_progress [OF _ dv _ fit]) (use struct.IH in auto)
  then obtain cs where "classify_fields (Suc n) w (ps @ [NULL]) (replicate ?words X86_64_NO_CLASS) off = Some cs"
    by blast
  moreover have "unat ((ft_size t + off + 8 - 1) div 8) \<le> 4" using off by (intro struct_words)
  ultimately show ?case using struct.hyps(3,4) t
    by (auto simp: classify_argument.simps is_integer_code_def Let_def)
qed

lemma count_classes_defined: "X86_64_MEMORY_CLASS \<notin> set cs \<Longrightarrow> count_classes cs g s \<noteq> None"
proof (induction cs arbitrary: g s)
  case (Cons c cs)
  then show ?case by (cases c) auto
qed simp

lemma examine_progress:
  assumes p: "ctype w n p" "types w p = Some t"
  shows "\<exists>x. examine_argument (Suc n) w t r = Some x \<and> ex_n x \<le> 2"
proof -
  have "classify_argument (Suc n) w t 0 \<noteq> None"
  proof (cases "ft_size t \<le> 32")
    case True
    then have "fits_argument t 0" by (simp add: fits_argument_def word_le_nat_alt)
    with p show ?thesis by (rule classify_progress)
  next
    case False
    from p(1) show ?thesis
    proof cases
      case (scalar b)
      with p(2) classify_scalar show ?thesis by (metis option.inject)
    next
      case (struct t' ps m)
      moreover have "32 < ft_size t" using False by simp
      ultimately show ?thesis using p(2) by (simp add: classify_argument.simps is_integer_code_def Let_def)
    qed
  qed
  then obtain cs where cs: "classify_argument (Suc n) w t 0 = Some cs" by blast
  have ok: "reported_ok cs" using classify_ok(1) [OF cs] .
  then have "count_classes cs 0 0 \<noteq> None" by (simp add: reported_ok_def count_classes_defined)
  then obtain c where "count_classes cs 0 0 = Some c" by blast
  with cs ok show ?thesis by (auto simp: examine_argument_def reported_ok_def split: option.splits)
qed

section \<open>Properties\<close>

text \<open>Claim C39. Type soundness of descriptors. From fields that are descriptors of C types, and a
  struct that fits the address space, \<open>newStruct\<close> returns the descriptor of a C type, one level
  deeper; every descriptor that was well typed before still is; and the examination of the new
  type as an argument or as a return value never gets stuck: it meets no bad pointer, no overrun
  of \<open>classes\<close> and no \<open>abort\<close>, and asks for at most two registers.\<close>

theorem newStruct_well_typed:
  assumes ok: "type_heap_ok w" and fs: "fs \<noteq> []" "length fs + 1 < 2 ^ 31"
    and typed: "\<forall>f \<in> set fs. ctype w n (j2p f)"
    and sc: "script w = s # e # sc" "s \<noteq> NULL" "e \<noteq> NULL"
    and fits: "c_end (fields_at w (map j2p fs)) 0 + 2 ^ 16 \<le> 2 ^ 64"
  shows "\<exists>w' t. newStruct (Some fs) False w = Some (p2j s, w') \<and> types w' s = Some t
       \<and> ctype w' (Suc n) s \<and> (\<forall>m p. ctype w m p \<longrightarrow> ctype w' m p)
       \<and> (\<forall>r. \<exists>x. examine_argument (Suc (Suc n)) w' t r = Some x \<and> ex_n x \<le> 2)"
proof -
  let ?es = "map (descr w) fs"
  have el: "\<exists>t k. types w (j2p f) = Some t \<and> k < 5 \<and> ft_alignment t = 2 ^ k \<and> ft_size t \<noteq> 0 \<and> j2p f \<noteq> NULL"
    if "f \<in> set fs" for f
    using typed that ctype_sane [of w n "j2p f"] ctype_not_null [of w n "j2p f"] by auto
  have "valid_field w f \<and> sane_align (descr w f)" if f: "f \<in> set fs" for f
  proof -
    obtain t k where t: "types w (j2p f) = Some t" "k < 5" "ft_alignment t = 2 ^ k" "ft_size t \<noteq> 0" "j2p f \<noteq> NULL"
      using el [OF f] by blast
    then show ?thesis unfolding sane_align_def
      by (auto simp: valid_field_def descr_def intro!: exI [of _ k])
  qed
  then have valid: "\<forall>f \<in> set fs. valid_field w f \<and> sane_align (descr w f)" by blast
  have es: "\<forall>e \<in> set ?es. sane_align e" "\<forall>e \<in> set ?es. sane_align e \<and> ft_size e \<noteq> 0" "?es \<noteq> []"
    using valid fs by (auto simp: valid_field_def descr_def)
  have F: "fields_at w (map j2p fs) = map field_of ?es" by (simp add: fields_at_def descr_def)
  note fits' = fits [unfolded F]
  let ?t = "struct_descr False ?es e"
  let ?w = "built s ?t (map j2p fs @ [NULL]) sc w"
  have new: "newStruct (Some fs) False w = Some (p2j s, ?w)"
    using valid agg_scan_nonzero [OF es(2,3) fits']
    by (intro newStruct_success ok fs sc) (auto simp: scan_def)
  have te: "ft_elements ?t = e" by (simp add: struct_descr_def)
  have "types w s = None" "ptrs w e = None"
    using type_heap_ok_script [OF ok sc(1,2)] ok sc by (auto simp: type_heap_ok_def)
  then have m: "more_types w ?w"
    by (auto simp: more_types_def map_le_def te)
  have old: "\<forall>q \<in> set (map j2p fs). ctype ?w n q" using typed ctype_more [OF m] by auto
  have "types ?w q = types w q" if "q \<in> set (map j2p fs)" for q
    using that el more_typesD(1) [OF m, of q] by fastforce
  then have same: "fields_at ?w (map j2p fs) = map field_of ?es"
    unfolding F [symmetric] by (simp add: fields_at_def del: built_simps)
  have "unat (ft_size ?t) = c_size (map field_of ?es)" "unat (ft_alignment ?t) = c_align (map field_of ?es)"
    "ft_type ?t = FFI_TYPE_STRUCT"
    using agg_final_layout(1,2) [OF es(1,3) fits'] by (simp_all add: struct_descr_final)
  then have c: "ctype ?w (Suc n) s"
    using fs(1) old sc(2) by (intro ctype.struct [of s ?w ?t "map j2p fs" n]) (simp_all only: same, simp_all)
  have "types ?w s = Some ?t" by simp
  with new c ctype_more [OF m] examine_progress [OF c] show ?thesis by blast
qed

lemma newStruct_well_typed_witness:
  "\<exists>w' t. newStruct (Some (map (p2j \<circ> image_symbol) [ffi_type_uint8, ffi_type_double, ffi_type_uint16]))
            False (loaded [0x2000, 0x3000]) = Some (p2j 0x2000, w') \<and> types w' 0x2000 = Some t
     \<and> ctype w' 1 0x2000 \<and> (\<exists>x. examine_argument 2 w' t True = Some x \<and> ex_n x \<le> 2)"
proof -
  let ?fs = "map (p2j \<circ> image_symbol) [ffi_type_uint8, ffi_type_double, ffi_type_uint16]"
  let ?w = "loaded [0x2000, 0x3000]"
  have "type_heap_ok ?w" by (rule loaded_ok) simp_all
  moreover have "\<forall>f \<in> set ?fs. ctype ?w 0 (j2p f)" by (auto intro: ctype.scalar)
  ultimately have "\<exists>w' t. newStruct (Some ?fs) False ?w = Some (p2j 0x2000, w') \<and> types w' 0x2000 = Some t
       \<and> ctype w' (Suc 0) 0x2000 \<and> (\<forall>m p. ctype ?w m p \<longrightarrow> ctype w' m p)
       \<and> (\<forall>r. \<exists>x. examine_argument (Suc (Suc 0)) w' t r = Some x \<and> ex_n x \<le> 2)"
    by (intro newStruct_well_typed [where e = "0x3000" and sc = "[]"])
       (simp_all add: fields_at_def builtin_type.simps FFI_TYPEDEF_def field_of_def align_up_def)
  then show ?thesis by (auto simp: numeral_2_eq_2)
qed

section \<open>Unions\<close>

text \<open>A union is a descriptor of type STRUCT too, so libffi classifies its members as fields one
  behind the other, not overlaid. In a union of a \<open>char\<close> and a struct of 32 \<open>char\<close>s (the descriptor
  at \<open>0x8000\<close>) the second member is classified at byte 1, so it ends behind byte 32 and its classes
  overrun \<open>classes[MAX_CLASSES]\<close>.\<close>

definition union_world :: type_world where
  "union_world = (loaded [])\<lparr>
     types := image_types(0x6000 \<mapsto> \<lparr>ft_size = 32, ft_alignment = 1, ft_type = FFI_TYPE_STRUCT, ft_elements = 0x7000\<rparr>,
                          0x8000 \<mapsto> \<lparr>ft_size = 32, ft_alignment = 1, ft_type = FFI_TYPE_STRUCT, ft_elements = 0x9000\<rparr>),
     ptrs := [0x7000 \<mapsto> replicate 32 (image_symbol ffi_type_sint8) @ [NULL],
              0x9000 \<mapsto> [image_symbol ffi_type_sint8, 0x6000, NULL]]\<rparr>"

lemma union_overrun:
  "examine_argument n union_world \<lparr>ft_size = 32, ft_alignment = 1, ft_type = FFI_TYPE_STRUCT,
     ft_elements = 0x9000\<rparr> r = None"
proof -
  have "image_symbol ffi_type_sint8 = 0x1030" by (simp add: image_symbol.simps)
  moreover have "image_types 0x1030 = Some (builtin_type ffi_type_sint8)"
    by (simp add: image_types_def image_symbol.simps)
  ultimately have a: "types union_world (image_symbol ffi_type_sint8) = Some (builtin_type ffi_type_sint8)"
    by (simp add: union_world_def)
  have b: "types union_world 0x6000 = Some \<lparr>ft_size = 32, ft_alignment = 1, ft_type = FFI_TYPE_STRUCT, ft_elements = 0x7000\<rparr>"
    "ptrs union_world 0x9000 = Some [image_symbol ffi_type_sint8, 0x6000, NULL]"
    by (simp_all add: union_world_def)
  show ?thesis
    by (cases n; cases "n - 1"; cases "n - 2")
       (simp_all add: examine_argument_def classify_argument.simps classify_fields.simps a b builtin_type.simps
          FFI_TYPEDEF_def is_integer_code_def do_integer_def FFI_ALIGN_def Let_def)
qed

text \<open>A union of a \<open>float\<close> and a \<open>double\<close> (eight bytes, members at the same address) is classified by its
  first member alone, because the second would lie behind the union: it goes in the low four bytes
  of a vector register, and the upper half of the \<open>double\<close> is lost. The classification of the C ABI
  merges the classes of both members.\<close>

lemma union_first_member:
  assumes "types w f = Some (builtin_type ffi_type_float)" "types w d = Some (builtin_type ffi_type_double)"
    and "f \<noteq> NULL" "d \<noteq> NULL" "ptrs w e = Some [f, d, NULL]"
  shows "examine_argument (Suc (Suc n)) w (struct_descr True [builtin_type ffi_type_float, builtin_type ffi_type_double] e) r
     = Some \<lparr>ex_n = 1, ex_classes = [X86_64_SSESF_CLASS], ex_ngpr = 0, ex_nsse = 1\<rparr>"
  using assms
  by (simp add: examine_argument_def classify_argument.simps classify_fields.simps struct_descr_def scan_def builtin_type.simps
      FFI_TYPEDEF_def FFI_ALIGN_def is_integer_code_def classify_float_def struct_result_def Let_def)

end
