(* ===== verification/Ffi_Win64.thy ===== *)
theory Ffi_Win64
  imports Ffi_Closure
begin

text \<open>
  The Microsoft calling convention on x86-64 (\<^verbatim>\<open>jni/libffi/src/x86/ffiw64.c\<close> with \<^verbatim>\<open>win64.S\<close>), which
  libffi offers on System V systems, too: \<open>ffi_call\<close> hands interfaces with the ABI \<open>FFI_EFI64\<close> or
  \<open>FFI_GNUW64\<close> to \<open>ffi_call_efi64\<close>, and closures for them enter at \<open>ffi_closure_win64\<close>. Every argument
  is one slot of eight bytes: its value if it has 1, 2, 4 or 8 bytes, otherwise the address of one. The first four
  slots travel in registers, general and vector ones alike, and have a home on the stack.

  As on the System V side, a target takes its stack arguments as a list of bytes, the block that
  \<open>alloca\<close> gives the caller is a list of bytes of its own, and a closure finds its stack arguments in
  a region below the caller's.
\<close>

section \<open>ffi_call_win64\<close>

text \<open>The registers and the outgoing stack area at the call, home slots first; a target returns \<open>rax\<close>
  and the low half of \<open>xmm0\<close>.\<close>

record ms_regs =
  ms_gpr :: "u64 list"
  ms_xmm :: "u64 list"
  ms_r10 :: u64
  ms_args :: "byte list"

type_synonym 'w ms_native = "addr \<Rightarrow> ms_regs \<Rightarrow> 'w \<Rightarrow> ((u64 \<times> u64) \<times> 'w) option"

text \<open>The jump table: what is written to \<open>frame->rvalue\<close> for \<open>frame->flags\<close>; \<open>None\<close> is \<open>abort\<close>.\<close>

definition win64_store :: "u32 \<Rightarrow> u64 \<Rightarrow> u64 \<Rightarrow> byte list option" where
  "win64_store flags rax xmm0 =
     (if flags = 0 then Some []
      else if flags = 1 then Some (le_bytes 8 (signed_take_bit 31 rax))
      else if flags = 2 then Some (le_bytes 4 xmm0)
      else if flags = 3 then Some (le_bytes 8 xmm0)
      else if flags = 5 then Some (le_bytes 8 (take_bit 8 rax))
      else if flags = 6 then Some (le_bytes 8 (signed_take_bit 7 rax))
      else if flags = 7 then Some (le_bytes 8 (take_bit 16 rax))
      else if flags = 8 then Some (le_bytes 8 (signed_take_bit 15 rax))
      else if flags = 9 then Some (le_bytes 8 (take_bit 32 rax))
      else if flags = 10 then Some (le_bytes 8 (signed_take_bit 31 rax))
      else if flags = 11 \<or> flags = 12 then Some (le_bytes 8 rax)
      else if flags = 13 then Some []
      else if flags = 14 then Some (le_bytes 8 rax)
      else if flags = 16 then Some (le_bytes 1 rax)
      else if flags = 17 then Some (le_bytes 2 rax)
      else if flags = 18 then Some (le_bytes 4 rax)
      else None)"

text \<open>\<open>struct win64_call_frame\<close> lies behind the slots. The stub saves \<open>rbp\<close> and the return address in its
  first two fields; the target leaves the frame alone.\<close>

definition ffi_call_win64 ::
  "'a mem_world_scheme ms_native \<Rightarrow> byte list \<Rightarrow> nat \<Rightarrow> addr \<Rightarrow> 'a mem_world_scheme \<Rightarrow> 'a mem_world_scheme option"
where
  "ffi_call_win64 native stack frame closure w =
     (let rd = (\<lambda>off. le_word (take 8 (drop off stack)) :: u64);
          slots = map (\<lambda>i. rd (8 * i)) [0..<4]
      in do {
        ((rax, xmm0), w1) \<leftarrow> native (rd (frame + 16))
            \<lparr>ms_gpr = slots, ms_xmm = slots, ms_r10 = closure, ms_args = take frame stack\<rparr> w;
        out \<leftarrow> win64_store (ucast (rd (frame + 24))) rax xmm0;
        m \<leftarrow> store (mem w1) (rd (frame + 32)) out;
        Some (w1\<lparr>mem := m\<rparr>)
      })"

section \<open>ffi_call_int\<close>

definition by_value_size :: "size_t \<Rightarrow> bool" where
  "by_value_size sz \<longleftrightarrow> sz = 1 \<or> sz = 2 \<or> sz = 4 \<or> sz = 8"

fun win64_args :: "'a mem_world_scheme \<Rightarrow> addr list \<Rightarrow> addr list \<Rightarrow> nat \<Rightarrow> byte list \<Rightarrow> byte list option" where
  "win64_args w [] avalue j stack = Some stack"
| "win64_args w (p # arg_types) [] j stack = None"
| "win64_args w (p # arg_types) (v # avalue) j stack = do {
     t \<leftarrow> types w p;
     slot \<leftarrow> (if by_value_size (ft_size t) then map_option le_word (load (mem w) v (unat (ft_size t))) else Some v);
     stack \<leftarrow> put stack (8 * j) (le_bytes 8 slot);
     win64_args w arg_types avalue (Suc j) stack
   }"

definition ffi_call_int_efi64 ::
  "'a mem_world_scheme ms_native \<Rightarrow> ffi_cif \<Rightarrow> addr \<Rightarrow> addr \<Rightarrow> addr list \<Rightarrow> addr
     \<Rightarrow> 'a mem_world_scheme \<Rightarrow> 'a mem_world_scheme option"
where
  "ffi_call_int_efi64 native cif fn rvalue avalue closure w = do {
     arg_types \<leftarrow> read_ptrs w (cif_arg_types cif) (nat (sint (cif_nargs cif)));
     (avalue, w1) \<leftarrow> copy_large w arg_types avalue 8;
     (flags, rsize) \<leftarrow>
       (if rvalue \<noteq> NULL then Some (cif_flags cif, 0)
        else if cif_flags cif = 13 then map_option (\<lambda>t. (cif_flags cif, unat (ft_size t))) (types w1 (cif_rtype cif))
        else Some (0, 0));
     frame \<leftarrow> Some (unat (cif_bytes cif));
     (stack, w2) \<leftarrow> Some (alloca (frame + 40 + rsize) w1);
     rvalue \<leftarrow> Some (if rsize \<noteq> 0 then stack + of_nat (frame + 40) else rvalue);
     blk \<leftarrow> put (fresh_bytes w1 stack (frame + 40 + rsize)) (frame + 16) (le_bytes 8 fn);
     blk \<leftarrow> put blk (frame + 24) (le_bytes 8 (scast flags));
     blk \<leftarrow> put blk (frame + 32) (le_bytes 8 rvalue);
     (j, blk) \<leftarrow> (if flags = 13 then map_option (Pair 1) (put blk 0 (le_bytes 8 rvalue)) else Some (0, blk));
     blk \<leftarrow> win64_args w1 arg_types avalue j blk;
     ffi_call_win64 native blk frame closure (w2\<lparr>mem := map_block stack blk (mem w2)\<rparr>)
   }"

definition ffi_call_efi64 ::
  "'a mem_world_scheme ms_native \<Rightarrow> ffi_cif \<Rightarrow> addr \<Rightarrow> addr \<Rightarrow> addr list \<Rightarrow> 'a mem_world_scheme \<Rightarrow> 'a mem_world_scheme option"
where
  "ffi_call_efi64 native cif fn rvalue avalue w = ffi_call_int_efi64 native cif fn rvalue avalue NULL w"

definition ffi_call_go_efi64 ::
  "'a mem_world_scheme ms_native \<Rightarrow> ffi_cif \<Rightarrow> addr \<Rightarrow> addr \<Rightarrow> addr list \<Rightarrow> addr \<Rightarrow> 'a mem_world_scheme \<Rightarrow> 'a mem_world_scheme option"
where
  "ffi_call_go_efi64 native cif fn rvalue avalue closure w = ffi_call_int_efi64 native cif fn rvalue avalue closure w"

section \<open>ffi_closure_win64\<close>

text \<open>\<open>struct win64_closure_frame\<close> at \<open>frame\<close>: two words for the value returned, the four vector
  registers, the return address, and from byte 56 on the slots of the call.\<close>

fun win64_avalue :: "'a mem_world_scheme \<Rightarrow> addr \<Rightarrow> addr list \<Rightarrow> nat \<Rightarrow> addr list option" where
  "win64_avalue w frame [] nreg = Some []"
| "win64_avalue w frame (p # arg_types) nreg = do {
     t \<leftarrow> types w p;
     slot \<leftarrow> Some (frame + 56 + of_nat (8 * nreg));
     a \<leftarrow> (if ft_type t = FFI_TYPE_DOUBLE \<or> ft_type t = FFI_TYPE_FLOAT
          then Some (if nreg < 4 then frame + 16 + of_nat (8 * nreg) else slot)
          else if by_value_size (ft_size t) then Some slot
          else map_option le_word (load (mem w) slot 8));
     avalue \<leftarrow> win64_avalue w frame arg_types (Suc nreg);
     Some (a # avalue)
   }"

definition ffi_closure_win64_inner ::
  "'a ctx_world_scheme closure_fun \<Rightarrow> addr \<Rightarrow> addr \<Rightarrow> addr \<Rightarrow> addr \<Rightarrow> 'a ctx_world_scheme \<Rightarrow> 'a ctx_world_scheme option"
where
  "ffi_closure_win64_inner call cif fn user_data frame w = do {
     c \<leftarrow> cif_at cif w;
     (avp, w1) \<leftarrow> Some (alloca (8 * nat (sint (cif_nargs c))) w);
     (rvalue, nreg, w2) \<leftarrow>
       (if cif_flags c = 13
        then do {
          r \<leftarrow> load (mem w1) (frame + 56) 8;
          m \<leftarrow> store (mem w1) frame r;
          Some (le_word r, 1, w1\<lparr>mem := m\<rparr>)
        }
        else Some (frame, 0, w1));
     arg_types \<leftarrow> read_ptrs w2 (cif_arg_types c) (nat (sint (cif_nargs c)));
     avalue \<leftarrow> win64_avalue w2 frame arg_types nreg;
     m \<leftarrow> store (mem w2) avp (concat (map (le_bytes 8) avalue));
     call fn cif rvalue avp user_data (w2\<lparr>mem := m\<rparr>)
   }"

text \<open>The entry saves the general registers in their homes and the vector registers in the frame; on
  return both result registers get the first word of the frame.\<close>

definition win64_closure_frame :: "ms_regs \<Rightarrow> byte list \<Rightarrow> byte list" where
  "win64_closure_frame regs junk = take 16 junk @ concat (map (le_bytes 8) (ms_xmm regs)) @ drop 48 junk"

definition do_closure_win64 ::
  "'a ctx_world_scheme closure_fun \<Rightarrow> (memory \<Rightarrow> (addr \<times> addr \<times> addr) option) \<Rightarrow> ms_regs
     \<Rightarrow> 'a ctx_world_scheme \<Rightarrow> ((u64 \<times> u64) \<times> 'a ctx_world_scheme) option"
where
  "do_closure_win64 call loads regs w = do {
     (args, w1) \<leftarrow> Some (alloca (length (ms_args regs)) w);
     frame \<leftarrow> Some (args - 56);
     w2 \<leftarrow> Some (w1\<lparr>stack_top := args - 104,
                   mem := map_block frame (win64_closure_frame regs (fresh_bytes w1 frame 56))
                            (map_block args (concat (map (le_bytes 8) (ms_gpr regs)) @ drop 32 (ms_args regs)) (mem w1))\<rparr>);
     (cif, fn, user_data) \<leftarrow> loads (mem w2);
     w3 \<leftarrow> ffi_closure_win64_inner call cif fn user_data frame w2;
     r \<leftarrow> load (mem w3) frame 8;
     Some ((le_word r, le_word r), w3\<lparr>stack_top := stack_top w\<rparr>)
   }"

text \<open>A call of the address of a closure of a Microsoft interface.\<close>

definition win64_native :: "link \<Rightarrow> 'a ctx_world_scheme closure_fun \<Rightarrow> 'a ctx_world_scheme ms_native" where
  "win64_native lk call pc regs w = do {
     (dest, r10) \<leftarrow> run_trampoline (mem w) pc;
     if dest = at_closure_win64 lk then do_closure_win64 call (closure_loads r10) regs w else None
   }"

section \<open>Blocks of words\<close>

lemma le_bytes_8_le_word: "length bs = 8 \<Longrightarrow> le_bytes 8 (le_word bs) = bs"
  using le_bytes_le_word [of bs] by simp

lemma words_of: "length b = 8 * n \<Longrightarrow> \<exists>ws :: u64 list. length ws = n \<and> b = concat (map (le_bytes 8) ws)"
proof (induction n arbitrary: b)
  case (Suc n)
  then obtain ws :: "u64 list" where ws: "length ws = n" "drop 8 b = concat (map (le_bytes 8) ws)"
    by (metis add_diff_cancel_left' length_drop mult_Suc_right)
  have "b = le_bytes 8 (le_word (take 8 b)) @ drop 8 b"
    using Suc.prems by (simp add: le_bytes_8_le_word)
  with ws have "length (le_word (take 8 b) # ws) = Suc n \<and> b = concat (map (le_bytes 8) (le_word (take 8 b) # ws))" by simp
  then show ?case by blast
qed simp

lemma take_words: "take (8 * n) (concat (map (le_bytes 8) ws)) = concat (map (le_bytes 8) (take n ws))"
proof (induction ws arbitrary: n)
  case (Cons x ws)
  then show ?case by (cases n) simp_all
qed simp

lemma drop_words: "drop (8 * n) (concat (map (le_bytes 8) ws)) = concat (map (le_bytes 8) (drop n ws))"
proof (induction ws arbitrary: n)
  case (Cons x ws)
  then show ?case by (cases n) simp_all
qed simp

text \<open>Writing a word into a block of words followed by other bytes.\<close>

lemma put_word:
  assumes "j < length ws"
  shows "put (concat (map (le_bytes 8) ws) @ ys) (8 * j) (le_bytes 8 x)
    = Some (concat (map (le_bytes 8) (ws[j := x])) @ ys)"
proof -
  have "concat (map (le_bytes 8) (ws[j := x]))
      = concat (map (le_bytes 8) (take j ws)) @ le_bytes 8 x @ concat (map (le_bytes 8) (drop (Suc j) ws))"
    using assms by (simp add: upd_conv_take_nth_drop)
  moreover have "drop (8 * j + 8) (concat (map (le_bytes 8) ws)) = concat (map (le_bytes 8) (drop (Suc j) ws))"
    using drop_words [of "Suc j" ws] by (simp add: add.commute)
  ultimately show ?thesis using assms take_words [of j ws] by (simp add: put_def)
qed

text \<open>The argument loop fills the slots one after the other.\<close>

definition win64_slot :: "memory \<Rightarrow> ffi_type \<Rightarrow> addr \<Rightarrow> u64 \<Rightarrow> bool" where
  "win64_slot m t v x \<longleftrightarrow> (if by_value_size (ft_size t) then \<exists>bs. load m v (unat (ft_size t)) = Some bs \<and> x = le_word bs else x = v)"

lemma win64_args_slots:
  assumes "list_all2 (\<lambda>p t. types w p = Some t) ps ts" and "length vs = length ps"
    and "list_all2 (\<lambda>(t, v) x. win64_slot (mem w) t v x) (zip ts vs) xs" and "j + length ps \<le> length ws"
  shows "win64_args w ps vs j (concat (map (le_bytes 8) ws) @ ys)
     = Some (concat (map (le_bytes 8) (take j ws @ xs @ drop (j + length ps) ws)) @ ys)"
  using assms
proof (induction ps ts arbitrary: vs xs j ws rule: list_all2_induct)
  case Nil
  then show ?case by simp
next
  case (Cons p ps t ts)
  then obtain v vs' where vs: "vs = v # vs'" "length vs' = length ps" by (cases vs) auto
  with Cons.prems(2) obtain x xs' where xs: "xs = x # xs'" "win64_slot (mem w) t v x"
    "list_all2 (\<lambda>(t, v) x. win64_slot (mem w) t v x) (zip ts vs') xs'"
    by (auto simp: list_all2_Cons1)
  have j: "j < length ws" using Cons.prems(3) by simp
  have ih: "win64_args w ps vs' (Suc j) (concat (map (le_bytes 8) (ws[j := x])) @ ys)
     = Some (concat (map (le_bytes 8) (take (Suc j) (ws[j := x]) @ xs' @ drop (Suc j + length ps) (ws[j := x]))) @ ys)"
    by (rule Cons.IH) (use vs xs Cons.prems in auto)
  have e: "take (Suc j) (ws[j := x]) @ xs' @ drop (Suc j + length ps) (ws[j := x])
      = take j ws @ xs @ drop (j + length (p # ps)) ws"
    using j xs by (simp add: take_Suc_conv_app_nth)
  have "(if by_value_size (ft_size t) then map_option le_word (load (mem w) v (unat (ft_size t))) else Some v) = Some x"
    using xs(2) by (auto simp: win64_slot_def split: if_splits)
  then have "win64_args w (p # ps) vs j (concat (map (le_bytes 8) ws) @ ys)
      = win64_args w ps vs' (Suc j) (concat (map (le_bytes 8) (ws[j := x])) @ ys)"
    using Cons.hyps(1) by (simp add: vs put_word [OF j])
  then show ?case unfolding ih e .
qed

section \<open>Growing the stack\<close>

text \<open>\<open>grows lo w w'\<close>: on the way from \<open>w\<close> to \<open>w'\<close> the stack has grown, not below \<open>lo\<close>, and memory changed
  only between \<open>lo\<close> and the stack's old end. A value that lies outside that region keeps its bytes.\<close>

definition clear_of :: "nat \<Rightarrow> nat \<Rightarrow> addr \<Rightarrow> bool" where
  "clear_of lo hi a \<longleftrightarrow> unat a < lo \<or> hi \<le> unat a"

definition grows :: "nat \<Rightarrow> 'a mem_world_scheme \<Rightarrow> 'a mem_world_scheme \<Rightarrow> bool" where
  "grows lo w w' \<longleftrightarrow> w' = w\<lparr>stack_top := stack_top w', mem := mem w'\<rparr>
     \<and> lo \<le> unat (stack_top w') \<and> unat (stack_top w') \<le> unat (stack_top w)
     \<and> (\<forall>a. clear_of lo (unat (stack_top w)) a \<longrightarrow> mem w' a = mem w a)"

definition val_at :: "nat \<Rightarrow> 'a mem_world_scheme \<Rightarrow> ffi_type \<Rightarrow> addr \<Rightarrow> byte list \<Rightarrow> bool" where
  "val_at lo w t v bs \<longleftrightarrow> load (mem w) v (unat (ft_size t)) = Some bs
     \<and> (\<forall>a \<in> span v (unat (ft_size t)). clear_of lo (unat (stack_top w)) a)"

lemma clear_of_mono: "clear_of lo hi a \<Longrightarrow> hi' \<le> hi \<Longrightarrow> clear_of lo hi' a"
  by (auto simp: clear_of_def)

lemma grows_frame:
  assumes "grows lo w w'"
  shows "types w' = types w" "ptrs w' = ptrs w" "garbage w' = garbage w" "fresh_bytes w' = fresh_bytes w"
proof -
  from assms obtain T m where "w' = w\<lparr>stack_top := T, mem := m\<rparr>" unfolding grows_def by blast
  then show "types w' = types w" "ptrs w' = ptrs w" "garbage w' = garbage w" "fresh_bytes w' = fresh_bytes w"
    by (simp_all add: fresh_bytes_def fun_eq_iff)
qed

lemma grows_refl: "lo \<le> unat (stack_top w) \<Longrightarrow> grows lo w w"
  by (simp add: grows_def)

lemma grows_trans:
  assumes "grows lo w w'" and "grows lo w' w''" shows "grows lo w w''"
proof -
  obtain T m where w': "w' = w\<lparr>stack_top := T, mem := m\<rparr>" using assms(1) unfolding grows_def by blast
  have "w'' = w'\<lparr>stack_top := stack_top w'', mem := mem w''\<rparr>" using assms(2) by (simp add: grows_def)
  then have "w'' = w\<lparr>stack_top := stack_top w'', mem := mem w''\<rparr>" by (simp add: w')
  with assms show ?thesis using clear_of_mono by (fastforce simp: grows_def)
qed

lemma val_at_grows:
  assumes "grows lo w w'" and "val_at lo w t v bs" shows "val_at lo w' t v bs"
proof -
  have "load (mem w') v (unat (ft_size t)) = load (mem w) v (unat (ft_size t))"
    by (rule load_cong) (use assms in \<open>auto simp: grows_def val_at_def\<close>)
  with assms show ?thesis using clear_of_mono by (fastforce simp: grows_def val_at_def)
qed

lemma alloca_grows:
  assumes a: "alloca n w = (p, w')" and room: "lo + n + 16 \<le> unat (stack_top w)"
  shows "grows lo w w'" and "unat p + n \<le> unat (stack_top w)" "unat (stack_top w) < unat p + n + 16" "stack_top w' = p"
    and "mem w' = map_block p (fresh_bytes w p n) (mem w)"
proof -
  have s: "unat p + n \<le> unat (stack_top w) \<and> unat (stack_top w) < unat p + n + 16 \<and> unat p + n \<le> 2 ^ 64 \<and> stack_top w' = p"
    by (rule alloca_span [OF a]) (use room in simp)
  then show "unat p + n \<le> unat (stack_top w)" "unat (stack_top w) < unat p + n + 16" "stack_top w' = p" by simp_all
  show m: "mem w' = map_block p (fresh_bytes w p n) (mem w)" using a by (auto simp: alloca_def Let_def)
  have "w' = w\<lparr>stack_top := stack_top w', mem := mem w'\<rparr>" using a by (auto simp: alloca_def Let_def)
  moreover have "a \<notin> span p n" if "clear_of lo (unat (stack_top w)) a" for a
    using that s room by (auto simp: clear_of_def span_interval)
  then have "mem w' a = mem w a" if "clear_of lo (unat (stack_top w)) a" for a
    using that by (simp add: m map_block_outside)
  ultimately show "grows lo w w'" using s room by (simp add: grows_def)
qed

text \<open>Filling the newest block keeps within the region.\<close>

lemma grows_store:
  assumes g: "grows lo w w'" and m: "store (mem w') p bs = Some m"
    and s: "lo \<le> unat p" "unat p + length bs \<le> unat (stack_top w)"
  shows "grows lo w (w'\<lparr>mem := m\<rparr>)"
proof -
  have b: "unat (stack_top w) < 2 ^ 64" by (rule unat_bound)
  have "m a = mem w' a" if "clear_of lo (unat (stack_top w)) a" for a
    using that s b by (intro store_outside [OF m]) (auto simp: clear_of_def span_interval)
  moreover obtain T k where "w' = w\<lparr>stack_top := T, mem := k\<rparr>" using g unfolding grows_def by blast
  ultimately show ?thesis using g by (simp add: grows_def)
qed

lemma copy_one:
  assumes v: "val_at lo w t v bs" and room: "lo + unat (ft_size t) + 16 \<le> unat (stack_top w)" and sz: "ft_size t < 2 ^ 31"
  shows "\<exists>m q w1. alloca (unat (ft_size t)) w = (q, w1) \<and> store (mem w1) q bs = Some m \<and> grows lo w (w1\<lparr>mem := m\<rparr>)
     \<and> val_at lo (w1\<lparr>mem := m\<rparr>) t q bs \<and> unat (stack_top w) < unat (stack_top w1) + unat (ft_size t) + 16"
proof -
  let ?n = "unat (ft_size t)"
  obtain q w1 where a: "alloca ?n w = (q, w1)" by fastforce
  note g = alloca_grows [OF a room]
  have l: "length bs = ?n" using v load_length by (auto simp: val_at_def)
  have "span q (length bs) \<subseteq> dom (mem w1)" using l by (simp add: g(5) map_block_dom)
  then obtain m where m: "store (mem w1) q bs = Some m" using store_defined by blast
  have n: "?n \<le> 2 ^ 64" using unat_bound [of "ft_size t"] by simp
  have "load m q ?n = Some bs" using load_store_same [OF m] l n by simp
  moreover have "clear_of lo (unat q) a" if "a \<in> span q ?n" for a
    using that g(2) unat_bound [of "stack_top w"] by (auto simp: clear_of_def span_interval)
  ultimately have "val_at lo (w1\<lparr>mem := m\<rparr>) t q bs" using g(4) by (simp add: val_at_def)
  moreover have "grows lo w (w1\<lparr>mem := m\<rparr>)"
    by (rule grows_store [OF g(1) m]) (use g(2,3) l room in auto)
  ultimately show ?thesis using a m g(3,4) by auto
qed

text \<open>The copies of large structs. Every argument keeps its bytes, in its old place or a new one.\<close>

definition copy_room :: "ffi_type list \<Rightarrow> nat" where
  "copy_room ts = (\<Sum>t\<leftarrow>ts. unat (ft_size t) + 16)"

fun vals_at :: "nat \<Rightarrow> 'a mem_world_scheme \<Rightarrow> ffi_type list \<Rightarrow> addr list \<Rightarrow> byte list list \<Rightarrow> bool" where
  "vals_at lo w [] vs bss \<longleftrightarrow> vs = [] \<and> bss = []"
| "vals_at lo w (t # ts) vs bss \<longleftrightarrow>
     (case (vs, bss) of (v # vs, bs # bss) \<Rightarrow> val_at lo w t v bs \<and> vals_at lo w ts vs bss | _ \<Rightarrow> False)"

lemma vals_at_grows: "grows lo w w' \<Longrightarrow> vals_at lo w ts vs bss \<Longrightarrow> vals_at lo w' ts vs bss"
  by (induction lo w ts vs bss rule: vals_at.induct) (auto intro: val_at_grows split: list.splits)

lemma int_size:
  assumes "s < (2 ^ 31 :: 64 word)"
  shows "unat (ucast s :: 32 word) = unat s" "sint (ucast s :: 32 word) = int (unat s)"
proof -
  have b: "unat s < 2 ^ 31" using assms by (simp add: word_less_nat_alt)
  then show u: "unat (ucast s :: 32 word) = unat s" by (simp add: unsigned_ucast_eq take_bit_nat_eq_self)
  have "sint (of_nat (unat (ucast s :: 32 word)) :: 32 word) = int (unat s)" unfolding u using b by (intro sint_of_nat32)
  then show "sint (ucast s :: 32 word) = int (unat s)" by (simp only: of_nat_unat ucast_id)
qed

lemma copy_large_values:
  assumes "list_all2 (\<lambda>p t. T p = Some t \<and> ft_size t < 2 ^ 31) ps ts" and "types w = T" and "vals_at lo w ts vs bss"
    and "lo + copy_room ts \<le> unat (stack_top w)"
  shows "\<exists>vs' w'. copy_large w ps vs lim = Some (vs', w') \<and> grows lo w w' \<and> vals_at lo w' ts vs' bss
     \<and> unat (stack_top w) \<le> unat (stack_top w') + copy_room ts"
  using assms
proof (induction ps ts arbitrary: w vs bss rule: list_all2_induct)
  case Nil
  then show ?case by (auto simp: copy_room_def intro: grows_refl)
next
  case (Cons p ps t ts)
  from Cons.prems(2) obtain v vs1 bs bss1 where vs: "vs = v # vs1" "bss = bs # bss1"
    and v: "val_at lo w t v bs" "vals_at lo w ts vs1 bss1" by (auto split: list.splits)
  have t: "types w p = Some t" "ft_size t < 2 ^ 31" using Cons.hyps(1) Cons.prems(1) by auto
  note s = int_size [OF t(2)]
  have room: "lo + unat (ft_size t) + 16 + copy_room ts \<le> unat (stack_top w)"
    using Cons.prems(3) by (simp add: copy_room_def)
  show ?case
  proof (cases "ft_type t = FFI_TYPE_STRUCT \<and> sint (ucast (ft_size t) :: 32 word) > int lim")
    case True
    obtain m q w1 where c: "alloca (unat (ft_size t)) w = (q, w1)" "store (mem w1) q bs = Some m" "grows lo w (w1\<lparr>mem := m\<rparr>)"
      "val_at lo (w1\<lparr>mem := m\<rparr>) t q bs" "unat (stack_top w) < unat (stack_top w1) + unat (ft_size t) + 16"
      using copy_one [OF v(1) _ t(2)] room by auto
    let ?u = "w1\<lparr>mem := m\<rparr>"
    obtain vs' w' where r: "copy_large ?u ps vs1 lim = Some (vs', w')" "grows lo ?u w'" "vals_at lo w' ts vs' bss1"
      "unat (stack_top ?u) \<le> unat (stack_top w') + copy_room ts"
      using Cons.IH [of ?u vs1 bss1] grows_frame(1) [OF c(3)] Cons.prems(1) vals_at_grows [OF c(3) v(2)] c(5) room by auto
    have "copy_large w (p # ps) vs lim = Some (q # vs', w')"
      using t v(1) True c r(1) s by (simp add: vs val_at_def)
    moreover have "vals_at lo w' (t # ts) (q # vs') bss"
      using r(3) val_at_grows [OF r(2) c(4)] by (simp add: vs)
    ultimately show ?thesis using grows_trans [OF c(3) r(2)] r(4) c(5)
      by (intro exI [of _ "q # vs'"] exI [of _ w']) (simp add: copy_room_def)
  next
    case False
    obtain vs' w' where r: "copy_large w ps vs1 lim = Some (vs', w')" "grows lo w w'" "vals_at lo w' ts vs' bss1"
      "unat (stack_top w) \<le> unat (stack_top w') + copy_room ts"
      using Cons.IH [of w vs1 bss1] Cons.prems(1) v(2) room by auto
    have "copy_large w (p # ps) vs lim = Some (v # vs', w')" using t False r(1) by (auto simp: vs)
    moreover have "vals_at lo w' (t # ts) (v # vs') bss"
      using r(3) val_at_grows [OF r(2) v(1)] by (simp add: vs)
    ultimately show ?thesis using r(2,4) by (intro exI [of _ "v # vs'"] exI [of _ w']) (simp add: copy_room_def)
  qed
qed

section \<open>The call\<close>

lemma vals_at_nth:
  "vals_at lo w ts vs bss \<longleftrightarrow> length vs = length ts \<and> length bss = length ts
     \<and> (\<forall>i < length ts. val_at lo w (ts ! i) (vs ! i) (bss ! i))"
proof (induction lo w ts vs bss rule: vals_at.induct)
  case (2 lo w t ts vs bss)
  have all: "(\<forall>i < Suc n. P i) \<longleftrightarrow> P 0 \<and> (\<forall>i < n. P (Suc i))" for P :: "nat \<Rightarrow> bool" and n
    by (auto simp: less_Suc_eq_0_disj)
  show ?case
  proof (cases "\<exists>v vs' bs bss'. vs = v # vs' \<and> bss = bs # bss'")
    case True
    then show ?thesis using 2 by (auto simp: all)
  next
    case False
    then show ?thesis by (cases vs; cases bss) auto
  qed
qed auto

definition slots_of :: "ffi_type list \<Rightarrow> addr list \<Rightarrow> byte list list \<Rightarrow> u64 list" where
  "slots_of ts vs bss = map (\<lambda>i. if by_value_size (ft_size (ts ! i)) then le_word (bss ! i) else vs ! i) [0..<length ts]"

lemma slots_of_nth:
  "length (slots_of ts vs bss) = length ts"
  "i < length ts \<Longrightarrow> slots_of ts vs bss ! i = (if by_value_size (ft_size (ts ! i)) then le_word (bss ! i) else vs ! i)"
  by (simp_all add: slots_of_def)

lemma vals_at_slots:
  "vals_at lo w ts vs bss \<Longrightarrow> list_all2 (\<lambda>(t, v) x. win64_slot (mem w) t v x) (zip ts vs) (slots_of ts vs bss)"
  by (auto simp: list_all2_conv_all_nth vals_at_nth slots_of_def win64_slot_def val_at_def)

lemma grows_map_block:
  assumes g: "grows lo w w'" and s: "lo \<le> unat p" "unat p + length bs \<le> unat (stack_top w)"
  shows "grows lo w (w'\<lparr>mem := map_block p bs (mem w')\<rparr>)"
proof -
  have b: "unat (stack_top w) < 2 ^ 64" by (rule unat_bound)
  have "map_block p bs (mem w') a = mem w' a" if "clear_of lo (unat (stack_top w)) a" for a
    using that s b by (intro map_block_outside) (auto simp: clear_of_def span_interval)
  moreover obtain T k where "w' = w\<lparr>stack_top := T, mem := k\<rparr>" using g unfolding grows_def by blast
  ultimately show ?thesis using g by (simp add: grows_def)
qed

lemma word_at: "i < length us \<Longrightarrow> le_word (take 8 (drop (8 * i) (concat (map (le_bytes 8) us)))) = us ! i"
  using take_drop_concat [of i us "[]"] by simp

text \<open>The words of the block: the slots \<open>take N us\<close>, then the frame.\<close>

lemma call_win64_words:
  assumes us: "length us = N + 5" "4 \<le> N"
  shows "ffi_call_win64 native (concat (map (le_bytes 8) us)) (8 * N) closure w = do {
     ((rax, xmm0), w1) \<leftarrow> native (us ! (N + 2)) \<lparr>ms_gpr = take 4 us, ms_xmm = take 4 us, ms_r10 = closure,
         ms_args = concat (map (le_bytes 8) (take N us))\<rparr> w;
     out \<leftarrow> win64_store (ucast (us ! (N + 3))) rax xmm0;
     m \<leftarrow> store (mem w1) (us ! (N + 4)) out;
     Some (w1\<lparr>mem := m\<rparr>) }"
proof -
  have o: "8 * N + 16 = 8 * (N + 2)" "8 * N + 24 = 8 * (N + 3)" "8 * N + 32 = 8 * (N + 4)" by simp_all
  have f: "map (\<lambda>i. le_word (take 8 (drop (8 * i) (concat (map (le_bytes 8) us))))) [0..<4] = take 4 us"
    using us by (intro nth_equalityI) (simp_all add: word_at)
  show ?thesis
    unfolding ffi_call_win64_def Let_def f o take_words using us by (simp only: word_at)
qed

definition hidden :: "ffi_cif \<Rightarrow> nat" where
  "hidden c = (if cif_flags c = 13 then 1 else 0)"

lemma call_int_efi64_slots:
  assumes c: "unat (cif_bytes c) = 8 * N" "4 \<le> N" "hidden c + length ps \<le> N" "nat (sint (cif_nargs c)) = length ps"
    and ps: "read_ptrs w (cif_arg_types c) (length ps) = Some ps" "list_all2 (\<lambda>p t. types w p = Some t \<and> ft_size t < 2 ^ 31) ps ts"
    and vs: "vals_at lo w ts vs bss" and rv: "rvalue \<noteq> NULL"
    and room: "lo + copy_room ts + 8 * N + 56 \<le> unat (stack_top w)"
  shows "\<exists>ws vs' W. length ws = N \<and> (hidden c = 1 \<longrightarrow> ws ! 0 = rvalue)
     \<and> (\<forall>i < length ps. ws ! (hidden c + i) = slots_of ts vs' bss ! i)
     \<and> grows lo w W \<and> vals_at lo W ts vs' bss \<and> unat (stack_top w) \<le> unat (stack_top W) + copy_room ts + 8 * N + 56
     \<and> ffi_call_int_efi64 native c fn rvalue vs closure w = do {
         ((rax, xmm0), w1) \<leftarrow> native fn \<lparr>ms_gpr = take 4 ws, ms_xmm = take 4 ws, ms_r10 = closure,
             ms_args = concat (map (le_bytes 8) ws)\<rparr> W;
         out \<leftarrow> win64_store (cif_flags c) rax xmm0;
         m \<leftarrow> store (mem w1) rvalue out;
         Some (w1\<lparr>mem := m\<rparr>) }"
proof -
  obtain vs' w1 where cp: "copy_large w ps vs 8 = Some (vs', w1)" "grows lo w w1" "vals_at lo w1 ts vs' bss"
    "unat (stack_top w) \<le> unat (stack_top w1) + copy_room ts"
    using copy_large_values [OF ps(2) refl vs, of 8] room by auto
  obtain stack w2 where al: "alloca (8 * N + 40) w1 = (stack, w2)" by fastforce
  have room1: "lo + (8 * N + 40) + 16 \<le> unat (stack_top w1)" using room cp(4) by simp
  note g = alloca_grows [OF al room1]
  have len: "length ps = length ts" "length vs' = length ts"
    using ps(2) cp(3) by (auto simp: list_all2_lengthD vals_at_nth)
  have "length (fresh_bytes w1 stack (8 * N + 40)) = 8 * (N + 5)" by simp
  then obtain us :: "u64 list" where us: "length us = N + 5" "fresh_bytes w1 stack (8 * N + 40) = concat (map (le_bytes 8) us)"
    using words_of by blast
  define xs where "xs = slots_of ts vs' bss"
  have xs: "length xs = length ps" by (simp add: xs_def slots_of_nth len)
  define us1 where "us1 = us[N + 2 := fn, N + 3 := scast (cif_flags c), N + 4 := rvalue]"
  define us2 where "us2 = (if hidden c = 1 then us1[0 := rvalue] else us1)"
  define us3 where "us3 = take (hidden c) us2 @ xs @ drop (hidden c + length ps) us2"
  define W where "W = w2\<lparr>mem := map_block stack (concat (map (le_bytes 8) us3)) (mem w2)\<rparr>"
  have u12: "length us1 = N + 5" "length us2 = N + 5" by (simp_all add: us1_def us2_def us(1))
  have u3: "length us3 = N + 5" using u12 xs c(3) by (simp add: us3_def)
  have nth: "us3 ! k = us1 ! k" if "N \<le> k" "k < N + 5" for k
  proof -
    have "\<not> k < hidden c" "\<not> k - hidden c < length ps" using that c(3) by simp_all
    then have "us3 ! k = us2 ! k" using that c(3) u12 xs by (simp add: us3_def nth_append)
    then show ?thesis using that c(2) by (simp add: us2_def)
  qed
  have fr: "us3 ! (N + 2) = fn" "us3 ! (N + 3) = scast (cif_flags c)" "us3 ! (N + 4) = rvalue"
    using nth [of "N + 2"] nth [of "N + 3"] nth [of "N + 4"] us(1) by (simp_all add: us1_def)
  have o: "8 * N + 16 = 8 * (N + 2)" "8 * N + 24 = 8 * (N + 3)" "8 * N + 32 = 8 * (N + 4)" by simp_all
  note pw = put_word [where ys = "[]", unfolded append_Nil2]
  define ua where "ua = us[N + 2 := fn]"
  define ub where "ub = ua[N + 3 := scast (cif_flags c)]"
  have puts: "put (concat (map (le_bytes 8) us)) (8 * N + 16) (le_bytes 8 fn) = Some (concat (map (le_bytes 8) ua))"
    "put (concat (map (le_bytes 8) ua)) (8 * N + 24) (le_bytes 8 (scast (cif_flags c))) = Some (concat (map (le_bytes 8) ub))"
    "put (concat (map (le_bytes 8) ub)) (8 * N + 32) (le_bytes 8 rvalue) = Some (concat (map (le_bytes 8) us1))"
    unfolding o ua_def ub_def us1_def by (rule pw, simp add: us(1))+
  have first: "put (concat (map (le_bytes 8) us1)) 0 (le_bytes 8 rvalue) = Some (concat (map (le_bytes 8) (us1[0 := rvalue])))"
    using pw [of 0 us1 rvalue] u12 by simp
  have args: "win64_args w1 ps vs' (hidden c) (concat (map (le_bytes 8) us2)) = Some (concat (map (le_bytes 8) us3))"
    using win64_args_slots [of w1 ps ts vs' xs "hidden c" us2 "[]"] ps(2) grows_frame(1) [OF cp(2)] len
      vals_at_slots [OF cp(3)] u12 c(3) by (simp add: us3_def xs_def list.rel_mono_strong)
  have blk: "ffi_call_int_efi64 native c fn rvalue vs closure w = ffi_call_win64 native (concat (map (le_bytes 8) us3)) (8 * N) closure W"
    using c(1,4) ps(1) cp(1) rv al us(2) puts first args
    by (cases "cif_flags c = 13") (simp_all add: ffi_call_int_efi64_def us2_def hidden_def W_def)
  define ws where "ws = take N us3"
  have gW: "grows lo w W"
    unfolding W_def by (rule grows_map_block [OF grows_trans [OF cp(2) g(1)]]) (use g(2,3) u3 room cp in \<open>simp_all add: grows_def\<close>)
  have gW1: "grows lo w1 W"
    unfolding W_def by (rule grows_map_block [OF g(1)]) (use g(2,3) u3 room1 in simp_all)
  have "ws ! (hidden c + i) = xs ! i" if "i < length ps" for i
    using that c(3) u12 xs by (simp add: ws_def us3_def nth_append)
  moreover have "hidden c = 1 \<longrightarrow> ws ! 0 = rvalue"
    using c(2) u12 by (auto simp: ws_def us3_def us2_def nth_append)
  moreover have "unat (stack_top w) \<le> unat (stack_top W) + copy_room ts + 8 * N + 56"
    using cp(4) g(3,4) by (simp add: W_def)
  moreover have "take 4 us3 = take 4 ws" using c(2) by (simp add: ws_def min_def)
  moreover have "(ucast (scast (cif_flags c) :: 64 word) :: 32 word) = cif_flags c"
    by (rule bit_eqI) (simp add: bit_simps)
  ultimately show ?thesis
    using gW vals_at_grows [OF gW1 cp(3)] u3 call_win64_words [OF u3 c(2), of native closure W] fr
    by (rule_tac exI [of _ ws], rule_tac exI [of _ vs'], rule_tac exI [of _ W]) (simp add: blk xs_def ws_def)
qed

section \<open>The closure\<close>

lemma grows_cif_at: "grows lo w w' \<Longrightarrow> cif_at p w' = cif_at p w"
  unfolding grows_def cif_at_def by (metis ctx_world.select_convs(1) ctx_world.surjective mem_world.update_convs(1,2))

lemma grows_read_ptrs: "grows lo w w' \<Longrightarrow> read_ptrs w' p n = read_ptrs w p n"
  by (simp add: read_ptrs_def grows_frame(2))

lemma grows_lower:
  assumes "grows lo w w'" and "lo \<le> unat s" "unat s \<le> unat (stack_top w')" shows "grows lo w (w'\<lparr>stack_top := s\<rparr>)"
proof -
  obtain T k where "w' = w\<lparr>stack_top := T, mem := k\<rparr>" using assms(1) unfolding grows_def by blast
  with assms show ?thesis by (simp add: grows_def)
qed

definition arg_addr :: "addr \<Rightarrow> u64 list \<Rightarrow> ffi_type \<Rightarrow> nat \<Rightarrow> addr" where
  "arg_addr frame ws t k =
     (if ft_type t = FFI_TYPE_DOUBLE \<or> ft_type t = FFI_TYPE_FLOAT
      then (if k < 4 then frame + 16 + of_nat (8 * k) else frame + 56 + of_nat (8 * k))
      else if by_value_size (ft_size t) then frame + 56 + of_nat (8 * k) else ws ! k)"

lemma win64_avalue_addrs:
  assumes "list_all2 (\<lambda>p t. T p = Some t) ps ts" and "types w = T"
    and "\<forall>k < length ws. load (mem w) (frame + 56 + of_nat (8 * k)) 8 = Some (le_bytes 8 (ws ! k))"
    and "nreg + length ps \<le> length ws"
  shows "win64_avalue w frame ps nreg = Some (map (\<lambda>(t, k). arg_addr frame ws t k) (zip ts [nreg..<nreg + length ps]))"
  using assms
proof (induction ps ts arbitrary: nreg rule: list_all2_induct)
  case (Cons p ps t ts)
  have u: "[nreg..<nreg + length (p # ps)] = nreg # [Suc nreg..<Suc nreg + length ps]"
    using upt_conv_Cons [of nreg "nreg + length (p # ps)"] by (simp del: upt_Suc)
  have ih: "win64_avalue w frame ps (Suc nreg)
      = Some (map (\<lambda>(t, k). arg_addr frame ws t k) (zip ts [Suc nreg..<Suc nreg + length ps]))"
    by (rule Cons.IH) (use Cons.prems in auto)
  have l: "load (mem w) (frame + 56 + of_nat (8 * nreg)) 8 = Some (le_bytes 8 (ws ! nreg))"
    using Cons.prems by simp
  show ?case unfolding u using Cons.hyps(1) Cons.prems(1) l
    by (simp add: ih arg_addr_def del: of_nat_mult)
qed simp

lemma load_low_bytes:
  assumes "load m p 8 = Some (le_bytes 8 (le_word bs))" and "length bs = n" "n \<le> 8"
  shows "load m p n = Some bs"
proof -
  have "load m p n = Some (take n (le_bytes 8 (le_word bs)))" using assms(1,3) by (rule load_prefix)
  also have "take n (le_bytes 8 (le_word bs)) = bs"
  proof -
    have "bs @ replicate (8 - n) 0 = le_bytes 8 (le_word bs)"
      using le_bytes_zeros [of n "le_word bs"] le_bytes_le_word [of bs] le_word_le_bytes [of n "le_word bs"] assms(2,3) by simp
    from this [symmetric] show ?thesis using assms(2) by simp
  qed
  finally show ?thesis .
qed

text \<open>Addresses inside a block that does not wrap around.\<close>

lemma frame_span:
  assumes "x \<in> span (frame + of_nat k) n" and "k + n \<le> L" and "unat frame + L \<le> 2 ^ 64"
  shows "unat frame + k \<le> unat x \<and> unat x < unat frame + k + n"
proof -
  from assms(1) obtain i where i: "i < n" "x = frame + of_nat k + of_nat i" unfolding span_iff by blast
  then have x: "x = frame + of_nat (k + i)" by (simp add: add.assoc)
  have "unat frame + (k + i) < 2 ^ 64" using assms(2,3) i(1) by simp
  moreover from this have "unat (of_nat (k + i) :: addr) = k + i" by (intro unat_of_nat64) simp
  ultimately have "unat x = unat frame + (k + i)" unfolding x by (simp add: unat_plus_if')
  with i(1) show ?thesis by simp
qed

text \<open>What the entry leaves in memory: the slots at \<open>args\<close>, the first four again in the frame.\<close>

lemma entry_memory:
  fixes args closure :: addr and m0 :: memory
  assumes ws: "4 \<le> length ws" and junk: "length junk = 56" and low: "56 \<le> unat args" "unat args + 8 * length ws \<le> 2 ^ 64"
  defines "frame \<equiv> args - 56"
    and "regs \<equiv> \<lparr>ms_gpr = take 4 ws, ms_xmm = take 4 ws, ms_r10 = closure, ms_args = concat (map (le_bytes 8) ws)\<rparr>"
  defines "m2 \<equiv> map_block frame (win64_closure_frame regs junk)
       (map_block args (concat (map (le_bytes 8) (ms_gpr regs)) @ drop 32 (ms_args regs)) m0)"
  shows "load m2 args (8 * length ws) = Some (concat (map (le_bytes 8) ws))"
    and "load m2 (frame + 16) 32 = Some (concat (map (le_bytes 8) (take 4 ws)))"
    and "span frame 56 \<subseteq> dom m2"
proof -
  have home: "concat (map (le_bytes 8) (ms_gpr regs)) @ drop 32 (ms_args regs) = concat (map (le_bytes 8) ws)"
    using take_words [of 4 ws] by (simp add: regs_def) (metis append_take_drop_id)
  have fl: "length (win64_closure_frame regs junk) = 56"
    using ws junk by (simp add: win64_closure_frame_def regs_def)
  have uf: "unat frame + 56 = unat args" using low(1) by (simp add: frame_def unat_sub word_le_nat_alt)
  have "span frame 56 \<inter> span args (8 * length ws) = {}" using uf low(2) by (intro spans_apart) simp_all
  then have "load m2 args (8 * length ws) = load (map_block args (concat (map (le_bytes 8) ws)) m0) args (8 * length ws)"
    unfolding m2_def home using fl by (intro load_map_block_disjoint) simp
  also have "\<dots> = Some (concat (map (le_bytes 8) ws))"
    using load_map_block [of "concat (map (le_bytes 8) ws)" args m0] low(2) by simp
  finally show "load m2 args (8 * length ws) = Some (concat (map (le_bytes 8) ws))" .
  have lf: "load m2 frame 56 = Some (win64_closure_frame regs junk)"
    using load_map_block [of "win64_closure_frame regs junk" frame] fl by (simp add: m2_def)
  have "take 32 (drop 16 (win64_closure_frame regs junk)) = concat (map (le_bytes 8) (take 4 ws))"
    using ws junk by (simp add: win64_closure_frame_def regs_def)
  with load_slice [OF lf, of 16 32] show "load m2 (frame + 16) 32 = Some (concat (map (le_bytes 8) (take 4 ws)))" by simp
  show "span frame 56 \<subseteq> dom m2" using load_defined [of m2 frame 56] lf by simp
qed

text \<open>The first word of the frame, where the entry reads the value returned, is the only part of it the inner
  function writes; the argument pointers lie below.\<close>

lemma closure_win64_args:
  assumes ws: "length ws = N" "hidden c + length ps \<le> N"
    and ts: "length ts = length ps" "\<forall>t \<in> set ts. ft_type t = FFI_TYPE_DOUBLE \<or> ft_type t = FFI_TYPE_FLOAT \<longrightarrow> by_value_size (ft_size t)"
    and vals: "\<forall>i < length ps. load m (vs ! i) (unat (ft_size (ts ! i))) = Some (bss ! i)"
    and slots: "\<forall>i < length ps. ws ! (hidden c + i) = slots_of ts vs bss ! i"
    and mem: "\<forall>k < N. load m (frame + 56 + of_nat (8 * k)) 8 = Some (le_bytes 8 (ws ! k))"
      "\<forall>k < 4. load m (frame + 16 + of_nat (8 * k)) 8 = Some (le_bytes 8 (ws ! k))"
    and i: "i < length ps"
  shows "load m (arg_addr frame ws (ts ! i) (hidden c + i)) (unat (ft_size (ts ! i))) = Some (bss ! i)"
proof (cases "by_value_size (ft_size (ts ! i))")
  case True
  have n: "unat (ft_size (ts ! i)) \<le> 8" using True by (auto simp: by_value_size_def)
  have l: "length (bss ! i) = unat (ft_size (ts ! i))" using vals i load_length by blast
  define k where "k = hidden c + i"
  have k: "k < N" using ws(2) i by (simp add: k_def)
  have w: "ws ! k = le_word (bss ! i)" using slots i True ts(1) by (simp add: slots_of_nth k_def)
  have "load m (frame + 56 + of_nat (8 * k)) (unat (ft_size (ts ! i))) = Some (bss ! i)"
    by (rule load_low_bytes [OF _ l n]) (use mem(1) w k in \<open>simp del: of_nat_mult\<close>)
  moreover have "load m (frame + 16 + of_nat (8 * k)) (unat (ft_size (ts ! i))) = Some (bss ! i)" if "k < 4"
    by (rule load_low_bytes [OF _ l n]) (use mem(2) w that in \<open>simp del: of_nat_mult\<close>)
  ultimately show ?thesis using True by (simp add: arg_addr_def k_def [symmetric] del: of_nat_mult)
next
  case False
  then have "ws ! (hidden c + i) = vs ! i" using slots i ts(1) by (simp add: slots_of_nth)
  moreover have "\<not> (ft_type (ts ! i) = FFI_TYPE_DOUBLE \<or> ft_type (ts ! i) = FFI_TYPE_FLOAT)"
    using False ts i by (metis nth_mem)
  ultimately show ?thesis using False vals i by (simp add: arg_addr_def)
qed

text \<open>From the entry to the call of the closure's function.\<close>

lemma inner_win64_call:
  fixes w2 :: "'a ctx_world_scheme"
  assumes cif: "cif_at cif w2 = Some c" "nat (sint (cif_nargs c)) = length ps" "read_ptrs w2 (cif_arg_types c) (length ps) = Some ps"
    and ts: "list_all2 (\<lambda>p t. types w2 p = Some t) ps ts"
    and ws: "length ws = N" "4 \<le> N" "hidden c + length ps \<le> N"
    and m2: "load (mem w2) (frame + 56) (8 * N) = Some (concat (map (le_bytes 8) ws))"
      "load (mem w2) (frame + 16) 32 = Some (concat (map (le_bytes 8) (take 4 ws)))" "span frame 56 \<subseteq> dom (mem w2)"
    and pos: "unat (stack_top w2) + 48 = unat frame" "unat frame + 56 + 8 * N \<le> 2 ^ 64"
    and room: "lo + 8 * length ps + 16 \<le> unat (stack_top w2)"
  defines "as \<equiv> map (\<lambda>(t, k). arg_addr frame ws t k) (zip ts [hidden c..<hidden c + length ps])"
  shows "\<exists>avp m. (\<forall>a. clear_of lo (unat (stack_top w2)) a \<and> a \<notin> span frame 8 \<longrightarrow> m a = mem w2 a)
     \<and> lo \<le> unat avp \<and> unat avp + 8 * length ps \<le> unat (stack_top w2)
     \<and> (hidden c = 1 \<longrightarrow> load m frame 8 = Some (le_bytes 8 (ws ! 0)))
     \<and> load m avp (8 * length ps) = Some (concat (map (le_bytes 8) as)) \<and> dom (mem w2) \<subseteq> dom m
     \<and> ffi_closure_win64_inner call cif fn ud frame w2
        = call fn cif (if hidden c = 1 then ws ! 0 else frame) avp ud (w2\<lparr>stack_top := avp, mem := m\<rparr>)"
proof -
  obtain avp u where a: "alloca (8 * length ps) w2 = (avp, u)" by fastforce
  note g = alloca_grows [OF a room]
  have u: "u = w2\<lparr>stack_top := avp, mem := mem u\<rparr>" using g(1,4) unfolding grows_def by simp
  have top: "unat (stack_top w2) < 2 ^ 64" "unat frame < 2 ^ 64" by (rule unat_bound)+
  have above: "mem u a = mem w2 a" if "unat (stack_top w2) \<le> unat a" for a
    using g(1) that by (simp add: grows_def clear_of_def)
  have sp: "unat (stack_top w2) \<le> unat x" if "x \<in> span (frame + of_nat k) n" "k + n \<le> 56 + 8 * N" for x k n
    using frame_span [OF that] pos by simp
  have lu: "load (mem u) (frame + of_nat k) n = load (mem w2) (frame + of_nat k) n" if "k + n \<le> 56 + 8 * N" for k n
    by (rule load_cong) (use above sp that in blast)
  have "load (mem u) (frame + 56) (8 * N) = Some (concat (map (le_bytes 8) ws) @ [])"
    using lu [of 56 "8 * N"] m2(1) by simp
  from load_words [OF this, of 0] have w0: "load (mem u) (frame + 56) 8 = Some (le_bytes 8 (ws ! 0))"
    using ws(1,2) by simp
  have "span frame (length (le_bytes 8 (ws ! 0))) \<subseteq> dom (mem u)"
    using load_defined [of "mem u" frame 56] lu [of 0 56] load_defined [of "mem w2" frame 56] m2(3) span_append [of frame 8 48] by auto
  then obtain m1 where m1: "store (mem u) frame (le_bytes 8 (ws ! 0)) = Some m1" using store_defined by blast
  define u1 where "u1 = (if hidden c = 1 then u\<lparr>mem := m1\<rparr> else u)"
  have mu1: "mem u1 = (if hidden c = 1 then m1 else mem u)" by (simp add: u1_def)
  have o1: "mem u1 a = mem w2 a" if "unat (stack_top w2) \<le> unat a" "a \<notin> span frame 8" for a
    using above [OF that(1)] store_outside [OF m1, of a] that(2) by (simp add: u1_def)
  have l1: "load (mem u1) (frame + of_nat k) n = load (mem w2) (frame + of_nat k) n" if k: "8 \<le> k" "k + n \<le> 56 + 8 * N" for k n
  proof (rule load_cong)
    fix a assume a: "a \<in> span (frame + of_nat k) n"
    have "span frame 8 \<inter> span (frame + of_nat k) n = {}" using k pos(2) by (intro span_apart) simp_all
    with a have "a \<notin> span frame 8" by blast
    with o1 sp [OF a k(2)] show "mem u1 a = mem w2 a" by blast
  qed
  have "load (mem u1) (frame + 56) (8 * N) = Some (concat (map (le_bytes 8) ws) @ [])"
    using l1 [of 56 "8 * N"] m2(1) by simp
  note slots = load_words [OF this]
  have avs: "win64_avalue u1 frame ps (hidden c) = Some as"
    unfolding as_def
  proof (rule win64_avalue_addrs [OF ts])
    show "types u1 = types w2" using grows_frame(1) [OF g(1)] by (simp add: u1_def)
    show "\<forall>k < length ws. load (mem u1) (frame + 56 + of_nat (8 * k)) 8 = Some (le_bytes 8 (ws ! k))" using slots by blast
    show "hidden c + length ps \<le> length ws" using ws by simp
  qed
  have la: "length as = length ps" using ts by (simp add: as_def list_all2_lengthD)
  have "span avp (length (concat (map (le_bytes 8) as))) \<subseteq> dom (mem u)"
    unfolding g(5) by (simp add: la map_block_dom)
  moreover have "dom (mem u1) = dom (mem u)"
    by (cases "hidden c = 1") (simp_all only: mu1 if_True if_False simp_thms store_dom [OF m1])
  ultimately have "store (mem u1) avp (concat (map (le_bytes 8) as)) \<noteq> None" unfolding store_defined by (simp only:)
  then obtain m where m: "store (mem u1) avp (concat (map (le_bytes 8) as)) = Some m" by blast
  have lb: "length (concat (map (le_bytes 8) as)) = 8 * length ps" by (simp add: la)
  have outm: "m a = mem u1 a" if "a \<notin> span avp (8 * length ps)" for a
    using store_outside [OF m, unfolded lb] that by blast
  have avp: "lo \<le> unat avp" "unat avp + 8 * length ps \<le> unat (stack_top w2)" using g(2,3) room by simp_all
  have o2: "m a = mem w2 a" if a: "clear_of lo (unat (stack_top w2)) a" "a \<notin> span frame 8" for a
  proof -
    have "a \<notin> span avp (8 * length ps)" using a(1) avp top by (auto simp: clear_of_def span_interval)
    moreover have "mem u a = mem w2 a" using g(1) a(1) by (simp add: grows_def)
    ultimately show ?thesis using outm store_outside [OF m1, of a] a(2) by (simp add: mu1)
  qed
  have la2: "load m avp (8 * length ps) = Some (concat (map (le_bytes 8) as))"
    using load_store_same [OF m, unfolded lb] avp top by simp
  have "load m frame 8 = load (mem u1) frame 8"
    by (rule load_cong) (use outm avp top pos in \<open>auto simp: span_interval\<close>)
  moreover have "load m1 frame 8 = Some (le_bytes 8 (ws ! 0))" using load_store_same [OF m1] by simp
  ultimately have lf: "hidden c = 1 \<longrightarrow> load m frame 8 = Some (le_bytes 8 (ws ! 0))" by (simp add: mu1)
  have "dom (mem w2) \<subseteq> dom (mem u)" by (simp add: g(5) map_block_dom)
  then have dom: "dom (mem w2) \<subseteq> dom m" using store_dom [OF m] \<open>dom (mem u1) = dom (mem u)\<close> by simp
  have fin: "u1\<lparr>mem := m\<rparr> = w2\<lparr>stack_top := avp, mem := m\<rparr>" by (subst u1_def, subst u, subst (2) u) simp
  have rp: "read_ptrs u1 (cif_arg_types c) (length ps) = Some ps"
    using cif(3) grows_frame(2) [OF g(1)] by (cases "ps = []") (simp_all add: u1_def read_ptrs_def)
  have st: "(if cif_flags c = 13
        then do { r \<leftarrow> load (mem u) (frame + 56) 8; m \<leftarrow> store (mem u) frame r; Some (le_word r, 1, u\<lparr>mem := m\<rparr>) }
        else Some (frame, 0, u)) = Some (if hidden c = 1 then ws ! 0 else frame, hidden c, u1)"
    by (simp add: w0 m1 u1_def hidden_def)
  have eq: "ffi_closure_win64_inner call cif fn ud frame w2
        = call fn cif (if hidden c = 1 then ws ! 0 else frame) avp ud (w2\<lparr>stack_top := avp, mem := m\<rparr>)"
    unfolding ffi_closure_win64_inner_def fin [symmetric]
    by (simp only: cif Option.bind_lunit a prod.case st rp avs m)
  show ?thesis
    by (intro exI [of _ avp] exI [of _ m] conjI allI impI) (use o2 avp la2 lf dom eq in blast)+
qed

text \<open>A value in the homes and the frame, seen by the closure's function.\<close>

definition finds :: "memory \<Rightarrow> addr \<Rightarrow> ffi_type list \<Rightarrow> byte list list \<Rightarrow> bool" where
  "finds m avp ts bss \<longleftrightarrow>
     (\<forall>i < length ts. \<exists>a. load m (avp + of_nat (8 * i)) 8 = Some (le_bytes 8 a) \<and> load m a (unat (ft_size (ts ! i))) = Some (bss ! i))"

lemma finds_args:
  assumes ws: "length ws = N" "4 \<le> N" "hidden c + length ps \<le> N" "\<forall>i < length ps. ws ! (hidden c + i) = slots_of ts vs bss ! i"
    and ts: "length ts = length ps" "\<forall>t \<in> set ts. ft_type t = FFI_TYPE_DOUBLE \<or> ft_type t = FFI_TYPE_FLOAT \<longrightarrow> by_value_size (ft_size t)"
    and vals: "\<forall>i < length ps. load m (vs ! i) (unat (ft_size (ts ! i))) = Some (bss ! i)"
    and mem: "load m (frame + 56) (8 * N) = Some (concat (map (le_bytes 8) ws))"
      "load m (frame + 16) 32 = Some (concat (map (le_bytes 8) (take 4 ws)))"
    and as: "as = map (\<lambda>(t, k). arg_addr frame ws t k) (zip ts [hidden c..<hidden c + length ps])"
      "load m avp (8 * length ps) = Some (concat (map (le_bytes 8) as))"
  shows "finds m avp ts bss"
  unfolding finds_def
proof (intro allI impI)
  fix i assume i: "i < length ts"
  have la: "length as = length ps" by (simp add: as(1) ts(1))
  note words = load_words [where ys = "[]", unfolded append_Nil2]
  have "load m (avp + of_nat (8 * i)) 8 = Some (le_bytes 8 (as ! i))" using words [OF as(2), of i] i la ts(1) by simp
  moreover have "as ! i = arg_addr frame ws (ts ! i) (hidden c + i)" using i ts(1) by (simp add: as(1))
  moreover have "load m (arg_addr frame ws (ts ! i) (hidden c + i)) (unat (ft_size (ts ! i))) = Some (bss ! i)"
  proof (rule closure_win64_args [OF ws(1,3) ts vals ws(4)])
    show "\<forall>k < N. load m (frame + 56 + of_nat (8 * k)) 8 = Some (le_bytes 8 (ws ! k))" using words [OF mem(1)] ws(1) by blast
    show "\<forall>k < 4. load m (frame + 16 + of_nat (8 * k)) 8 = Some (le_bytes 8 (ws ! k))" using words [OF mem(2)] ws(1,2) by simp
    show "i < length ps" using i ts(1) by simp
  qed
  ultimately show "\<exists>a. load m (avp + of_nat (8 * i)) 8 = Some (le_bytes 8 a) \<and> load m a (unat (ft_size (ts ! i))) = Some (bss ! i)"
    by auto
qed

lemma mem_top_swap: "w\<lparr>mem := m, stack_top := s\<rparr> = (w :: 'a mem_world_scheme)\<lparr>stack_top := s, mem := m\<rparr>"
  by (rule mem_world.equality) simp_all

lemma entry_grows:
  assumes al: "alloca n W = (args, u)" and room: "lo + n + 160 \<le> unat (stack_top W)"
    and f: "length f = 56" and b: "length b = n"
  defines "w2 \<equiv> u\<lparr>stack_top := args - 104, mem := map_block (args - 56) f (map_block args b (mem u))\<rparr>"
  shows "grows lo W w2" and "unat (args - 104) + 104 = unat args" "unat (args - 56) + 56 = unat args"
    "unat args + n \<le> unat (stack_top W)" "unat (stack_top W) < unat args + n + 16"
proof -
  have room1: "lo + n + 16 \<le> unat (stack_top W)" using room by simp
  note g = alloca_grows [OF al room1]
  show a: "unat (args - 104) + 104 = unat args" "unat (args - 56) + 56 = unat args"
    "unat args + n \<le> unat (stack_top W)" "unat (stack_top W) < unat args + n + 16"
    using g(2,3) room by (simp_all add: unat_sub word_le_nat_alt)
  let ?v = "u\<lparr>mem := map_block args b (mem u)\<rparr>"
  have "grows lo W ?v" by (rule grows_map_block [OF g(1)]) (use a b room in simp_all)
  then have "grows lo W (?v\<lparr>mem := map_block (args - 56) f (mem ?v)\<rparr>)"
    by (rule grows_map_block) (use a f room in simp_all)
  then have "grows lo W (?v\<lparr>mem := map_block (args - 56) f (mem ?v), stack_top := args - 104\<rparr>)"
    by (rule grows_lower) (use a room g(4) in simp_all)
  then show "grows lo W w2" by (simp add: w2_def mem_top_swap)
qed

text \<open>The entry, for any closure whose three pointers lie outside the unused stack.\<close>

lemma do_closure_win64_call:
  fixes W :: "'a ctx_world_scheme" and call :: "'a ctx_world_scheme closure_fun"
  assumes loads: "\<forall>m. (\<forall>a. clear_of lo (unat (stack_top W)) a \<longrightarrow> m a = mem W a) \<longrightarrow> loads m = Some (cif, fn, ud)"
    and cif: "cif_at cif W = Some c" "nat (sint (cif_nargs c)) = length ps" "read_ptrs W (cif_arg_types c) (length ps) = Some ps"
    and ts: "list_all2 (\<lambda>p t. types W p = Some t) ps ts"
      "\<forall>t \<in> set ts. ft_type t = FFI_TYPE_DOUBLE \<or> ft_type t = FFI_TYPE_FLOAT \<longrightarrow> by_value_size (ft_size t)"
    and ws: "length ws = N" "4 \<le> N" "hidden c + length ps \<le> N" "\<forall>i < length ps. ws ! (hidden c + i) = slots_of ts vs bss ! i"
    and vals: "vals_at lo W ts vs bss" and room: "lo + 8 * N + 8 * length ps + 160 \<le> unat (stack_top W)"
  shows "\<exists>frame avp m. finds m avp ts bss
     \<and> (\<forall>a. clear_of lo (unat (stack_top W)) a \<longrightarrow> m a = mem W a)
     \<and> lo \<le> unat avp \<and> unat avp + 8 * length ps \<le> unat frame \<and> unat frame + 56 \<le> unat (stack_top W) \<and> span frame 8 \<subseteq> dom m
     \<and> (hidden c = 1 \<longrightarrow> load m frame 8 = Some (le_bytes 8 (ws ! 0)))
     \<and> do_closure_win64 call loads \<lparr>ms_gpr = take 4 ws, ms_xmm = take 4 ws, ms_r10 = closure,
             ms_args = concat (map (le_bytes 8) ws)\<rparr> W
        = do { w3 \<leftarrow> call fn cif (if hidden c = 1 then ws ! 0 else frame) avp ud (W\<lparr>stack_top := avp, mem := m\<rparr>);
               r \<leftarrow> load (mem w3) frame 8;
               Some ((le_word r, le_word r), w3\<lparr>stack_top := stack_top W\<rparr>) }"
proof -
  let ?regs = "\<lparr>ms_gpr = take 4 ws, ms_xmm = take 4 ws, ms_r10 = closure, ms_args = concat (map (le_bytes 8) ws)\<rparr>"
  obtain args u where al: "alloca (8 * N) W = (args, u)" by fastforce
  define frame where "frame = args - 56"
  define f where "f = win64_closure_frame ?regs (fresh_bytes u frame 56)"
  define b where "b = concat (map (le_bytes 8) (ms_gpr ?regs)) @ drop 32 (ms_args ?regs)"
  define w2 where "w2 = u\<lparr>stack_top := args - 104, mem := map_block frame f (map_block args b (mem u))\<rparr>"
  have len: "length f = 56" "length b = 8 * N"
    using ws(1,2) by (simp_all add: f_def b_def win64_closure_frame_def)
  have room1: "lo + 8 * N + 160 \<le> unat (stack_top W)" using room by simp
  note G = entry_grows [OF al room1 len, folded frame_def, folded w2_def]
  have top: "unat (stack_top W) < 2 ^ 64" by (rule unat_bound)
  have ab: "56 \<le> unat args" "unat args + 8 * length ws \<le> 2 ^ 64" using G(2,4) top ws(1) by simp_all
  note E = entry_memory [where ws = ws and args = args and junk = "fresh_bytes u frame 56" and closure = closure and ?m0.0 = "mem u",
      OF _ _ ab, folded frame_def, folded f_def, folded b_def]
  have m2: "mem w2 = map_block frame f (map_block args b (mem u))" "stack_top w2 = args - 104" by (simp_all add: w2_def)
  have fa: "frame + 56 = args" by (simp add: frame_def)
  have M: "load (mem w2) (frame + 56) (8 * N) = Some (concat (map (le_bytes 8) ws))"
    "load (mem w2) (frame + 16) 32 = Some (concat (map (le_bytes 8) (take 4 ws)))" "span frame 56 \<subseteq> dom (mem w2)"
    unfolding m2(1) fa using E ws(1,2) by simp_all
  define as where "as = map (\<lambda>(t, k). arg_addr frame ws t k) (zip ts [hidden c..<hidden c + length ps])"
  have pos: "unat (stack_top w2) + 48 = unat frame" "unat frame + 56 + 8 * N \<le> 2 ^ 64" using G(2,3,4) top m2(2) by simp_all
  have room2: "lo + 8 * length ps + 16 \<le> unat (stack_top w2)" using G(2,5) room m2(2) by simp
  have cif2: "cif_at cif w2 = Some c" "read_ptrs w2 (cif_arg_types c) (length ps) = Some ps" "list_all2 (\<lambda>p t. types w2 p = Some t) ps ts"
    using cif(1,3) ts(1) grows_cif_at [OF G(1)] grows_read_ptrs [OF G(1)] grows_frame(1) [OF G(1)] by simp_all
  obtain avp m where I: "\<forall>a. clear_of lo (unat (stack_top w2)) a \<and> a \<notin> span frame 8 \<longrightarrow> m a = mem w2 a"
      "lo \<le> unat avp" "unat avp + 8 * length ps \<le> unat (stack_top w2)"
      "hidden c = 1 \<longrightarrow> load m frame 8 = Some (le_bytes 8 (ws ! 0))"
      "load m avp (8 * length ps) = Some (concat (map (le_bytes 8) as))" "dom (mem w2) \<subseteq> dom m"
      "ffi_closure_win64_inner call cif fn ud frame w2
        = call fn cif (if hidden c = 1 then ws ! 0 else frame) avp ud (w2\<lparr>stack_top := avp, mem := m\<rparr>)"
    using inner_win64_call [OF cif2(1) cif(2) cif2(2,3) ws(1-3) M pos room2, of call fn ud, folded as_def] by blast
  have fr: "span frame 8 \<subseteq> dom m" using subset_trans [OF M(3) I(6)] span_append [of frame 8 48] by simp
  have same: "m a = mem W a" if a: "clear_of lo (unat (stack_top W)) a" for a
  proof -
    have "a \<notin> span frame 8" using a pos G(3,4) top room2 by (auto simp: clear_of_def span_interval)
    moreover have "clear_of lo (unat (stack_top w2)) a" using clear_of_mono [OF a] G(1) by (simp add: grows_def)
    ultimately show ?thesis using I(1) G(1) a by (simp add: grows_def)
  qed
  have sp: "load m (frame + of_nat k) n = load (mem w2) (frame + of_nat k) n" if k: "8 \<le> k" "k + n \<le> 56 + 8 * N" for k n
  proof (rule load_cong)
    fix x assume "x \<in> span (frame + of_nat k) n"
    from frame_span [OF this k(2) pos(2) [unfolded add.assoc]] have "unat frame + k \<le> unat x" by simp
    then have "clear_of lo (unat (stack_top w2)) x" "x \<notin> span frame 8"
      using k(1) pos by (simp_all add: clear_of_def span_interval)
    then show "m x = mem w2 x" using I(1) by blast
  qed
  have lts: "length ts = length ps" using ts(1) by (simp add: list_all2_lengthD)
  have "finds m avp ts bss"
  proof (rule finds_args [OF ws lts ts(2) _ _ _ as_def I(5)])
    show "load m (frame + 56) (8 * N) = Some (concat (map (le_bytes 8) ws))" using sp [of 56 "8 * N"] M(1) by simp
    show "load m (frame + 16) 32 = Some (concat (map (le_bytes 8) (take 4 ws)))" using sp [of 16 32] M(2) by simp
    have "load m (vs ! i) (unat (ft_size (ts ! i))) = load (mem W) (vs ! i) (unat (ft_size (ts ! i)))" if "i < length ps" for i
      by (rule load_cong) (use vals lts same that in \<open>auto simp: vals_at_nth val_at_def\<close>)
    then show "\<forall>i < length ps. load m (vs ! i) (unat (ft_size (ts ! i))) = Some (bss ! i)"
      using vals lts by (simp add: vals_at_nth val_at_def)
  qed
  moreover have ld: "loads (mem w2) = Some (cif, fn, ud)" using loads G(1) unfolding grows_def by blast
  have fin: "w2\<lparr>stack_top := avp, mem := m\<rparr> = W\<lparr>stack_top := avp, mem := m\<rparr>"
  proof -
    obtain T k where "w2 = W\<lparr>stack_top := T, mem := k\<rparr>" using G(1) unfolding grows_def by blast
    then show ?thesis by (simp add: mem_top_swap)
  qed
  have "do_closure_win64 call loads ?regs W
        = do { w3 \<leftarrow> call fn cif (if hidden c = 1 then ws ! 0 else frame) avp ud (W\<lparr>stack_top := avp, mem := m\<rparr>);
               r \<leftarrow> load (mem w3) frame 8;
               Some ((le_word r, le_word r), w3\<lparr>stack_top := stack_top W\<rparr>) }"
  proof -
    have n: "length (ms_args ?regs) = 8 * N" using ws(1) by simp
    have w2: "u\<lparr>stack_top := args - 104, mem := map_block frame (win64_closure_frame ?regs (fresh_bytes u frame 56))
        (map_block args (concat (map (le_bytes 8) (ms_gpr ?regs)) @ drop 32 (ms_args ?regs)) (mem u))\<rparr> = w2"
      by (simp only: w2_def f_def b_def)
    show ?thesis unfolding do_closure_win64_def
      by (simp only: Option.bind_lunit prod.case n al frame_def [symmetric] w2 ld I(7) fin)
  qed
  ultimately show ?thesis
    by (intro exI [of _ frame] exI [of _ avp] exI [of _ m]) (use same I(2-4) fr pos G(2-4) in simp)
qed

text \<open>A closure that \<open>ffi_prep_closure_loc\<close> prepared, called at its address.\<close>

lemma win64_native_entry:
  assumes "closure_ready (mem W) pc (at_closure_win64 lk) cif fn ud" and "\<forall>a \<in> span pc sizeof_ffi_closure. clear_of lo (unat (stack_top W)) a"
  shows "win64_native lk call pc regs W = do_closure_win64 call (closure_loads pc) regs W"
    and "\<forall>m. (\<forall>a. clear_of lo (unat (stack_top W)) a \<longrightarrow> m a = mem W a) \<longrightarrow> closure_loads pc m = Some (cif, fn, ud)"
proof -
  show "win64_native lk call pc regs W = do_closure_win64 call (closure_loads pc) regs W"
    by (simp add: win64_native_def closure_ready_fields(1) [OF assms(1)])
  show "\<forall>m. (\<forall>a. clear_of lo (unat (stack_top W)) a \<longrightarrow> m a = mem W a) \<longrightarrow> closure_loads pc m = Some (cif, fn, ud)"
  proof (intro allI impI)
    fix m assume m: "\<forall>a. clear_of lo (unat (stack_top W)) a \<longrightarrow> m a = mem W a"
    have "closure_ready m pc = closure_ready (mem W) pc" by (rule closure_ready_cong) (use assms(2) m in blast)
    then have "closure_ready m pc (at_closure_win64 lk) cif fn ud" using assms(1) by simp
    from closure_ready_fields(2-4) [OF this] show "closure_loads pc m = Some (cif, fn, ud)" by (simp add: closure_loads_def)
  qed
qed

section \<open>Properties\<close>

lemma efi64_bytes:
  assumes prep: "ffi_prep_cif_machdep_efi64 c0 w = Some (FFI_OK, c)" and n: "cif_nargs c0 = of_nat n" "n < 2 ^ 20"
  shows "\<exists>N. unat (cif_bytes c) = 8 * N \<and> 4 \<le> N \<and> N \<le> n + 5 \<and> hidden c + n \<le> N"
    and "nat (sint (cif_nargs c)) = n" and "cif_abi c = FFI_WIN64 \<or> cif_abi c = FFI_GNUW64"
    and "cif_arg_types c = cif_arg_types c0"
proof -
  have abi: "cif_abi c0 = FFI_WIN64 \<or> cif_abi c0 = FFI_GNUW64"
    by (rule ccontr) (use prep in \<open>simp add: ffi_prep_cif_machdep_efi64_def\<close>)
  then have na: "(cif_abi c0 \<noteq> FFI_WIN64 \<and> cif_abi c0 \<noteq> FFI_GNUW64) = False" by auto
  then obtain rtype where "types w (cif_rtype c0) = Some rtype"
    using prep by (cases "types w (cif_rtype c0)") (auto simp: ffi_prep_cif_machdep_efi64_def)
  with prep have "\<exists>flags :: u16. c0\<lparr>cif_flags := ucast flags, cif_bytes :=
      (if sint (cif_nargs c0 + (if flags = FFI_TYPE_STRUCT then 1 else 0)) < 4 then 4
       else cif_nargs c0 + (if flags = FFI_TYPE_STRUCT then 1 else 0)) * 8\<rparr> = c"
    unfolding ffi_prep_cif_machdep_efi64_def by (simp only: na Option.bind_lunit simp_thms if_False option.inject prod.inject) blast
  then obtain flags :: u16 where c: "c = c0\<lparr>cif_flags := ucast flags, cif_bytes :=
      (if sint (cif_nargs c0 + (if flags = FFI_TYPE_STRUCT then 1 else 0)) < 4 then 4
       else cif_nargs c0 + (if flags = FFI_TYPE_STRUCT then 1 else 0)) * 8\<rparr>" by blast
  show "cif_abi c = FFI_WIN64 \<or> cif_abi c = FFI_GNUW64" "cif_arg_types c = cif_arg_types c0" using abi by (simp_all add: c)
  show "nat (sint (cif_nargs c)) = n" using n sint_of_nat32 [of n] by (simp add: c)
  define h where "h = (if flags = FFI_TYPE_STRUCT then 1 else 0 :: nat)"
  have "unat flags < 2 ^ 16" using unsigned_less [of flags] by simp
  then have fl: "(ucast flags :: u32) = 13 \<longleftrightarrow> flags = FFI_TYPE_STRUCT"
    by (simp add: word_unat_eq_iff unsigned_ucast_eq take_bit_nat_eq_self)
  have h: "hidden c = h" by (simp add: hidden_def h_def c fl)
  have k: "cif_nargs c0 + (if flags = FFI_TYPE_STRUCT then 1 else 0) = of_nat (n + h)" by (simp add: n(1) h_def)
  have b: "n + h < 2 ^ 31" "h \<le> 1" using n(2) by (simp_all add: h_def)
  have "unat (cif_bytes c) = 8 * (if n + h < 4 then 4 else n + h)"
  proof (cases "n + h < 4")
    case True
    then show ?thesis using sint_of_nat32 [OF b(1)] unfolding c k by (simp add: Let_def)
  next
    case False
    have "cif_bytes c = of_nat (8 * (n + h))" using False sint_of_nat32 [OF b(1)] unfolding c k by (simp add: Let_def)
    moreover have "unat (of_nat (8 * (n + h)) :: u32) = 8 * (n + h)"
      using n(2) b(2) by (intro unat_of_nat32) simp
    ultimately show ?thesis using False by simp
  qed
  then show "\<exists>N. unat (cif_bytes c) = 8 * N \<and> 4 \<le> N \<and> N \<le> n + 5 \<and> hidden c + n \<le> N"
    using b(2) h by (intro exI [of _ "if n + h < 4 then 4 else n + h"]) auto
qed

text \<open>From \<open>ffi_call_int\<close> to the closure's function and back, for any target that is a closure entry.\<close>

lemma call_int_efi64_closure:
  fixes u :: "'a ctx_world_scheme" and call :: "'a ctx_world_scheme closure_fun"
  assumes prep: "ffi_prep_cif_machdep_efi64 c0 w0 = Some (FFI_OK, c)"
    and args: "cif_nargs c0 = of_nat (length ps)" "length ps < 2 ^ 20" "read_ptrs u (cif_arg_types c) (length ps) = Some ps"
    and ts: "list_all2 (\<lambda>p t. types u p = Some t \<and> ft_size t < 2 ^ 31) ps ts"
      "\<forall>t \<in> set ts. ft_type t = FFI_TYPE_DOUBLE \<or> ft_type t = FFI_TYPE_FLOAT \<longrightarrow> by_value_size (ft_size t)"
    and vals: "vals_at lo u ts vs bss" and cif: "cif_at cif u = Some c"
    and loads: "\<forall>m. (\<forall>a. clear_of lo (unat (stack_top u)) a \<longrightarrow> m a = mem u a) \<longrightarrow> loads m = Some (cif, fn, ud)"
    and native: "\<forall>regs W. grows lo u W \<and> ms_r10 regs = closure \<longrightarrow> native pc regs W = do_closure_win64 call loads regs W"
    and rv: "rvalue \<noteq> NULL" and room: "lo + copy_room ts + 24 * length ps + 400 \<le> unat (stack_top u)"
  shows "\<exists>frame avp m T. finds m avp ts bss \<and> (\<forall>a. clear_of lo (unat (stack_top u)) a \<longrightarrow> m a = mem u a)
     \<and> lo \<le> unat avp \<and> unat avp + 8 * length ps \<le> unat frame \<and> unat frame + 56 \<le> unat (stack_top u) \<and> span frame 8 \<subseteq> dom m
     \<and> ffi_call_int_efi64 native c pc rvalue vs closure u = do {
         w3 \<leftarrow> call fn cif (if cif_flags c = 13 then rvalue else frame) avp ud (u\<lparr>stack_top := avp, mem := m\<rparr>);
         r \<leftarrow> load (mem w3) frame 8;
         out \<leftarrow> win64_store (cif_flags c) (le_word r) (le_word r);
         m' \<leftarrow> store (mem w3) rvalue out;
         Some (w3\<lparr>stack_top := T, mem := m'\<rparr>) }"
proof -
  note C = efi64_bytes [OF prep args(1,2)]
  obtain N where N: "unat (cif_bytes c) = 8 * N" "4 \<le> N" "N \<le> length ps + 5" "hidden c + length ps \<le> N" using C(1) by blast
  have room1: "lo + copy_room ts + 8 * N + 56 \<le> unat (stack_top u)" using room N(3) by simp
  obtain ws vs2 W where I: "length ws = N" "hidden c = 1 \<longrightarrow> ws ! 0 = rvalue"
      "\<forall>i < length ps. ws ! (hidden c + i) = slots_of ts vs2 bss ! i" "grows lo u W" "vals_at lo W ts vs2 bss"
      "unat (stack_top u) \<le> unat (stack_top W) + copy_room ts + 8 * N + 56"
      "ffi_call_int_efi64 native c pc rvalue vs closure u = do {
         ((rax, xmm0), w1) \<leftarrow> native pc \<lparr>ms_gpr = take 4 ws, ms_xmm = take 4 ws, ms_r10 = closure,
             ms_args = concat (map (le_bytes 8) ws)\<rparr> W;
         out \<leftarrow> win64_store (cif_flags c) rax xmm0;
         m \<leftarrow> store (mem w1) rvalue out;
         Some (w1\<lparr>mem := m\<rparr>) }"
    using call_int_efi64_slots [OF N(1,2,4) C(2) args(3) ts(1) vals rv room1, of native pc closure] by auto
  have g: "unat (stack_top W) \<le> unat (stack_top u)" "\<forall>a. clear_of lo (unat (stack_top u)) a \<longrightarrow> mem W a = mem u a"
    using I(4) by (simp_all add: grows_def)
  have cW: "cif_at cif W = Some c" "read_ptrs W (cif_arg_types c) (length ps) = Some ps" "list_all2 (\<lambda>p t. types W p = Some t) ps ts"
    using cif args(3) ts(1) grows_cif_at [OF I(4)] grows_read_ptrs [OF I(4)] grows_frame(1) [OF I(4)]
    by (simp_all add: list.rel_mono_strong)
  have same: "\<forall>a. clear_of lo (unat (stack_top u)) a \<longrightarrow> k a = mem u a" if "\<forall>a. clear_of lo (unat (stack_top W)) a \<longrightarrow> k a = mem W a" for k
    using that g clear_of_mono by metis
  then have ld: "\<forall>k. (\<forall>a. clear_of lo (unat (stack_top W)) a \<longrightarrow> k a = mem W a) \<longrightarrow> loads k = Some (cif, fn, ud)" using loads by blast
  have room2: "lo + 8 * N + 8 * length ps + 160 \<le> unat (stack_top W)" using I(6) room N(3) by simp
  obtain frame avp m where F: "finds m avp ts bss" "\<forall>a. clear_of lo (unat (stack_top W)) a \<longrightarrow> m a = mem W a"
      "lo \<le> unat avp" "unat avp + 8 * length ps \<le> unat frame" "unat frame + 56 \<le> unat (stack_top W)" "span frame 8 \<subseteq> dom m"
      "do_closure_win64 call loads \<lparr>ms_gpr = take 4 ws, ms_xmm = take 4 ws, ms_r10 = closure, ms_args = concat (map (le_bytes 8) ws)\<rparr> W
        = do { w3 \<leftarrow> call fn cif (if hidden c = 1 then ws ! 0 else frame) avp ud (W\<lparr>stack_top := avp, mem := m\<rparr>);
               r \<leftarrow> load (mem w3) frame 8;
               Some ((le_word r, le_word r), w3\<lparr>stack_top := stack_top W\<rparr>) }"
    using do_closure_win64_call [OF ld cW(1) C(2) cW(2,3) ts(2) I(1) N(2,4) I(3,5) room2, where call = call and closure = closure] by blast
  have fin: "W\<lparr>stack_top := avp, mem := m\<rparr> = u\<lparr>stack_top := avp, mem := m\<rparr>"
  proof -
    obtain T k where "W = u\<lparr>stack_top := T, mem := k\<rparr>" using I(4) unfolding grows_def by blast
    then show ?thesis by (simp add: mem_top_swap)
  qed
  have hid: "(if hidden c = 1 then ws ! 0 else frame) = (if cif_flags c = 13 then rvalue else frame)"
    using I(2) by (simp add: hidden_def split: if_splits)
  have "ffi_call_int_efi64 native c pc rvalue vs closure u = do {
         w3 \<leftarrow> call fn cif (if cif_flags c = 13 then rvalue else frame) avp ud (u\<lparr>stack_top := avp, mem := m\<rparr>);
         r \<leftarrow> load (mem w3) frame 8;
         out \<leftarrow> win64_store (cif_flags c) (le_word r) (le_word r);
         m' \<leftarrow> store (mem w3) rvalue out;
         Some (w3\<lparr>stack_top := stack_top W, mem := m'\<rparr>) }"
    by (simp add: I(4,7) native F(7) [unfolded hid] fin Option.bind_assoc)
  then show ?thesis
    using F(1,3-6) same [OF F(2)] g(1)
    by (intro exI [of _ frame] exI [of _ avp] exI [of _ m] exI [of _ "stack_top W"]) simp
qed

text \<open>Claim C23. Arguments survive the Microsoft calling sequence, there and back. Take an interface of the
  ABI \<open>FFI_EFI64\<close> or \<open>FFI_GNUW64\<close> and a closure prepared for it, and call the closure's address with
  \<open>ffi_call\<close>, the values of the arguments (of any types: integers, floating point, structs of any size)
  lying outside the unused part of the stack. The closure's function is called exactly once, with its
  interface and user data, and the pointer it finds for parameter \<open>i\<close> leads to exactly the bytes the caller's
  pointer for parameter \<open>i\<close> leads to, whether they travelled in a general register, in a vector register, on
  the stack or as a copy. Memory outside the unused stack is as it was. A struct returned in memory
  is written by the function straight to the caller's address; what it leaves for any other value is stored
  there by the return code.\<close>

theorem win64_call_closure:
  fixes w w1 w2 :: "'a ctx_world_scheme" and call :: "'a ctx_world_scheme closure_fun"
  assumes prep: "ffi_prep_cif_machdep_efi64 c0 w0 = Some (FFI_OK, c)"
    and args: "cif_nargs c0 = of_nat (length ps)" "length ps < 2 ^ 20" "read_ptrs w (cif_arg_types c) (length ps) = Some ps"
    and ts: "list_all2 (\<lambda>p t. types w p = Some t \<and> ft_size t < 2 ^ 31) ps ts"
      "\<forall>t \<in> set ts. ft_type t = FFI_TYPE_DOUBLE \<or> ft_type t = FFI_TYPE_FLOAT \<longrightarrow> by_value_size (ft_size t)"
    and vals: "vals_at lo w ts vs bss"
    and closure: "ffi_prep_closure_loc lk pc cif fn ud w1 = Some (FFI_OK, w2)" "cif_at cif w1 = Some c"
      "\<forall>a \<in> span pc sizeof_ffi_closure. mem w a = mem w2 a \<and> clear_of lo (unat (stack_top w)) a" "cif_at cif w = Some c"
    and rv: "rvalue \<noteq> NULL" and room: "lo + 2 * copy_room ts + 24 * length ps + 400 \<le> unat (stack_top w)"
  shows "\<exists>frame avp m. finds m avp ts bss \<and> (\<forall>a. clear_of lo (unat (stack_top w)) a \<longrightarrow> m a = mem w a)
     \<and> lo \<le> unat avp \<and> unat avp + 8 * length ps \<le> unat frame \<and> unat frame + 56 \<le> unat (stack_top w) \<and> span frame 8 \<subseteq> dom m
     \<and> ffi_call native (ffi_call_efi64 (win64_native lk call)) fuel c pc rvalue vs w = do {
         w3 \<leftarrow> call fn cif (if cif_flags c = 13 then rvalue else frame) avp ud (w\<lparr>stack_top := avp, mem := m\<rparr>);
         r \<leftarrow> load (mem w3) frame 8;
         out \<leftarrow> win64_store (cif_flags c) (le_word r) (le_word r);
         m' \<leftarrow> store (mem w3) rvalue out;
         Some (w3\<lparr>stack_top := stack_top w, mem := m'\<rparr>) }"
proof -
  let ?lim = "if cif_abi c = FFI_GNUW64 then 8 else 16"
  note C = efi64_bytes [OF prep args(1,2)]
  obtain vs1 u where cp: "copy_large w ps vs ?lim = Some (vs1, u)" "grows lo w u" "vals_at lo u ts vs1 bss"
    "unat (stack_top w) \<le> unat (stack_top u) + copy_room ts"
    using copy_large_values [OF ts(1) refl vals, of ?lim] room by auto
  have g: "unat (stack_top u) \<le> unat (stack_top w)" "\<forall>a. clear_of lo (unat (stack_top w)) a \<longrightarrow> mem u a = mem w a"
    using cp(2) by (simp_all add: grows_def)
  have abi: "cif_abi c = FFI_EFI64 \<or> cif_abi c = FFI_GNUW64" using C(3) by simp
  have "ffi_prep_closure_loc lk pc cif fn ud w1 = map_option (Pair FFI_OK) (init_closure pc (at_closure_win64 lk) cif fn ud w1)"
    using abi closure(2) by (auto simp: ffi_prep_closure_loc_def ffi_prep_closure_loc_efi64_def)
  with closure(1) have "init_closure pc (at_closure_win64 lk) cif fn ud w1 = Some w2" by auto
  then have r2: "closure_ready (mem w2) pc (at_closure_win64 lk) cif fn ud" using init_closure_ready by blast
  have ready: "closure_ready (mem W) pc (at_closure_win64 lk) cif fn ud" if "grows lo u W" for W
  proof -
    have "mem W a = mem w2 a" if "a \<in> span pc sizeof_ffi_closure" for a
      using grows_trans [OF cp(2) \<open>grows lo u W\<close>] bspec [OF closure(3) that] unfolding grows_def by simp
    then show ?thesis using closure_ready_cong [of pc "mem W" "mem w2"] r2 by simp
  qed
  have clear: "\<forall>a \<in> span pc sizeof_ffi_closure. clear_of lo (unat (stack_top W)) a" if "grows lo u W" for W
    using grows_trans [OF cp(2) that] closure(3) unfolding grows_def by (blast intro: clear_of_mono)
  have "lo \<le> unat (stack_top u)" using cp(2) unfolding grows_def by blast
  then have u0: "grows lo u u" by (rule grows_refl)
  have U: "read_ptrs u (cif_arg_types c) (length ps) = Some ps" "list_all2 (\<lambda>p t. types u p = Some t \<and> ft_size t < 2 ^ 31) ps ts"
    "cif_at cif u = Some c" "lo + copy_room ts + 24 * length ps + 400 \<le> unat (stack_top u)"
    using args(3) ts(1) closure(4) grows_read_ptrs [OF cp(2)] grows_frame(1) [OF cp(2)] grows_cif_at [OF cp(2)] cp(4) room by simp_all
  have entry: "\<forall>regs W. grows lo u W \<and> ms_r10 regs = NULL \<longrightarrow> win64_native lk call pc regs W = do_closure_win64 call (closure_loads pc) regs W"
    using win64_native_entry(1) [OF ready clear] by blast
  obtain frame avp m T where F: "finds m avp ts bss" "\<forall>a. clear_of lo (unat (stack_top u)) a \<longrightarrow> m a = mem u a"
      "lo \<le> unat avp" "unat avp + 8 * length ps \<le> unat frame" "unat frame + 56 \<le> unat (stack_top u)" "span frame 8 \<subseteq> dom m"
      "ffi_call_int_efi64 (win64_native lk call) c pc rvalue vs1 NULL u = do {
         w3 \<leftarrow> call fn cif (if cif_flags c = 13 then rvalue else frame) avp ud (u\<lparr>stack_top := avp, mem := m\<rparr>);
         r \<leftarrow> load (mem w3) frame 8;
         out \<leftarrow> win64_store (cif_flags c) (le_word r) (le_word r);
         m' \<leftarrow> store (mem w3) rvalue out;
         Some (w3\<lparr>stack_top := T, mem := m'\<rparr>) }"
    using call_int_efi64_closure [where native = "win64_native lk call" and pc = pc and loads = "closure_loads pc" and call = call
        and closure = NULL, OF prep args(1,2) U(1,2) ts(2) cp(3) U(3) win64_native_entry(2) [OF ready [OF u0] clear [OF u0]]
        entry rv U(4)] by auto
  have fin: "u\<lparr>stack_top := avp, mem := m\<rparr> = w\<lparr>stack_top := avp, mem := m\<rparr>"
  proof -
    obtain T k where "u = w\<lparr>stack_top := T, mem := k\<rparr>" using cp(2) unfolding grows_def by blast
    then show ?thesis by (simp add: mem_top_swap)
  qed
  have "ffi_call native (ffi_call_efi64 (win64_native lk call)) fuel c pc rvalue vs w = do {
         w3 \<leftarrow> call fn cif (if cif_flags c = 13 then rvalue else frame) avp ud (w\<lparr>stack_top := avp, mem := m\<rparr>);
         r \<leftarrow> load (mem w3) frame 8;
         out \<leftarrow> win64_store (cif_flags c) (le_word r) (le_word r);
         m' \<leftarrow> store (mem w3) rvalue out;
         Some (w3\<lparr>stack_top := stack_top w, mem := m'\<rparr>) }"
    using abi by (auto simp: ffi_call_def ffi_call_efi64_def args(3) C(2) cp(1) F(7) fin mem_top_swap Option.bind_assoc)
  moreover have "m a = mem w a" if "clear_of lo (unat (stack_top w)) a" for a
    using F(2) g that clear_of_mono [OF that g(1)] by simp
  ultimately show ?thesis using F(1,3-6) g(1)
    by (intro exI [of _ frame] exI [of _ avp] exI [of _ m]) simp
qed

text \<open>A closure of a function of a \<open>double\<close> and an \<open>int\<close> that returns nothing.\<close>

definition win64_cif :: ffi_cif where
  "win64_cif = zero_cif\<lparr>cif_abi := FFI_EFI64, cif_nargs := 2, cif_arg_types := 0x9100, cif_rtype := image_symbol ffi_type_void,
     cif_bytes := 32\<rparr>"

definition win64_boot :: ctx_world where
  "win64_boot = (ctx_boot [])\<lparr>ptrs := [0x9100 \<mapsto> [image_symbol ffi_type_double, image_symbol ffi_type_sint32]],
     ctxs := [0x9000 \<mapsto> zero_ctx\<lparr>cc_cif := win64_cif\<rparr>],
     mem := map_block 0x11000 (replicate 12 7) (map_block 0x10000 (replicate sizeof_ffi_closure 0) Map.empty)\<rparr>"

theorem win64_call_closure_witness:
  "\<exists>w1 w2. ffi_prep_closure_loc test_link 0x10000 0x9000 0x4000 0x77 win64_boot = Some (FFI_OK, w1)
     \<and> ffi_call (\<lambda>_ _ _. None) (ffi_call_efi64 (win64_native test_link
           (\<lambda>fn cif s avp ud w. if fn = 0x4000 \<and> ud = 0x77 then Some w else None)))
         0 win64_cif 0x10000 0x12000 [0x11000, 0x11008] w1 = Some w2"
proof -
  define call :: "ctx_world closure_fun" where
    "call = (\<lambda>fn cif s avp ud w. if fn = 0x4000 \<and> ud = 0x77 then Some w else None)"
  let ?ps = "[image_symbol ffi_type_double, image_symbol ffi_type_sint32]"
  let ?ts = "[builtin_type ffi_type_double, builtin_type ffi_type_sint32]"
  let ?vs = "[0x11000, 0x11008] :: addr list"
  have "span 0x10000 sizeof_ffi_closure \<subseteq> dom (mem win64_boot)" by (auto simp: win64_boot_def map_block_dom)
  then obtain w1 where i: "init_closure 0x10000 0x5200 0x9000 0x4000 0x77 win64_boot = Some w1"
    using init_closure_defined by blast
  have c: "cif_at 0x9000 win64_boot = Some win64_cif" by (simp add: cif_at_def win64_boot_def zero_ctx_def)
  have prep: "ffi_prep_closure_loc test_link 0x10000 0x9000 0x4000 0x77 win64_boot = Some (FFI_OK, w1)"
    using i by (simp add: ffi_prep_closure_loc_def ffi_prep_closure_loc_efi64_def test_link_def c win64_cif_def zero_cif_def)
  note I = init_closure_ready [OF i]
  obtain m where w1: "w1 = win64_boot\<lparr>mem := m\<rparr>" using I by blast
  have efi: "ffi_prep_cif_machdep_efi64 win64_cif w1 = Some (FFI_OK, win64_cif)"
    by (simp add: ffi_prep_cif_machdep_efi64_def w1 win64_cif_def zero_cif_def win64_boot_def builtin_type.simps FFI_TYPEDEF_def)
  have args: "cif_nargs win64_cif = of_nat (length ?ps)" "length ?ps < 2 ^ 20"
    "read_ptrs w1 (cif_arg_types win64_cif) (length ?ps) = Some ?ps"
    by (simp_all add: win64_cif_def zero_cif_def read_ptrs_def w1 win64_boot_def)
  have ts: "list_all2 (\<lambda>p t. types w1 p = Some t \<and> ft_size t < 2 ^ 31) ?ps ?ts"
    "\<forall>t \<in> set ?ts. ft_type t = FFI_TYPE_DOUBLE \<or> ft_type t = FFI_TYPE_FLOAT \<longrightarrow> by_value_size (ft_size t)"
    by (simp_all add: w1 win64_boot_def builtin_type.simps FFI_TYPEDEF_def by_value_size_def)
  have val: "\<exists>bs. load (mem w1) v n = Some bs" if "span v n \<subseteq> span 0x11000 12" "span v n \<inter> span 0x10000 sizeof_ffi_closure = {}" for v n
  proof -
    have "span v n \<subseteq> dom (mem win64_boot)" using that(1) by (auto simp: win64_boot_def map_block_dom)
    moreover have "mem w1 a = mem win64_boot a" if "a \<in> span v n" for a using I \<open>span v n \<inter> _ = {}\<close> that by blast
    ultimately show ?thesis using load_defined [of "mem w1" v n] by (auto simp: subset_iff dom_def)
  qed
  have "span (0x11000 :: addr) 8 \<subseteq> span 0x11000 12" "span (0x11008 :: addr) 4 \<subseteq> span 0x11000 12"
    by (auto simp: span_interval)
  moreover have "span (0x11000 :: addr) 8 \<inter> span 0x10000 sizeof_ffi_closure = {}" "span (0x11008 :: addr) 4 \<inter> span 0x10000 sizeof_ffi_closure = {}"
    by (auto simp: span_interval)
  ultimately obtain b1 b2 where b: "load (mem w1) 0x11000 8 = Some b1" "load (mem w1) 0x11008 4 = Some b2"
    using val by meson
  have vals: "vals_at 0x20000 w1 ?ts ?vs [b1, b2]"
    using b by (auto simp: val_at_def builtin_type.simps FFI_TYPEDEF_def clear_of_def span_interval)
  have clear: "\<forall>a \<in> span 0x10000 sizeof_ffi_closure. mem w1 a = mem w1 a \<and> clear_of 0x20000 (unat (stack_top w1)) a"
    by (auto simp: clear_of_def span_interval)
  have c1: "cif_at 0x9000 w1 = Some win64_cif" using c by (simp add: w1 cif_at_def)
  have room: "0x20000 + 2 * copy_room ?ts + 24 * length ?ps + 400 \<le> unat (stack_top w1)"
    by (simp add: w1 win64_boot_def copy_room_def builtin_type.simps FFI_TYPEDEF_def)
  have nn: "(0x12000 :: addr) \<noteq> NULL" by simp
  obtain frame avp m where F: "span frame 8 \<subseteq> dom m"
     "ffi_call (\<lambda>_ _ _. None) (ffi_call_efi64 (win64_native test_link call)) 0 win64_cif 0x10000 0x12000 ?vs w1 = do {
         w3 \<leftarrow> call 0x4000 0x9000 (if cif_flags win64_cif = 13 then 0x12000 else frame) avp 0x77 (w1\<lparr>stack_top := avp, mem := m\<rparr>);
         r \<leftarrow> load (mem w3) frame 8;
         out \<leftarrow> win64_store (cif_flags win64_cif) (le_word r) (le_word r);
         m' \<leftarrow> store (mem w3) 0x12000 out;
         Some (w3\<lparr>stack_top := stack_top w1, mem := m'\<rparr>) }"
    using win64_call_closure [OF efi args ts vals prep c clear c1 nn room, of "\<lambda>_ _ _. None" call 0]
    by (elim exE conjE) (rule that; assumption)
  have "cif_flags win64_cif = 0" by (simp add: win64_cif_def zero_cif_def)
  moreover obtain r where "load m frame 8 = Some r" using F(1) load_defined [of m frame 8] by blast
  ultimately have "ffi_call (\<lambda>_ _ _. None) (ffi_call_efi64 (win64_native test_link call)) 0 win64_cif 0x10000 0x12000 ?vs w1
      = Some (w1\<lparr>stack_top := stack_top w1, mem := m\<rparr>)"
    unfolding F(2) by (simp add: win64_store_def call_def)
  with prep show ?thesis unfolding call_def by blast
qed

end
