(* ===== verification/Ffi_Go.thy ===== *)
theory Ffi_Go
  imports Ffi_Win64
begin

text \<open>
  Go closures on x86-64 (\<^verbatim>\<open>ffi_call_go\<close>, \<^verbatim>\<open>ffi_prep_go_closure\<close> in \<^verbatim>\<open>jni/libffi/src/x86/ffi64.c\<close> and
  \<^verbatim>\<open>ffiw64.c\<close>, the \<^verbatim>\<open>ffi_go_closure_*\<close> entries in \<^verbatim>\<open>unix64.S\<close> and \<^verbatim>\<open>win64.S\<close>). A Go closure has no
  trampoline: its first word is the address of an entry, and its caller passes the address of the closure in
  the static chain register \<open>r10\<close>, where \<open>ffi_call_go\<close> puts it. The entry takes the call interface and the
  function from the closure and then goes the way of an ordinary closure, with the closure for user data.
\<close>

section \<open>Calls\<close>

definition ffi_call_go ::
  "'a mem_world_scheme native \<Rightarrow> 'a mem_world_scheme ms_native \<Rightarrow> nat \<Rightarrow> ffi_cif \<Rightarrow> addr \<Rightarrow> addr \<Rightarrow> addr list \<Rightarrow> addr
     \<Rightarrow> 'a mem_world_scheme \<Rightarrow> 'a mem_world_scheme option"
where
  "ffi_call_go native ms_native fuel cif fn rvalue avalue closure w = do {
     w1 \<leftarrow> (if cif_abi cif = FFI_EFI64 \<or> cif_abi cif = FFI_GNUW64
           then ffi_call_go_efi64 ms_native cif fn rvalue avalue closure w
           else ffi_call_int native fuel cif fn rvalue avalue closure w);
     Some (w1\<lparr>stack_top := stack_top w\<rparr>)
   }"

section \<open>Preparation\<close>

text \<open>The entries, and \<open>ffi_go_closure\<close>: \<open>tramp\<close>, \<open>cif\<close> and \<open>fun\<close>.\<close>

record go_link = link +
  at_go_closure_unix64 :: addr
  at_go_closure_unix64_sse :: addr
  at_go_closure_win64 :: addr

definition init_go_closure :: "addr \<Rightarrow> addr \<Rightarrow> addr \<Rightarrow> addr \<Rightarrow> 'a mem_world_scheme \<Rightarrow> 'a mem_world_scheme option" where
  "init_go_closure closure tramp cif fn w = do {
     m1 \<leftarrow> store (mem w) closure (le_bytes 8 tramp);
     m2 \<leftarrow> store m1 (closure + 8) (le_bytes 8 cif);
     m3 \<leftarrow> store m2 (closure + 16) (le_bytes 8 fn);
     Some (w\<lparr>mem := m3\<rparr>)
   }"

definition ffi_prep_go_closure_efi64 ::
  "go_link \<Rightarrow> addr \<Rightarrow> addr \<Rightarrow> addr \<Rightarrow> 'a ctx_world_scheme \<Rightarrow> (ffi_status \<times> 'a ctx_world_scheme) option"
where
  "ffi_prep_go_closure_efi64 lk closure cif fn w = do {
     c \<leftarrow> cif_at cif w;
     if cif_abi c = FFI_WIN64 \<or> cif_abi c = FFI_GNUW64
     then map_option (Pair FFI_OK) (init_go_closure closure (at_go_closure_win64 lk) cif fn w)
     else Some (FFI_BAD_ABI, w)
   }"

definition ffi_prep_go_closure ::
  "go_link \<Rightarrow> addr \<Rightarrow> addr \<Rightarrow> addr \<Rightarrow> 'a ctx_world_scheme \<Rightarrow> (ffi_status \<times> 'a ctx_world_scheme) option"
where
  "ffi_prep_go_closure lk closure cif fn w = do {
     c \<leftarrow> cif_at cif w;
     if cif_abi c = FFI_EFI64 \<or> cif_abi c = FFI_GNUW64 then ffi_prep_go_closure_efi64 lk closure cif fn w
     else if cif_abi c \<noteq> FFI_UNIX64 then Some (FFI_BAD_ABI, w)
     else do {
       tramp \<leftarrow> Some (if cif_flags c AND UNIX64_FLAG_XMM_ARGS \<noteq> 0 then at_go_closure_unix64_sse lk
                      else at_go_closure_unix64 lk);
       w1 \<leftarrow> init_go_closure closure tramp cif fn w;
       Some (FFI_OK, w1)
     }
   }"

section \<open>Entry\<close>

definition go_closure_loads :: "addr \<Rightarrow> memory \<Rightarrow> (addr \<times> addr \<times> addr) option" where
  "go_closure_loads r10 m = do {
     cif \<leftarrow> load m (r10 + 8) 8;
     fn \<leftarrow> load m (r10 + 16) 8;
     Some (le_word cif, le_word fn, r10)
   }"

definition go_native :: "go_link \<Rightarrow> 'a ctx_world_scheme closure_fun \<Rightarrow> nat \<Rightarrow> ret_regs \<Rightarrow> 'a ctx_world_scheme native" where
  "go_native lk call fuel junk pc regs w =
     (if pc = at_go_closure_unix64 lk then do_closure call fuel False (go_closure_loads (cr_r10 regs)) regs junk w
      else if pc = at_go_closure_unix64_sse lk then do_closure call fuel True (go_closure_loads (cr_r10 regs)) regs junk w
      else None)"

definition go_win64_native :: "go_link \<Rightarrow> 'a ctx_world_scheme closure_fun \<Rightarrow> 'a ctx_world_scheme ms_native" where
  "go_win64_native lk call pc regs w =
     (if pc = at_go_closure_win64 lk then do_closure_win64 call (go_closure_loads (ms_r10 regs)) regs w else None)"

section \<open>A Go closure is a closure whose user data is itself\<close>

lemma init_go_closure_bytes:
  "init_go_closure closure tramp cif fn w =
     map_option (\<lambda>m. w\<lparr>mem := m\<rparr>) (store (mem w) closure (le_bytes 8 tramp @ le_bytes 8 cif @ le_bytes 8 fn))"
  by (simp add: init_go_closure_def store_append map_conv_bind_option comp_def add.assoc)

definition go_closure_ready :: "memory \<Rightarrow> addr \<Rightarrow> addr \<Rightarrow> addr \<Rightarrow> addr \<Rightarrow> bool" where
  "go_closure_ready m p tramp cif fn \<longleftrightarrow> load m p 24 = Some (le_bytes 8 tramp @ le_bytes 8 cif @ le_bytes 8 fn)"

lemma init_go_closure_ready:
  assumes "init_go_closure p tramp cif fn w = Some w'"
  shows "go_closure_ready (mem w') p tramp cif fn" "\<forall>a. a \<notin> span p 24 \<longrightarrow> mem w' a = mem w a" "w' = w\<lparr>mem := mem w'\<rparr>"
proof -
  let ?bs = "le_bytes 8 tramp @ le_bytes 8 cif @ le_bytes 8 fn"
  from assms obtain m where m: "store (mem w) p ?bs = Some m" and w': "w' = w\<lparr>mem := m\<rparr>"
    by (auto simp: init_go_closure_bytes)
  show "go_closure_ready (mem w') p tramp cif fn" "\<forall>a. a \<notin> span p 24 \<longrightarrow> mem w' a = mem w a" "w' = w\<lparr>mem := mem w'\<rparr>"
    using load_store_same [OF m] store_outside [OF m] by (simp_all add: w' go_closure_ready_def)
qed

lemma go_closure_ready_fields:
  assumes "go_closure_ready m p tramp cif fn"
  shows "load m p 8 = Some (le_bytes 8 tramp)" "go_closure_loads p m = Some (cif, fn, p)"
proof -
  have "load m p (8 * 3) = Some (concat (map (le_bytes 8) [tramp, cif, fn]) @ [])" using assms by (simp add: go_closure_ready_def)
  note L = load_words [OF this]
  show "load m p 8 = Some (le_bytes 8 tramp)" "go_closure_loads p m = Some (cif, fn, p)"
    using L [of 0] L [of 1] L [of 2] by (simp_all add: go_closure_loads_def)
qed

text \<open>A call of a Go closure of a Microsoft interface, there and back: as for an ordinary closure, with
  the closure itself for user data. \<open>ffi_call_go\<close> makes no copies of its own.\<close>

theorem go_win64_call:
  fixes w w1 w2 :: "'a ctx_world_scheme" and call :: "'a ctx_world_scheme closure_fun"
  assumes prep: "ffi_prep_cif_machdep_efi64 c0 w0 = Some (FFI_OK, c)"
    and args: "cif_nargs c0 = of_nat (length ps)" "length ps < 2 ^ 20" "read_ptrs w (cif_arg_types c) (length ps) = Some ps"
    and ts: "list_all2 (\<lambda>p t. types w p = Some t \<and> ft_size t < 2 ^ 31) ps ts"
      "\<forall>t \<in> set ts. ft_type t = FFI_TYPE_DOUBLE \<or> ft_type t = FFI_TYPE_FLOAT \<longrightarrow> by_value_size (ft_size t)"
    and vals: "vals_at lo w ts vs bss"
    and closure: "ffi_prep_go_closure lk p cif fn w1 = Some (FFI_OK, w2)" "cif_at cif w1 = Some c"
      "\<forall>a \<in> span p 24. mem w a = mem w2 a \<and> clear_of lo (unat (stack_top w)) a" "cif_at cif w = Some c"
    and rv: "rvalue \<noteq> NULL" and room: "lo + copy_room ts + 24 * length ps + 400 \<le> unat (stack_top w)"
  shows "load (mem w) p 8 = Some (le_bytes 8 (at_go_closure_win64 lk))
     \<and> (\<exists>frame avp m. finds m avp ts bss \<and> (\<forall>a. clear_of lo (unat (stack_top w)) a \<longrightarrow> m a = mem w a) \<and> span frame 8 \<subseteq> dom m
       \<and> ffi_call_go native (go_win64_native lk call) fuel c (at_go_closure_win64 lk) rvalue vs p w = do {
           w3 \<leftarrow> call fn cif (if cif_flags c = 13 then rvalue else frame) avp p (w\<lparr>stack_top := avp, mem := m\<rparr>);
           r \<leftarrow> load (mem w3) frame 8;
           out \<leftarrow> win64_store (cif_flags c) (le_word r) (le_word r);
           m' \<leftarrow> store (mem w3) rvalue out;
           Some (w3\<lparr>stack_top := stack_top w, mem := m'\<rparr>) })"
proof -
  note C = efi64_bytes [OF prep args(1,2)]
  have abi: "cif_abi c = FFI_EFI64 \<or> cif_abi c = FFI_GNUW64" using C(3) by simp
  have "ffi_prep_go_closure lk p cif fn w1 = map_option (Pair FFI_OK) (init_go_closure p (at_go_closure_win64 lk) cif fn w1)"
    using abi closure(2) by (auto simp: ffi_prep_go_closure_def ffi_prep_go_closure_efi64_def)
  with closure(1) have "init_go_closure p (at_go_closure_win64 lk) cif fn w1 = Some w2" by auto
  note R = init_go_closure_ready(1) [OF this]
  have ready: "go_closure_ready m p (at_go_closure_win64 lk) cif fn"
    if "\<forall>a. clear_of lo (unat (stack_top w)) a \<longrightarrow> m a = mem w a" for m
  proof -
    have "load m p 24 = load (mem w2) p 24" by (rule load_cong) (use closure(3) that in simp)
    with R show ?thesis by (simp add: go_closure_ready_def)
  qed
  have ld: "\<forall>m. (\<forall>a. clear_of lo (unat (stack_top w)) a \<longrightarrow> m a = mem w a) \<longrightarrow> go_closure_loads p m = Some (cif, fn, p)"
    using go_closure_ready_fields(2) [OF ready] by blast
  have entry: "\<forall>regs W. grows lo w W \<and> ms_r10 regs = p
      \<longrightarrow> go_win64_native lk call (at_go_closure_win64 lk) regs W = do_closure_win64 call (go_closure_loads p) regs W"
    by (simp add: go_win64_native_def)
  obtain frame avp m T where F: "finds m avp ts bss" "\<forall>a. clear_of lo (unat (stack_top w)) a \<longrightarrow> m a = mem w a" "span frame 8 \<subseteq> dom m"
      "ffi_call_int_efi64 (go_win64_native lk call) c (at_go_closure_win64 lk) rvalue vs p w = do {
         w3 \<leftarrow> call fn cif (if cif_flags c = 13 then rvalue else frame) avp p (w\<lparr>stack_top := avp, mem := m\<rparr>);
         r \<leftarrow> load (mem w3) frame 8;
         out \<leftarrow> win64_store (cif_flags c) (le_word r) (le_word r);
         m' \<leftarrow> store (mem w3) rvalue out;
         Some (w3\<lparr>stack_top := T, mem := m'\<rparr>) }"
    using call_int_efi64_closure [where native = "go_win64_native lk call" and pc = "at_go_closure_win64 lk"
        and loads = "go_closure_loads p" and call = call and closure = p, OF prep args ts vals closure(4) ld entry rv room] by auto
  have "ffi_call_go native (go_win64_native lk call) fuel c (at_go_closure_win64 lk) rvalue vs p w = do {
         w3 \<leftarrow> call fn cif (if cif_flags c = 13 then rvalue else frame) avp p (w\<lparr>stack_top := avp, mem := m\<rparr>);
         r \<leftarrow> load (mem w3) frame 8;
         out \<leftarrow> win64_store (cif_flags c) (le_word r) (le_word r);
         m' \<leftarrow> store (mem w3) rvalue out;
         Some (w3\<lparr>stack_top := stack_top w, mem := m'\<rparr>) }"
    using abi by (auto simp: ffi_call_go_def ffi_call_go_efi64_def F(4) mem_top_swap Option.bind_assoc)
  with F(1-3) show ?thesis using go_closure_ready_fields(1) [OF ready] by auto
qed

end
