(* ===== verification/Ffi_Raw.thy ===== *)
theory Ffi_Raw
  imports Ffi_Win64
begin

text \<open>
  libffi's raw interfaces (\<^verbatim>\<open>jni/libffi/src/raw_api.c\<close>, and \<^verbatim>\<open>java_raw_api.c\<close> for arguments packed as on a
  Java stack, where a long or a double takes two slots), as they are for x86-64: little endian,
  \<open>FFI_SIZEOF_ARG\<close> and \<open>FFI_SIZEOF_JAVA_RAW\<close> 8, \<open>FFI_NATIVE_RAW_API\<close> 0. Arguments are packed into one block;
  calls and closures translate between the block and libffi's array of pointers.

  Both formats are instances of one interface, \<open>raw_format\<close>: a step that packs one argument and a step
  that finds it again. That whole argument lists survive is proved there.
\<close>

section \<open>Packing one argument\<close>

text \<open>The body of the loop of \<open>ffi_raw_to_ptrarray\<close>: the argument's address and the next slot.\<close>

definition raw_read :: "ffi_type \<Rightarrow> addr \<Rightarrow> memory \<Rightarrow> (addr \<times> addr) option" where
  "raw_read t raw m =
     (if ft_type t = FFI_TYPE_STRUCT \<or> ft_type t = FFI_TYPE_COMPLEX
      then map_option (\<lambda>p. (le_word p, raw + 8)) (load m raw 8)
      else Some (raw, raw + 8 * (FFI_ALIGN (ft_size t) 8 div 8)))"

text \<open>The body of the loop of \<open>ffi_ptrarray_to_raw\<close>: the memory and the next slot.\<close>

definition raw_write :: "ffi_type \<Rightarrow> addr \<Rightarrow> addr \<Rightarrow> memory \<Rightarrow> (memory \<times> addr) option" where
  "raw_write t a raw m =
     (let word = (\<lambda>v. map_option (\<lambda>m. (m, raw + 8)) (store m raw (le_bytes 8 v)));
          rd = (\<lambda>n. map_option le_word (load m a n));
          c = ft_type t
      in if c = FFI_TYPE_UINT8 then Option.bind (rd 1) word
         else if c = FFI_TYPE_SINT8 then Option.bind (rd 1) (\<lambda>x. word (signed_take_bit 7 x))
         else if c = FFI_TYPE_UINT16 then Option.bind (rd 2) word
         else if c = FFI_TYPE_SINT16 then Option.bind (rd 2) (\<lambda>x. word (signed_take_bit 15 x))
         else if c = FFI_TYPE_UINT32 then Option.bind (rd 4) word
         else if c = FFI_TYPE_SINT32 then Option.bind (rd 4) (\<lambda>x. word (signed_take_bit 31 x))
         else if c = FFI_TYPE_STRUCT \<or> c = FFI_TYPE_COMPLEX then word a
         else if c = FFI_TYPE_POINTER then Option.bind (rd 8) word
         else do {
           bs \<leftarrow> load m a (unat (ft_size t));
           m \<leftarrow> store m raw bs;
           Some (m, raw + 8 * (FFI_ALIGN (ft_size t) 8 div 8))
         })"

text \<open>The same for the Java format. A type without a case (\<open>FFI_ASSERT (0)\<close>, empty unless debugging) is
  skipped when packing.\<close>

definition java_wide :: "u16 \<Rightarrow> bool" where
  "java_wide c \<longleftrightarrow> c = FFI_TYPE_UINT64 \<or> c = FFI_TYPE_SINT64 \<or> c = FFI_TYPE_DOUBLE"

definition java_raw_read :: "ffi_type \<Rightarrow> addr \<Rightarrow> memory \<Rightarrow> (addr \<times> addr) option" where
  "java_raw_read t raw m =
     (if java_wide (ft_type t) then Some (raw, raw + 16)
      else if ft_type t = FFI_TYPE_COMPLEX then None
      else Some (raw, raw + 8))"

definition java_raw_write :: "ffi_type \<Rightarrow> addr \<Rightarrow> addr \<Rightarrow> memory \<Rightarrow> (memory \<times> addr) option" where
  "java_raw_write t a raw m =
     (let put = (\<lambda>n k v. map_option (\<lambda>m. (m, raw + k)) (store m raw (le_bytes n v)));
          rd = (\<lambda>n. map_option le_word (load m a n));
          c = ft_type t
      in if c = FFI_TYPE_UINT8 then Option.bind (rd 1) (put 8 8)
         else if c = FFI_TYPE_SINT8 then Option.bind (rd 1) (\<lambda>x. put 8 8 (signed_take_bit 7 x))
         else if c = FFI_TYPE_UINT16 then Option.bind (rd 2) (put 8 8)
         else if c = FFI_TYPE_SINT16 then Option.bind (rd 2) (\<lambda>x. put 8 8 (signed_take_bit 15 x))
         else if c = FFI_TYPE_UINT32 then Option.bind (rd 4) (put 8 8)
         else if c = FFI_TYPE_SINT32 then Option.bind (rd 4) (\<lambda>x. put 8 8 (signed_take_bit 31 x))
         else if c = FFI_TYPE_FLOAT then Option.bind (rd 4) (put 4 8)
         else if java_wide c then Option.bind (rd 8) (put 8 16)
         else if c = FFI_TYPE_POINTER then Option.bind (rd 8) (put 8 8)
         else Some (m, raw))"

section \<open>The loops\<close>

fun read_args :: "(ffi_type \<Rightarrow> addr \<Rightarrow> memory \<Rightarrow> (addr \<times> addr) option)
     \<Rightarrow> 'a mem_world_scheme \<Rightarrow> addr list \<Rightarrow> addr \<Rightarrow> addr list option" where
  "read_args step w [] raw = Some []"
| "read_args step w (p # tp) raw = do {
     t \<leftarrow> types w p;
     (a, raw) \<leftarrow> step t raw (mem w);
     args \<leftarrow> read_args step w tp raw;
     Some (a # args)
   }"

fun write_args :: "(ffi_type \<Rightarrow> addr \<Rightarrow> addr \<Rightarrow> memory \<Rightarrow> (memory \<times> addr) option)
     \<Rightarrow> 'a mem_world_scheme \<Rightarrow> addr list \<Rightarrow> addr list \<Rightarrow> addr \<Rightarrow> 'a mem_world_scheme option" where
  "write_args step w [] args raw = Some w"
| "write_args step w (p # tp) [] raw = None"
| "write_args step w (p # tp) (a # args) raw = do {
     t \<leftarrow> types w p;
     (m, raw) \<leftarrow> step t a raw (mem w);
     write_args step (w\<lparr>mem := m\<rparr>) tp args raw
   }"

definition ffi_raw_to_ptrarray :: "ffi_cif \<Rightarrow> addr \<Rightarrow> 'a mem_world_scheme \<Rightarrow> addr list option" where
  "ffi_raw_to_ptrarray cif raw w =
     Option.bind (read_ptrs w (cif_arg_types cif) (unat (cif_nargs cif))) (\<lambda>tp. read_args raw_read w tp raw)"

definition ffi_ptrarray_to_raw :: "ffi_cif \<Rightarrow> addr list \<Rightarrow> addr \<Rightarrow> 'a mem_world_scheme \<Rightarrow> 'a mem_world_scheme option" where
  "ffi_ptrarray_to_raw cif args raw w =
     Option.bind (read_ptrs w (cif_arg_types cif) (unat (cif_nargs cif))) (\<lambda>tp. write_args raw_write w tp args raw)"

definition ffi_java_raw_to_ptrarray :: "ffi_cif \<Rightarrow> addr \<Rightarrow> 'a mem_world_scheme \<Rightarrow> addr list option" where
  "ffi_java_raw_to_ptrarray cif raw w =
     Option.bind (read_ptrs w (cif_arg_types cif) (unat (cif_nargs cif))) (\<lambda>tp. read_args java_raw_read w tp raw)"

definition ffi_java_ptrarray_to_raw :: "ffi_cif \<Rightarrow> addr list \<Rightarrow> addr \<Rightarrow> 'a mem_world_scheme \<Rightarrow> 'a mem_world_scheme option" where
  "ffi_java_ptrarray_to_raw cif args raw w =
     Option.bind (read_ptrs w (cif_arg_types cif) (unat (cif_nargs cif))) (\<lambda>tp. write_args java_raw_write w tp args raw)"

fun raw_size_loop :: "'a type_world_scheme \<Rightarrow> addr list \<Rightarrow> size_t \<Rightarrow> size_t option" where
  "raw_size_loop w [] result = Some result"
| "raw_size_loop w (p # at) result = do {
     t \<leftarrow> types w p;
     raw_size_loop w at (result + (if ft_type t = FFI_TYPE_STRUCT then FFI_ALIGN 8 8 else FFI_ALIGN (ft_size t) 8))
   }"

definition ffi_raw_size :: "ffi_cif \<Rightarrow> 'a type_world_scheme \<Rightarrow> size_t option" where
  "ffi_raw_size cif w =
     Option.bind (read_ptrs w (cif_arg_types cif) (nat (sint (cif_nargs cif)))) (\<lambda>at. raw_size_loop w at 0)"

fun java_raw_size_loop :: "'a type_world_scheme \<Rightarrow> addr list \<Rightarrow> size_t \<Rightarrow> size_t option" where
  "java_raw_size_loop w [] result = Some result"
| "java_raw_size_loop w (p # at) result = do {
     t \<leftarrow> types w p;
     if java_wide (ft_type t) then java_raw_size_loop w at (result + 16)
     else if ft_type t = FFI_TYPE_STRUCT \<or> ft_type t = FFI_TYPE_COMPLEX then None
     else java_raw_size_loop w at (result + 8)
   }"

definition ffi_java_raw_size :: "ffi_cif \<Rightarrow> 'a type_world_scheme \<Rightarrow> size_t option" where
  "ffi_java_raw_size cif w =
     Option.bind (read_ptrs w (cif_arg_types cif) (nat (sint (cif_nargs cif)))) (\<lambda>at. java_raw_size_loop w at 0)"

section \<open>Calls and closures\<close>

definition ffi_raw_call ::
  "'a mem_world_scheme native
     \<Rightarrow> (ffi_cif \<Rightarrow> addr \<Rightarrow> addr \<Rightarrow> addr list \<Rightarrow> 'a mem_world_scheme \<Rightarrow> 'a mem_world_scheme option)
     \<Rightarrow> nat \<Rightarrow> ffi_cif \<Rightarrow> addr \<Rightarrow> addr \<Rightarrow> addr \<Rightarrow> 'a mem_world_scheme \<Rightarrow> 'a mem_world_scheme option"
where
  "ffi_raw_call native efi64 fuel cif fn rvalue raw w = do {
     w1 \<leftarrow> Some (snd (alloca (8 * unat (cif_nargs cif)) w));
     avalue \<leftarrow> ffi_raw_to_ptrarray cif raw w1;
     w2 \<leftarrow> ffi_call native efi64 fuel cif fn rvalue avalue w1;
     Some (w2\<lparr>stack_top := stack_top w\<rparr>)
   }"

text \<open>\<open>ffi_java_rvalue_to_raw\<close> and \<open>ffi_java_raw_to_rvalue\<close> only act on big-endian machines.\<close>

definition ffi_java_raw_call ::
  "'a mem_world_scheme native
     \<Rightarrow> (ffi_cif \<Rightarrow> addr \<Rightarrow> addr \<Rightarrow> addr list \<Rightarrow> 'a mem_world_scheme \<Rightarrow> 'a mem_world_scheme option)
     \<Rightarrow> nat \<Rightarrow> ffi_cif \<Rightarrow> addr \<Rightarrow> addr \<Rightarrow> addr \<Rightarrow> 'a mem_world_scheme \<Rightarrow> 'a mem_world_scheme option"
where
  "ffi_java_raw_call native efi64 fuel cif fn rvalue raw w = do {
     w1 \<leftarrow> Some (snd (alloca (8 * unat (cif_nargs cif)) w));
     avalue \<leftarrow> ffi_java_raw_to_ptrarray cif raw w1;
     w2 \<leftarrow> ffi_call native efi64 fuel cif fn rvalue avalue w1;
     Some (w2\<lparr>stack_top := stack_top w\<rparr>)
   }"

text \<open>\<open>ffi_raw_closure\<close>: an \<open>ffi_closure\<close> whose function is the translation and whose user data is the
  closure itself, followed by the function of the raw interface and its user data.\<close>

fun load_args :: "memory \<Rightarrow> addr \<Rightarrow> nat \<Rightarrow> addr list option" where
  "load_args m args 0 = Some []"
| "load_args m args (Suc n) = do {
     a \<leftarrow> load m args 8;
     as \<leftarrow> load_args m (args + 8) n;
     Some (le_word a # as)
   }"

definition ffi_translate_args :: "'a ctx_world_scheme closure_fun
     \<Rightarrow> addr \<Rightarrow> addr \<Rightarrow> addr \<Rightarrow> addr \<Rightarrow> 'a ctx_world_scheme \<Rightarrow> 'a ctx_world_scheme option" where
  "ffi_translate_args call cif rvalue avalue user_data w = do {
     c \<leftarrow> cif_at cif w;
     size \<leftarrow> ffi_raw_size c w;
     (raw, w1) \<leftarrow> Some (alloca (unat size) w);
     args \<leftarrow> load_args (mem w1) avalue (unat (cif_nargs c));
     w2 \<leftarrow> ffi_ptrarray_to_raw c args raw w1;
     fn \<leftarrow> load (mem w2) (user_data + 56) 8;
     ud \<leftarrow> load (mem w2) (user_data + 64) 8;
     w3 \<leftarrow> call (le_word fn) cif rvalue raw (le_word ud) w2;
     Some (w3\<lparr>stack_top := stack_top w\<rparr>)
   }"

definition ffi_java_translate_args :: "'a ctx_world_scheme closure_fun
     \<Rightarrow> addr \<Rightarrow> addr \<Rightarrow> addr \<Rightarrow> addr \<Rightarrow> 'a ctx_world_scheme \<Rightarrow> 'a ctx_world_scheme option" where
  "ffi_java_translate_args call cif rvalue avalue user_data w = do {
     c \<leftarrow> cif_at cif w;
     size \<leftarrow> ffi_java_raw_size c w;
     (raw, w1) \<leftarrow> Some (alloca (unat size) w);
     args \<leftarrow> load_args (mem w1) avalue (unat (cif_nargs c));
     w2 \<leftarrow> ffi_java_ptrarray_to_raw c args raw w1;
     fn \<leftarrow> load (mem w2) (user_data + 56) 8;
     ud \<leftarrow> load (mem w2) (user_data + 64) 8;
     w3 \<leftarrow> call (le_word fn) cif rvalue raw (le_word ud) w2;
     Some (w3\<lparr>stack_top := stack_top w\<rparr>)
   }"

record raw_link = link +
  at_translate_args :: addr
  at_java_translate_args :: addr

definition ffi_prep_raw_closure_loc :: "raw_link \<Rightarrow> addr \<Rightarrow> addr \<Rightarrow> addr \<Rightarrow> addr \<Rightarrow> addr
     \<Rightarrow> 'a ctx_world_scheme \<Rightarrow> (ffi_status \<times> 'a ctx_world_scheme) option" where
  "ffi_prep_raw_closure_loc lk cl cif fn user_data codeloc w = do {
     (status, w1) \<leftarrow> ffi_prep_closure_loc (link.truncate lk) cl cif (at_translate_args lk) codeloc w;
     if status = FFI_OK
     then do {
       m1 \<leftarrow> store (mem w1) (cl + 56) (le_bytes 8 fn);
       m2 \<leftarrow> store m1 (cl + 64) (le_bytes 8 user_data);
       Some (status, w1\<lparr>mem := m2\<rparr>)
     }
     else Some (status, w1)
   }"

definition ffi_prep_java_raw_closure_loc :: "raw_link \<Rightarrow> addr \<Rightarrow> addr \<Rightarrow> addr \<Rightarrow> addr \<Rightarrow> addr
     \<Rightarrow> 'a ctx_world_scheme \<Rightarrow> (ffi_status \<times> 'a ctx_world_scheme) option" where
  "ffi_prep_java_raw_closure_loc lk cl cif fn user_data codeloc w = do {
     (status, w1) \<leftarrow> ffi_prep_closure_loc (link.truncate lk) cl cif (at_java_translate_args lk) codeloc w;
     if status = FFI_OK
     then do {
       m1 \<leftarrow> store (mem w1) (cl + 56) (le_bytes 8 fn);
       m2 \<leftarrow> store m1 (cl + 64) (le_bytes 8 user_data);
       Some (status, w1\<lparr>mem := m2\<rparr>)
     }
     else Some (status, w1)
   }"

definition ffi_prep_raw_closure :: "raw_link \<Rightarrow> addr \<Rightarrow> addr \<Rightarrow> addr \<Rightarrow> addr
     \<Rightarrow> 'a ctx_world_scheme \<Rightarrow> (ffi_status \<times> 'a ctx_world_scheme) option" where
  "ffi_prep_raw_closure lk cl cif fn user_data w = ffi_prep_raw_closure_loc lk cl cif fn user_data cl w"

definition ffi_prep_java_raw_closure :: "raw_link \<Rightarrow> addr \<Rightarrow> addr \<Rightarrow> addr \<Rightarrow> addr
     \<Rightarrow> 'a ctx_world_scheme \<Rightarrow> (ffi_status \<times> 'a ctx_world_scheme) option" where
  "ffi_prep_java_raw_closure lk cl cif fn user_data w = ffi_prep_java_raw_closure_loc lk cl cif fn user_data cl w"

text \<open>The functions closures call: the two translations, or any other.\<close>

definition raw_closure_fun :: "raw_link \<Rightarrow> 'a ctx_world_scheme closure_fun \<Rightarrow> 'a ctx_world_scheme closure_fun" where
  "raw_closure_fun lk call fn =
     (if fn = at_translate_args lk then ffi_translate_args call
      else if fn = at_java_translate_args lk then ffi_java_translate_args call
      else call fn)"

section \<open>Argument lists survive the packing\<close>

text \<open>The arguments as the caller has them: at \<open>as\<close> the bytes \<open>bss\<close>.\<close>

fun holds_args :: "memory \<Rightarrow> ffi_type list \<Rightarrow> addr list \<Rightarrow> byte list list \<Rightarrow> bool" where
  "holds_args m [] as bss \<longleftrightarrow> as = [] \<and> bss = []"
| "holds_args m (t # ts) as bss \<longleftrightarrow>
     (case (as, bss) of (a # as, bs # bss) \<Rightarrow> load m a (unat (ft_size t)) = Some bs \<and> holds_args m ts as bss | _ \<Rightarrow> False)"

fun args_span :: "ffi_type list \<Rightarrow> addr list \<Rightarrow> addr set" where
  "args_span (t # ts) (a # as) = span a (unat (ft_size t)) \<union> args_span ts as"
| "args_span _ _ = {}"

lemma holds_args_cong: "(\<And>x. x \<in> args_span ts as \<Longrightarrow> m' x = m x) \<Longrightarrow> holds_args m ts as bss \<Longrightarrow> holds_args m' ts as bss"
proof (induction m ts as bss rule: holds_args.induct)
  case (2 m t ts as bss)
  then obtain a as' bs bss' where e: "as = a # as'" "bss = bs # bss'" by (auto split: list.splits)
  have "load m' a (unat (ft_size t)) = load m a (unat (ft_size t))" by (rule load_cong) (use 2(2) e in simp)
  moreover have "holds_args m' ts as' bss'" by (rule 2(1) [OF refl e]) (use 2(2,3) e in auto)
  ultimately show ?case using 2(3) by (simp add: e)
qed simp

text \<open>A format: what packing and finding one argument promise, for the types the format supports.\<close>

locale raw_format =
  fixes enc :: "ffi_type \<Rightarrow> addr \<Rightarrow> addr \<Rightarrow> memory \<Rightarrow> (memory \<times> addr) option"
    and dec :: "ffi_type \<Rightarrow> addr \<Rightarrow> memory \<Rightarrow> (addr \<times> addr) option"
    and width :: "ffi_type \<Rightarrow> nat"
    and ok :: "ffi_type \<Rightarrow> bool"
  assumes enc_ok: "ok t \<Longrightarrow> load m a (unat (ft_size t)) = Some bs \<Longrightarrow> span raw (width t) \<subseteq> dom m
      \<Longrightarrow> \<exists>m'. enc t a raw m = Some (m', raw + of_nat (width t)) \<and> dom m' = dom m
         \<and> (\<forall>x. x \<notin> span raw (width t) \<longrightarrow> m' x = m x)"
    and dec_ok: "ok t \<Longrightarrow> load m a (unat (ft_size t)) = Some bs \<Longrightarrow> enc t a raw m = Some (m', r)
      \<Longrightarrow> (\<And>x. x \<in> span raw (width t) \<Longrightarrow> m2 x = m' x) \<Longrightarrow> (\<And>x. x \<in> span a (unat (ft_size t)) \<Longrightarrow> m2 x = m x)
      \<Longrightarrow> \<exists>a'. dec t raw m2 = Some (a', raw + of_nat (width t)) \<and> load m2 a' (unat (ft_size t)) = Some bs"
begin

definition total :: "ffi_type list \<Rightarrow> nat" where
  "total ts = (\<Sum>t\<leftarrow>ts. width t)"

lemma total_simps [simp]: "total [] = 0" "total (t # ts) = width t + total ts"
  by (simp_all add: total_def)

lemma pack_unpack:
  fixes w :: "'a mem_world_scheme"
  assumes "list_all2 (\<lambda>p t. T p = Some t \<and> ok t) ps ts" and "types w = T" and "holds_args (mem w) ts as bss"
    and "span raw (total ts) \<subseteq> dom (mem w)" and "args_span ts as \<inter> span raw (total ts) = {}" and "total ts \<le> 2 ^ 64"
  shows "\<exists>w'. write_args enc w ps as raw = Some w' \<and> w' = w\<lparr>mem := mem w'\<rparr> \<and> dom (mem w') = dom (mem w)
    \<and> (\<forall>x. x \<notin> span raw (total ts) \<longrightarrow> mem w' x = mem w x)
    \<and> (\<forall>w2 :: 'a mem_world_scheme. types w2 = T \<and> (\<forall>x \<in> span raw (total ts) \<union> args_span ts as. mem w2 x = mem w' x)
         \<longrightarrow> (\<exists>as'. read_args dec w2 ps raw = Some as' \<and> holds_args (mem w2) ts as' bss))"
  using assms
proof (induction ps ts arbitrary: w as bss raw rule: list_all2_induct)
  case Nil
  then show ?case by (intro exI [of _ w]) (simp add: total_def)
next
  case (Cons p ps t ts)
  from Cons.prems(2) obtain a as1 bs bss1 where e: "as = a # as1" "bss = bs # bss1"
    and h: "load (mem w) a (unat (ft_size t)) = Some bs" "holds_args (mem w) ts as1 bss1" by (auto split: list.splits)
  have t: "types w p = Some t" "T p = Some t" "ok t" using Cons.hyps(1) Cons.prems(1) by auto
  define k where "k = width t"
  define raw1 where "raw1 = raw + of_nat k"
  have tot: "total (t # ts) = k + total ts" by (simp add: total_def k_def)
  have sp: "span raw (total (t # ts)) = span raw k \<union> span raw1 (total ts)" unfolding tot raw1_def by (rule span_append)
  have apart: "span raw k \<inter> span raw1 (total ts) = {}"
    unfolding raw1_def by (rule span_apart) (use Cons.prems(5) tot in simp_all)
  obtain m where m: "enc t a raw (mem w) = Some (m, raw1)" "dom m = dom (mem w)" "\<forall>x. x \<notin> span raw k \<longrightarrow> m x = mem w x"
    using enc_ok [OF t(3) h(1), of raw] Cons.prems(3) unfolding sp k_def raw1_def by blast
  let ?v = "w\<lparr>mem := m\<rparr>"
  have hv: "holds_args (mem ?v) ts as1 bss1"
    using holds_args_cong [OF _ h(2), of m] m(3) Cons.prems(4) unfolding sp e by auto
  have s: "span raw1 (total ts) \<subseteq> dom (mem ?v)" "args_span ts as1 \<inter> span raw1 (total ts) = {}" "total ts \<le> 2 ^ 64"
    using Cons.prems(3-5) m(2) tot unfolding sp e by auto
  obtain w' where w': "write_args enc ?v ps as1 raw1 = Some w'" "w' = ?v\<lparr>mem := mem w'\<rparr>" "dom (mem w') = dom m"
    "\<forall>x. x \<notin> span raw1 (total ts) \<longrightarrow> mem w' x = m x"
    "\<forall>w2 :: 'a mem_world_scheme. types w2 = T \<and> (\<forall>x \<in> span raw1 (total ts) \<union> args_span ts as1. mem w2 x = mem w' x)
       \<longrightarrow> (\<exists>as'. read_args dec w2 ps raw1 = Some as' \<and> holds_args (mem w2) ts as' bss1)"
    using Cons.IH [OF _ hv s] Cons.prems(1) m(2) by auto
  have "\<exists>as'. read_args dec w2 (p # ps) raw = Some as' \<and> holds_args (mem w2) (t # ts) as' bss"
    if w2: "types w2 = T" "\<forall>x \<in> span raw (total (t # ts)) \<union> args_span (t # ts) as. mem w2 x = mem w' x" for w2 :: "'a mem_world_scheme"
  proof -
    have "mem w2 x = m x" if "x \<in> span raw k" for x
    proof -
      have "x \<in> span raw (total (t # ts))" "x \<notin> span raw1 (total ts)" using that apart unfolding sp by blast+
      then show ?thesis using w2(2) w'(4) by simp
    qed
    moreover have "mem w2 x = mem w x" if "x \<in> span a (unat (ft_size t))" for x
    proof -
      have x: "x \<in> args_span (t # ts) as" using that by (simp add: e)
      then have "x \<notin> span raw k" "x \<notin> span raw1 (total ts)" using Cons.prems(4) unfolding sp by blast+
      then show ?thesis using w2(2) x w'(4) m(3) by simp
    qed
    ultimately obtain a' where a': "dec t raw (mem w2) = Some (a', raw1)" "load (mem w2) a' (unat (ft_size t)) = Some bs"
      using dec_ok [OF t(3) h(1) m(1), of "mem w2"] unfolding k_def raw1_def by blast
    obtain as' where "read_args dec w2 ps raw1 = Some as'" "holds_args (mem w2) ts as' bss1"
      using w'(5) w2 unfolding sp e by auto
    with a' t(2) w2(1) show ?thesis by (simp add: e)
  qed
  moreover have "write_args enc w (p # ps) as raw = Some w'" using t(1) m(1) w'(1) by (simp add: e)
  moreover have "w' = w\<lparr>mem := mem w'\<rparr>" using w'(2) by simp
  ultimately show ?case using w'(3,4) m(2,3) unfolding sp by (intro exI [of _ w']) simp
qed

text \<open>A block of the right size from \<open>alloca\<close>, away from the arguments.\<close>

lemma alloca_pack:
  fixes w :: "'a mem_world_scheme"
  assumes ts: "list_all2 (\<lambda>p t. types w p = Some t \<and> ok t) ps ts" and h: "holds_args (mem w) ts as bss"
    and al: "alloca (total ts) w = (raw, w1)" and room: "lo + total ts + 16 \<le> unat (stack_top w)"
    and clear: "\<forall>x \<in> args_span ts as. clear_of lo (unat (stack_top w)) x"
  shows "\<exists>w2 as'. write_args enc w1 ps as raw = Some w2 \<and> grows lo w w2 \<and> stack_top w2 = raw
     \<and> read_args dec w2 ps raw = Some as' \<and> holds_args (mem w2) ts as' bss"
proof -
  note g = alloca_grows [OF al room]
  have top: "unat (stack_top w) < 2 ^ 64" by (rule unat_bound)
  have raw: "lo \<le> unat raw" using g(3) room by simp
  have sp: "x \<in> span raw (total ts) \<longleftrightarrow> unat raw \<le> unat x \<and> unat x < unat raw + total ts" for x
    by (rule span_interval) (use g(2) top in simp)
  have out: "x \<notin> span raw (total ts)" if "clear_of lo (unat (stack_top w)) x" for x
    using that raw g(2) unfolding clear_of_def sp by auto
  have same: "mem w1 x = mem w x" if "clear_of lo (unat (stack_top w)) x" for x
    using g(1) that unfolding grows_def by blast
  have h1: "holds_args (mem w1) ts as bss" by (rule holds_args_cong [OF _ h]) (use same clear in blast)
  have s1: "span raw (total ts) \<subseteq> dom (mem w1)" by (simp add: g(5) map_block_dom)
  have s2: "args_span ts as \<inter> span raw (total ts) = {}" using out clear by blast
  have s3: "total ts \<le> 2 ^ 64" using g(2) top by simp
  obtain w2 where w2: "write_args enc w1 ps as raw = Some w2" "w2 = w1\<lparr>mem := mem w2\<rparr>"
    "\<forall>x. x \<notin> span raw (total ts) \<longrightarrow> mem w2 x = mem w1 x"
    "\<forall>u :: 'a mem_world_scheme. types u = types w \<and> (\<forall>x \<in> span raw (total ts) \<union> args_span ts as. mem u x = mem w2 x)
       \<longrightarrow> (\<exists>as'. read_args dec u ps raw = Some as' \<and> holds_args (mem u) ts as' bss)"
    using pack_unpack [OF ts grows_frame(1) [OF g(1)] h1 s1 s2 s3] by (elim exE conjE) (rule that; assumption)
  obtain T k where w1: "w1 = w\<lparr>stack_top := T, mem := k\<rparr>" using g(1) unfolding grows_def by blast
  obtain k2 where "w2 = w1\<lparr>mem := k2\<rparr>" using w2(2) by blast
  then have e: "w2 = w\<lparr>stack_top := raw, mem := k2\<rparr>" using w1 g(4) by simp
  have "mem w2 x = mem w x" if "clear_of lo (unat (stack_top w)) x" for x using w2(3) same [OF that] out [OF that] by simp
  then have gr: "grows lo w w2" using raw g(2) by (simp add: grows_def e)
  have "stack_top w2 = raw" by (simp add: e)
  moreover have "\<exists>as'. read_args dec w2 ps raw = Some as' \<and> holds_args (mem w2) ts as' bss"
    using w2(4) grows_frame(1) [OF gr] by blast
  ultimately show ?thesis using w2(1) gr by blast
qed

end

section \<open>The two formats\<close>

definition sized_code :: "u16 \<Rightarrow> nat" where
  "sized_code c =
     (if c = FFI_TYPE_UINT8 \<or> c = FFI_TYPE_SINT8 then 1
      else if c = FFI_TYPE_UINT16 \<or> c = FFI_TYPE_SINT16 then 2
      else if c = FFI_TYPE_UINT32 \<or> c = FFI_TYPE_SINT32 \<or> c = FFI_TYPE_FLOAT then 4
      else if c = FFI_TYPE_UINT64 \<or> c = FFI_TYPE_SINT64 \<or> c = FFI_TYPE_DOUBLE \<or> c = FFI_TYPE_POINTER then 8
      else 0)"

text \<open>The raw format takes every type whose size fits its code; the Java format the types of Java.\<close>

definition raw_ok :: "ffi_type \<Rightarrow> bool" where
  "raw_ok t \<longleftrightarrow> ft_size t < 2 ^ 63 \<and> (sized_code (ft_type t) \<noteq> 0 \<longrightarrow> unat (ft_size t) = sized_code (ft_type t))"

definition raw_width :: "ffi_type \<Rightarrow> nat" where
  "raw_width t = (if ft_type t = FFI_TYPE_STRUCT \<or> ft_type t = FFI_TYPE_COMPLEX then 8 else align_up (unat (ft_size t)) 8)"

definition java_ok :: "ffi_type \<Rightarrow> bool" where
  "java_ok t \<longleftrightarrow> sized_code (ft_type t) \<noteq> 0 \<and> unat (ft_size t) = sized_code (ft_type t)"

definition java_width :: "ffi_type \<Rightarrow> nat" where
  "java_width t = (if java_wide (ft_type t) then 16 else 8)"

lemma slot_step: "s < 2 ^ 63 \<Longrightarrow> 8 * (FFI_ALIGN s 8 div 8) = (of_nat (align_up (unat s) 8) :: addr)"
proof -
  assume s: "s < 2 ^ 63"
  then have b: "unat s < 2 ^ 63" by (simp add: word_less_nat_alt)
  have u: "unat (FFI_ALIGN s 8) = align_up (unat s) 8" using unat_FFI_ALIGN [of 3 8 s] b by simp
  have "(8 :: nat) dvd align_up (unat s) 8" by simp
  then have "unat (8 * (FFI_ALIGN s 8 div 8)) = unat (FFI_ALIGN s 8)"
    using unat_bound [of "FFI_ALIGN s 8"] u by (simp add: unat_word_ariths unat_div)
  then show ?thesis using u by (metis of_nat_unat ucast_id)
qed

text \<open>What is stored for an argument with the bytes \<open>bs\<close>: the address of a struct, or bytes that begin with \<open>bs\<close>.\<close>

definition packed :: "ffi_type \<Rightarrow> addr \<Rightarrow> byte list \<Rightarrow> byte list \<Rightarrow> bool" where
  "packed t a bs out \<longleftrightarrow> take (unat (ft_size t)) out = bs \<and> unat (ft_size t) \<le> length out"

lemma raw_write_bytes:
  assumes t: "raw_ok t" and l: "load m a (unat (ft_size t)) = Some bs"
  shows "\<exists>out. raw_write t a raw m = map_option (\<lambda>m. (m, raw + of_nat (raw_width t))) (store m raw out) \<and> length out \<le> raw_width t
     \<and> (if ft_type t = FFI_TYPE_STRUCT \<or> ft_type t = FFI_TYPE_COMPLEX then out = le_bytes 8 a else packed t a bs out)"
proof -
  have len: "length bs = unat (ft_size t)" using l load_length by blast
  have le: "unat (ft_size t) \<le> align_up (unat (ft_size t)) 8" by (rule align_up_ge) simp
  have word: "packed t a bs (le_bytes 8 (le_word bs))" "packed t a bs (le_bytes 8 (signed_take_bit k (le_word bs)))"
    if "unat (ft_size t) \<le> 8" "8 * unat (ft_size t) \<le> Suc k" for k
    using that len le_bytes_le_word [of bs] by (simp_all add: packed_def take_le_bytes le_bytes_sext)
  have one: "align_up n 8 = 8" if "0 < n" "n \<le> 8" for n
    using that by (simp add: align_up_def div_nat_eqI)
  have s: "sized_code (ft_type t) \<noteq> 0 \<Longrightarrow> unat (ft_size t) = sized_code (ft_type t)" "ft_size t < 2 ^ 63" using t by (simp_all add: raw_ok_def)
  note defs = raw_write_def raw_width_def Let_def map_conv_bind_option comp_def
  consider "ft_type t \<in> {FFI_TYPE_STRUCT, FFI_TYPE_COMPLEX}" | "ft_type t \<in> {FFI_TYPE_UINT8, FFI_TYPE_UINT16, FFI_TYPE_UINT32, FFI_TYPE_POINTER}"
    | "ft_type t = FFI_TYPE_SINT8" | "ft_type t = FFI_TYPE_SINT16" | "ft_type t = FFI_TYPE_SINT32"
    | "ft_type t \<notin> {5, 6, 7, 8, 9, 10, 13, 14, 15}" by fastforce
  then show ?thesis
  proof cases
    case 1
    then show ?thesis by (intro exI [of _ "le_bytes 8 a"]) (auto simp: defs)
  next
    case 2
    have "unat (ft_size t) \<le> 8" "0 < unat (ft_size t)" using 2 s(1) by (auto simp: sized_code_def)
    moreover have "raw_write t a raw m = map_option (\<lambda>m. (m, raw + 8)) (store m raw (le_bytes 8 (le_word bs)))"
      using 2 s(1) l by (auto simp: defs sized_code_def simp del: load.simps)
    moreover have "raw_width t = align_up (unat (ft_size t)) 8" using 2 by (auto simp: raw_width_def)
    ultimately show ?thesis using 2 one [of "unat (ft_size t)"] word(1) [of 64] by (intro exI [of _ "le_bytes 8 (le_word bs)"]) auto
  next
    case 3
    then show ?thesis using s(1) l one [of 1] word(2) [of 7]
      by (intro exI [of _ "le_bytes 8 (signed_take_bit 7 (le_word bs))"]) (simp add: defs sized_code_def del: load.simps)
  next
    case 4
    then show ?thesis using s(1) l one [of 2] word(2) [of 15]
      by (intro exI [of _ "le_bytes 8 (signed_take_bit 15 (le_word bs))"]) (simp add: defs sized_code_def del: load.simps)
  next
    case 5
    then show ?thesis using s(1) l one [of 4] word(2) [of 31]
      by (intro exI [of _ "le_bytes 8 (signed_take_bit 31 (le_word bs))"]) (simp add: defs sized_code_def del: load.simps)
  next
    case 6
    then show ?thesis using l len le slot_step [OF s(2)] by (intro exI [of _ bs]) (simp add: defs packed_def)
  qed
qed

text \<open>Both laws of a format follow from such a description.\<close>

lemma store_block:
  assumes "span p n \<subseteq> dom m" and "length bs \<le> n" and "length bs \<le> 2 ^ 64"
  shows "\<exists>m'. store m p bs = Some m' \<and> dom m' = dom m \<and> (\<forall>x. x \<notin> span p n \<longrightarrow> m' x = m x)"
proof -
  have s: "span p (length bs) \<subseteq> span p n" using assms(2) by (rule span_mono)
  with assms(1) obtain m' where m': "store m p bs = Some m'" using store_defined by blast
  have "m' x = m x" if "x \<notin> span p n" for x using store_outside [OF m'] that s by blast
  then show ?thesis using m' store_dom [OF m'] by blast
qed

lemma packed_found:
  assumes m': "store m raw out = Some m'" and p: "packed t a bs out" "length out \<le> n" "n \<le> 2 ^ 64"
    and m2: "\<And>x. x \<in> span raw n \<Longrightarrow> m2 x = m' x"
  shows "load m2 raw (unat (ft_size t)) = Some bs"
proof -
  have "load m' raw (length out) = Some out" using load_store_same [OF m'] p(2,3) by simp
  then have "load m' raw (unat (ft_size t)) = Some bs" using p(1) load_prefix by (fastforce simp: packed_def)
  moreover have "load m2 raw (unat (ft_size t)) = load m' raw (unat (ft_size t))"
    by (rule load_cong) (use m2 p span_mono [of "unat (ft_size t)" n raw] in \<open>auto simp: packed_def\<close>)
  ultimately show ?thesis by simp
qed

interpretation raw: raw_format raw_write raw_read raw_width raw_ok
proof
  fix t :: ffi_type and m m2 m' :: memory and a raw r :: addr and bs
  assume t: "raw_ok t" and l: "load m a (unat (ft_size t)) = Some bs"
  have w: "raw_width t \<le> 2 ^ 64"
    using t align_up_less [of 8 "unat (ft_size t)"] by (simp add: raw_ok_def raw_width_def word_less_nat_alt)
  obtain out where out: "raw_write t a raw m = map_option (\<lambda>m. (m, raw + of_nat (raw_width t))) (store m raw out)"
    "length out \<le> raw_width t" "if ft_type t = FFI_TYPE_STRUCT \<or> ft_type t = FFI_TYPE_COMPLEX then out = le_bytes 8 a else packed t a bs out"
    using raw_write_bytes [OF t l] by blast
  show "\<exists>m'. raw_write t a raw m = Some (m', raw + of_nat (raw_width t)) \<and> dom m' = dom m
      \<and> (\<forall>x. x \<notin> span raw (raw_width t) \<longrightarrow> m' x = m x)" if "span raw (raw_width t) \<subseteq> dom m"
    using store_block [OF that out(2)] out(1,2) w by fastforce
  assume "raw_write t a raw m = Some (m', r)" and m2: "\<And>x. x \<in> span raw (raw_width t) \<Longrightarrow> m2 x = m' x"
    "\<And>x. x \<in> span a (unat (ft_size t)) \<Longrightarrow> m2 x = m x"
  then have m': "store m raw out = Some m'" using out(1) by auto
  show "\<exists>a'. raw_read t raw m2 = Some (a', raw + of_nat (raw_width t)) \<and> load m2 a' (unat (ft_size t)) = Some bs"
  proof (cases "ft_type t = FFI_TYPE_STRUCT \<or> ft_type t = FFI_TYPE_COMPLEX")
    case True
    then have o: "out = le_bytes 8 a" "raw_width t = 8" using out(3) by (simp_all add: raw_width_def)
    have "load m2 raw 8 = load m' raw 8" by (rule load_cong) (use m2(1) o in simp)
    also have "load m' raw 8 = Some (le_bytes 8 a)" using load_store_same [OF m'] o by simp
    finally have "raw_read t raw m2 = Some (a, raw + 8)" using True by (simp add: raw_read_def del: load.simps)
    moreover have "load m2 a (unat (ft_size t)) = load m a (unat (ft_size t))" by (rule load_cong) (use m2(2) in simp)
    ultimately show ?thesis using l o(2) by simp
  next
    case False
    have "raw_read t raw m2 = Some (raw, raw + of_nat (raw_width t))"
      using False slot_step [of "ft_size t"] t by (simp add: raw_read_def raw_width_def raw_ok_def)
    with packed_found [OF m' _ out(2) w, of t a bs] out(3) False m2(1) show ?thesis by auto
  qed
qed

lemma java_write_bytes:
  assumes t: "java_ok t" and l: "load m a (unat (ft_size t)) = Some bs"
  shows "\<exists>out. java_raw_write t a raw m = map_option (\<lambda>m. (m, raw + of_nat (java_width t))) (store m raw out)
     \<and> length out \<le> 8 \<and> packed t a bs out"
proof -
  have len: "length bs = unat (ft_size t)" using l load_length by blast
  have s: "unat (ft_size t) = sized_code (ft_type t)" "sized_code (ft_type t) \<noteq> 0" using t by (simp_all add: java_ok_def)
  have word: "packed t a bs (le_bytes n (le_word bs))" "packed t a bs (le_bytes n (signed_take_bit k (le_word bs)))"
    if "unat (ft_size t) \<le> n" "n \<le> 8" "8 * unat (ft_size t) \<le> Suc k" for k n
    using that len le_bytes_le_word [of bs] by (simp_all add: packed_def take_le_bytes le_bytes_sext)
  note defs = java_raw_write_def java_width_def java_wide_def Let_def map_conv_bind_option comp_def sized_code_def
  consider "ft_type t \<in> {FFI_TYPE_UINT8, FFI_TYPE_UINT16, FFI_TYPE_UINT32, FFI_TYPE_UINT64, FFI_TYPE_SINT64, FFI_TYPE_DOUBLE, FFI_TYPE_POINTER}"
    | "ft_type t = FFI_TYPE_FLOAT" | "ft_type t = FFI_TYPE_SINT8" | "ft_type t = FFI_TYPE_SINT16" | "ft_type t = FFI_TYPE_SINT32"
    using s(2) by (auto simp: sized_code_def split: if_splits)
  then show ?thesis
  proof cases
    case 1
    have "unat (ft_size t) \<le> 8" using 1 s(1) by (auto simp: sized_code_def)
    moreover have "java_raw_write t a raw m = map_option (\<lambda>m. (m, raw + of_nat (java_width t))) (store m raw (le_bytes 8 (le_word bs)))"
      using 1 s(1) l by (auto simp: defs simp del: load.simps)
    ultimately show ?thesis using word(1) [of 8 64] by (intro exI [of _ "le_bytes 8 (le_word bs)"]) simp
  next
    case 2
    then show ?thesis using s(1) l word(1) [of 4 64] by (intro exI [of _ "le_bytes 4 (le_word bs)"]) (simp add: defs del: load.simps)
  next
    case 3
    then show ?thesis using s(1) l word(2) [of 8 7]
      by (intro exI [of _ "le_bytes 8 (signed_take_bit 7 (le_word bs))"]) (simp add: defs del: load.simps)
  next
    case 4
    then show ?thesis using s(1) l word(2) [of 8 15]
      by (intro exI [of _ "le_bytes 8 (signed_take_bit 15 (le_word bs))"]) (simp add: defs del: load.simps)
  next
    case 5
    then show ?thesis using s(1) l word(2) [of 8 31]
      by (intro exI [of _ "le_bytes 8 (signed_take_bit 31 (le_word bs))"]) (simp add: defs del: load.simps)
  qed
qed

interpretation java: raw_format java_raw_write java_raw_read java_width java_ok
proof
  fix t :: ffi_type and m m2 m' :: memory and a raw r :: addr and bs
  assume t: "java_ok t" and l: "load m a (unat (ft_size t)) = Some bs"
  have w: "8 \<le> java_width t" "java_width t \<le> 2 ^ 64" by (simp_all add: java_width_def)
  obtain out where out: "java_raw_write t a raw m = map_option (\<lambda>m. (m, raw + of_nat (java_width t))) (store m raw out)"
    "length out \<le> 8" "packed t a bs out" using java_write_bytes [OF t l] by blast
  have le: "length out \<le> java_width t" using out(2) w(1) by simp
  show "\<exists>m'. java_raw_write t a raw m = Some (m', raw + of_nat (java_width t)) \<and> dom m' = dom m
      \<and> (\<forall>x. x \<notin> span raw (java_width t) \<longrightarrow> m' x = m x)" if "span raw (java_width t) \<subseteq> dom m"
    using store_block [OF that le] out(1,2) by fastforce
  assume "java_raw_write t a raw m = Some (m', r)" and m2: "\<And>x. x \<in> span raw (java_width t) \<Longrightarrow> m2 x = m' x"
  then have m': "store m raw out = Some m'" using out(1) by auto
  have "java_raw_read t raw m2 = Some (raw, raw + of_nat (java_width t))"
    using t by (auto simp: java_raw_read_def java_width_def java_ok_def sized_code_def java_wide_def split: if_splits)
  then show "\<exists>a'. java_raw_read t raw m2 = Some (a', raw + of_nat (java_width t)) \<and> load m2 a' (unat (ft_size t)) = Some bs"
    using packed_found [OF m' out(3) le w(2)] m2 by auto
qed

section \<open>The sizes and the translations\<close>

lemma raw_size_total:
  assumes "list_all2 (\<lambda>p t. T p = Some t \<and> raw_ok t \<and> ft_type t \<noteq> FFI_TYPE_COMPLEX) ps ts" and "types w = T"
  shows "raw_size_loop w ps r = Some (r + of_nat (raw.total ts))"
  using assms
proof (induction ps ts arbitrary: r rule: list_all2_induct)
  case (Cons p ps t ts)
  have "FFI_ALIGN (8 :: size_t) 8 = 8" by (simp add: FFI_ALIGN_def)
  moreover have "FFI_ALIGN (ft_size t) 8 = of_nat (align_up (unat (ft_size t)) 8)"
  proof -
    have "unat (ft_size t) < 2 ^ 63" using Cons.hyps(1) by (simp add: raw_ok_def word_less_nat_alt)
    then have "unat (FFI_ALIGN (ft_size t) 8) = align_up (unat (ft_size t)) 8" using unat_FFI_ALIGN [of 3 8 "ft_size t"] by simp
    then show ?thesis by (metis of_nat_unat ucast_id)
  qed
  moreover have "raw_width t = (if ft_type t = FFI_TYPE_STRUCT then 8 else align_up (unat (ft_size t)) 8)"
    using Cons.hyps(1) by (simp add: raw_width_def)
  ultimately show ?case using Cons.hyps(1) Cons.prems by (simp add: Cons.IH add.assoc)
qed simp

lemma java_size_total:
  assumes "list_all2 (\<lambda>p t. T p = Some t \<and> java_ok t) ps ts" and "types w = T"
  shows "java_raw_size_loop w ps r = Some (r + of_nat (java.total ts))"
  using assms
proof (induction ps ts arbitrary: r rule: list_all2_induct)
  case (Cons p ps t ts)
  have "ft_type t \<noteq> FFI_TYPE_STRUCT" "ft_type t \<noteq> FFI_TYPE_COMPLEX" using Cons.hyps(1) by (auto simp: java_ok_def sized_code_def)
  moreover have "java_width t = (if java_wide (ft_type t) then 16 else 8)" by (simp add: java_width_def)
  ultimately show ?case using Cons.hyps(1) Cons.prems by (simp add: Cons.IH add.assoc)
qed simp

lemma load_args_cong: "(\<And>x. x \<in> span p (8 * n) \<Longrightarrow> m' x = m x) \<Longrightarrow> load_args m' p n = load_args m p n"
proof (induction n arbitrary: p)
  case (Suc n)
  have s: "span p (8 * Suc n) = span p 8 \<union> span (p + 8) (8 * n)" using span_append [of p 8 "8 * n"] by simp
  have "load m' p 8 = load m p 8" by (rule load_cong) (use Suc.prems in \<open>simp only: s Un_iff simp_thms\<close>)
  moreover have "load_args m' (p + 8) n = load_args m (p + 8) n" by (rule Suc.IH) (use Suc.prems in \<open>simp only: s Un_iff simp_thms\<close>)
  ultimately show ?case by (simp del: load.simps)
qed simp

lemma nargs_of: "n < 2 ^ 31 \<Longrightarrow> unat (of_nat n :: u32) = n \<and> nat (sint (of_nat n :: u32)) = n"
  using unat_of_nat32 [of n] sint_of_nat32 [of n] by simp

text \<open>A raw closure's translation: the function of the raw interface gets a block in which
  \<open>ffi_raw_to_ptrarray\<close> finds every argument with the bytes the caller passed.\<close>

theorem translate_args_delivers:
  fixes w :: "'a ctx_world_scheme" and call :: "'a ctx_world_scheme closure_fun"
  assumes cif: "cif_at cif w = Some c" "cif_nargs c = of_nat (length ps)" "length ps < 2 ^ 31"
      "read_ptrs w (cif_arg_types c) (length ps) = Some ps"
    and ts: "list_all2 (\<lambda>p t. types w p = Some t \<and> raw_ok t \<and> ft_type t \<noteq> FFI_TYPE_COMPLEX) ps ts"
    and args: "load_args (mem w) avalue (length ps) = Some as" "holds_args (mem w) ts as bss"
    and cl: "load (mem w) (user_data + 56) 8 = Some (le_bytes 8 fn)" "load (mem w) (user_data + 64) 8 = Some (le_bytes 8 ud)"
    and clear: "\<forall>x \<in> args_span ts as \<union> span avalue (8 * length ps) \<union> span (user_data + 56) 8 \<union> span (user_data + 64) 8.
        clear_of lo (unat (stack_top w)) x"
    and room: "lo + raw.total ts + 16 \<le> unat (stack_top w)"
  shows "\<exists>raw m as'. (\<forall>a. clear_of lo (unat (stack_top w)) a \<longrightarrow> m a = mem w a)
     \<and> ffi_raw_to_ptrarray c raw (w\<lparr>stack_top := raw, mem := m\<rparr>) = Some as' \<and> holds_args m ts as' bss
     \<and> ffi_translate_args call cif rvalue avalue user_data w
        = map_option (\<lambda>w3. w3\<lparr>stack_top := stack_top w\<rparr>) (call fn cif rvalue raw ud (w\<lparr>stack_top := raw, mem := m\<rparr>))"
proof -
  note n = nargs_of [OF cif(3)]
  have "raw.total ts < 2 ^ 64" using room unat_bound [of "stack_top w"] by simp
  then have sz: "ffi_raw_size c w = Some (of_nat (raw.total ts))" "unat (of_nat (raw.total ts) :: size_t) = raw.total ts"
    using raw_size_total [OF ts refl, of 0] cif(2,4) n unat_of_nat64 by (simp_all add: ffi_raw_size_def)
  obtain raw w1 where al: "alloca (raw.total ts) w = (raw, w1)" by fastforce
  have ts': "list_all2 (\<lambda>p t. types w p = Some t \<and> raw_ok t) ps ts" using ts by (rule list.rel_mono_strong) simp
  obtain w2 as' where p: "write_args raw_write w1 ps as raw = Some w2" "grows lo w w2" "stack_top w2 = raw"
    "read_args raw_read w2 ps raw = Some as'" "holds_args (mem w2) ts as' bss"
    using raw.alloca_pack [OF ts' args(2) al room] clear by blast
  have g1: "grows lo w w1" by (rule alloca_grows(1) [OF al room])
  have same1: "mem w1 x = mem w x" and same2: "mem w2 x = mem w x" if "clear_of lo (unat (stack_top w)) x" for x
    using that g1 p(2) unfolding grows_def by blast+
  have la: "load_args (mem w1) avalue (length ps) = Some as"
    using load_args_cong [of avalue "length ps" "mem w1" "mem w"] args(1) same1 clear by simp
  have lf: "load (mem w2) (user_data + 56) 8 = Some (le_bytes 8 fn)" "load (mem w2) (user_data + 64) 8 = Some (le_bytes 8 ud)"
    using load_cong [of "user_data + 56" 8 "mem w2" "mem w"] load_cong [of "user_data + 64" 8 "mem w2" "mem w"] cl same2 clear by simp_all
  have rp: "read_ptrs w1 (cif_arg_types c) (length ps) = Some ps" "read_ptrs w2 (cif_arg_types c) (length ps) = Some ps"
    using cif(4) grows_read_ptrs [OF g1] grows_read_ptrs [OF p(2)] by simp_all
  obtain T k where "w2 = w\<lparr>stack_top := T, mem := k\<rparr>" using p(2) unfolding grows_def by blast
  then have w2: "w2 = w\<lparr>stack_top := raw, mem := mem w2\<rparr>" using p(3) by simp
  have pack: "ffi_ptrarray_to_raw c as raw w1 = Some w2" using rp(1) p(1) cif(2) n by (simp add: ffi_ptrarray_to_raw_def)
  have nu: "unat (cif_nargs c) = length ps" using cif(2) n by simp
  have "ffi_translate_args call cif rvalue avalue user_data w
      = map_option (\<lambda>w3. w3\<lparr>stack_top := stack_top w\<rparr>) (call fn cif rvalue raw ud w2)"
    unfolding ffi_translate_args_def
    by (simp add: cif(1) sz al la pack lf nu map_conv_bind_option comp_def del: load.simps)
  moreover have "ffi_raw_to_ptrarray c raw w2 = Some as'" using rp(2) p(4) cif(2) n by (simp add: ffi_raw_to_ptrarray_def)
  ultimately show ?thesis using same2 p(5) w2
    by (intro exI [of _ raw] exI [of _ "mem w2"] exI [of _ as']) simp
qed

theorem java_translate_args_delivers:
  fixes w :: "'a ctx_world_scheme" and call :: "'a ctx_world_scheme closure_fun"
  assumes cif: "cif_at cif w = Some c" "cif_nargs c = of_nat (length ps)" "length ps < 2 ^ 31"
      "read_ptrs w (cif_arg_types c) (length ps) = Some ps"
    and ts: "list_all2 (\<lambda>p t. types w p = Some t \<and> java_ok t) ps ts"
    and args: "load_args (mem w) avalue (length ps) = Some as" "holds_args (mem w) ts as bss"
    and cl: "load (mem w) (user_data + 56) 8 = Some (le_bytes 8 fn)" "load (mem w) (user_data + 64) 8 = Some (le_bytes 8 ud)"
    and clear: "\<forall>x \<in> args_span ts as \<union> span avalue (8 * length ps) \<union> span (user_data + 56) 8 \<union> span (user_data + 64) 8.
        clear_of lo (unat (stack_top w)) x"
    and room: "lo + java.total ts + 16 \<le> unat (stack_top w)"
  shows "\<exists>raw m as'. (\<forall>a. clear_of lo (unat (stack_top w)) a \<longrightarrow> m a = mem w a)
     \<and> ffi_java_raw_to_ptrarray c raw (w\<lparr>stack_top := raw, mem := m\<rparr>) = Some as' \<and> holds_args m ts as' bss
     \<and> ffi_java_translate_args call cif rvalue avalue user_data w
        = map_option (\<lambda>w3. w3\<lparr>stack_top := stack_top w\<rparr>) (call fn cif rvalue raw ud (w\<lparr>stack_top := raw, mem := m\<rparr>))"
proof -
  note n = nargs_of [OF cif(3)]
  have "java.total ts < 2 ^ 64" using room unat_bound [of "stack_top w"] by simp
  then have sz: "ffi_java_raw_size c w = Some (of_nat (java.total ts))" "unat (of_nat (java.total ts) :: size_t) = java.total ts"
    using java_size_total [OF ts refl, of 0] cif(2,4) n unat_of_nat64 by (simp_all add: ffi_java_raw_size_def)
  obtain raw w1 where al: "alloca (java.total ts) w = (raw, w1)" by fastforce
  obtain w2 as' where p: "write_args java_raw_write w1 ps as raw = Some w2" "grows lo w w2" "stack_top w2 = raw"
    "read_args java_raw_read w2 ps raw = Some as'" "holds_args (mem w2) ts as' bss"
    using java.alloca_pack [OF ts args(2) al room] clear by blast
  have g1: "grows lo w w1" by (rule alloca_grows(1) [OF al room])
  have same1: "mem w1 x = mem w x" and same2: "mem w2 x = mem w x" if "clear_of lo (unat (stack_top w)) x" for x
    using that g1 p(2) unfolding grows_def by blast+
  have la: "load_args (mem w1) avalue (length ps) = Some as"
    using load_args_cong [of avalue "length ps" "mem w1" "mem w"] args(1) same1 clear by simp
  have lf: "load (mem w2) (user_data + 56) 8 = Some (le_bytes 8 fn)" "load (mem w2) (user_data + 64) 8 = Some (le_bytes 8 ud)"
    using load_cong [of "user_data + 56" 8 "mem w2" "mem w"] load_cong [of "user_data + 64" 8 "mem w2" "mem w"] cl same2 clear by simp_all
  have rp: "read_ptrs w1 (cif_arg_types c) (length ps) = Some ps" "read_ptrs w2 (cif_arg_types c) (length ps) = Some ps"
    using cif(4) grows_read_ptrs [OF g1] grows_read_ptrs [OF p(2)] by simp_all
  obtain T k where "w2 = w\<lparr>stack_top := T, mem := k\<rparr>" using p(2) unfolding grows_def by blast
  then have w2: "w2 = w\<lparr>stack_top := raw, mem := mem w2\<rparr>" using p(3) by simp
  have pack: "ffi_java_ptrarray_to_raw c as raw w1 = Some w2" using rp(1) p(1) cif(2) n by (simp add: ffi_java_ptrarray_to_raw_def)
  have nu: "unat (cif_nargs c) = length ps" using cif(2) n by simp
  have "ffi_java_translate_args call cif rvalue avalue user_data w
      = map_option (\<lambda>w3. w3\<lparr>stack_top := stack_top w\<rparr>) (call fn cif rvalue raw ud w2)"
    unfolding ffi_java_translate_args_def
    by (simp add: cif(1) sz al la pack lf nu map_conv_bind_option comp_def del: load.simps)
  moreover have "ffi_java_raw_to_ptrarray c raw w2 = Some as'" using rp(2) p(4) cif(2) n by (simp add: ffi_java_raw_to_ptrarray_def)
  ultimately show ?thesis using same2 p(5) w2
    by (intro exI [of _ raw] exI [of _ "mem w2"] exI [of _ as']) simp
qed

text \<open>A prepared raw closure is a closure of the translation, with itself for user data; behind it the
  function of the raw interface and its user data, where the translation looks for them.\<close>

lemma prep_closure_init:
  "ffi_prep_closure_loc lk cl cif fn ud w = Some (FFI_OK, w1) \<Longrightarrow> \<exists>dest. init_closure cl dest cif fn ud w = Some w1"
  by (auto simp: ffi_prep_closure_loc_def ffi_prep_closure_loc_efi64_def Let_def split: bind_splits if_splits)

lemma prep_raw_closure_fields:
  assumes "ffi_prep_raw_closure lk cl cif fn ud w = Some (FFI_OK, w2)" and room: "unat cl + 72 \<le> 2 ^ 64"
  shows "\<exists>dest. closure_ready (mem w2) cl dest cif (at_translate_args lk) cl"
    and "load (mem w2) (cl + 56) 8 = Some (le_bytes 8 fn)" "load (mem w2) (cl + 64) 8 = Some (le_bytes 8 ud)"
proof -
  from assms(1) obtain w1 m1 m2 where p: "ffi_prep_closure_loc (link.truncate lk) cl cif (at_translate_args lk) cl w = Some (FFI_OK, w1)"
    and m1: "store (mem w1) (cl + 56) (le_bytes 8 fn) = Some m1" and m2: "store m1 (cl + 64) (le_bytes 8 ud) = Some m2"
    and w2: "w2 = w1\<lparr>mem := m2\<rparr>"
    by (auto simp: ffi_prep_raw_closure_def ffi_prep_raw_closure_loc_def split: bind_splits if_splits)
  obtain dest where i: "init_closure cl dest cif (at_translate_args lk) cl w = Some w1" using prep_closure_init [OF p] by blast
  have a: "span cl 56 \<inter> span (cl + 56) 8 = {}" "span cl 64 \<inter> span (cl + 64) 8 = {}"
    using span_apart [of 56 56 8 cl] span_apart [of 64 64 8 cl] by simp_all
  have s: "span cl 64 = span cl 56 \<union> span (cl + 56) 8" using span_append [of cl 56 8] by simp
  have o: "m2 x = mem w1 x" if "x \<in> span cl 56" for x
  proof -
    have "x \<notin> span (cl + 56) 8" "x \<notin> span (cl + 64) 8" using a that unfolding s by blast+
    then show ?thesis using store_outside [OF m1, of x] store_outside [OF m2, of x] by simp
  qed
  have "closure_ready m2 cl = closure_ready (mem w1) cl" by (rule closure_ready_cong) (use o in simp)
  then show "\<exists>dest. closure_ready (mem w2) cl dest cif (at_translate_args lk) cl"
    using init_closure_ready [OF i] by (auto simp: w2)
  have "load m2 (cl + 56) 8 = load m1 (cl + 56) 8" by (rule load_store_disjoint [OF m2]) (use a s in auto)
  then show "load (mem w2) (cl + 56) 8 = Some (le_bytes 8 fn)" using load_store_same [OF m1] by (simp add: w2)
  show "load (mem w2) (cl + 64) 8 = Some (le_bytes 8 ud)" using load_store_same [OF m2] by (simp add: w2)
qed

end
