(* ===== verification/Ffi_Dlist.thy ===== *)
theory Ffi_Dlist
  imports Jffi_Prelude
begin

text \<open>
  Doubly linked lists in a store of nodes, the way \<^verbatim>\<open>jni/libffi/src/tramp.c\<close> keeps its free tables and the
  free trampolines of a table: a head pointer, \<open>next\<close> and \<open>prev\<close> fields, no sentinel. The interface \<open>dlist\<close>
  is what a node record offers; the two statement sequences of the source, putting a node in front and
  unlinking one, are stated over it, with their effect on the list of nodes. Both kinds of nodes interpret it.
\<close>

definition update :: "('p \<rightharpoonup> 'n) \<Rightarrow> 'p \<Rightarrow> ('n \<Rightarrow> 'n) \<Rightarrow> ('p \<rightharpoonup> 'n) option" where
  "update s p f = map_option (\<lambda>n. s(p \<mapsto> f n)) (s p)"

lemma update_Some: "s p = Some n \<Longrightarrow> update s p f = Some (s(p \<mapsto> f n))"
  by (simp add: update_def)

locale dlist =
  fixes null :: 'p
    and prv nxt :: "'n \<Rightarrow> 'p"
    and set_prv set_nxt :: "'p \<Rightarrow> 'n \<Rightarrow> 'n"
  assumes prv_set [simp]: "prv (set_prv p n) = p" "prv (set_nxt p n) = prv n"
    and nxt_set [simp]: "nxt (set_nxt p n) = p" "nxt (set_prv p n) = nxt n"
    and core_set: "set_prv null (set_nxt null (set_prv p n)) = set_prv null (set_nxt null n)"
      "set_prv null (set_nxt null (set_nxt p n)) = set_prv null (set_nxt null n)"
begin

text \<open>\<open>x->next = head; x->prev = NULL; if (head != NULL) head->prev = x\<close>\<close>

definition push :: "'p \<Rightarrow> 'p \<Rightarrow> ('p \<rightharpoonup> 'n) \<Rightarrow> ('p \<rightharpoonup> 'n) option" where
  "push x head s =
     Option.bind (update s x (set_nxt head)) (\<lambda>s. Option.bind (update s x (set_prv null)) (\<lambda>s.
       if head \<noteq> null then update s head (set_prv x) else Some s))"

text \<open>\<open>if (x->prev != NULL) x->prev->next = x->next; if (x->next != NULL) x->next->prev = x->prev\<close>\<close>

definition unlink :: "'p \<Rightarrow> ('p \<rightharpoonup> 'n) \<Rightarrow> ('p \<rightharpoonup> 'n) option" where
  "unlink x s =
     Option.bind (s x) (\<lambda>n. Option.bind (if prv n \<noteq> null then update s (prv n) (set_nxt (nxt n)) else Some s) (\<lambda>s.
       Option.bind (s x) (\<lambda>n. if nxt n \<noteq> null then update s (nxt n) (set_prv (prv n)) else Some s)))"

fun dll :: "('p \<rightharpoonup> 'n) \<Rightarrow> 'p \<Rightarrow> 'p \<Rightarrow> 'p list \<Rightarrow> bool" where
  "dll s p head [] \<longleftrightarrow> head = null"
| "dll s p head (x # xs) \<longleftrightarrow> head = x \<and> x \<noteq> null \<and> (case s x of None \<Rightarrow> False | Some n \<Rightarrow> prv n = p \<and> dll s x (nxt n) xs)"

text \<open>Everything but the links.\<close>

definition core :: "'n \<Rightarrow> 'n" where
  "core n = set_prv null (set_nxt null n)"

definition same_core :: "('p \<rightharpoonup> 'n) \<Rightarrow> ('p \<rightharpoonup> 'n) \<Rightarrow> bool" where
  "same_core s s' \<longleftrightarrow> (\<forall>y. map_option core (s' y) = map_option core (s y))"

lemma core_set_simps [simp]: "core (set_prv p n) = core n" "core (set_nxt p n) = core n"
  by (simp_all add: core_def core_set)

lemma same_core_refl [simp]: "same_core s s"
  by (simp add: same_core_def)

lemma same_core_upd: "same_core s s' \<Longrightarrow> s' p = Some n \<Longrightarrow> core n' = core n \<Longrightarrow> same_core s (s'(p \<mapsto> n'))"
  by (auto simp: same_core_def dest: spec [of _ p])

lemma same_core_dom: "same_core s s' \<Longrightarrow> dom s' = dom s"
  unfolding same_core_def dom_def by (metis option.map_disc_iff)

lemma same_core_node: "same_core s s' \<Longrightarrow> s y = Some n \<Longrightarrow> \<exists>n'. s' y = Some n' \<and> core n' = core n"
  unfolding same_core_def by (metis (no_types, lifting) map_option_eq_Some option.simps(9))

lemma dll_cong: "(\<And>x. x \<in> set xs \<Longrightarrow> s' x = s x) \<Longrightarrow> dll s' p h xs = dll s p h xs"
  by (induction xs arbitrary: p h) (auto split: option.splits)

lemma dll_links: "(\<And>x. x \<in> set xs \<Longrightarrow> map_option (\<lambda>n. (prv n, nxt n)) (s' x) = map_option (\<lambda>n. (prv n, nxt n)) (s x))
    \<Longrightarrow> dll s' p h xs = dll s p h xs"
proof (induction xs arbitrary: p h)
  case (Cons x xs)
  from Cons.prems [of x] Cons.IH Cons.prems show ?case by (cases "s x"; cases "s' x") auto
qed simp

lemma dll_head: "dll s p h xs \<Longrightarrow> h = null \<longleftrightarrow> xs = []"
  by (cases xs) auto

lemma dll_hd: "dll s p h (x # xs) \<Longrightarrow> h = x"
  by simp

lemma dll_nonnull: "dll s p h xs \<Longrightarrow> null \<notin> set xs"
  by (induction xs arbitrary: p h) (auto split: option.splits)

lemma dll_dom: "dll s p h xs \<Longrightarrow> set xs \<subseteq> dom s"
  by (induction xs arbitrary: p h) (auto split: option.splits)

lemma dll_prev: "dll s p h (x # xs) \<Longrightarrow> s x = Some n \<Longrightarrow> prv n = p"
  by simp

text \<open>A new head.\<close>

lemma push_dll:
  assumes l: "dll s null h xs" "distinct xs" and x: "x \<notin> set xs" "x \<noteq> null" "s x = Some n"
  shows "\<exists>s'. push x h s = Some s' \<and> dll s' null x (x # xs) \<and> same_core s s' \<and> (\<forall>y. y \<notin> set (x # xs) \<longrightarrow> s' y = s y)"
proof (cases xs)
  case Nil
  let ?s = "s(x \<mapsto> set_prv null (set_nxt h n))"
  have "push x h s = Some ?s" using l(1) Nil x by (simp add: push_def update_def)
  moreover have "same_core s ?s" using x(3) by (auto simp: same_core_def)
  moreover have "dll ?s null x (x # xs)" using l(1) Nil x by simp
  ultimately show ?thesis by auto
next
  case (Cons y ys)
  then obtain m where y: "h = y" "y \<noteq> null" "s y = Some m" "prv m = null" "dll s y (nxt m) ys"
    using l(1) by (auto split: option.splits)
  let ?s = "s(x \<mapsto> set_prv null (set_nxt y n), y \<mapsto> set_prv x m)"
  have d: "x \<noteq> y" "x \<notin> set ys" "y \<notin> set ys" using x(1) l(2) Cons by auto
  have "push x h s = Some ?s" using x(3) y d by (simp add: push_def update_def)
  moreover have "same_core s ?s" using x(3) y(3) d(1) by (auto simp: same_core_def)
  moreover have "dll ?s null x (x # xs)"
  proof -
    have "dll ?s y (nxt m) ys = dll s y (nxt m) ys" by (rule dll_cong) (use d in auto)
    with y(5) have "dll ?s y (nxt m) ys" by simp
    then show ?thesis using Cons x y d by simp
  qed
  ultimately show ?thesis using Cons by auto
qed

text \<open>Unlinking as one change of the store.\<close>

definition without :: "'p \<Rightarrow> 'n \<Rightarrow> ('p \<rightharpoonup> 'n) \<Rightarrow> ('p \<rightharpoonup> 'n)" where
  "without x n s = (\<lambda>y. if y = prv n \<and> y \<noteq> null then map_option (set_nxt (nxt n)) (s y)
                        else if y = nxt n \<and> y \<noteq> null then map_option (set_prv (prv n)) (s y) else s y)"

lemma unlink_without:
  assumes "s x = Some n" and "prv n \<noteq> null \<Longrightarrow> prv n \<in> dom s - {x}" and "nxt n \<noteq> null \<Longrightarrow> nxt n \<in> dom s - {x}"
    and "prv n \<noteq> null \<Longrightarrow> prv n \<noteq> nxt n"
  shows "unlink x s = Some (without x n s)"
  using assms by (auto simp: unlink_def update_def without_def fun_eq_iff)

lemma without_core: "same_core s (without x n s)"
  by (auto simp: same_core_def without_def option.map_comp comp_def)

lemma dll_neighbours:
  assumes "dll s p h xs" "distinct xs" "p \<notin> set xs" "x \<in> set xs" "s x = Some n"
  shows "(prv n = p \<and> h = x \<or> prv n \<in> set xs) \<and> prv n \<noteq> x \<and> (nxt n = null \<or> nxt n \<in> set xs - {x}) \<and> (prv n \<noteq> null \<longrightarrow> prv n \<noteq> nxt n)"
  using assms
proof (induction xs arbitrary: p h)
  case (Cons y ys)
  from Cons.prems(1) obtain m where y: "h = y" "y \<noteq> null" "s y = Some m" "prv m = p" "dll s y (nxt m) ys"
    by (auto split: option.splits)
  show ?case
  proof (cases "x = y")
    case True
    then have nm: "n = m" using y(3) Cons.prems(5) by simp
    have "nxt m = null \<or> nxt m \<in> set ys" using y(5) by (cases ys) auto
    then show ?thesis using nm True y Cons.prems(2,3) by auto
  next
    case False
    then have xy: "x \<in> set ys" using Cons.prems(4) by simp
    from Cons.IH [OF y(5) _ _ xy Cons.prems(5)] Cons.prems(2,3) show ?thesis using xy False by auto
  qed
qed simp

lemma without_first:
  assumes l: "dll s p x (x # xs)" "distinct (x # xs)" and n: "s x = Some n" and q: "q \<notin> set (x # xs)"
    and s': "\<And>y. y \<in> set xs \<Longrightarrow> s' y = (if y = nxt n then map_option (set_prv q) (s y) else s y)"
  shows "dll s' q (nxt n) xs"
proof (cases xs)
  case Nil
  then show ?thesis using l(1) n by simp
next
  case (Cons v vs)
  then obtain k where v: "nxt n = v" "v \<noteq> null" "s v = Some k" "dll s v (nxt k) vs"
    using l(1) n by (auto split: option.splits)
  have "dll s' v (nxt k) vs = dll s v (nxt k) vs" by (rule dll_cong) (use s' l(2) Cons v(1) in auto)
  then have "dll s' v (nxt k) vs" using v(4) by simp
  moreover have "s' v = Some (set_prv q k)" using s' [of v] v Cons by simp
  ultimately show ?thesis using Cons v by simp
qed

lemma without_inner:
  assumes "dll s p h (y # ys)" "distinct (y # ys)" "p \<notin> set (y # ys)" "x \<in> set ys" "s x = Some n"
  shows "dll (without x n s) p h (y # remove1 x ys)"
  using assms
proof (induction ys arbitrary: p h y)
  case (Cons z zs)
  then obtain m where y: "h = y" "y \<noteq> null" "s y = Some m" "prv m = p" "dll s y z (z # zs)" "nxt m = z"
    by (auto split: option.splits)
  show ?case
  proof (cases "x = z")
    case True
    have pn: "prv n = y" using dll_prev [OF y(5)] Cons.prems(5) True by simp
    have nn: "nxt n = null \<or> nxt n \<in> set zs" using y(5) Cons.prems(5) True by (cases zs) auto
    have "dll (without x n s) y (nxt n) zs"
      by (rule without_first [where s = s and p = y and x = z]) (use y(5) Cons.prems(2,5) True pn dll_nonnull [OF y(5)] in \<open>auto simp: without_def\<close>)
    moreover have "without x n s y = Some (set_nxt (nxt n) m)" using y pn by (simp add: without_def)
    ultimately show ?thesis using y True by simp
  next
    case False
    then have xz: "x \<in> set zs" using Cons.prems(4) by simp
    have d: "distinct (z # zs)" "y \<notin> set (z # zs)" using Cons.prems(2) by auto
    have nb: "prv n \<in> set (z # zs)" "nxt n = null \<or> nxt n \<in> set (z # zs)"
      using dll_neighbours [OF y(5) d, of x n] xz Cons.prems(5) False by auto
    have "without x n s y = Some m" using nb d(2) y(2,3) by (auto simp: without_def)
    moreover have "dll (without x n s) y z (z # remove1 x zs)"
      by (rule Cons.IH [OF y(5) d xz Cons.prems(5)])
    ultimately show ?thesis using y False by simp
  qed
qed simp

lemma unlink_dll:
  assumes l: "dll s null h xs" "distinct xs" and x: "x \<in> set xs" "s x = Some n"
  shows "\<exists>s'. unlink x s = Some s' \<and> dll s' null (if h = x then nxt n else h) (remove1 x xs) \<and> same_core s s'
     \<and> (\<forall>y. y \<notin> set xs \<longrightarrow> s' y = s y)"
proof -
  have nn: "null \<notin> set xs" by (rule dll_nonnull [OF l(1)])
  note nb = dll_neighbours [OF l nn x]
  have "unlink x s = Some (without x n s)"
    by (rule unlink_without [of s x n, OF x(2)]) (use nb dll_dom [OF l(1)] nn in auto)
  moreover have "dll (without x n s) null (if h = x then nxt n else h) (remove1 x xs)"
  proof (cases xs)
    case (Cons y ys)
    show ?thesis
    proof (cases "x = y")
      case True
      have "prv n = null" using l(1) Cons x(2) True by simp
      then have "dll (without x n s) null (nxt n) ys"
        by (intro without_first [where s = s and p = null and x = y]) (use l Cons x(2) True nn in \<open>auto simp: without_def\<close>)
      then show ?thesis using Cons True l(1) by simp
    next
      case False
      then show ?thesis using without_inner [of s null h y ys x n] l x nn Cons by auto
    qed
  qed (use x in simp)
  moreover have "\<forall>y. y \<notin> set xs \<longrightarrow> without x n s y = s y" using nb nn by (auto simp: without_def)
  ultimately show ?thesis using without_core by blast
qed

text \<open>The node taken out keeps its links.\<close>

lemma unlink_self:
  assumes l: "dll s null h xs" "distinct xs" and x: "x \<in> set xs" "s x = Some n" and u: "unlink x s = Some s'"
  shows "\<exists>n'. s' x = Some n' \<and> nxt n' = nxt n \<and> prv n' = prv n"
proof -
  have nn: "null \<notin> set xs" by (rule dll_nonnull [OF l(1)])
  note nb = dll_neighbours [OF l nn x]
  have "unlink x s = Some (without x n s)"
    by (rule unlink_without [of s x n, OF x(2)]) (use nb dll_dom [OF l(1)] nn in auto)
  with u have "s' = without x n s" by simp
  moreover have "without x n s x = s x" using nb by (auto simp: without_def)
  ultimately show ?thesis using x(2) by simp
qed

end

end
