(* ===== verification/Ffi_Tramp.thy ===== *)
theory Ffi_Tramp
  imports Jffi_Closure Ffi_Dlist
begin

text \<open>
  libffi's static trampolines (\<^verbatim>\<open>jni/libffi/src/tramp.c\<close>, Linux) with the search for a file to map code from
  (\<open>open_temp_exec_file\<close> in \<^verbatim>\<open>jni/libffi/src/closures.c\<close>). A trampoline table is a mapping of the code table in
  libffi's text, followed by a mapping for the parameters; its trampolines are handed out one by one. Free
  trampolines of a table, and tables with free trampolines, are kept in doubly linked lists. A table whose
  trampolines are all free is given back unless it is the only one in the list.

  A pointer to a trampoline is the address of its array and its index in it; tables and blocks have
  addresses. The system calls of \<^verbatim>\<open>sys\<close> answer by the whole state, with the number of calls made so
  far, and set \<open>errno\<close>; mapping and unmapping are those of \<open>Jffi_Pages\<close>. Every function holds the lock from
  its first to its last statement, so each is one step.
\<close>

section \<open>The data\<close>

type_synonym tramp_ptr = "addr \<times> nat"

abbreviation NULL_TRAMP :: tramp_ptr where "NULL_TRAMP \<equiv> (NULL, 0)"

record tramp =
  tr_prev :: tramp_ptr
  tr_next :: tramp_ptr
  tr_table :: addr
  tr_code :: addr
  tr_parm :: addr

record tramp_table =
  tt_prev :: addr
  tt_next :: addr
  tt_code_table :: addr
  tt_parm_table :: addr
  tt_array :: addr
  tt_free :: tramp_ptr
  tt_nfree :: jint

abbreviation (input) sizeof_tramp :: size_t where "sizeof_tramp \<equiv> 40"
abbreviation (input) sizeof_tramp_table :: size_t where "sizeof_tramp_table \<equiv> 56"

datatype tramp_globals_status = TRAMP_GLOBALS_UNINITIALIZED | TRAMP_GLOBALS_PASSED | TRAMP_GLOBALS_FAILED

record tramp_globals =
  tg_fd :: jint
  tg_offset :: u64
  tg_text :: addr
  tg_map_size :: size_t
  tg_size :: size_t
  tg_ntramp :: jint
  tg_free_tables :: addr
  tg_nfree_tables :: jint
  tg_status :: tramp_globals_status

text \<open>A mount point; the options are what \<open>hasmntopt\<close> finds.\<close>

record mntent =
  mnt_dir :: string
  mnt_ro :: bool
  mnt_noexec :: bool

text \<open>\<open>junk_tramp\<close> and \<open>junk_table\<close> are what a new block holds.\<close>

record tramp_world = thread_world +
  tg :: tramp_globals
  tables :: "addr \<rightharpoonup> tramp_table"
  tramps :: "tramp_ptr \<rightharpoonup> tramp"
  junk_tramp :: "tramp_ptr \<Rightarrow> tramp"
  junk_table :: "addr \<Rightarrow> tramp_table"
  clock :: nat
  opts_idx :: nat
  last_mounts :: "string option"
  last_mntent :: "mntent list option"

definition tg_upd :: "(tramp_globals \<Rightarrow> tramp_globals) \<Rightarrow> 'a tramp_world_scheme \<Rightarrow> 'a tramp_world_scheme" where
  "tg_upd f w = w\<lparr>tg := f (tg w)\<rparr>"

definition table_upd :: "addr \<Rightarrow> (tramp_table \<Rightarrow> tramp_table) \<Rightarrow> 'a tramp_world_scheme \<Rightarrow> 'a tramp_world_scheme option" where
  "table_upd p f w = map_option (\<lambda>s. w\<lparr>tables := s\<rparr>) (update (tables w) p f)"

definition tramp_upd :: "tramp_ptr \<Rightarrow> (tramp \<Rightarrow> tramp) \<Rightarrow> 'a tramp_world_scheme \<Rightarrow> 'a tramp_world_scheme option" where
  "tramp_upd p f w = map_option (\<lambda>s. w\<lparr>tramps := s\<rparr>) (update (tramps w) p f)"

section \<open>The table list\<close>

definition tramp_table_add :: "addr \<Rightarrow> 'a tramp_world_scheme \<Rightarrow> 'a tramp_world_scheme option" where
  "tramp_table_add table w = do {
     w1 \<leftarrow> table_upd table (\<lambda>t. t\<lparr>tt_next := tg_free_tables (tg w)\<rparr>) w;
     w2 \<leftarrow> table_upd table (\<lambda>t. t\<lparr>tt_prev := NULL\<rparr>) w1;
     w3 \<leftarrow> (if tg_free_tables (tg w) \<noteq> NULL then table_upd (tg_free_tables (tg w)) (\<lambda>t. t\<lparr>tt_prev := table\<rparr>) w2 else Some w2);
     Some (tg_upd (\<lambda>g. g\<lparr>tg_free_tables := table, tg_nfree_tables := tg_nfree_tables g + 1\<rparr>) w3)
   }"

definition tramp_table_del :: "addr \<Rightarrow> 'a tramp_world_scheme \<Rightarrow> 'a tramp_world_scheme option" where
  "tramp_table_del table w = do {
     w1 \<leftarrow> Some (tg_upd (\<lambda>g. g\<lparr>tg_nfree_tables := tg_nfree_tables g - 1\<rparr>) w);
     t \<leftarrow> tables w1 table;
     w2 \<leftarrow> (if tt_prev t \<noteq> NULL then table_upd (tt_prev t) (\<lambda>u. u\<lparr>tt_next := tt_next t\<rparr>) w1 else Some w1);
     t \<leftarrow> tables w2 table;
     w3 \<leftarrow> (if tt_next t \<noteq> NULL then table_upd (tt_next t) (\<lambda>u. u\<lparr>tt_prev := tt_prev t\<rparr>) w2 else Some w2);
     t \<leftarrow> tables w3 table;
     Some (if tg_free_tables (tg w3) = table then tg_upd (\<lambda>g. g\<lparr>tg_free_tables := tt_next t\<rparr>) w3 else w3)
   }"

section \<open>Mapping a table\<close>

definition tramp_table_map :: "('a tramp_world_scheme) os \<Rightarrow> addr \<Rightarrow> 'a tramp_world_scheme \<Rightarrow> (bool \<times> 'a tramp_world_scheme) option" where
  "tramp_table_map os table w =
     (let map_size = tg_map_size (tg w);
          (addr, w1) = sys_mmap os NULL (map_size * 2) (PROT_READ OR PROT_WRITE) (MAP_PRIVATE OR MAP_ANON) (- 1) 0 w
      in if addr = MAP_FAILED then Some (False, w1)
         else do {
           (code, w2) \<leftarrow> Some (sys_mmap os addr map_size (PROT_READ OR PROT_EXEC) (MAP_PRIVATE OR MAP_FIXED)
                                  (tg_fd (tg w1)) (tg_offset (tg w1)) w1);
           w3 \<leftarrow> table_upd table (\<lambda>t. t\<lparr>tt_code_table := code\<rparr>) w2;
           if code = MAP_FAILED
           then map_option (\<lambda>(r, w4). (False, w4)) (sys_munmap os addr (map_size * 2) w3)
           else map_option (Pair True) (table_upd table (\<lambda>t. t\<lparr>tt_parm_table := tt_code_table t + map_size\<rparr>) w3)
         })"

definition tramp_table_unmap :: "('a tramp_world_scheme) os \<Rightarrow> addr \<Rightarrow> 'a tramp_world_scheme \<Rightarrow> 'a tramp_world_scheme option" where
  "tramp_table_unmap os table w = do {
     t \<leftarrow> tables w table;
     (r, w1) \<leftarrow> sys_munmap os (tt_code_table t) (tg_map_size (tg w)) w;
     (r, w2) \<leftarrow> sys_munmap os (tt_parm_table t) (tg_map_size (tg w1)) w1;
     Some w2
   }"

section \<open>Blocks\<close>

definition malloc_table :: "'a tramp_world_scheme \<Rightarrow> (addr \<times> 'a tramp_world_scheme) option" where
  "malloc_table w = do {
     (p, w1) \<leftarrow> malloc sizeof_tramp_table w;
     Some (p, if p = NULL then w1 else w1\<lparr>tables := (tables w1)(p \<mapsto> junk_table w1 p)\<rparr>)
   }"

definition in_array :: "addr \<Rightarrow> tramp_ptr \<Rightarrow> bool" where
  "in_array arr q \<longleftrightarrow> fst q = arr"

definition malloc_tramps :: "jint \<Rightarrow> 'a tramp_world_scheme \<Rightarrow> (addr \<times> 'a tramp_world_scheme) option" where
  "malloc_tramps n w = do {
     (p, w1) \<leftarrow> malloc (sizeof_tramp * scast n) w;
     Some (p, if p = NULL then w1
              else w1\<lparr>tramps := (\<lambda>q. if in_array p q \<and> snd q < nat (sint n) then Some (junk_tramp w1 q) else tramps w1 q)\<rparr>)
   }"

definition free_table_block :: "addr \<Rightarrow> 'a tramp_world_scheme \<Rightarrow> 'a tramp_world_scheme option" where
  "free_table_block p w = map_option (\<lambda>w1. w1\<lparr>tables := (tables w1)(p := None)\<rparr>) (free p w)"

definition free_tramps :: "addr \<Rightarrow> 'a tramp_world_scheme \<Rightarrow> 'a tramp_world_scheme option" where
  "free_tramps p w = map_option (\<lambda>w1. w1\<lparr>tramps := (\<lambda>q. if in_array p q then None else tramps w1 q)\<rparr>) (free p w)"

definition tramp_table_free :: "('a tramp_world_scheme) os \<Rightarrow> addr \<Rightarrow> 'a tramp_world_scheme \<Rightarrow> 'a tramp_world_scheme option" where
  "tramp_table_free os table w = do {
     w1 \<leftarrow> tramp_table_unmap os table w;
     t \<leftarrow> tables w1 table;
     w2 \<leftarrow> free_tramps (tt_array t) w1;
     free_table_block table w2
   }"

section \<open>The free trampolines of a table\<close>

definition tramp_add :: "('a tramp_world_scheme) os \<Rightarrow> tramp_ptr \<Rightarrow> 'a tramp_world_scheme \<Rightarrow> 'a tramp_world_scheme option" where
  "tramp_add os tramp w = do {
     r \<leftarrow> tramps w tramp;
     table \<leftarrow> Some (tr_table r);
     t \<leftarrow> tables w table;
     w1 \<leftarrow> tramp_upd tramp (\<lambda>r. r\<lparr>tr_next := tt_free t\<rparr>) w;
     w2 \<leftarrow> tramp_upd tramp (\<lambda>r. r\<lparr>tr_prev := NULL_TRAMP\<rparr>) w1;
     w3 \<leftarrow> (if tt_free t \<noteq> NULL_TRAMP then tramp_upd (tt_free t) (\<lambda>r. r\<lparr>tr_prev := tramp\<rparr>) w2 else Some w2);
     w4 \<leftarrow> table_upd table (\<lambda>t. t\<lparr>tt_free := tramp, tt_nfree := tt_nfree t + 1\<rparr>) w3;
     t \<leftarrow> tables w4 table;
     w5 \<leftarrow> (if tt_nfree t = 1 then tramp_table_add table w4 else Some w4);
     t \<leftarrow> tables w5 table;
     if tt_nfree t = tg_ntramp (tg w5) \<and> sint (tg_nfree_tables (tg w5)) > 1
     then do {
       w6 \<leftarrow> tramp_table_del table w5;
       tramp_table_free os table w6
     }
     else Some w5
   }"

definition tramp_del :: "tramp_ptr \<Rightarrow> 'a tramp_world_scheme \<Rightarrow> 'a tramp_world_scheme option" where
  "tramp_del tramp w = do {
     r \<leftarrow> tramps w tramp;
     table \<leftarrow> Some (tr_table r);
     w1 \<leftarrow> table_upd table (\<lambda>t. t\<lparr>tt_nfree := tt_nfree t - 1\<rparr>) w;
     w2 \<leftarrow> (if tr_prev r \<noteq> NULL_TRAMP then tramp_upd (tr_prev r) (\<lambda>u. u\<lparr>tr_next := tr_next r\<rparr>) w1 else Some w1);
     r \<leftarrow> tramps w2 tramp;
     w3 \<leftarrow> (if tr_next r \<noteq> NULL_TRAMP then tramp_upd (tr_next r) (\<lambda>u. u\<lparr>tr_prev := tr_prev r\<rparr>) w2 else Some w2);
     r \<leftarrow> tramps w3 tramp;
     t \<leftarrow> tables w3 table;
     w4 \<leftarrow> (if tt_free t = tramp then table_upd table (\<lambda>t. t\<lparr>tt_free := tr_next r\<rparr>) w3 else Some w3);
     t \<leftarrow> tables w4 table;
     if tt_nfree t = 0 then tramp_table_del table w4 else Some w4
   }"

section \<open>A new table\<close>

fun tramp_fill :: "('a tramp_world_scheme) os \<Rightarrow> addr \<Rightarrow> addr \<Rightarrow> nat \<Rightarrow> nat \<Rightarrow> addr \<Rightarrow> addr
     \<Rightarrow> 'a tramp_world_scheme \<Rightarrow> 'a tramp_world_scheme option" where
  "tramp_fill os table arr i 0 code parm w = Some w"
| "tramp_fill os table arr i (Suc n) code parm w = do {
     w1 \<leftarrow> tramp_upd (arr, i) (\<lambda>r. r\<lparr>tr_table := table, tr_code := code, tr_parm := parm\<rparr>) w;
     w2 \<leftarrow> tramp_add os (arr, i) w1;
     tramp_fill os table arr (Suc i) n (code + tg_size (tg w)) (parm + tg_size (tg w)) w2
   }"

definition tramp_table_alloc :: "('a tramp_world_scheme) os \<Rightarrow> 'a tramp_world_scheme \<Rightarrow> (bool \<times> 'a tramp_world_scheme) option" where
  "tramp_table_alloc os w =
     (if sint (tg_nfree_tables (tg w)) > 0 then Some (True, w)
      else do {
        (table, w1) \<leftarrow> malloc_table w;
        if table = NULL then Some (False, w1)
        else do {
          (arr, w2) \<leftarrow> malloc_tramps (tg_ntramp (tg w1)) w1;
          if arr = NULL then map_option (Pair False) (free_table_block table w2)
          else do {
            (ok, w3) \<leftarrow> tramp_table_map os table w2;
            if \<not> ok
            then do {
              w4 \<leftarrow> free_tramps arr w3;
              map_option (Pair False) (free_table_block table w4)
            }
            else do {
              w4 \<leftarrow> table_upd table (\<lambda>t. t\<lparr>tt_array := arr, tt_free := NULL_TRAMP, tt_nfree := 0\<rparr>) w3;
              t \<leftarrow> tables w4 table;
              w5 \<leftarrow> tramp_fill os table arr 0 (nat (sint (tg_ntramp (tg w4)))) (tt_code_table t) (tt_parm_table t) w4;
              Some (True, w5)
            }
          }
        }
      })"

section \<open>A file to map code from\<close>

text \<open>The answers of the system, with the \<open>errno\<close> of the call. \<open>proc_maps\<close> are the lines of
  \<open>/proc/self/maps\<close> as \<open>sscanf\<close> takes them apart (\<open>None\<close> for a line without all seven fields), or \<open>None\<close> if
  the file cannot be opened. The features are those of Linux with the GNU C library.\<close>

record maps_line =
  ml_start :: u64
  ml_end :: u64
  ml_offset :: u64
  ml_file :: string

record 'w sys =
  sys_page_size :: jlong
  proc_maps :: "'w \<Rightarrow> maps_line option list option"
  sys_open :: "string \<Rightarrow> 'w \<Rightarrow> jint \<times> jint"
  open_tmpfile :: "string \<Rightarrow> 'w \<Rightarrow> jint \<times> jint"
  memfd_create :: "string \<Rightarrow> 'w \<Rightarrow> jint \<times> jint"
  mkostemp :: "string \<Rightarrow> 'w \<Rightarrow> jint \<times> jint"
  sys_write :: "jint \<Rightarrow> addr \<Rightarrow> size_t \<Rightarrow> 'w \<Rightarrow> jlong \<times> jint"
  sys_access :: "string \<Rightarrow> 'w \<Rightarrow> jint \<times> jint"
  sys_getenv :: "string \<Rightarrow> string option"
  setmntent :: "string \<Rightarrow> 'w \<Rightarrow> mntent list option"

definition sys_call :: "('a tramp_world_scheme \<Rightarrow> 'r \<times> jint) \<Rightarrow> 'a tramp_world_scheme \<Rightarrow> 'r \<times> 'a tramp_world_scheme" where
  "sys_call f w = (let (r, e) = f w in (r, w\<lparr>errno := (errno w)(self w := e), clock := Suc (clock w)\<rparr>))"

text \<open>\<open>unlink\<close> and \<open>close\<close> have no result anyone looks at.\<close>

definition sys_done :: "'a tramp_world_scheme \<Rightarrow> 'a tramp_world_scheme" where
  "sys_done w = w\<lparr>clock := Suc (clock w)\<rparr>"

definition open_temp_exec_file_name :: "'a tramp_world_scheme sys \<Rightarrow> string \<Rightarrow> 'a tramp_world_scheme \<Rightarrow> jint \<times> 'a tramp_world_scheme" where
  "open_temp_exec_file_name S name w =
     (let (fd, w1) = sys_call (mkostemp S name) w in (fd, if fd \<noteq> - 1 then sys_done w1 else w1))"

abbreviation (input) EINVAL :: jint where "EINVAL \<equiv> 22"
abbreviation (input) EISDIR :: jint where "EISDIR \<equiv> 21"
abbreviation (input) EOPNOTSUPP :: jint where "EOPNOTSUPP \<equiv> 95"

definition open_temp_exec_file_dir :: "'a tramp_world_scheme sys \<Rightarrow> string \<Rightarrow> 'a tramp_world_scheme \<Rightarrow> jint \<times> 'a tramp_world_scheme" where
  "open_temp_exec_file_dir S dir w =
     (let (fd, w1) = sys_call (open_tmpfile S dir) w; e = errno w1 (self w1)
      in if fd \<noteq> - 1 \<or> e \<noteq> EINVAL \<and> e \<noteq> EISDIR \<and> e \<noteq> EOPNOTSUPP then (fd, w1)
         else open_temp_exec_file_name S (dir @ ''/ffiXXXXXX'') (w1\<lparr>errno := (errno w1)(self w1 := 0)\<rparr>))"

definition open_temp_exec_file_env :: "'a tramp_world_scheme sys \<Rightarrow> string \<Rightarrow> 'a tramp_world_scheme \<Rightarrow> jint \<times> 'a tramp_world_scheme" where
  "open_temp_exec_file_env S envvar w =
     (case sys_getenv S envvar of None \<Rightarrow> (- 1, w) | Some value \<Rightarrow> open_temp_exec_file_dir S value w)"

text \<open>The loop over the mount points leaves the stream behind the one it took.\<close>

fun mnt_loop :: "'a tramp_world_scheme sys \<Rightarrow> mntent list \<Rightarrow> 'a tramp_world_scheme \<Rightarrow> jint \<times> 'a tramp_world_scheme" where
  "mnt_loop S [] w = (- 1, w\<lparr>last_mntent := Some []\<rparr>)"
| "mnt_loop S (m # ms) w =
     (if mnt_ro m \<or> mnt_noexec m then mnt_loop S ms w
      else let (a, w1) = sys_call (sys_access S (mnt_dir m)) w
           in if a \<noteq> 0 then mnt_loop S ms w1
              else let (fd, w2) = open_temp_exec_file_dir S (mnt_dir m) w1
                   in if fd \<noteq> - 1 then (fd, w2\<lparr>last_mntent := Some ms\<rparr>) else mnt_loop S ms w2)"

definition open_temp_exec_file_mnt :: "'a tramp_world_scheme sys \<Rightarrow> string option \<Rightarrow> 'a tramp_world_scheme \<Rightarrow> jint \<times> 'a tramp_world_scheme" where
  "open_temp_exec_file_mnt S mounts w =
     (let w1 = (if mounts \<noteq> last_mounts w
                then w\<lparr>last_mounts := mounts, last_mntent := (case mounts of None \<Rightarrow> None | Some file \<Rightarrow> setmntent S file w)\<rparr>
                else w)
      in case last_mntent w1 of None \<Rightarrow> (- 1, w1) | Some ms \<Rightarrow> mnt_loop S ms w1)"

datatype temp_opt = Opt_memfd string | Opt_env string | Opt_dir string | Opt_mnt string

definition open_temp_exec_file_opts :: "temp_opt list" where
  "open_temp_exec_file_opts =
     [Opt_memfd ''libffi'', Opt_env ''LIBFFI_TMPDIR'', Opt_env ''TMPDIR'', Opt_dir ''/tmp'', Opt_dir ''/var/tmp'',
      Opt_dir ''/dev/shm'', Opt_env ''HOME'', Opt_mnt ''/etc/mtab'', Opt_mnt ''/proc/mounts'']"

fun opt_repeat :: "temp_opt \<Rightarrow> bool" where
  "opt_repeat (Opt_mnt _) = True"
| "opt_repeat _ = False"

fun opt_call :: "'a tramp_world_scheme sys \<Rightarrow> temp_opt \<Rightarrow> 'a tramp_world_scheme \<Rightarrow> jint \<times> 'a tramp_world_scheme" where
  "opt_call S (Opt_memfd name) w = sys_call (memfd_create S name) w"
| "opt_call S (Opt_env v) w = open_temp_exec_file_env S v w"
| "opt_call S (Opt_dir d) w = open_temp_exec_file_dir S d w"
| "opt_call S (Opt_mnt f) w = open_temp_exec_file_mnt S (Some f) w"

text \<open>Only the mount options repeat, so a call with \<open>NULL\<close> is one of \<open>open_temp_exec_file_mnt\<close>.\<close>

definition open_temp_exec_file_opts_next :: "'a tramp_world_scheme sys \<Rightarrow> 'a tramp_world_scheme \<Rightarrow> (bool \<times> 'a tramp_world_scheme) option" where
  "open_temp_exec_file_opts_next S w =
     (if opts_idx w < length open_temp_exec_file_opts
      then let w1 = (if opt_repeat (open_temp_exec_file_opts ! opts_idx w) then snd (open_temp_exec_file_mnt S None w) else w);
               w2 = w1\<lparr>opts_idx := Suc (opts_idx w1)\<rparr>
           in if opts_idx w2 = length open_temp_exec_file_opts then Some (True, w2\<lparr>opts_idx := 0\<rparr>) else Some (False, w2)
      else None)"

text \<open>The fuel is the number of rounds.\<close>

fun open_temp_exec_file_loop :: "nat \<Rightarrow> 'a tramp_world_scheme sys \<Rightarrow> 'a tramp_world_scheme \<Rightarrow> (jint \<times> 'a tramp_world_scheme) option" where
  "open_temp_exec_file_loop 0 S w = None"
| "open_temp_exec_file_loop (Suc n) S w =
     (if opts_idx w < length open_temp_exec_file_opts
      then let opt = open_temp_exec_file_opts ! opts_idx w; (fd, w1) = opt_call S opt w
           in if \<not> opt_repeat opt \<or> fd = - 1
              then do {
                (last, w2) \<leftarrow> open_temp_exec_file_opts_next S w1;
                if last \<or> fd \<noteq> - 1 then Some (fd, w2) else open_temp_exec_file_loop n S w2
              }
              else Some (fd, w1)
      else None)"

definition open_temp_exec_file :: "'a tramp_world_scheme sys \<Rightarrow> 'a tramp_world_scheme \<Rightarrow> (jint \<times> 'a tramp_world_scheme) option" where
  "open_temp_exec_file S w = open_temp_exec_file_loop (length open_temp_exec_file_opts) S w"

section \<open>Initialisation\<close>

fun find_text :: "u64 \<Rightarrow> maps_line option list \<Rightarrow> maps_line option" where
  "find_text addr [] = None"
| "find_text addr (None # ls) = find_text addr ls"
| "find_text addr (Some l # ls) = (if ml_start l \<le> addr \<and> addr < ml_end l then Some l else find_text addr ls)"

definition ffi_tramp_get_libffi :: "'a tramp_world_scheme sys \<Rightarrow> 'a tramp_world_scheme os \<Rightarrow> 'a tramp_world_scheme
     \<Rightarrow> (bool \<times> 'a tramp_world_scheme) option" where
  "ffi_tramp_get_libffi S os w =
     (let addr = tg_text (tg w)
      in case proc_maps S w of
        None \<Rightarrow> Some (False, w)
      | Some ls \<Rightarrow>
        (case find_text addr ls of
          None \<Rightarrow> Some (False, w)
        | Some l \<Rightarrow>
          (let w1 = tg_upd (\<lambda>g. g\<lparr>tg_offset := ml_offset l + (addr - ml_start l)\<rparr>) w;
               (fd, w2) = sys_call (sys_open S (ml_file l)) w1;
               w3 = tg_upd (\<lambda>g. g\<lparr>tg_fd := fd\<rparr>) w2
           in if fd = - 1 then Some (False, w3)
              else do {
                (ok, w4) \<leftarrow> tramp_table_alloc os w3;
                if ok then Some (True, w4) else Some (False, tg_upd (\<lambda>g. g\<lparr>tg_fd := - 1\<rparr>) (sys_done w4))
              })))"

definition ffi_tramp_get_temp_file :: "'a tramp_world_scheme sys \<Rightarrow> 'a tramp_world_scheme os \<Rightarrow> 'a tramp_world_scheme
     \<Rightarrow> (bool \<times> 'a tramp_world_scheme) option" where
  "ffi_tramp_get_temp_file S os w = do {
     w1 \<leftarrow> Some (tg_upd (\<lambda>g. g\<lparr>tg_offset := 0\<rparr>) w);
     (fd, w2) \<leftarrow> open_temp_exec_file S w1;
     w3 \<leftarrow> Some (tg_upd (\<lambda>g. g\<lparr>tg_fd := fd\<rparr>) w2);
     (count, w4) \<leftarrow> Some (sys_call (sys_write S fd (tg_text (tg w3)) (tg_map_size (tg w3))) w3);
     (ok, w5) \<leftarrow> (if 0 \<le> sint count \<and> (count :: u64) = tg_map_size (tg w4) then tramp_table_alloc os w4 else Some (False, w4));
     if ok then Some (True, w5) else Some (False, tg_upd (\<lambda>g. g\<lparr>tg_fd := - 1\<rparr>) (sys_done w5))
   }"

definition ffi_tramp_init_os :: "'a tramp_world_scheme sys \<Rightarrow> 'a tramp_world_scheme os \<Rightarrow> 'a tramp_world_scheme
     \<Rightarrow> (bool \<times> 'a tramp_world_scheme) option" where
  "ffi_tramp_init_os S os w = do {
     (ok, w1) \<leftarrow> ffi_tramp_get_libffi S os w;
     if ok then Some (True, w1) else ffi_tramp_get_temp_file S os w1
   }"

text \<open>\<open>ffi_tramp_arch\<close> of \<^verbatim>\<open>ffi64.c\<close>: the address of the code table, the size of a trampoline and of the table.
  A trampoline takes 40 bytes where it begins with \<open>endbr64\<close>, 32 otherwise.\<close>

abbreviation (input) UNIX64_TRAMP_MAP_SIZE :: size_t where "UNIX64_TRAMP_MAP_SIZE \<equiv> 0x1000"

definition UNIX64_TRAMP_SIZE :: "bool \<Rightarrow> size_t" where
  "UNIX64_TRAMP_SIZE endbr = (if endbr then 40 else 32)"

record tramp_arch =
  trampoline_code_table :: addr
  arch_endbr :: bool

definition ffi_tramp_arch :: "tramp_arch \<Rightarrow> addr \<times> size_t \<times> size_t" where
  "ffi_tramp_arch A = (trampoline_code_table A, UNIX64_TRAMP_SIZE (arch_endbr A), UNIX64_TRAMP_MAP_SIZE)"

definition ffi_tramp_init :: "tramp_arch \<Rightarrow> 'a tramp_world_scheme sys \<Rightarrow> 'a tramp_world_scheme os \<Rightarrow> 'a tramp_world_scheme
     \<Rightarrow> (bool \<times> 'a tramp_world_scheme) option" where
  "ffi_tramp_init A S os w =
     (if tg_status (tg w) = TRAMP_GLOBALS_PASSED then Some (True, w)
      else if tg_status (tg w) = TRAMP_GLOBALS_FAILED then Some (False, w)
      else let (text, size, map_size) = ffi_tramp_arch A;
               w1 = tg_upd (\<lambda>g. g\<lparr>tg_free_tables := NULL, tg_nfree_tables := 0, tg_text := text, tg_size := size,
                                  tg_map_size := map_size, tg_ntramp := ucast (map_size div size)\<rparr>) w
           in if 0 \<le> sint (sys_page_size S) \<and> (sys_page_size S :: u64) > map_size then Some (False, w1)
              else do {
                (ok, w2) \<leftarrow> ffi_tramp_init_os S os w1;
                Some (ok, tg_upd (\<lambda>g. g\<lparr>tg_status := (if ok then TRAMP_GLOBALS_PASSED else TRAMP_GLOBALS_FAILED)\<rparr>) w2)
              })"

section \<open>The interface\<close>

definition ffi_tramp_is_supported :: "tramp_arch \<Rightarrow> 'a tramp_world_scheme sys \<Rightarrow> 'a tramp_world_scheme os \<Rightarrow> 'a tramp_world_scheme
     \<Rightarrow> (bool \<times> 'a tramp_world_scheme) option" where
  "ffi_tramp_is_supported A S os w = ffi_tramp_init A S os w"

definition ffi_tramp_alloc :: "tramp_arch \<Rightarrow> 'a tramp_world_scheme sys \<Rightarrow> 'a tramp_world_scheme os \<Rightarrow> jint \<Rightarrow> 'a tramp_world_scheme
     \<Rightarrow> (tramp_ptr \<times> 'a tramp_world_scheme) option" where
  "ffi_tramp_alloc A S os flags w = do {
     (ok, w1) \<leftarrow> ffi_tramp_init A S os w;
     if \<not> ok \<or> flags \<noteq> 0 then Some (NULL_TRAMP, w1)
     else do {
       (ok, w2) \<leftarrow> tramp_table_alloc os w1;
       if \<not> ok then Some (NULL_TRAMP, w2)
       else do {
         t \<leftarrow> tables w2 (tg_free_tables (tg w2));
         w3 \<leftarrow> tramp_del (tt_free t) w2;
         Some (tt_free t, w3)
       }
     }
   }"

text \<open>\<open>struct tramp_parm\<close>: \<open>data\<close>, then \<open>target\<close>.\<close>

definition ffi_tramp_set_parms :: "tramp_ptr \<Rightarrow> addr \<Rightarrow> addr \<Rightarrow> 'a tramp_world_scheme \<Rightarrow> 'a tramp_world_scheme option" where
  "ffi_tramp_set_parms arg target data w = do {
     r \<leftarrow> tramps w arg;
     m1 \<leftarrow> store (mem w) (tr_parm r + 8) (le_bytes 8 target);
     m2 \<leftarrow> store m1 (tr_parm r) (le_bytes 8 data);
     Some (w\<lparr>mem := m2\<rparr>)
   }"

definition ffi_tramp_get_addr :: "tramp_ptr \<Rightarrow> 'a tramp_world_scheme \<Rightarrow> addr option" where
  "ffi_tramp_get_addr arg w = map_option tr_code (tramps w arg)"

definition ffi_tramp_free :: "'a tramp_world_scheme os \<Rightarrow> tramp_ptr \<Rightarrow> 'a tramp_world_scheme \<Rightarrow> 'a tramp_world_scheme option" where
  "ffi_tramp_free os arg w = tramp_add os arg w"

end
