(* ===== verification/Ffi_Tramp_Ok.thy ===== *)
theory Ffi_Tramp_Ok
  imports Ffi_Tramp
begin

text \<open>
  The invariant of libffi's trampoline tables and what it gives: the lists are well formed, their lengths are
  the counters, a table is listed exactly as long as it has a free trampoline, and no trampoline is handed
  out twice.
\<close>

section \<open>The two kinds of lists\<close>

interpretation tl: dlist NULL tt_prev tt_next "\<lambda>p t. t\<lparr>tt_prev := p\<rparr>" "\<lambda>p t. t\<lparr>tt_next := p\<rparr>"
  by unfold_locales simp_all

interpretation fl: dlist NULL_TRAMP tr_prev tr_next "\<lambda>p t. t\<lparr>tr_prev := p\<rparr>" "\<lambda>p t. t\<lparr>tr_next := p\<rparr>"
  by unfold_locales simp_all

lemma table_core:
  assumes "tl.core t' = tl.core t"
  shows "tt_array t' = tt_array t" "tt_code_table t' = tt_code_table t" "tt_parm_table t' = tt_parm_table t"
    "tt_free t' = tt_free t" "tt_nfree t' = tt_nfree t"
proof -
  have e: "t'\<lparr>tt_next := NULL, tt_prev := NULL\<rparr> = t\<lparr>tt_next := NULL, tt_prev := NULL\<rparr>" using assms by (simp add: tl.core_def)
  show "tt_array t' = tt_array t" "tt_code_table t' = tt_code_table t" "tt_parm_table t' = tt_parm_table t"
    "tt_free t' = tt_free t" "tt_nfree t' = tt_nfree t"
    using arg_cong [OF e, of tt_array] arg_cong [OF e, of tt_code_table] arg_cong [OF e, of tt_parm_table]
      arg_cong [OF e, of tt_free] arg_cong [OF e, of tt_nfree] by simp_all
qed

lemma tramp_core:
  assumes "fl.core t' = fl.core t"
  shows "tr_table t' = tr_table t" "tr_code t' = tr_code t" "tr_parm t' = tr_parm t"
proof -
  have e: "t'\<lparr>tr_next := NULL_TRAMP, tr_prev := NULL_TRAMP\<rparr> = t\<lparr>tr_next := NULL_TRAMP, tr_prev := NULL_TRAMP\<rparr>"
    using assms by (simp add: fl.core_def)
  show "tr_table t' = tr_table t" "tr_code t' = tr_code t" "tr_parm t' = tr_parm t"
    using arg_cong [OF e, of tr_table] arg_cong [OF e, of tr_code] arg_cong [OF e, of tr_parm] by simp_all
qed

text \<open>The source's statements as list operations.\<close>

lemma tables_tramps_swap: "w\<lparr>tables := s, tramps := u\<rparr> = (w :: 'a tramp_world_scheme)\<lparr>tramps := u, tables := s\<rparr>"
  by (rule tramp_world.equality) simp_all

lemma tramp_table_add_push:
  "tramp_table_add table w = map_option (\<lambda>s. w\<lparr>tables := s, tg := (tg w)\<lparr>tg_free_tables := table, tg_nfree_tables := tg_nfree_tables (tg w) + 1\<rparr>\<rparr>)
     (tl.push table (tg_free_tables (tg w)) (tables w))"
  by (auto simp: tramp_table_add_def table_upd_def tl.push_def tg_upd_def update_def map_conv_bind_option split: bind_splits)

lemma tramp_table_del_unlink:
  "tramp_table_del table w = do {
     s \<leftarrow> tl.unlink table (tables w);
     t \<leftarrow> s table;
     Some (w\<lparr>tables := s, tg := (tg w)\<lparr>tg_nfree_tables := tg_nfree_tables (tg w) - 1,
         tg_free_tables := (if tg_free_tables (tg w) = table then tt_next t else tg_free_tables (tg w))\<rparr>\<rparr>) }"
  by (auto simp: tramp_table_del_def table_upd_def tl.unlink_def tg_upd_def update_def map_conv_bind_option split: bind_splits)

definition tramp_put :: "tramp_ptr \<Rightarrow> 'a tramp_world_scheme \<Rightarrow> 'a tramp_world_scheme option" where
  "tramp_put q w = do {
     r \<leftarrow> tramps w q;
     t \<leftarrow> tables w (tr_table r);
     u \<leftarrow> fl.push q (tt_free t) (tramps w);
     Some (w\<lparr>tramps := u, tables := (tables w)(tr_table r \<mapsto> t\<lparr>tt_free := q, tt_nfree := tt_nfree t + 1\<rparr>)\<rparr>)
   }"

lemma tramp_add_put:
  "tramp_add os q w = do {
     r \<leftarrow> tramps w q;
     w4 \<leftarrow> tramp_put q w;
     t \<leftarrow> tables w4 (tr_table r);
     w5 \<leftarrow> (if tt_nfree t = 1 then tramp_table_add (tr_table r) w4 else Some w4);
     t \<leftarrow> tables w5 (tr_table r);
     if tt_nfree t = tg_ntramp (tg w5) \<and> sint (tg_nfree_tables (tg w5)) > 1
     then do { w6 \<leftarrow> tramp_table_del (tr_table r) w5; tramp_table_free os (tr_table r) w6 }
     else Some w5 }"
  by (auto simp: tramp_add_def tramp_put_def tramp_upd_def table_upd_def fl.push_def update_def map_conv_bind_option split: bind_splits)

definition tramp_take :: "tramp_ptr \<Rightarrow> 'a tramp_world_scheme \<Rightarrow> 'a tramp_world_scheme option" where
  "tramp_take q w = do {
     r \<leftarrow> tramps w q;
     t \<leftarrow> tables w (tr_table r);
     u \<leftarrow> fl.unlink q (tramps w);
     r' \<leftarrow> u q;
     Some (w\<lparr>tramps := u, tables := (tables w)(tr_table r \<mapsto>
        t\<lparr>tt_nfree := tt_nfree t - 1, tt_free := (if tt_free t = q then tr_next r' else tt_free t)\<rparr>)\<rparr>)
   }"

lemma tramp_del_take:
  "tramp_del q w = do {
     r \<leftarrow> tramps w q;
     w4 \<leftarrow> tramp_take q w;
     t \<leftarrow> tables w4 (tr_table r);
     if tt_nfree t = 0 then tramp_table_del (tr_table r) w4 else Some w4 }"
  by (auto simp: tramp_del_def tramp_take_def tramp_upd_def table_upd_def fl.unlink_def update_def map_conv_bind_option
      tables_tramps_swap split: bind_splits)

section \<open>The invariant\<close>

text \<open>\<open>n\<close> is the number of trampolines of a table, \<open>k\<close> that of those already set up, \<open>fs\<close> the free ones;
  \<open>code\<close> is the code table in libffi's text, which is mapped into every table.\<close>

definition slots :: "addr \<Rightarrow> nat \<Rightarrow> tramp_ptr set" where
  "slots arr k = {arr} \<times> {..<k}"

definition table_ok :: "byte list \<Rightarrow> nat \<Rightarrow> nat \<Rightarrow> tramp_ptr list \<Rightarrow> 'a tramp_world_scheme \<Rightarrow> addr \<Rightarrow> tramp_table \<Rightarrow> bool" where
  "table_ok code n k fs w tb t \<longleftrightarrow>
     tb \<in> blocks w \<and> tt_array t \<in> blocks w \<and> tt_array t \<notin> dom (tables w)
   \<and> slots (tt_array t) n \<subseteq> dom (tramps w) \<and> k \<le> n
   \<and> (\<forall>i < k. \<exists>r. tramps w (tt_array t, i) = Some r \<and> tr_table r = tb
        \<and> tr_code r = tt_code_table t + of_nat i * tg_size (tg w) \<and> tr_parm r = tt_parm_table t + of_nat i * tg_size (tg w))
   \<and> fl.dll (tramps w) NULL_TRAMP (tt_free t) fs \<and> distinct fs \<and> set fs \<subseteq> slots (tt_array t) k \<and> tt_nfree t = of_nat (length fs)
   \<and> tt_parm_table t = tt_code_table t + 0x1000 \<and> unat (tt_code_table t) + 0x2000 \<le> 2 ^ 64
   \<and> span (tt_code_table t) 0x2000 \<subseteq> dom (mem w) \<and> load (mem w) (tt_code_table t) 0x1000 = Some code"

definition tables_ok :: "byte list \<Rightarrow> nat \<Rightarrow> (addr \<Rightarrow> nat) \<Rightarrow> (addr \<Rightarrow> tramp_ptr list) \<Rightarrow> 'a tramp_world_scheme \<Rightarrow> bool" where
  "tables_ok code n lim fr w \<longleftrightarrow>
     heap_ok w \<and> tg_ntramp (tg w) = of_nat n \<and> 0 < n \<and> n \<le> 128 \<and> tg_map_size (tg w) = 0x1000 \<and> n * unat (tg_size (tg w)) \<le> 0x1000 \<and> 16 \<le> unat (tg_size (tg w))
   \<and> (\<forall>tb t. tables w tb = Some t \<longrightarrow> table_ok code n (lim tb) (fr tb) w tb t)
   \<and> (\<forall>tb t tb' t'. tables w tb = Some t \<and> tables w tb' = Some t' \<and> tb \<noteq> tb' \<longrightarrow>
        tt_array t \<noteq> tt_array t' \<and> span (tt_code_table t) 0x2000 \<inter> span (tt_code_table t') 0x2000 = {})
   \<and> (\<forall>q \<in> dom (tramps w). \<exists>tb t. tables w tb = Some t \<and> q \<in> slots (tt_array t) n)"

text \<open>The list of tables.\<close>

definition list_ok :: "addr list \<Rightarrow> 'a tramp_world_scheme \<Rightarrow> bool" where
  "list_ok ts w \<longleftrightarrow> tl.dll (tables w) NULL (tg_free_tables (tg w)) ts \<and> distinct ts \<and> tg_nfree_tables (tg w) = of_nat (length ts)"

definition listed :: "addr list \<Rightarrow> (addr \<Rightarrow> tramp_ptr list) \<Rightarrow> 'a tramp_world_scheme \<Rightarrow> bool" where
  "listed ts fr w \<longleftrightarrow> (\<forall>tb \<in> dom (tables w). tb \<in> set ts \<longleftrightarrow> fr tb \<noteq> [])"

lemma in_slots [simp]: "q \<in> slots arr k \<longleftrightarrow> fst q = arr \<and> snd q < k"
  by (auto simp: slots_def mem_Times_iff)

lemma slots_card: "distinct fs \<Longrightarrow> set fs \<subseteq> slots arr k \<Longrightarrow> length fs \<le> k"
proof -
  assume fs: "distinct fs" "set fs \<subseteq> slots arr k"
  have "card (set fs) \<le> card (slots arr k)" by (rule card_mono) (simp add: slots_def, rule fs(2))
  then show ?thesis using distinct_card [OF fs(1)] by (simp add: slots_def)
qed

lemma slots_full: "distinct fs \<Longrightarrow> set fs \<subseteq> slots arr n \<Longrightarrow> length fs = n \<Longrightarrow> set fs = slots arr n"
  by (rule card_subset_eq) (simp_all add: slots_def distinct_card)

section \<open>Operations that only change the lists\<close>

abbreviation (input) place :: "tramp_table \<Rightarrow> addr \<times> addr \<times> addr" where
  "place t \<equiv> (tt_array t, tt_code_table t, tt_parm_table t)"

definition relinks :: "'a tramp_world_scheme \<Rightarrow> 'a tramp_world_scheme \<Rightarrow> bool" where
  "relinks w w' \<longleftrightarrow> (\<exists>a b. tg w' = (tg w)\<lparr>tg_free_tables := a, tg_nfree_tables := b\<rparr>)
     \<and> w' = w\<lparr>tg := tg w', tables := tables w', tramps := tramps w'\<rparr>
     \<and> (\<forall>y. map_option place (tables w' y) = map_option place (tables w y)) \<and> fl.same_core (tramps w) (tramps w')"

lemma relinks_more: "relinks w w' \<Longrightarrow> tramp_world.more w' = tramp_world.more w"
proof -
  assume "relinks w w'"
  then have "w' = w\<lparr>tg := tg w', tables := tables w', tramps := tramps w'\<rparr>" unfolding relinks_def by blast
  from arg_cong [OF this, of tramp_world.more] show ?thesis by simp
qed

lemma relinks_frame:
  assumes "relinks w w'"
  shows "mem w' = mem w" "blocks w' = blocks w" "heap_ok w' = heap_ok w" "dom (tables w') = dom (tables w)"
    "dom (tramps w') = dom (tramps w)" "tg_ntramp (tg w') = tg_ntramp (tg w)" "tg_map_size (tg w') = tg_map_size (tg w)"
    "tg_size (tg w') = tg_size (tg w)" "tg_fd (tg w') = tg_fd (tg w)" "tg_offset (tg w') = tg_offset (tg w)"
    "tg_status (tg w') = tg_status (tg w)"
proof -
  obtain g s u a b where w': "w' = w\<lparr>tg := g, tables := s, tramps := u\<rparr>" "g = (tg w)\<lparr>tg_free_tables := a, tg_nfree_tables := b\<rparr>"
    and p: "\<forall>y. map_option place (tables w' y) = map_option place (tables w y)" and c: "fl.same_core (tramps w) (tramps w')"
    using assms unfolding relinks_def by blast
  have "tables w' y = None \<longleftrightarrow> tables w y = None" for y
    using p [rule_format, of y] by (cases "tables w' y"; cases "tables w y") simp_all
  then have d: "dom (tables w') = dom (tables w)" by (simp add: dom_def)
  show "mem w' = mem w" "blocks w' = blocks w" "heap_ok w' = heap_ok w" "dom (tables w') = dom (tables w)"
    "dom (tramps w') = dom (tramps w)" "tg_ntramp (tg w') = tg_ntramp (tg w)" "tg_map_size (tg w') = tg_map_size (tg w)"
    "tg_size (tg w') = tg_size (tg w)" "tg_fd (tg w') = tg_fd (tg w)" "tg_offset (tg w') = tg_offset (tg w)"
    "tg_status (tg w') = tg_status (tg w)"
    using d fl.same_core_dom [OF c] by (simp_all add: w' heap_ok_def)
qed

lemma relinks_table:
  assumes "relinks w w'" "tables w tb = Some t" shows "\<exists>t'. tables w' tb = Some t' \<and> place t' = place t"
proof -
  have "map_option place (tables w' tb) = map_option place (tables w tb)" using assms(1) unfolding relinks_def by blast
  with assms(2) show ?thesis by auto
qed

lemma relinks_trans:
  assumes "relinks w w'" "relinks w' w''" shows "relinks w w''"
proof -
  obtain g s u a b where w': "w' = w\<lparr>tg := g, tables := s, tramps := u\<rparr>" "g = (tg w)\<lparr>tg_free_tables := a, tg_nfree_tables := b\<rparr>"
    using assms(1) unfolding relinks_def by blast
  obtain g2 s2 u2 a2 b2 where w'': "w'' = w'\<lparr>tg := g2, tables := s2, tramps := u2\<rparr>" "g2 = (tg w')\<lparr>tg_free_tables := a2, tg_nfree_tables := b2\<rparr>"
    using assms(2) unfolding relinks_def by blast
  have "fl.same_core (tramps w) (tramps w'')" using assms unfolding relinks_def fl.same_core_def by simp
  moreover have "\<forall>y. map_option place (tables w'' y) = map_option place (tables w y)" using assms unfolding relinks_def by simp
  moreover have "tg w'' = (tg w)\<lparr>tg_free_tables := a2, tg_nfree_tables := b2\<rparr>" by (simp add: w' w'')
  moreover have "w'' = w\<lparr>tg := tg w'', tables := tables w'', tramps := tramps w''\<rparr>" by (simp add: w' w'')
  ultimately show ?thesis unfolding relinks_def by blast
qed

lemma tables_ok_relink:
  assumes ok: "tables_ok code n lim fr w" and r: "relinks w w'"
    and new: "\<And>tb t. tables w tb = Some t \<Longrightarrow> \<exists>t'. tables w' tb = Some t' \<and> tt_array t' = tt_array t
       \<and> tt_code_table t' = tt_code_table t \<and> tt_parm_table t' = tt_parm_table t
       \<and> fl.dll (tramps w') NULL_TRAMP (tt_free t') (fr' tb) \<and> distinct (fr' tb) \<and> set (fr' tb) \<subseteq> slots (tt_array t) (lim tb)
       \<and> tt_nfree t' = of_nat (length (fr' tb))"
  shows "tables_ok code n lim fr' w'"
proof -
  note f = relinks_frame [OF r]
  have old: "\<exists>t. tables w tb = Some t \<and> tt_array t' = tt_array t \<and> tt_code_table t' = tt_code_table t \<and> tt_parm_table t' = tt_parm_table t
       \<and> fl.dll (tramps w') NULL_TRAMP (tt_free t') (fr' tb) \<and> distinct (fr' tb) \<and> set (fr' tb) \<subseteq> slots (tt_array t) (lim tb)
       \<and> tt_nfree t' = of_nat (length (fr' tb))" if t': "tables w' tb = Some t'" for tb t'
  proof -
    from t' f(4) obtain t where "tables w tb = Some t" by blast
    with new [OF this] t' show ?thesis by auto
  qed
  have core: "\<exists>r'. tramps w' q = Some r' \<and> tr_table r' = tr_table r \<and> tr_code r' = tr_code r \<and> tr_parm r' = tr_parm r"
    if q: "tramps w q = Some r" for q r
  proof -
    have "fl.same_core (tramps w) (tramps w')" using r unfolding relinks_def by blast
    from fl.same_core_node [OF this q] show ?thesis using tramp_core by blast
  qed
  have "table_ok code n (lim tb) (fr' tb) w' tb t'" if t': "tables w' tb = Some t'" for tb t'
  proof -
    obtain t where t: "tables w tb = Some t" "tt_array t' = tt_array t" "tt_code_table t' = tt_code_table t" "tt_parm_table t' = tt_parm_table t"
      "fl.dll (tramps w') NULL_TRAMP (tt_free t') (fr' tb)" "distinct (fr' tb)" "set (fr' tb) \<subseteq> slots (tt_array t) (lim tb)"
      "tt_nfree t' = of_nat (length (fr' tb))" using old [OF t'] by blast
    have o: "table_ok code n (lim tb) (fr tb) w tb t" using ok t(1) by (simp add: tables_ok_def)
    have "\<exists>r'. tramps w' (tt_array t, i) = Some r' \<and> tr_table r' = tb
        \<and> tr_code r' = tt_code_table t + of_nat i * tg_size (tg w) \<and> tr_parm r' = tt_parm_table t + of_nat i * tg_size (tg w)"
      if i: "i < lim tb" for i
    proof -
      obtain r where r: "tramps w (tt_array t, i) = Some r" "tr_table r = tb"
        "tr_code r = tt_code_table t + of_nat i * tg_size (tg w)" "tr_parm r = tt_parm_table t + of_nat i * tg_size (tg w)"
        using o i unfolding table_ok_def by blast
      from core [OF r(1)] r(2-4) show ?thesis by auto
    qed
    with o t show ?thesis unfolding table_ok_def t(2-4) f by simp
  qed
  moreover have "\<forall>tb t tb' t'. tables w' tb = Some t \<and> tables w' tb' = Some t' \<and> tb \<noteq> tb' \<longrightarrow>
        tt_array t \<noteq> tt_array t' \<and> span (tt_code_table t) 0x2000 \<inter> span (tt_code_table t') 0x2000 = {}"
  proof (intro allI impI)
    fix tb t tb' t' assume a: "tables w' tb = Some t \<and> tables w' tb' = Some t' \<and> tb \<noteq> tb'"
    obtain u u' where "tables w tb = Some u" "tt_array t = tt_array u" "tt_code_table t = tt_code_table u"
      "tables w tb' = Some u'" "tt_array t' = tt_array u'" "tt_code_table t' = tt_code_table u'"
      using old [of tb t] old [of tb' t'] a by blast
    with ok a show "tt_array t \<noteq> tt_array t' \<and> span (tt_code_table t) 0x2000 \<inter> span (tt_code_table t') 0x2000 = {}"
      unfolding tables_ok_def by metis
  qed
  moreover have "\<forall>q \<in> dom (tramps w'). \<exists>tb t. tables w' tb = Some t \<and> q \<in> slots (tt_array t) n"
  proof
    fix q assume "q \<in> dom (tramps w')"
    then obtain tb t where t: "tables w tb = Some t" "q \<in> slots (tt_array t) n" using ok unfolding tables_ok_def f by blast
    with new [OF t(1)] show "\<exists>tb t. tables w' tb = Some t \<and> q \<in> slots (tt_array t) n" by metis
  qed
  ultimately show ?thesis using ok unfolding tables_ok_def f by blast
qed

section \<open>The free trampolines of a table\<close>

lemma table_tramp:
  assumes "tables_ok code n lim fr w" "tables w tb = Some t" "fst q = tt_array t" "snd q < lim tb"
  shows "\<exists>r. tramps w q = Some r \<and> tr_table r = tb \<and> tr_code r = tt_code_table t + of_nat (snd q) * tg_size (tg w)
      \<and> tr_parm r = tt_parm_table t + of_nat (snd q) * tg_size (tg w)"
proof -
  have "table_ok code n (lim tb) (fr tb) w tb t" using assms(1,2) by (simp add: tables_ok_def)
  then have "\<forall>i < lim tb. \<exists>r. tramps w (tt_array t, i) = Some r \<and> tr_table r = tb \<and> tr_code r = tt_code_table t + of_nat i * tg_size (tg w)
      \<and> tr_parm r = tt_parm_table t + of_nat i * tg_size (tg w)" unfolding table_ok_def by blast
  from this [rule_format, OF assms(4)] assms(3) show ?thesis by (cases q) auto
qed

lemma table_facts:
  assumes "tables_ok code n lim fr w" "tables w tb = Some t"
  shows "fl.dll (tramps w) NULL_TRAMP (tt_free t) (fr tb)" "distinct (fr tb)" "set (fr tb) \<subseteq> slots (tt_array t) (lim tb)"
    "tt_nfree t = of_nat (length (fr tb))" "length (fr tb) \<le> lim tb" "lim tb \<le> n" "n \<le> 128" "tb \<noteq> NULL" "tt_array t \<noteq> NULL" "tb \<noteq> tt_array t"
    "tb \<in> blocks w" "tt_array t \<in> blocks w" "tt_array t \<notin> dom (tables w)"
proof -
  have o: "table_ok code n (lim tb) (fr tb) w tb t" and h: "heap_ok w" "n \<le> 128" using assms by (simp_all add: tables_ok_def)
  show "fl.dll (tramps w) NULL_TRAMP (tt_free t) (fr tb)" "distinct (fr tb)" "set (fr tb) \<subseteq> slots (tt_array t) (lim tb)"
    "tt_nfree t = of_nat (length (fr tb))" "lim tb \<le> n" "n \<le> 128" and b: "tb \<in> blocks w" "tt_array t \<in> blocks w" "tt_array t \<notin> dom (tables w)"
    using o h unfolding table_ok_def by simp_all
  then show "length (fr tb) \<le> lim tb" by (intro slots_card)
  have "NULL \<notin> blocks w" using h by (simp add: heap_ok_def)
  with b show "tb \<noteq> NULL" "tt_array t \<noteq> NULL" by metis+
  show "tb \<noteq> tt_array t" using b(3) assms(2) by auto
qed

lemma other_slots:
  assumes "tables_ok code n lim fr w" "tables w tb = Some t" "tables w tb' = Some t'" "tb \<noteq> tb'" "fst q = tt_array t"
  shows "q \<notin> set (fr tb')"
proof
  assume "q \<in> set (fr tb')"
  then have "fst q = tt_array t'" using table_facts(3) [OF assms(1,3)] by auto
  moreover have "tt_array t \<noteq> tt_array t'" using assms(1-4) unfolding tables_ok_def by blast
  ultimately show False using assms(5) by simp
qed

definition same_links :: "'a tramp_world_scheme \<Rightarrow> 'a tramp_world_scheme \<Rightarrow> bool" where
  "same_links w w' \<longleftrightarrow> tg w' = tg w
     \<and> (\<forall>y. map_option (\<lambda>t. (tt_prev t, tt_next t)) (tables w' y) = map_option (\<lambda>t. (tt_prev t, tt_next t)) (tables w y))"

lemma list_ok_links: "same_links w w' \<Longrightarrow> list_ok ts w' = list_ok ts w"
proof -
  assume a: "same_links w w'"
  have "tl.dll (tables w') p h xs = tl.dll (tables w) p h xs" for p h xs
    by (rule tl.dll_links) (use a in \<open>simp add: same_links_def\<close>)
  then show ?thesis using a by (simp add: list_ok_def same_links_def)
qed

text \<open>A change of one table's free list.\<close>

lemma tables_ok_one:
  assumes ok: "tables_ok code n lim fr w" and t: "tables w tb = Some t" and w': "w' = w\<lparr>tramps := u, tables := (tables w)(tb \<mapsto> t')\<rparr>"
    and t': "tt_array t' = tt_array t" "tt_code_table t' = tt_code_table t" "tt_parm_table t' = tt_parm_table t"
    and u: "fl.same_core (tramps w) u" "\<And>y. fst y \<noteq> tt_array t \<Longrightarrow> u y = tramps w y"
    and l: "fl.dll u NULL_TRAMP (tt_free t') fs" "distinct fs" "set fs \<subseteq> slots (tt_array t) (lim tb)" "tt_nfree t' = of_nat (length fs)"
  shows "tables_ok code n lim (fr(tb := fs)) w' \<and> relinks w w'"
proof -
  have r: "relinks w w'"
    unfolding relinks_def w'
    by (rule conjI, rule exI [of _ "tg_free_tables (tg w)"], rule exI [of _ "tg_nfree_tables (tg w)"]) (use u t t' in \<open>auto simp: tables_tramps_swap\<close>)
  have "tables_ok code n lim (fr(tb := fs)) w'"
  proof (rule tables_ok_relink [OF ok r])
    fix tb' v assume v: "tables w tb' = Some v"
    show "\<exists>v'. tables w' tb' = Some v' \<and> tt_array v' = tt_array v
       \<and> tt_code_table v' = tt_code_table v \<and> tt_parm_table v' = tt_parm_table v
       \<and> fl.dll (tramps w') NULL_TRAMP (tt_free v') ((fr(tb := fs)) tb') \<and> distinct ((fr(tb := fs)) tb')
       \<and> set ((fr(tb := fs)) tb') \<subseteq> slots (tt_array v) (lim tb') \<and> tt_nfree v' = of_nat (length ((fr(tb := fs)) tb'))"
    proof (cases "tb' = tb")
      case True
      with v t have "v = t" by simp
      with True show ?thesis using t' l by (simp add: w')
    next
      case False
      note f = table_facts [OF ok v]
      have "fl.dll u NULL_TRAMP (tt_free v) (fr tb') = fl.dll (tramps w) NULL_TRAMP (tt_free v) (fr tb')"
      proof (rule fl.dll_cong)
        fix x assume "x \<in> set (fr tb')"
        with other_slots [OF ok t v, of x] False have "fst x \<noteq> tt_array t" by blast
        then show "u x = tramps w x" by (rule u(2))
      qed
      with f False v show ?thesis by (simp add: w')
    qed
  qed
  with r show ?thesis by simp
qed

lemma tramp_put_ok:
  assumes ok: "tables_ok code n lim fr w" and t: "tables w tb = Some t" and q: "fst q = tt_array t" "snd q < lim tb" "q \<notin> set (fr tb)"
  shows "\<exists>w' t'. tramp_put q w = Some w' \<and> relinks w w' \<and> same_links w w' \<and> tables_ok code n lim (fr(tb := q # fr tb)) w'
     \<and> tables w' tb = Some t' \<and> tt_nfree t' = of_nat (Suc (length (fr tb)))"
proof -
  obtain r where r: "tramps w q = Some r" "tr_table r = tb" using table_tramp [OF ok t q(1,2)] by blast
  note f = table_facts [OF ok t]
  have nz: "q \<noteq> NULL_TRAMP" using q(1) f(9) by auto
  obtain u where u: "fl.push q (tt_free t) (tramps w) = Some u" "fl.dll u NULL_TRAMP q (q # fr tb)" "fl.same_core (tramps w) u"
    "\<forall>y. y \<notin> set (q # fr tb) \<longrightarrow> u y = tramps w y"
    using fl.push_dll [OF f(1,2) q(3) nz r(1)] by blast
  let ?t = "t\<lparr>tt_free := q, tt_nfree := tt_nfree t + 1\<rparr>"
  let ?w = "w\<lparr>tramps := u, tables := (tables w)(tb \<mapsto> ?t)\<rparr>"
  have p: "tramp_put q w = Some ?w" by (simp add: tramp_put_def r t u(1))
  have o: "tables_ok code n lim (fr(tb := q # fr tb)) ?w \<and> relinks w ?w"
  proof (rule tables_ok_one [OF ok t refl _ _ _ u(3)])
    show "u y = tramps w y" if "fst y \<noteq> tt_array t" for y
    proof -
      have "y \<notin> set (q # fr tb)" using that q(1) f(3) by (auto simp: subset_eq)
      then show ?thesis using u(4) by blast
    qed
    show "fl.dll u NULL_TRAMP (tt_free ?t) (q # fr tb)" using u(2) by simp
    show "distinct (q # fr tb)" using f(2) q(3) by simp
    show "set (q # fr tb) \<subseteq> slots (tt_array t) (lim tb)" using f(3) q by simp
    show "tt_nfree ?t = of_nat (length (q # fr tb))" using f(4) by simp
  qed simp_all
  moreover have "same_links w ?w" using t by (auto simp: same_links_def)
  ultimately show ?thesis using p f(4) by (intro exI [of _ ?w] exI [of _ ?t]) simp
qed

lemma tramp_take_ok:
  assumes ok: "tables_ok code n lim fr w" and t: "tables w tb = Some t" and q: "q \<in> set (fr tb)"
  shows "\<exists>w' t'. tramp_take q w = Some w' \<and> relinks w w' \<and> same_links w w' \<and> tables_ok code n lim (fr(tb := remove1 q (fr tb))) w'
     \<and> tables w' tb = Some t' \<and> tt_nfree t' = of_nat (length (fr tb) - 1)"
proof -
  note f = table_facts [OF ok t]
  have q': "fst q = tt_array t" "snd q < lim tb" using q f(3) by auto
  obtain r where r: "tramps w q = Some r" "tr_table r = tb" using table_tramp [OF ok t q'] by blast
  obtain u where u: "fl.unlink q (tramps w) = Some u" "fl.dll u NULL_TRAMP (if tt_free t = q then tr_next r else tt_free t) (remove1 q (fr tb))"
    "fl.same_core (tramps w) u" "\<forall>y. y \<notin> set (fr tb) \<longrightarrow> u y = tramps w y"
    using fl.unlink_dll [OF f(1,2) q r(1)] by blast
  have uq: "\<exists>r'. u q = Some r' \<and> tr_next r' = tr_next r"
    using fl.unlink_self [OF f(1,2) q r(1) u(1)] by blast
  then obtain r' where r': "u q = Some r'" "tr_next r' = tr_next r" by blast
  let ?t = "t\<lparr>tt_nfree := tt_nfree t - 1, tt_free := (if tt_free t = q then tr_next r' else tt_free t)\<rparr>"
  let ?w = "w\<lparr>tramps := u, tables := (tables w)(tb \<mapsto> ?t)\<rparr>"
  have p: "tramp_take q w = Some ?w" by (simp add: tramp_take_def r t u(1) r')
  have n: "tt_nfree ?t = of_nat (length (remove1 q (fr tb)))"
  proof -
    have "length (fr tb) = Suc (length (remove1 q (fr tb)))" using q length_pos_if_in_set [OF q] by (simp add: length_remove1)
    then show ?thesis using f(4) by simp
  qed
  have o: "tables_ok code n lim (fr(tb := remove1 q (fr tb))) ?w \<and> relinks w ?w"
  proof (rule tables_ok_one [OF ok t refl _ _ _ u(3) _ _ _ _ n])
    show "u y = tramps w y" if "fst y \<noteq> tt_array t" for y
    proof -
      have "y \<notin> set (fr tb)" using that f(3) by (auto simp: subset_eq)
      then show ?thesis using u(4) by blast
    qed
    show "fl.dll u NULL_TRAMP (tt_free ?t) (remove1 q (fr tb))" using u(2) r'(2) by (cases "tt_free t = q") simp_all
    show "distinct (remove1 q (fr tb))" using f(2) by simp
    show "set (remove1 q (fr tb)) \<subseteq> slots (tt_array t) (lim tb)" using f(3) set_remove1_subset [of q "fr tb"] by blast
  qed simp_all
  moreover have "same_links w ?w" using t by (auto simp: same_links_def)
  ultimately show ?thesis using p n q by (intro exI [of _ ?w] exI [of _ ?t]) (simp add: length_remove1)
qed

section \<open>The list of tables\<close>

lemma tables_ok_list:
  assumes ok: "tables_ok code n lim fr w" and c: "tl.same_core (tables w) s"
    and w': "w' = w\<lparr>tables := s, tg := (tg w)\<lparr>tg_free_tables := a, tg_nfree_tables := b\<rparr>\<rparr>"
  shows "tables_ok code n lim fr w' \<and> relinks w w'"
proof -
  have p: "map_option place (s y) = map_option place (tables w y)" for y
  proof (cases "tables w y")
    case None
    then have "map_option tl.core (s y) = None" using c by (simp add: tl.same_core_def)
    then show ?thesis using None by simp
  next
    case (Some t)
    then obtain t' where "s y = Some t'" "tl.core t' = tl.core t" using tl.same_core_node [OF c] by blast
    then show ?thesis using Some table_core [of t' t] by simp
  qed
  have r: "relinks w w'"
    unfolding relinks_def w' by (rule conjI, rule exI [of _ a], rule exI [of _ b]) (use p in simp_all)
  have "tables_ok code n lim fr w'"
  proof (rule tables_ok_relink [OF ok r])
    fix tb t assume t: "tables w tb = Some t"
    obtain t' where t': "s tb = Some t'" "tl.core t' = tl.core t" using tl.same_core_node [OF c t] by blast
    note f = table_facts [OF ok t] and d = table_core [OF t'(2)]
    show "\<exists>t'. tables w' tb = Some t' \<and> tt_array t' = tt_array t
       \<and> tt_code_table t' = tt_code_table t \<and> tt_parm_table t' = tt_parm_table t
       \<and> fl.dll (tramps w') NULL_TRAMP (tt_free t') (fr tb) \<and> distinct (fr tb) \<and> set (fr tb) \<subseteq> slots (tt_array t) (lim tb)
       \<and> tt_nfree t' = of_nat (length (fr tb))"
      by (rule exI [of _ t']) (use f t' d in \<open>simp add: w'\<close>)
  qed
  with r show ?thesis by simp
qed

lemma tramp_table_add_ok:
  assumes ok: "tables_ok code n lim fr w" and l: "list_ok ts w" and t: "tables w tb = Some t" "tb \<notin> set ts"
  shows "\<exists>w'. tramp_table_add tb w = Some w' \<and> relinks w w' \<and> tables_ok code n lim fr w' \<and> list_ok (tb # ts) w'"
proof -
  note d = l [unfolded list_ok_def]
  obtain s where s: "tl.push tb (tg_free_tables (tg w)) (tables w) = Some s" "tl.dll s NULL tb (tb # ts)" "tl.same_core (tables w) s"
    using tl.push_dll [of "tables w" "tg_free_tables (tg w)" ts tb t] d t table_facts(8) [OF ok t(1)] by blast
  let ?w = "w\<lparr>tables := s, tg := (tg w)\<lparr>tg_free_tables := tb, tg_nfree_tables := tg_nfree_tables (tg w) + 1\<rparr>\<rparr>"
  have "tramp_table_add tb w = Some ?w" by (simp add: tramp_table_add_push s(1))
  moreover have "list_ok (tb # ts) ?w" using s(2) d t(2) by (simp add: list_ok_def)
  ultimately show ?thesis using tables_ok_list [OF ok s(3) refl] by blast
qed

lemma list_listed_table:
  assumes "list_ok ts w" "tb \<in> set ts" shows "\<exists>t. tables w tb = Some t"
proof -
  have "tl.dll (tables w) NULL (tg_free_tables (tg w)) ts" using assms by (simp add: list_ok_def)
  from tl.dll_dom [OF this] assms(2) show ?thesis by blast
qed

lemma tramp_table_del_ok:
  assumes ok: "tables_ok code n lim fr w" and l: "list_ok ts w" and tb: "tb \<in> set ts"
  shows "\<exists>w'. tramp_table_del tb w = Some w' \<and> relinks w w' \<and> tables_ok code n lim fr w' \<and> list_ok (remove1 tb ts) w'"
proof -
  obtain t where t: "tables w tb = Some t" using list_listed_table [OF l tb] by blast
  have d: "tl.dll (tables w) NULL (tg_free_tables (tg w)) ts" "distinct ts" and n: "tg_nfree_tables (tg w) = of_nat (length ts)"
    using l by (simp_all add: list_ok_def)
  obtain s where s: "tl.unlink tb (tables w) = Some s" "tl.same_core (tables w) s"
    "tl.dll s NULL (if tg_free_tables (tg w) = tb then tt_next t else tg_free_tables (tg w)) (remove1 tb ts)"
    using tl.unlink_dll [OF d tb t] by blast
  obtain t' where t': "s tb = Some t'" "tt_next t' = tt_next t" using tl.unlink_self [OF d tb t s(1)] by blast
  let ?w = "w\<lparr>tables := s, tg := (tg w)\<lparr>tg_nfree_tables := tg_nfree_tables (tg w) - 1,
         tg_free_tables := (if tg_free_tables (tg w) = tb then tt_next t' else tg_free_tables (tg w))\<rparr>\<rparr>"
  have r: "tramp_table_del tb w = Some ?w" by (simp add: tramp_table_del_unlink s(1) t')
  have "length ts = Suc (length (remove1 tb ts))" using tb length_pos_if_in_set [OF tb] by (simp add: length_remove1)
  then have "tg_nfree_tables (tg w) - 1 = of_nat (length (remove1 tb ts))" using n by simp
  then have "list_ok (remove1 tb ts) ?w" using s(3) d(2) t'(2) by (cases "tg_free_tables (tg w) = tb") (simp_all add: list_ok_def)
  moreover have "tables_ok code n lim fr ?w \<and> relinks w ?w"
    by (rule tables_ok_list [OF ok s(2)], rule arg_cong [where f = "\<lambda>g. w\<lparr>tables := s, tg := g\<rparr>"], rule tramp_globals.equality) simp_all
  ultimately show ?thesis using r by blast
qed

section \<open>Giving a table back\<close>

lemma tables_ok_remove:
  assumes ok: "tables_ok code n lim fr w" and l: "list_ok ts w" and t: "tables w tb = Some t" and out: "tb \<notin> set ts"
    and w': "tg w' = tg w" "tables w' = (tables w)(tb := None)" "tramps w' = (\<lambda>q. if in_array (tt_array t) q then None else tramps w q)"
    and h: "heap_ok w'" "blocks w' = blocks w - {tb, tt_array t}"
    and m: "\<And>a. a \<notin> span (tt_code_table t) 0x2000 \<Longrightarrow> mem w' a = mem w a"
  shows "tables_ok code n lim fr w' \<and> list_ok ts w'"
proof
  have apart: "tt_array v \<noteq> tt_array t \<and> span (tt_code_table v) 0x2000 \<inter> span (tt_code_table t) 0x2000 = {}"
    if "tables w tb' = Some v" "tb' \<noteq> tb" for tb' v
    using ok t that unfolding tables_ok_def by blast
  have "table_ok code n (lim tb') (fr tb') w' tb' v" if v: "tables w' tb' = Some v" for tb' v
  proof -
    from v have tb': "tables w tb' = Some v" "tb' \<noteq> tb" by (auto simp: w' split: if_splits)
    note a = apart [OF tb'] and f = table_facts [OF ok tb'(1)] and g = table_facts [OF ok t]
    have o: "table_ok code n (lim tb') (fr tb') w tb' v" using ok tb'(1) by (simp add: tables_ok_def)
    have tr: "tramps w' q = tramps w q" if "fst q = tt_array v" for q using a that by (simp add: w' in_array_def)
    have sp: "mem w' b = mem w b" if "b \<in> span (tt_code_table v) 0x2000" for b using a that by (intro m) blast
    have b: "tb' \<in> blocks w'" "tt_array v \<in> blocks w'"
      using f(11,12,13) g(11,12,13) a t tb' by (auto simp: h)
    have "fl.dll (tramps w') NULL_TRAMP (tt_free v) (fr tb')"
    proof -
      have "fl.dll (tramps w') NULL_TRAMP (tt_free v) (fr tb') = fl.dll (tramps w) NULL_TRAMP (tt_free v) (fr tb')"
        by (rule fl.dll_cong, rule tr) (use f(3) in auto)
      with f(1) show ?thesis by simp
    qed
    moreover have "slots (tt_array v) n \<subseteq> dom (tramps w')"
    proof
      fix q assume q: "q \<in> slots (tt_array v) n"
      then have "q \<in> dom (tramps w)" using o unfolding table_ok_def by blast
      with q tr [of q] show "q \<in> dom (tramps w')" by auto
    qed
    moreover have "\<forall>i < lim tb'. \<exists>r. tramps w' (tt_array v, i) = Some r \<and> tr_table r = tb'
        \<and> tr_code r = tt_code_table v + of_nat i * tg_size (tg w') \<and> tr_parm r = tt_parm_table v + of_nat i * tg_size (tg w')"
    proof -
      have "\<forall>i < lim tb'. \<exists>r. tramps w (tt_array v, i) = Some r \<and> tr_table r = tb'
        \<and> tr_code r = tt_code_table v + of_nat i * tg_size (tg w) \<and> tr_parm r = tt_parm_table v + of_nat i * tg_size (tg w)"
        using o unfolding table_ok_def by blast
      then show ?thesis by (simp only: tr fst_conv w'(1))
    qed
    moreover have "span (tt_code_table v) 0x2000 \<subseteq> dom (mem w')"
    proof
      fix b assume b: "b \<in> span (tt_code_table v) 0x2000"
      then have "b \<in> dom (mem w)" using o unfolding table_ok_def by blast
      then show "b \<in> dom (mem w')" using sp [OF b] by auto
    qed
    moreover have "load (mem w') (tt_code_table v) 0x1000 = load (mem w) (tt_code_table v) 0x1000"
      by (rule load_cong, rule sp) (use span_mono [of "0x1000" "0x2000" "tt_code_table v"] in auto)
    moreover have "tt_array v \<notin> dom (tables w')" using f(13) by (auto simp: w')
    ultimately show ?thesis using o b unfolding table_ok_def by simp
  qed
  moreover have "\<forall>tb t tb' t'. tables w' tb = Some t \<and> tables w' tb' = Some t' \<and> tb \<noteq> tb' \<longrightarrow>
        tt_array t \<noteq> tt_array t' \<and> span (tt_code_table t) 0x2000 \<inter> span (tt_code_table t') 0x2000 = {}"
    using ok unfolding tables_ok_def w' by (simp split: if_splits)
  moreover have "\<forall>q \<in> dom (tramps w'). \<exists>tb t. tables w' tb = Some t \<and> q \<in> slots (tt_array t) n"
  proof
    fix q assume q: "q \<in> dom (tramps w')"
    then have nq: "fst q \<noteq> tt_array t" and "q \<in> dom (tramps w)" by (auto simp: w' in_array_def split: if_splits)
    then obtain tb' v where v: "tables w tb' = Some v" "q \<in> slots (tt_array v) n" using ok unfolding tables_ok_def by blast
    with nq t have "tb' \<noteq> tb" by auto
    with v show "\<exists>tb t. tables w' tb = Some t \<and> q \<in> slots (tt_array t) n" by (auto simp: w')
  qed
  ultimately show "tables_ok code n lim fr w'" using ok h(1) unfolding tables_ok_def w'(1) by blast
  have "tl.dll (tables w') NULL (tg_free_tables (tg w)) ts = tl.dll (tables w) NULL (tg_free_tables (tg w)) ts"
    by (rule tl.dll_cong) (use out in \<open>auto simp: w'\<close>)
  then show "list_ok ts w'" using l by (simp add: list_ok_def w'(1))
qed

lemma tramp_table_unmap_ok:
  assumes os: "posix os" and ok: "tables_ok code n lim fr w" and t: "tables w tb = Some t"
  shows "\<exists>e. tramp_table_unmap os tb w = Some (w\<lparr>mem := unmap (tt_code_table t) 0x2000 (mem w), errno := e\<rparr>)"
proof -
  have o: "tt_parm_table t = tt_code_table t + 0x1000" "unat (tt_code_table t) + 0x2000 \<le> 2 ^ 64" "span (tt_code_table t) 0x2000 \<subseteq> dom (mem w)"
    "tg_map_size (tg w) = 0x1000"
    using ok t by (simp_all add: tables_ok_def table_ok_def)
  have two: "span (tt_code_table t) 0x2000 = span (tt_code_table t) 0x1000 \<union> span (tt_code_table t + 0x1000) 0x1000"
    using span_append [of "tt_code_table t" "0x1000" "0x1000"] by simp
  have ap: "span (tt_code_table t) 0x1000 \<inter> span (tt_code_table t + 0x1000) 0x1000 = {}"
    using span_apart [of "0x1000" "0x1000" "0x1000" "tt_code_table t"] by simp
  have un: "\<And>p n w. span p (unat n) \<subseteq> dom (mem w) \<Longrightarrow>
        \<exists>r e. sys_munmap os p n w = Some (r, w\<lparr>mem := unmap p (unat n) (mem w), errno := e\<rparr>)"
    using os unfolding posix_def by blast
  have n: "unat (0x1000 :: 64 word) = 0x1000" by simp
  obtain r1 e1 where c1: "sys_munmap os (tt_code_table t) 0x1000 w = Some (r1, w\<lparr>mem := unmap (tt_code_table t) 0x1000 (mem w), errno := e1\<rparr>)"
    using un [of "tt_code_table t" "0x1000" w] o(3) two unfolding n by blast
  let ?w = "w\<lparr>mem := unmap (tt_code_table t) 0x1000 (mem w), errno := e1\<rparr>"
  have "span (tt_code_table t + 0x1000) 0x1000 \<subseteq> dom (mem ?w)" using o(3) two ap by (auto simp: unmap_def)
  then obtain r2 e2 where c2: "sys_munmap os (tt_parm_table t) 0x1000 ?w
      = Some (r2, ?w\<lparr>mem := unmap (tt_code_table t + 0x1000) 0x1000 (mem ?w), errno := e2\<rparr>)"
    using un [of "tt_parm_table t" "0x1000" ?w] unfolding n o(1) by blast
  have "unmap (tt_code_table t + 0x1000) 0x1000 (mem ?w) = unmap (tt_code_table t) 0x2000 (mem w)"
    by (auto simp: unmap_def two fun_eq_iff)
  then have "tramp_table_unmap os tb w = Some (w\<lparr>mem := unmap (tt_code_table t) 0x2000 (mem w), errno := e2\<rparr>)"
    by (simp add: tramp_table_unmap_def t c1 c2 o(4))
  then show ?thesis by blast
qed

lemma tramp_table_free_ok:
  assumes os: "posix os" and ok: "tables_ok code n lim fr w" and l: "list_ok ts w" and t: "tables w tb = Some t" and out: "tb \<notin> set ts"
  shows "\<exists>w'. tramp_table_free os tb w = Some w' \<and> tables_ok code n lim fr w' \<and> list_ok ts w' \<and> tables w' = (tables w)(tb := None)
     \<and> tramps w' = (\<lambda>q. if in_array (tt_array t) q then None else tramps w q) \<and> tg w' = tg w
     \<and> blocks w' = blocks w - {tb, tt_array t} \<and> mem w' = unmap (tt_code_table t) 0x2000 (mem w)
     \<and> tramp_world.more w' = tramp_world.more w"
proof -
  note f = table_facts [OF ok t]
  obtain e where u: "tramp_table_unmap os tb w = Some (w\<lparr>mem := unmap (tt_code_table t) 0x2000 (mem w), errno := e\<rparr>)"
    using tramp_table_unmap_ok [OF os ok t] by blast
  let ?w = "w\<lparr>live := (live w)(tt_array t := None, tb := None), mem := unmap (tt_code_table t) 0x2000 (mem w), errno := e,
     tables := (tables w)(tb := None), tramps := (\<lambda>q. if in_array (tt_array t) q then None else tramps w q)\<rparr>"
  have r: "tramp_table_free os tb w = Some ?w"
    using u t f(8-12) by (auto simp: tramp_table_free_def free_tramps_def free_table_block_def free_def intro!: tramp_world.equality)
  have b: "blocks ?w = blocks w - {tb, tt_array t}" by auto
  have h: "heap_ok ?w" using ok by (auto simp: tables_ok_def heap_ok_def)
  have "tables_ok code n lim fr ?w \<and> list_ok ts ?w"
    by (rule tables_ok_remove [OF ok l t out _ _ _ h b]) (simp_all add: unmap_def)
  with r b show ?thesis by (intro exI [of _ ?w]) simp
qed

section \<open>Giving a trampoline back and handing one out\<close>

definition tramps_ok :: "byte list \<Rightarrow> nat \<Rightarrow> (addr \<Rightarrow> nat) \<Rightarrow> (addr \<Rightarrow> tramp_ptr list) \<Rightarrow> addr list \<Rightarrow> 'a tramp_world_scheme \<Rightarrow> bool" where
  "tramps_ok code n lim fr ts w \<longleftrightarrow> tables_ok code n lim fr w \<and> list_ok ts w \<and> listed ts fr w"

lemma tramps_okD:
  assumes "tramps_ok code n lim fr ts w"
  shows "tables_ok code n lim fr w" "list_ok ts w" "listed ts fr w" "distinct ts" "set ts \<subseteq> dom (tables w)"
  using assms list_listed_table [of ts w] by (auto simp: tramps_ok_def list_ok_def)

lemma tables_ok_cong:
  assumes "\<And>tb. tb \<in> dom (tables w) \<Longrightarrow> fr tb = fr' tb \<and> lim tb = lim' tb"
  shows "tables_ok code n lim fr w = tables_ok code n lim' fr' w"
proof -
  have "table_ok code n (lim tb) (fr tb) w tb t = table_ok code n (lim' tb) (fr' tb) w tb t" if "tables w tb = Some t" for tb t
    using assms [OF domI, OF that] by simp
  then have "(\<forall>tb t. tables w tb = Some t \<longrightarrow> table_ok code n (lim tb) (fr tb) w tb t)
    = (\<forall>tb t. tables w tb = Some t \<longrightarrow> table_ok code n (lim' tb) (fr' tb) w tb t)" by blast
  then show ?thesis unfolding tables_ok_def by (simp only:)
qed

text \<open>The counters read back as numbers.\<close>

lemma nfree_count: "k \<le> 128 \<Longrightarrow> ((of_nat k :: jint) = 1) = (k = 1) \<and> ((of_nat k :: jint) = 0) = (k = 0)"
proof -
  assume "k \<le> 128"
  then have "unat (of_nat k :: jint) = k" by (intro unat_of_nat32) simp
  then show ?thesis by (simp add: word_unat_eq_iff)
qed

lemma nfree_full: "k \<le> n \<Longrightarrow> n \<le> 128 \<Longrightarrow> ((of_nat k :: jint) = of_nat n) = (k = n)"
proof -
  assume "k \<le> n" "n \<le> 128"
  then have "unat (of_nat k :: jint) = k" "unat (of_nat n :: jint) = n" by (auto intro!: unat_of_nat32)
  then show ?thesis by metis
qed

lemma tramp_add_ok:
  assumes os: "posix os" and ok: "tramps_ok code n lim fr ts w" and t: "tables w tb = Some t"
    and q: "fst q = tt_array t" "snd q < lim tb" "q \<notin> set (fr tb)" and few: "length ts < 2 ^ 31 - 1"
    and ts1: "ts1 = (if fr tb = [] then tb # ts else ts)"
  shows "\<exists>w'. tramp_add os q w = Some w' \<and>
     (if Suc (length (fr tb)) = n \<and> 1 < length ts1
      then tramps_ok code n lim fr (remove1 tb ts1) w' \<and> dom (tables w') = dom (tables w) - {tb}
         \<and> dom (tramps w') = {q \<in> dom (tramps w). fst q \<noteq> tt_array t} \<and> blocks w' = blocks w - {tb, tt_array t}
         \<and> mem w' = unmap (tt_code_table t) 0x2000 (mem w) \<and> tramp_world.more w' = tramp_world.more w
         \<and> (\<forall>y t'. tables w' y = Some t' \<longrightarrow> map_option place (tables w y) = Some (place t'))
         \<and> (\<exists>a b. tg w' = (tg w)\<lparr>tg_free_tables := a, tg_nfree_tables := b\<rparr>)
         \<and> (\<forall>p. fst p \<noteq> tt_array t \<longrightarrow> map_option fl.core (tramps w' p) = map_option fl.core (tramps w p))
      else tramps_ok code n lim (fr(tb := q # fr tb)) ts1 w' \<and> relinks w w')"
proof -
  note k = tramps_okD [OF ok]
  note f = table_facts [OF k(1) t]
  obtain r where r: "tramps w q = Some r" "tr_table r = tb" using table_tramp [OF k(1) t q(1,2)] by blast
  obtain w4 t4 where w4: "tramp_put q w = Some w4" "relinks w w4" "same_links w w4" "tables_ok code n lim (fr(tb := q # fr tb)) w4"
    "tables w4 tb = Some t4" "tt_nfree t4 = of_nat (Suc (length (fr tb)))"
    using tramp_put_ok [OF k(1) t q] by blast
  have l4: "list_ok ts w4" using list_ok_links [OF w4(3)] k(2) by blast
  have f4: "(fr(tb := q # fr tb)) tb = q # fr tb" by simp
  note g4 = table_facts [OF w4(4,5), unfolded f4]
  have len: "Suc (length (fr tb)) \<le> 128" using g4(5-7) by simp
  have one: "(tt_nfree t4 = 1) = (fr tb = [])" using nfree_count [OF len] w4(6) by simp
  have tbts: "tb \<in> set ts \<longleftrightarrow> fr tb \<noteq> []" using k(3) t unfolding listed_def by blast
  have "\<exists>w5. (if tt_nfree t4 = 1 then tramp_table_add tb w4 else Some w4) = Some w5 \<and> relinks w4 w5
      \<and> tables_ok code n lim (fr(tb := q # fr tb)) w5 \<and> list_ok ts1 w5"
  proof (cases "fr tb = []")
    case True
    then show ?thesis using tramp_table_add_ok [OF w4(4) l4 w4(5)] tbts one ts1 by simp
  next
    case False
    have "relinks w4 w4" unfolding relinks_def
      by (rule conjI, rule exI [of _ "tg_free_tables (tg w4)"], rule exI [of _ "tg_nfree_tables (tg w4)"]) simp_all
    with False show ?thesis using w4(4) l4 one ts1 by simp
  qed
  then obtain w5 where w5: "(if tt_nfree t4 = 1 then tramp_table_add tb w4 else Some w4) = Some w5" "relinks w4 w5"
    "tables_ok code n lim (fr(tb := q # fr tb)) w5" "list_ok ts1 w5" by blast
  note r5 = relinks_trans [OF w4(2) w5(2)]
  note fw = relinks_frame [OF r5]
  obtain t5 where t5: "tables w5 tb = Some t5" "place t5 = place t" using relinks_table [OF r5 t] by blast
  note g5 = table_facts [OF w5(3) t5(1), unfolded f4]
  have nf: "tt_nfree t5 = of_nat (Suc (length (fr tb)))" using g5(4) by simp
  have nt: "tg_ntramp (tg w5) = of_nat n" using w5(3) by (simp add: tables_ok_def)
  have full: "(tt_nfree t5 = tg_ntramp (tg w5)) = (Suc (length (fr tb)) = n)"
    unfolding nf nt by (rule nfree_full) (use g5(5-7) in auto)
  have len1: "length ts1 < 2 ^ 31" using few ts1 by simp
  then have many: "(sint (tg_nfree_tables (tg w5)) > 1) = (1 < length ts1)"
    using w5(4) sint_of_nat32 [OF len1] by (simp add: list_ok_def)
  have in1: "tb \<in> set ts1" using ts1 tbts by simp
  have step: "tramp_add os q w = (if Suc (length (fr tb)) = n \<and> 1 < length ts1
     then do { w6 \<leftarrow> tramp_table_del tb w5; tramp_table_free os tb w6 } else Some w5)"
    unfolding tramp_add_put by (simp only: r w4(1,5) w5(1) t5(1) full many Option.bind.bind_lunit)
  have li: "listed ts1 (fr(tb := q # fr tb)) w5"
    using k(3) in1 ts1 unfolding listed_def fw(4) by auto
  show ?thesis
  proof (cases "Suc (length (fr tb)) = n \<and> 1 < length ts1")
    case False
    show ?thesis unfolding if_not_P [OF False]
      by (rule exI [of _ w5]) (use step [unfolded if_not_P [OF False]] w5(3,4) li r5 in \<open>simp add: tramps_ok_def\<close>)
  next
    case True
    obtain w6 where w6: "tramp_table_del tb w5 = Some w6" "relinks w5 w6" "tables_ok code n lim (fr(tb := q # fr tb)) w6"
      "list_ok (remove1 tb ts1) w6" using tramp_table_del_ok [OF w5(3,4) in1] by blast
    have d1: "distinct ts1" using w5(4) by (simp add: list_ok_def)
    obtain t6 where t6: "tables w6 tb = Some t6" "place t6 = place t" using relinks_table [OF relinks_trans [OF r5 w6(2)] t] by blast
    obtain w7 where w7: "tramp_table_free os tb w6 = Some w7" "tables_ok code n lim (fr(tb := q # fr tb)) w7" "list_ok (remove1 tb ts1) w7"
      "tables w7 = (tables w6)(tb := None)" "tramps w7 = (\<lambda>q. if in_array (tt_array t6) q then None else tramps w6 q)" "tg w7 = tg w6"
      "blocks w7 = blocks w6 - {tb, tt_array t6}" "mem w7 = unmap (tt_code_table t6) 0x2000 (mem w6)"
      "tramp_world.more w7 = tramp_world.more w6"
      using tramp_table_free_ok [OF os w6(3,4) t6(1)] d1 by auto
    note fw6 = relinks_frame [OF relinks_trans [OF r5 w6(2)]]
    have dt: "dom (tables w7) = dom (tables w) - {tb}" using fw6(4) by (simp add: w7(4))
    have "tables_ok code n lim fr w7"
    proof -
      have "fr tb' = (fr(tb := q # fr tb)) tb'" if "tb' \<in> dom (tables w7)" for tb' using that dt by auto
      with w7(2) show ?thesis using tables_ok_cong [of w7 fr "fr(tb := q # fr tb)" lim lim code n] by blast
    qed
    moreover have "listed (remove1 tb ts1) fr w7"
      using li d1 dt unfolding listed_def fw(4) by (auto simp: split: if_splits)
    moreover have "dom (tramps w7) = {q \<in> dom (tramps w). fst q \<noteq> tt_array t}"
    proof -
      have "dom (tramps w7) = {q \<in> dom (tramps w6). fst q \<noteq> tt_array t6}" by (auto simp: w7(5) in_array_def split: if_splits)
      then show ?thesis using t6(2) fw6(5) by simp
    qed
    moreover have "\<exists>a b. tg w7 = (tg w)\<lparr>tg_free_tables := a, tg_nfree_tables := b\<rparr>"
      using relinks_trans [OF r5 w6(2)] unfolding relinks_def w7(6) by blast
    moreover have "\<forall>p. fst p \<noteq> tt_array t \<longrightarrow> map_option fl.core (tramps w7 p) = map_option fl.core (tramps w p)"
      using relinks_trans [OF r5 w6(2)] t6(2) unfolding relinks_def fl.same_core_def w7(5) in_array_def by simp
    moreover have "\<forall>y t'. tables w7 y = Some t' \<longrightarrow> map_option place (tables w y) = Some (place t')"
    proof (intro allI impI)
      fix y t' assume "tables w7 y = Some t'"
      then have "tables w6 y = Some t'" by (auto simp: w7(4) split: if_splits)
      moreover have "map_option place (tables w6 y) = map_option place (tables w y)"
        using relinks_trans [OF r5 w6(2)] unfolding relinks_def by blast
      ultimately show "map_option place (tables w y) = Some (place t')" by simp
    qed
    moreover have "tramp_world.more w7 = tramp_world.more w" using relinks_more [OF relinks_trans [OF r5 w6(2)]] w7(9) by simp
    ultimately show ?thesis unfolding if_P [OF True]
      by (intro exI [of _ w7]) (use step [unfolded if_P [OF True]] w6(1) w7(1,3,7,8) t6(2) fw6(1,2) dt in \<open>simp add: tramps_ok_def\<close>)
  qed
qed

lemma tramp_del_ok:
  assumes ok: "tramps_ok code n lim fr ts w" and t: "tables w tb = Some t" and q: "q \<in> set (fr tb)"
  shows "\<exists>w'. tramp_del q w = Some w' \<and> relinks w w'
     \<and> tramps_ok code n lim (fr(tb := remove1 q (fr tb))) (if remove1 q (fr tb) = [] then remove1 tb ts else ts) w'"
proof -
  note k = tramps_okD [OF ok]
  note f = table_facts [OF k(1) t]
  have q': "fst q = tt_array t" "snd q < lim tb" using q f(3) by auto
  obtain r where r: "tramps w q = Some r" "tr_table r = tb" using table_tramp [OF k(1) t q'] by blast
  obtain w4 t4 where w4: "tramp_take q w = Some w4" "relinks w w4" "same_links w w4" "tables_ok code n lim (fr(tb := remove1 q (fr tb))) w4"
    "tables w4 tb = Some t4" "tt_nfree t4 = of_nat (length (fr tb) - 1)"
    using tramp_take_ok [OF k(1) t q] by blast
  have l4: "list_ok ts w4" using list_ok_links [OF w4(3)] k(2) by blast
  have "length (fr tb) - 1 \<le> 128" using f(5-7) by simp
  then have none: "(tt_nfree t4 = 0) = (remove1 q (fr tb) = [])"
    using nfree_count [of "length (fr tb) - 1"] w4(6) q by (metis length_0_conv length_remove1)
  have tbts: "tb \<in> set ts" using k(3) t q unfolding listed_def by auto
  have step: "tramp_del q w = (if remove1 q (fr tb) = [] then tramp_table_del tb w4 else Some w4)"
    unfolding tramp_del_take by (simp only: r w4(1,5) none Option.bind.bind_lunit)
  note lk = k(3) [unfolded listed_def]
  show ?thesis
  proof (cases "remove1 q (fr tb) = []")
    case True
    obtain w5 where w5: "tramp_table_del tb w4 = Some w5" "relinks w4 w5" "tables_ok code n lim (fr(tb := remove1 q (fr tb))) w5"
      "list_ok (remove1 tb ts) w5" using tramp_table_del_ok [OF w4(4) l4 tbts] by blast
    note r5 = relinks_trans [OF w4(2) w5(2)]
    have "listed (remove1 tb ts) (fr(tb := remove1 q (fr tb))) w5"
      using lk k(4) True unfolding listed_def relinks_frame(4) [OF r5] by simp
    then show ?thesis unfolding if_P [OF True]
      by (intro exI [of _ w5]) (use step [unfolded if_P [OF True]] w5 r5 in \<open>simp add: tramps_ok_def\<close>)
  next
    case False
    have "listed ts (fr(tb := remove1 q (fr tb))) w4"
      using lk tbts False q unfolding listed_def relinks_frame(4) [OF w4(2)] by auto
    then show ?thesis unfolding if_not_P [OF False]
      by (intro exI [of _ w4]) (use step [unfolded if_not_P [OF False]] w4 l4 in \<open>simp add: tramps_ok_def\<close>)
  qed
qed

section \<open>Setting up a table\<close>

text \<open>Like \<open>relinks\<close>, but the trampolines of one array are written.\<close>

definition fills :: "addr \<Rightarrow> 'a tramp_world_scheme \<Rightarrow> 'a tramp_world_scheme \<Rightarrow> bool" where
  "fills arr w w' \<longleftrightarrow> (\<exists>a b. tg w' = (tg w)\<lparr>tg_free_tables := a, tg_nfree_tables := b\<rparr>)
     \<and> w' = w\<lparr>tg := tg w', tables := tables w', tramps := tramps w'\<rparr>
     \<and> (\<forall>y. map_option place (tables w' y) = map_option place (tables w y)) \<and> dom (tramps w') = dom (tramps w)
     \<and> (\<forall>y. fst y \<noteq> arr \<longrightarrow> map_option fl.core (tramps w' y) = map_option fl.core (tramps w y))"

lemma relinks_fills: "relinks w w' \<Longrightarrow> fills arr w w'"
proof -
  assume r: "relinks w w'"
  then have c: "fl.same_core (tramps w) (tramps w')" unfolding relinks_def by blast
  have "\<forall>y. fst y \<noteq> arr \<longrightarrow> map_option fl.core (tramps w' y) = map_option fl.core (tramps w y)"
    using c unfolding fl.same_core_def by blast
  with r fl.same_core_dom [OF c] show "fills arr w w'" unfolding relinks_def fills_def by blast
qed

lemma fills_trans:
  assumes "fills arr w w'" "fills arr w' w''" shows "fills arr w w''"
proof -
  obtain g s u a b where w': "w' = w\<lparr>tg := g, tables := s, tramps := u\<rparr>" "g = (tg w)\<lparr>tg_free_tables := a, tg_nfree_tables := b\<rparr>"
    using assms(1) unfolding fills_def by blast
  obtain g2 s2 u2 a2 b2 where w'': "w'' = w'\<lparr>tg := g2, tables := s2, tramps := u2\<rparr>" "g2 = (tg w')\<lparr>tg_free_tables := a2, tg_nfree_tables := b2\<rparr>"
    using assms(2) unfolding fills_def by blast
  have "tg w'' = (tg w)\<lparr>tg_free_tables := a2, tg_nfree_tables := b2\<rparr>" by (simp add: w' w'')
  moreover have "w'' = w\<lparr>tg := tg w'', tables := tables w'', tramps := tramps w''\<rparr>" by (simp add: w' w'')
  moreover have "(\<forall>y. map_option place (tables w'' y) = map_option place (tables w y)) \<and> dom (tramps w'') = dom (tramps w)
     \<and> (\<forall>y. fst y \<noteq> arr \<longrightarrow> map_option fl.core (tramps w'' y) = map_option fl.core (tramps w y))"
    using assms unfolding fills_def by simp
  ultimately show ?thesis unfolding fills_def by blast
qed

lemma fills_frame:
  assumes "fills arr w w'"
  shows "mem w' = mem w" "blocks w' = blocks w" "tg_size (tg w') = tg_size (tg w)"
proof -
  obtain g s u a b where w': "w' = w\<lparr>tg := g, tables := s, tramps := u\<rparr>" "g = (tg w)\<lparr>tg_free_tables := a, tg_nfree_tables := b\<rparr>"
    using assms(1) unfolding fills_def by blast
  then show "mem w' = mem w" "blocks w' = blocks w" "tg_size (tg w') = tg_size (tg w)" by simp_all
qed

lemma tramp_setup_ok:
  assumes ok: "tramps_ok code n lim fr ts w" and t: "tables w tb = Some t" and i: "lim tb = i" "i < n"
    and c: "c = tt_code_table t + of_nat i * tg_size (tg w)" "p = tt_parm_table t + of_nat i * tg_size (tg w)"
  shows "\<exists>w'. tramp_upd (tt_array t, i) (\<lambda>r. r\<lparr>tr_table := tb, tr_code := c, tr_parm := p\<rparr>) w = Some w' \<and> fills (tt_array t) w w'
     \<and> tramps_ok code n (lim(tb := Suc i)) fr ts w' \<and> tables w' = tables w"
proof -
  note k = tramps_okD [OF ok]
  let ?q = "(tt_array t, i)" and ?lim = "lim(tb := Suc i)"
  have o: "table_ok code n i (fr tb) w tb t" using k(1) t i by (auto simp: tables_ok_def)
  then have "slots (tt_array t) n \<subseteq> dom (tramps w)" unfolding table_ok_def by blast
  then have "?q \<in> dom (tramps w)" by (rule subsetD) (use i(2) in simp)
  then obtain r where r: "tramps w ?q = Some r" by blast
  let ?u = "(tramps w)(?q \<mapsto> r\<lparr>tr_table := tb, tr_code := c, tr_parm := p\<rparr>)"
  let ?w = "w\<lparr>tramps := ?u\<rparr>"
  have run: "tramp_upd ?q (\<lambda>r. r\<lparr>tr_table := tb, tr_code := c, tr_parm := p\<rparr>) w = Some ?w"
    by (simp add: tramp_upd_def update_def r)
  have du: "dom ?u = dom (tramps w)" using r by auto
  have free: "?q \<notin> set (fr tb')" if t': "tables w tb' = Some t'" for tb' t'
  proof (cases "tb' = tb")
    case True
    then show ?thesis using table_facts(3) [OF k(1) t] i(1) by auto
  next
    case False
    then show ?thesis using other_slots [OF k(1) t t', of ?q] by auto
  qed
  have tab: "table_ok code n (?lim tb') (fr tb') ?w tb' t'" if t': "tables w tb' = Some t'" for tb' t'
  proof -
    have o': "table_ok code n (lim tb') (fr tb') w tb' t'" using k(1) t' by (simp add: tables_ok_def)
    have d: "fl.dll ?u NULL_TRAMP (tt_free t') (fr tb') = fl.dll (tramps w) NULL_TRAMP (tt_free t') (fr tb')"
      by (rule fl.dll_cong) (use free [OF t'] in auto)
    show ?thesis
    proof (cases "tb' = tb")
      case True
      with t t' have tt: "t' = t" by simp
      have "\<forall>j < Suc i. \<exists>r. ?u (tt_array t, j) = Some r \<and> tr_table r = tb
        \<and> tr_code r = tt_code_table t + of_nat j * tg_size (tg w) \<and> tr_parm r = tt_parm_table t + of_nat j * tg_size (tg w)"
        using o c by (auto simp: table_ok_def less_Suc_eq)
      moreover have "set (fr tb) \<subseteq> slots (tt_array t) (Suc i)" using o unfolding table_ok_def by fastforce
      ultimately show ?thesis using o d du i(2) True tt unfolding table_ok_def by simp
    next
      case False
      have "tt_array t' \<noteq> tt_array t" using k(1) t t' False unfolding tables_ok_def by blast
      then have e: "?u (tt_array t', j) = tramps w (tt_array t', j)" for j by simp
      have "\<forall>j < lim tb'. \<exists>r. tramps w (tt_array t', j) = Some r \<and> tr_table r = tb'
        \<and> tr_code r = tt_code_table t' + of_nat j * tg_size (tg w) \<and> tr_parm r = tt_parm_table t' + of_nat j * tg_size (tg w)"
        using o' unfolding table_ok_def by blast
      then have "\<forall>j < lim tb'. \<exists>r. ?u (tt_array t', j) = Some r \<and> tr_table r = tb'
        \<and> tr_code r = tt_code_table t' + of_nat j * tg_size (tg w) \<and> tr_parm r = tt_parm_table t' + of_nat j * tg_size (tg w)"
        unfolding e .
      then show ?thesis using o' d du False unfolding table_ok_def by simp
    qed
  qed
  have "tables_ok code n ?lim fr ?w" using k(1) tab du unfolding tables_ok_def by (simp add: heap_ok_def)
  moreover have "list_ok ts ?w" "listed ts fr ?w" using k(2,3) by (simp_all add: list_ok_def listed_def)
  moreover have "fills (tt_array t) w ?w"
    unfolding fills_def by (rule conjI, rule exI [of _ "tg_free_tables (tg w)"], rule exI [of _ "tg_nfree_tables (tg w)"])
      (use du in simp_all)
  ultimately show ?thesis using run by (intro exI [of _ ?w]) (simp add: tramps_ok_def)
qed

end
