(* ===== verification/Ffi_Tramp_Life.thy ===== *)
theory Ffi_Tramp_Life
  imports Ffi_Tramp_Ok
begin

text \<open>
  The life of a static trampoline: setting up a table, handing a trampoline out, its parameters, and giving it
  back, over the invariant of \<open>Ffi_Tramp_Ok\<close>.
\<close>

section \<open>Filling a new table\<close>

lemma tramp_fill_ok:
  assumes "posix os" and "tramps_ok code n (lim(tb := i)) (fr(tb := map (Pair arr) (rev [0..<i]))) (if i = 0 then [] else [tb]) w"
    and "tables w tb = Some t" "tt_array t = arr" "i + k = n"
    and "c = tt_code_table t + of_nat i * tg_size (tg w)" "p = tt_parm_table t + of_nat i * tg_size (tg w)"
  shows "\<exists>w'. tramp_fill os tb arr i k c p w = Some w' \<and> fills arr w w'
     \<and> tramps_ok code n (lim(tb := n)) (fr(tb := map (Pair arr) (rev [0..<n]))) [tb] w'"
  using assms
proof (induction k arbitrary: i w t c p)
  case 0
  have "fills arr w w"
    unfolding fills_def by (rule conjI, rule exI [of _ "tg_free_tables (tg w)"], rule exI [of _ "tg_nfree_tables (tg w)"]) simp_all
  moreover have "0 < n" using 0(2) by (simp add: tramps_ok_def tables_ok_def)
  moreover have "i = n" using 0(5) by simp
  ultimately show ?case using 0(2) by (intro exI [of _ w]) (simp del: fun_upd_apply)
next
  case (Suc k)
  let ?q = "(arr, i)" and ?fs = "\<lambda>i. map (Pair arr) (rev [0..<i])"
  let ?ts = "if i = 0 then [] else [tb]"
  note os = Suc.prems(1) and ok = Suc.prems(2) and t = Suc.prems(3)
  have li: "(lim(tb := i)) tb = i" and i: "i < n" using Suc.prems(5) by simp_all
  obtain w1 where w1: "tramp_upd ?q (\<lambda>r. r\<lparr>tr_table := tb, tr_code := c, tr_parm := p\<rparr>) w = Some w1" "fills arr w w1"
    "tramps_ok code n (lim(tb := Suc i)) (fr(tb := ?fs i)) ?ts w1" "tables w1 = tables w"
    using tramp_setup_ok [OF ok t li i Suc.prems(6,7)] unfolding fun_upd_upd Suc.prems(4) by blast
  have few: "length ?ts < 2 ^ 31 - 1" by simp
  have ts1: "[tb] = (if (fr(tb := ?fs i)) tb = [] then tb # ?ts else ?ts)" by simp
  have t1: "tables w1 tb = Some t" using t w1(4) by simp
  have frq: "?q \<notin> set ((fr(tb := ?fs i)) tb)" by auto
  have sn: "snd ?q < (lim(tb := Suc i)) tb" by simp
  have fq: "fst ?q = tt_array t" using Suc.prems(4) by simp
  have no: "\<not> (Suc (length ((fr(tb := ?fs i)) tb)) = n \<and> 1 < length [tb])" by simp
  obtain w2 where w2: "tramp_add os ?q w1 = Some w2" "relinks w1 w2"
    "tramps_ok code n (lim(tb := Suc i)) ((fr(tb := ?fs i))(tb := ?q # (fr(tb := ?fs i)) tb)) [tb] w2"
    using tramp_add_ok [OF os w1(3) t1 fq sn frq few ts1] unfolding if_not_P [OF no] by blast
  have fu: "(fr(tb := ?fs i))(tb := ?q # (fr(tb := ?fs i)) tb) = fr(tb := ?fs (Suc i))" by simp
  note ok2 = w2(3) [unfolded fu]
  note f02 = fills_trans [OF w1(2) relinks_fills [OF w2(2)]]
  obtain t2 where t2: "tables w2 tb = Some t2" "place t2 = place t" using relinks_table [OF w2(2) t1] by blast
  have "\<exists>w'. tramp_fill os tb arr (Suc i) k (c + tg_size (tg w)) (p + tg_size (tg w)) w2 = Some w' \<and> fills arr w2 w'
     \<and> tramps_ok code n (lim(tb := n)) (fr(tb := ?fs n)) [tb] w'"
  proof (rule Suc.IH [OF os _ t2(1)])
    show "tramps_ok code n (lim(tb := Suc i)) (fr(tb := ?fs (Suc i))) (if Suc i = 0 then [] else [tb]) w2"
      using ok2 by (simp only: nat.distinct if_False)
  qed (use t2(2) Suc.prems(4-7) fills_frame(3) [OF f02] in \<open>simp_all add: algebra_simps\<close>)
  then obtain w' where w': "tramp_fill os tb arr (Suc i) k (c + tg_size (tg w)) (p + tg_size (tg w)) w2 = Some w'" "fills arr w2 w'"
     "tramps_ok code n (lim(tb := n)) (fr(tb := ?fs n)) [tb] w'" by blast
  have "tramp_fill os tb arr i (Suc k) c p w = Some w'" by (simp add: w1(1) w2(1) w'(1))
  with w'(3) fills_trans [OF f02 w'(2)] show ?case by blast
qed

section \<open>Creating a table\<close>

text \<open>Mapping the code of the file: either the range asked for holds the code afterwards, or nothing has changed.\<close>

definition maps_file :: "'a tramp_world_scheme os \<Rightarrow> jint \<Rightarrow> u64 \<Rightarrow> byte list \<Rightarrow> bool" where
  "maps_file os fd off code \<longleftrightarrow>
     (\<forall>p w q w'. sys_mmap os p 0x1000 (PROT_READ OR PROT_EXEC) (MAP_PRIVATE OR MAP_FIXED) fd off w = (q, w') \<longrightarrow>
        span p 0x1000 \<subseteq> dom (mem w) \<longrightarrow>
        q = MAP_FAILED \<and> (\<exists>e. w' = w\<lparr>errno := e\<rparr>) \<or> q = p \<and> (\<exists>e. w' = w\<lparr>mem := map_block p code (mem w), errno := e\<rparr>))"

lemma malloc_frame: "malloc k w = Some (p, w') \<Longrightarrow> \<exists>sc lv. w' = w\<lparr>script := sc, live := lv\<rparr>"
  unfolding malloc_def by (auto simp: Let_def)

lemma tramp_table_map_ok:
  assumes os: "posix os" and mf: "maps_file os (tg_fd (tg w)) (tg_offset (tg w)) code" "length code = 0x1000"
    and size: "tg_map_size (tg w) = 0x1000" and t: "tables w tb = Some t"
  shows "\<exists>ok w'. tramp_table_map os tb w = Some (ok, w') \<and>
     (if ok then \<exists>c m e. w' = w\<lparr>mem := m, errno := e, tables := (tables w)(tb \<mapsto> t\<lparr>tt_code_table := c, tt_parm_table := c + 0x1000\<rparr>)\<rparr>
        \<and> span c 0x2000 \<inter> dom (mem w) = {} \<and> dom m = span c 0x2000 \<union> dom (mem w) \<and> (\<forall>a \<in> dom (mem w). m a = mem w a)
        \<and> load m c 0x1000 = Some code \<and> unat c + 0x2000 \<le> 2 ^ 64
      else \<exists>e t'. w' = w\<lparr>errno := e, tables := (tables w)(tb \<mapsto> t')\<rparr> \<or> w' = w\<lparr>errno := e\<rparr>)"
proof -
  have n: "unat (0x2000 :: 64 word) = 0x2000" by simp
  have or: "PROT_READ OR PROT_WRITE = (3 :: jint)" "MAP_PRIVATE OR MAP_ANON = (MAP_ANON OR MAP_PRIVATE :: jint)" by simp_all
  obtain c w1 where m1: "sys_mmap os NULL 0x2000 (PROT_READ OR PROT_WRITE) (MAP_ANON OR MAP_PRIVATE) (- 1) 0 w = (c, w1)" by fastforce
  have p1: "(c = MAP_FAILED \<longrightarrow> (\<exists>e. w1 = w\<lparr>errno := e\<rparr>))
        \<and> (c \<noteq> MAP_FAILED \<longrightarrow> c \<noteq> NULL \<and> span c (unat (0x2000 :: 64 word)) \<inter> dom (mem w) = {} \<and> unat c + unat (0x2000 :: 64 word) \<le> 2 ^ 64
             \<and> (\<exists>e. w1 = w\<lparr>mem := map_block c (replicate (unat (0x2000 :: 64 word)) 0) (mem w), errno := e\<rparr>))"
    using os m1 unfolding posix_def by blast
  have dbl: "(0x1000 :: 64 word) * 2 = 0x2000" by simp
  show ?thesis
  proof (cases "c = MAP_FAILED")
    case True
    then obtain e where "w1 = w\<lparr>errno := e\<rparr>" using p1 by blast
    moreover have "tramp_table_map os tb w = Some (False, w1)"
      using m1 True unfolding tramp_table_map_def Let_def size dbl by (simp add: or)
    ultimately show ?thesis by (intro exI [of _ False] exI [of _ w1]) auto
  next
    case False
    then obtain e where d: "span c 0x2000 \<inter> dom (mem w) = {}" "unat c + 0x2000 \<le> 2 ^ 64"
      and w1: "w1 = w\<lparr>mem := map_block c (replicate 0x2000 0) (mem w), errno := e\<rparr>"
      using p1 unfolding n by blast
    let ?m1 = "map_block c (replicate 0x2000 0) (mem w)"
    have s: "span c 0x1000 \<subseteq> span c 0x2000" by (rule span_mono) simp
    have d1: "dom ?m1 = span c 0x2000 \<union> dom (mem w)" by (simp only: map_block_dom length_replicate)
    obtain q w2 where m2: "sys_mmap os c 0x1000 (PROT_READ OR PROT_EXEC) (MAP_PRIVATE OR MAP_FIXED) (tg_fd (tg w)) (tg_offset (tg w)) w1 = (q, w2)"
      by fastforce
    have "span c 0x1000 \<subseteq> dom (mem w1)" using s d1 w1 by auto
    then have p2: "q = MAP_FAILED \<and> (\<exists>e. w2 = w1\<lparr>errno := e\<rparr>) \<or> q = c \<and> (\<exists>e. w2 = w1\<lparr>mem := map_block c code (mem w1), errno := e\<rparr>)"
      using mf(1) m2 unfolding maps_file_def by blast
    have run: "tramp_table_map os tb w = do {
         w3 \<leftarrow> table_upd tb (\<lambda>t. t\<lparr>tt_code_table := q\<rparr>) w2;
         if q = MAP_FAILED then map_option (\<lambda>(r, w4). (False, w4)) (sys_munmap os c 0x2000 w3)
         else map_option (Pair True) (table_upd tb (\<lambda>t. t\<lparr>tt_parm_table := tt_code_table t + 0x1000\<rparr>) w3) }"
      using m1 m2 False w1 unfolding tramp_table_map_def Let_def size dbl by (simp add: or)
    show ?thesis
    proof (cases "q = MAP_FAILED")
      case True
      then obtain e2 where w2: "w2 = w\<lparr>mem := ?m1, errno := e2\<rparr>" using p2 False w1 by auto
      let ?w3 = "w\<lparr>mem := ?m1, errno := e2, tables := (tables w)(tb \<mapsto> t\<lparr>tt_code_table := q\<rparr>)\<rparr>"
      have "span c (unat (0x2000 :: 64 word)) \<subseteq> dom (mem ?w3)" using d1 n by simp
      then obtain r e3 where u: "sys_munmap os c 0x2000 ?w3 = Some (r, ?w3\<lparr>mem := unmap c (unat (0x2000 :: 64 word)) (mem ?w3), errno := e3\<rparr>)"
        using os unfolding posix_def by blast
      have "unmap c 0x2000 ?m1 = mem w" using unmap_map_block [of c "replicate 0x2000 0" "mem w"] d(1) by simp
      then have w4: "?w3\<lparr>mem := unmap c (unat (0x2000 :: 64 word)) (mem ?w3), errno := e3\<rparr>
          = w\<lparr>errno := e3, tables := (tables w)(tb \<mapsto> t\<lparr>tt_code_table := q\<rparr>)\<rparr>"
        unfolding n by simp
      have "table_upd tb (\<lambda>t. t\<lparr>tt_code_table := q\<rparr>) w2 = Some ?w3" by (simp add: table_upd_def update_def t w2)
      then have "tramp_table_map os tb w = Some (False, w\<lparr>errno := e3, tables := (tables w)(tb \<mapsto> t\<lparr>tt_code_table := q\<rparr>)\<rparr>)"
        using u True unfolding run w4 by simp
      then show ?thesis by (intro exI [of _ False] exI conjI) auto
    next
      case False
      let ?m = "map_block c code ?m1"
      obtain e2 where q: "q = c" and w2: "w2 = w\<lparr>mem := ?m, errno := e2\<rparr>" using p2 False w1 by auto
      let ?w' = "w\<lparr>mem := ?m, errno := e2, tables := (tables w)(tb \<mapsto> t\<lparr>tt_code_table := c, tt_parm_table := c + 0x1000\<rparr>)\<rparr>"
      have "tramp_table_map os tb w = Some (True, ?w')"
        using False unfolding run by (simp add: table_upd_def update_def t w2 q)
      moreover have "dom ?m = span c 0x2000 \<union> dom (mem w)" using s d1 mf(2) by (auto simp: map_block_dom)
      moreover have "?m b = mem w b" if "b \<in> dom (mem w)" for b
      proof -
        have o: "b \<notin> span c 0x2000" using that d(1) by blast
        then have "b \<notin> span c (length code)" using s mf(2) by auto
        then have "?m b = ?m1 b" by (rule map_block_outside)
        also have "\<dots> = mem w b" by (rule map_block_outside) (use o in simp)
        finally show ?thesis .
      qed
      moreover have "load ?m c 0x1000 = Some code" using load_map_block [of code c ?m1] mf(2) by simp
      ultimately show ?thesis using d by (intro exI [of _ True] exI [of _ ?w']) (simp only: if_True, blast)
    qed
  qed
qed

lemma tables_ok_new:
  assumes ok: "tables_ok code n lim fr w"
    and w': "tg w' = tg w" "tables w' = (tables w)(tb \<mapsto> t)"
      "tramps w' = (\<lambda>q. if in_array (tt_array t) q \<and> snd q < n then Some (junk q) else tramps w q)"
    and b: "heap_ok w'" "blocks w' = insert (tt_array t) (insert tb (blocks w))" "tb \<notin> blocks w" "tt_array t \<notin> blocks w" "tb \<noteq> tt_array t"
    and t: "tt_free t = NULL_TRAMP" "tt_nfree t = 0" "tt_parm_table t = tt_code_table t + 0x1000" "unat (tt_code_table t) + 0x2000 \<le> 2 ^ 64"
    and m: "span (tt_code_table t) 0x2000 \<inter> dom (mem w) = {}" "dom (mem w') = span (tt_code_table t) 0x2000 \<union> dom (mem w)"
      "\<forall>a \<in> dom (mem w). mem w' a = mem w a" "load (mem w') (tt_code_table t) 0x1000 = Some code"
  shows "tables_ok code n (lim(tb := 0)) (fr(tb := [])) w'"
proof -
  have old: "tb' \<noteq> tb \<and> tt_array v \<noteq> tt_array t \<and> tt_array v \<noteq> tb \<and> tt_array t \<noteq> tb'
      \<and> span (tt_code_table v) 0x2000 \<inter> span (tt_code_table t) 0x2000 = {}"
    if v: "tables w tb' = Some v" for tb' v
  proof -
    note f = table_facts [OF ok v]
    have "span (tt_code_table v) 0x2000 \<subseteq> dom (mem w)" using ok v unfolding tables_ok_def table_ok_def by blast
    then have "span (tt_code_table v) 0x2000 \<inter> span (tt_code_table t) 0x2000 = {}" using m(1) by blast
    moreover have "tb' \<noteq> tb" "tt_array v \<noteq> tt_array t" "tt_array v \<noteq> tb" "tt_array t \<noteq> tb'" using f(11,12) b(3,4) by metis+
    ultimately show ?thesis by blast
  qed
  have new: "table_ok code n 0 [] w' tb t"
  proof -
    have "tt_array t \<notin> dom (tables w')"
    proof
      assume "tt_array t \<in> dom (tables w')"
      then obtain v where "tables w (tt_array t) = Some v" using b(5) by (auto simp: w' split: if_splits)
      from old [OF this] show False by simp
    qed
    moreover have "slots (tt_array t) n \<subseteq> dom (tramps w')" by (auto simp: w' in_array_def subset_eq)
    ultimately show ?thesis using b(2) t m(2,4) by (simp add: table_ok_def)
  qed
  have keep: "table_ok code n (lim tb') (fr tb') w' tb' v" if v: "tables w tb' = Some v" for tb' v
  proof -
    note f = table_facts [OF ok v] and a = old [OF v]
    have o: "table_ok code n (lim tb') (fr tb') w tb' v" using ok v by (simp add: tables_ok_def)
    have tr: "tramps w' q = tramps w q" if "fst q = tt_array v" for q using a that by (auto simp: w' in_array_def)
    have sd: "span (tt_code_table v) 0x2000 \<subseteq> dom (mem w)" using o unfolding table_ok_def by blast
    have sp: "mem w' b = mem w b" if "b \<in> span (tt_code_table v) 0x2000" for b using sd m(3) that by blast
    have "fl.dll (tramps w') NULL_TRAMP (tt_free v) (fr tb') = fl.dll (tramps w) NULL_TRAMP (tt_free v) (fr tb')"
      by (rule fl.dll_cong, rule tr) (use f(3) in auto)
    with f(1) have "fl.dll (tramps w') NULL_TRAMP (tt_free v) (fr tb')" by simp
    moreover have "slots (tt_array v) n \<subseteq> dom (tramps w')"
    proof
      fix q assume q: "q \<in> slots (tt_array v) n"
      then have "q \<in> dom (tramps w)" using o unfolding table_ok_def by blast
      with q tr [of q] show "q \<in> dom (tramps w')" by auto
    qed
    moreover have "\<forall>i < lim tb'. \<exists>r. tramps w' (tt_array v, i) = Some r \<and> tr_table r = tb'
        \<and> tr_code r = tt_code_table v + of_nat i * tg_size (tg w') \<and> tr_parm r = tt_parm_table v + of_nat i * tg_size (tg w')"
    proof -
      have "\<forall>i < lim tb'. \<exists>r. tramps w (tt_array v, i) = Some r \<and> tr_table r = tb'
        \<and> tr_code r = tt_code_table v + of_nat i * tg_size (tg w) \<and> tr_parm r = tt_parm_table v + of_nat i * tg_size (tg w)"
        using o unfolding table_ok_def by blast
      then show ?thesis by (simp only: tr fst_conv w'(1))
    qed
    moreover have "load (mem w') (tt_code_table v) 0x1000 = load (mem w) (tt_code_table v) 0x1000"
      by (rule load_cong, rule sp) (use span_mono [of "0x1000" "0x2000" "tt_code_table v"] in auto)
    moreover have "tt_array v \<notin> dom (tables w')" "tb' \<in> blocks w'" "tt_array v \<in> blocks w'" using f(11-13) a b(2) by (auto simp: w')
    moreover have "span (tt_code_table v) 0x2000 \<subseteq> dom (mem w')" using sd m(2) by blast
    ultimately show ?thesis using o unfolding table_ok_def by simp
  qed
  have "table_ok code n ((lim(tb := 0)) tb') ((fr(tb := [])) tb') w' tb' v" if "tables w' tb' = Some v" for tb' v
    using that new keep [of tb' v] by (cases "tb' = tb") (simp_all add: w')
  moreover have "\<forall>tb t tb' t'. tables w' tb = Some t \<and> tables w' tb' = Some t' \<and> tb \<noteq> tb' \<longrightarrow>
        tt_array t \<noteq> tt_array t' \<and> span (tt_code_table t) 0x2000 \<inter> span (tt_code_table t') 0x2000 = {}"
  proof (intro allI impI)
    fix u v u' v' assume a: "tables w' u = Some v \<and> tables w' u' = Some v' \<and> u \<noteq> u'"
    have "tables w u = Some v \<and> tables w u' = Some v' \<or> u = tb \<and> v = t \<and> tables w u' = Some v' \<or> u' = tb \<and> v' = t \<and> tables w u = Some v"
      using a by (auto simp: w' split: if_splits)
    then show "tt_array v \<noteq> tt_array v' \<and> span (tt_code_table v) 0x2000 \<inter> span (tt_code_table v') 0x2000 = {}"
    proof (elim disjE conjE)
      assume "tables w u = Some v" "tables w u' = Some v'"
      with ok a show ?thesis unfolding tables_ok_def by blast
    next
      assume "v = t" "tables w u' = Some v'"
      with old [of u' v'] show ?thesis by auto
    next
      assume "v' = t" "tables w u = Some v"
      with old [of u v] show ?thesis by auto
    qed
  qed
  moreover have "\<forall>q \<in> dom (tramps w'). \<exists>tb t. tables w' tb = Some t \<and> q \<in> slots (tt_array t) n"
  proof
    fix q assume q: "q \<in> dom (tramps w')"
    show "\<exists>tb t. tables w' tb = Some t \<and> q \<in> slots (tt_array t) n"
    proof (cases "in_array (tt_array t) q \<and> snd q < n")
      case True
      then show ?thesis by (intro exI [of _ tb] exI [of _ t]) (simp add: w' in_array_def)
    next
      case False
      then have "q \<in> dom (tramps w)" using q by (auto simp: w')
      then obtain u v where "tables w u = Some v" "q \<in> slots (tt_array v) n" using ok unfolding tables_ok_def by blast
      with old [of u v] show ?thesis by (intro exI [of _ u] exI [of _ v]) (simp add: w')
    qed
  qed
  ultimately show ?thesis using ok b(1) unfolding tables_ok_def w'(1) by blast
qed

definition same_tramps :: "'a tramp_world_scheme \<Rightarrow> 'a tramp_world_scheme \<Rightarrow> bool" where
  "same_tramps w w' \<longleftrightarrow> heap_ok w' \<and> blocks w' = blocks w \<and> tables w' = tables w \<and> tramps w' = tramps w \<and> mem w' = mem w \<and> tg w' = tg w
     \<and> opts_idx w' = opts_idx w \<and> tramp_world.more w' = tramp_world.more w"

lemma tramps_ok_same: "same_tramps w w' \<Longrightarrow> tramps_ok code n lim fr ts w \<Longrightarrow> tramps_ok code n lim fr ts w'"
proof -
  assume s: "same_tramps w w'" and ok: "tramps_ok code n lim fr ts w"
  have e: "blocks w' = blocks w" "tables w' = tables w" "tramps w' = tramps w" "mem w' = mem w" "tg w' = tg w" "heap_ok w' = heap_ok w"
    using s ok by (simp_all add: same_tramps_def tramps_ok_def tables_ok_def)
  show "tramps_ok code n lim fr ts w'"
    using ok unfolding tramps_ok_def tables_ok_def table_ok_def list_ok_def listed_def e .
qed

text \<open>What is handed out, and what a new table leaves alone.\<close>

definition in_use :: "(addr \<Rightarrow> tramp_ptr list) \<Rightarrow> 'a tramp_world_scheme \<Rightarrow> tramp_ptr set" where
  "in_use fr w = dom (tramps w) - (\<Union>tb \<in> dom (tables w). set (fr tb))"

text \<open>The pages of the tables.\<close>

definition pages :: "'a tramp_world_scheme \<Rightarrow> addr set" where
  "pages w = (\<Union>t \<in> ran (tables w). span (tt_code_table t) 0x2000)"

lemma pages_places:
  fixes w w' :: "'a tramp_world_scheme"
  assumes p: "\<And>y. map_option place (tables w' y) = map_option place (tables w y)" shows "pages w' = pages w"
proof -
  have "x \<in> pages u \<longleftrightarrow> (\<exists>y p. map_option place (tables u y) = Some p \<and> x \<in> span (fst (snd p)) 0x2000)" for u :: "'a tramp_world_scheme" and x
    by (fastforce simp: pages_def ran_def)
  then show ?thesis by (intro set_eqI) (simp only: p)
qed

lemma relinks_pages: "relinks w w' \<Longrightarrow> pages w' = pages w"
  by (rule pages_places) (simp add: relinks_def)

definition keeps :: "(addr \<Rightarrow> tramp_ptr list) \<Rightarrow> 'a tramp_world_scheme \<Rightarrow> (addr \<Rightarrow> tramp_ptr list) \<Rightarrow> 'a tramp_world_scheme \<Rightarrow> bool" where
  "keeps fr w fr' w' \<longleftrightarrow>
     in_use fr' w' = in_use fr w
   \<and> (\<forall>q \<in> dom (tramps w). map_option fl.core (tramps w' q) = map_option fl.core (tramps w q))
   \<and> (\<forall>a \<in> dom (mem w). mem w' a = mem w a) \<and> pages w' \<subseteq> pages w \<union> - dom (mem w) \<and> tramp_world.more w' = tramp_world.more w
   \<and> card (dom (tables w')) \<le> Suc (card (dom (tables w)))
   \<and> (\<exists>a b. tg w' = (tg w)\<lparr>tg_free_tables := a, tg_nfree_tables := b\<rparr>)"

lemma keeps_same: "same_tramps w w' \<Longrightarrow> keeps fr w fr w'"
  unfolding keeps_def
  by (intro conjI exI [of _ "tg_free_tables (tg w)"] exI [of _ "tg_nfree_tables (tg w)"]) (simp_all add: same_tramps_def in_use_def pages_def)

lemma malloc_table_ok:
  assumes "heap_ok w" and "malloc_table w = Some (p, w')"
  shows "heap_ok w' \<and> p \<notin> blocks w \<and> blocks w' = blocks w \<union> ({p} - {NULL})
     \<and> (\<exists>sc lv. w' = w\<lparr>script := sc, live := lv, tables := (if p = NULL then tables w else (tables w)(p \<mapsto> junk_table w p))\<rparr>)"
proof -
  obtain w1 where m: "malloc sizeof_tramp_table w = Some (p, w1)" and w': "w' = (if p = NULL then w1 else w1\<lparr>tables := (tables w1)(p \<mapsto> junk_table w1 p)\<rparr>)"
    using assms(2) by (auto simp: malloc_table_def split: bind_splits)
  obtain sc lv where f: "w1 = w\<lparr>script := sc, live := lv\<rparr>" using malloc_frame [OF m] by blast
  note ok = malloc_ok [OF assms(1) m] libc.request_fresh [OF assms(1) m] libc.null_not_held [OF assms(1)]
  have b: "p = NULL \<Longrightarrow> blocks w1 = blocks w" using libc.request_fail [OF assms(1)] m by metis
  have w: "w' = w\<lparr>script := sc, live := lv, tables := (if p = NULL then tables w else (tables w)(p \<mapsto> junk_table w p))\<rparr>"
    unfolding w' f by simp
  have "heap_ok w'" using ok(1) by (simp add: w' heap_ok_def)
  moreover have "blocks w' = blocks w \<union> ({p} - {NULL})" using ok(2) b by (cases "p = NULL") (simp_all add: w')
  moreover have "p \<notin> blocks w" using ok(2,3) by metis
  ultimately show ?thesis using w by blast
qed

lemma malloc_tramps_ok:
  assumes "heap_ok w" and "malloc_tramps k w = Some (p, w')"
  shows "heap_ok w' \<and> p \<notin> blocks w \<and> blocks w' = blocks w \<union> ({p} - {NULL})
     \<and> (\<exists>sc lv. w' = w\<lparr>script := sc, live := lv, tramps :=
          (if p = NULL then tramps w else (\<lambda>q. if in_array p q \<and> snd q < nat (sint k) then Some (junk_tramp w q) else tramps w q))\<rparr>)"
proof -
  obtain w1 where m: "malloc (sizeof_tramp * scast k) w = Some (p, w1)" and w': "w' = (if p = NULL then w1
      else w1\<lparr>tramps := (\<lambda>q. if in_array p q \<and> snd q < nat (sint k) then Some (junk_tramp w1 q) else tramps w1 q)\<rparr>)"
    using assms(2) by (auto simp: malloc_tramps_def split: bind_splits)
  obtain sc lv where f: "w1 = w\<lparr>script := sc, live := lv\<rparr>" using malloc_frame [OF m] by blast
  note ok = malloc_ok [OF assms(1) m] libc.request_fresh [OF assms(1) m] libc.null_not_held [OF assms(1)]
  have b: "p = NULL \<Longrightarrow> blocks w1 = blocks w" using libc.request_fail [OF assms(1)] m by metis
  have w: "w' = w\<lparr>script := sc, live := lv, tramps :=
          (if p = NULL then tramps w else (\<lambda>q. if in_array p q \<and> snd q < nat (sint k) then Some (junk_tramp w q) else tramps w q))\<rparr>"
    unfolding w' f by (simp cong: if_cong)
  have "heap_ok w'" using ok(1) by (simp add: w' heap_ok_def)
  moreover have "blocks w' = blocks w \<union> ({p} - {NULL})" using ok(2) b by (cases "p = NULL") (simp_all add: w')
  moreover have "p \<notin> blocks w" using ok(2,3) by metis
  ultimately show ?thesis using w by blast
qed

text \<open>The error paths give back what they took.\<close>

lemma undo_table:
  assumes ok: "tables_ok code n lim fr w" and h: "heap_ok w1" and tb: "tb \<notin> blocks w" "tb \<noteq> NULL"
    and w1: "blocks w1 = insert tb (blocks w)" "\<And>y. y \<noteq> tb \<Longrightarrow> tables w1 y = tables w y" "tramps w1 = tramps w" "mem w1 = mem w" "tg w1 = tg w"
      "opts_idx w1 = opts_idx w" "tramp_world.more w1 = tramp_world.more w"
  shows "\<exists>w2. free_table_block tb w1 = Some w2 \<and> same_tramps w w2"
proof -
  have nt: "tables w tb = None" using table_facts(11) [OF ok, of tb] tb(1) by (cases "tables w tb") auto
  let ?w2 = "w1\<lparr>live := (live w1)(tb := None), tables := (tables w1)(tb := None)\<rparr>"
  have "free_table_block tb w1 = Some ?w2" using tb w1(1) by (auto simp: free_table_block_def free_def)
  moreover have "heap_ok ?w2" using h by (auto simp: heap_ok_def)
  moreover have "(tables w1)(tb := None) = tables w" using w1(2) nt by (auto simp: fun_eq_iff)
  moreover have "blocks ?w2 = blocks w" using w1(1) tb(1) by auto
  ultimately show ?thesis using w1(3-7) by (simp add: same_tramps_def)
qed

lemma undo_tramps:
  assumes ok: "tables_ok code n lim fr w" and h: "heap_ok w2" and arr: "arr \<notin> blocks w" "arr \<noteq> NULL" "arr \<noteq> tb"
    and w2: "blocks w2 = insert arr (insert tb (blocks w))"
      "tramps w2 = (\<lambda>q. if in_array arr q \<and> snd q < k then Some (junk q) else tramps w q)"
  shows "\<exists>w3 lv. free_tramps arr w2 = Some w3 \<and> heap_ok w3 \<and> blocks w3 = insert tb (blocks w) \<and> tramps w3 = tramps w
    \<and> w3 = w2\<lparr>live := lv, tramps := tramps w\<rparr>"
proof -
  have none: "tramps w q = None" if "in_array arr q" for q
  proof (rule ccontr)
    assume "tramps w q \<noteq> None"
    then obtain tb' t' where "tables w tb' = Some t'" "q \<in> slots (tt_array t') n" using ok unfolding tables_ok_def by blast
    with table_facts(12) [OF ok, of tb' t'] arr(1) that show False by (simp add: in_array_def)
  qed
  have tr: "(\<lambda>q. if in_array arr q then None else tramps w2 q) = tramps w"
    using none by (auto simp: w2(2) fun_eq_iff)
  let ?w3 = "w2\<lparr>live := (live w2)(arr := None), tramps := tramps w\<rparr>"
  have "free_tramps arr w2 = Some ?w3" using arr(2) w2(1) tr by (auto simp: free_tramps_def free_def cong: if_cong)
  moreover have "heap_ok ?w3" using h by (auto simp: heap_ok_def)
  moreover have "blocks ?w3 = insert tb (blocks w)" using w2(1) arr by auto
  ultimately show ?thesis by auto
qed

lemma undo_both:
  assumes ok: "tables_ok code n lim fr w" and h: "heap_ok w3" and arr: "arr \<notin> blocks w" "arr \<noteq> NULL" "arr \<noteq> tb" and tb: "tb \<notin> blocks w" "tb \<noteq> NULL"
    and w3: "blocks w3 = insert arr (insert tb (blocks w))" "tramps w3 = (\<lambda>q. if in_array arr q \<and> snd q < k then Some (junk q) else tramps w q)"
      "\<And>y. y \<noteq> tb \<Longrightarrow> tables w3 y = tables w y" "mem w3 = mem w" "tg w3 = tg w" "opts_idx w3 = opts_idx w" "tramp_world.more w3 = tramp_world.more w"
  shows "\<exists>w4 w5. free_tramps arr w3 = Some w4 \<and> free_table_block tb w4 = Some w5 \<and> same_tramps w w5"
proof -
  obtain w4 lv4 where w4: "free_tramps arr w3 = Some w4" "heap_ok w4" "blocks w4 = insert tb (blocks w)" "tramps w4 = tramps w"
    "w4 = w3\<lparr>live := lv4, tramps := tramps w\<rparr>" using undo_tramps [OF ok h arr w3(1,2)] by blast
  have "mem w4 = mem w" "tg w4 = tg w" "opts_idx w4 = opts_idx w" "tramp_world.more w4 = tramp_world.more w" "\<And>y. y \<noteq> tb \<Longrightarrow> tables w4 y = tables w y" using w3 by (simp_all add: w4(5))
  then show ?thesis using undo_table [OF ok w4(2) tb w4(3) _ w4(4)] w4(1) by blast
qed

text \<open>The rest of the function once the table is mapped.\<close>

lemma new_array:
  assumes ok: "tables_ok code n lim fr w" and arr: "arr \<notin> blocks w" and q: "q \<in> dom (tramps w)"
  shows "fst q \<noteq> arr"
proof -
  obtain tb t where "tables w tb = Some t" "q \<in> slots (tt_array t) n" using ok q unfolding tables_ok_def by blast
  with table_facts(12) [OF ok, of tb t] arr show ?thesis by auto
qed

lemma new_table_filled:
  assumes os: "posix os" and ok: "tramps_ok code n (\<lambda>_. n) fr [] w" and more: "tramp_world.more w3 = tramp_world.more w"
    and w3: "tg w3 = tg w" "tables w3 = (tables w)(tb \<mapsto> t)"
      "tramps w3 = (\<lambda>q. if in_array arr q \<and> snd q < n then Some (junk q) else tramps w q)"
    and b: "heap_ok w3" "blocks w3 = insert arr (insert tb (blocks w))" "tb \<notin> blocks w" "arr \<notin> blocks w" "tb \<noteq> arr"
    and t: "tt_parm_table t = tt_code_table t + 0x1000" "unat (tt_code_table t) + 0x2000 \<le> 2 ^ 64"
    and m: "span (tt_code_table t) 0x2000 \<inter> dom (mem w) = {}" "dom (mem w3) = span (tt_code_table t) 0x2000 \<union> dom (mem w)"
      "\<forall>a \<in> dom (mem w). mem w3 a = mem w a" "load (mem w3) (tt_code_table t) 0x1000 = Some code"
  shows "\<exists>w4 t4 w5 fr'. table_upd tb (\<lambda>t. t\<lparr>tt_array := arr, tt_free := NULL_TRAMP, tt_nfree := 0\<rparr>) w3 = Some w4 \<and> tables w4 tb = Some t4
     \<and> tg w4 = tg w \<and> tramp_fill os tb arr 0 n (tt_code_table t4) (tt_parm_table t4) w4 = Some w5
     \<and> tramps_ok code n (\<lambda>_. n) fr' [tb] w5 \<and> keeps fr w fr' w5"
proof -
  note k = tramps_okD [OF ok]
  let ?t = "t\<lparr>tt_array := arr, tt_free := NULL_TRAMP, tt_nfree := 0\<rparr>"
  let ?w4 = "w3\<lparr>tables := (tables w)(tb \<mapsto> ?t)\<rparr>"
  let ?fs = "map (Pair arr) (rev [0..<n])"
  have run: "table_upd tb (\<lambda>t. t\<lparr>tt_array := arr, tt_free := NULL_TRAMP, tt_nfree := 0\<rparr>) w3 = Some ?w4" "tables ?w4 tb = Some ?t" "tg ?w4 = tg w"
    by (simp_all add: table_upd_def update_def w3)
  have "tables_ok code n ((\<lambda>_. n)(tb := 0)) (fr(tb := [])) ?w4"
    by (rule tables_ok_new [OF k(1), where t = ?t and junk = junk]) (use w3 b t m in \<open>simp_all add: heap_ok_def\<close>)
  moreover have "list_ok [] ?w4" using k(2) w3(1) by (simp add: list_ok_def)
  moreover have "listed [] (fr(tb := [])) ?w4" using k(3) by (simp add: listed_def)
  ultimately have ok4: "tramps_ok code n ((\<lambda>_. n)(tb := 0)) (fr(tb := map (Pair arr) (rev [0..<0]))) (if (0 :: nat) = 0 then [] else [tb]) ?w4"
    by (simp add: tramps_ok_def)
  obtain w5 where w5: "tramp_fill os tb arr 0 n (tt_code_table ?t) (tt_parm_table ?t) ?w4 = Some w5" "fills arr ?w4 w5"
    "tramps_ok code n ((\<lambda>_. n)(tb := n)) (fr(tb := ?fs)) [tb] w5"
    using tramp_fill_ok [OF os ok4 run(2), of n "tt_code_table ?t" "tt_parm_table ?t"] by auto
  have "(\<lambda>_. n)(tb := n) = (\<lambda>_. n)" by auto
  with w5(3) have ok5: "tramps_ok code n (\<lambda>_. n) (fr(tb := ?fs)) [tb] w5" by metis
  have nt: "tb \<notin> dom (tables w)" using table_facts(11) [OF k(1), of tb] b(3) by blast
  have "tables w5 y = None \<longleftrightarrow> tables ?w4 y = None" for y
  proof -
    have "map_option place (tables w5 y) = map_option place (tables ?w4 y)" using w5(2) unfolding fills_def by blast
    then show ?thesis by (cases "tables w5 y"; cases "tables ?w4 y") simp_all
  qed
  then have d5: "dom (tables w5) = insert tb (dom (tables w))" by (auto simp: dom_def)
  have "dom (tramps w5) = dom (tramps ?w4)" using w5(2) unfolding fills_def by blast
  then have e5: "dom (tramps w5) = slots arr n \<union> dom (tramps w)" by (auto simp: w3(3) in_array_def split: if_splits)
  have s: "set ?fs = slots arr n" by (auto simp: slots_def)
  have ap: "fst q \<noteq> arr" if "q \<in> dom (tramps w)" for q by (rule new_array [OF k(1) b(4) that])
  have U: "(\<Union>u \<in> dom (tables w5). set ((fr(tb := ?fs)) u)) = slots arr n \<union> (\<Union>u \<in> dom (tables w). set (fr u))"
  proof -
    have "(\<Union>u \<in> dom (tables w). set ((fr(tb := ?fs)) u)) = (\<Union>u \<in> dom (tables w). set (fr u))"
      by (rule SUP_cong [OF refl]) (use nt in \<open>metis fun_upd_other\<close>)
    moreover have "set ((fr(tb := ?fs)) tb) = slots arr n" using s by simp
    ultimately show ?thesis unfolding d5 UN_insert by (simp only:)
  qed
  have "slots arr n \<inter> dom (tramps w) = {}" using ap by fastforce
  moreover have "\<And>S D X :: tramp_ptr set. S \<inter> D = {} \<Longrightarrow> (S \<union> D) - (S \<union> X) = D - X" by blast
  ultimately have "in_use (fr(tb := ?fs)) w5 = in_use fr w" unfolding in_use_def e5 U by metis
  moreover have "map_option fl.core (tramps w5 q) = map_option fl.core (tramps w q)" if q: "q \<in> dom (tramps w)" for q
  proof -
    have "map_option fl.core (tramps w5 q) = map_option fl.core (tramps ?w4 q)" using w5(2) ap [OF q] unfolding fills_def by blast
    then show ?thesis using ap [OF q] by (simp add: w3(3) in_array_def)
  qed
  moreover have "\<exists>x y. tg w5 = (tg w)\<lparr>tg_free_tables := x, tg_nfree_tables := y\<rparr>" using w5(2) unfolding fills_def run(3) by blast
  moreover have "mem w5 = mem w3" using fills_frame(1) [OF w5(2)] by simp
  moreover have "pages w5 \<subseteq> pages w \<union> - dom (mem w)"
  proof -
    have "pages w5 = pages ?w4" by (rule pages_places) (use w5(2) in \<open>simp add: fills_def\<close>)
    also have "\<dots> \<subseteq> pages w \<union> span (tt_code_table t) 0x2000" by (auto simp: pages_def ran_def split: if_splits)
    finally show ?thesis using m(1) by blast
  qed
  moreover have "tramp_world.more w5 = tramp_world.more w"
  proof -
    have "w5 = ?w4\<lparr>tg := tg w5, tables := tables w5, tramps := tramps w5\<rparr>" using w5(2) unfolding fills_def by blast
    from arg_cong [OF this, of tramp_world.more] more show ?thesis by simp
  qed
  moreover have "card (dom (tables w5)) \<le> Suc (card (dom (tables w)))"
    unfolding d5 by (cases "finite (dom (tables w))") (simp_all add: card_insert_if)
  ultimately have "keeps fr w (fr(tb := ?fs)) w5" unfolding keeps_def using m(3) by simp
  with run w5(1) ok5 show ?thesis by blast
qed

lemma tramp_table_alloc_ok:
  assumes os: "posix os" and mf: "maps_file os (tg_fd (tg w)) (tg_offset (tg w)) code" "length code = 0x1000"
    and ok: "tramps_ok code n (\<lambda>_. n) fr ts w" and few: "length ts < 2 ^ 31"
  shows "\<exists>r w' fr' ts'. tramp_table_alloc os w = Some (r, w') \<and> tramps_ok code n (\<lambda>_. n) fr' ts' w' \<and> keeps fr w fr' w'
     \<and> (if r then ts' \<noteq> [] else same_tramps w w')"
proof (cases "ts = []")
  case False
  have "tg_nfree_tables (tg w) = of_nat (length ts)" using ok by (simp add: tramps_ok_def list_ok_def)
  with few False have "sint (tg_nfree_tables (tg w)) > 0" by (simp add: sint_of_nat32)
  then have "tramp_table_alloc os w = Some (True, w)" by (simp add: tramp_table_alloc_def)
  moreover have "same_tramps w w" using ok by (simp add: same_tramps_def tramps_ok_def tables_ok_def)
  ultimately show ?thesis using ok False keeps_same by (intro exI [of _ True] exI [of _ w] exI [of _ fr] exI [of _ ts]) simp
next
  case ts: True
  note k = tramps_okD [OF ok]
  have h: "heap_ok w" and n: "n \<le> 128" "tg_ntramp (tg w) = of_nat n" "tg_map_size (tg w) = 0x1000" using k(1) by (simp_all add: tables_ok_def)
  have nn: "nat (sint (tg_ntramp (tg w))) = n" using n by (simp add: sint_of_nat32)
  have "tg_nfree_tables (tg w) = 0" using k(2) ts by (simp add: list_ok_def)
  then have nz: "\<not> sint (tg_nfree_tables (tg w)) > 0" by simp
  have failed: ?thesis if "tramp_table_alloc os w = Some (False, w')" "same_tramps w w'" for w'
    using that tramps_ok_same [OF that(2) ok] keeps_same [OF that(2)] by (intro exI [of _ False] exI [of _ w'] exI [of _ fr] exI [of _ ts]) simp
  obtain tb w1 where m1: "malloc_table w = Some (tb, w1)"
    using libc.request_total [of sizeof_tramp_table w] by (auto simp: malloc_table_def)
  obtain sc lv where w1: "heap_ok w1" "tb \<notin> blocks w" "blocks w1 = blocks w \<union> ({tb} - {NULL})"
     "w1 = w\<lparr>script := sc, live := lv, tables := (if tb = NULL then tables w else (tables w)(tb \<mapsto> junk_table w tb))\<rparr>"
    using malloc_table_ok [OF h m1] by blast
  show ?thesis
  proof (cases "tb = NULL")
    case True
    have "tramp_table_alloc os w = Some (False, w1)" using True nz m1 by (simp add: tramp_table_alloc_def)
    moreover have "same_tramps w w1" using w1(1,3) True by (simp add: same_tramps_def) (simp add: w1(4))
    ultimately show ?thesis by (rule failed)
  next
    case tb: False
    obtain arr w2 where m2: "malloc_tramps (tg_ntramp (tg w1)) w1 = Some (arr, w2)"
      using libc.request_total [of "sizeof_tramp * scast (tg_ntramp (tg w1))" w1] by (auto simp: malloc_tramps_def)
    have g1: "tg w1 = tg w" "tables w1 = (tables w)(tb \<mapsto> junk_table w tb)" "tramps w1 = tramps w" "mem w1 = mem w" "opts_idx w1 = opts_idx w"
      "tramp_world.more w1 = tramp_world.more w" using tb by (simp_all add: w1(4))
    have b1: "blocks w1 = insert tb (blocks w)" using w1(3) tb by auto
    obtain sc2 lv2 where w2: "heap_ok w2" "arr \<notin> blocks w1" "blocks w2 = blocks w1 \<union> ({arr} - {NULL})"
     "w2 = w1\<lparr>script := sc2, live := lv2, tramps :=
        (if arr = NULL then tramps w1 else (\<lambda>q. if in_array arr q \<and> snd q < n then Some (junk_tramp w1 q) else tramps w1 q))\<rparr>"
      using malloc_tramps_ok [OF w1(1) m2] unfolding g1(1) nn by blast
    have g2: "tg w2 = tg w" "tables w2 = (tables w)(tb \<mapsto> junk_table w tb)" "mem w2 = mem w" using g1 by (simp_all add: w2(4))
    show ?thesis
    proof (cases "arr = NULL")
      case True
      obtain w3 where w3: "free_table_block tb w2 = Some w3" "same_tramps w w3"
        using undo_table [OF k(1) w2(1) w1(2) tb, of] b1 w2(3) True g1(3,5,6) g2 by (auto simp: w2(4))
      have "tramp_table_alloc os w = Some (False, w3)" using True nz m1 m2 tb w3(1) by (simp add: tramp_table_alloc_def)
      then show ?thesis using w3(2) by (rule failed)
    next
      case arr: False
      have tr2: "tramps w2 = (\<lambda>q. if in_array arr q \<and> snd q < n then Some (junk_tramp w1 q) else tramps w q)" using arr g1(3) by (simp add: w2(4) cong: if_cong)
      have b2: "blocks w2 = insert arr (insert tb (blocks w))" using w2(3) b1 arr by auto
      have fresh: "arr \<notin> blocks w" "arr \<noteq> tb" using w2(2) b1 by auto
      have t2: "tables w2 tb = Some (junk_table w tb)" by (simp add: g2)
      note size2 = n(3) [folded g2(1)] and mf2 = mf(1) [folded g2(1)]
      obtain r w3 where m3: "tramp_table_map os tb w2 = Some (r, w3)" and w3:
        "if r then \<exists>c m e. w3 = w2\<lparr>mem := m, errno := e, tables := (tables w2)(tb \<mapsto> (junk_table w tb)\<lparr>tt_code_table := c, tt_parm_table := c + 0x1000\<rparr>)\<rparr>
          \<and> span c 0x2000 \<inter> dom (mem w2) = {} \<and> dom m = span c 0x2000 \<union> dom (mem w2) \<and> (\<forall>a \<in> dom (mem w2). m a = mem w2 a)
          \<and> load m c 0x1000 = Some code \<and> unat c + 0x2000 \<le> 2 ^ 64
         else \<exists>e t'. w3 = w2\<lparr>errno := e, tables := (tables w2)(tb \<mapsto> t')\<rparr> \<or> w3 = w2\<lparr>errno := e\<rparr>"
        using tramp_table_map_ok [OF os mf2 mf(2) size2 t2] by blast
      note step = nz m1 m2 tb arr m3
      show ?thesis
      proof (cases r)
        case False
        then obtain e t' where "w3 = w2\<lparr>errno := e, tables := (tables w2)(tb \<mapsto> t')\<rparr> \<or> w3 = w2\<lparr>errno := e\<rparr>" using w3 by auto
        then have g3: "heap_ok w3" "tramps w3 = tramps w2" "blocks w3 = blocks w2" "mem w3 = mem w" "tg w3 = tg w"
          "\<And>y. y \<noteq> tb \<Longrightarrow> tables w3 y = tables w y" "opts_idx w3 = opts_idx w" "tramp_world.more w3 = tramp_world.more w"
          using w2(1) g1(5,6) g2 by (auto simp: heap_ok_def w2(4))
        obtain w4 w5 where w4: "free_tramps arr w3 = Some w4" and w5: "free_table_block tb w4 = Some w5" "same_tramps w w5"
          using undo_both [OF k(1) g3(1) fresh(1) arr fresh(2) w1(2) tb, of n "junk_tramp w1"] g3(2-8) b2 tr2 by auto
        have "tramp_table_alloc os w = Some (False, w5)" using step False w4 w5(1) by (simp add: tramp_table_alloc_def)
        then show ?thesis using w5(2) by (rule failed)
      next
        case True
        then obtain c m e where w3: "w3 = w2\<lparr>mem := m, errno := e, tables := (tables w2)(tb \<mapsto> (junk_table w tb)\<lparr>tt_code_table := c, tt_parm_table := c + 0x1000\<rparr>)\<rparr>"
          and c: "span c 0x2000 \<inter> dom (mem w) = {}" "dom m = span c 0x2000 \<union> dom (mem w)" "\<forall>a \<in> dom (mem w). m a = mem w a"
            "load m c 0x1000 = Some code" "unat c + 0x2000 \<le> 2 ^ 64" using w3 unfolding g2(3) by auto
        let ?t = "(junk_table w tb)\<lparr>tt_code_table := c, tt_parm_table := c + 0x1000\<rparr>"
        have "\<exists>w4 t4 w5 fr'. table_upd tb (\<lambda>t. t\<lparr>tt_array := arr, tt_free := NULL_TRAMP, tt_nfree := 0\<rparr>) w3 = Some w4
          \<and> tables w4 tb = Some t4 \<and> tg w4 = tg w \<and> tramp_fill os tb arr 0 n (tt_code_table t4) (tt_parm_table t4) w4 = Some w5
          \<and> tramps_ok code n (\<lambda>_. n) fr' [tb] w5 \<and> keeps fr w fr' w5"
          by (rule new_table_filled [OF os ok [unfolded ts], where t = ?t and junk = "junk_tramp w1"])
            (use w2(1,4) w3 g1(6) g2 tr2 b2 w1(2) fresh c in \<open>simp_all add: heap_ok_def\<close>)
        then obtain w4 t4 w5 fr' where w4: "table_upd tb (\<lambda>t. t\<lparr>tt_array := arr, tt_free := NULL_TRAMP, tt_nfree := 0\<rparr>) w3 = Some w4"
          "tables w4 tb = Some t4" "tg w4 = tg w" "tramp_fill os tb arr 0 n (tt_code_table t4) (tt_parm_table t4) w4 = Some w5"
          and w5: "tramps_ok code n (\<lambda>_. n) fr' [tb] w5" "keeps fr w fr' w5" by blast
        have "tramp_table_alloc os w = Some (True, w5)"
          using step True w4(1,2,4) nn unfolding tramp_table_alloc_def by (simp add: w4(3))
        then show ?thesis using w5 by (intro exI [of _ True] exI [of _ w5] exI [of _ fr'] exI [of _ "[tb]"]) simp
      qed
    qed
  qed
qed

section \<open>The abstract state: the trampolines handed out\<close>

text \<open>A client sees a finite map from trampolines to their code address and the 16 bytes of their parameters.\<close>

definition tramp_view :: "'a tramp_world_scheme \<Rightarrow> tramp_ptr \<Rightarrow> (addr \<times> byte list) option" where
  "tramp_view w q = do { r \<leftarrow> tramps w q; bs \<leftarrow> load (mem w) (tr_parm r) 16; Some (tr_code r, bs) }"

lemma tramp_viewI: "tramps w q = Some r \<Longrightarrow> load (mem w) (tr_parm r) 16 = Some bs \<Longrightarrow> tramp_view w q = Some (tr_code r, bs)"
  by (simp add: tramp_view_def del: load.simps)

definition holds :: "byte list \<Rightarrow> nat \<Rightarrow> (tramp_ptr \<rightharpoonup> addr \<times> byte list) \<Rightarrow> 'a tramp_world_scheme \<Rightarrow> bool" where
  "holds code n M w \<longleftrightarrow> (\<exists>fr ts. tramps_ok code n (\<lambda>_. n) fr ts w \<and> dom M = in_use fr w) \<and> (\<forall>q \<in> dom M. tramp_view w q = M q)"

text \<open>Where the code and the parameters of a trampoline lie.\<close>

lemma slot_place:
  assumes ok: "tables_ok code n (\<lambda>_. n) fr w" and t: "tables w tb = Some t" and q: "q \<in> slots (tt_array t) n"
  defines "s \<equiv> unat (tg_size (tg w))"
  shows "\<exists>r. tramps w q = Some r \<and> tr_table r = tb \<and> tr_code r = tt_code_table t + of_nat (snd q * s)
     \<and> tr_parm r = tt_code_table t + of_nat (0x1000 + snd q * s) \<and> snd q * s + s \<le> 0x1000 \<and> 16 \<le> s"
proof -
  obtain r where r: "tramps w q = Some r" "tr_table r = tb" "tr_code r = tt_code_table t + of_nat (snd q) * tg_size (tg w)"
    "tr_parm r = tt_parm_table t + of_nat (snd q) * tg_size (tg w)"
    using table_tramp [OF ok t, of q] q by auto
  have p: "tt_parm_table t = tt_code_table t + 0x1000" using ok t by (simp add: tables_ok_def table_ok_def)
  have s: "(of_nat s :: 64 word) = tg_size (tg w)" by (simp add: s_def)
  have "n * s \<le> 0x1000" and s16: "16 \<le> s" using ok by (simp_all add: tables_ok_def s_def)
  moreover have "snd q * s + s \<le> n * s" using q mult_le_mono1 [of "Suc (snd q)" n s] by simp
  ultimately have "snd q * s + s \<le> 0x1000" by linarith
  then show ?thesis using r s16 by (intro exI [of _ r]) (simp add: p s)
qed

lemma use_table:
  assumes ok: "tables_ok code n (\<lambda>_. n) fr w" and q: "q \<in> in_use fr w"
  shows "\<exists>tb t. tables w tb = Some t \<and> q \<in> slots (tt_array t) n \<and> q \<notin> set (fr tb)"
proof -
  have "q \<in> dom (tramps w)" and f: "\<forall>tb \<in> dom (tables w). q \<notin> set (fr tb)" using q by (auto simp: in_use_def)
  then obtain tb t where "tables w tb = Some t" "q \<in> slots (tt_array t) n" using ok unfolding tables_ok_def by blast
  with f show ?thesis by blast
qed

lemma view_place:
  assumes ok: "tables_ok code n (\<lambda>_. n) fr w" and t: "tables w tb = Some t" and q: "q \<in> slots (tt_array t) n"
  defines "s \<equiv> unat (tg_size (tg w))"
  shows "\<exists>r bs. tramps w q = Some r \<and> tramp_view w q = Some (tr_code r, bs) \<and> load (mem w) (tr_parm r) 16 = Some bs
    \<and> tr_parm r = tr_code r + 0x1000 \<and> load (mem w) (tr_code r) s = Some (take s (drop (snd q * s) code))
    \<and> span (tr_parm r) 16 \<subseteq> span (tt_code_table t) 0x2000 \<and> span (tr_code r) s \<subseteq> span (tt_code_table t) 0x1000
    \<and> span (tr_parm r) 16 \<inter> span (tt_code_table t) 0x1000 = {}"
proof -
  obtain r where r: "tramps w q = Some r" "tr_code r = tt_code_table t + of_nat (snd q * s)"
    "tr_parm r = tt_code_table t + of_nat (0x1000 + snd q * s)" "snd q * s + s \<le> 0x1000" "16 \<le> s"
    using slot_place [OF ok t q] unfolding s_def by blast
  have o: "span (tt_code_table t) 0x2000 \<subseteq> dom (mem w)" "load (mem w) (tt_code_table t) 0x1000 = Some code"
    using ok t by (simp_all add: tables_ok_def table_ok_def)
  have s1: "span (tr_parm r) 16 \<subseteq> span (tt_code_table t) 0x2000" unfolding r(3) by (rule span_at) (use r(4,5) in linarith)
  have s2: "span (tr_code r) s \<subseteq> span (tt_code_table t) 0x1000" unfolding r(2) by (rule span_at) (use r(4) in linarith)
  have "load (mem w) (tr_parm r) 16 \<noteq> None" unfolding load_defined using s1 o(1) by blast
  then obtain bs where bs: "load (mem w) (tr_parm r) 16 = Some bs" by blast
  have d: "span (tt_code_table t) 0x1000 \<inter> span (tr_parm r) 16 = {}" unfolding r(3) by (rule span_apart) (use r(4,5) in simp_all)
  have "load (mem w) (tr_code r) s = Some (take s (drop (snd q * s) code))" unfolding r(2) by (rule load_slice [OF o(2) r(4)])
  moreover have "tr_parm r = tr_code r + 0x1000" by (simp add: r(2,3))
  moreover have "tramp_view w q = Some (tr_code r, bs)" unfolding tramp_view_def r(1) Option.bind.bind_lunit bs ..
  ultimately show ?thesis using r(1) bs s1 s2 d by blast
qed

lemma view_keep:
  assumes ok: "tables_ok code n (\<lambda>_. n) fr w" and t: "tables w tb = Some t" and q: "q \<in> slots (tt_array t) n"
    and c: "map_option fl.core (tramps w' q) = map_option fl.core (tramps w q)"
    and m: "\<And>a. a \<in> span (tt_code_table t) 0x2000 \<Longrightarrow> mem w' a = mem w a"
  shows "tramp_view w' q = tramp_view w q"
proof -
  obtain r where r: "tramps w q = Some r" "span (tr_parm r) 16 \<subseteq> span (tt_code_table t) 0x2000" using view_place [OF ok t q] by blast
  with c obtain r' where r': "tramps w' q = Some r'" "fl.core r' = fl.core r" by auto
  have "load (mem w') (tr_parm r) 16 = load (mem w) (tr_parm r) 16" by (rule load_cong, rule m) (use r(2) in blast)
  then show ?thesis unfolding tramp_view_def r(1) r'(1) Option.bind.bind_lunit tramp_core(2,3) [OF r'(2)] by simp
qed

lemma holds_keeps:
  assumes h: "tramps_ok code n (\<lambda>_. n) fr ts w" "dom M = in_use fr w" "\<forall>q \<in> dom M. tramp_view w q = M q"
    and k: "keeps fr w fr' w'"
  shows "dom M = in_use fr' w' \<and> (\<forall>q \<in> dom M. tramp_view w' q = M q)"
proof
  show "dom M = in_use fr' w'" using h(2) k by (simp add: keeps_def)
  show "\<forall>q \<in> dom M. tramp_view w' q = M q"
  proof
    fix q assume q: "q \<in> dom M"
    note ok = tramps_okD(1) [OF h(1)]
    obtain tb t where t: "tables w tb = Some t" "q \<in> slots (tt_array t) n" using use_table [OF ok, of q] q h(2) by blast
    have "span (tt_code_table t) 0x2000 \<subseteq> dom (mem w)" using ok t(1) unfolding tables_ok_def table_ok_def by blast
    moreover have "q \<in> dom (tramps w)" using q h(2) by (simp add: in_use_def)
    ultimately have "tramp_view w' q = tramp_view w q"
      by (intro view_keep [OF ok t]) (use k in \<open>auto simp: keeps_def\<close>)
    with h(3) q show "tramp_view w' q = M q" by simp
  qed
qed

section \<open>A machine\<close>

text \<open>A system that maps two pages once and gives the same page of code for every file; and a state in which the 128
  trampolines of one table are all in use.\<close>

definition nop_page :: "byte list" where
  "nop_page = replicate 0x1000 0x90"

definition two_pages_free :: "memory \<Rightarrow> size_t \<Rightarrow> bool" where
  "two_pages_free m n \<longleftrightarrow> unat n \<le> 0x2000 \<and> list_all (\<lambda>i. m (0x20000 + of_nat i) = None) [0..<unat n]"

definition two_pages_os :: "byte list \<Rightarrow> 'a tramp_world_scheme os" where
  "two_pages_os page = \<lparr>sys_pagesize = 4096,
     sys_mmap = (\<lambda>p n _ flags _ _ w.
       if flags AND MAP_FIXED \<noteq> 0 then (p, w\<lparr>mem := map_block p page (mem w)\<rparr>)
       else if two_pages_free (mem w) n
       then (0x20000, w\<lparr>mem := map_block 0x20000 (replicate (unat n) 0) (mem w)\<rparr>) else (MAP_FAILED, w)),
     sys_munmap = (\<lambda>p n w. Some (0, w\<lparr>mem := unmap p (unat n) (mem w)\<rparr>)),
     sys_mprotect = (\<lambda>_ _ _ w. (0, w))\<rparr>"

definition no_files :: "tramp_world sys" where
  "no_files = \<lparr>sys_page_size = 4096, proc_maps = (\<lambda>_. Some [None, Some \<lparr>ml_start = 0x400000, ml_end = 0x500000, ml_offset = 0, ml_file = ''libffi''\<rparr>]),
     sys_open = (\<lambda>_ _. (- 1, 2)), open_tmpfile = (\<lambda>_ _. (- 1, 21)), memfd_create = (\<lambda>_ _. (- 1, 38)), mkostemp = (\<lambda>s _. if s = ''/dev/shm/ffiXXXXXX'' then (7, 0) else (- 1, 13)),
     sys_write = (\<lambda>_ _ n _. (n, 0)), sys_access = (\<lambda>_ _. (- 1, 13)), sys_getenv = (\<lambda>_. None), setmntent = (\<lambda>_ _. None)\<rparr>"

definition tramp_boot :: "addr list \<Rightarrow> tramp_world" where
  "tramp_boot sc = \<lparr>script = sc, live = Map.empty, find_class = (\<lambda>_. True), pending = None,
     types = image_types, ptrs = Map.empty, symbol = image_symbol,
     mem = Map.empty, stack_top = 0x7fff0000, garbage = (\<lambda>_. 0xCC), stale = (\<lambda>_. 0xDEAD),
     ctxs = Map.empty, ints = Map.empty, self = 0, specific = (\<lambda>_. NULL), tdata = Map.empty, errno = (\<lambda>_. 0),
     tg = \<lparr>tg_fd = - 1, tg_offset = 0, tg_text = NULL, tg_map_size = 0, tg_size = 0, tg_ntramp = 0, tg_free_tables = NULL,
            tg_nfree_tables = 0, tg_status = TRAMP_GLOBALS_UNINITIALIZED\<rparr>,
     tables = Map.empty, tramps = Map.empty,
     junk_tramp = (\<lambda>_. \<lparr>tr_prev = (1, 1), tr_next = (1, 1), tr_table = 1, tr_code = 1, tr_parm = 1\<rparr>),
     junk_table = (\<lambda>_. \<lparr>tt_prev = 1, tt_next = 1, tt_code_table = 1, tt_parm_table = 1, tt_array = 1, tt_free = (1, 1), tt_nfree = 1\<rparr>),
     clock = 0, opts_idx = 0, last_mounts = None, last_mntent = None\<rparr>"

definition busy_mem :: memory where
  "busy_mem = map_block 0x10000 nop_page (map_block 0x10000 (replicate 0x2000 0) Map.empty)"

definition busy_tramp :: "nat \<Rightarrow> tramp" where
  "busy_tramp i = \<lparr>tr_prev = NULL_TRAMP, tr_next = NULL_TRAMP, tr_table = 0x1000, tr_code = 0x10000 + of_nat i * 32, tr_parm = 0x11000 + of_nat i * 32\<rparr>"

definition busy_table :: tramp_table where
  "busy_table = \<lparr>tt_prev = NULL, tt_next = NULL, tt_code_table = 0x10000, tt_parm_table = 0x11000, tt_array = 0x2000,
     tt_free = NULL_TRAMP, tt_nfree = 0\<rparr>"

definition busy_tg :: tramp_globals where
  "busy_tg = \<lparr>tg_fd = 3, tg_offset = 0, tg_text = 0x400000, tg_map_size = 0x1000, tg_size = 32, tg_ntramp = 128, tg_free_tables = NULL,
     tg_nfree_tables = 0, tg_status = TRAMP_GLOBALS_PASSED\<rparr>"

definition busy_world :: "addr list \<Rightarrow> tramp_world" where
  "busy_world sc = (tramp_boot sc)\<lparr>live := [0x1000 \<mapsto> 56, 0x2000 \<mapsto> 5120], mem := busy_mem, tg := busy_tg, tables := [0x1000 \<mapsto> busy_table],
     tramps := (\<lambda>q. if q \<in> slots 0x2000 128 then Some (busy_tramp (snd q)) else None)\<rparr>"

lemma two_pages_posix: "posix (two_pages_os page :: 'a tramp_world_scheme os)"
  unfolding posix_def
proof (intro conjI allI impI)
  fix n w p w'
  have fl: "(MAP_ANON OR MAP_PRIVATE) AND MAP_FIXED = (0 :: jint)" by simp
  assume "sys_mmap (two_pages_os page) NULL n (PROT_READ OR PROT_WRITE) (MAP_ANON OR MAP_PRIVATE) (- 1) 0 w = (p, w')"
  then consider "p = MAP_FAILED" "w' = w"
    | "p = 0x20000" "two_pages_free (mem w) n" "w' = w\<lparr>mem := map_block 0x20000 (replicate (unat n) 0) (mem w)\<rparr>"
    unfolding two_pages_os_def os.simps fl by (auto split: if_splits)
  note c = this
  show "\<exists>e. w' = w\<lparr>errno := e\<rparr>" if "p = MAP_FAILED"
    by (rule exI [of _ "errno w"]) (use c that in auto)
  assume "p \<noteq> MAP_FAILED"
  with c have p: "p = 0x20000" "two_pages_free (mem w) n"
    and w': "w' = w\<lparr>mem := map_block p (replicate (unat n) 0) (mem w)\<rparr>" by auto
  then show "p \<noteq> NULL" "unat p + unat n \<le> 2 ^ 64" by (simp_all add: two_pages_free_def)
  show "span p (unat n) \<inter> dom (mem w) = {}" using p by (auto simp: two_pages_free_def span_iff list_all_iff)
  show "\<exists>e. w' = w\<lparr>mem := map_block p (replicate (unat n) 0) (mem w), errno := e\<rparr>"
    unfolding w' by (rule exI [of _ "errno w"]) simp
next
  fix p n and w :: "'a tramp_world_scheme"
  show "\<exists>r e. sys_munmap (two_pages_os page) p n w = Some (r, w\<lparr>mem := unmap p (unat n) (mem w), errno := e\<rparr>)"
    by (intro exI [of _ 0] exI [of _ "errno w"]) (simp add: two_pages_os_def)
next
  fix p n prot and w :: "'a tramp_world_scheme"
  show "\<exists>r e. sys_mprotect (two_pages_os page) p n prot w = (r, w\<lparr>errno := e\<rparr>)"
    by (intro exI [of _ 0] exI [of _ "errno w"]) (simp add: two_pages_os_def)
qed

lemma nop_page_length: "length nop_page = 0x1000"
  by (simp add: nop_page_def)

lemma two_pages_file: "maps_file (two_pages_os page :: 'a tramp_world_scheme os) fd off page"
proof -
  have fl: "((MAP_PRIVATE OR MAP_FIXED) AND MAP_FIXED \<noteq> (0 :: jint)) = True" by simp
  have "w\<lparr>mem := m\<rparr> = w\<lparr>mem := m, errno := errno w\<rparr>" for w :: "'a tramp_world_scheme" and m by simp
  then show ?thesis unfolding maps_file_def two_pages_os_def os.simps fl if_True by blast
qed

lemma busy_parts_ok:
  assumes h: "heap_ok w"
    and w: "tg w = busy_tg" "tables w = [0x1000 \<mapsto> busy_table]" "live w = [0x1000 \<mapsto> 56, 0x2000 \<mapsto> 5120]"
      "tramps w = (\<lambda>q. if q \<in> slots 0x2000 128 then Some (busy_tramp (snd q)) else None)"
    and m: "span 0x10000 0x2000 \<subseteq> dom (mem w)" "load (mem w) 0x10000 0x1000 = Some code"
  shows "tramps_ok code 128 (\<lambda>_. 128) (\<lambda>_. []) [] w"
proof -
  have "table_ok code 128 128 [] w 0x1000 busy_table"
    unfolding table_ok_def using m
    by (simp add: w busy_table_def busy_tg_def busy_tramp_def subset_eq dom_def del: load.simps)
  then show ?thesis using h
    by (auto simp: tramps_ok_def tables_ok_def list_ok_def listed_def w busy_tg_def busy_table_def split: if_splits)
qed

lemma busy_tramps_ok:
  assumes "distinct (filter (\<lambda>p. p \<noteq> NULL) sc)" "set sc \<inter> {0x1000, 0x2000} = {}"
  shows "tramps_ok nop_page 128 (\<lambda>_. 128) (\<lambda>_. []) [] (busy_world sc)"
proof -
  have h: "heap_ok (busy_world sc)" using assms by (auto simp: heap_ok_def busy_world_def tramp_boot_def)
  have d: "dom busy_mem = span 0x10000 0x1000 \<union> span 0x10000 0x2000"
    by (simp only: busy_mem_def map_block_dom nop_page_length length_replicate) simp
  have l: "load busy_mem 0x10000 0x1000 = Some nop_page"
  proof -
    have "length nop_page \<le> 2 ^ 64" by (simp add: nop_page_length)
    from load_map_block [OF this, of "0x10000" "map_block 0x10000 (replicate 0x2000 0) Map.empty"] show ?thesis
      unfolding busy_mem_def nop_page_length .
  qed
  show ?thesis
    by (rule busy_parts_ok [OF h]) (use d l in \<open>simp_all add: busy_world_def tramp_boot_def del: load.simps\<close>)
qed

lemma dom_view:
  assumes ok: "tramps_ok code n (\<lambda>_. n) fr ts w"
  shows "dom (tramp_view w |` in_use fr w) = in_use fr w"
proof -
  note k = tramps_okD [OF ok]
  have "tramp_view w q \<noteq> None" if u: "q \<in> in_use fr w" for q
  proof -
    obtain tb t where "tables w tb = Some t" "q \<in> slots (tt_array t) n" using use_table [OF k(1) u] by blast
    from view_place [OF k(1) this] show ?thesis by auto
  qed
  then show ?thesis by (auto simp: restrict_map_def split: if_splits)
qed

lemma holds_view: "tramps_ok code n (\<lambda>_. n) fr ts w \<Longrightarrow> holds code n (tramp_view w |` in_use fr w) w"
  using dom_view unfolding holds_def by (metis restrict_in)

text \<open>Handing out the first free trampoline.\<close>

lemma in_use_take:
  assumes ok: "tables_ok code n lim fr w" and t: "tables w tb = Some t" and q: "q \<in> set (fr tb)"
    and w': "dom (tables w') = dom (tables w)" "dom (tramps w') = dom (tramps w)"
  shows "in_use (fr(tb := remove1 q (fr tb))) w' = insert q (in_use fr w) \<and> q \<notin> in_use fr w"
proof -
  note f = table_facts [OF ok t]
  have q': "fst q = tt_array t" "snd q < lim tb" using q f(3) by auto
  have qd: "q \<in> dom (tramps w)" using table_tramp [OF ok t q'] by blast
  have oth: "q \<notin> set (fr tb')" if tb': "tb' \<in> dom (tables w)" "tb' \<noteq> tb" for tb'
  proof -
    obtain t' where "tables w tb' = Some t'" using tb'(1) by blast
    then show ?thesis using other_slots [OF ok t _ tb'(2) [symmetric] q'(1)] by blast
  qed
  have mem: "p \<in> set ((fr(tb := remove1 q (fr tb))) tb') \<longleftrightarrow> p \<in> set (fr tb') \<and> p \<noteq> q" if "tb' \<in> dom (tables w)" for p tb'
    using f(2) oth [OF that] by (cases "tb' = tb") auto
  have "p \<in> in_use (fr(tb := remove1 q (fr tb))) w' \<longleftrightarrow> p = q \<or> p \<in> in_use fr w" for p
    unfolding in_use_def w' using mem qd by (cases "p = q") auto
  moreover have "q \<notin> in_use fr w" using q t by (auto simp: in_use_def)
  ultimately show ?thesis by blast
qed

lemma holds_take:
  assumes ok2: "tramps_ok code n (\<lambda>_. n) fr2 ts2 w2" and h2: "dom M = in_use fr2 w2" "\<forall>q \<in> dom M. tramp_view w2 q = M q"
    and t: "tables w2 tb = Some t" and q: "q \<in> set (fr2 tb)"
    and r3: "relinks w2 w3" and ok3: "tramps_ok code n (\<lambda>_. n) (fr2(tb := remove1 q (fr2 tb))) ts3 w3"
  shows "q \<notin> dom M \<and> (\<exists>a bs. holds code n (M(q \<mapsto> (a, bs))) w3)"
proof -
  note k2 = tramps_okD [OF ok2]
  note fw = relinks_frame [OF r3]
  have qs: "q \<in> slots (tt_array t) n" using q table_facts(3) [OF k2(1) t] by blast
  have u: "in_use (fr2(tb := remove1 q (fr2 tb))) w3 = insert q (dom M)" "q \<notin> dom M"
    using in_use_take [OF k2(1) t q fw(4,5)] h2 by simp_all
  have core: "map_option fl.core (tramps w3 p) = map_option fl.core (tramps w2 p)" for p
    using r3 unfolding relinks_def fl.same_core_def by blast
  have old: "tramp_view w3 p = M p" if p: "p \<in> dom M" for p
  proof -
    obtain tb' t' where t': "tables w2 tb' = Some t'" "p \<in> slots (tt_array t') n" using use_table [OF k2(1), of p] p h2 by blast
    have "tramp_view w3 p = tramp_view w2 p" by (rule view_keep [OF k2(1) t' core]) (simp add: fw(1))
    with h2 p show ?thesis by simp
  qed
  obtain t3 where t3: "tables w3 tb = Some t3" "tt_array t3 = tt_array t" using relinks_table [OF r3 t] by auto
  obtain a bs where v: "tramp_view w3 q = Some (a, bs)" using view_place [OF tramps_okD(1) [OF ok3] t3(1)] qs t3(2) by metis
  have "holds code n (M(q \<mapsto> (a, bs))) w3"
    unfolding holds_def
  proof (intro conjI exI)
    show "tramps_ok code n (\<lambda>_. n) (fr2(tb := remove1 q (fr2 tb))) ts3 w3" by (rule ok3)
    show "dom (M(q \<mapsto> (a, bs))) = in_use (fr2(tb := remove1 q (fr2 tb))) w3" using u by simp
    show "\<forall>p \<in> dom (M(q \<mapsto> (a, bs))). tramp_view w3 p = (M(q \<mapsto> (a, bs))) p"
    proof
      fix p assume "p \<in> dom (M(q \<mapsto> (a, bs)))"
      then show "tramp_view w3 p = (M(q \<mapsto> (a, bs))) p" using v old [of p] by (cases "p = q") auto
    qed
  qed
  with u(2) show ?thesis by blast
qed

lemma tramp_alloc_holds:
  assumes os: "posix os" and mf: "maps_file os (tg_fd (tg w)) (tg_offset (tg w)) code" "length code = 0x1000"
    and st: "tg_status (tg w) = TRAMP_GLOBALS_PASSED" and h: "holds code n M w" and few: "card (dom (tables w)) < 2 ^ 31"
  shows "\<exists>q w'. ffi_tramp_alloc A S os 0 w = Some (q, w') \<and>
     (\<forall>a \<in> dom (mem w). mem w' a = mem w a) \<and> pages w' \<subseteq> pages w \<union> - dom (mem w) \<and> tramp_world.more w' = tramp_world.more w
     \<and> (\<exists>a b. tg w' = (tg w)\<lparr>tg_free_tables := a, tg_nfree_tables := b\<rparr>) \<and> card (dom (tables w')) \<le> Suc (card (dom (tables w)))
     \<and> (if q = NULL_TRAMP then holds code n M w' else q \<notin> dom M \<and> (\<exists>a bs. holds code n (M(q \<mapsto> (a, bs))) w'))"
proof -
  obtain fr ts where ok: "tramps_ok code n (\<lambda>_. n) fr ts w" "dom M = in_use fr w" "\<forall>q \<in> dom M. tramp_view w q = M q"
    using h unfolding holds_def by blast
  note k = tramps_okD [OF ok(1)]
  have "length ts = card (set ts)" using k(4) by (simp add: distinct_card)
  also have "\<dots> \<le> card (dom (tables w))" by (rule card_mono) (use k(5) in simp_all)
  finally have "length ts < 2 ^ 31" using few by simp
  then obtain r w2 fr2 ts2 where w2: "tramp_table_alloc os w = Some (r, w2)" "tramps_ok code n (\<lambda>_. n) fr2 ts2 w2" "keeps fr w fr2 w2"
    "if r then ts2 \<noteq> [] else same_tramps w w2" using tramp_table_alloc_ok [OF os mf ok(1)] by blast
  note h2 = holds_keeps [OF ok w2(3)]
  have init: "ffi_tramp_init A S os w = Some (True, w)" by (simp add: ffi_tramp_init_def st)
  show ?thesis
  proof (cases r)
    case False
    then have "ffi_tramp_alloc A S os 0 w = Some (NULL_TRAMP, w2)" using init w2(1) by (simp add: ffi_tramp_alloc_def)
    moreover have "holds code n M w2" using w2(2) h2 unfolding holds_def by blast
    ultimately show ?thesis using w2(3) unfolding keeps_def by (intro exI [of _ NULL_TRAMP] exI [of _ w2]) simp
  next
    case True
    note k2 = tramps_okD [OF w2(2)]
    obtain tb rest where ts2: "ts2 = tb # rest" using w2(4) True by (cases ts2) auto
    have ft: "tg_free_tables (tg w2) = tb" using k2(2) ts2 by (simp add: list_ok_def)
    obtain t where t: "tables w2 tb = Some t" using list_listed_table [OF k2(2)] ts2 by auto
    then have "fr2 tb \<noteq> []" using k2(3) ts2 unfolding listed_def by auto
    then obtain q fs where fs: "fr2 tb = q # fs" by (cases "fr2 tb") auto
    note f = table_facts [OF k2(1) t]
    have tq: "tt_free t = q" using f(1) fs by simp
    have q: "q \<in> set (fr2 tb)" using fs by simp
    obtain w3 ts3 where w3: "tramp_del q w2 = Some w3" "relinks w2 w3" "tramps_ok code n (\<lambda>_. n) (fr2(tb := remove1 q (fr2 tb))) ts3 w3"
      using tramp_del_ok [OF w2(2) t q] by blast
    have run: "ffi_tramp_alloc A S os 0 w = Some (q, w3)" using init w2(1) True t tq w3(1) by (simp add: ffi_tramp_alloc_def ft)
    have qs: "q \<in> slots (tt_array t) n" using q f(3) by blast
    have nz: "q \<noteq> NULL_TRAMP" using qs f(9) by auto
    have "q \<notin> dom M \<and> (\<exists>a bs. holds code n (M(q \<mapsto> (a, bs))) w3)"
      by (rule holds_take [OF w2(2) conjunct1 [OF h2] conjunct2 [OF h2] t q w3(2,3)])
    moreover obtain a b a' b' where "tg w2 = (tg w)\<lparr>tg_free_tables := a, tg_nfree_tables := b\<rparr>" "tg w3 = (tg w2)\<lparr>tg_free_tables := a', tg_nfree_tables := b'\<rparr>"
      using w2(3) w3(2) unfolding keeps_def relinks_def by blast
    then have "\<exists>a b. tg w3 = (tg w)\<lparr>tg_free_tables := a, tg_nfree_tables := b\<rparr>" by auto
    moreover have "mem w3 = mem w2" "dom (tables w3) = dom (tables w2)" "pages w3 = pages w2" "tramp_world.more w3 = tramp_world.more w2"
      using relinks_frame(1,4) relinks_pages relinks_more w3(2) by blast+
    ultimately show ?thesis using run nz w2(3) unfolding keeps_def by (intro exI [of _ q] exI [of _ w3]) simp
  qed
qed

text \<open>Claim C13. A trampoline is handed out. While the file the code is mapped from gives the code, a call of
  \<open>ffi_tramp_alloc\<close> returns under any allocator answers, whatever the state of its tables. Seen as a map from the
  trampolines in use to their code addresses and parameters, the state either stays as it is and the result is
  \<open>NULL\<close>, or the result is a trampoline that was not in use, and it is the only change: no other trampoline
  moves or loses its parameters.\<close>

theorem tramp_alloc_refines:
  assumes os: "posix os" and mf: "maps_file os (tg_fd (tg w)) (tg_offset (tg w)) code" "length code = 0x1000"
    and st: "tg_status (tg w) = TRAMP_GLOBALS_PASSED" and h: "holds code n M w" and few: "card (dom (tables w)) < 2 ^ 31"
  shows "\<exists>q w'. ffi_tramp_alloc A S os 0 w = Some (q, w') \<and>
     (if q = NULL_TRAMP then holds code n M w' else q \<notin> dom M \<and> (\<exists>a bs. holds code n (M(q \<mapsto> (a, bs))) w'))"
  using tramp_alloc_holds [OF os mf st h few] by blast

lemma busy_holds: "holds nop_page 128 (tramp_view (busy_world [0x3000, 0x4000]) |` in_use (\<lambda>_. []) (busy_world [0x3000, 0x4000])) (busy_world [0x3000, 0x4000])"
  by (rule holds_view, rule busy_tramps_ok) simp_all

lemma busy_tables: "dom (tables (busy_world sc)) = {0x1000}"
  by (simp add: busy_world_def)

lemma busy_use: "(0x2000, 5) \<in> in_use (\<lambda>_. []) (busy_world sc)"
  by (simp add: in_use_def busy_world_def dom_def)

theorem tramp_alloc_refines_witness:
  "\<exists>M q w'. holds nop_page 128 M (busy_world [0x3000, 0x4000])
     \<and> ffi_tramp_alloc \<lparr>trampoline_code_table = 0x400000, arch_endbr = False\<rparr> no_files (two_pages_os nop_page) 0 (busy_world [0x3000, 0x4000]) = Some (q, w')
     \<and> (if q = NULL_TRAMP then holds nop_page 128 M w' else q \<notin> dom M \<and> (\<exists>a bs. holds nop_page 128 (M(q \<mapsto> (a, bs))) w'))"
proof -
  have st: "tg_status (tg (busy_world [0x3000, 0x4000])) = TRAMP_GLOBALS_PASSED" by (simp add: busy_world_def busy_tg_def)
  have few: "card (dom (tables (busy_world [0x3000, 0x4000]))) < 2 ^ 31" by (simp add: busy_tables)
  from tramp_alloc_refines [OF two_pages_posix two_pages_file nop_page_length st busy_holds few] busy_holds show ?thesis by blast
qed

section \<open>Giving a trampoline back\<close>

text \<open>Back into the list of its table, and away with the whole table.\<close>

lemma holds_put:
  assumes ok: "tramps_ok code n (\<lambda>_. n) fr ts w" "dom M = in_use fr w" "\<forall>q \<in> dom M. tramp_view w q = M q" and q: "q \<in> dom M"
    and t: "tables w tb = Some t"
    and n': "tramps_ok code n (\<lambda>_. n) (fr(tb := q # fr tb)) ts1 w'" and r: "relinks w w'"
  shows "holds code n (M(q := None)) w'"
proof -
  note k = tramps_okD [OF ok(1)]
  have other: "p \<in> dom M \<Longrightarrow> p \<noteq> q \<Longrightarrow> \<exists>tb' t'. tables w tb' = Some t' \<and> p \<in> slots (tt_array t') n \<and> p \<notin> set (fr tb')" for p
    using use_table [OF k(1), of p] ok(2) by blast
  note fw = relinks_frame [OF r]
  have mem: "p \<in> set ((fr(tb := q # fr tb)) tb') \<longleftrightarrow> p \<in> set (fr tb') \<or> p = q \<and> tb' = tb" for p tb' by (cases "tb' = tb") auto
  have "p \<in> in_use (fr(tb := q # fr tb)) w' \<longleftrightarrow> p \<in> in_use fr w \<and> p \<noteq> q" for p
    unfolding in_use_def fw(4,5) using mem t by (cases "p = q") auto
  then have u: "dom (M(q := None)) = in_use (fr(tb := q # fr tb)) w'" using ok(2) by auto
  have "tramp_view w' p = (M(q := None)) p" if p: "p \<in> dom (M(q := None))" for p
  proof -
    have p': "p \<in> dom M" "p \<noteq> q" using p by (auto split: if_splits)
    obtain tb' t' where t': "tables w tb' = Some t'" "p \<in> slots (tt_array t') n" using other [OF p'] by blast
    have "map_option fl.core (tramps w' p) = map_option fl.core (tramps w p)" using r unfolding relinks_def fl.same_core_def by blast
    then have "tramp_view w' p = tramp_view w p" by (rule view_keep [OF k(1) t']) (simp add: fw(1))
    with ok(3) p' show ?thesis by simp
  qed
  with n' u show ?thesis unfolding holds_def by blast
qed

lemma holds_drop:
  assumes ok: "tramps_ok code n (\<lambda>_. n) fr ts w" "dom M = in_use fr w" "\<forall>q \<in> dom M. tramp_view w q = M q" and q: "q \<in> dom M"
    and t: "tables w tb = Some t" "q \<in> slots (tt_array t) n" "q \<notin> set (fr tb)" and full: "Suc (length (fr tb)) = n"
    and n': "tramps_ok code n (\<lambda>_. n) fr ts1 w'" "dom (tables w') = dom (tables w) - {tb}"
      "dom (tramps w') = {q \<in> dom (tramps w). fst q \<noteq> tt_array t}" "mem w' = unmap (tt_code_table t) 0x2000 (mem w)"
      "\<forall>p. fst p \<noteq> tt_array t \<longrightarrow> map_option fl.core (tramps w' p) = map_option fl.core (tramps w p)"
  shows "holds code n (M(q := None)) w'"
proof -
  note k = tramps_okD [OF ok(1)]
  have other: "p \<in> dom M \<Longrightarrow> p \<noteq> q \<Longrightarrow> \<exists>tb' t'. tables w tb' = Some t' \<and> p \<in> slots (tt_array t') n \<and> p \<notin> set (fr tb')" for p
    using use_table [OF k(1), of p] ok(2) by blast
  note f = table_facts [OF k(1) t(1)]
  have fq: "fst q = tt_array t" using t(2) by simp
  have "set (q # fr tb) = slots (tt_array t) n"
    by (rule slots_full) (use f(2,3) t(2,3) full in auto)
  then have all: "p = q \<or> p \<in> set (fr tb)" if "p \<in> dom (tramps w)" "fst p = tt_array t" for p
  proof -
    note pd = that
    obtain tb' t' where v: "tables w tb' = Some t'" "p \<in> slots (tt_array t') n" using k(1) pd(1) unfolding tables_ok_def by blast
    with pd(2) have "p \<in> slots (tt_array t) n" by simp
    then show ?thesis using \<open>set (q # fr tb) = slots (tt_array t) n\<close> by (metis set_ConsD)
  qed
  have gone: "p \<in> in_use fr w \<Longrightarrow> p \<noteq> q \<Longrightarrow> fst p \<noteq> tt_array t" for p 
  proof
    assume p: "p \<in> in_use fr w" "p \<noteq> q" "fst p = tt_array t"
    then have "p \<in> dom (tramps w)" "p \<notin> set (fr tb)" using t(1) by (auto simp: in_use_def)
    with all [of p] p(2,3) show False by blast
  qed
  have ns: "p \<notin> set (fr tb)" if "fst p \<noteq> tt_array t" for p using f(3) that by auto
  have "p \<in> in_use fr w' \<longleftrightarrow> p \<in> in_use fr w \<and> p \<noteq> q" for p
  proof
    assume p: "p \<in> in_use fr w'"
    then have a: "p \<in> dom (tramps w)" "fst p \<noteq> tt_array t" "\<And>u. u \<in> dom (tables w) \<Longrightarrow> u \<noteq> tb \<Longrightarrow> p \<notin> set (fr u)"
      unfolding in_use_def n'(2,3) by blast+
    have "p \<notin> set (fr u)" if "u \<in> dom (tables w)" for u using a(2,3) ns that by (cases "u = tb") simp_all
    with a(1,2) fq show "p \<in> in_use fr w \<and> p \<noteq> q" unfolding in_use_def by auto
  next
    assume p: "p \<in> in_use fr w \<and> p \<noteq> q"
    then have "fst p \<noteq> tt_array t" using gone by blast
    with p show "p \<in> in_use fr w'" unfolding in_use_def n'(2,3) by blast
  qed
  then have u: "dom (M(q := None)) = in_use fr w'" using ok(2) by auto
  have "tramp_view w' p = (M(q := None)) p" if p: "p \<in> dom (M(q := None))" for p
  proof -
    have p': "p \<in> dom M" "p \<noteq> q" using p by (auto split: if_splits)
    obtain tb' t' where t': "tables w tb' = Some t'" "p \<in> slots (tt_array t') n" using other [OF p'] by blast
    have np: "fst p \<noteq> tt_array t" using gone p' ok(2) by blast
    then have "tt_array t' \<noteq> tt_array t" using t'(2) by simp
    then have "tb' \<noteq> tb" using t' t(1) by auto
    then have ap: "span (tt_code_table t') 0x2000 \<inter> span (tt_code_table t) 0x2000 = {}" using k(1) t(1) t'(1) unfolding tables_ok_def by blast
    have "map_option fl.core (tramps w' p) = map_option fl.core (tramps w p)" using n'(5) np by blast
    then have "tramp_view w' p = tramp_view w p"
    proof (rule view_keep [OF k(1) t'])
      fix a assume "a \<in> span (tt_code_table t') 0x2000"
      with ap show "mem w' a = mem w a" unfolding n'(4) by (intro unmap_outside) blast
    qed
    with ok(3) p' show ?thesis by simp
  qed
  with n'(1) u show ?thesis unfolding holds_def by blast
qed

lemma tramp_free_holds:
  assumes os: "posix os" and h: "holds code n M w" and q: "q \<in> dom M" and few: "card (dom (tables w)) < 2 ^ 31 - 1"
  shows "\<exists>w'. ffi_tramp_free os q w = Some w' \<and> (\<forall>a. a \<notin> pages w \<longrightarrow> mem w' a = mem w a) \<and> pages w' \<subseteq> pages w
    \<and> tg_status (tg w') = tg_status (tg w) \<and> tramp_world.more w' = tramp_world.more w \<and> holds code n (M(q := None)) w'"
proof -
  obtain fr ts where ok: "tramps_ok code n (\<lambda>_. n) fr ts w" "dom M = in_use fr w" "\<forall>q \<in> dom M. tramp_view w q = M q"
    using h unfolding holds_def by blast
  note k = tramps_okD [OF ok(1)]
  have "length ts = card (set ts)" using k(4) by (simp add: distinct_card)
  also have "\<dots> \<le> card (dom (tables w))" by (rule card_mono) (use k(5) in simp_all)
  finally have few': "length ts < 2 ^ 31 - 1" using few by simp
  obtain tb t where t: "tables w tb = Some t" "q \<in> slots (tt_array t) n" "q \<notin> set (fr tb)" using use_table [OF k(1), of q] q ok(2) by blast
  note f = table_facts [OF k(1) t(1)]
  have fq: "fst q = tt_array t" "snd q < n" using t(2) by simp_all
  define ts1 where "ts1 = (if fr tb = [] then tb # ts else ts)"
  obtain w' where w': "tramp_add os q w = Some w'" and c: "if Suc (length (fr tb)) = n \<and> 1 < length ts1
      then tramps_ok code n (\<lambda>_. n) fr (remove1 tb ts1) w' \<and> dom (tables w') = dom (tables w) - {tb}
         \<and> dom (tramps w') = {q \<in> dom (tramps w). fst q \<noteq> tt_array t} \<and> blocks w' = blocks w - {tb, tt_array t}
         \<and> mem w' = unmap (tt_code_table t) 0x2000 (mem w) \<and> tramp_world.more w' = tramp_world.more w
         \<and> (\<forall>y t'. tables w' y = Some t' \<longrightarrow> map_option place (tables w y) = Some (place t'))
         \<and> (\<exists>a b. tg w' = (tg w)\<lparr>tg_free_tables := a, tg_nfree_tables := b\<rparr>)
         \<and> (\<forall>p. fst p \<noteq> tt_array t \<longrightarrow> map_option fl.core (tramps w' p) = map_option fl.core (tramps w p))
      else tramps_ok code n (\<lambda>_. n) (fr(tb := q # fr tb)) ts1 w' \<and> relinks w w'"
    using tramp_add_ok [OF os ok(1) t(1) fq t(3) few' ts1_def] by blast
  have run: "ffi_tramp_free os q w = Some w'" by (simp add: ffi_tramp_free_def w')
  show ?thesis
  proof (cases "Suc (length (fr tb)) = n \<and> 1 < length ts1")
    case False
    then have n': "tramps_ok code n (\<lambda>_. n) (fr(tb := q # fr tb)) ts1 w'" and r: "relinks w w'" using c unfolding if_not_P [OF False] by blast+
    have "holds code n (M(q := None)) w'" by (rule holds_put [OF ok q t(1) n' r])
    moreover have "tg_status (tg w') = tg_status (tg w)" using r by (auto simp: relinks_def)
    ultimately show ?thesis using run relinks_frame(1) [OF r] relinks_more [OF r] relinks_pages [OF r] by simp
  next
    case True
    then have full: "Suc (length (fr tb)) = n" by blast
    have n': "tramps_ok code n (\<lambda>_. n) fr (remove1 tb ts1) w'" "dom (tables w') = dom (tables w) - {tb}"
      "dom (tramps w') = {q \<in> dom (tramps w). fst q \<noteq> tt_array t}" "mem w' = unmap (tt_code_table t) 0x2000 (mem w)"
      "\<forall>p. fst p \<noteq> tt_array t \<longrightarrow> map_option fl.core (tramps w' p) = map_option fl.core (tramps w p)"
      by (insert c [unfolded if_P [OF True]], elim conjE, assumption)+
    have "holds code n (M(q := None)) w'" by (rule holds_drop [OF ok q t full n'])
    moreover have "tramp_world.more w' = tramp_world.more w" by (insert c [unfolded if_P [OF True]], elim conjE, assumption)
    moreover have "\<exists>a b. tg w' = (tg w)\<lparr>tg_free_tables := a, tg_nfree_tables := b\<rparr>" by (insert c [unfolded if_P [OF True]], elim conjE, assumption)
    then have "tg_status (tg w') = tg_status (tg w)" by auto
    moreover have "pages w' \<subseteq> pages w"
    proof -
      have "\<forall>y t'. tables w' y = Some t' \<longrightarrow> map_option place (tables w y) = Some (place t')"
        by (insert c [unfolded if_P [OF True]], elim conjE, assumption)
      then show ?thesis by (fastforce simp: pages_def ran_def)
    qed
    moreover have "mem w' a = mem w a" if "a \<notin> pages w" for a
      unfolding n'(4) by (rule unmap_outside) (use that t(1) in \<open>auto simp: pages_def ran_def\<close>)
    ultimately show ?thesis using run by blast
  qed
qed

text \<open>Claim C24. A trampoline is given back. Every trampoline in use can be freed; it is the only one that leaves
  the map, also where its table is unmapped and freed, so no table goes while a trampoline of it is in use.\<close>

theorem tramp_free_refines:
  assumes os: "posix os" and h: "holds code n M w" and q: "q \<in> dom M" and few: "card (dom (tables w)) < 2 ^ 31 - 1"
  shows "\<exists>w'. ffi_tramp_free os q w = Some w' \<and> holds code n (M(q := None)) w'"
  using tramp_free_holds [OF os h q few] by blast

theorem tramp_free_refines_witness:
  "\<exists>M w'. (0x2000, 5) \<in> dom M \<and> ffi_tramp_free (two_pages_os nop_page) (0x2000, 5) (busy_world [0x3000, 0x4000]) = Some w'
     \<and> holds nop_page 128 (M((0x2000, 5) := None)) w'"
proof -
  let ?w = "busy_world [0x3000, 0x4000]"
  let ?M = "tramp_view ?w |` in_use (\<lambda>_. []) ?w"
  have few: "card (dom (tables ?w)) < 2 ^ 31 - 1" by (simp add: busy_tables)
  have "tramps_ok nop_page 128 (\<lambda>_. 128) (\<lambda>_. []) [] ?w" by (rule busy_tramps_ok) simp_all
  then have "dom ?M = in_use (\<lambda>_. []) ?w" by (rule dom_view)
  then have q: "(0x2000, 5) \<in> dom ?M" using busy_use by blast
  from tramp_free_refines [OF two_pages_posix busy_holds q few] q show ?thesis by blast
qed

section \<open>Parameters\<close>

lemma spans_apart_sym:
  assumes "i \<noteq> j" "n \<le> s" "i * s + s \<le> m" "j * s + s \<le> m" "m \<le> 2 ^ 64"
  shows "span (c + of_nat (i * s)) n \<inter> span (c + of_nat (j * s)) n = {}"
proof -
  have lt: "span (c + of_nat (i * s)) n \<inter> span (c + of_nat (j * s)) n = {}" if ij: "i < j" "j * s + s \<le> m" for i j
  proof -
    have "i * s + (j - i) * s = j * s" using ij(1) by (simp add: diff_mult_distrib)
    then have e: "c + of_nat (j * s) = c + of_nat (i * s) + of_nat ((j - i) * s)" by (metis add.assoc of_nat_add)
    have "1 * s \<le> (j - i) * s" by (rule mult_le_mono1) (use ij(1) in simp)
    moreover have "(j - i) * s \<le> j * s" by (rule mult_le_mono1) simp
    ultimately show ?thesis unfolding e by (intro span_apart) (use assms(2,5) ij(2) in linarith)+
  qed
  from assms(1) consider "i < j" | "j < i" by linarith
  then show ?thesis using lt [of i j] lt [of j i] assms(3,4) by cases (auto simp: Int_commute)
qed

lemma places_apart:
  assumes ok: "tables_ok code n (\<lambda>_. n) fr w" and p: "p \<in> in_use fr w" "tramps w p = Some r" and q: "q \<in> in_use fr w" "tramps w q = Some r'" and ne: "p \<noteq> q"
  shows "span (tr_parm r) 16 \<inter> span (tr_parm r') 16 = {}
    \<and> span (tr_code r) (unat (tg_size (tg w))) \<inter> span (tr_code r') (unat (tg_size (tg w))) = {}"
proof -
  let ?s = "unat (tg_size (tg w))"
  obtain tb t where t: "tables w tb = Some t" "p \<in> slots (tt_array t) n" using use_table [OF ok p(1)] by blast
  obtain tb' t' where t': "tables w tb' = Some t'" "q \<in> slots (tt_array t') n" using use_table [OF ok q(1)] by blast
  show ?thesis
  proof (cases "tb = tb'")
    case True
    with t(1) t'(1) have tt: "t' = t" by simp
    have i: "snd p \<noteq> snd q" using ne t(2) t'(2) tt by (auto simp: prod_eq_iff)
    have r: "tr_code r = tt_code_table t + of_nat (snd p * ?s)" "tr_parm r = tr_code r + 0x1000" "snd p * ?s + ?s \<le> 0x1000" "16 \<le> ?s"
      using slot_place [OF ok t] p(2) by auto
    have r': "tr_code r' = tt_code_table t + of_nat (snd q * ?s)" "tr_parm r' = tr_code r' + 0x1000" "snd q * ?s + ?s \<le> 0x1000"
      using slot_place [OF ok t'] q(2) tt by auto
    have "tr_parm r = (tt_code_table t + 0x1000) + of_nat (snd p * ?s)" "tr_parm r' = (tt_code_table t + 0x1000) + of_nat (snd q * ?s)"
      by (simp_all only: r(1,2) r'(1,2) ac_simps)
    then show ?thesis
      using spans_apart_sym [OF i r(4) r(3) r'(3), of "tt_code_table t + 0x1000"] spans_apart_sym [OF i order_refl r(3) r'(3), of "tt_code_table t"]
      by (simp only: r(1) r'(1)) simp
  next
    case False
    have ap: "span (tt_code_table t) 0x2000 \<inter> span (tt_code_table t') 0x2000 = {}" using ok t(1) t'(1) False unfolding tables_ok_def by blast
    have s: "span c 0x1000 \<subseteq> span c 0x2000" for c by (rule span_mono) simp
    have "span (tr_parm r) 16 \<subseteq> span (tt_code_table t) 0x2000" "span (tr_code r) ?s \<subseteq> span (tt_code_table t) 0x1000"
      using view_place [OF ok t] p(2) by auto
    moreover have "span (tr_parm r') 16 \<subseteq> span (tt_code_table t') 0x2000" "span (tr_code r') ?s \<subseteq> span (tt_code_table t') 0x1000"
      using view_place [OF ok t'] q(2) by auto
    ultimately show ?thesis using ap s [of "tt_code_table t"] s [of "tt_code_table t'"] by blast
  qed
qed

lemma tramps_ok_mem:
  assumes ok: "tramps_ok code n lim fr ts w" and d: "dom m = dom (mem w)"
    and c: "\<And>tb t a. tables w tb = Some t \<Longrightarrow> a \<in> span (tt_code_table t) 0x1000 \<Longrightarrow> m a = mem w a"
  shows "tramps_ok code n lim fr ts (w\<lparr>mem := m\<rparr>)"
proof -
  have "table_ok code n (lim tb) (fr tb) (w\<lparr>mem := m\<rparr>) tb t" if t: "tables w tb = Some t" for tb t
  proof -
    have o: "table_ok code n (lim tb) (fr tb) w tb t" using ok t by (simp add: tramps_ok_def tables_ok_def)
    have "load m (tt_code_table t) 0x1000 = load (mem w) (tt_code_table t) 0x1000" by (rule load_cong) (rule c [OF t])
    then have "blocks (w\<lparr>mem := m\<rparr>) = blocks w" "tables (w\<lparr>mem := m\<rparr>) = tables w" "tramps (w\<lparr>mem := m\<rparr>) = tramps w" "tg (w\<lparr>mem := m\<rparr>) = tg w"
      "dom (mem (w\<lparr>mem := m\<rparr>)) = dom (mem w)" "load (mem (w\<lparr>mem := m\<rparr>)) (tt_code_table t) 0x1000 = load (mem w) (tt_code_table t) 0x1000"
      using d by simp_all
    note e = this
    show ?thesis using o unfolding table_ok_def e .
  qed
  then show ?thesis using ok by (simp add: tramps_ok_def tables_ok_def list_ok_def listed_def heap_ok_def)
qed

text \<open>What lies outside the pages does not matter.\<close>

lemma holds_pages: "holds code n M w \<Longrightarrow> pages w \<subseteq> dom (mem w)"
proof -
  assume "holds code n M w"
  then obtain fr ts where "tramps_ok code n (\<lambda>_. n) fr ts w" unfolding holds_def by blast
  then have "span (tt_code_table t) 0x2000 \<subseteq> dom (mem w)" if "tables w tb = Some t" for tb t
    using that tramps_okD(1) unfolding tables_ok_def table_ok_def by blast
  then show ?thesis unfolding pages_def ran_def by blast
qed

lemma holds_frame:
  assumes h: "holds code n M w" and e: "tables w' = tables w" "tramps w' = tramps w" "tg w' = tg w" "live w' = live w" "script w' = script w"
    and m: "\<And>a. a \<in> pages w \<Longrightarrow> mem w' a = mem w a"
  shows "holds code n M w'"
proof -
  obtain fr ts where ok: "tramps_ok code n (\<lambda>_. n) fr ts w" "dom M = in_use fr w" "\<forall>q \<in> dom M. tramp_view w q = M q"
    using h unfolding holds_def by blast
  note k = tramps_okD [OF ok(1)]
  have hp: "heap_ok w' = heap_ok w" "blocks w' = blocks w" using e(4,5) by (simp_all add: heap_ok_def)
  have at: "mem w' a = mem w a" if "tables w tb = Some t" "a \<in> span (tt_code_table t) 0x2000" for tb t a
    by (rule m) (use that in \<open>auto simp: pages_def ran_def\<close>)
  have "table_ok code n n (fr tb) w' tb t" if t: "tables w tb = Some t" for tb t
  proof -
    have o: "table_ok code n n (fr tb) w tb t" using k(1) t by (simp add: tables_ok_def)
    have "span (tt_code_table t) 0x1000 \<subseteq> span (tt_code_table t) 0x2000" by (rule span_mono) simp
    then have "load (mem w') (tt_code_table t) 0x1000 = load (mem w) (tt_code_table t) 0x1000" using at [OF t] by (intro load_cong) blast
    moreover have "(span (tt_code_table t) 0x2000 \<subseteq> dom (mem w')) = (span (tt_code_table t) 0x2000 \<subseteq> dom (mem w))"
      using at [OF t] by (auto simp: dom_def subset_eq)
    ultimately show ?thesis using o unfolding table_ok_def e hp by argo
  qed
  then have "tramps_ok code n (\<lambda>_. n) fr ts w'"
    using ok(1) by (simp add: tramps_ok_def tables_ok_def list_ok_def listed_def e hp)
  moreover have "tramp_view w' q = M q" if q: "q \<in> dom M" for q
  proof -
    obtain tb t where t: "tables w tb = Some t" "q \<in> slots (tt_array t) n" using use_table [OF k(1), of q] q ok(2) by blast
    have "tramp_view w' q = tramp_view w q" by (rule view_keep [OF k(1) t]) (use e(2) at [OF t(1)] in simp_all)
    then show ?thesis using ok(3) q by simp
  qed
  moreover have "in_use fr w' = in_use fr w" by (simp add: in_use_def e)
  ultimately show ?thesis using ok(2) unfolding holds_def by blast
qed

text \<open>The two stores write the parameters of the trampoline and nothing else.\<close>

lemma store_params:
  assumes "span p 16 \<subseteq> dom m" and x: "length xs = 8" and y: "length ys = 8"
  shows "\<exists>m1 m2. store m (p + 8) ys = Some m1 \<and> store m1 p xs = Some m2 \<and> dom m2 = dom m \<and> load m2 p 8 = Some xs \<and> load m2 (p + 8) 8 = Some ys
    \<and> (\<forall>a. a \<notin> span p 16 \<longrightarrow> m2 a = m a)"
proof -
  have two: "span p 16 = span p 8 \<union> span (p + 8) 8" using span_append [of p 8 8] by simp
  have ap: "span p 8 \<inter> span (p + 8) 8 = {}" using span_apart [of 8 8 8 p] by simp
  have "store m (p + 8) ys \<noteq> None" unfolding store_defined using assms(1) two y by auto
  then obtain m1 where m1: "store m (p + 8) ys = Some m1" by blast
  have "store m1 p xs \<noteq> None" unfolding store_defined store_dom [OF m1] using assms(1) two x by auto
  then obtain m2 where m2: "store m1 p xs = Some m2" by blast
  have "load m1 (p + 8) 8 = Some ys" using load_store_same [OF m1] y by simp
  then have "load m2 (p + 8) 8 = Some ys" using load_store_disjoint [OF m2, of "p + 8" 8] ap x by simp
  moreover have "load m2 p 8 = Some xs" using load_store_same [OF m2] x by simp
  moreover have "m2 a = m a" if "a \<notin> span p 16" for a
    using store_outside [OF m2, of a] store_outside [OF m1, of a] that two x y by auto
  ultimately show ?thesis using m1 m2 store_dom [OF m1] store_dom [OF m2] by auto
qed

lemma set_parms_holds:
  assumes h: "holds code n M w" and q: "M q = Some (a, bs)"
  defines "s \<equiv> unat (tg_size (tg w))"
  shows "\<exists>w'. ffi_tramp_set_parms q target data w = Some w' \<and> ffi_tramp_get_addr q w' = Some a
    \<and> w' = w\<lparr>mem := mem w'\<rparr> \<and> (\<forall>x. x \<notin> span (a + 0x1000) 16 \<longrightarrow> mem w' x = mem w x) \<and> dom (mem w') = dom (mem w)
    \<and> holds code n (M(q \<mapsto> (a, le_bytes 8 data @ le_bytes 8 target))) w'
    \<and> load (mem w') a s = Some (take s (drop (snd q * s) code))
    \<and> load (mem w') (a + 0x1000) 8 = Some (le_bytes 8 data) \<and> load (mem w') (a + 0x1008) 8 = Some (le_bytes 8 target)"
proof -
  obtain fr ts where ok: "tramps_ok code n (\<lambda>_. n) fr ts w" "dom M = in_use fr w" "\<forall>q \<in> dom M. tramp_view w q = M q"
    using h unfolding holds_def by blast
  note k = tramps_okD [OF ok(1)]
  have u: "q \<in> in_use fr w" using q ok(2) by auto
  obtain tb t where t: "tables w tb = Some t" "q \<in> slots (tt_array t) n" using use_table [OF k(1) u] by blast
  obtain r where r: "tramps w q = Some r" "tr_parm r = tr_code r + 0x1000" "span (tr_parm r) 16 \<subseteq> span (tt_code_table t) 0x2000"
    "span (tr_parm r) 16 \<inter> span (tt_code_table t) 0x1000 = {}" "tramp_view w q = Some (tr_code r, bs)"
    using view_place [OF k(1) t] ok(3) q by (metis Pair_inject domI option.inject)
  have "tramp_view w q = M q" using ok(3) q by blast
  with r(5) q have a: "tr_code r = a" by simp
  have inside: "span (tt_code_table t) 0x2000 \<subseteq> dom (mem w)" using k(1) t(1) unfolding tables_ok_def table_ok_def by blast
  obtain m1 m2 where m: "store (mem w) (tr_parm r + 8) (le_bytes 8 target) = Some m1" "store m1 (tr_parm r) (le_bytes 8 data) = Some m2"
    "dom m2 = dom (mem w)" "load m2 (tr_parm r) 8 = Some (le_bytes 8 data)" "load m2 (tr_parm r + 8) 8 = Some (le_bytes 8 target)"
    "\<forall>a. a \<notin> span (tr_parm r) 16 \<longrightarrow> m2 a = mem w a"
    using store_params [OF subset_trans [OF r(3) inside] length_le_bytes [of 8 data] length_le_bytes [of 8 target]] by blast
  let ?w = "w\<lparr>mem := m2\<rparr>"
  have run: "ffi_tramp_set_parms q target data w = Some ?w" unfolding ffi_tramp_set_parms_def r(1) by (simp add: m(1,2))
  have code_apart: "b \<notin> span (tr_parm r) 16" if v: "tables w tb' = Some v" "b \<in> span (tt_code_table v) 0x1000" for tb' v b
  proof (cases "tb' = tb")
    case True
    then show ?thesis using v t(1) r(4) by auto
  next
    case False
    have "span (tt_code_table v) 0x2000 \<inter> span (tt_code_table t) 0x2000 = {}" using k(1) t(1) v(1) False unfolding tables_ok_def by blast
    moreover have "span (tt_code_table v) 0x1000 \<subseteq> span (tt_code_table v) 0x2000" by (rule span_mono) simp
    ultimately show ?thesis using v(2) r(3) by blast
  qed
  have ok': "tramps_ok code n (\<lambda>_. n) fr ts ?w"
    by (rule tramps_ok_mem [OF ok(1) m(3)]) (use m(6) code_apart in blast)
  have whole: "load m2 (tr_parm r) 16 = Some (le_bytes 8 data @ le_bytes 8 target)"
    using load_append [of m2 "tr_parm r" 8 8] m(4,5) by simp
  have "tramp_view ?w p = (M(q \<mapsto> (a, le_bytes 8 data @ le_bytes 8 target))) p" if p: "p \<in> insert q (dom M)" for p
  proof (cases "p = q")
    case True
    have "tramp_view ?w q = Some (tr_code r, le_bytes 8 data @ le_bytes 8 target)"
      by (rule tramp_viewI) (simp_all add: r(1) whole del: load.simps)
    with True a show ?thesis by simp
  next
    case False
    then have pu: "p \<in> in_use fr w" using p ok(2) by auto
    then obtain r' where r': "tramps w p = Some r'" unfolding in_use_def by blast
    have "span (tr_parm r') 16 \<inter> span (tr_parm r) 16 = {}" using places_apart [OF k(1) pu r' u r(1) False] by blast
    then have "load m2 (tr_parm r') 16 = load (mem w) (tr_parm r') 16" by (intro load_cong) (use m(6) in blast)
    then have "tramp_view ?w p = tramp_view w p" unfolding tramp_view_def by (simp add: r' del: load.simps)
    with ok(2,3) pu False show ?thesis by auto
  qed
  then have "holds code n (M(q \<mapsto> (a, le_bytes 8 data @ le_bytes 8 target))) ?w"
    unfolding holds_def using ok' ok(2) u by (intro conjI exI [of _ fr] exI [of _ ts]) (auto simp: in_use_def)
  moreover have "load m2 a s = Some (take s (drop (snd q * s) code))"
    using view_place [OF tramps_okD(1) [OF ok'], of tb t q] t r(1) a by (simp add: s_def del: load.simps) blast
  moreover have "ffi_tramp_get_addr q ?w = Some a" by (simp add: ffi_tramp_get_addr_def r(1) a)
  ultimately show ?thesis using run m(3,4,5,6) r(2) a by (intro exI [of _ ?w]) (simp add: add.assoc del: load.simps)
qed

text \<open>The parameters of a trampoline. For a trampoline in use, \<open>ffi_tramp_set_parms\<close> changes its
  parameters and nothing else, and the address \<open>ffi_tramp_get_addr\<close> returns is where its copy of the code lies,
  with the data 4096 bytes and the target 4104 bytes further, where that code reads them.\<close>

theorem tramp_set_parms_reads:
  assumes h: "holds code n M w" and q: "M q = Some (a, bs)"
  defines "s \<equiv> unat (tg_size (tg w))"
  shows "\<exists>w'. ffi_tramp_set_parms q target data w = Some w' \<and> ffi_tramp_get_addr q w' = Some a
    \<and> holds code n (M(q \<mapsto> (a, le_bytes 8 data @ le_bytes 8 target))) w'
    \<and> load (mem w') a s = Some (take s (drop (snd q * s) code))
    \<and> load (mem w') (a + 0x1000) 8 = Some (le_bytes 8 data) \<and> load (mem w') (a + 0x1008) 8 = Some (le_bytes 8 target)"
  using set_parms_holds [OF h q, of target data] unfolding s_def by blast

theorem tramp_set_parms_reads_witness:
  "\<exists>a w'. ffi_tramp_set_parms (0x2000, 5) 0x4000 0x77 (busy_world [0x3000, 0x4000]) = Some w' \<and> ffi_tramp_get_addr (0x2000, 5) w' = Some a
     \<and> load (mem w') (a + 0x1000) 8 = Some (le_bytes 8 0x77) \<and> load (mem w') (a + 0x1008) 8 = Some (le_bytes 8 0x4000)"
proof -
  let ?w = "busy_world [0x3000, 0x4000]"
  let ?M = "tramp_view ?w |` in_use (\<lambda>_. []) ?w"
  have "tramps_ok nop_page 128 (\<lambda>_. 128) (\<lambda>_. []) [] ?w" by (rule busy_tramps_ok) simp_all
  then have "dom ?M = in_use (\<lambda>_. []) ?w" by (rule dom_view)
  then have "(0x2000, 5) \<in> dom ?M" using busy_use by blast
  then obtain a bs where q: "?M (0x2000, 5) = Some (a, bs)" by (metis domD surj_pair)
  from tramp_set_parms_reads [OF busy_holds q, of "0x4000" "0x77"] show ?thesis by blast
qed

end
