(* ===== verification/Ffi_Tramp_Init.thy ===== *)
theory Ffi_Tramp_Init
  imports Ffi_Tramp_Life
begin

text \<open>
  The initialisation of the static trampolines: the search for a file to map the code from ends, and afterwards
  the invariant of \<open>Ffi_Tramp_Ok\<close> holds with nothing handed out, or nothing has been taken.
\<close>

section \<open>The search for a file\<close>

text \<open>What the system calls leave alone.\<close>

definition quiet :: "'a tramp_world_scheme \<Rightarrow> 'a tramp_world_scheme \<Rightarrow> bool" where
  "quiet w w' \<longleftrightarrow> live w' = live w \<and> script w' = script w \<and> mem w' = mem w \<and> tables w' = tables w \<and> tramps w' = tramps w \<and> tg w' = tg w"

lemma quiet_trans: "quiet w w' \<Longrightarrow> quiet w' w'' \<Longrightarrow> quiet w w''"
  by (simp add: quiet_def)

lemma sys_call_quiet: "sys_call f w = (r, w') \<Longrightarrow> quiet w w' \<and> opts_idx w' = opts_idx w"
  by (auto simp: sys_call_def quiet_def split: prod.splits)

lemma sys_done_quiet [simp]: "quiet w (sys_done w)" "opts_idx (sys_done w) = opts_idx w"
  by (simp_all add: sys_done_def quiet_def)

lemma errno_quiet [simp]: "quiet w (w\<lparr>errno := e\<rparr>)"
  by (simp add: quiet_def)

lemma mounts_quiet [simp]: "quiet w (w\<lparr>last_mounts := m, last_mntent := l\<rparr>)" "quiet w (w\<lparr>last_mntent := l\<rparr>)"
  by (simp_all add: quiet_def)

lemma temp_name_quiet: "open_temp_exec_file_name S name w = (fd, w') \<Longrightarrow> quiet w w' \<and> opts_idx w' = opts_idx w"
  unfolding open_temp_exec_file_name_def
  by (auto simp: Let_def split: prod.splits if_splits dest!: sys_call_quiet intro: quiet_trans [OF _ sys_done_quiet(1)])

lemma temp_dir_quiet: "open_temp_exec_file_dir S dir w = (fd, w') \<Longrightarrow> quiet w w' \<and> opts_idx w' = opts_idx w"
proof -
  assume r: "open_temp_exec_file_dir S dir w = (fd, w')"
  obtain f w1 where c: "sys_call (open_tmpfile S dir) w = (f, w1)" by fastforce
  note q1 = sys_call_quiet [OF c]
  have "w' = w1 \<or> open_temp_exec_file_name S (dir @ ''/ffiXXXXXX'') (w1\<lparr>errno := (errno w1)(self w1 := 0)\<rparr>) = (fd, w')"
    using r unfolding open_temp_exec_file_dir_def c Let_def by (auto split: if_splits)
  then show ?thesis
  proof
    assume "open_temp_exec_file_name S (dir @ ''/ffiXXXXXX'') (w1\<lparr>errno := (errno w1)(self w1 := 0)\<rparr>) = (fd, w')"
    from temp_name_quiet [OF this] q1 show ?thesis by (auto simp: quiet_def)
  qed (use q1 in simp)
qed

lemma temp_env_quiet: "open_temp_exec_file_env S v w = (fd, w') \<Longrightarrow> quiet w w' \<and> opts_idx w' = opts_idx w"
  unfolding open_temp_exec_file_env_def by (auto simp: quiet_def split: option.splits dest: temp_dir_quiet)

lemma mnt_loop_quiet: "mnt_loop S ms w = (fd, w') \<Longrightarrow> quiet w w' \<and> opts_idx w' = opts_idx w"
proof (induction ms arbitrary: w)
  case (Cons m ms)
  obtain a w1 where c: "sys_call (sys_access S (mnt_dir m)) w = (a, w1)" by fastforce
  obtain f w2 where d: "open_temp_exec_file_dir S (mnt_dir m) w1 = (f, w2)" by fastforce
  note q = sys_call_quiet [OF c] temp_dir_quiet [OF d]
  consider "mnt_loop S ms w = (fd, w')" | "mnt_loop S ms w1 = (fd, w')" | "mnt_loop S ms w2 = (fd, w')" | "w' = w2\<lparr>last_mntent := Some ms\<rparr>"
    using Cons.prems c d by (auto simp: Let_def split: if_splits)
  then show ?case
    using Cons.IH q by cases (auto simp: quiet_def)
qed (auto simp: quiet_def)

lemma temp_mnt_quiet: "open_temp_exec_file_mnt S mounts w = (fd, w') \<Longrightarrow> quiet w w' \<and> opts_idx w' = opts_idx w"
proof -
  assume r: "open_temp_exec_file_mnt S mounts w = (fd, w')"
  define w1 where "w1 = (if mounts \<noteq> last_mounts w
                then w\<lparr>last_mounts := mounts, last_mntent := (case mounts of None \<Rightarrow> None | Some file \<Rightarrow> setmntent S file w)\<rparr> else w)"
  have q: "quiet w w1 \<and> opts_idx w1 = opts_idx w" by (simp add: w1_def quiet_def)
  show ?thesis
  proof (cases "last_mntent w1")
    case None
    then have "w' = w1" using r unfolding open_temp_exec_file_mnt_def by (fold w1_def) (simp add: Let_def)
    with q show ?thesis by simp
  next
    case (Some ms)
    then have "mnt_loop S ms w1 = (fd, w')" using r unfolding open_temp_exec_file_mnt_def by (fold w1_def) (simp add: Let_def)
    from mnt_loop_quiet [OF this] q show ?thesis by (auto simp: quiet_def)
  qed
qed

lemma opt_call_quiet: "opt_call S opt w = (fd, w') \<Longrightarrow> quiet w w' \<and> opts_idx w' = opts_idx w"
  by (cases opt) (auto dest: sys_call_quiet temp_env_quiet temp_dir_quiet temp_mnt_quiet)

text \<open>Every round either ends the search or moves to the next option, so there are at most as many as options.\<close>

lemma opts_next_step:
  assumes "opts_idx w < 9"
  shows "\<exists>w'. open_temp_exec_file_opts_next S w = Some (opts_idx w = 8, w') \<and> quiet w w' \<and> opts_idx w' = (if opts_idx w = 8 then 0 else Suc (opts_idx w))"
proof -
  have len: "length open_temp_exec_file_opts = 9" by (simp add: open_temp_exec_file_opts_def)
  define w1 where "w1 = (if opt_repeat (open_temp_exec_file_opts ! opts_idx w) then snd (open_temp_exec_file_mnt S None w) else w)"
  have q: "quiet w w1 \<and> opts_idx w1 = opts_idx w"
    using temp_mnt_quiet [of S None w "fst (open_temp_exec_file_mnt S None w)" w1] by (auto simp: w1_def quiet_def)
  show ?thesis
  proof (cases "opts_idx w = 8")
    case True
    let ?w = "w1\<lparr>opts_idx := Suc (opts_idx w1), opts_idx := 0\<rparr>"
    have "open_temp_exec_file_opts_next S w = Some (True, ?w)"
      unfolding open_temp_exec_file_opts_next_def len by (fold w1_def) (use assms q True in \<open>simp add: Let_def\<close>)
    then show ?thesis using True q by (intro exI [of _ ?w]) (simp add: quiet_def)
  next
    case False
    let ?w = "w1\<lparr>opts_idx := Suc (opts_idx w1)\<rparr>"
    have "open_temp_exec_file_opts_next S w = Some (False, ?w)"
      unfolding open_temp_exec_file_opts_next_def len by (fold w1_def) (use assms q False in \<open>simp add: Let_def\<close>)
    then show ?thesis using False q by (intro exI [of _ ?w]) (simp add: quiet_def)
  qed
qed

lemma temp_loop_ends:
  "opts_idx w < 9 \<Longrightarrow> 9 \<le> k + opts_idx w \<Longrightarrow> \<exists>fd w'. open_temp_exec_file_loop k S w = Some (fd, w') \<and> quiet w w' \<and> opts_idx w' < 9"
proof (induction k arbitrary: w)
  case (Suc k)
  have len: "length open_temp_exec_file_opts = 9" by (simp add: open_temp_exec_file_opts_def)
  obtain fd w1 where c: "opt_call S (open_temp_exec_file_opts ! opts_idx w) w = (fd, w1)" by fastforce
  note q = opt_call_quiet [OF c]
  have i1: "opts_idx w1 < 9" using q Suc.prems(1) by simp
  obtain w2 where n: "open_temp_exec_file_opts_next S w1 = Some (opts_idx w1 = 8, w2)" "quiet w1 w2"
    "opts_idx w2 = (if opts_idx w1 = 8 then 0 else Suc (opts_idx w1))" using opts_next_step [OF i1] by blast
  show ?case
  proof (cases "\<not> opt_repeat (open_temp_exec_file_opts ! opts_idx w) \<or> fd = - 1")
    case False
    then have "open_temp_exec_file_loop (Suc k) S w = Some (fd, w1)" using Suc.prems(1) c by (simp add: len Let_def)
    with q i1 show ?thesis by blast
  next
    case True
    show ?thesis
    proof (cases "opts_idx w1 = 8 \<or> fd \<noteq> - 1")
      case fin: True
      have "open_temp_exec_file_loop (Suc k) S w = Some (fd, w2)" using Suc.prems(1) c n(1) True fin by (simp add: len Let_def)
      moreover have "opts_idx w2 < 9" using n(3) i1 by auto
      ultimately show ?thesis using quiet_trans [OF conjunct1 [OF q] n(2)] by blast
    next
      case go: False
      then have i2: "opts_idx w2 < 9" "9 \<le> k + opts_idx w2" using n(3) i1 q Suc.prems(2) by auto
      obtain fd' w' where r: "open_temp_exec_file_loop k S w2 = Some (fd', w')" "quiet w2 w'" "opts_idx w' < 9" using Suc.IH [OF i2] by blast
      have "open_temp_exec_file_loop (Suc k) S w = Some (fd', w')" using Suc.prems(1) c n(1) True go r(1) by (simp add: len Let_def)
      with r(2,3) quiet_trans [OF quiet_trans [OF conjunct1 [OF q] n(2)]] show ?thesis by blast
    qed
  qed
qed simp

lemma temp_file_ends: "opts_idx w < 9 \<Longrightarrow> \<exists>fd w'. open_temp_exec_file S w = Some (fd, w') \<and> quiet w w' \<and> opts_idx w' < 9"
  unfolding open_temp_exec_file_def by (rule temp_loop_ends) (simp_all add: open_temp_exec_file_opts_def)

section \<open>Initialisation\<close>

definition blank :: "nat \<Rightarrow> 'a tramp_world_scheme \<Rightarrow> bool" where
  "blank n w \<longleftrightarrow> heap_ok w \<and> tables w = Map.empty \<and> tramps w = Map.empty \<and> tg_ntramp (tg w) = of_nat n \<and> 0 < n \<and> n \<le> 128
     \<and> tg_map_size (tg w) = 0x1000 \<and> n * unat (tg_size (tg w)) \<le> 0x1000 \<and> 16 \<le> unat (tg_size (tg w))
     \<and> tg_free_tables (tg w) = NULL \<and> tg_nfree_tables (tg w) = 0 \<and> opts_idx w < 9"

text \<open>Nothing is left of an attempt that failed.\<close>

definition undone :: "'a tramp_world_scheme \<Rightarrow> 'a tramp_world_scheme \<Rightarrow> bool" where
  "undone w w' \<longleftrightarrow> heap_ok w' \<and> blocks w' = blocks w \<and> mem w' = mem w \<and> tables w' = tables w \<and> tramps w' = tramps w"

lemma blank_tramps_ok: "blank n w \<Longrightarrow> tramps_ok code n (\<lambda>_. n) (\<lambda>_. []) [] w"
  by (simp add: blank_def tramps_ok_def tables_ok_def list_ok_def listed_def)

lemma blank_fields:
  assumes "blank n w" "quiet w w'" "opts_idx w' < 9" "tg w'' = (tg w')\<lparr>tg_fd := a, tg_offset := b\<rparr>" "w'' = w'\<lparr>tg := tg w''\<rparr>"
  shows "blank n w'' \<and> undone w w''"
proof -
  obtain g where g: "w'' = w'\<lparr>tg := g\<rparr>" "g = (tg w')\<lparr>tg_fd := a, tg_offset := b\<rparr>" using assms(4,5) by blast
  show ?thesis using assms(1-3) by (simp add: blank_def undone_def quiet_def g heap_ok_def)
qed

lemma undone_trans: "undone w w' \<Longrightarrow> undone w' w'' \<Longrightarrow> undone w w''"
  by (simp add: undone_def)

lemma blank_alloc:
  assumes os: "posix os" and mf: "maps_file os (tg_fd (tg w)) (tg_offset (tg w)) code" "length code = 0x1000" and b: "blank n w"
  shows "\<exists>ok w'. tramp_table_alloc os w = Some (ok, w') \<and>
     (if ok then holds code n Map.empty w' \<and> tg_fd (tg w') = tg_fd (tg w) \<and> tg_offset (tg w') = tg_offset (tg w) else blank n w' \<and> undone w w')"
proof -
  obtain ok w' fr ts where a: "tramp_table_alloc os w = Some (ok, w')" "tramps_ok code n (\<lambda>_. n) fr ts w'" "keeps (\<lambda>_. []) w fr w'"
    "if ok then ts \<noteq> [] else same_tramps w w'" using tramp_table_alloc_ok [OF os mf blank_tramps_ok [OF b]] by auto
  show ?thesis
  proof (cases ok)
    case True
    have "in_use fr w' = {}" using a(3) b by (simp add: keeps_def in_use_def blank_def)
    then have "holds code n Map.empty w'" unfolding holds_def using a(2) by auto
    moreover have "tg_fd (tg w') = tg_fd (tg w)" "tg_offset (tg w') = tg_offset (tg w)" using a(3) by (auto simp: keeps_def)
    ultimately show ?thesis using a(1) True by auto
  next
    case False
    then have "blank n w'" "undone w w'" using a(4) b by (simp_all add: same_tramps_def blank_def undone_def)
    with a(1) False show ?thesis by auto
  qed
qed

text \<open>The bytes a descriptor gives at an offset.\<close>

definition maps_files :: "'a tramp_world_scheme os \<Rightarrow> (jint \<Rightarrow> u64 \<Rightarrow> byte list) \<Rightarrow> bool" where
  "maps_files os content \<longleftrightarrow> (\<forall>fd off. maps_file os fd off (content fd off) \<and> length (content fd off) = 0x1000)"

definition started :: "(jint \<Rightarrow> u64 \<Rightarrow> byte list) \<Rightarrow> nat \<Rightarrow> 'a tramp_world_scheme \<Rightarrow> bool" where
  "started content n w \<longleftrightarrow> holds (content (tg_fd (tg w)) (tg_offset (tg w))) n Map.empty w"

lemma try_table:
  assumes os: "posix os" "maps_files os content" and b: "blank n w"
  shows "\<exists>ok w'. (if c then tramp_table_alloc os w else Some (False, w)) = Some (ok, w') \<and>
     (if ok then started content n w' else blank n (tg_upd (\<lambda>g. g\<lparr>tg_fd := - 1\<rparr>) (sys_done w')) \<and> undone w (tg_upd (\<lambda>g. g\<lparr>tg_fd := - 1\<rparr>) (sys_done w')))"
proof -
  have closed: "blank n (tg_upd (\<lambda>g. g\<lparr>tg_fd := - 1\<rparr>) (sys_done w')) \<and> undone w (tg_upd (\<lambda>g. g\<lparr>tg_fd := - 1\<rparr>) (sys_done w'))"
    if "blank n w'" "undone w w'" for w' using that by (simp add: blank_def undone_def heap_ok_def tg_upd_def sys_done_def)
  have mf: "maps_file os (tg_fd (tg w)) (tg_offset (tg w)) (content (tg_fd (tg w)) (tg_offset (tg w)))"
    "length (content (tg_fd (tg w)) (tg_offset (tg w))) = 0x1000" using os(2) by (simp_all add: maps_files_def)
  obtain ok w' where a: "tramp_table_alloc os w = Some (ok, w')" "if ok then holds (content (tg_fd (tg w)) (tg_offset (tg w))) n Map.empty w'
     \<and> tg_fd (tg w') = tg_fd (tg w) \<and> tg_offset (tg w') = tg_offset (tg w) else blank n w' \<and> undone w w'"
    using blank_alloc [OF os(1) mf b] by blast
  show ?thesis
  proof (cases "c \<and> ok")
    case True
    then show ?thesis using a by (intro exI [of _ ok] exI [of _ w']) (simp add: started_def)
  next
    case False
    have "undone w w" using b by (simp add: blank_def undone_def)
    with False a b closed [of w'] closed [of w] show ?thesis
      by (intro exI [of _ False] exI [of _ "if c then w' else w"]) auto
  qed
qed

lemma get_libffi_ok:
  assumes os: "posix os" "maps_files os content" and b: "blank n w"
  shows "\<exists>ok w'. ffi_tramp_get_libffi S os w = Some (ok, w') \<and> (if ok then started content n w' else blank n w' \<and> undone w w')"
proof -
  have failed: ?thesis if "ffi_tramp_get_libffi S os w = Some (False, w')" "blank n w' \<and> undone w w'" for w' using that by auto
  have self: "blank n w \<and> undone w w" using b by (simp add: blank_def undone_def)
  show ?thesis
  proof (cases "\<exists>ls l. proc_maps S w = Some ls \<and> find_text (tg_text (tg w)) ls = Some l")
    case False
    then have "ffi_tramp_get_libffi S os w = Some (False, w)"
      unfolding ffi_tramp_get_libffi_def by (auto simp: Let_def split: option.splits)
    then show ?thesis using self by (rule failed)
  next
    case True
    then obtain ls l where line: "proc_maps S w = Some ls" "find_text (tg_text (tg w)) ls = Some l" by blast
    define w1 where "w1 = tg_upd (\<lambda>g. g\<lparr>tg_offset := ml_offset l + (tg_text (tg w) - ml_start l)\<rparr>) w"
    obtain fd w2 where c: "sys_call (sys_open S (ml_file l)) w1 = (fd, w2)" by fastforce
    define w3 where "w3 = tg_upd (\<lambda>g. g\<lparr>tg_fd := fd\<rparr>) w2"
    have q: "quiet w1 w2" "opts_idx w2 = opts_idx w1" using sys_call_quiet [OF c] by auto
    have b3: "blank n w3 \<and> undone w w3"
      using b q by (simp add: blank_def undone_def heap_ok_def w3_def w1_def tg_upd_def quiet_def)
    have run: "ffi_tramp_get_libffi S os w = (if fd = - 1 then Some (False, w3)
              else do { (ok, w4) \<leftarrow> tramp_table_alloc os w3;
                if ok then Some (True, w4) else Some (False, tg_upd (\<lambda>g. g\<lparr>tg_fd := - 1\<rparr>) (sys_done w4)) })"
      using line c unfolding ffi_tramp_get_libffi_def by (simp add: Let_def w1_def w3_def)
    obtain ok w4 where a: "(if True then tramp_table_alloc os w3 else Some (False, w3)) = Some (ok, w4)"
      "if ok then started content n w4 else blank n (tg_upd (\<lambda>g. g\<lparr>tg_fd := - 1\<rparr>) (sys_done w4)) \<and> undone w3 (tg_upd (\<lambda>g. g\<lparr>tg_fd := - 1\<rparr>) (sys_done w4))"
      using try_table [OF os conjunct1 [OF b3]] by blast
    show ?thesis
    proof (cases "fd = - 1 \<or> \<not> ok")
      case True
      then show ?thesis using run b3 a undone_trans by (auto split: if_splits)
    next
      case False
      then show ?thesis using run a by auto
    qed
  qed
qed

lemma get_temp_file_ok:
  assumes os: "posix os" "maps_files os content" and b: "blank n w"
  shows "\<exists>ok w'. ffi_tramp_get_temp_file S os w = Some (ok, w') \<and> (if ok then started content n w' else blank n w' \<and> undone w w')"
proof -
  define w1 where "w1 = tg_upd (\<lambda>g. g\<lparr>tg_offset := 0\<rparr>) w"
  have "opts_idx w1 < 9" using b by (simp add: w1_def tg_upd_def blank_def)
  then obtain fd w2 where o: "open_temp_exec_file S w1 = Some (fd, w2)" "quiet w1 w2" "opts_idx w2 < 9" using temp_file_ends by blast
  define w3 where "w3 = tg_upd (\<lambda>g. g\<lparr>tg_fd := fd\<rparr>) w2"
  obtain count w4 where c: "sys_call (sys_write S fd (tg_text (tg w3)) (tg_map_size (tg w3))) w3 = (count, w4)" by fastforce
  have b4: "blank n w4 \<and> undone w w4"
    using b o(2,3) sys_call_quiet [OF c] by (simp add: blank_def undone_def heap_ok_def w3_def w1_def tg_upd_def quiet_def)
  let ?ok = "0 \<le> sint count \<and> (count :: u64) = tg_map_size (tg w4)"
  obtain ok w5 where a: "(if ?ok then tramp_table_alloc os w4 else Some (False, w4)) = Some (ok, w5)"
    "if ok then started content n w5 else blank n (tg_upd (\<lambda>g. g\<lparr>tg_fd := - 1\<rparr>) (sys_done w5)) \<and> undone w4 (tg_upd (\<lambda>g. g\<lparr>tg_fd := - 1\<rparr>) (sys_done w5))"
    using try_table [OF os conjunct1 [OF b4]] by blast
  have "ffi_tramp_get_temp_file S os w = (if ok then Some (True, w5) else Some (False, tg_upd (\<lambda>g. g\<lparr>tg_fd := - 1\<rparr>) (sys_done w5)))"
    unfolding ffi_tramp_get_temp_file_def w1_def [symmetric] using o(1) c a(1) by (simp add: w3_def)
  then show ?thesis using a(2) b4 undone_trans by (cases ok) auto
qed

lemma holds_status: "holds code n M (tg_upd (\<lambda>g. g\<lparr>tg_status := s\<rparr>) w) = holds code n M w"
  by (simp add: holds_def tramps_ok_def tables_ok_def table_ok_def list_ok_def listed_def in_use_def tramp_view_def heap_ok_def tg_upd_def
      del: load.simps)

text \<open>Claim C27. Static trampolines start or fail cleanly. Whatever the system answers, the initialisation returns:
  the search for a temporary file tries each option at most once. If it succeeds the tables are well formed with
  no trampoline handed out, and every one holds the code of the file; if it fails, every block and every page taken
  on the way has been given back and static trampolines stay unavailable.\<close>

theorem tramp_init_ends:
  assumes os: "posix os" "maps_files os content"
    and w: "heap_ok w" "tables w = Map.empty" "tramps w = Map.empty" "opts_idx w < 9" "tg_status (tg w) = TRAMP_GLOBALS_UNINITIALIZED"
  shows "\<exists>ok w'. ffi_tramp_init A S os w = Some (ok, w') \<and>
     (if ok then tg_status (tg w') = TRAMP_GLOBALS_PASSED \<and> started content (if arch_endbr A then 102 else 128) w'
      else undone w w' \<and> tg_status (tg w') \<noteq> TRAMP_GLOBALS_PASSED)"
proof -
  let ?size = "UNIX64_TRAMP_SIZE (arch_endbr A)"
  define k where "k = (if arch_endbr A then 102 else 128 :: nat)"
  define w1 where "w1 = tg_upd (\<lambda>g. g\<lparr>tg_free_tables := NULL, tg_nfree_tables := 0, tg_text := trampoline_code_table A, tg_size := ?size,
                                  tg_map_size := UNIX64_TRAMP_MAP_SIZE, tg_ntramp := ucast (UNIX64_TRAMP_MAP_SIZE div ?size)\<rparr>) w"
  have b1: "blank k w1" using w by (simp add: k_def blank_def w1_def tg_upd_def UNIX64_TRAMP_SIZE_def heap_ok_def)
  have u1: "undone w w1" "tg_status (tg w1) = TRAMP_GLOBALS_UNINITIALIZED" using w by (simp_all add: undone_def w1_def tg_upd_def heap_ok_def)
  have run: "ffi_tramp_init A S os w = (if 0 \<le> sint (sys_page_size S) \<and> (sys_page_size S :: u64) > UNIX64_TRAMP_MAP_SIZE then Some (False, w1)
              else do { (ok, w2) \<leftarrow> ffi_tramp_init_os S os w1;
                Some (ok, tg_upd (\<lambda>g. g\<lparr>tg_status := (if ok then TRAMP_GLOBALS_PASSED else TRAMP_GLOBALS_FAILED)\<rparr>) w2) })"
    using w(5) unfolding ffi_tramp_init_def ffi_tramp_arch_def by (simp add: w1_def Let_def)
  have "\<exists>ok w2. ffi_tramp_init_os S os w1 = Some (ok, w2) \<and> (if ok then started content k w2 else undone w1 w2)"
  proof -
    obtain ok w2 where l: "ffi_tramp_get_libffi S os w1 = Some (ok, w2)" "if ok then started content k w2 else blank k w2 \<and> undone w1 w2"
      using get_libffi_ok [OF os b1] by blast
    show ?thesis
    proof (cases ok)
      case True
      then show ?thesis using l by (intro exI [of _ True] exI [of _ w2]) (simp add: ffi_tramp_init_os_def)
    next
      case False
      with l(2) have b2: "blank k w2" "undone w1 w2" by simp_all
      obtain ok' w3 where t: "ffi_tramp_get_temp_file S os w2 = Some (ok', w3)" "if ok' then started content k w3 else blank k w3 \<and> undone w2 w3"
        using get_temp_file_ok [OF os b2(1)] by blast
      have "ffi_tramp_init_os S os w1 = Some (ok', w3)" using l(1) t(1) False by (simp add: ffi_tramp_init_os_def)
      then show ?thesis using t(2) undone_trans [OF b2(2)] by (intro exI [of _ ok'] exI [of _ w3]) (auto split: if_splits)
    qed
  qed
  then obtain ok w2 where i: "ffi_tramp_init_os S os w1 = Some (ok, w2)" "if ok then started content k w2 else undone w1 w2" by blast
  let ?w3 = "tg_upd (\<lambda>g. g\<lparr>tg_status := (if ok then TRAMP_GLOBALS_PASSED else TRAMP_GLOBALS_FAILED)\<rparr>) w2"
  have "\<exists>ok w'. ffi_tramp_init A S os w = Some (ok, w') \<and>
     (if ok then tg_status (tg w') = TRAMP_GLOBALS_PASSED \<and> started content k w'
      else undone w w' \<and> tg_status (tg w') \<noteq> TRAMP_GLOBALS_PASSED)"
  proof (cases "0 \<le> sint (sys_page_size S) \<and> (sys_page_size S :: u64) > UNIX64_TRAMP_MAP_SIZE")
    case True
    then show ?thesis using run u1 by (intro exI [of _ False] exI [of _ w1]) simp
  next
    case False
    have r: "ffi_tramp_init A S os w = Some (ok, ?w3)" using run [unfolded if_not_P [OF False]] i(1) by simp
    show ?thesis
    proof (cases ok)
      case True
      have "tg_fd (tg ?w3) = tg_fd (tg w2)" "tg_offset (tg ?w3) = tg_offset (tg w2)" by (simp_all add: tg_upd_def)
      then have "started content k ?w3" using i(2) True unfolding started_def by (simp only: holds_status if_True)
      then show ?thesis using r True by (intro exI [of _ ok] exI [of _ ?w3]) (simp add: tg_upd_def)
    next
      case no: False
      have "heap_ok (tg_upd f w2) = heap_ok w2" for f by (simp add: heap_ok_def tg_upd_def)
      then have "undone w1 ?w3" using i(2) no by (simp add: undone_def) (simp add: tg_upd_def)
      then have "undone w ?w3" using undone_trans [OF u1(1)] by blast
      then show ?thesis using r no by (intro exI [of _ ok] exI [of _ ?w3]) (simp add: tg_upd_def)
    qed
  qed
  then show ?thesis unfolding k_def .
qed

theorem tramp_init_ends_witness:
  "\<exists>ok w'. ffi_tramp_init \<lparr>trampoline_code_table = 0x400000, arch_endbr = True\<rparr> no_files (two_pages_os nop_page) (tramp_boot [0x3000, 0x4000]) = Some (ok, w')
     \<and> (if ok then tg_status (tg w') = TRAMP_GLOBALS_PASSED \<and> started (\<lambda>_ _. nop_page) 102 w'
        else undone (tramp_boot [0x3000, 0x4000]) w' \<and> tg_status (tg w') \<noteq> TRAMP_GLOBALS_PASSED)"
proof -
  let ?w = "tramp_boot [0x3000, 0x4000]"
  have m: "maps_files (two_pages_os nop_page) (\<lambda>_ _. nop_page)" by (simp add: maps_files_def two_pages_file nop_page_length)
  have "heap_ok ?w" "tables ?w = Map.empty" "tramps ?w = Map.empty" "opts_idx ?w < 9" "tg_status (tg ?w) = TRAMP_GLOBALS_UNINITIALIZED"
    by (simp_all add: tramp_boot_def heap_ok_def)
  from tramp_init_ends [OF two_pages_posix m this, of "\<lparr>trampoline_code_table = 0x400000, arch_endbr = True\<rparr>" no_files]
  show ?thesis unfolding tramp_arch.simps if_True .
qed

end
