(* ===== verification/Ffi_Exec.thy ===== *)
theory Ffi_Exec
  imports Ffi_Tramp_Init Ffi_Win64
begin

text \<open>
  libffi's own closures (\<^verbatim>\<open>jni/libffi/src/closures.c\<close>, Linux): the pages its closure heap maps, allocation of a
  closure with its static trampoline, the preparation of such a closure (the branches of \<^verbatim>\<open>ffi64.c\<close> and
  \<^verbatim>\<open>ffiw64.c\<close> for static trampolines), and the trampolines themselves (\<^verbatim>\<open>unix64.S\<close>, \<^verbatim>\<open>win64.S\<close>). The heap,
  \<^verbatim>\<open>dlmalloc.c\<close>, is third-party code and a parameter; only its list of segments is part of the state. The build
  has \<open>FFI_EXEC_STATIC_TRAMP\<close>, \<open>FFI_MMAP_EXEC_SELINUX\<close> and \<open>FFI_MMAP_PAX\<close>, but neither \<open>FFI_MMAP_EXEC_EMUTRAMP_PAX\<close>,
  which has to be asked for, nor \<open>FFI_CLOSURE_FREE_CODE\<close>.
\<close>

section \<open>The state\<close>

record segment =
  seg_base :: addr
  seg_size :: size_t
  seg_exec_offset :: u64

text \<open>\<open>ftramp\<close> is the field of that name of the closures at their addresses, which shares its bytes with the code of
  closures that have no trampoline; \<open>page_size\<close> the static variable of
  \<open>allocate_space\<close>.\<close>

record exec_world = tramp_world +
  segments :: "segment list"
  ftramp :: "addr \<rightharpoonup> tramp_ptr"
  execfd :: jint
  execsize :: size_t
  selinux_enabled :: jint
  cached_pax_flags :: jint
  page_size :: jlong

record 'w dlheap =
  dlmalloc :: "size_t \<Rightarrow> 'w \<Rightarrow> (addr \<times> 'w) option"
  dlfree :: "addr \<Rightarrow> 'w \<Rightarrow> 'w option"

record 'w exec_sys =
  sys_ftruncate :: "jint \<Rightarrow> u64 \<Rightarrow> 'w \<Rightarrow> jint \<times> jint"
  statfs_selinux :: bool
  proc_mounts :: "string list option"
  proc_self_status :: "string list option"

fun segment_holding :: "segment list \<Rightarrow> addr \<Rightarrow> segment option" where
  "segment_holding [] addr = None"
| "segment_holding (sp # m) addr = (if seg_base sp \<le> addr \<and> addr < seg_base sp + seg_size sp then Some sp else segment_holding m addr)"

definition add_segment_exec_offset :: "addr \<Rightarrow> segment \<Rightarrow> addr" where
  "add_segment_exec_offset p sp = p + seg_exec_offset sp"

section \<open>Pages for the heap\<close>

fun strchr :: "char \<Rightarrow> string \<Rightarrow> string option" where
  "strchr c [] = None"
| "strchr c (d # s) = (if c = d then Some (d # s) else strchr c s)"

text \<open>The lines of \<open>/proc/mounts\<close>.\<close>

fun selinux_mounted :: "string list \<Rightarrow> bool" where
  "selinux_mounted [] = False"
| "selinux_mounted (buf # ls) =
     (case strchr CHR '' '' buf of
        None \<Rightarrow> False
      | Some p \<Rightarrow> (case strchr CHR '' '' (tl p) of
          None \<Rightarrow> False
        | Some q \<Rightarrow> if take 10 (tl q) = ''selinuxfs '' then True else selinux_mounted ls))"

definition selinux_enabled_check :: "'w exec_sys \<Rightarrow> jint" where
  "selinux_enabled_check X =
     (if statfs_selinux X then 1
      else case proc_mounts X of None \<Rightarrow> 0 | Some ls \<Rightarrow> if selinux_mounted ls then 1 else 0)"

definition is_selinux_enabled :: "('a exec_world_scheme) exec_sys \<Rightarrow> 'a exec_world_scheme \<Rightarrow> bool \<times> 'a exec_world_scheme" where
  "is_selinux_enabled X w =
     (if sint (selinux_enabled w) \<ge> 0 then (selinux_enabled w \<noteq> 0, w)
      else (selinux_enabled_check X \<noteq> 0, w\<lparr>selinux_enabled := selinux_enabled_check X\<rparr>))"

abbreviation (input) PAX_MPROTECT :: jint where "PAX_MPROTECT \<equiv> 1"
abbreviation (input) PAX_EMUTRAMP :: jint where "PAX_EMUTRAMP \<equiv> 2"

text \<open>The lines of \<open>/proc/self/status\<close>.\<close>

fun pax_line :: "string list \<Rightarrow> jint" where
  "pax_line [] = 0"
| "pax_line (buf # ls) =
     (if take 4 buf = ''PaX:''
      then (if strchr CHR ''M'' (drop 4 buf) \<noteq> None then PAX_MPROTECT else 0)
           OR (if strchr CHR ''E'' (drop 4 buf) \<noteq> None then PAX_EMUTRAMP else 0)
      else pax_line ls)"

definition pax_flags_check :: "'w exec_sys \<Rightarrow> jint" where
  "pax_flags_check X = (case proc_self_status X of None \<Rightarrow> 0 | Some ls \<Rightarrow> pax_line ls)"

definition get_pax_flags :: "('a exec_world_scheme) exec_sys \<Rightarrow> 'a exec_world_scheme \<Rightarrow> jint \<times> 'a exec_world_scheme" where
  "get_pax_flags X w =
     (if sint (cached_pax_flags w) \<ge> 0 then (cached_pax_flags w, w)
      else (pax_flags_check X, w\<lparr>cached_pax_flags := pax_flags_check X\<rparr>))"

definition is_mprotect_enabled :: "('a exec_world_scheme) exec_sys \<Rightarrow> 'a exec_world_scheme \<Rightarrow> bool \<times> 'a exec_world_scheme" where
  "is_mprotect_enabled X w = (let (flags, w1) = get_pax_flags X w in (PAX_MPROTECT = PAX_MPROTECT AND flags, w1))"

text \<open>The fuel is the number of rounds; every round writes at least a byte.\<close>

fun allocate_space_loop :: "nat \<Rightarrow> ('a exec_world_scheme) sys \<Rightarrow> jint \<Rightarrow> addr \<Rightarrow> jlong \<Rightarrow> 'a exec_world_scheme
     \<Rightarrow> (jint \<times> 'a exec_world_scheme) option" where
  "allocate_space_loop 0 S fd buf len w = None"
| "allocate_space_loop (Suc n) S fd buf len w =
     (if sint len > 0
      then let to_write = (if sint len < sint (page_size w) then len else page_size w);
               (r, w1) = sys_call (sys_write S fd buf to_write) w
           in if sint r < sint to_write then Some (- 1, w1) else allocate_space_loop n S fd buf (len - to_write) w1
      else Some (0, w))"

definition allocate_space :: "('a exec_world_scheme) sys \<Rightarrow> jint \<Rightarrow> jlong \<Rightarrow> 'a exec_world_scheme \<Rightarrow> (jint \<times> 'a exec_world_scheme) option" where
  "allocate_space S fd len w = do {
     w1 \<leftarrow> Some (if page_size w = 0 then w\<lparr>page_size := sys_page_size S\<rparr> else w);
     (buf, w2) \<leftarrow> Some (alloca (unat (page_size w1)) w1);
     m \<leftarrow> store (mem w2) buf (replicate (unat (page_size w1)) 0);
     (r, w3) \<leftarrow> allocate_space_loop (Suc (unat len)) S fd buf len (w2\<lparr>mem := m\<rparr>);
     Some (r, w3\<lparr>stack_top := stack_top w\<rparr>)
   }"

text \<open>From the offset on; no address stands for \<open>goto retry_open\<close>.\<close>

definition dlmmap_map :: "('a exec_world_scheme) sys \<Rightarrow> ('a exec_world_scheme) exec_sys \<Rightarrow> ('a exec_world_scheme) os
     \<Rightarrow> addr \<Rightarrow> size_t \<Rightarrow> jint \<Rightarrow> jint \<Rightarrow> 'a exec_world_scheme \<Rightarrow> (addr option \<times> 'a exec_world_scheme) option" where
  "dlmmap_map S X os start len prot flags w = do {
     offset \<leftarrow> Some (execsize w);
     (r, w1) \<leftarrow> allocate_space S (execfd w) len w;
     if r \<noteq> 0 then Some (Some MAP_FAILED, w1)
     else do {
       flags \<leftarrow> Some ((flags AND NOT (MAP_PRIVATE OR MAP_ANON)) OR MAP_SHARED);
       (ptr, w2) \<leftarrow> Some (sys_mmap os NULL len ((prot AND NOT PROT_WRITE) OR PROT_EXEC) flags (execfd w1) offset w1);
       if ptr = MAP_FAILED
       then if offset = 0 then Some (None, sys_done w2)
            else Some (Some MAP_FAILED, snd (sys_call (sys_ftruncate X (execfd w2) offset) w2))
       else do {
         w3 \<leftarrow> (if offset = 0 \<and> opt_repeat (open_temp_exec_file_opts ! opts_idx w2)
                then map_option snd (open_temp_exec_file_opts_next S w2) else Some w2);
         (start, w4) \<leftarrow> Some (sys_mmap os start len prot flags (execfd w3) offset w3);
         if start = MAP_FAILED
         then do {
           (r, w5) \<leftarrow> sys_munmap os ptr len w4;
           Some (Some start, snd (sys_call (sys_ftruncate X (execfd w5) offset) w5))
         }
         else do {
           m \<leftarrow> store (mem w4) (start + len - 8) (le_bytes 8 (ptr - start));
           Some (Some start, w4\<lparr>mem := m, execsize := execsize w4 + len\<rparr>)
         }
       }
     }
   }"

text \<open>The fuel is the number of files tried.\<close>

fun dlmmap_retry :: "nat \<Rightarrow> ('a exec_world_scheme) sys \<Rightarrow> ('a exec_world_scheme) exec_sys \<Rightarrow> ('a exec_world_scheme) os
     \<Rightarrow> addr \<Rightarrow> size_t \<Rightarrow> jint \<Rightarrow> jint \<Rightarrow> 'a exec_world_scheme \<Rightarrow> (addr \<times> 'a exec_world_scheme) option" where
  "dlmmap_retry 0 S X os start len prot flags w = None"
| "dlmmap_retry (Suc k) S X os start len prot flags w = do {
     (fd, w1) \<leftarrow> open_temp_exec_file S w;
     w2 \<leftarrow> Some (w1\<lparr>execfd := fd\<rparr>);
     if fd = - 1 then Some (MAP_FAILED, w2)
     else do {
       (p, w3) \<leftarrow> dlmmap_map S X os start len prot flags w2;
       case p of Some p \<Rightarrow> Some (p, w3) | None \<Rightarrow> dlmmap_retry k S X os start len prot flags w3
     }
   }"

definition dlmmap_locked :: "nat \<Rightarrow> ('a exec_world_scheme) sys \<Rightarrow> ('a exec_world_scheme) exec_sys \<Rightarrow> ('a exec_world_scheme) os
     \<Rightarrow> addr \<Rightarrow> size_t \<Rightarrow> jint \<Rightarrow> jint \<Rightarrow> 'a exec_world_scheme \<Rightarrow> (addr \<times> 'a exec_world_scheme) option" where
  "dlmmap_locked k S X os start len prot flags w =
     (if execfd w = - 1 then dlmmap_retry k S X os start len prot flags (w\<lparr>opts_idx := 0\<rparr>)
      else do {
        (p, w1) \<leftarrow> dlmmap_map S X os start len prot flags w;
        case p of Some p \<Rightarrow> Some (p, w1) | None \<Rightarrow> dlmmap_retry k S X os start len prot flags w1
      })"

text \<open>A failed assertion has no result. The page size is the one \<open>dlmalloc.c\<close> calls \<open>malloc_getpagesize\<close>.\<close>

abbreviation (input) EPERM :: jint where "EPERM \<equiv> 1"
abbreviation (input) EACCES :: jint where "EACCES \<equiv> 13"

definition dlmmap :: "nat \<Rightarrow> tramp_arch \<Rightarrow> ('a exec_world_scheme) sys \<Rightarrow> ('a exec_world_scheme) exec_sys \<Rightarrow> ('a exec_world_scheme) os
     \<Rightarrow> addr \<Rightarrow> size_t \<Rightarrow> jint \<Rightarrow> jint \<Rightarrow> jint \<Rightarrow> u64 \<Rightarrow> 'a exec_world_scheme \<Rightarrow> (addr \<times> 'a exec_world_scheme) option" where
  "dlmmap k A S X os start len prot flags fd offset w =
   (if \<not> (start = NULL \<and> len mod sys_page_size S = 0 \<and> prot = PROT_READ OR PROT_WRITE \<and> flags = MAP_PRIVATE OR MAP_ANON
           \<and> fd = - 1 \<and> offset = 0)
    then None
    else do {
     (sup, w1) \<leftarrow> (if execfd w = - 1 then ffi_tramp_is_supported A S os w else Some (False, w));
     if sup then Some (sys_mmap os start len (prot AND NOT PROT_EXEC) flags fd offset w1)
     else do {
       (pax, w2) \<leftarrow> Some (if execfd w1 = - 1 then is_mprotect_enabled X w1 else (False, w1));
       (locked, w3) \<leftarrow> Some (if pax then (True, w2) else if execfd w2 = - 1 then is_selinux_enabled X w2 else (True, w2));
       if \<not> locked
       then do {
         (ptr, w4) \<leftarrow> Some (sys_mmap os start len (prot OR PROT_EXEC) flags fd offset w3);
         e \<leftarrow> Some (errno w4 (self w4));
         if ptr \<noteq> MAP_FAILED \<or> e \<noteq> EPERM \<and> e \<noteq> EACCES then Some (ptr, w4)
         else dlmmap_locked k S X os start len prot flags w4
       }
       else dlmmap_locked k S X os start len prot flags w3
     }
   })"

definition dlmunmap :: "('a exec_world_scheme) os \<Rightarrow> addr \<Rightarrow> size_t \<Rightarrow> 'a exec_world_scheme \<Rightarrow> (jint \<times> 'a exec_world_scheme) option" where
  "dlmunmap os start len w =
     (case segment_holding (segments w) start of
        Some seg \<Rightarrow>
          (let code = add_segment_exec_offset start seg
           in if code \<noteq> start
              then do {
                (ret, w1) \<leftarrow> sys_munmap os code len w;
                if ret \<noteq> 0 then Some (ret, w1) else sys_munmap os start len w1
              }
              else sys_munmap os start len w)
      | None \<Rightarrow> sys_munmap os start len w)"

section \<open>Closures with a static trampoline\<close>

definition ffi_closure_alloc :: "tramp_arch \<Rightarrow> ('a exec_world_scheme) sys \<Rightarrow> ('a exec_world_scheme) os \<Rightarrow> ('a exec_world_scheme) dlheap
     \<Rightarrow> size_t \<Rightarrow> addr \<Rightarrow> 'a exec_world_scheme \<Rightarrow> (addr \<times> 'a exec_world_scheme) option" where
  "ffi_closure_alloc A S os H len code w =
     (if code = NULL then Some (NULL, w)
      else do {
        (ptr, w1) \<leftarrow> dlmalloc H len w;
        if ptr = NULL then Some (ptr, w1)
        else do {
          seg \<leftarrow> segment_holding (segments w1) ptr;
          m \<leftarrow> store (mem w1) code (le_bytes 8 (add_segment_exec_offset ptr seg));
          (sup, w2) \<leftarrow> ffi_tramp_is_supported A S os (w1\<lparr>mem := m\<rparr>);
          if \<not> sup then Some (ptr, w2)
          else do {
            (ft, w3) \<leftarrow> ffi_tramp_alloc A S os 0 w2;
            if ft = NULL_TRAMP then map_option (Pair NULL) (dlfree H ptr w3)
            else do {
              a \<leftarrow> ffi_tramp_get_addr ft w3;
              m \<leftarrow> store (mem w3) code (le_bytes 8 a);
              Some (ptr, w3\<lparr>mem := m, ftramp := (ftramp w3)(ptr \<mapsto> ft)\<rparr>)
            }
          }
        }
      })"

definition ffi_data_to_code_pointer :: "tramp_arch \<Rightarrow> ('a exec_world_scheme) sys \<Rightarrow> ('a exec_world_scheme) os \<Rightarrow> addr
     \<Rightarrow> 'a exec_world_scheme \<Rightarrow> (addr \<times> 'a exec_world_scheme) option" where
  "ffi_data_to_code_pointer A S os data w =
     (case segment_holding (segments w) data of
        None \<Rightarrow> Some (data, w)
      | Some seg \<Rightarrow> do {
          (sup, w1) \<leftarrow> ffi_tramp_is_supported A S os w;
          if \<not> sup then Some (add_segment_exec_offset data seg, w1)
          else do { ft \<leftarrow> ftramp w1 data; a \<leftarrow> ffi_tramp_get_addr ft w1; Some (a, w1) }
        })"

definition ffi_closure_free :: "tramp_arch \<Rightarrow> ('a exec_world_scheme) sys \<Rightarrow> ('a exec_world_scheme) os \<Rightarrow> ('a exec_world_scheme) dlheap
     \<Rightarrow> addr \<Rightarrow> 'a exec_world_scheme \<Rightarrow> 'a exec_world_scheme option" where
  "ffi_closure_free A S os H ptr w = do {
     (sup, w1) \<leftarrow> ffi_tramp_is_supported A S os w;
     w2 \<leftarrow> (if sup then do { ft \<leftarrow> ftramp w1 ptr; ffi_tramp_free os ft w1 } else Some w1);
     dlfree H ptr w2
   }"

definition ffi_tramp_is_present :: "tramp_arch \<Rightarrow> ('a exec_world_scheme) sys \<Rightarrow> ('a exec_world_scheme) os \<Rightarrow> addr
     \<Rightarrow> 'a exec_world_scheme \<Rightarrow> (bool \<times> 'a exec_world_scheme) option" where
  "ffi_tramp_is_present A S os ptr w =
     (if segment_holding (segments w) ptr \<noteq> None then ffi_tramp_is_supported A S os w else Some (False, w))"

section \<open>Preparation\<close>

record alt_link = link +
  at_closure_unix64_alt :: addr
  at_closure_unix64_sse_alt :: addr
  at_closure_win64_alt :: addr

text \<open>The statements from \<open>out\<close> on.\<close>

definition set_closure :: "addr \<Rightarrow> addr \<Rightarrow> addr \<Rightarrow> addr \<Rightarrow> 'a mem_world_scheme \<Rightarrow> 'a mem_world_scheme option" where
  "set_closure closure cif fn user_data w = do {
     m1 \<leftarrow> store (mem w) (closure + FFI_TRAMPOLINE_SIZE) (le_bytes 8 cif);
     m2 \<leftarrow> store m1 (closure + FFI_TRAMPOLINE_SIZE + 8) (le_bytes 8 fn);
     m3 \<leftarrow> store m2 (closure + FFI_TRAMPOLINE_SIZE + 16) (le_bytes 8 user_data);
     Some (w\<lparr>mem := m3\<rparr>)
   }"

text \<open>The part both functions have in common: the static trampoline if the closure has one.\<close>

definition prep_tramp :: "tramp_arch \<Rightarrow> ('a exec_world_scheme) sys \<Rightarrow> ('a exec_world_scheme) os \<Rightarrow> addr \<Rightarrow> addr \<Rightarrow> addr \<Rightarrow> addr \<Rightarrow> addr \<Rightarrow> addr
     \<Rightarrow> 'a exec_world_scheme \<Rightarrow> (ffi_status \<times> 'a exec_world_scheme) option" where
  "prep_tramp A S os dest dest_alt closure cif fn user_data w = do {
     (present, w1) \<leftarrow> ffi_tramp_is_present A S os closure w;
     if present
     then do {
       ft \<leftarrow> ftramp w1 closure;
       w2 \<leftarrow> ffi_tramp_set_parms ft dest_alt closure w1;
       map_option (Pair FFI_OK) (set_closure closure cif fn user_data w2)
     }
     else map_option (Pair FFI_OK) (init_closure closure dest cif fn user_data w1)
   }"

definition ffi_prep_closure_loc_efi64_tramp :: "alt_link \<Rightarrow> tramp_arch \<Rightarrow> ('a exec_world_scheme) sys \<Rightarrow> ('a exec_world_scheme) os
     \<Rightarrow> addr \<Rightarrow> addr \<Rightarrow> addr \<Rightarrow> addr \<Rightarrow> 'a exec_world_scheme \<Rightarrow> (ffi_status \<times> 'a exec_world_scheme) option" where
  "ffi_prep_closure_loc_efi64_tramp lk A S os closure cif fn user_data w = do {
     c \<leftarrow> cif_at cif w;
     if cif_abi c = FFI_WIN64 \<or> cif_abi c = FFI_GNUW64
     then prep_tramp A S os (at_closure_win64 lk) (at_closure_win64_alt lk) closure cif fn user_data w
     else Some (FFI_BAD_ABI, w)
   }"

definition ffi_prep_closure_loc_tramp :: "alt_link \<Rightarrow> tramp_arch \<Rightarrow> ('a exec_world_scheme) sys \<Rightarrow> ('a exec_world_scheme) os
     \<Rightarrow> addr \<Rightarrow> addr \<Rightarrow> addr \<Rightarrow> addr \<Rightarrow> 'a exec_world_scheme \<Rightarrow> (ffi_status \<times> 'a exec_world_scheme) option" where
  "ffi_prep_closure_loc_tramp lk A S os closure cif fn user_data w = do {
     c \<leftarrow> cif_at cif w;
     if cif_abi c = FFI_EFI64 \<or> cif_abi c = FFI_GNUW64
     then ffi_prep_closure_loc_efi64_tramp lk A S os closure cif fn user_data w
     else if cif_abi c \<noteq> FFI_UNIX64 then Some (FFI_BAD_ABI, w)
     else if cif_flags c AND UNIX64_FLAG_XMM_ARGS \<noteq> 0
     then prep_tramp A S os (at_closure_unix64_sse lk) (at_closure_unix64_sse_alt lk) closure cif fn user_data w
     else prep_tramp A S os (at_closure_unix64 lk) (at_closure_unix64_alt lk) closure cif fn user_data w
   }"

section \<open>The trampolines\<close>

text \<open>The instructions of a trampoline: \<open>subq $16, %rsp\<close>, \<open>movq %r10, (%rsp)\<close>, \<open>movq data(%rip), %r10\<close>,
  \<open>movq %r10, 8(%rsp)\<close>, \<open>movq code(%rip), %r10\<close> and \<open>jmp *%r10\<close>, with \<open>endbr64\<close> in front where it is present.
  The offsets are from the ends of the two loads.\<close>

definition X86_DATA_OFFSET :: "bool \<Rightarrow> u64" where
  "X86_DATA_OFFSET endbr = (if endbr then 4077 else 4081)"

definition X86_CODE_OFFSET :: "bool \<Rightarrow> u64" where
  "X86_CODE_OFFSET endbr = (if endbr then 4073 else 4077)"

definition static_trampoline :: "bool \<Rightarrow> byte list" where
  "static_trampoline endbr =
     (if endbr then [0xf3, 0x0f, 0x1e, 0xfa] else [])
     @ [0x48, 0x83, 0xec, 0x10, 0x4c, 0x89, 0x14, 0x24, 0x4c, 0x8b, 0x15] @ le_bytes 4 (X86_DATA_OFFSET endbr)
     @ [0x4c, 0x89, 0x54, 0x24, 0x08, 0x4c, 0x8b, 0x15] @ le_bytes 4 (X86_CODE_OFFSET endbr) @ [0x41, 0xff, 0xe2]"

text \<open>The table; the assembler fills the room up to the next multiple of 8, and up to the end of the page.\<close>

definition trampoline_table :: "bool \<Rightarrow> byte list \<Rightarrow> byte list \<Rightarrow> byte list" where
  "trampoline_table endbr pad rest =
     concat (replicate (unat (UNIX64_TRAMP_MAP_SIZE div UNIX64_TRAMP_SIZE endbr)) (static_trampoline endbr @ pad)) @ rest"

text \<open>What the processor does, with \<open>sp\<close> the stack pointer, which points at the return address: the target it
  jumps to, and the memory with the old \<open>r10\<close> and the data in the two words below.\<close>

definition run_static_trampoline :: "bool \<Rightarrow> memory \<Rightarrow> addr \<Rightarrow> addr \<Rightarrow> u64 \<Rightarrow> (addr \<times> memory) option" where
  "run_static_trampoline endbr m pc sp r10 = do {
     code \<leftarrow> load m pc (length (static_trampoline endbr));
     if code = static_trampoline endbr
     then do {
       m1 \<leftarrow> Some (map_block (sp - 16) (le_bytes 8 r10) m);
       data \<leftarrow> load m1 (pc + (if endbr then 19 else 15) + X86_DATA_OFFSET endbr) 8;
       m2 \<leftarrow> Some (map_block (sp - 8) data m1);
       target \<leftarrow> load m2 (pc + (if endbr then 31 else 27) + X86_CODE_OFFSET endbr) 8;
       Some (le_word target, m2)
     }
     else None
   }"

text \<open>\<open>ffi_closure_unix64_alt\<close> and the other entries of that kind: \<open>r10\<close> is loaded from the upper word, and both
  words are dropped.\<close>

definition alt_entry :: "memory \<Rightarrow> addr \<Rightarrow> addr option" where
  "alt_entry m sp = map_option le_word (load m (sp - 16 + 8) 8)"


definition static_win64_native ::
  "alt_link \<Rightarrow> bool \<Rightarrow> 'a ctx_world_scheme closure_fun \<Rightarrow> 'a ctx_world_scheme ms_native"
where
  "static_win64_native lk endbr call pc regs w = do {
     sp \<leftarrow> Some (fst (alloca (length (ms_args regs)) w) - 8);
     (dest, m) \<leftarrow> run_static_trampoline endbr (mem w) pc sp (ms_r10 regs);
     r10 \<leftarrow> alt_entry m sp;
     if dest = at_closure_win64_alt lk then do_closure_win64 call (closure_loads r10) regs (w\<lparr>mem := m\<rparr>) else None
   }"

section \<open>What a trampoline does\<close>

lemma length_static_trampoline: "length (static_trampoline endbr) = (if endbr then 34 else 30)"
  by (simp add: static_trampoline_def)






section \<open>Preparation of a closure with a trampoline\<close>

lemma is_present_passed:
  "segment_holding (segments w) ptr \<noteq> None \<Longrightarrow> tg_status (tg w) = TRAMP_GLOBALS_PASSED \<Longrightarrow> ffi_tramp_is_present A S os ptr w = Some (True, w)"
  by (simp add: ffi_tramp_is_present_def ffi_tramp_is_supported_def ffi_tramp_init_def)

lemma is_present_unknown: "segment_holding (segments w) ptr = None \<Longrightarrow> ffi_tramp_is_present A S os ptr w = Some (False, w)"
  by (simp add: ffi_tramp_is_present_def)




text \<open>A closure outside libffi's heap, as jffi's are, is prepared as one without a trampoline.\<close>

lemma prep_tramp_absent:
  "segment_holding (segments w) closure = None \<Longrightarrow>
    prep_tramp A S os dest dest_alt closure cif fn ud w = map_option (Pair FFI_OK) (init_closure closure dest cif fn ud w)"
  by (simp add: prep_tramp_def is_present_unknown)

lemma prep_absent:
  assumes "segment_holding (segments w) closure = None"
  shows "ffi_prep_closure_loc_tramp lk A S os closure cif fn ud w = ffi_prep_closure_loc (link.truncate lk) closure cif fn ud w"
  by (cases "cif_at cif w")
    (auto simp: ffi_prep_closure_loc_tramp_def ffi_prep_closure_loc_def ffi_prep_closure_loc_efi64_tramp_def ffi_prep_closure_loc_efi64_def
      prep_tramp_absent [OF assms] link.truncate_def map_conv_bind_option comp_def)

section \<open>Space in the file\<close>

text \<open>Every round writes at least a byte, so the rounds \<open>allocate_space\<close> has are enough.\<close>

lemma sint_minus_part:
  fixes len k :: jlong
  assumes "0 \<le> sint k" "sint k \<le> sint len" shows "sint (len - k) = sint len - sint k"
  using assms sint_lt [of len] by (simp add: sint_word_ariths signed_take_bit_int_eq_self)

lemma allocate_space_loop_ends:
  "0 < sint (page_size w) \<Longrightarrow> nat (sint len) < n \<Longrightarrow> \<exists>r w'. allocate_space_loop n S fd buf len w = Some (r, w') \<and> (r = 0 \<or> r = - 1)"
proof (induction n arbitrary: len w)
  case (Suc n)
  define k where "k = (if sint len < sint (page_size w) then len else page_size w)"
  obtain r w1 where c: "sys_call (sys_write S fd buf k) w = (r, w1)" by fastforce
  have p: "page_size w1 = page_size w" using c by (auto simp: sys_call_def split: prod.splits)
  show ?case
  proof (cases "sint len > 0 \<and> \<not> sint r < sint k")
    case True
    have k: "0 < sint k" "sint k \<le> sint len" using True Suc.prems(1) by (simp_all add: k_def)
    then have "nat (sint (len - k)) < n" using Suc.prems(2) sint_minus_part [of k len] by linarith
    from Suc.IH [OF _ this, of w1] Suc.prems(1) p True c show ?thesis by (auto simp: k_def [symmetric] Let_def)
  next
    case False
    then show ?thesis using c by (auto simp: k_def [symmetric] Let_def)
  qed
qed simp

lemma allocate_space_ends:
  assumes "0 < sint (sys_page_size S)" and "page_size w = 0 \<or> 0 < sint (page_size w)"
  shows "\<exists>r w'. allocate_space S fd len w = Some (r, w') \<and> (r = 0 \<or> r = - 1)"
proof -
  define w1 where "w1 = (if page_size w = 0 then w\<lparr>page_size := sys_page_size S\<rparr> else w)"
  have p: "0 < sint (page_size w1)" using assms by (auto simp: w1_def)
  obtain buf w2 where a: "alloca (unat (page_size w1)) w1 = (buf, w2)" by fastforce
  then have "mem w2 = map_block buf (fresh_bytes w1 buf (unat (page_size w1))) (mem w1)" and p2: "page_size w2 = page_size w1"
    by (auto simp: alloca_def Let_def)
  then obtain m where m: "store (mem w2) buf (replicate (unat (page_size w1)) 0) = Some m"
    using store_defined [of "mem w2" buf "replicate (unat (page_size w1)) 0"] by (auto simp: map_block_dom)
  have "nat (sint len) < Suc (unat len)"
  proof -
    have "- (2 ^ 63) \<le> uint len" by (rule order_trans [OF _ uint_ge_0]) simp
    then have "sint len \<le> uint len" by (simp add: sint_uint signed_take_bit_int_less_eq_self_iff)
    then show ?thesis by (simp add: nat_le_iff less_Suc_eq_le flip: nat_uint_eq)
  qed
  with p p2 obtain r w3 where "allocate_space_loop (Suc (unat len)) S fd buf len (w2\<lparr>mem := m\<rparr>) = Some (r, w3)" "r = 0 \<or> r = - 1"
    using allocate_space_loop_ends [of "w2\<lparr>mem := m\<rparr>" len "Suc (unat len)" S fd buf] by auto
  then show ?thesis unfolding allocate_space_def w1_def [symmetric] by (simp add: a m del: allocate_space_loop.simps)
qed

section \<open>Closures from the heap\<close>

text \<open>What the functions here rely on of \<open>dlmalloc.c\<close>: it keeps to the memory of its segments, which it maps where nothing
  is mapped; the block it returns lies in a segment; and the block can be freed as long as nobody else has written
  to the segments.\<close>

definition heap_area :: "'a exec_world_scheme \<Rightarrow> addr set" where
  "heap_area w = (\<Union>sp \<in> set (segments w). span (seg_base sp) (unat (seg_size sp)) \<union> span (seg_base sp + seg_exec_offset sp) (unat (seg_size sp)))"

definition heap_step :: "'a exec_world_scheme \<Rightarrow> 'a exec_world_scheme \<Rightarrow> bool" where
  "heap_step w w' \<longleftrightarrow> tables w' = tables w \<and> tramps w' = tramps w \<and> tg w' = tg w \<and> live w' = live w \<and> script w' = script w \<and> ftramp w' = ftramp w
     \<and> (\<forall>a \<in> dom (mem w) - heap_area w. mem w' a = mem w a \<and> a \<notin> heap_area w')"

definition dlheap_ok :: "('a exec_world_scheme) dlheap \<Rightarrow> bool" where
  "dlheap_ok H \<longleftrightarrow> (\<forall>n w. \<exists>p w'. dlmalloc H n w = Some (p, w') \<and> heap_step w w' \<and> (p \<noteq> NULL \<longrightarrow>
     segment_holding (segments w') p \<noteq> None \<and> heap_area w' \<subseteq> dom (mem w')
     \<and> (\<forall>u. segments u = segments w' \<and> (\<forall>a \<in> heap_area w'. mem u a = mem w' a) \<longrightarrow> (\<exists>u'. dlfree H p u = Some u' \<and> heap_step u u'))))"

lemma heap_step_holds:
  assumes s: "heap_step w w'" and h: "holds code n M w" and a: "pages w \<inter> heap_area w = {}"
  shows "holds code n M w' \<and> pages w' = pages w \<and> pages w \<inter> heap_area w' = {}"
proof -
  have "mem w' a = mem w a \<and> a \<notin> heap_area w'" if "a \<in> pages w" for a
    using s that holds_pages [OF h] a unfolding heap_step_def by blast
  moreover from this s have "holds code n M w'" by (intro holds_frame [OF h]) (simp_all add: heap_step_def)
  moreover have "pages w' = pages w" using s by (simp add: heap_step_def pages_def)
  ultimately show ?thesis by blast
qed

lemma holds_store:
  assumes h: "holds code n M w" and s: "store (mem w) p bs = Some m" and a: "pages w \<inter> span p (length bs) = {}"
  shows "holds code n M (w\<lparr>mem := m\<rparr>)"
  by (rule holds_frame [OF h]) (use store_outside [OF s] a in auto)

lemma supported_passed: "tg_status (tg w) = TRAMP_GLOBALS_PASSED \<Longrightarrow> ffi_tramp_is_supported A S os w = Some (True, w)"
  by (simp add: ffi_tramp_is_supported_def ffi_tramp_init_def)

lemma exec_more: "tramp_world.more u = tramp_world.more w \<Longrightarrow> segments u = segments w \<and> ftramp u = ftramp w \<and> heap_area u = heap_area w"
  by (cases u; cases w) (simp add: heap_area_def)

lemma closure_free_ok:
  fixes w :: "'a exec_world_scheme"
  assumes os: "posix os" and st: "tg_status (tg w) = TRAMP_GLOBALS_PASSED" and h: "holds code n M w" and q: "q \<in> dom M"
    and few: "card (dom (tables w)) < 2 ^ 31 - 1" and a: "pages w \<inter> heap_area w = {}" and p: "ftramp w p = Some q"
    and free: "\<And>u. segments u = segments w \<Longrightarrow> (\<And>a. a \<in> heap_area w \<Longrightarrow> mem u a = mem w a) \<Longrightarrow> \<exists>u'. dlfree H p u = Some u' \<and> heap_step u u'"
  shows "\<exists>w'. ffi_closure_free A S os H p w = Some w' \<and> holds code n (M(q := None)) w'"
proof -
  obtain u where u: "ffi_tramp_free os q w = Some u" "\<forall>a. a \<notin> pages w \<longrightarrow> mem u a = mem w a" "pages u \<subseteq> pages w"
    "tramp_world.more u = tramp_world.more w" "holds code n (M(q := None)) u"
    using tramp_free_holds [OF os h q few] by blast
  note e = exec_more [OF u(4)]
  have "mem u a = mem w a" if "a \<in> heap_area w" for a using u(2) a that by blast
  with e obtain u' where u': "dlfree H p u = Some u'" "heap_step u u'" using free by blast
  have "pages u \<inter> heap_area u = {}" using e u(3) a by blast
  then have "holds code n (M(q := None)) u'" using heap_step_holds [OF u'(2) u(5)] by blast
  moreover have "ffi_closure_free A S os H p w = Some u'" by (simp add: ffi_closure_free_def supported_passed [OF st] p u(1) u'(1))
  ultimately show ?thesis by blast
qed

text \<open>The stores to \<open>*code\<close>, which lies neither in the heap nor in the pages of the trampolines.\<close>

lemma store_code:
  assumes "span c 8 \<subseteq> dom (mem w)" and h: "holds code n M w" and a: "span c 8 \<inter> (pages w \<union> heap_area w) = {}"
  shows "\<exists>m. store (mem w) c (le_bytes 8 v) = Some m \<and> holds code n M (w\<lparr>mem := m\<rparr>) \<and> load m c 8 = Some (le_bytes 8 v)
    \<and> dom m = dom (mem w) \<and> (\<forall>a \<in> heap_area w. m a = mem w a)"
proof -
  obtain m where m: "store (mem w) c (le_bytes 8 v) = Some m" using store_defined [of "mem w" c "le_bytes 8 v"] assms(1) by auto
  have "pages w \<inter> span c (length (le_bytes 8 v)) = {}" using a by auto
  note hm = holds_store [OF h m this]
  moreover have "m a = mem w a" if "a \<in> heap_area w" for a using store_outside [OF m, of a] a that by auto
  moreover have "load m c 8 = Some (le_bytes 8 v)" using load_store_same [OF m] by simp
  ultimately show ?thesis using m store_dom [OF m] by blast
qed

lemma closure_tramp:
  fixes w :: "'a exec_world_scheme"
  assumes os: "posix os" and mf: "maps_file os (tg_fd (tg w)) (tg_offset (tg w)) code" "length code = 0x1000"
    and st: "tg_status (tg w) = TRAMP_GLOBALS_PASSED" and h: "holds code n M w" and few: "card (dom (tables w)) < 2 ^ 31 - 2"
    and c: "span c 8 \<subseteq> dom (mem w)" "span c 8 \<inter> (pages w \<union> heap_area w) = {}"
    and ha: "heap_area w \<subseteq> dom (mem w)" "pages w \<inter> heap_area w = {}"
  shows "\<exists>q u. ffi_tramp_alloc A S os 0 w = Some (q, u) \<and> segments u = segments w \<and> (\<forall>a \<in> heap_area w. mem u a = mem w a)
    \<and> pages u \<inter> heap_area u = {} \<and> span c 8 \<subseteq> dom (mem u) \<and> span c 8 \<inter> (pages u \<union> heap_area u) = {}
    \<and> tg_status (tg u) = TRAMP_GLOBALS_PASSED \<and> card (dom (tables u)) < 2 ^ 31 - 1 \<and> ftramp u = ftramp w
    \<and> (if q = NULL_TRAMP then holds code n M u
       else q \<notin> dom M \<and> (\<exists>a bs. holds code n (M(q \<mapsto> (a, bs))) u \<and> ffi_tramp_get_addr q u = Some a))"
proof -
  have few': "card (dom (tables w)) < 2 ^ 31" using few by simp
  obtain q u where u: "ffi_tramp_alloc A S os 0 w = Some (q, u)" "\<forall>a \<in> dom (mem w). mem u a = mem w a"
    "pages u \<subseteq> pages w \<union> - dom (mem w)" "tramp_world.more u = tramp_world.more w"
    "\<exists>a b. tg u = (tg w)\<lparr>tg_free_tables := a, tg_nfree_tables := b\<rparr>" "card (dom (tables u)) \<le> Suc (card (dom (tables w)))"
    "if q = NULL_TRAMP then holds code n M u else q \<notin> dom M \<and> (\<exists>a bs. holds code n (M(q \<mapsto> (a, bs))) u)"
    using tramp_alloc_holds [OF os mf st h few'] by blast
  note e = exec_more [OF u(4)]
  have addr: "ffi_tramp_get_addr q u = Some a" if "holds code n (M(q \<mapsto> (a, bs))) u" for a bs
  proof -
    from that have "tramp_view u q = Some (a, bs)" by (auto simp: holds_def)
    then show ?thesis by (auto simp: tramp_view_def ffi_tramp_get_addr_def split: bind_splits simp del: load.simps)
  qed
  show ?thesis
  proof (intro exI [of _ q] exI [of _ u] conjI)
    have "pages u \<inter> heap_area w = {}" "span c 8 \<inter> (pages u \<union> heap_area w) = {}" using u(3) c ha by blast+
    with e show "pages u \<inter> heap_area u = {}" "span c 8 \<inter> (pages u \<union> heap_area u) = {}" by simp_all
    have "x \<in> dom (mem u)" if "x \<in> dom (mem w)" for x using u(2) that by (metis domIff)
    then show "span c 8 \<subseteq> dom (mem u)" using c(1) by blast
    show "\<forall>a \<in> heap_area w. mem u a = mem w a" using u(2) ha(1) by blast
    show "tg_status (tg u) = TRAMP_GLOBALS_PASSED" using u(5) st by auto
    show "card (dom (tables u)) < 2 ^ 31 - 1" using u(6) few by simp
    show "if q = NULL_TRAMP then holds code n M u
       else q \<notin> dom M \<and> (\<exists>a bs. holds code n (M(q \<mapsto> (a, bs))) u \<and> ffi_tramp_get_addr q u = Some a)"
      using u(7) addr by (cases "q = NULL_TRAMP") (simp_all only: if_True if_False simp_thms, blast)
  qed (use u(1) e in simp_all)
qed

text \<open>A closure that has got its trampoline: the address is stored, and the closure can be freed.\<close>

lemma closure_gets_tramp:
  fixes w :: "'a exec_world_scheme"
  assumes os: "posix os" and st: "tg_status (tg w) = TRAMP_GLOBALS_PASSED" and h: "holds code n (M(q \<mapsto> (a, bs))) w" and q: "q \<notin> dom M"
    and few: "card (dom (tables w)) < 2 ^ 31 - 1" and ap: "pages w \<inter> heap_area w = {}"
    and c: "span c 8 \<subseteq> dom (mem w)" "span c 8 \<inter> (pages w \<union> heap_area w) = {}" and seg: "segment_holding (segments w) p \<noteq> None"
    and free: "\<And>u. segments u = segments w \<Longrightarrow> (\<And>a. a \<in> heap_area w \<Longrightarrow> mem u a = mem w a) \<Longrightarrow> \<exists>u'. dlfree H p u = Some u' \<and> heap_step u u'"
  shows "\<exists>m u. store (mem w) c (le_bytes 8 a) = Some m \<and> u = w\<lparr>mem := m, ftramp := (ftramp w)(p \<mapsto> q)\<rparr> \<and> ftramp u p = Some q
    \<and> holds code n (M(q \<mapsto> (a, bs))) u \<and> load (mem u) c 8 = Some (le_bytes 8 a) \<and> ffi_tramp_is_present A S os p u = Some (True, u)
    \<and> (\<exists>w2. ffi_closure_free A S os H p u = Some w2 \<and> holds code n M w2)"
proof -
  obtain m where m: "store (mem w) c (le_bytes 8 a) = Some m" "holds code n (M(q \<mapsto> (a, bs))) (w\<lparr>mem := m\<rparr>)"
    "load m c 8 = Some (le_bytes 8 a)" "\<forall>a \<in> heap_area w. m a = mem w a"
    using store_code [OF c(1) h c(2), of a] by blast
  let ?u = "w\<lparr>mem := m, ftramp := (ftramp w)(p \<mapsto> q)\<rparr>"
  have h4: "holds code n (M(q \<mapsto> (a, bs))) ?u" by (rule holds_frame [OF m(2)]) simp_all
  have g4: "heap_area ?u = heap_area w" "pages ?u = pages w" by (simp_all add: heap_area_def pages_def)
  have "\<exists>w'. ffi_closure_free A S os H p ?u = Some w' \<and> holds code n ((M(q \<mapsto> (a, bs)))(q := None)) w'"
  proof (rule closure_free_ok [OF os _ h4])
    fix u :: "'a exec_world_scheme" assume u: "segments u = segments ?u" "\<And>a. a \<in> heap_area ?u \<Longrightarrow> mem u a = mem ?u a"
    show "\<exists>u'. dlfree H p u = Some u' \<and> heap_step u u'" by (rule free) (use u g4 m(4) in simp_all)
  qed (use st few ap g4 in simp_all)
  moreover have "(M(q \<mapsto> (a, bs)))(q := None) = M" using q by (auto simp: fun_eq_iff)
  ultimately have "\<exists>w2. ffi_closure_free A S os H p ?u = Some w2 \<and> holds code n M w2" by simp
  moreover have "ffi_tramp_is_present A S os p ?u = Some (True, ?u)" by (rule is_present_passed) (use seg st in simp_all)
  moreover have "ftramp ?u p = Some q" "load (mem ?u) c 8 = Some (le_bytes 8 a)" using m(3) by simp_all
  ultimately show ?thesis using m(1) h4 by (intro exI [of _ m]) (simp del: load.simps)
qed

text \<open>After \<open>dlmalloc\<close> has returned a block.\<close>

lemma closure_alloc_block:
  fixes w :: "'a exec_world_scheme"
  assumes os: "posix os" and mf: "maps_file os (tg_fd (tg w)) (tg_offset (tg w)) code" "length code = 0x1000"
    and st: "tg_status (tg w) = TRAMP_GLOBALS_PASSED" and h: "holds code n M w" and few: "card (dom (tables w)) < 2 ^ 31 - 2"
    and run: "dlmalloc H len u0 = Some (p, w)" and p: "p \<noteq> NULL" "c \<noteq> NULL" and seg: "segment_holding (segments w) p = Some seg"
    and ap: "pages w \<inter> heap_area w = {}" "heap_area w \<subseteq> dom (mem w)"
    and c: "span c 8 \<subseteq> dom (mem w)" "span c 8 \<inter> (pages w \<union> heap_area w) = {}"
    and free: "\<And>u. segments u = segments w \<Longrightarrow> (\<And>a. a \<in> heap_area w \<Longrightarrow> mem u a = mem w a) \<Longrightarrow> \<exists>u'. dlfree H p u = Some u' \<and> heap_step u u'"
  shows "\<exists>p w1. ffi_closure_alloc A S os H len c u0 = Some (p, w1) \<and>
    (if p = NULL then holds code n M w1
     else \<exists>q a bs. q \<notin> dom M \<and> ftramp w1 p = Some q \<and> holds code n (M(q \<mapsto> (a, bs))) w1 \<and> load (mem w1) c 8 = Some (le_bytes 8 a)
       \<and> ffi_tramp_is_present A S os p w1 = Some (True, w1) \<and> (\<exists>w2. ffi_closure_free A S os H p w1 = Some w2 \<and> holds code n M w2))"
proof -
  obtain m where m: "store (mem w) c (le_bytes 8 (add_segment_exec_offset p seg)) = Some m" "holds code n M (w\<lparr>mem := m\<rparr>)"
    "dom m = dom (mem w)" "\<forall>a \<in> heap_area w. m a = mem w a"
    using store_code [OF c(1) h c(2)] by blast
  let ?w = "w\<lparr>mem := m\<rparr>"
  have g: "heap_area ?w = heap_area w" "pages ?w = pages w" by (simp_all add: heap_area_def pages_def)
  obtain q u where u: "ffi_tramp_alloc A S os 0 ?w = Some (q, u)" "segments u = segments w" "\<forall>a \<in> heap_area w. mem u a = m a"
    "pages u \<inter> heap_area u = {}" "span c 8 \<subseteq> dom (mem u)" "span c 8 \<inter> (pages u \<union> heap_area u) = {}"
    "tg_status (tg u) = TRAMP_GLOBALS_PASSED" "card (dom (tables u)) < 2 ^ 31 - 1"
    "if q = NULL_TRAMP then holds code n M u
     else q \<notin> dom M \<and> (\<exists>a bs. holds code n (M(q \<mapsto> (a, bs))) u \<and> ffi_tramp_get_addr q u = Some a)"
    using closure_tramp [of os ?w code n M c A S] os mf st few m c ap g by auto
  have hu: "heap_area u = heap_area w" using u(2) by (simp add: heap_area_def)
  have free': "\<exists>u'. dlfree H p v = Some u' \<and> heap_step v u'" if "segments v = segments u" "\<And>a. a \<in> heap_area u \<Longrightarrow> mem v a = mem u a" for v
    by (rule free) (use that u(2,3) m(4) hu in simp_all)
  note start = p run seg m(1) supported_passed [of ?w A S os] st u(1)
  show ?thesis
  proof (cases "q = NULL_TRAMP")
    case True
    obtain u4 where u4: "dlfree H p u = Some u4" "heap_step u u4" using free' [of u] by blast
    have "holds code n M u4" using heap_step_holds [OF u4(2) _ u(4)] u(9) True by simp
    moreover have "ffi_closure_alloc A S os H len c u0 = Some (NULL, u4)" using start True u4(1) by (simp add: ffi_closure_alloc_def)
    ultimately show ?thesis by (intro exI [of _ NULL] exI [of _ u4]) simp
  next
    case q: False
    then obtain a bs where a: "q \<notin> dom M" "holds code n (M(q \<mapsto> (a, bs))) u" "ffi_tramp_get_addr q u = Some a" using u(9) by auto
    have s: "segment_holding (segments u) p \<noteq> None" using seg u(2) by simp
    obtain m3 v where v: "store (mem u) c (le_bytes 8 a) = Some m3" "v = u\<lparr>mem := m3, ftramp := (ftramp u)(p \<mapsto> q)\<rparr>" "ftramp v p = Some q"
      "holds code n (M(q \<mapsto> (a, bs))) v" "load (mem v) c 8 = Some (le_bytes 8 a)" "ffi_tramp_is_present A S os p v = Some (True, v)"
      "\<exists>w2. ffi_closure_free A S os H p v = Some w2 \<and> holds code n M w2"
      using closure_gets_tramp [OF os u(7) a(2,1) u(8,4,5,6) s free', of A S] by blast
    have "ffi_closure_alloc A S os H len c u0 = Some (p, v)" using start q a(3) v(1,2) by (simp add: ffi_closure_alloc_def)
    then show ?thesis by (intro exI [of _ p] exI [of _ v] conjI, assumption, unfold if_not_P [OF p(1)])
      (intro exI [of _ q] exI [of _ a] exI [of _ bs] conjI v(3-7) a(1))
  qed
qed

section \<open>A machine with a closure\<close>

text \<open>One table of 128 trampolines, all in use; the sixth is that of a closure of a function of an \<open>int\<close> and an
  unsigned byte that returns nothing.\<close>

definition tramp_page :: "byte list" where
  "tramp_page = trampoline_table False [0, 0] []"

definition exec_boot :: exec_world where
  "exec_boot = \<lparr>script = [0x3000, 0x4000], live = [0x1000 \<mapsto> 56, 0x2000 \<mapsto> 5120], find_class = (\<lambda>_. True), pending = None,
     types = image_types, ptrs = [0x9100 \<mapsto> [image_symbol ffi_type_sint32, image_symbol ffi_type_uint8]], symbol = image_symbol,
     mem = map_block 0x40000 (replicate sizeof_ffi_closure 0) (map_block 0x10000 (tramp_page @ replicate 0x1000 0) Map.empty),
     stack_top = 0x7fff0000, garbage = (\<lambda>_. 0xCC), stale = (\<lambda>_. 0xDEAD),
     ctxs = [0x9000 \<mapsto> zero_ctx\<lparr>cc_cif := zero_cif\<lparr>cif_abi := FFI_UNIX64, cif_nargs := 2, cif_arg_types := 0x9100,
                                 cif_rtype := image_symbol ffi_type_void\<rparr>\<rparr>],
     ints = Map.empty, self = 0, specific = (\<lambda>_. NULL), tdata = Map.empty, errno = (\<lambda>_. 0),
     tg = busy_tg, tables = [0x1000 \<mapsto> busy_table],
     tramps = (\<lambda>q. if q \<in> slots 0x2000 128 then Some (busy_tramp (snd q)) else None),
     junk_tramp = (\<lambda>_. \<lparr>tr_prev = (1, 1), tr_next = (1, 1), tr_table = 1, tr_code = 1, tr_parm = 1\<rparr>),
     junk_table = (\<lambda>_. \<lparr>tt_prev = 1, tt_next = 1, tt_code_table = 1, tt_parm_table = 1, tt_array = 1, tt_free = (1, 1), tt_nfree = 1\<rparr>),
     clock = 0, opts_idx = 0, last_mounts = None, last_mntent = None,
     segments = [\<lparr>seg_base = 0x40000, seg_size = 56, seg_exec_offset = 0\<rparr>], ftramp = [0x40000 \<mapsto> (0x2000, 5)],
     execfd = - 1, execsize = 0, selinux_enabled = - 1, cached_pax_flags = - 1, page_size = 0\<rparr>"


lemma tramp_page_length: "length tramp_page = 0x1000"
  by (simp add: tramp_page_def trampoline_table_def length_concat sum_list_replicate static_trampoline_def UNIX64_TRAMP_SIZE_def unat_div)

lemma exec_boot_holds: "holds tramp_page 128 (tramp_view exec_boot |` in_use (\<lambda>_. []) exec_boot) exec_boot"
proof -
  let ?m = "map_block 0x10000 (tramp_page @ replicate 0x1000 0) Map.empty"
  have l: "length (tramp_page @ replicate 0x1000 0) = 0x2000" by (simp add: tramp_page_length)
  have d: "dom ?m = span 0x10000 0x2000" by (simp only: map_block_dom l) simp
  have "length (tramp_page @ replicate 0x1000 0) \<le> 2 ^ 64" unfolding l by simp
  from load_map_block [OF this, of "0x10000" Map.empty] have f: "load ?m 0x10000 0x2000 = Some (tramp_page @ replicate 0x1000 0)" unfolding l .
  from load_slice [OF f, of 0 "0x1000"] have f0: "load ?m 0x10000 0x1000 = Some tramp_page" by (simp add: tramp_page_length)
  have "span 0x10000 0x1000 \<inter> span 0x40000 sizeof_ffi_closure = {}" by (rule spans_apart) simp_all
  then have "load (mem exec_boot) 0x10000 0x1000 = load ?m 0x10000 0x1000"
    by (intro load_cong) (auto simp: exec_boot_def intro!: map_block_outside)
  then have f1: "load (mem exec_boot) 0x10000 0x1000 = Some tramp_page" using f0 by simp
  have d1: "span 0x10000 0x2000 \<subseteq> dom (mem exec_boot)" by (auto simp: exec_boot_def map_block_dom tramp_page_length)
  have h: "heap_ok exec_boot" by (simp add: heap_ok_def exec_boot_def)
  have "tramps_ok tramp_page 128 (\<lambda>_. 128) (\<lambda>_. []) [] exec_boot"
    by (rule busy_parts_ok [OF h _ _ _ _ d1 f1]) (simp_all add: exec_boot_def)
  then show ?thesis by (rule holds_view)
qed

lemma exec_boot_has:
  "segment_holding (segments exec_boot) 0x40000 \<noteq> None" "tg_status (tg exec_boot) = TRAMP_GLOBALS_PASSED"
  "ftramp exec_boot 0x40000 = Some (0x2000, 5)" "tg_size (tg exec_boot) = UNIX64_TRAMP_SIZE False"
  by (simp_all add: exec_boot_def busy_tg_def UNIX64_TRAMP_SIZE_def)

section \<open>Properties\<close>



text \<open>Claim C22. The life of a closure of libffi's heap. While the file the trampolines are mapped from gives their code
  and the heap keeps to its memory, \<open>ffi_closure_alloc\<close> returns under any answers of the allocator and the system.
  If it returns \<open>NULL\<close>, every trampoline is as before. Otherwise the closure has a trampoline that was not in use,
  whose address is stored in \<open>*code\<close>, no other trampoline has changed, and \<open>ffi_closure_free\<close> of the closure
  gives its trampoline back.\<close>

theorem closure_alloc_free:
  fixes w :: "'a exec_world_scheme"
  assumes os: "posix os" and mf: "maps_file os (tg_fd (tg w)) (tg_offset (tg w)) code" "length code = 0x1000"
    and st: "tg_status (tg w) = TRAMP_GLOBALS_PASSED" and h: "holds code n M w" and few: "card (dom (tables w)) < 2 ^ 31 - 2"
    and heap: "dlheap_ok H" "pages w \<inter> heap_area w = {}"
    and c: "c \<noteq> NULL" "span c 8 \<subseteq> dom (mem w)" "span c 8 \<inter> (pages w \<union> heap_area w) = {}"
  shows "\<exists>p w1. ffi_closure_alloc A S os H len c w = Some (p, w1) \<and>
    (if p = NULL then holds code n M w1
     else \<exists>q a bs. q \<notin> dom M \<and> ftramp w1 p = Some q \<and> holds code n (M(q \<mapsto> (a, bs))) w1 \<and> load (mem w1) c 8 = Some (le_bytes 8 a)
       \<and> ffi_tramp_is_present A S os p w1 = Some (True, w1) \<and> (\<exists>w2. ffi_closure_free A S os H p w1 = Some w2 \<and> holds code n M w2))"
proof -
  obtain p u where u: "dlmalloc H len w = Some (p, u)" "heap_step w u"
    and p: "p \<noteq> NULL \<Longrightarrow> segment_holding (segments u) p \<noteq> None \<and> heap_area u \<subseteq> dom (mem u)
     \<and> (\<forall>v. segments v = segments u \<and> (\<forall>a \<in> heap_area u. mem v a = mem u a) \<longrightarrow> (\<exists>v'. dlfree H p v = Some v' \<and> heap_step v v'))"
    using heap(1) unfolding dlheap_ok_def by metis
  note h1 = heap_step_holds [OF u(2) h heap(2)]
  show ?thesis
  proof (cases "p = NULL")
    case True
    then have "ffi_closure_alloc A S os H len c w = Some (NULL, u)" using c(1) u(1) by (simp add: ffi_closure_alloc_def)
    with h1 show ?thesis by (intro exI [of _ NULL] exI [of _ u]) simp
  next
    case False
    obtain seg where seg: "segment_holding (segments u) p = Some seg" using p [OF False] by blast
    have "mem u a = mem w a \<and> a \<notin> heap_area u" if "a \<in> span c 8" for a using u(2) c(2,3) that unfolding heap_step_def by blast
    then have c1: "span c 8 \<subseteq> dom (mem u)" "span c 8 \<inter> (pages u \<union> heap_area u) = {}" using c(2,3) h1 by (auto simp: dom_def subset_eq)
    have h2: "holds code n M u" "pages u \<inter> heap_area u = {}" using h1 by simp_all
    have same: "tg u = tg w" "tables u = tables w" using u(2) by (simp_all add: heap_step_def)
    show ?thesis
      by (rule closure_alloc_block [OF os _ mf(2) _ h2(1) _ u(1) False c(1) seg h2(2) _ c1]) (use mf(1) st few same p [OF False] in simp_all)
  qed
qed

text \<open>A heap of one segment and one block, whose first byte says whether the block is in use; and a state with a
  place for the code address.\<close>

definition block_heap :: "('a exec_world_scheme) dlheap" where
  "block_heap = \<lparr>
     dlmalloc = (\<lambda>n w. if segments w = [\<lparr>seg_base = 0x40000, seg_size = 56, seg_exec_offset = 0\<rparr>] \<and> unat n \<le> 40
        \<and> mem w 0x40000 = Some 0 \<and> list_all (\<lambda>i. mem w (0x40000 + of_nat i) \<noteq> None) [0..<56]
       then Some (0x40010, w\<lparr>mem := (mem w)(0x40000 \<mapsto> 1)\<rparr>) else Some (NULL, w)),
     dlfree = (\<lambda>p w. if p = 0x40010 \<and> mem w 0x40000 = Some 1 then Some (w\<lparr>mem := (mem w)(0x40000 \<mapsto> 0)\<rparr>) else None)\<rparr>"

definition alloc_boot :: exec_world where
  "alloc_boot = exec_boot\<lparr>ftramp := Map.empty, mem := map_block 0x50000 (replicate 8 0) (mem exec_boot)\<rparr>"

lemma block_area: "segments w = [\<lparr>seg_base = 0x40000, seg_size = 56, seg_exec_offset = 0\<rparr>] \<Longrightarrow> heap_area w = span 0x40000 56"
  by (simp add: heap_area_def)

lemma block_heap_ok: "dlheap_ok block_heap"
  unfolding dlheap_ok_def
proof (intro allI)
  fix n :: size_t and w :: "'a exec_world_scheme"
  let ?seg = "\<lparr>seg_base = 0x40000, seg_size = 56, seg_exec_offset = 0\<rparr>"
  let ?ok = "segments w = [?seg] \<and> unat n \<le> 40 \<and> mem w 0x40000 = Some 0 \<and> list_all (\<lambda>i. mem w (0x40000 + of_nat i) \<noteq> None) [0..<56]"
  have step: "heap_step w w" for w :: "'a exec_world_scheme" by (simp add: heap_step_def)
  have first: "0x40000 \<in> span 0x40000 56" by (simp add: span_iff) (rule exI [of _ 0], simp)
  have set: "heap_step w (w\<lparr>mem := (mem w)(0x40000 \<mapsto> v)\<rparr>)" if "segments w = [?seg]" for w :: "'a exec_world_scheme" and v
    using first block_area [OF that] block_area [of "w\<lparr>mem := (mem w)(0x40000 \<mapsto> v)\<rparr>"] that by (auto simp: heap_step_def)
  show "\<exists>p w'. dlmalloc block_heap n w = Some (p, w') \<and> heap_step w w' \<and> (p \<noteq> NULL \<longrightarrow>
     segment_holding (segments w') p \<noteq> None \<and> heap_area w' \<subseteq> dom (mem w')
     \<and> (\<forall>u :: 'a exec_world_scheme. segments u = segments w' \<and> (\<forall>a \<in> heap_area w'. mem u a = mem w' a) \<longrightarrow> (\<exists>u'. dlfree block_heap p u = Some u' \<and> heap_step u u')))"
  proof (cases ?ok)
    case False
    then have "dlmalloc block_heap n w = Some (NULL, w)" by (simp add: block_heap_def del: de_Morgan_conj)
    then show ?thesis using step by (intro exI [of _ NULL] exI [of _ w]) simp
  next
    case True
    let ?w = "w\<lparr>mem := (mem w)(0x40000 \<mapsto> 1)\<rparr>"
    have a: "heap_area ?w = span 0x40000 56" by (rule block_area) (use True in simp)
    have "span 0x40000 56 \<subseteq> dom (mem w)" using True by (auto simp: span_iff list_all_iff)
    then have in_dom: "heap_area ?w \<subseteq> dom (mem ?w)" unfolding a by auto
    have free: "\<exists>u'. dlfree block_heap 0x40010 u = Some u' \<and> heap_step u u'"
      if "segments u = segments ?w \<and> (\<forall>a \<in> heap_area ?w. mem u a = mem ?w a)" for u :: "'a exec_world_scheme"
      using that first set [of u 0] True unfolding a by (auto simp: block_heap_def)
    have got: "dlmalloc block_heap n w = Some (0x40010, ?w)" using True by (simp add: block_heap_def)
    have seg: "segment_holding (segments ?w) 0x40010 \<noteq> None" using True by simp
    have hs: "heap_step w ?w" using set [of w 1] True by blast
    have "\<forall>u :: 'a exec_world_scheme. segments u = segments ?w \<and> (\<forall>a \<in> heap_area ?w. mem u a = mem ?w a) \<longrightarrow> (\<exists>u'. dlfree block_heap 0x40010 u = Some u' \<and> heap_step u u')"
      using free by blast
    with got hs seg in_dom show ?thesis by blast
  qed
qed

lemma exec_boot_pages: "pages exec_boot = span 0x10000 0x2000"
  by (simp add: pages_def exec_boot_def busy_table_def)

theorem closure_alloc_free_witness:
  "\<forall>A S. \<exists>M p w1. holds tramp_page 128 M alloc_boot
     \<and> ffi_closure_alloc A S (two_pages_os tramp_page) block_heap 40 0x50000 alloc_boot = Some (p, w1) \<and>
    (if p = NULL then holds tramp_page 128 M w1
     else \<exists>q. q \<notin> dom M \<and> ftramp w1 p = Some q \<and> (\<exists>w2. ffi_closure_free A S (two_pages_os tramp_page) block_heap p w1 = Some w2 \<and> holds tramp_page 128 M w2))"
proof (intro allI)
  fix A S
  let ?M = "tramp_view exec_boot |` in_use (\<lambda>_. []) exec_boot"
  have pg: "pages alloc_boot = span 0x10000 0x2000" using exec_boot_pages by (simp add: alloc_boot_def pages_def)
  have hp: "heap_area alloc_boot = span 0x40000 56" by (rule block_area) (simp add: alloc_boot_def exec_boot_def)
  have ap: "pages alloc_boot \<inter> heap_area alloc_boot = {}" unfolding pg hp by (rule spans_apart) simp_all
  have c: "span 0x50000 8 \<subseteq> dom (mem alloc_boot)" by (auto simp: alloc_boot_def map_block_dom)
  have c': "span 0x50000 8 \<inter> (pages alloc_boot \<union> heap_area alloc_boot) = {}"
    unfolding pg hp using spans_apart [of "0x10000" "0x2000" "0x50000" 8] spans_apart [of "0x40000" 56 "0x50000" 8] by auto
  have "mem alloc_boot a = mem exec_boot a" if "a \<in> pages exec_boot" for a
    using that c' unfolding exec_boot_pages pg by (simp add: alloc_boot_def) (rule map_block_outside, auto)
  then have h: "holds tramp_page 128 ?M alloc_boot" by (intro holds_frame [OF exec_boot_holds]) (simp_all add: alloc_boot_def)
  have st: "tg_status (tg alloc_boot) = TRAMP_GLOBALS_PASSED" by (simp add: alloc_boot_def exec_boot_has(2))
  have few: "card (dom (tables alloc_boot)) < 2 ^ 31 - 2" by (simp add: alloc_boot_def exec_boot_def)
  have nz: "(0x50000 :: addr) \<noteq> NULL" by simp
  from closure_alloc_free [OF two_pages_posix two_pages_file tramp_page_length st h few block_heap_ok ap nz c c', of A S 40] h
  show "\<exists>M p w1. holds tramp_page 128 M alloc_boot
     \<and> ffi_closure_alloc A S (two_pages_os tramp_page) block_heap 40 0x50000 alloc_boot = Some (p, w1) \<and>
    (if p = NULL then holds tramp_page 128 M w1
     else \<exists>q. q \<notin> dom M \<and> ftramp w1 p = Some q \<and> (\<exists>w2. ffi_closure_free A S (two_pages_os tramp_page) block_heap p w1 = Some w2 \<and> holds tramp_page 128 M w2))"
    by (elim exE conjE) (intro exI conjI, assumption+, simp split: if_splits, blast)
qed







end
