(* ===== verification/Spec2Isabelle.thy ===== *)
theory Spec2Isabelle
  imports Jffi_Prelude Jffi_World Ffi_Types Ffi_Aggregate Jffi_Struct Ffi_Classify Ffi_Prep Jffi_Bytes
    Ffi_Call64 Jffi_CallContext Ffi_Integers Jffi_Thread Jffi_Jni Jffi_Array Jffi_Fast
    Jffi_MemoryIO Jffi_Pages Ffi_Closure Jffi_Closure Jffi_Upcall Jffi_Invoke Jffi_Library
    Jffi_LongDouble Jffi_Foreign Jffi_Descriptors Ffi_Win64 Ffi_Go Ffi_Raw
    Ffi_Dlist Ffi_Tramp Ffi_Tramp_Ok Ffi_Tramp_Life Ffi_Tramp_Init Ffi_Exec
begin

text \<open>
  jffi gives Java code access to native functions and memory. Its native half (\<^verbatim>\<open>jni/jffi\<close>) sits between
  the Java classes and libffi (\<^verbatim>\<open>jni/libffi\<close>, whose sources the repository carries): it builds type
  descriptors and call contexts, moves arguments from Java into C and results back, reads and writes raw
  memory, and makes C functions out of Java methods. This development models that half, together with the
  part of libffi it rests on, for one target: x86-64, System V ABI, POSIX, the default build options
  (\<open>FAULT_PROTECT_ENABLED\<close> is 0 on every platform; \<open>INT_BYPASS_FFI\<close> and \<open>LONG_BYPASS_FFI\<close> are defined).

  \<^bold>\<open>How programs are modelled.\<close> A C function is a function from a world to \<open>(result \<times> world) option\<close>, in the
  order of the source's statements. \<open>None\<close> is undefined behaviour (an access outside every object, a bad
  \<open>free\<close>, an unmapped byte), \<open>abort\<close>, or fuel that has run out; that an operation does not return \<open>None\<close>
  is therefore always part of what is proved. A Java exception is recorded as pending and native code goes
  on, as under JNI. The world is a record each component extends:
  \<^item> \<open>world\<close> (allocator answers still to come, allocated blocks, pending exception) in \<open>Jffi_World\<close>;
  \<^item> \<open>type_world\<close> (libffi's descriptors and their element arrays) in \<open>Ffi_Types\<close>;
  \<^item> \<open>mem_world\<close> (flat byte memory, stack) in \<open>Ffi_Call64\<close>;
  \<^item> call contexts, thread data, the virtual machine's state, magazines and closures on top of these, in
    \<open>Jffi_CallContext\<close>, \<open>Jffi_Thread\<close>, \<open>Jffi_Jni\<close> and \<open>Jffi_Closure\<close>.

  Integers have their C widths and wrap. What is outside the repository is a parameter: the virtual
  machine (tables of JNI functions over an arbitrary state), the operating system and the dynamic linker,
  the native functions that are called, the allocator (its list of answers). The documented behaviour a
  theorem needs of them is among its hypotheses. Bytes that C leaves undetermined come from functions
  (\<open>garbage\<close>, \<open>stale\<close>) about which nothing is assumed.

  \<^bold>\<open>Theories, sources and results.\<close>
  \<^item> \<open>Jffi_Prelude\<close>: integer types, \<open>p2j\<close> and \<open>j2p\<close> (\<^verbatim>\<open>jffi.h\<close>), \<open>FFI_ALIGN\<close> (\<^verbatim>\<open>ffi_common.h\<close>) and its meaning
    as rounding up. \<open>Jffi_Bytes\<close>: little-endian words, memory.
  \<^item> \<open>Jffi_World\<close>: \<open>malloc\<close>, \<open>calloc\<close>, \<open>free\<close>, \<^verbatim>\<open>Exception.c\<close>; the interfaces \<open>allocator\<close> and
    \<open>handle_constructor\<close> (a function that returns a handle or 0, with a function that frees it).
  \<^item> \<open>Ffi_Types\<close> (\<^verbatim>\<open>types.c\<close>, \<^verbatim>\<open>ffi.h.in\<close>, \<^verbatim>\<open>Type.c\<close>), \<open>Ffi_Aggregate\<close> (\<open>initialize_aggregate\<close>,
    \<open>ffi_get_struct_offsets\<close>; the struct layout of C as its specification), \<open>Jffi_Struct\<close> (\<^verbatim>\<open>Struct.c\<close>):
    struct, array and union descriptors are built without leaks, have the layout of C, and libffi computes
    the same layout (C1 to C5).
  \<^item> \<open>Ffi_Classify\<close> (\<open>classify_argument\<close>, \<open>examine_argument\<close> of \<^verbatim>\<open>ffi64.c\<close>) and \<open>Jffi_Descriptors\<close>: well-typed
    descriptors are preserved by \<open>newStruct\<close>, and their classification never gets stuck (C39). Unions are
    not part of that discipline; two lemmas show how libffi misclassifies them.
  \<^item> \<open>Ffi_Prep\<close> (\<open>ffi_prep_cif_core\<close> and \<open>_machdep\<close>) and \<open>Jffi_CallContext\<close> (\<^verbatim>\<open>CallContext.c\<close>): contexts are
    built without leaks, their parameter slots are those Java packs by, their fast-call flags are sound
    (C6 to C8).
  \<^item> \<open>Jffi_Thread\<close> (\<^verbatim>\<open>LastError.c\<close>, \<open>ThreadData\<close> in \<^verbatim>\<open>Foreign.c\<close>): the saved error belongs to the thread and is
    given back with it (C9 to C11).
  \<^item> \<open>Jffi_Jni\<close> and \<open>Jffi_Array\<close> (\<^verbatim>\<open>Array.c\<close>): arrays copied in and out, their failures, their release
    (C12, C14 to C16).
  \<^item> \<open>Ffi_Call64\<close> (\<open>ffi_call\<close> with the stub \<open>ffi_call_unix64\<close> of \<^verbatim>\<open>unix64.S\<close>, and \<open>ffi_closure_unix64_inner\<close>) and
    \<open>Ffi_Integers\<close>: what the target of an integer call finds in its registers, and what is stored (C17).
  \<^item> \<open>Jffi_Fast\<close> (\<^verbatim>\<open>FastNumeric.h\<close>, \<^verbatim>\<open>FastIntInvoke.c\<close>, \<^verbatim>\<open>FastLongInvoke.c\<close>, \<^verbatim>\<open>FastNumericInvoker.c\<close>): the direct call
    is equivalent to the call through libffi; refused objects stop a call (C18, C19).
  \<^item> \<open>Jffi_Invoke\<close> (\<^verbatim>\<open>Invoke.c\<close>): the same two results for calls with a parameter buffer (C36, C37).
  \<^item> \<open>Jffi_MemoryIO\<close> (\<^verbatim>\<open>MemoryIO.c\<close>, \<^verbatim>\<open>deprecated.c\<close>): values, arrays, strings and blocks in raw memory
    (C20, C21, C26). \<open>Jffi_Pages\<close> (\<^verbatim>\<open>MemoryUtil.c\<close>, \<^verbatim>\<open>Memory.c\<close>): pages and mappings (C28).
  \<^item> \<open>Ffi_Closure\<close> (\<open>ffi_prep_closure_loc\<close>, the trampoline, the entry in \<^verbatim>\<open>unix64.S\<close>): a native call of a closure
    (C29). \<open>Jffi_Closure\<close> and \<open>Jffi_Upcall\<close> (\<^verbatim>\<open>ClosureMagazine.c\<close>): magazines, the calling thread, the way from
    a native call to the Java method and back (C30 to C35).
  \<^item> \<open>Ffi_Win64\<close> (\<^verbatim>\<open>ffiw64.c\<close>, \<^verbatim>\<open>win64.S\<close>): the Microsoft calling convention, which libffi offers on System V
    systems, too: whatever arguments \<open>ffi_call\<close> is given, the function of a closure called this way finds their
    bytes (C23). \<open>Ffi_Go\<close> (\<open>ffi_call_go\<close>, \<open>ffi_prep_go_closure\<close> and the \<open>ffi_go_closure\<close> entries): a Go closure
    behaves as an ordinary one with itself for user data. \<open>Ffi_Raw\<close> (\<^verbatim>\<open>raw_api.c\<close>, \<^verbatim>\<open>java_raw_api.c\<close>): the two
    packed formats are instances of the interface \<open>raw_format\<close>; what a raw closure's function is handed
    unpacks to the caller's arguments.
  \<^item> \<open>Ffi_Tramp\<close> (\<^verbatim>\<open>tramp.c\<close> and \<open>open_temp_exec_file\<close> of \<^verbatim>\<open>closures.c\<close>): the static trampolines of libffi. \<open>Ffi_Dlist\<close>
    has the interface of nodes of a doubly linked list, which trampolines and their tables interpret;
    \<open>Ffi_Tramp_Ok\<close> the invariant of the tables and the operations on their lists; \<open>Ffi_Tramp_Life\<close> the refinement
    of a map from the trampolines in use to their addresses and parameters (C13, C24); \<open>Ffi_Tramp_Init\<close>
    that the initialisation ends and establishes the invariant (C27). \<open>Ffi_Exec\<close> (the rest of \<^verbatim>\<open>closures.c\<close>, the
    \<open>_alt\<close> entries and the trampolines of \<^verbatim>\<open>unix64.S\<close>): libffi's own closures; what
    \<open>ffi_closure_alloc\<close> takes \<open>ffi_closure_free\<close> gives back (C22), a call through a static trampoline
    reaches the function as one through an ordinary closure does (C25), and a closure outside libffi's heap, as
    jffi's are, is prepared as an ordinary one.
  \<^item> \<open>Jffi_Library\<close> (\<^verbatim>\<open>Library.c\<close>): names handed to the dynamic linker (C38). \<open>Jffi_LongDouble\<close>
    (\<^verbatim>\<open>LongDouble.c\<close>): \<open>long double\<close> as bytes and as text (C40). \<open>Jffi_Foreign\<close> (\<^verbatim>\<open>Foreign.c\<close>, \<^verbatim>\<open>Internals.c\<close>): the
    remaining entry points; what \<open>defineClass\<close> borrows from the virtual machine it gives back.

  \<^bold>\<open>Fuel.\<close> The recursions of libffi through descriptors (\<open>initialize_aggregate\<close>, \<open>classify_argument\<close>) are
  bounded by the nesting of structs; the fuel of \<open>ffi_prep_cif\<close> and \<open>ffi_call\<close> is passed down to them.
  C39 shows that the nesting depth and two are enough, and the theorems about integer calls hold for every
  positive fuel. Loops over arrays recurse on their length; \<open>strlen\<close> and the chunked copies are partial
  functions whose termination is proved (C21 and \<open>strlen_terminates\<close>). The search of \<open>open_temp_exec_file\<close> has as much fuel as it
  has options, which C27 shows to be enough; \<open>allocate_space\<close> has a round for every byte; the number of files
  \<open>dlmmap_locked\<close> tries is an argument.

  \<^bold>\<open>Not modelled.\<close> libffi's back ends for other processors and operating systems, and jffi's branches for
  them (Windows, Darwin, AIX); libffi's closure heap \<^verbatim>\<open>dlmalloc.c\<close>, a copy of a third-party
  allocator, which is a parameter of \<open>Ffi_Exec\<close>; complex types, which have no jffi type code; the fault
  protection (\<^verbatim>\<open>FaultProtect.c\<close>, \<^verbatim>\<open>setjmp.c\<close>, \<^verbatim>\<open>longjmp.c\<close>), which no build enables; the tests. Concurrency: each
  operation runs to its end before the next; where threads matter (saved errors, attached threads) the
  calling thread is part of the world, and C31 states its invariant over any sequence of operations.
\<close>

end
